(* ===== verification/Prelude.thy ===== *)
theory Prelude
  imports Main "HOL-Library.Word" "HOL-Library.AList" "HOL-Library.Char_ord"
    "HOL-Library.List_Lexorder"
begin

text \<open>
  Types, hint collections and generic lemmas shared by the components.

  Go's fixed-width integers are words of their width: unsigned values are read with \<open>unat\<close>,
  signed ones with \<open>sint\<close>.  A Go \<open>string\<close> is a sequence of bytes, which is what Isabelle's
  \<open>char list\<close> is (a \<open>char\<close> has 256 values); a \<open>[]byte\<close> is a list of 8-bit words.  The
  conversions \<open>[]byte(s)\<close> and \<open>string(b)\<close> are \<open>bytes_of\<close> and \<open>str_of\<close>.
  A fallible Go function returns \<open>error + 'a\<close>: \<open>Inl\<close> for the error, \<open>Inr\<close> for the value.
\<close>

section \<open>Machine types\<close>

type_synonym byte = "8 word"
type_synonym u8 = "8 word"
type_synonym u16 = "16 word"
type_synonym u32 = "32 word"
type_synonym u64 = "64 word"
type_synonym i32 = "32 word"
type_synonym i64 = "64 word"

type_synonym player_id = u32
type_synonym tunnel_id = u32
type_synonym session_id = u32

text \<open>Hint collections: what the wire-format proofs, the state-machine proofs and the
  evaluation of closed terms share.\<close>

named_theorems wire_simps \<open>equations of the field encoders and of the decoding loop\<close>
named_theorems step_simps \<open>equations of the state-changing operations\<close>
named_theorems inv_intros \<open>preservation of the components' invariants\<close>

section \<open>Byte strings\<close>

definition bytes_of :: "string \<Rightarrow> byte list" where
  "bytes_of s = map of_char s"

definition str_of :: "byte list \<Rightarrow> string" where
  "str_of bs = map (\<lambda>b. char_of (unat b)) bs"

lemma unat_of_char [simp]: "unat (of_char c :: byte) = (of_char c :: nat)"
proof -
  have "(of_char c :: byte) = of_nat (of_char c)"
    by (simp add: of_nat_of_char)
  then have "unat (of_char c :: byte) = unat (of_nat (of_char c) :: byte)"
    by simp
  also have "\<dots> = (of_char c :: nat) mod 2 ^ 8"
    by (simp add: unat_of_nat)
  also have "\<dots> = of_char c"
    using nat_of_char_less_256 [of c] by simp
  finally show ?thesis .
qed

lemma char_of_unat_of_char: "char_of (unat (of_char c :: byte)) = c"
  by simp

lemma str_of_bytes_of [simp]: "str_of (bytes_of s) = s"
  by (induction s) (simp_all add: bytes_of_def str_of_def)

lemma bytes_of_str_of [simp]: "bytes_of (str_of b) = b"
proof -
  have "of_char (char_of (unat x)) = x" for x :: byte
  proof -
    have "unat x < 256" using unsigned_less [of x] by simp
    then have "(of_char (char_of (unat x) :: char) :: nat) = unat x" by simp
    then have "unat (of_char (char_of (unat x)) :: byte) = unat x" by (simp only: unat_of_char)
    then show ?thesis by (rule unsigned_word_eqI)
  qed
  then show ?thesis by (simp add: bytes_of_def str_of_def comp_def)
qed

lemma length_bytes_of [simp]: "length (bytes_of s) = length s"
  by (simp add: bytes_of_def)

lemma length_str_of [simp]: "length (str_of b) = length b"
  by (simp add: str_of_def)

lemma bytes_of_inject [simp]: "bytes_of s = bytes_of t \<longleftrightarrow> s = t"
  by (metis str_of_bytes_of)

lemma bytes_of_eq_Nil [simp]: "bytes_of s = [] \<longleftrightarrow> s = []"
  by (simp add: bytes_of_def)

end
