(* ===== verification/Pb_Types.thy ===== *)
theory Pb_Types
  imports Prelude
begin

text \<open>
  \<open>internal/pb/types.go\<close>: the protocol messages exchanged by client and server.  Each Go struct is
  a record (fields prefixed, since record fields share one name space); the \<open>proto.Message\<close>
  interface is the datatype \<open>message\<close> with one constructor per pointer type.  Signed 32- and 64-bit
  fields are words read by \<open>sint\<close>.
\<close>

record tunnel_point =
  tp_addr :: string

record pb_tunnel =
  pt_source :: "tunnel_point option"
  pt_endpoint :: "tunnel_point option"
  pt_id :: u32
  pt_enabled :: bool
  pt_sender :: u32
  pt_receiver :: u32
  pt_tunnel_type :: i32
  pt_password :: string
  pt_username :: string
  pt_is_compressed :: bool
  pt_encryption_method :: string
  pt_custom_mapping :: "(string \<times> string) list"

record login_req =
  lr_version :: string
  lr_username :: string
  lr_password :: string
  lr_platform :: string
  lr_updater_version :: u32
  lr_upgrade_task_id :: string
  lr_upgrade_state :: string
  lr_upgrade_error :: string

record register_req =
  rr_username :: string
  rr_password :: string

record management_login_req =
  mr_username :: string
  mr_password :: string

record login_ack =
  la_player_id :: u32
  la_tunnel_list :: "pb_tunnel list"
  la_supports_runtime_report :: bool

record management_login_ack =
  ma_code :: i32

record modify_tunnel_ntf =
  mt_is_delete :: bool
  mt_tunnel :: "pb_tunnel option"

record tunnel_runtime_report =
  tr_tunnel_id :: u32
  tr_component :: string
  tr_running :: bool
  tr_error :: string

record upgrade_offer =
  uo_task_id :: string
  uo_version :: string
  uo_platform :: string
  uo_size :: i64
  uo_sha256 :: string
  uo_signature :: string
  uo_chunk_size :: u32

record upgrade_chunk =
  uc_task_id :: string
  uc_offset :: i64
  uc_data :: "byte list"
  uc_sha256 :: string
  uc_eof :: bool

record upgrade_status_report =
  us_task_id :: string
  us_state :: string
  us_offset :: i64
  us_error :: string

record pb_error =
  pe_number :: i32
  pe_message :: string

record pb_ping =
  pp_ticks :: i64

record pb_i2o_connect =
  ic_tunnel_id :: u32
  ic_session_id :: u32
  ic_tunnel_type :: u32
  ic_is_tcp :: bool
  ic_is_compressed :: bool
  ic_addr :: string
  ic_encryption_method :: string
  ic_encryption_key :: string
  ic_client_addr :: string

record pb_o2i_connect =
  oc_tunnel_id :: u32
  oc_session_id :: u32
  oc_success :: bool
  oc_error_info :: string

text \<open>The messages that carry data, and the ones that carry data and an address.\<close>

record pb_data =
  pd_tunnel_id :: u32
  pd_session_id :: u32
  pd_data :: "byte list"

record pb_addr_data =
  pa_tunnel_id :: u32
  pa_session_id :: u32
  pa_data :: "byte list"
  pa_addr :: string

record pb_pair =
  px_tunnel_id :: u32
  px_session_id :: u32

record pb_result =
  ps_tunnel_id :: u32
  ps_session_id :: u32
  ps_data_len :: u32

text \<open>Structs with the same fields share a record; the constructor keeps the Go type apart.\<close>

datatype message =
    LoginReq login_req
  | RegisterReq register_req
  | ManagementLoginReq management_login_req
  | TunnelRuntimeReport tunnel_runtime_report
  | UpgradeStatusReport upgrade_status_report
  | LoginAck login_ack
  | ManagementLoginAck management_login_ack
  | ModifyTunnelNtf modify_tunnel_ntf
  | UpgradeOffer upgrade_offer
  | UpgradeChunk upgrade_chunk
  | Success
  | Fail pb_error
  | Error pb_error
  | Ping pb_ping
  | Pong pb_ping
  | PbI2OConnect pb_i2o_connect
  | PbO2IConnect pb_o2i_connect
  | PbI2OSendData pb_data
  | PbO2IRecvData pb_data
  | PbI2ODisconnect pb_pair
  | PbO2IDisconnect pb_pair
  | PbO2ISendDataResult pb_result
  | PbI2ORecvDataResult pb_result
  | PbI2OSendToData pb_addr_data
  | PbO2IRecvDataFrom pb_addr_data

definition error_code_none :: i32 where "error_code_none = 0"
definition error_code_internal_error :: i32 where "error_code_internal_error = - 1000"
definition error_code_interface_miss :: i32 where "error_code_interface_miss = - 1001"
definition error_code_player_not_login :: i32 where "error_code_player_not_login = - 1002"

end
