(* ===== verification/Wire.thy ===== *)
theory Wire
  imports Pb_Types
begin

text \<open>
  \<open>internal/proto/helpers.go\<close>: field encoders and decoders over the package
  \<open>google.golang.org/protobuf/encoding/protowire\<close>, and the loop every \<open>unmarshal\<close> function of
  \<open>internal/proto\<close> runs.

  \<open>protowire\<close> is not part of the repository, so its functions are a parameter: the record
  \<open>protowire\<close>, an argument of every definition that calls the package.  The locale
  \<open>protowire_laws\<close> states what the package documents: the \<open>Append\<close> functions append, each
  \<open>Consume\<close> function returns the value and the length of what the matching \<open>Append\<close> wrote, and a
  successful \<open>Consume\<close> stays within its input.  Field numbers and wire types are integers, as in
  the package; a negative length is an error code.
\<close>

section \<open>The package protowire as a parameter\<close>

record protowire =
  pw_append_tag :: "byte list \<Rightarrow> int \<Rightarrow> int \<Rightarrow> byte list"
  pw_append_varint :: "byte list \<Rightarrow> u64 \<Rightarrow> byte list"
  pw_append_bytes :: "byte list \<Rightarrow> byte list \<Rightarrow> byte list"
  pw_append_string :: "byte list \<Rightarrow> string \<Rightarrow> byte list"
  pw_consume_tag :: "byte list \<Rightarrow> int \<times> int \<times> int"
  pw_consume_field_value :: "int \<Rightarrow> int \<Rightarrow> byte list \<Rightarrow> int"
  pw_consume_varint :: "byte list \<Rightarrow> u64 \<times> int"
  pw_consume_bytes :: "byte list \<Rightarrow> byte list \<times> int"
  pw_consume_string :: "byte list \<Rightarrow> string \<times> int"

abbreviation (input) varint_type :: int where "varint_type \<equiv> 0"
abbreviation (input) bytes_type :: int where "bytes_type \<equiv> 2"

datatype proto_error =
    Parse_Error int
  | Field_Type_Error int int int
  | Unknown_Message_Id u32

section \<open>Field encoders\<close>

definition append_string_field :: "protowire \<Rightarrow> byte list \<Rightarrow> int \<Rightarrow> string \<Rightarrow> byte list" where
  "append_string_field pw b field v =
     (if v = '''' then b
      else pw_append_string pw (pw_append_tag pw b field bytes_type) v)"

definition append_bytes_field :: "protowire \<Rightarrow> byte list \<Rightarrow> int \<Rightarrow> byte list \<Rightarrow> byte list" where
  "append_bytes_field pw b field v =
     (if length v = 0 then b
      else pw_append_bytes pw (pw_append_tag pw b field bytes_type) v)"

definition append_bool_field :: "protowire \<Rightarrow> byte list \<Rightarrow> int \<Rightarrow> bool \<Rightarrow> byte list" where
  "append_bool_field pw b field v =
     (if \<not> v then b
      else pw_append_varint pw (pw_append_tag pw b field varint_type) 1)"

definition append_uint32_field :: "protowire \<Rightarrow> byte list \<Rightarrow> int \<Rightarrow> u32 \<Rightarrow> byte list" where
  "append_uint32_field pw b field v =
     (if v = 0 then b
      else pw_append_varint pw (pw_append_tag pw b field varint_type) (ucast v))"

definition append_int32_field :: "protowire \<Rightarrow> byte list \<Rightarrow> int \<Rightarrow> i32 \<Rightarrow> byte list" where
  "append_int32_field pw b field v =
     (if v = 0 then b
      else pw_append_varint pw (pw_append_tag pw b field varint_type) (scast v))"

definition append_int64_field :: "protowire \<Rightarrow> byte list \<Rightarrow> int \<Rightarrow> i64 \<Rightarrow> byte list" where
  "append_int64_field pw b field v =
     (if v = 0 then b
      else pw_append_varint pw (pw_append_tag pw b field varint_type) v)"

definition append_message_field :: "protowire \<Rightarrow> byte list \<Rightarrow> int \<Rightarrow> byte list \<Rightarrow> byte list" where
  "append_message_field pw b field payload =
     (if length payload = 0 then b
      else pw_append_bytes pw (pw_append_tag pw b field bytes_type) payload)"

section \<open>Field decoders\<close>

definition consume_field ::
  "protowire \<Rightarrow> byte list \<Rightarrow> proto_error + (int \<times> int \<times> byte list \<times> byte list)" where
  "consume_field pw data =
     (case pw_consume_tag pw data of
        (num, typ, n) \<Rightarrow>
          if n < 0 then Inl (Parse_Error n)
          else let m = pw_consume_field_value pw num typ (drop (nat n) data) in
            if m < 0 then Inl (Parse_Error m)
            else Inr (num, typ, take (nat m) (drop (nat n) data), drop (nat (n + m)) data))"

definition read_varint :: "protowire \<Rightarrow> byte list \<Rightarrow> proto_error + u64" where
  "read_varint pw data =
     (case pw_consume_varint pw data of (v, n) \<Rightarrow> if n < 0 then Inl (Parse_Error n) else Inr v)"

definition read_bytes :: "protowire \<Rightarrow> byte list \<Rightarrow> proto_error + byte list" where
  "read_bytes pw data =
     (case pw_consume_bytes pw data of (v, n) \<Rightarrow> if n < 0 then Inl (Parse_Error n) else Inr v)"

definition read_string :: "protowire \<Rightarrow> byte list \<Rightarrow> proto_error + string" where
  "read_string pw data =
     (case pw_consume_string pw data of (v, n) \<Rightarrow> if n < 0 then Inl (Parse_Error n) else Inr v)"

definition as_bool :: "u64 \<Rightarrow> bool" where
  "as_bool v \<longleftrightarrow> v \<noteq> 0"

definition as_int32 :: "u64 \<Rightarrow> i32" where
  "as_int32 v = ucast v"

definition as_int64 :: "u64 \<Rightarrow> i64" where
  "as_int64 v = v"

definition as_uint32 :: "u64 \<Rightarrow> u32" where
  "as_uint32 v = ucast v"

definition field_type_error :: "int \<Rightarrow> int \<Rightarrow> int \<Rightarrow> proto_error" where
  "field_type_error field typ want = Field_Type_Error field typ want"

text \<open>
  A decoder's result: \<open>None\<close> for a loop that has not ended, else the error or the value.  Reading a
  field and going on with its value, or failing with the read's error.
\<close>

type_synonym 'm outcome = "(proto_error + 'm) option"

definition with_varint :: "protowire \<Rightarrow> byte list \<Rightarrow> (u64 \<Rightarrow> 'm) \<Rightarrow> 'm outcome" where
  "with_varint pw field k = Some (map_sum id k (read_varint pw field))"

definition with_string :: "protowire \<Rightarrow> byte list \<Rightarrow> (string \<Rightarrow> 'm) \<Rightarrow> 'm outcome" where
  "with_string pw field k = Some (map_sum id k (read_string pw field))"

definition with_bytes :: "protowire \<Rightarrow> byte list \<Rightarrow> (byte list \<Rightarrow> 'm) \<Rightarrow> 'm outcome" where
  "with_bytes pw field k = Some (map_sum id k (read_bytes pw field))"

text \<open>A field that holds an embedded message: read its bytes and decode them.\<close>

definition with_message ::
  "protowire \<Rightarrow> byte list \<Rightarrow> (byte list \<Rightarrow> 'a outcome) \<Rightarrow> ('a \<Rightarrow> 'm) \<Rightarrow> 'm outcome" where
  "with_message pw field decode k =
     (case read_bytes pw field of
        Inl e \<Rightarrow> Some (Inl e)
      | Inr raw \<Rightarrow> map_option (map_sum id k) (decode raw))"

text \<open>A guard \<open>if typ != want { return fieldTypeError(...) }\<close> before the read.\<close>

definition expect_type :: "int \<Rightarrow> int \<Rightarrow> int \<Rightarrow> 'm outcome \<Rightarrow> 'm outcome" where
  "expect_type num typ want r =
     (if typ \<noteq> want then Some (Inl (field_type_error num typ want)) else r)"

text \<open>
  The loop \<open>for len(data) > 0 { consumeField; switch num {...}; data = rest }\<close>.  The body's
  \<open>switch\<close> is \<open>step\<close>.  One unit of fuel is one round.
\<close>

type_synonym 'm wire_step = "int \<Rightarrow> int \<Rightarrow> byte list \<Rightarrow> 'm \<Rightarrow> 'm outcome"

fun field_loop :: "protowire \<Rightarrow> 'm wire_step \<Rightarrow> nat \<Rightarrow> byte list \<Rightarrow> 'm \<Rightarrow> 'm outcome" where
  "field_loop pw step 0 data m = None"
| "field_loop pw step (Suc fuel) data m =
     (if length data > 0 then
        (case consume_field pw data of
           Inl e \<Rightarrow> Some (Inl e)
         | Inr (num, typ, field, rest) \<Rightarrow>
             (case step num typ field m of
                None \<Rightarrow> None
              | Some (Inl e) \<Rightarrow> Some (Inl e)
              | Some (Inr m') \<Rightarrow> field_loop pw step fuel rest m'))
      else Some (Inr m))"

text \<open>Every round of a lawful \<open>protowire\<close> consumes a byte, so this much fuel is enough.\<close>

definition unmarshal_loop :: "protowire \<Rightarrow> 'm wire_step \<Rightarrow> byte list \<Rightarrow> 'm \<Rightarrow> 'm outcome" where
  "unmarshal_loop pw step data m = field_loop pw step (Suc (length data)) data m"

definition total_step :: "'m wire_step \<Rightarrow> bool" where
  "total_step step \<longleftrightarrow> (\<forall>num typ field m. step num typ field m \<noteq> None)"

section \<open>The documented laws and the loop under them\<close>

lemma field_loop_mono:
  "field_loop pw step n data m = Some r \<Longrightarrow> n \<le> k \<Longrightarrow> field_loop pw step k data m = Some r"
proof (induction n arbitrary: k data m)
  case (Suc n)
  from \<open>Suc n \<le> k\<close> obtain j where "k = Suc j" "n \<le> j" by (cases k) auto
  with Suc show ?case by (auto split: if_splits sum.splits prod.splits option.splits)
qed simp

text \<open>
  The encoding of one field on its own, for the laws below: the code's encoders put it at the end
  of what is there.
\<close>

definition enc_string :: "protowire \<Rightarrow> int \<Rightarrow> string \<Rightarrow> byte list" where
  "enc_string pw f v = append_string_field pw [] f v"
definition enc_bytes :: "protowire \<Rightarrow> int \<Rightarrow> byte list \<Rightarrow> byte list" where
  "enc_bytes pw f v = append_bytes_field pw [] f v"
definition enc_bool :: "protowire \<Rightarrow> int \<Rightarrow> bool \<Rightarrow> byte list" where
  "enc_bool pw f v = append_bool_field pw [] f v"
definition enc_uint32 :: "protowire \<Rightarrow> int \<Rightarrow> u32 \<Rightarrow> byte list" where
  "enc_uint32 pw f v = append_uint32_field pw [] f v"
definition enc_int32 :: "protowire \<Rightarrow> int \<Rightarrow> i32 \<Rightarrow> byte list" where
  "enc_int32 pw f v = append_int32_field pw [] f v"
definition enc_int64 :: "protowire \<Rightarrow> int \<Rightarrow> i64 \<Rightarrow> byte list" where
  "enc_int64 pw f v = append_int64_field pw [] f v"

lemmas enc_defs = enc_string_def enc_bytes_def enc_bool_def enc_uint32_def enc_int32_def
  enc_int64_def
lemmas append_field_defs = append_string_field_def append_bytes_field_def
  append_message_field_def append_bool_field_def append_uint32_field_def append_int32_field_def
  append_int64_field_def

locale protowire_laws =
  fixes pw :: protowire
  assumes append_tag: "pw_append_tag pw b f t = b @ pw_append_tag pw [] f t"
    and append_varint: "pw_append_varint pw b v = b @ pw_append_varint pw [] v"
    and append_bytes: "pw_append_bytes pw b d = b @ pw_append_bytes pw [] d"
    and append_string: "pw_append_string pw b s = b @ pw_append_string pw [] s"
    and consume_tag: "1 \<le> f \<Longrightarrow> f < 2 ^ 29 \<Longrightarrow> t \<in> {varint_type, bytes_type} \<Longrightarrow>
      pw_consume_tag pw (pw_append_tag pw [] f t @ r) =
        (f, t, int (length (pw_append_tag pw [] f t)))"
    and consume_varint: "pw_consume_varint pw (pw_append_varint pw [] v @ r) =
        (v, int (length (pw_append_varint pw [] v)))"
    and consume_bytes: "pw_consume_bytes pw (pw_append_bytes pw [] d @ r) =
        (d, int (length (pw_append_bytes pw [] d)))"
    and consume_string: "pw_consume_string pw (pw_append_string pw [] s @ r) =
        (s, int (length (pw_append_string pw [] s)))"
    and value_varint: "pw_consume_field_value pw f varint_type (pw_append_varint pw [] v @ r) =
        int (length (pw_append_varint pw [] v))"
    and value_bytes: "pw_consume_field_value pw f bytes_type (pw_append_bytes pw [] d @ r) =
        int (length (pw_append_bytes pw [] d))"
    and value_string: "pw_consume_field_value pw f bytes_type (pw_append_string pw [] s @ r) =
        int (length (pw_append_string pw [] s))"
    and tag_progress: "pw_consume_tag pw data = (f, t, n) \<Longrightarrow> 0 \<le> n \<Longrightarrow>
        0 < n \<and> n \<le> int (length data)"
    and value_bound: "pw_consume_field_value pw f t data \<le> int (length data)"
begin

lemma append_tag_not_Nil: "1 \<le> f \<Longrightarrow> f < 2 ^ 29 \<Longrightarrow> t \<in> {varint_type, bytes_type} \<Longrightarrow>
   pw_append_tag pw [] f t \<noteq> []"
  using consume_tag [of f t "[]"] tag_progress [of "pw_append_tag pw [] f t" f t] by force

text \<open>A successful round leaves strictly less input.\<close>

lemma consume_field_progress:
  assumes "consume_field pw data = Inr (num, typ, field, rest)"
  shows "length rest < length data"
proof -
  obtain n' t' n where tag: "pw_consume_tag pw data = (n', t', n)"
    by (cases "pw_consume_tag pw data") auto
  with assms have n: "0 \<le> n" and rest: "\<exists>m \<ge> 0. rest = drop (nat (n + m)) data"
    by (auto simp: consume_field_def Let_def not_less split: if_splits)
  from tag_progress [OF tag n] rest show ?thesis by auto
qed

lemma field_loop_enough:
  "length data < n \<Longrightarrow> length data < k \<Longrightarrow> field_loop pw step n data m = field_loop pw step k data m"
proof (induction n arbitrary: k data m)
  case (Suc n)
  from Suc.prems obtain j where k: "k = Suc j" by (cases k) auto
  have eq: "field_loop pw step n rest m' = field_loop pw step j rest m'"
    if "consume_field pw data = Inr (num, t, field, rest)" for num t field rest m'
    using consume_field_progress [OF that] Suc.prems k by (intro Suc.IH) simp_all
  show ?case
    unfolding k field_loop.simps by (auto split: sum.split prod.split option.split intro: eq)
qed simp

lemma unmarshal_loop_terminates:
  assumes "total_step step"
  shows "\<exists>r. unmarshal_loop pw step data m = Some r"
proof -
  have "\<exists>r. field_loop pw step n data m = Some r" if "length data < n" for n
    using that
  proof (induction n arbitrary: data m)
    case (Suc n)
    have IH: "\<exists>r. field_loop pw step n rest m' = Some r"
      if "consume_field pw data = Inr (num, t, field, rest)" for num t field rest m'
      using consume_field_progress [OF that] Suc.prems by (intro Suc.IH) simp
    from assms have [simp]: "step num t field m' \<noteq> None" for num t field m'
      by (simp add: total_step_def)
    show ?case
      unfolding field_loop.simps
      by (auto split: sum.split prod.split option.split intro: IH)
  qed simp
  from this [OF lessI] show ?thesis unfolding unmarshal_loop_def .
qed

lemma unmarshal_loop_Nil [wire_simps]: "unmarshal_loop pw step [] m = Some (Inr m)"
  by (simp add: unmarshal_loop_def)

lemma unmarshal_loop_step:
  assumes "data \<noteq> []"
  shows "unmarshal_loop pw step data m =
    (case consume_field pw data of
       Inl e \<Rightarrow> Some (Inl e)
     | Inr (num, typ, field, rest) \<Rightarrow>
         (case step num typ field m of
            None \<Rightarrow> None
          | Some (Inl e) \<Rightarrow> Some (Inl e)
          | Some (Inr m') \<Rightarrow> unmarshal_loop pw step rest m'))"
proof -
  have first: "unmarshal_loop pw step data m =
    (case consume_field pw data of
       Inl e \<Rightarrow> Some (Inl e)
     | Inr (num, typ, field, rest) \<Rightarrow>
         (case step num typ field m of
            None \<Rightarrow> None
          | Some (Inl e) \<Rightarrow> Some (Inl e)
          | Some (Inr m') \<Rightarrow> field_loop pw step (length data) rest m'))"
    using assms by (simp add: unmarshal_loop_def)
  have tail: "field_loop pw step (length data) rest m' = unmarshal_loop pw step rest m'"
    if "length rest < length data" for rest m'
    unfolding unmarshal_loop_def by (rule field_loop_enough [OF that lessI])
  show ?thesis
    unfolding first
    by (auto split: sum.split prod.split option.split dest: consume_field_progress intro: tail)
qed

text \<open>One field at the head of the input: its tag and its value are read off and passed on.\<close>

lemma consume_field_bytes:
  assumes "1 \<le> f" "f < 2 ^ 29"
  shows "consume_field pw (pw_append_tag pw [] f bytes_type @ pw_append_bytes pw [] v @ rest) =
    Inr (f, bytes_type, pw_append_bytes pw [] v, rest)"
  using assms by (simp add: consume_field_def consume_tag value_bytes nat_add_distrib)

lemma consume_field_string:
  assumes "1 \<le> f" "f < 2 ^ 29"
  shows "consume_field pw (pw_append_tag pw [] f bytes_type @ pw_append_string pw [] v @ rest) =
    Inr (f, bytes_type, pw_append_string pw [] v, rest)"
  using assms by (simp add: consume_field_def consume_tag value_string nat_add_distrib)

lemma consume_field_varint:
  assumes "1 \<le> f" "f < 2 ^ 29"
  shows "consume_field pw (pw_append_tag pw [] f varint_type @ pw_append_varint pw [] v @ rest) =
    Inr (f, varint_type, pw_append_varint pw [] v, rest)"
  using assms by (simp add: consume_field_def consume_tag value_varint nat_add_distrib)

lemma read_appended [wire_simps]:
  "read_varint pw (pw_append_varint pw [] v) = Inr v"
  "read_bytes pw (pw_append_bytes pw [] d) = Inr d"
  "read_string pw (pw_append_string pw [] s) = Inr s"
  using consume_varint [of v "[]"] consume_bytes [of d "[]"] consume_string [of s "[]"]
  by (simp_all add: read_varint_def read_bytes_def read_string_def)

lemma append_tag_then:
  "pw_append_string pw (pw_append_tag pw b f t) s =
     b @ pw_append_tag pw [] f t @ pw_append_string pw [] s"
  "pw_append_bytes pw (pw_append_tag pw b f t) d =
     b @ pw_append_tag pw [] f t @ pw_append_bytes pw [] d"
  "pw_append_varint pw (pw_append_tag pw b f t) v =
     b @ pw_append_tag pw [] f t @ pw_append_varint pw [] v"
  using append_string [of "pw_append_tag pw b f t" s] append_bytes [of "pw_append_tag pw b f t" d]
    append_varint [of "pw_append_tag pw b f t" v] append_tag [of b f t]
  by simp_all

lemma append_fields [wire_simps]:
  "append_string_field pw b f s = b @ enc_string pw f s"
  "append_bytes_field pw b f d = b @ enc_bytes pw f d"
  "append_message_field pw b f d = b @ enc_bytes pw f d"
  "append_bool_field pw b f t = b @ enc_bool pw f t"
  "append_uint32_field pw b f u = b @ enc_uint32 pw f u"
  "append_int32_field pw b f u = b @ enc_int32 pw f u"
  "append_int64_field pw b f w = b @ enc_int64 pw f w"
  unfolding enc_defs append_field_defs by (simp_all only: append_tag_then split: if_split) auto

text \<open>
  A decoder that meets an encoded field goes on with the message its \<open>switch\<close> yields; where the
  zero value wrote no field, the message it has must already hold that value.
\<close>

definition goes_on :: "'m outcome \<Rightarrow> bool" where
  "goes_on r \<longleftrightarrow> (\<exists>m. r = Some (Inr m))"

lemma goes_on_Some [wire_simps]: "goes_on (Some (Inr m))"
  by (simp add: goes_on_def)

definition field_enc :: "byte list \<Rightarrow> int \<Rightarrow> int \<Rightarrow> byte list \<Rightarrow> bool \<Rightarrow> bool" where
  "field_enc enc f t field zero \<longleftrightarrow>
     (if zero then enc = []
      else enc \<noteq> [] \<and> (\<forall>rest. consume_field pw (enc @ rest) = Inr (f, t, field, rest)))"

lemma loop_field:
  assumes enc: "field_enc enc f t field zero" and on: "goes_on (step f t field m)"
    and zero: "zero \<Longrightarrow> projr (the (step f t field m)) = m"
  shows "unmarshal_loop pw step (enc @ rest) m =
     unmarshal_loop pw step rest (projr (the (step f t field m)))"
proof (cases zero)
  case True
  with enc zero show ?thesis by (simp add: field_enc_def)
next
  case False
  with enc have ne: "enc @ rest \<noteq> []" and c: "consume_field pw (enc @ rest) = Inr (f, t, field, rest)"
    by (simp_all add: field_enc_def)
  from on obtain m' where m': "step f t field m = Some (Inr m')" by (auto simp: goes_on_def)
  from unmarshal_loop_step [OF ne, of step m] show ?thesis by (simp add: c m')
qed

lemma field_encs:
  assumes "1 \<le> f" "f < 2 ^ 29"
  shows "field_enc (enc_string pw f s) f bytes_type (pw_append_string pw [] s) (s = '''')"
    and "field_enc (enc_bytes pw f d) f bytes_type (pw_append_bytes pw [] d) (d = [])"
    and "field_enc (enc_bool pw f t) f varint_type (pw_append_varint pw [] (if t then 1 else 0)) (\<not> t)"
    and "field_enc (enc_uint32 pw f u) f varint_type (pw_append_varint pw [] (ucast u)) (u = 0)"
    and "field_enc (enc_int32 pw f u) f varint_type (pw_append_varint pw [] (scast u)) (u = 0)"
    and "field_enc (enc_int64 pw f w) f varint_type (pw_append_varint pw [] w) (w = 0)"
  using append_tag_not_Nil [OF assms] consume_field_string [OF assms] consume_field_bytes [OF assms]
    consume_field_varint [OF assms]
  unfolding field_enc_def enc_defs append_field_defs append_tag_then
  by simp_all

lemma loop_string [wire_simps]:
  assumes "1 \<le> f" "f < 2 ^ 29" "goes_on (step f bytes_type (pw_append_string pw [] s) m)"
    and "s = '''' \<longrightarrow> projr (the (step f bytes_type (pw_append_string pw [] s) m)) = m"
  shows "unmarshal_loop pw step (enc_string pw f s @ rest) m =
     unmarshal_loop pw step rest (projr (the (step f bytes_type (pw_append_string pw [] s) m)))"
    and "unmarshal_loop pw step (enc_string pw f s) m =
     Some (Inr (projr (the (step f bytes_type (pw_append_string pw [] s) m))))"
  using loop_field [OF field_encs(1) [OF assms(1,2), of s], of step, OF assms(3) assms(4) [THEN mp]]
    loop_field [OF field_encs(1) [OF assms(1,2), of s], of step, OF assms(3) assms(4) [THEN mp], of "[]"]
  by (simp_all add: unmarshal_loop_Nil)

lemma loop_bytes [wire_simps]:
  assumes "1 \<le> f" "f < 2 ^ 29" "goes_on (step f bytes_type (pw_append_bytes pw [] d) m)"
    and "d = [] \<longrightarrow> projr (the (step f bytes_type (pw_append_bytes pw [] d) m)) = m"
  shows "unmarshal_loop pw step (enc_bytes pw f d @ rest) m =
     unmarshal_loop pw step rest (projr (the (step f bytes_type (pw_append_bytes pw [] d) m)))"
    and "unmarshal_loop pw step (enc_bytes pw f d) m =
     Some (Inr (projr (the (step f bytes_type (pw_append_bytes pw [] d) m))))"
  using loop_field [OF field_encs(2) [OF assms(1,2), of d], of step, OF assms(3) assms(4) [THEN mp]]
    loop_field [OF field_encs(2) [OF assms(1,2), of d], of step, OF assms(3) assms(4) [THEN mp], of "[]"]
  by (simp_all add: unmarshal_loop_Nil)

lemma loop_bool [wire_simps]:
  assumes "1 \<le> f" "f < 2 ^ 29" "goes_on (step f varint_type (pw_append_varint pw [] (if t then 1 else 0)) m)"
    and "\<not> t \<longrightarrow> projr (the (step f varint_type (pw_append_varint pw [] (if t then 1 else 0)) m)) = m"
  shows "unmarshal_loop pw step (enc_bool pw f t @ rest) m =
     unmarshal_loop pw step rest (projr (the (step f varint_type (pw_append_varint pw [] (if t then 1 else 0)) m)))"
    and "unmarshal_loop pw step (enc_bool pw f t) m =
     Some (Inr (projr (the (step f varint_type (pw_append_varint pw [] (if t then 1 else 0)) m))))"
  using loop_field [OF field_encs(3) [OF assms(1,2), of t], of step, OF assms(3) assms(4) [THEN mp]]
    loop_field [OF field_encs(3) [OF assms(1,2), of t], of step, OF assms(3) assms(4) [THEN mp], of "[]"]
  by (simp_all add: unmarshal_loop_Nil)

lemma loop_uint32 [wire_simps]:
  assumes "1 \<le> f" "f < 2 ^ 29" "goes_on (step f varint_type (pw_append_varint pw [] (ucast u)) m)"
    and "u = 0 \<longrightarrow> projr (the (step f varint_type (pw_append_varint pw [] (ucast u)) m)) = m"
  shows "unmarshal_loop pw step (enc_uint32 pw f u @ rest) m =
     unmarshal_loop pw step rest (projr (the (step f varint_type (pw_append_varint pw [] (ucast u)) m)))"
    and "unmarshal_loop pw step (enc_uint32 pw f u) m =
     Some (Inr (projr (the (step f varint_type (pw_append_varint pw [] (ucast u)) m))))"
  using loop_field [OF field_encs(4) [OF assms(1,2), of u], of step, OF assms(3) assms(4) [THEN mp]]
    loop_field [OF field_encs(4) [OF assms(1,2), of u], of step, OF assms(3) assms(4) [THEN mp], of "[]"]
  by (simp_all add: unmarshal_loop_Nil)

lemma loop_int32 [wire_simps]:
  assumes "1 \<le> f" "f < 2 ^ 29" "goes_on (step f varint_type (pw_append_varint pw [] (scast u)) m)"
    and "u = 0 \<longrightarrow> projr (the (step f varint_type (pw_append_varint pw [] (scast u)) m)) = m"
  shows "unmarshal_loop pw step (enc_int32 pw f u @ rest) m =
     unmarshal_loop pw step rest (projr (the (step f varint_type (pw_append_varint pw [] (scast u)) m)))"
    and "unmarshal_loop pw step (enc_int32 pw f u) m =
     Some (Inr (projr (the (step f varint_type (pw_append_varint pw [] (scast u)) m))))"
  using loop_field [OF field_encs(5) [OF assms(1,2), of u], of step, OF assms(3) assms(4) [THEN mp]]
    loop_field [OF field_encs(5) [OF assms(1,2), of u], of step, OF assms(3) assms(4) [THEN mp], of "[]"]
  by (simp_all add: unmarshal_loop_Nil)

lemma loop_int64 [wire_simps]:
  assumes "1 \<le> f" "f < 2 ^ 29" "goes_on (step f varint_type (pw_append_varint pw [] w) m)"
    and "w = 0 \<longrightarrow> projr (the (step f varint_type (pw_append_varint pw [] w) m)) = m"
  shows "unmarshal_loop pw step (enc_int64 pw f w @ rest) m =
     unmarshal_loop pw step rest (projr (the (step f varint_type (pw_append_varint pw [] w) m)))"
    and "unmarshal_loop pw step (enc_int64 pw f w) m =
     Some (Inr (projr (the (step f varint_type (pw_append_varint pw [] w) m))))"
  using loop_field [OF field_encs(6) [OF assms(1,2), of w], of step, OF assms(3) assms(4) [THEN mp]]
    loop_field [OF field_encs(6) [OF assms(1,2), of w], of step, OF assms(3) assms(4) [THEN mp], of "[]"]
  by (simp_all add: unmarshal_loop_Nil)

lemma enc_zero [wire_simps]: "enc_string pw f '''' = []" "enc_bytes pw f [] = []"
  by (simp_all add: enc_defs append_field_defs)

lemma enc_eq_Nil [wire_simps]:
  assumes "1 \<le> f" "f < 2 ^ 29"
  shows "enc_string pw f s = [] \<longleftrightarrow> s = ''''" and "enc_bytes pw f d = [] \<longleftrightarrow> d = []"
    and "enc_bool pw f t = [] \<longleftrightarrow> \<not> t" and "enc_uint32 pw f u = [] \<longleftrightarrow> u = 0"
    and "enc_int32 pw f u = [] \<longleftrightarrow> u = 0" and "enc_int64 pw f w = [] \<longleftrightarrow> w = 0"
proof -
  have iff: "enc = [] \<longleftrightarrow> z" if "field_enc enc f t' x z" for enc t' x z
    using that by (simp add: field_enc_def split: if_splits)
  note encs = field_encs [OF assms]
  show "enc_string pw f s = [] \<longleftrightarrow> s = ''''" "enc_bytes pw f d = [] \<longleftrightarrow> d = []"
    "enc_bool pw f t = [] \<longleftrightarrow> \<not> t" "enc_uint32 pw f u = [] \<longleftrightarrow> u = 0"
    "enc_int32 pw f u = [] \<longleftrightarrow> u = 0" "enc_int64 pw f w = [] \<longleftrightarrow> w = 0"
    by (rule iff [OF encs(1)], rule iff [OF encs(2)], rule iff [OF encs(3)], rule iff [OF encs(4)],
        rule iff [OF encs(5)], rule iff [OF encs(6)])
qed

end

end
