(* ===== verification/Std_Wire.thy ===== *)
theory Std_Wire
  imports Wire
begin

text \<open>
  A concrete \<open>protowire\<close>: base-128 varints, tags \<open>field * 8 + type\<close>, length-prefixed bytes.  It
  models no code of the repository; it shows that the laws assumed of the package can hold, and
  the examples of the development are evaluated on it.  Field values of the two group types are
  rejected, and the length prefix is not limited to 64 bits (no Go slice is that long).
\<close>

section \<open>Varints\<close>

fun put_varint :: "nat \<Rightarrow> byte list" where
  "put_varint n =
     (if n < 128 then [of_nat n] else of_nat (n mod 128 + 128) # put_varint (n div 128))"

declare put_varint.simps [simp del]

fun get_varint :: "byte list \<Rightarrow> (nat \<times> nat) option" where
  "get_varint [] = None"
| "get_varint (b # bs) =
     (if unat b < 128 then Some (unat b, 1)
      else (case get_varint bs of
              None \<Rightarrow> None
            | Some (v, n) \<Rightarrow> Some (unat b - 128 + 128 * v, n + 1)))"

lemma put_varint_not_Nil [simp]: "put_varint n \<noteq> []"
  by (simp add: put_varint.simps [of n])

lemma get_put_varint [simp]: "get_varint (put_varint n @ r) = Some (n, length (put_varint n))"
proof (induction n rule: put_varint.induct)
  case (1 n)
  have "n mod 128 + 128 < 256" by simp
  then have byte: "unat (of_nat (n mod 128 + 128) :: byte) = n mod 128 + 128"
    by (simp only: unat_of_nat) simp
  show ?case
  proof (cases "n < 128")
    case True
    then have "unat (of_nat n :: byte) = n" by (simp only: unat_of_nat) simp
    with True show ?thesis by (simp add: put_varint.simps [of n])
  next
    case False
    then have "put_varint n = of_nat (n mod 128 + 128) # put_varint (n div 128)"
      by (simp only: put_varint.simps [of n] if_False)
    with 1 [OF False] byte show ?thesis by (simp del: of_nat_add)
  qed
qed

lemma length_put_varint: "n < 128 ^ Suc k \<Longrightarrow> length (put_varint n) \<le> Suc k"
proof (induction k arbitrary: n)
  case (Suc k)
  then have "n div 128 < 128 ^ Suc k" by (simp add: less_mult_imp_div_less mult.commute)
  from Suc.IH [OF this] show ?case by (subst put_varint.simps) simp
qed (subst put_varint.simps, simp)

lemma get_varint_bound: "get_varint bs = Some (v, n) \<Longrightarrow> 0 < n \<and> n \<le> length bs"
  by (induction bs arbitrary: v n) (fastforce split: if_splits option.splits)+

section \<open>The instance\<close>

definition std_consume_varint :: "byte list \<Rightarrow> u64 \<times> int" where
  "std_consume_varint data =
     (case get_varint data of
        None \<Rightarrow> (0, - 1)
      | Some (v, n) \<Rightarrow> if v < 2 ^ 64 \<and> n \<le> 10 then (of_nat v, int n) else (0, - 3))"

definition std_consume_bytes :: "byte list \<Rightarrow> byte list \<times> int" where
  "std_consume_bytes data =
     (case get_varint data of
        None \<Rightarrow> ([], - 1)
      | Some (v, n) \<Rightarrow>
          if n + v \<le> length data then (take v (drop n data), int (n + v)) else ([], - 1))"

definition std_consume_tag :: "byte list \<Rightarrow> int \<times> int \<times> int" where
  "std_consume_tag data =
     (case get_varint data of
        None \<Rightarrow> (0, 0, - 1)
      | Some (v, n) \<Rightarrow>
          if 1 \<le> v div 8 \<and> v div 8 < 2 ^ 31 then (int (v div 8), int (v mod 8), int n)
          else (0, 0, - 2))"

definition std_consume_field_value :: "int \<Rightarrow> int \<Rightarrow> byte list \<Rightarrow> int" where
  "std_consume_field_value num typ data =
     (if typ = 0 then snd (std_consume_varint data)
      else if typ = 1 then (if length data < 8 then - 1 else 8)
      else if typ = 2 then snd (std_consume_bytes data)
      else if typ = 5 then (if length data < 4 then - 1 else 4)
      else - 4)"

definition std_append_bytes :: "byte list \<Rightarrow> byte list \<Rightarrow> byte list" where
  "std_append_bytes b d = b @ put_varint (length d) @ d"

definition std_wire :: protowire where
  "std_wire =
     \<lparr>pw_append_tag = (\<lambda>b f t. b @ put_varint (nat (f * 8 + t))),
      pw_append_varint = (\<lambda>b v. b @ put_varint (unat v)),
      pw_append_bytes = std_append_bytes,
      pw_append_string = (\<lambda>b s. std_append_bytes b (bytes_of s)),
      pw_consume_tag = std_consume_tag,
      pw_consume_field_value = std_consume_field_value,
      pw_consume_varint = std_consume_varint,
      pw_consume_bytes = std_consume_bytes,
      pw_consume_string = (\<lambda>data. map_prod str_of id (std_consume_bytes data))\<rparr>"

lemma std_varint: "std_consume_varint (put_varint (unat v) @ r) =
    (v, int (length (put_varint (unat v))))"
proof -
  have less: "unat v < 2 ^ 64" using unsigned_less [of v] by simp
  also have "(2 :: nat) ^ 64 < 128 ^ Suc 9" by simp
  finally have "length (put_varint (unat v)) \<le> Suc 9" by (rule length_put_varint)
  with less show ?thesis by (simp add: std_consume_varint_def)
qed

lemma std_bytes: "std_consume_bytes (put_varint (length d) @ d @ r) =
    (d, int (length (put_varint (length d))) + int (length d))"
  by (simp add: std_consume_bytes_def)

lemma std_tag:
  assumes "1 \<le> f" "f < 2 ^ 29" "t \<in> {0, 2}"
  shows "std_consume_tag (put_varint (nat (f * 8 + t)) @ r) =
    (f, t, int (length (put_varint (nat (f * 8 + t)))))"
proof -
  have "int (nat (f * 8 + t) div 8) = f" "int (nat (f * 8 + t) mod 8) = t"
    using assms by (auto simp: nat_add_distrib zdiv_int zmod_int)
  moreover from this(1) assms have "int 1 \<le> int (nat (f * 8 + t) div 8)"
      "int (nat (f * 8 + t) div 8) < int (2 ^ 31)"
    by simp_all
  then have "1 \<le> nat (f * 8 + t) div 8" "nat (f * 8 + t) div 8 < 2 ^ 31"
    by (simp_all only: of_nat_less_iff of_nat_le_iff)
  ultimately show ?thesis by (simp add: std_consume_tag_def)
qed

lemma std_value_bound: "std_consume_field_value num typ data \<le> int (length data)"
  by (auto simp: std_consume_field_value_def std_consume_varint_def std_consume_bytes_def
      dest: get_varint_bound split: option.split)

lemma std_tag_progress:
  "std_consume_tag data = (f, t, n) \<Longrightarrow> 0 \<le> n \<Longrightarrow> 0 < n \<and> n \<le> int (length data)"
  by (auto simp: std_consume_tag_def dest: get_varint_bound split: option.splits if_splits)

lemma std_string: "std_consume_bytes (put_varint (length s) @ bytes_of s @ r) =
    (bytes_of s, int (length (put_varint (length s))) + int (length s))"
  using std_bytes [of "bytes_of s"] by simp

interpretation std: protowire_laws std_wire
proof unfold_locales
  show "pw_consume_field_value std_wire f t data \<le> int (length data)" for f t data
    using std_value_bound by (simp add: std_wire_def)
qed (simp_all add: std_wire_def std_varint std_bytes std_string std_tag std_tag_progress
    std_consume_field_value_def std_append_bytes_def)

lemma std_wire_laws: "protowire_laws std_wire"
  by (rule std.protowire_laws_axioms)

end
