(* ===== verification/Messages_Tunnel.thy ===== *)
theory Messages_Tunnel
  imports Wire
begin

text \<open>
  \<open>internal/proto/messages_tunnel.go\<close>: tunnels and their parts on the wire, and the decoders of
  session-id pairs, triples and data messages that the data-plane messages share.

  A decoder's \<open>switch\<close> over the field number is the definition \<open>..._step\<close>; the decoder runs it in
  the loop of theory \<open>Wire\<close> from the Go zero value.  Go's map of custom mappings is an association
  list with distinct keys, in the order the map is iterated.
\<close>

section \<open>Encoders and decoders\<close>

definition marshal_tunnel_point :: "protowire \<Rightarrow> tunnel_point option \<Rightarrow> byte list" where
  "marshal_tunnel_point pw m =
     (case m of None \<Rightarrow> [] | Some p \<Rightarrow> append_string_field pw [] 1 (tp_addr p))"

definition tunnel_point_step :: "protowire \<Rightarrow> tunnel_point wire_step" where
  "tunnel_point_step pw num typ field m =
     (if num = 1 then with_string pw field (\<lambda>v. m\<lparr>tp_addr := v\<rparr>)
      else Some (Inr m))"

definition unmarshal_tunnel_point :: "protowire \<Rightarrow> byte list \<Rightarrow> tunnel_point outcome" where
  "unmarshal_tunnel_point pw data =
     unmarshal_loop pw (tunnel_point_step pw) data
       \<lparr>tp_addr = ''''\<rparr>"

definition marshal_map_entry :: "protowire \<Rightarrow> string \<Rightarrow> string \<Rightarrow> byte list" where
  "marshal_map_entry pw key val =
     (let b = [];
          b = append_string_field pw b 1 key
      in append_string_field pw b 2 val)"

definition map_entry_step :: "protowire \<Rightarrow> (string \<times> string) wire_step" where
  "map_entry_step pw num typ field m =
     (if num = 1 then with_string pw field (\<lambda>k. (k, snd m))
      else if num = 2 then with_string pw field (\<lambda>v. (fst m, v))
      else Some (Inr m))"

definition unmarshal_map_entry :: "protowire \<Rightarrow> byte list \<Rightarrow> (string \<times> string) outcome" where
  "unmarshal_map_entry pw data = unmarshal_loop pw (map_entry_step pw) data ('''', '''')"

definition marshal_tunnel :: "protowire \<Rightarrow> pb_tunnel \<Rightarrow> proto_error + byte list" where
  "marshal_tunnel pw m =
     (let b = [];
          b = (if pt_source m \<noteq> None
               then append_message_field pw b 1 (marshal_tunnel_point pw (pt_source m)) else b);
          b = (if pt_endpoint m \<noteq> None
               then append_message_field pw b 2 (marshal_tunnel_point pw (pt_endpoint m)) else b);
          b = append_uint32_field pw b 3 (pt_id m);
          b = append_bool_field pw b 4 (pt_enabled m);
          b = append_uint32_field pw b 5 (pt_sender m);
          b = append_uint32_field pw b 6 (pt_receiver m);
          b = append_int32_field pw b 7 (pt_tunnel_type m);
          b = append_string_field pw b 8 (pt_password m);
          b = append_string_field pw b 9 (pt_username m);
          b = append_bool_field pw b 10 (pt_is_compressed m);
          b = append_string_field pw b 11 (pt_encryption_method m)
      in Inr (foldl (\<lambda>b (k, v). append_message_field pw b 12 (marshal_map_entry pw k v)) b
                (pt_custom_mapping m)))"

definition tunnel_step :: "protowire \<Rightarrow> pb_tunnel wire_step" where
  "tunnel_step pw num typ field m =
     (if num = 1 then
        with_message pw field (unmarshal_tunnel_point pw) (\<lambda>p. m\<lparr>pt_source := Some p\<rparr>)
      else if num = 2 then
        with_message pw field (unmarshal_tunnel_point pw) (\<lambda>p. m\<lparr>pt_endpoint := Some p\<rparr>)
      else if num = 3 then with_varint pw field (\<lambda>v. m\<lparr>pt_id := ucast v\<rparr>)
      else if num = 4 then with_varint pw field (\<lambda>v. m\<lparr>pt_enabled := as_bool v\<rparr>)
      else if num = 5 then with_varint pw field (\<lambda>v. m\<lparr>pt_sender := ucast v\<rparr>)
      else if num = 6 then with_varint pw field (\<lambda>v. m\<lparr>pt_receiver := ucast v\<rparr>)
      else if num = 7 then with_varint pw field (\<lambda>v. m\<lparr>pt_tunnel_type := as_int32 v\<rparr>)
      else if num = 8 then with_string pw field (\<lambda>v. m\<lparr>pt_password := v\<rparr>)
      else if num = 9 then with_string pw field (\<lambda>v. m\<lparr>pt_username := v\<rparr>)
      else if num = 10 then with_varint pw field (\<lambda>v. m\<lparr>pt_is_compressed := as_bool v\<rparr>)
      else if num = 11 then with_string pw field (\<lambda>v. m\<lparr>pt_encryption_method := v\<rparr>)
      else if num = 12 then
        with_message pw field (unmarshal_map_entry pw)
          (\<lambda>(k, v). m\<lparr>pt_custom_mapping := AList.update k v (pt_custom_mapping m)\<rparr>)
      else Some (Inr m))"

definition zero_tunnel :: pb_tunnel where
  "zero_tunnel =
     \<lparr>pt_source = None, pt_endpoint = None, pt_id = 0, pt_enabled = False, pt_sender = 0,
      pt_receiver = 0, pt_tunnel_type = 0, pt_password = '''', pt_username = '''',
      pt_is_compressed = False, pt_encryption_method = '''', pt_custom_mapping = []\<rparr>"

definition unmarshal_tunnel :: "protowire \<Rightarrow> byte list \<Rightarrow> pb_tunnel outcome" where
  "unmarshal_tunnel pw data = unmarshal_loop pw (tunnel_step pw) data zero_tunnel"

text \<open>The helpers that fill variables of the caller take their values and return them.  Every field
  but the binary one is read as a varint, whatever its number.\<close>

definition pair_step :: "protowire \<Rightarrow> (u32 \<times> u32) wire_step" where
  "pair_step pw num typ field m =
     with_varint pw field (\<lambda>v.
       if num = 1 then (ucast v, snd m) else if num = 2 then (fst m, ucast v) else m)"

definition unmarshal_pair :: "protowire \<Rightarrow> byte list \<Rightarrow> u32 \<times> u32 \<Rightarrow> (u32 \<times> u32) outcome" where
  "unmarshal_pair pw data m = unmarshal_loop pw (pair_step pw) data m"

definition triple_step :: "protowire \<Rightarrow> (u32 \<times> u32 \<times> u32) wire_step" where
  "triple_step pw num typ field m =
     with_varint pw field (\<lambda>v.
       case m of (a, b, c) \<Rightarrow>
         if num = 1 then (ucast v, b, c) else if num = 2 then (a, ucast v, c)
         else if num = 3 then (a, b, ucast v) else m)"

definition unmarshal_triple_uint32 ::
  "protowire \<Rightarrow> byte list \<Rightarrow> u32 \<times> u32 \<times> u32 \<Rightarrow> (u32 \<times> u32 \<times> u32) outcome" where
  "unmarshal_triple_uint32 pw data m = unmarshal_loop pw (triple_step pw) data m"

definition binary_triplet_step :: "protowire \<Rightarrow> (u32 \<times> u32 \<times> byte list) wire_step" where
  "binary_triplet_step pw num typ field m =
     (case m of (a, b, payload) \<Rightarrow>
        if num = 1 then with_varint pw field (\<lambda>v. (ucast v, b, payload))
        else if num = 2 then with_varint pw field (\<lambda>v. (a, ucast v, payload))
        else if num = 3 then with_bytes pw field (\<lambda>v. (a, b, v))
        else Some (Inr m))"

definition unmarshal_binary_triplet ::
  "protowire \<Rightarrow> byte list \<Rightarrow> u32 \<times> u32 \<times> byte list \<Rightarrow> (u32 \<times> u32 \<times> byte list) outcome" where
  "unmarshal_binary_triplet pw data m = unmarshal_loop pw (binary_triplet_step pw) data m"

section \<open>What a tunnel is after a trip over the wire\<close>

text \<open>An embedded message whose encoding is empty is not written: an end point with an empty
  address, and the mapping entry of an empty key to an empty value, are lost.\<close>

definition strip_point :: "tunnel_point option \<Rightarrow> tunnel_point option" where
  "strip_point p = (case p of None \<Rightarrow> None | Some q \<Rightarrow> if tp_addr q = '''' then None else Some q)"

definition wire_tunnel :: "pb_tunnel \<Rightarrow> pb_tunnel" where
  "wire_tunnel m = m\<lparr>pt_source := strip_point (pt_source m),
     pt_endpoint := strip_point (pt_endpoint m),
     pt_custom_mapping := filter (\<lambda>kv. kv \<noteq> ('''', '''')) (pt_custom_mapping m)\<rparr>"

lemmas read_defs [wire_simps] = with_varint_def with_string_def with_bytes_def with_message_def
  expect_type_def as_bool_def as_int32_def as_int64_def as_uint32_def

lemma casts [wire_simps]:
  "ucast (ucast (u :: u32) :: u64) = u" "ucast (scast (i :: i32) :: u64) = i"
  by (rule bit_word_eqI; simp add: bit_simps)+

lemma update_new:
  "k \<notin> fst ` set kvs \<Longrightarrow> AList.update k v kvs = kvs @ [(k, v)]"
  by (induction kvs) auto

context protowire_laws
begin

lemma unmarshal_marshal_tunnel_point [wire_simps]:
  "unmarshal_tunnel_point pw (enc_string pw 1 s) = Some (Inr \<lparr>tp_addr = s\<rparr>)"
  by (simp add: unmarshal_tunnel_point_def tunnel_point_step_def wire_simps)

lemma unmarshal_marshal_map_entry [wire_simps]:
  "unmarshal_map_entry pw (marshal_map_entry pw k v) = Some (Inr (k, v))"
  by (simp add: unmarshal_map_entry_def map_entry_step_def marshal_map_entry_def wire_simps)

lemma fold_entries [wire_simps]:
  "foldl (\<lambda>b (k, v). b @ enc_bytes pw 12 (marshal_map_entry pw k v)) b kvs =
   b @ concat (map (\<lambda>(k, v). enc_bytes pw 12 (marshal_map_entry pw k v)) kvs)"
  by (induction kvs arbitrary: b) (auto simp: wire_simps)

lemma map_entry_Nil [wire_simps]: "marshal_map_entry pw k v = [] \<longleftrightarrow> k = '''' \<and> v = ''''"
  "marshal_map_entry pw '''' '''' = []"
  by (auto simp: marshal_map_entry_def wire_simps)

lemma loop_entries [wire_simps]:
  assumes "distinct (map fst (pt_custom_mapping m @ kvs))"
  shows "unmarshal_loop pw (tunnel_step pw)
      (concat (map (\<lambda>(k, v). enc_bytes pw 12 (marshal_map_entry pw k v)) kvs)) m =
    Some (Inr (m\<lparr>pt_custom_mapping :=
      pt_custom_mapping m @ filter (\<lambda>kv. kv \<noteq> ('''', '''')) kvs\<rparr>))"
  using assms
proof (induction kvs arbitrary: m)
  case (Cons kv kvs)
  obtain k v where kv: "kv = (k, v)" by (cases kv)
  show ?case
  proof (cases "marshal_map_entry pw k v = []")
    case True
    with Cons kv show ?thesis by (simp add: wire_simps)
  next
    case False
    with Cons.prems kv show ?thesis
      using Cons.IH [of "m\<lparr>pt_custom_mapping := pt_custom_mapping m @ [(k, v)]\<rparr>"]
      by (auto simp: tunnel_step_def [of pw 12] wire_simps update_new)
  qed
qed (simp add: wire_simps)

lemma marshal_tunnel_total: "\<exists>b. marshal_tunnel pw m = Inr b"
  by (simp add: marshal_tunnel_def Let_def)

lemma unmarshal_marshal_tunnel:
  assumes "distinct (map fst (pt_custom_mapping m))" "marshal_tunnel pw m = Inr b"
  shows "unmarshal_tunnel pw b = Some (Inr (wire_tunnel m))"
proof (cases m)
  case (fields src ep)
  from assms show ?thesis
    by (cases src; cases ep; cases "src = Some \<lparr>tp_addr = ''''\<rparr>"; cases "ep = Some \<lparr>tp_addr = ''''\<rparr>")
      (auto simp: fields marshal_tunnel_def unmarshal_tunnel_def zero_tunnel_def tunnel_step_def
        marshal_tunnel_point_def wire_tunnel_def strip_point_def wire_simps)
qed

lemma unmarshal_tunnel_Nil [wire_simps]: "unmarshal_tunnel pw [] = Some (Inr zero_tunnel)"
  by (simp add: unmarshal_tunnel_def wire_simps)

text \<open>A tunnel encodes to nothing exactly when it decodes to the zero tunnel.\<close>

lemma marshal_tunnel_empty:
  assumes b: "marshal_tunnel pw m = Inr b" and zero: "wire_tunnel m = zero_tunnel"
  shows "b = []"
proof (cases m)
  case (fields src ep)
  have entry: "enc_bytes pw 12 (marshal_map_entry pw k v) = []"
    if "filter (\<lambda>kv. kv \<noteq> ('''', '''')) kvs = []" "(k, v) \<in> set kvs" for k v kvs
    using that by (auto simp: wire_simps filter_empty_conv)
  from b zero show ?thesis
    by (cases src; cases ep)
      (auto simp: fields marshal_tunnel_def zero_tunnel_def marshal_tunnel_point_def wire_tunnel_def
        strip_point_def wire_simps entry split: if_splits)
qed

end

end
