(* ===== verification/Messages_Auth.thy ===== *)
theory Messages_Auth
  imports Messages_Tunnel
begin

text \<open>
  \<open>internal/proto/messages_auth.go\<close>: logging in, the tunnel list a client is given, changes to it
  and the runtime reports.  These decoders check the wire type of every field they know.
\<close>

section \<open>Encoders and decoders\<close>

definition marshal_login_req :: "protowire \<Rightarrow> login_req \<Rightarrow> byte list" where
  "marshal_login_req pw m =
     (let b = [];
          b = append_string_field pw b 1 (lr_version m);
          b = (if lr_username m \<noteq> '''' then append_string_field pw b 2 (lr_username m) else b);
          b = (if lr_password m \<noteq> '''' then append_string_field pw b 3 (lr_password m) else b);
          b = append_string_field pw b 4 (lr_platform m);
          b = append_uint32_field pw b 5 (lr_updater_version m);
          b = append_string_field pw b 6 (lr_upgrade_task_id m);
          b = append_string_field pw b 7 (lr_upgrade_state m)
      in append_string_field pw b 8 (lr_upgrade_error m))"

definition login_req_step :: "protowire \<Rightarrow> login_req wire_step" where
  "login_req_step pw num typ field m =
     (if num = 1 then
        expect_type num typ bytes_type (with_string pw field (\<lambda>v. m\<lparr>lr_version := v\<rparr>))
      else if num = 2 then
        expect_type num typ bytes_type (with_string pw field (\<lambda>v. m\<lparr>lr_username := v\<rparr>))
      else if num = 3 then
        expect_type num typ bytes_type (with_string pw field (\<lambda>v. m\<lparr>lr_password := v\<rparr>))
      else if num = 4 then
        expect_type num typ bytes_type (with_string pw field (\<lambda>v. m\<lparr>lr_platform := v\<rparr>))
      else if num = 5 then
        expect_type num typ varint_type (with_varint pw field (\<lambda>v. m\<lparr>lr_updater_version := ucast v\<rparr>))
      else if num = 6 then
        expect_type num typ bytes_type (with_string pw field (\<lambda>v. m\<lparr>lr_upgrade_task_id := v\<rparr>))
      else if num = 7 then
        expect_type num typ bytes_type (with_string pw field (\<lambda>v. m\<lparr>lr_upgrade_state := v\<rparr>))
      else if num = 8 then
        expect_type num typ bytes_type (with_string pw field (\<lambda>v. m\<lparr>lr_upgrade_error := v\<rparr>))
      else Some (Inr m))"

definition unmarshal_login_req :: "protowire \<Rightarrow> byte list \<Rightarrow> login_req outcome" where
  "unmarshal_login_req pw data =
     unmarshal_loop pw (login_req_step pw) data
       \<lparr>lr_version = '''', lr_username = '''', lr_password = '''', lr_platform = '''',
        lr_updater_version = 0, lr_upgrade_task_id = '''', lr_upgrade_state = '''',
        lr_upgrade_error = ''''\<rparr>"

definition marshal_register_req :: "protowire \<Rightarrow> register_req \<Rightarrow> byte list" where
  "marshal_register_req pw m =
     (let b = [];
          b = append_string_field pw b 1 (rr_username m)
      in append_string_field pw b 2 (rr_password m))"

definition register_req_step :: "protowire \<Rightarrow> register_req wire_step" where
  "register_req_step pw num typ field m =
     (if num = 1 then
        expect_type num typ bytes_type (with_string pw field (\<lambda>v. m\<lparr>rr_username := v\<rparr>))
      else if num = 2 then
        expect_type num typ bytes_type (with_string pw field (\<lambda>v. m\<lparr>rr_password := v\<rparr>))
      else Some (Inr m))"

definition unmarshal_register_req :: "protowire \<Rightarrow> byte list \<Rightarrow> register_req outcome" where
  "unmarshal_register_req pw data =
     unmarshal_loop pw (register_req_step pw) data
       \<lparr>rr_username = '''', rr_password = ''''\<rparr>"

definition marshal_management_login_req :: "protowire \<Rightarrow> management_login_req \<Rightarrow> byte list" where
  "marshal_management_login_req pw m =
     (let b = [];
          b = append_string_field pw b 1 (mr_username m)
      in append_string_field pw b 2 (mr_password m))"

definition management_login_req_step :: "protowire \<Rightarrow> management_login_req wire_step" where
  "management_login_req_step pw num typ field m =
     (if num = 1 then
        expect_type num typ bytes_type (with_string pw field (\<lambda>v. m\<lparr>mr_username := v\<rparr>))
      else if num = 2 then
        expect_type num typ bytes_type (with_string pw field (\<lambda>v. m\<lparr>mr_password := v\<rparr>))
      else Some (Inr m))"

definition unmarshal_management_login_req :: "protowire \<Rightarrow> byte list \<Rightarrow> management_login_req outcome" where
  "unmarshal_management_login_req pw data =
     unmarshal_loop pw (management_login_req_step pw) data
       \<lparr>mr_username = '''', mr_password = ''''\<rparr>"

text \<open>The tunnel list: the first tunnel that does not encode ends the loop with its error.\<close>

fun append_tunnels ::
  "protowire \<Rightarrow> byte list \<Rightarrow> pb_tunnel list \<Rightarrow> proto_error + byte list" where
  "append_tunnels pw b [] = Inr b"
| "append_tunnels pw b (t # ts) =
     (case marshal_tunnel pw t of
        Inl e \<Rightarrow> Inl e
      | Inr payload \<Rightarrow> append_tunnels pw (append_message_field pw b 2 payload) ts)"

definition marshal_login_ack :: "protowire \<Rightarrow> login_ack \<Rightarrow> proto_error + byte list" where
  "marshal_login_ack pw m =
     (let b = append_uint32_field pw [] 1 (la_player_id m) in
      case append_tunnels pw b (la_tunnel_list m) of
        Inl e \<Rightarrow> Inl e
      | Inr b \<Rightarrow> Inr (append_bool_field pw b 3 (la_supports_runtime_report m)))"

definition login_ack_step :: "protowire \<Rightarrow> login_ack wire_step" where
  "login_ack_step pw num typ field m =
     (if num = 1 then
        expect_type num typ varint_type (with_varint pw field (\<lambda>v. m\<lparr>la_player_id := ucast v\<rparr>))
      else if num = 2 then
        expect_type num typ bytes_type
          (with_message pw field (unmarshal_tunnel pw)
             (\<lambda>t. m\<lparr>la_tunnel_list := la_tunnel_list m @ [t]\<rparr>))
      else if num = 3 then
        expect_type num typ varint_type
          (with_varint pw field (\<lambda>v. m\<lparr>la_supports_runtime_report := as_bool v\<rparr>))
      else Some (Inr m))"

definition unmarshal_login_ack :: "protowire \<Rightarrow> byte list \<Rightarrow> login_ack outcome" where
  "unmarshal_login_ack pw data =
     unmarshal_loop pw (login_ack_step pw) data
       \<lparr>la_player_id = 0, la_tunnel_list = [], la_supports_runtime_report = False\<rparr>"

definition marshal_tunnel_runtime_report :: "protowire \<Rightarrow> tunnel_runtime_report \<Rightarrow> byte list" where
  "marshal_tunnel_runtime_report pw m =
     (let b = [];
          b = append_uint32_field pw b 1 (tr_tunnel_id m);
          b = append_string_field pw b 2 (tr_component m);
          b = append_bool_field pw b 3 (tr_running m)
      in append_string_field pw b 4 (tr_error m))"

definition tunnel_runtime_report_step :: "protowire \<Rightarrow> tunnel_runtime_report wire_step" where
  "tunnel_runtime_report_step pw num typ field m =
     (if num = 1 then
        expect_type num typ varint_type (with_varint pw field (\<lambda>v. m\<lparr>tr_tunnel_id := ucast v\<rparr>))
      else if num = 2 then
        expect_type num typ bytes_type (with_string pw field (\<lambda>v. m\<lparr>tr_component := v\<rparr>))
      else if num = 3 then
        expect_type num typ varint_type (with_varint pw field (\<lambda>v. m\<lparr>tr_running := as_bool v\<rparr>))
      else if num = 4 then
        expect_type num typ bytes_type (with_string pw field (\<lambda>v. m\<lparr>tr_error := v\<rparr>))
      else Some (Inr m))"

definition unmarshal_tunnel_runtime_report :: "protowire \<Rightarrow> byte list \<Rightarrow> tunnel_runtime_report outcome" where
  "unmarshal_tunnel_runtime_report pw data =
     unmarshal_loop pw (tunnel_runtime_report_step pw) data
       \<lparr>tr_tunnel_id = 0, tr_component = '''', tr_running = False, tr_error = ''''\<rparr>"

definition marshal_management_login_ack :: "protowire \<Rightarrow> management_login_ack \<Rightarrow> byte list" where
  "marshal_management_login_ack pw m =
     (let b = []
      in append_int32_field pw b 1 (ma_code m))"

definition management_login_ack_step :: "protowire \<Rightarrow> management_login_ack wire_step" where
  "management_login_ack_step pw num typ field m =
     (if num = 1 then
        expect_type num typ varint_type (with_varint pw field (\<lambda>v. m\<lparr>ma_code := as_int32 v\<rparr>))
      else Some (Inr m))"

definition unmarshal_management_login_ack :: "protowire \<Rightarrow> byte list \<Rightarrow> management_login_ack outcome" where
  "unmarshal_management_login_ack pw data =
     unmarshal_loop pw (management_login_ack_step pw) data
       \<lparr>ma_code = 0\<rparr>"

definition marshal_modify_tunnel_ntf :: "protowire \<Rightarrow> modify_tunnel_ntf \<Rightarrow> proto_error + byte list" where
  "marshal_modify_tunnel_ntf pw m =
     (let b = append_bool_field pw [] 1 (mt_is_delete m) in
      case mt_tunnel m of
        None \<Rightarrow> Inr b
      | Some t \<Rightarrow>
          (case marshal_tunnel pw t of
             Inl e \<Rightarrow> Inl e
           | Inr payload \<Rightarrow> Inr (append_message_field pw b 2 payload)))"

definition modify_tunnel_ntf_step :: "protowire \<Rightarrow> modify_tunnel_ntf wire_step" where
  "modify_tunnel_ntf_step pw num typ field m =
     (if num = 1 then
        expect_type num typ varint_type (with_varint pw field (\<lambda>v. m\<lparr>mt_is_delete := as_bool v\<rparr>))
      else if num = 2 then
        expect_type num typ bytes_type
          (with_message pw field (unmarshal_tunnel pw) (\<lambda>t. m\<lparr>mt_tunnel := Some t\<rparr>))
      else Some (Inr m))"

definition unmarshal_modify_tunnel_ntf :: "protowire \<Rightarrow> byte list \<Rightarrow> modify_tunnel_ntf outcome" where
  "unmarshal_modify_tunnel_ntf pw data =
     unmarshal_loop pw (modify_tunnel_ntf_step pw) data
       \<lparr>mt_is_delete = False, mt_tunnel = None\<rparr>"

section \<open>Round trips\<close>

text \<open>A tunnel whose every field is the zero value encodes to nothing and is not written.\<close>

definition go_map :: "('k \<times> 'v) list \<Rightarrow> bool" where
  "go_map kvs \<longleftrightarrow> distinct (map fst kvs)"

definition wire_tunnel_list :: "pb_tunnel list \<Rightarrow> pb_tunnel list" where
  "wire_tunnel_list ts = filter (\<lambda>t. t \<noteq> zero_tunnel) (map wire_tunnel ts)"

context protowire_laws
begin

lemma append_nonempty [wire_simps]:
  "(if s \<noteq> '''' then append_string_field pw b f s else b) = b @ enc_string pw f s"
  by (simp add: wire_simps)

lemma unmarshal_marshal_login_req [wire_simps]:
  "unmarshal_login_req pw (marshal_login_req pw m) = Some (Inr m)"
  by (cases m) (simp add: Let_def unmarshal_login_req_def login_req_step_def marshal_login_req_def wire_simps)

lemma unmarshal_marshal_register_req [wire_simps]:
  "unmarshal_register_req pw (marshal_register_req pw m) = Some (Inr m)"
  by (cases m) (simp add: Let_def unmarshal_register_req_def register_req_step_def marshal_register_req_def wire_simps)

lemma unmarshal_marshal_management_login_req [wire_simps]:
  "unmarshal_management_login_req pw (marshal_management_login_req pw m) = Some (Inr m)"
  by (cases m) (simp add: Let_def unmarshal_management_login_req_def management_login_req_step_def marshal_management_login_req_def wire_simps)

lemma unmarshal_marshal_tunnel_runtime_report [wire_simps]:
  "unmarshal_tunnel_runtime_report pw (marshal_tunnel_runtime_report pw m) = Some (Inr m)"
  by (cases m) (simp add: Let_def unmarshal_tunnel_runtime_report_def tunnel_runtime_report_step_def marshal_tunnel_runtime_report_def wire_simps)

lemma unmarshal_marshal_management_login_ack [wire_simps]:
  "unmarshal_management_login_ack pw (marshal_management_login_ack pw m) = Some (Inr m)"
  by (cases m) (simp add: Let_def unmarshal_management_login_ack_def management_login_ack_step_def marshal_management_login_ack_def wire_simps)

text \<open>The list of tunnels, each an embedded message of field 2.\<close>

definition tunnel_bytes :: "pb_tunnel \<Rightarrow> byte list" where
  "tunnel_bytes t = projr (marshal_tunnel pw t)"

lemma marshal_tunnel_bytes: "marshal_tunnel pw t = Inr (tunnel_bytes t)"
  using marshal_tunnel_total [of t] by (auto simp: tunnel_bytes_def)

lemma unmarshal_tunnel_bytes [wire_simps]:
  "go_map (pt_custom_mapping t) \<Longrightarrow>
     unmarshal_tunnel pw (tunnel_bytes t) = Some (Inr (wire_tunnel t))"
  by (rule unmarshal_marshal_tunnel) (simp_all add: go_map_def marshal_tunnel_bytes)

lemma tunnel_bytes_Nil [wire_simps]:
  assumes "go_map (pt_custom_mapping t)"
  shows "tunnel_bytes t = [] \<longleftrightarrow> wire_tunnel t = zero_tunnel"
  using unmarshal_tunnel_bytes [OF assms] unmarshal_tunnel_Nil
    marshal_tunnel_empty [OF marshal_tunnel_bytes]
  by auto

lemma tunnel_bytes_zero [wire_simps]:
  "go_map (pt_custom_mapping t) \<Longrightarrow> wire_tunnel t = zero_tunnel \<Longrightarrow>
     enc_bytes pw f (tunnel_bytes t) = []"
  using tunnel_bytes_Nil [of t] by (simp add: enc_zero)

lemma append_tunnels_bytes [wire_simps]:
  "append_tunnels pw b ts = Inr (b @ concat (map (\<lambda>t. enc_bytes pw 2 (tunnel_bytes t)) ts))"
  by (induction ts arbitrary: b) (simp_all add: marshal_tunnel_bytes wire_simps)

lemma loop_tunnels [wire_simps]:
  assumes "\<forall>t \<in> set ts. go_map (pt_custom_mapping t)"
  shows "unmarshal_loop pw (login_ack_step pw)
      (concat (map (\<lambda>t. enc_bytes pw 2 (tunnel_bytes t)) ts) @ rest) m =
    unmarshal_loop pw (login_ack_step pw) rest
      (m\<lparr>la_tunnel_list := la_tunnel_list m @ wire_tunnel_list ts\<rparr>)"
  using assms
proof (induction ts arbitrary: m)
  case (Cons t ts)
  show ?case
  proof (cases "wire_tunnel t = zero_tunnel")
    case True
    with Cons show ?thesis by (simp add: wire_simps wire_tunnel_list_def)
  next
    case False
    with Cons show ?thesis
      by (simp add: login_ack_step_def [of pw 2] wire_simps wire_tunnel_list_def)
  qed
qed (simp add: wire_tunnel_list_def)

lemma unmarshal_marshal_login_ack:
  assumes "\<forall>t \<in> set (la_tunnel_list m). go_map (pt_custom_mapping t)"
  shows "\<exists>b. marshal_login_ack pw m = Inr b \<and> unmarshal_login_ack pw b =
    Some (Inr (m\<lparr>la_tunnel_list := wire_tunnel_list (la_tunnel_list m)\<rparr>))"
  using assms
  by (cases m) (simp add: marshal_login_ack_def unmarshal_login_ack_def login_ack_step_def [of pw 1]
    login_ack_step_def [of pw 3] Let_def wire_simps)

lemma unmarshal_marshal_modify_tunnel_ntf:
  assumes "\<forall>t. mt_tunnel m = Some t \<longrightarrow> go_map (pt_custom_mapping t)"
  shows "\<exists>b. marshal_modify_tunnel_ntf pw m = Inr b \<and> unmarshal_modify_tunnel_ntf pw b =
    Some (Inr (m\<lparr>mt_tunnel := (case mt_tunnel m of
       None \<Rightarrow> None
     | Some t \<Rightarrow> if wire_tunnel t = zero_tunnel then None else Some (wire_tunnel t))\<rparr>))"
proof (cases m)
  case (fields del t)
  from assms show ?thesis
  proof (cases t)
    case (Some u)
    with assms have "go_map (pt_custom_mapping u)" by (simp add: fields)
    with fields Some show ?thesis
      by (cases "wire_tunnel u = zero_tunnel")
        (simp_all add: marshal_modify_tunnel_ntf_def unmarshal_modify_tunnel_ntf_def Let_def
          modify_tunnel_ntf_step_def marshal_tunnel_bytes wire_simps)
  qed (simp add: fields marshal_modify_tunnel_ntf_def unmarshal_modify_tunnel_ntf_def Let_def
    modify_tunnel_ntf_step_def wire_simps)
qed

end

end
