(* ===== verification/Messages_Generic.thy ===== *)
theory Messages_Generic
  imports Messages_Tunnel
begin

text \<open>
  \<open>internal/proto/messages_generic.go\<close>: errors, pings and the data plane.  These decoders read a
  known field without looking at its wire type.
\<close>

definition marshal_error :: "protowire \<Rightarrow> pb_error \<Rightarrow> byte list" where
  "marshal_error pw m =
     (let b = [];
          b = append_int32_field pw b 1 (pe_number m)
      in append_string_field pw b 2 (pe_message m))"

definition error_step :: "protowire \<Rightarrow> pb_error wire_step" where
  "error_step pw num typ field m =
     (if num = 1 then with_varint pw field (\<lambda>v. m\<lparr>pe_number := as_int32 v\<rparr>)
      else if num = 2 then with_string pw field (\<lambda>v. m\<lparr>pe_message := v\<rparr>)
      else Some (Inr m))"

definition unmarshal_error :: "protowire \<Rightarrow> byte list \<Rightarrow> pb_error outcome" where
  "unmarshal_error pw data =
     unmarshal_loop pw (error_step pw) data
       \<lparr>pe_number = 0, pe_message = ''''\<rparr>"

text \<open>A \<open>Fail\<close> is encoded and decoded as the \<open>Error\<close> of the same fields.\<close>

definition marshal_fail :: "protowire \<Rightarrow> pb_error \<Rightarrow> byte list" where
  "marshal_fail pw m =
     marshal_error pw \<lparr>pe_number = pe_number m, pe_message = pe_message m\<rparr>"

definition unmarshal_fail :: "protowire \<Rightarrow> byte list \<Rightarrow> pb_error outcome" where
  "unmarshal_fail pw data =
     map_option (map_sum id (\<lambda>msg. \<lparr>pe_number = pe_number msg, pe_message = pe_message msg\<rparr>))
       (unmarshal_error pw data)"

definition marshal_ping :: "protowire \<Rightarrow> pb_ping \<Rightarrow> byte list" where
  "marshal_ping pw m =
     (let b = []
      in append_int64_field pw b 1 (pp_ticks m))"

definition ping_step :: "protowire \<Rightarrow> pb_ping wire_step" where
  "ping_step pw num typ field m =
     (if num = 1 then with_varint pw field (\<lambda>v. m\<lparr>pp_ticks := as_int64 v\<rparr>)
      else Some (Inr m))"

definition unmarshal_ping :: "protowire \<Rightarrow> byte list \<Rightarrow> pb_ping outcome" where
  "unmarshal_ping pw data =
     unmarshal_loop pw (ping_step pw) data
       \<lparr>pp_ticks = 0\<rparr>"

definition marshal_pong :: "protowire \<Rightarrow> pb_ping \<Rightarrow> byte list" where
  "marshal_pong pw m = marshal_ping pw \<lparr>pp_ticks = pp_ticks m\<rparr>"

definition unmarshal_pong :: "protowire \<Rightarrow> byte list \<Rightarrow> pb_ping outcome" where
  "unmarshal_pong pw data =
     map_option (map_sum id (\<lambda>msg. \<lparr>pp_ticks = pp_ticks msg\<rparr>)) (unmarshal_ping pw data)"

definition marshal_i2o_connect :: "protowire \<Rightarrow> pb_i2o_connect \<Rightarrow> byte list" where
  "marshal_i2o_connect pw m =
     (let b = [];
          b = append_uint32_field pw b 1 (ic_tunnel_id m);
          b = append_uint32_field pw b 2 (ic_session_id m);
          b = append_uint32_field pw b 3 (ic_tunnel_type m);
          b = append_bool_field pw b 4 (ic_is_tcp m);
          b = append_bool_field pw b 5 (ic_is_compressed m);
          b = append_string_field pw b 6 (ic_addr m);
          b = append_string_field pw b 7 (ic_encryption_method m);
          b = append_string_field pw b 8 (ic_encryption_key m)
      in append_string_field pw b 9 (ic_client_addr m))"

definition i2o_connect_step :: "protowire \<Rightarrow> pb_i2o_connect wire_step" where
  "i2o_connect_step pw num typ field m =
     (if num = 1 then with_varint pw field (\<lambda>v. m\<lparr>ic_tunnel_id := ucast v\<rparr>)
      else if num = 2 then with_varint pw field (\<lambda>v. m\<lparr>ic_session_id := ucast v\<rparr>)
      else if num = 3 then with_varint pw field (\<lambda>v. m\<lparr>ic_tunnel_type := ucast v\<rparr>)
      else if num = 4 then with_varint pw field (\<lambda>v. m\<lparr>ic_is_tcp := as_bool v\<rparr>)
      else if num = 5 then with_varint pw field (\<lambda>v. m\<lparr>ic_is_compressed := as_bool v\<rparr>)
      else if num = 6 then with_string pw field (\<lambda>v. m\<lparr>ic_addr := v\<rparr>)
      else if num = 7 then with_string pw field (\<lambda>v. m\<lparr>ic_encryption_method := v\<rparr>)
      else if num = 8 then with_string pw field (\<lambda>v. m\<lparr>ic_encryption_key := v\<rparr>)
      else if num = 9 then with_string pw field (\<lambda>v. m\<lparr>ic_client_addr := v\<rparr>)
      else Some (Inr m))"

definition unmarshal_i2o_connect :: "protowire \<Rightarrow> byte list \<Rightarrow> pb_i2o_connect outcome" where
  "unmarshal_i2o_connect pw data =
     unmarshal_loop pw (i2o_connect_step pw) data
       \<lparr>ic_tunnel_id = 0, ic_session_id = 0, ic_tunnel_type = 0, ic_is_tcp = False,
        ic_is_compressed = False, ic_addr = '''', ic_encryption_method = '''',
        ic_encryption_key = '''', ic_client_addr = ''''\<rparr>"

definition marshal_o2i_connect :: "protowire \<Rightarrow> pb_o2i_connect \<Rightarrow> byte list" where
  "marshal_o2i_connect pw m =
     (let b = [];
          b = append_uint32_field pw b 1 (oc_tunnel_id m);
          b = append_uint32_field pw b 2 (oc_session_id m);
          b = append_bool_field pw b 3 (oc_success m)
      in append_string_field pw b 4 (oc_error_info m))"

definition o2i_connect_step :: "protowire \<Rightarrow> pb_o2i_connect wire_step" where
  "o2i_connect_step pw num typ field m =
     (if num = 1 then with_varint pw field (\<lambda>v. m\<lparr>oc_tunnel_id := ucast v\<rparr>)
      else if num = 2 then with_varint pw field (\<lambda>v. m\<lparr>oc_session_id := ucast v\<rparr>)
      else if num = 3 then with_varint pw field (\<lambda>v. m\<lparr>oc_success := as_bool v\<rparr>)
      else if num = 4 then with_string pw field (\<lambda>v. m\<lparr>oc_error_info := v\<rparr>)
      else Some (Inr m))"

definition unmarshal_o2i_connect :: "protowire \<Rightarrow> byte list \<Rightarrow> pb_o2i_connect outcome" where
  "unmarshal_o2i_connect pw data =
     unmarshal_loop pw (o2i_connect_step pw) data
       \<lparr>oc_tunnel_id = 0, oc_session_id = 0, oc_success = False, oc_error_info = ''''\<rparr>"

text \<open>The messages decoded by the shared helpers, which fill the fields of a zero message.\<close>

definition marshal_i2o_send_data :: "protowire \<Rightarrow> pb_data \<Rightarrow> byte list" where
  "marshal_i2o_send_data pw m =
     (let b = [];
          b = append_uint32_field pw b 1 (pd_tunnel_id m);
          b = append_uint32_field pw b 2 (pd_session_id m)
      in append_bytes_field pw b 3 (pd_data m))"

definition unmarshal_i2o_send_data :: "protowire \<Rightarrow> byte list \<Rightarrow> pb_data outcome" where
  "unmarshal_i2o_send_data pw data =
     map_option (map_sum id (\<lambda>(t, s, d). \<lparr>pd_tunnel_id = t, pd_session_id = s, pd_data = d\<rparr>))
       (unmarshal_binary_triplet pw data (0, 0, []))"

definition marshal_o2i_recv_data :: "protowire \<Rightarrow> pb_data \<Rightarrow> byte list" where
  "marshal_o2i_recv_data pw m =
     (let b = [];
          b = append_uint32_field pw b 1 (pd_tunnel_id m);
          b = append_uint32_field pw b 2 (pd_session_id m)
      in append_bytes_field pw b 3 (pd_data m))"

definition unmarshal_o2i_recv_data :: "protowire \<Rightarrow> byte list \<Rightarrow> pb_data outcome" where
  "unmarshal_o2i_recv_data pw data =
     map_option (map_sum id (\<lambda>(t, s, d). \<lparr>pd_tunnel_id = t, pd_session_id = s, pd_data = d\<rparr>))
       (unmarshal_binary_triplet pw data (0, 0, []))"

definition marshal_i2o_disconnect :: "protowire \<Rightarrow> pb_pair \<Rightarrow> byte list" where
  "marshal_i2o_disconnect pw m =
     (let b = [];
          b = append_uint32_field pw b 1 (px_tunnel_id m)
      in append_uint32_field pw b 2 (px_session_id m))"

definition unmarshal_i2o_disconnect :: "protowire \<Rightarrow> byte list \<Rightarrow> pb_pair outcome" where
  "unmarshal_i2o_disconnect pw data =
     map_option (map_sum id (\<lambda>(t, s). \<lparr>px_tunnel_id = t, px_session_id = s\<rparr>))
       (unmarshal_pair pw data (0, 0))"

definition marshal_o2i_disconnect :: "protowire \<Rightarrow> pb_pair \<Rightarrow> byte list" where
  "marshal_o2i_disconnect pw m =
     (let b = [];
          b = append_uint32_field pw b 1 (px_tunnel_id m)
      in append_uint32_field pw b 2 (px_session_id m))"

definition unmarshal_o2i_disconnect :: "protowire \<Rightarrow> byte list \<Rightarrow> pb_pair outcome" where
  "unmarshal_o2i_disconnect pw data =
     map_option (map_sum id (\<lambda>(t, s). \<lparr>px_tunnel_id = t, px_session_id = s\<rparr>))
       (unmarshal_pair pw data (0, 0))"

definition marshal_o2i_send_data_result :: "protowire \<Rightarrow> pb_result \<Rightarrow> byte list" where
  "marshal_o2i_send_data_result pw m =
     (let b = [];
          b = append_uint32_field pw b 1 (ps_tunnel_id m);
          b = append_uint32_field pw b 2 (ps_session_id m)
      in append_uint32_field pw b 3 (ps_data_len m))"

definition unmarshal_o2i_send_data_result :: "protowire \<Rightarrow> byte list \<Rightarrow> pb_result outcome" where
  "unmarshal_o2i_send_data_result pw data =
     map_option (map_sum id (\<lambda>(t, s, l). \<lparr>ps_tunnel_id = t, ps_session_id = s, ps_data_len = l\<rparr>))
       (unmarshal_triple_uint32 pw data (0, 0, 0))"

definition marshal_i2o_recv_data_result :: "protowire \<Rightarrow> pb_result \<Rightarrow> byte list" where
  "marshal_i2o_recv_data_result pw m =
     (let b = [];
          b = append_uint32_field pw b 1 (ps_tunnel_id m);
          b = append_uint32_field pw b 2 (ps_session_id m)
      in append_uint32_field pw b 3 (ps_data_len m))"

definition unmarshal_i2o_recv_data_result :: "protowire \<Rightarrow> byte list \<Rightarrow> pb_result outcome" where
  "unmarshal_i2o_recv_data_result pw data =
     map_option (map_sum id (\<lambda>(t, s, l). \<lparr>ps_tunnel_id = t, ps_session_id = s, ps_data_len = l\<rparr>))
       (unmarshal_triple_uint32 pw data (0, 0, 0))"

definition marshal_i2o_send_to_data :: "protowire \<Rightarrow> pb_addr_data \<Rightarrow> byte list" where
  "marshal_i2o_send_to_data pw m =
     (let b = [];
          b = append_uint32_field pw b 1 (pa_tunnel_id m);
          b = append_uint32_field pw b 2 (pa_session_id m);
          b = append_bytes_field pw b 3 (pa_data m)
      in append_string_field pw b 4 (pa_addr m))"

definition i2o_send_to_data_step :: "protowire \<Rightarrow> pb_addr_data wire_step" where
  "i2o_send_to_data_step pw num typ field m =
     (if num = 1 then with_varint pw field (\<lambda>v. m\<lparr>pa_tunnel_id := ucast v\<rparr>)
      else if num = 2 then with_varint pw field (\<lambda>v. m\<lparr>pa_session_id := ucast v\<rparr>)
      else if num = 3 then with_bytes pw field (\<lambda>v. m\<lparr>pa_data := v\<rparr>)
      else if num = 4 then with_string pw field (\<lambda>v. m\<lparr>pa_addr := v\<rparr>)
      else Some (Inr m))"

definition unmarshal_i2o_send_to_data :: "protowire \<Rightarrow> byte list \<Rightarrow> pb_addr_data outcome" where
  "unmarshal_i2o_send_to_data pw data =
     unmarshal_loop pw (i2o_send_to_data_step pw) data
       \<lparr>pa_tunnel_id = 0, pa_session_id = 0, pa_data = [], pa_addr = ''''\<rparr>"

definition marshal_o2i_recv_data_from :: "protowire \<Rightarrow> pb_addr_data \<Rightarrow> byte list" where
  "marshal_o2i_recv_data_from pw m =
     (let b = [];
          b = append_uint32_field pw b 1 (pa_tunnel_id m);
          b = append_uint32_field pw b 2 (pa_session_id m);
          b = append_bytes_field pw b 3 (pa_data m)
      in append_string_field pw b 4 (pa_addr m))"

definition o2i_recv_data_from_step :: "protowire \<Rightarrow> pb_addr_data wire_step" where
  "o2i_recv_data_from_step pw num typ field m =
     (if num = 1 then with_varint pw field (\<lambda>v. m\<lparr>pa_tunnel_id := ucast v\<rparr>)
      else if num = 2 then with_varint pw field (\<lambda>v. m\<lparr>pa_session_id := ucast v\<rparr>)
      else if num = 3 then with_bytes pw field (\<lambda>v. m\<lparr>pa_data := v\<rparr>)
      else if num = 4 then with_string pw field (\<lambda>v. m\<lparr>pa_addr := v\<rparr>)
      else Some (Inr m))"

definition unmarshal_o2i_recv_data_from :: "protowire \<Rightarrow> byte list \<Rightarrow> pb_addr_data outcome" where
  "unmarshal_o2i_recv_data_from pw data =
     unmarshal_loop pw (o2i_recv_data_from_step pw) data
       \<lparr>pa_tunnel_id = 0, pa_session_id = 0, pa_data = [], pa_addr = ''''\<rparr>"

context protowire_laws
begin

lemma unmarshal_marshal_error [wire_simps]:
  "unmarshal_error pw (marshal_error pw m) = Some (Inr m)"
  by (cases m) (simp add: Let_def unmarshal_error_def error_step_def marshal_error_def wire_simps)

lemma unmarshal_marshal_ping [wire_simps]:
  "unmarshal_ping pw (marshal_ping pw m) = Some (Inr m)"
  by (cases m) (simp add: Let_def unmarshal_ping_def ping_step_def marshal_ping_def wire_simps)

lemma unmarshal_marshal_i2o_connect [wire_simps]:
  "unmarshal_i2o_connect pw (marshal_i2o_connect pw m) = Some (Inr m)"
  by (cases m) (simp add: Let_def unmarshal_i2o_connect_def i2o_connect_step_def marshal_i2o_connect_def wire_simps)

lemma unmarshal_marshal_o2i_connect [wire_simps]:
  "unmarshal_o2i_connect pw (marshal_o2i_connect pw m) = Some (Inr m)"
  by (cases m) (simp add: Let_def unmarshal_o2i_connect_def o2i_connect_step_def marshal_o2i_connect_def wire_simps)

lemma unmarshal_marshal_i2o_send_to_data [wire_simps]:
  "unmarshal_i2o_send_to_data pw (marshal_i2o_send_to_data pw m) = Some (Inr m)"
  by (cases m) (simp add: Let_def unmarshal_i2o_send_to_data_def i2o_send_to_data_step_def marshal_i2o_send_to_data_def wire_simps)

lemma unmarshal_marshal_o2i_recv_data_from [wire_simps]:
  "unmarshal_o2i_recv_data_from pw (marshal_o2i_recv_data_from pw m) = Some (Inr m)"
  by (cases m) (simp add: Let_def unmarshal_o2i_recv_data_from_def o2i_recv_data_from_step_def marshal_o2i_recv_data_from_def wire_simps)

lemma unmarshal_marshal_fail [wire_simps]:
  "unmarshal_fail pw (marshal_fail pw m) = Some (Inr m)"
  by (simp add: unmarshal_fail_def marshal_fail_def wire_simps)

lemma unmarshal_marshal_pong [wire_simps]:
  "unmarshal_pong pw (marshal_pong pw m) = Some (Inr m)"
  by (simp add: unmarshal_pong_def marshal_pong_def wire_simps)

lemma unmarshal_marshal_i2o_send_data [wire_simps]:
  "unmarshal_i2o_send_data pw (marshal_i2o_send_data pw m) = Some (Inr m)"
  by (cases m) (simp add: Let_def unmarshal_i2o_send_data_def marshal_i2o_send_data_def
    unmarshal_binary_triplet_def binary_triplet_step_def wire_simps)

lemma unmarshal_marshal_o2i_recv_data [wire_simps]:
  "unmarshal_o2i_recv_data pw (marshal_o2i_recv_data pw m) = Some (Inr m)"
  by (cases m) (simp add: Let_def unmarshal_o2i_recv_data_def marshal_o2i_recv_data_def
    unmarshal_binary_triplet_def binary_triplet_step_def wire_simps)

lemma unmarshal_marshal_i2o_disconnect [wire_simps]:
  "unmarshal_i2o_disconnect pw (marshal_i2o_disconnect pw m) = Some (Inr m)"
  by (cases m) (simp add: Let_def unmarshal_i2o_disconnect_def marshal_i2o_disconnect_def
    unmarshal_pair_def pair_step_def wire_simps)

lemma unmarshal_marshal_o2i_disconnect [wire_simps]:
  "unmarshal_o2i_disconnect pw (marshal_o2i_disconnect pw m) = Some (Inr m)"
  by (cases m) (simp add: Let_def unmarshal_o2i_disconnect_def marshal_o2i_disconnect_def
    unmarshal_pair_def pair_step_def wire_simps)

lemma unmarshal_marshal_o2i_send_data_result [wire_simps]:
  "unmarshal_o2i_send_data_result pw (marshal_o2i_send_data_result pw m) = Some (Inr m)"
  by (cases m) (simp add: Let_def unmarshal_o2i_send_data_result_def marshal_o2i_send_data_result_def
    unmarshal_triple_uint32_def triple_step_def wire_simps)

lemma unmarshal_marshal_i2o_recv_data_result [wire_simps]:
  "unmarshal_i2o_recv_data_result pw (marshal_i2o_recv_data_result pw m) = Some (Inr m)"
  by (cases m) (simp add: Let_def unmarshal_i2o_recv_data_result_def marshal_i2o_recv_data_result_def
    unmarshal_triple_uint32_def triple_step_def wire_simps)

end

end
