(* ===== verification/Messages_Upgrade.thy ===== *)
theory Messages_Upgrade
  imports Messages_Tunnel
begin

text \<open>
  \<open>internal/proto/messages_upgrade.go\<close>: the messages of a client upgrade.  The wire type of every
  known field is checked before it is read.
\<close>

definition marshal_upgrade_offer :: "protowire \<Rightarrow> upgrade_offer \<Rightarrow> byte list" where
  "marshal_upgrade_offer pw m =
     (let b = [];
          b = append_string_field pw b 1 (uo_task_id m);
          b = append_string_field pw b 2 (uo_version m);
          b = append_string_field pw b 3 (uo_platform m);
          b = append_int64_field pw b 4 (uo_size m);
          b = append_string_field pw b 5 (uo_sha256 m);
          b = append_string_field pw b 6 (uo_signature m)
      in append_uint32_field pw b 7 (uo_chunk_size m))"

definition upgrade_offer_step :: "protowire \<Rightarrow> upgrade_offer wire_step" where
  "upgrade_offer_step pw num typ field m =
     (if num = 1 then
        expect_type num typ bytes_type (with_string pw field (\<lambda>v. m\<lparr>uo_task_id := v\<rparr>))
      else if num = 2 then
        expect_type num typ bytes_type (with_string pw field (\<lambda>v. m\<lparr>uo_version := v\<rparr>))
      else if num = 3 then
        expect_type num typ bytes_type (with_string pw field (\<lambda>v. m\<lparr>uo_platform := v\<rparr>))
      else if num = 4 then
        expect_type num typ varint_type (with_varint pw field (\<lambda>v. m\<lparr>uo_size := as_int64 v\<rparr>))
      else if num = 5 then
        expect_type num typ bytes_type (with_string pw field (\<lambda>v. m\<lparr>uo_sha256 := v\<rparr>))
      else if num = 6 then
        expect_type num typ bytes_type (with_string pw field (\<lambda>v. m\<lparr>uo_signature := v\<rparr>))
      else if num = 7 then
        expect_type num typ varint_type (with_varint pw field (\<lambda>v. m\<lparr>uo_chunk_size := ucast v\<rparr>))
      else Some (Inr m))"

definition unmarshal_upgrade_offer :: "protowire \<Rightarrow> byte list \<Rightarrow> upgrade_offer outcome" where
  "unmarshal_upgrade_offer pw data =
     unmarshal_loop pw (upgrade_offer_step pw) data
       \<lparr>uo_task_id = '''', uo_version = '''', uo_platform = '''', uo_size = 0,
        uo_sha256 = '''', uo_signature = '''', uo_chunk_size = 0\<rparr>"

definition marshal_upgrade_chunk :: "protowire \<Rightarrow> upgrade_chunk \<Rightarrow> byte list" where
  "marshal_upgrade_chunk pw m =
     (let b = [];
          b = append_string_field pw b 1 (uc_task_id m);
          b = append_int64_field pw b 2 (uc_offset m);
          b = append_bytes_field pw b 3 (uc_data m);
          b = append_string_field pw b 4 (uc_sha256 m)
      in append_bool_field pw b 5 (uc_eof m))"

definition upgrade_chunk_step :: "protowire \<Rightarrow> upgrade_chunk wire_step" where
  "upgrade_chunk_step pw num typ field m =
     (if num = 1 then
        expect_type num typ bytes_type (with_string pw field (\<lambda>v. m\<lparr>uc_task_id := v\<rparr>))
      else if num = 2 then
        expect_type num typ varint_type (with_varint pw field (\<lambda>v. m\<lparr>uc_offset := as_int64 v\<rparr>))
      else if num = 3 then
        expect_type num typ bytes_type (with_bytes pw field (\<lambda>v. m\<lparr>uc_data := v\<rparr>))
      else if num = 4 then
        expect_type num typ bytes_type (with_string pw field (\<lambda>v. m\<lparr>uc_sha256 := v\<rparr>))
      else if num = 5 then
        expect_type num typ varint_type (with_varint pw field (\<lambda>v. m\<lparr>uc_eof := as_bool v\<rparr>))
      else Some (Inr m))"

definition unmarshal_upgrade_chunk :: "protowire \<Rightarrow> byte list \<Rightarrow> upgrade_chunk outcome" where
  "unmarshal_upgrade_chunk pw data =
     unmarshal_loop pw (upgrade_chunk_step pw) data
       \<lparr>uc_task_id = '''', uc_offset = 0, uc_data = [], uc_sha256 = '''', uc_eof = False\<rparr>"

definition marshal_upgrade_status_report :: "protowire \<Rightarrow> upgrade_status_report \<Rightarrow> byte list" where
  "marshal_upgrade_status_report pw m =
     (let b = [];
          b = append_string_field pw b 1 (us_task_id m);
          b = append_string_field pw b 2 (us_state m);
          b = append_int64_field pw b 3 (us_offset m)
      in append_string_field pw b 4 (us_error m))"

definition upgrade_status_report_step :: "protowire \<Rightarrow> upgrade_status_report wire_step" where
  "upgrade_status_report_step pw num typ field m =
     (if num = 1 then
        expect_type num typ bytes_type (with_string pw field (\<lambda>v. m\<lparr>us_task_id := v\<rparr>))
      else if num = 2 then
        expect_type num typ bytes_type (with_string pw field (\<lambda>v. m\<lparr>us_state := v\<rparr>))
      else if num = 3 then
        expect_type num typ varint_type (with_varint pw field (\<lambda>v. m\<lparr>us_offset := as_int64 v\<rparr>))
      else if num = 4 then
        expect_type num typ bytes_type (with_string pw field (\<lambda>v. m\<lparr>us_error := v\<rparr>))
      else Some (Inr m))"

definition unmarshal_upgrade_status_report :: "protowire \<Rightarrow> byte list \<Rightarrow> upgrade_status_report outcome" where
  "unmarshal_upgrade_status_report pw data =
     unmarshal_loop pw (upgrade_status_report_step pw) data
       \<lparr>us_task_id = '''', us_state = '''', us_offset = 0, us_error = ''''\<rparr>"

context protowire_laws
begin

lemma unmarshal_marshal_upgrade_offer [wire_simps]:
  "unmarshal_upgrade_offer pw (marshal_upgrade_offer pw m) = Some (Inr m)"
  by (cases m) (simp add: Let_def unmarshal_upgrade_offer_def upgrade_offer_step_def marshal_upgrade_offer_def wire_simps)

lemma unmarshal_marshal_upgrade_chunk [wire_simps]:
  "unmarshal_upgrade_chunk pw (marshal_upgrade_chunk pw m) = Some (Inr m)"
  by (cases m) (simp add: Let_def unmarshal_upgrade_chunk_def upgrade_chunk_step_def marshal_upgrade_chunk_def wire_simps)

lemma unmarshal_marshal_upgrade_status_report [wire_simps]:
  "unmarshal_upgrade_status_report pw (marshal_upgrade_status_report pw m) = Some (Inr m)"
  by (cases m) (simp add: Let_def unmarshal_upgrade_status_report_def upgrade_status_report_step_def marshal_upgrade_status_report_def wire_simps)

end

end
