(* ===== verification/Proto_Ids.thy ===== *)
theory Proto_Ids
  imports Messages_Auth Messages_Generic Messages_Upgrade Std_Wire
begin

text \<open>
  \<open>internal/proto/ids.go\<close>: the message ids, \<open>MessageID\<close>, \<open>Encode\<close> and \<open>Decode\<close>, with the
  properties of the whole codec.  \<open>message\<close> has exactly the types \<open>MessageID\<close> lists, so the
  \<open>default\<close> branches of \<open>MessageID\<close> and \<open>Encode\<close> are not reached.
\<close>

section \<open>Ids, encoder and decoder\<close>

definition msg_login_req :: u32 where "msg_login_req = 1001"
definition msg_login_ack :: u32 where "msg_login_ack = 1002"
definition msg_register_req :: u32 where "msg_register_req = 1003"
definition msg_management_login_req :: u32 where "msg_management_login_req = 1005"
definition msg_management_login_ack :: u32 where "msg_management_login_ack = 1006"
definition msg_modify_tunnel_ntf :: u32 where "msg_modify_tunnel_ntf = 1008"
definition msg_tunnel_runtime_report :: u32 where "msg_tunnel_runtime_report = 1009"
definition msg_upgrade_offer_ntf :: u32 where "msg_upgrade_offer_ntf = 1010"
definition msg_upgrade_status_report :: u32 where "msg_upgrade_status_report = 1011"
definition msg_upgrade_chunk_ntf :: u32 where "msg_upgrade_chunk_ntf = 1012"
definition msg_success :: u32 where "msg_success = 150001"
definition msg_fail :: u32 where "msg_fail = 150002"
definition msg_error :: u32 where "msg_error = 150003"
definition msg_ping :: u32 where "msg_ping = 150004"
definition msg_pong :: u32 where "msg_pong = 150005"
definition msg_i2o_connect :: u32 where "msg_i2o_connect = 150006"
definition msg_o2i_connect :: u32 where "msg_o2i_connect = 150007"
definition msg_i2o_send_data :: u32 where "msg_i2o_send_data = 150008"
definition msg_o2i_recv_data :: u32 where "msg_o2i_recv_data = 150009"
definition msg_i2o_disconnect :: u32 where "msg_i2o_disconnect = 150010"
definition msg_o2i_disconnect :: u32 where "msg_o2i_disconnect = 150011"
definition msg_o2i_send_data_result :: u32 where "msg_o2i_send_data_result = 150012"
definition msg_i2o_recv_data_result :: u32 where "msg_i2o_recv_data_result = 150013"
definition msg_i2o_send_to_data :: u32 where "msg_i2o_send_to_data = 150014"
definition msg_o2i_recv_data_from :: u32 where "msg_o2i_recv_data_from = 150015"

lemmas msg_id_defs =
  msg_login_req_def msg_register_req_def msg_management_login_req_def
  msg_tunnel_runtime_report_def msg_upgrade_status_report_def msg_login_ack_def
  msg_management_login_ack_def msg_modify_tunnel_ntf_def msg_upgrade_offer_ntf_def
  msg_upgrade_chunk_ntf_def msg_success_def msg_fail_def
  msg_error_def msg_ping_def msg_pong_def
  msg_i2o_connect_def msg_o2i_connect_def msg_i2o_send_data_def
  msg_o2i_recv_data_def msg_i2o_disconnect_def msg_o2i_disconnect_def
  msg_o2i_send_data_result_def msg_i2o_recv_data_result_def msg_i2o_send_to_data_def
  msg_o2i_recv_data_from_def

definition message_id :: "message \<Rightarrow> u32 \<times> bool" where
  "message_id m =
     (case m of
        LoginReq _ \<Rightarrow> (msg_login_req, True)
      | RegisterReq _ \<Rightarrow> (msg_register_req, True)
      | ManagementLoginReq _ \<Rightarrow> (msg_management_login_req, True)
      | TunnelRuntimeReport _ \<Rightarrow> (msg_tunnel_runtime_report, True)
      | UpgradeStatusReport _ \<Rightarrow> (msg_upgrade_status_report, True)
      | LoginAck _ \<Rightarrow> (msg_login_ack, True)
      | ManagementLoginAck _ \<Rightarrow> (msg_management_login_ack, True)
      | ModifyTunnelNtf _ \<Rightarrow> (msg_modify_tunnel_ntf, True)
      | UpgradeOffer _ \<Rightarrow> (msg_upgrade_offer_ntf, True)
      | UpgradeChunk _ \<Rightarrow> (msg_upgrade_chunk_ntf, True)
      | Success \<Rightarrow> (msg_success, True)
      | Fail _ \<Rightarrow> (msg_fail, True)
      | Error _ \<Rightarrow> (msg_error, True)
      | Ping _ \<Rightarrow> (msg_ping, True)
      | Pong _ \<Rightarrow> (msg_pong, True)
      | PbI2OConnect _ \<Rightarrow> (msg_i2o_connect, True)
      | PbO2IConnect _ \<Rightarrow> (msg_o2i_connect, True)
      | PbI2OSendData _ \<Rightarrow> (msg_i2o_send_data, True)
      | PbO2IRecvData _ \<Rightarrow> (msg_o2i_recv_data, True)
      | PbI2ODisconnect _ \<Rightarrow> (msg_i2o_disconnect, True)
      | PbO2IDisconnect _ \<Rightarrow> (msg_o2i_disconnect, True)
      | PbO2ISendDataResult _ \<Rightarrow> (msg_o2i_send_data_result, True)
      | PbI2ORecvDataResult _ \<Rightarrow> (msg_i2o_recv_data_result, True)
      | PbI2OSendToData _ \<Rightarrow> (msg_i2o_send_to_data, True)
      | PbO2IRecvDataFrom _ \<Rightarrow> (msg_o2i_recv_data_from, True))"

definition encode :: "protowire \<Rightarrow> message \<Rightarrow> proto_error + byte list" where
  "encode pw m =
     (case m of
        LoginReq x \<Rightarrow> Inr (marshal_login_req pw x)
      | RegisterReq x \<Rightarrow> Inr (marshal_register_req pw x)
      | ManagementLoginReq x \<Rightarrow> Inr (marshal_management_login_req pw x)
      | TunnelRuntimeReport x \<Rightarrow> Inr (marshal_tunnel_runtime_report pw x)
      | UpgradeStatusReport x \<Rightarrow> Inr (marshal_upgrade_status_report pw x)
      | LoginAck x \<Rightarrow> marshal_login_ack pw x
      | ManagementLoginAck x \<Rightarrow> Inr (marshal_management_login_ack pw x)
      | ModifyTunnelNtf x \<Rightarrow> marshal_modify_tunnel_ntf pw x
      | UpgradeOffer x \<Rightarrow> Inr (marshal_upgrade_offer pw x)
      | UpgradeChunk x \<Rightarrow> Inr (marshal_upgrade_chunk pw x)
      | Success \<Rightarrow> Inr []
      | Fail x \<Rightarrow> Inr (marshal_fail pw x)
      | Error x \<Rightarrow> Inr (marshal_error pw x)
      | Ping x \<Rightarrow> Inr (marshal_ping pw x)
      | Pong x \<Rightarrow> Inr (marshal_pong pw x)
      | PbI2OConnect x \<Rightarrow> Inr (marshal_i2o_connect pw x)
      | PbO2IConnect x \<Rightarrow> Inr (marshal_o2i_connect pw x)
      | PbI2OSendData x \<Rightarrow> Inr (marshal_i2o_send_data pw x)
      | PbO2IRecvData x \<Rightarrow> Inr (marshal_o2i_recv_data pw x)
      | PbI2ODisconnect x \<Rightarrow> Inr (marshal_i2o_disconnect pw x)
      | PbO2IDisconnect x \<Rightarrow> Inr (marshal_o2i_disconnect pw x)
      | PbO2ISendDataResult x \<Rightarrow> Inr (marshal_o2i_send_data_result pw x)
      | PbI2ORecvDataResult x \<Rightarrow> Inr (marshal_i2o_recv_data_result pw x)
      | PbI2OSendToData x \<Rightarrow> Inr (marshal_i2o_send_to_data pw x)
      | PbO2IRecvDataFrom x \<Rightarrow> Inr (marshal_o2i_recv_data_from pw x))"

definition as_message :: "('a \<Rightarrow> message) \<Rightarrow> 'a outcome \<Rightarrow> message outcome" where
  "as_message c r = map_option (map_sum id c) r"

definition decode :: "protowire \<Rightarrow> u32 \<Rightarrow> byte list \<Rightarrow> message outcome" where
  "decode pw mid payload =
     (if mid = msg_login_req then as_message LoginReq (unmarshal_login_req pw payload)
      else if mid = msg_register_req then
        as_message RegisterReq (unmarshal_register_req pw payload)
      else if mid = msg_management_login_req then
        as_message ManagementLoginReq (unmarshal_management_login_req pw payload)
      else if mid = msg_tunnel_runtime_report then
        as_message TunnelRuntimeReport (unmarshal_tunnel_runtime_report pw payload)
      else if mid = msg_upgrade_status_report then
        as_message UpgradeStatusReport (unmarshal_upgrade_status_report pw payload)
      else if mid = msg_login_ack then as_message LoginAck (unmarshal_login_ack pw payload)
      else if mid = msg_management_login_ack then
        as_message ManagementLoginAck (unmarshal_management_login_ack pw payload)
      else if mid = msg_modify_tunnel_ntf then
        as_message ModifyTunnelNtf (unmarshal_modify_tunnel_ntf pw payload)
      else if mid = msg_upgrade_offer_ntf then
        as_message UpgradeOffer (unmarshal_upgrade_offer pw payload)
      else if mid = msg_upgrade_chunk_ntf then
        as_message UpgradeChunk (unmarshal_upgrade_chunk pw payload)
      else if mid = msg_success then Some (Inr Success)
      else if mid = msg_fail then as_message Fail (unmarshal_fail pw payload)
      else if mid = msg_error then as_message Error (unmarshal_error pw payload)
      else if mid = msg_ping then as_message Ping (unmarshal_ping pw payload)
      else if mid = msg_pong then as_message Pong (unmarshal_pong pw payload)
      else if mid = msg_i2o_connect then
        as_message PbI2OConnect (unmarshal_i2o_connect pw payload)
      else if mid = msg_o2i_connect then
        as_message PbO2IConnect (unmarshal_o2i_connect pw payload)
      else if mid = msg_i2o_send_data then
        as_message PbI2OSendData (unmarshal_i2o_send_data pw payload)
      else if mid = msg_o2i_recv_data then
        as_message PbO2IRecvData (unmarshal_o2i_recv_data pw payload)
      else if mid = msg_i2o_disconnect then
        as_message PbI2ODisconnect (unmarshal_i2o_disconnect pw payload)
      else if mid = msg_o2i_disconnect then
        as_message PbO2IDisconnect (unmarshal_o2i_disconnect pw payload)
      else if mid = msg_o2i_send_data_result then
        as_message PbO2ISendDataResult (unmarshal_o2i_send_data_result pw payload)
      else if mid = msg_i2o_recv_data_result then
        as_message PbI2ORecvDataResult (unmarshal_i2o_recv_data_result pw payload)
      else if mid = msg_i2o_send_to_data then
        as_message PbI2OSendToData (unmarshal_i2o_send_to_data pw payload)
      else if mid = msg_o2i_recv_data_from then
        as_message PbO2IRecvDataFrom (unmarshal_o2i_recv_data_from pw payload)
      else Some (Inl (Unknown_Message_Id mid)))"

section \<open>Every byte string decodes, to a value or an error\<close>

lemma not_None_intros:
  "(P \<Longrightarrow> x \<noteq> None) \<Longrightarrow> (\<not> P \<Longrightarrow> y \<noteq> None) \<Longrightarrow> (if P then x else y) \<noteq> None"
  "Some z \<noteq> None" "with_varint pw field kv \<noteq> None" "with_string pw field ks \<noteq> None"
  "with_bytes pw field kb \<noteq> None" "r \<noteq> None \<Longrightarrow> expect_type num t want r \<noteq> None"
  "(\<And>raw. dec raw \<noteq> None) \<Longrightarrow> with_message pw field dec km \<noteq> None"
  "o' \<noteq> None \<Longrightarrow> map_option g o' \<noteq> None"
  "u \<noteq> None \<Longrightarrow> as_message c u \<noteq> None"
  by (auto simp: as_message_def wire_simps split: sum.split)

lemma total_steps [wire_simps]:
  "total_step (tunnel_point_step pw)" "total_step (map_entry_step pw)"
  "total_step (pair_step pw)" "total_step (triple_step pw)" "total_step (binary_triplet_step pw)"
  "total_step (register_req_step pw)" "total_step (management_login_req_step pw)"
  "total_step (tunnel_runtime_report_step pw)" "total_step (management_login_ack_step pw)"
  "total_step (login_req_step pw)" "total_step (upgrade_offer_step pw)"
  "total_step (upgrade_chunk_step pw)" "total_step (upgrade_status_report_step pw)"
  "total_step (error_step pw)" "total_step (ping_step pw)"
  "total_step (i2o_connect_step pw)" "total_step (o2i_connect_step pw)"
  "total_step (i2o_send_to_data_step pw)" "total_step (o2i_recv_data_from_step pw)"
  unfolding total_step_def split_beta tunnel_point_step_def map_entry_step_def
    pair_step_def triple_step_def binary_triplet_step_def register_req_step_def
    management_login_req_step_def tunnel_runtime_report_step_def management_login_ack_step_def
    login_req_step_def upgrade_offer_step_def upgrade_chunk_step_def
    upgrade_status_report_step_def error_step_def ping_step_def i2o_connect_step_def
    o2i_connect_step_def i2o_send_to_data_step_def o2i_recv_data_from_step_def
  by (intro allI not_None_intros)+

context protowire_laws
begin

lemma loop_not_None: "total_step step \<Longrightarrow> unmarshal_loop pw step data m \<noteq> None"
  using unmarshal_loop_terminates [of step data m] by auto

lemma tunnel_step_total [wire_simps]: "total_step (tunnel_step pw)"
  unfolding total_step_def tunnel_step_def unmarshal_tunnel_point_def unmarshal_map_entry_def
  by (intro allI not_None_intros loop_not_None total_steps)

lemma tunnel_list_steps_total [wire_simps]:
  "total_step (login_ack_step pw)" "total_step (modify_tunnel_ntf_step pw)"
  unfolding total_step_def login_ack_step_def modify_tunnel_ntf_step_def unmarshal_tunnel_def
  by (intro allI not_None_intros loop_not_None tunnel_step_total)+

lemma decode_not_None: "decode pw mid payload \<noteq> None"
  unfolding decode_def unmarshal_login_req_def unmarshal_register_req_def
    unmarshal_management_login_req_def unmarshal_tunnel_runtime_report_def
    unmarshal_upgrade_status_report_def unmarshal_login_ack_def unmarshal_management_login_ack_def
    unmarshal_modify_tunnel_ntf_def unmarshal_upgrade_offer_def unmarshal_upgrade_chunk_def
    unmarshal_fail_def unmarshal_error_def unmarshal_ping_def unmarshal_pong_def
    unmarshal_i2o_connect_def unmarshal_o2i_connect_def unmarshal_i2o_send_data_def
    unmarshal_o2i_recv_data_def unmarshal_i2o_disconnect_def unmarshal_o2i_disconnect_def
    unmarshal_o2i_send_data_result_def unmarshal_i2o_recv_data_result_def
    unmarshal_i2o_send_to_data_def unmarshal_o2i_recv_data_from_def unmarshal_pair_def
    unmarshal_triple_uint32_def unmarshal_binary_triplet_def
  by (intro not_None_intros loop_not_None total_steps tunnel_step_total tunnel_list_steps_total)

end

section \<open>The codec as a whole\<close>

text \<open>A message after a trip over the wire: blank embedded messages are dropped.\<close>

definition wire_message :: "message \<Rightarrow> message" where
  "wire_message m =
     (case m of
        LoginAck a \<Rightarrow> LoginAck (a\<lparr>la_tunnel_list := wire_tunnel_list (la_tunnel_list a)\<rparr>)
      | ModifyTunnelNtf n \<Rightarrow>
          ModifyTunnelNtf (n\<lparr>mt_tunnel := (case mt_tunnel n of
             None \<Rightarrow> None
           | Some t \<Rightarrow> if wire_tunnel t = zero_tunnel then None else Some (wire_tunnel t))\<rparr>)
      | _ \<Rightarrow> m)"

text \<open>The mappings of a message's tunnels are Go maps: their keys are distinct.\<close>

definition message_maps :: "message \<Rightarrow> bool" where
  "message_maps m =
     (case m of
        LoginAck a \<Rightarrow> list_all (\<lambda>t. go_map (pt_custom_mapping t)) (la_tunnel_list a)
      | ModifyTunnelNtf n \<Rightarrow> pred_option (\<lambda>t. go_map (pt_custom_mapping t)) (mt_tunnel n)
      | _ \<Rightarrow> True)"

context protowire_laws
begin

lemma decode_encode:
  assumes "message_maps m"
  shows "\<exists>b. encode pw m = Inr b \<and> decode pw (fst (message_id m)) b = Some (Inr (wire_message m))"
proof (cases m)
  case (LoginAck a)
  with assms unmarshal_marshal_login_ack [of a] show ?thesis
    by (auto simp: message_maps_def list_all_iff encode_def decode_def message_id_def msg_id_defs
        as_message_def wire_message_def)
next
  case (ModifyTunnelNtf n)
  with assms unmarshal_marshal_modify_tunnel_ntf [of n] show ?thesis
    by (cases "mt_tunnel n") (auto simp: message_maps_def encode_def decode_def message_id_def msg_id_defs
        as_message_def wire_message_def)
qed (simp_all add: encode_def decode_def message_id_def msg_id_defs as_message_def
    wire_message_def wire_simps)

end

lemma as_message_Inr: "as_message c r = Some (Inr m) \<longleftrightarrow> (\<exists>x. r = Some (Inr x) \<and> m = c x)"
  by (cases r; cases "the r") (auto simp: as_message_def)

lemma decode_message_id:
  assumes "decode pw mid payload = Some (Inr m)"
  shows "message_id m = (mid, True)"
  using assms unfolding decode_def
  by (auto simp only: as_message_Inr message_id_def message.case option.inject sum.inject
      split: if_splits)

text \<open>The ids in use.\<close>

definition message_ids :: "u32 list" where
  "message_ids = [1001, 1002, 1003, 1005, 1006, 1008, 1009, 1010, 1011, 1012,
     150001, 150002, 150003, 150004, 150005, 150006, 150007, 150008, 150009, 150010, 150011,
     150012, 150013, 150014, 150015]"

lemma message_id_in: "fst (message_id m) \<in> set message_ids"
  by (cases m) (simp_all add: message_id_def msg_id_defs message_ids_def)

context protowire_laws
begin

lemma skip_field:
  assumes "1 \<le> f" "f < 2 ^ 29"
  shows "(\<And>m. step f varint_type (pw_append_varint pw [] v) m = Some (Inr m)) \<Longrightarrow>
      unmarshal_loop pw step (pw_append_tag pw [] f varint_type @ pw_append_varint pw [] v @ rest) m =
      unmarshal_loop pw step rest m"
    and "(\<And>m. step f bytes_type (pw_append_bytes pw [] d) m = Some (Inr m)) \<Longrightarrow>
      unmarshal_loop pw step (pw_append_tag pw [] f bytes_type @ pw_append_bytes pw [] d @ rest) m =
      unmarshal_loop pw step rest m"
  using unmarshal_loop_step [of "pw_append_tag pw [] f varint_type @ pw_append_varint pw [] v @ rest" step m]
    unmarshal_loop_step [of "pw_append_tag pw [] f bytes_type @ pw_append_bytes pw [] d @ rest" step m]
    consume_field_varint [OF assms] consume_field_bytes [OF assms] append_tag_not_Nil [OF assms]
  by simp_all

lemmas step_defs = tunnel_step_def login_req_step_def register_req_step_def
  management_login_req_step_def tunnel_runtime_report_step_def upgrade_status_report_step_def
  login_ack_step_def management_login_ack_step_def modify_tunnel_ntf_step_def
  upgrade_offer_step_def upgrade_chunk_step_def error_step_def ping_step_def i2o_connect_step_def
  o2i_connect_step_def pair_step_def triple_step_def binary_triplet_step_def
  i2o_send_to_data_step_def o2i_recv_data_from_step_def

lemma unknown_steps:
  assumes "12 < f"
  shows "login_req_step pw f t x = (\<lambda>m. Some (Inr m))" "register_req_step pw f t x = (\<lambda>m. Some (Inr m))"
    "management_login_req_step pw f t x = (\<lambda>m. Some (Inr m))"
    "tunnel_runtime_report_step pw f t x = (\<lambda>m. Some (Inr m))"
    "upgrade_status_report_step pw f t x = (\<lambda>m. Some (Inr m))"
    "login_ack_step pw f t x = (\<lambda>m. Some (Inr m))"
    "management_login_ack_step pw f t x = (\<lambda>m. Some (Inr m))"
    "modify_tunnel_ntf_step pw f t x = (\<lambda>m. Some (Inr m))"
    "upgrade_offer_step pw f t x = (\<lambda>m. Some (Inr m))" "upgrade_chunk_step pw f t x = (\<lambda>m. Some (Inr m))"
    "error_step pw f t x = (\<lambda>m. Some (Inr m))" "ping_step pw f t x = (\<lambda>m. Some (Inr m))"
    "i2o_connect_step pw f t x = (\<lambda>m. Some (Inr m))" "o2i_connect_step pw f t x = (\<lambda>m. Some (Inr m))"
    "binary_triplet_step pw f t x = (\<lambda>m. Some (Inr m))"
    "i2o_send_to_data_step pw f t x = (\<lambda>m. Some (Inr m))"
    "o2i_recv_data_from_step pw f t x = (\<lambda>m. Some (Inr m))"
    "pair_step pw f t (pw_append_varint pw [] v) = (\<lambda>m. Some (Inr m))"
    "triple_step pw f t (pw_append_varint pw [] v) = (\<lambda>m. Some (Inr m))"
  using assms by (simp_all add: fun_eq_iff step_defs wire_simps split: prod.split)

lemmas unmarshal_defs = unmarshal_login_req_def unmarshal_register_req_def
  unmarshal_management_login_req_def unmarshal_tunnel_runtime_report_def
  unmarshal_upgrade_status_report_def unmarshal_login_ack_def unmarshal_management_login_ack_def
  unmarshal_modify_tunnel_ntf_def unmarshal_upgrade_offer_def unmarshal_upgrade_chunk_def
  unmarshal_fail_def unmarshal_error_def unmarshal_ping_def unmarshal_pong_def
  unmarshal_i2o_connect_def unmarshal_o2i_connect_def unmarshal_i2o_send_data_def
  unmarshal_o2i_recv_data_def unmarshal_i2o_disconnect_def unmarshal_o2i_disconnect_def
  unmarshal_o2i_send_data_result_def unmarshal_i2o_recv_data_result_def
  unmarshal_i2o_send_to_data_def unmarshal_o2i_recv_data_from_def unmarshal_pair_def
  unmarshal_triple_uint32_def unmarshal_binary_triplet_def

lemma decode_skips_varint:
  assumes "12 < f" "f < 2 ^ 29"
  shows "decode pw mid (pw_append_tag pw [] f varint_type @ pw_append_varint pw [] v @ rest) =
    decode pw mid rest"
proof -
  from assms have "1 \<le> f" by simp
  note skip = skip_field(1) [OF this assms(2)]
  show ?thesis
    unfolding decode_def unmarshal_defs by (simp only: unknown_steps [OF assms(1)] skip)
qed

lemma decode_skips_bytes:
  assumes "12 < f" "f < 2 ^ 29"
    and "mid \<notin> {msg_i2o_disconnect, msg_o2i_disconnect, msg_o2i_send_data_result,
      msg_i2o_recv_data_result}"
  shows "decode pw mid (pw_append_tag pw [] f bytes_type @ pw_append_bytes pw [] d @ rest) =
    decode pw mid rest"
proof -
  from assms have "1 \<le> f" by simp
  note skip = skip_field(2) [OF this assms(2)]
  from assms(3) have "mid \<noteq> msg_i2o_disconnect" "mid \<noteq> msg_o2i_disconnect"
    "mid \<noteq> msg_o2i_send_data_result" "mid \<noteq> msg_i2o_recv_data_result" by simp_all
  then show ?thesis
    unfolding decode_def unmarshal_defs by (simp only: unknown_steps [OF assms(1)] skip if_False)
qed

end

section \<open>Properties\<close>

text \<open>
  C1. Encoding and decoding are inverse, for every message type.  On a lawful wire package every
  message (whose mappings are Go maps) encodes without error, and the bytes decode, under the id
  \<open>MessageID\<close> gives, to the same message; only embedded messages whose encoding is empty (a blank
  end point, a blank mapping entry, an all-zero tunnel) are lost.
\<close>

theorem codec_round_trip:
  assumes "protowire_laws pw" and "message_maps m"
  shows "\<exists>b. encode pw m = Inr b \<and> decode pw (fst (message_id m)) b = Some (Inr (wire_message m))"
  using protowire_laws.decode_encode [OF assms] .

definition example_tunnel :: pb_tunnel where
  "example_tunnel = zero_tunnel\<lparr>pt_source := Some \<lparr>tp_addr = ''0.0.0.0:80''\<rparr>,
     pt_endpoint := Some \<lparr>tp_addr = ''''\<rparr>, pt_id := 7, pt_tunnel_type := - 1,
     pt_custom_mapping := [('''', ''''), (''a'', ''b'')]\<rparr>"

lemma codec_round_trip_witness:
  "\<exists>b. encode std_wire (ModifyTunnelNtf \<lparr>mt_is_delete = True, mt_tunnel = Some example_tunnel\<rparr>) = Inr b \<and>
     decode std_wire 1008 b = Some (Inr (ModifyTunnelNtf \<lparr>mt_is_delete = True,
       mt_tunnel = Some (example_tunnel\<lparr>pt_endpoint := None, pt_custom_mapping := [(''a'', ''b'')]\<rparr>)\<rparr>))"
  using codec_round_trip [OF std_wire_laws,
    of "ModifyTunnelNtf \<lparr>mt_is_delete = True, mt_tunnel = Some example_tunnel\<rparr>"]
  by (simp add: message_maps_def go_map_def example_tunnel_def wire_message_def wire_tunnel_def
      strip_point_def zero_tunnel_def message_id_def msg_id_defs)

text \<open>
  C30. Decoding is total and typed: on any bytes it ends, with an error or with a message of the type
  the id stands for; an id that is not in use is rejected with the unknown-id error, whatever the
  payload.
\<close>

theorem decode_total_typed:
  assumes "protowire_laws pw"
  shows "\<exists>r. decode pw mid payload = Some r \<and>
    (case r of Inl e \<Rightarrow> True | Inr m \<Rightarrow> message_id m = (mid, True)) \<and>
    (r = Inl (Unknown_Message_Id mid) \<or> mid \<in> set message_ids)"
proof -
  obtain r where r: "decode pw mid payload = Some r"
    using protowire_laws.decode_not_None [OF assms] by auto
  moreover have "case r of Inl e \<Rightarrow> True | Inr m \<Rightarrow> message_id m = (mid, True)"
    using decode_message_id r by (auto split: sum.split)
  moreover have "r = Inl (Unknown_Message_Id mid)" if "mid \<notin> set message_ids"
    using that r by (auto simp: decode_def message_ids_def msg_id_defs)
  ultimately show ?thesis by blast
qed

lemma decode_total_typed_witness:
  "\<exists>r. decode std_wire 999999 [8, 150] = Some r \<and>
    (case r of Inl e \<Rightarrow> True | Inr m \<Rightarrow> message_id m = (999999, True)) \<and>
    (r = Inl (Unknown_Message_Id 999999) \<or> 999999 \<in> set message_ids)"
  by (rule decode_total_typed [OF std_wire_laws])

text \<open>
  A newer peer's fields are skipped: a varint field of a number above 12 in front of the payload
  changes nothing for any message, a bytes field changes nothing for any message but the four
  of plain integers, whose decoders read every field as a varint.
\<close>

theorem unknown_fields_skipped:
  assumes "protowire_laws pw" and "12 < f" and "f < 2 ^ 29"
  shows "decode pw mid (pw_append_varint pw (pw_append_tag pw [] f varint_type) v @ rest) =
      decode pw mid rest \<and>
    (mid \<notin> {msg_i2o_disconnect, msg_o2i_disconnect, msg_o2i_send_data_result,
      msg_i2o_recv_data_result} \<longrightarrow>
     decode pw mid (pw_append_bytes pw (pw_append_tag pw [] f bytes_type) d @ rest) =
      decode pw mid rest)"
  using protowire_laws.decode_skips_varint [OF assms] protowire_laws.decode_skips_bytes [OF assms]
  by (simp add: protowire_laws.append_tag_then [OF assms(1)])

lemma unknown_fields_skipped_witness:
  "decode std_wire 1008 ([232, 7, 5] @ [8, 1]) = decode std_wire 1008 [8, 1] \<and>
   decode std_wire 1008 ([234, 7, 1, 65] @ [8, 1]) = decode std_wire 1008 [8, 1]"
  using unknown_fields_skipped [OF std_wire_laws, of 125 1008 5 "[8, 1]" "[65]"]
  by (simp add: std_wire_def std_append_bytes_def put_varint.simps msg_id_defs)

end
