(* ===== verification/Frame.thy ===== *)
theory Frame
  imports Proto_Ids
begin

text \<open>
  \<open>internal/codec/frame.go\<close> and the read loops over it (\<open>readLoop\<close> of
  \<open>internal/server/session.go\<close> and of \<open>internal/client/client.go\<close>).

  A frame is the byte 33, a big-endian length, and that many bytes: serial, message id, payload.
  The loops append every chunk the connection yields to a cache and hand each complete frame to a
  handler, which may fail; \<open>drain_frames\<close> is the inner loop and \<open>read_loop\<close> the outer one, over
  the list of chunks the reads return.  Shrinking the cache's capacity leaves its content alone.
\<close>

section \<open>Big-endian integers\<close>

definition put_u32 :: "u32 \<Rightarrow> byte list" where
  "put_u32 w = [ucast (drop_bit 24 w), ucast (drop_bit 16 w), ucast (drop_bit 8 w), ucast w]"

definition get_u32 :: "byte list \<Rightarrow> u32" where
  "get_u32 b = or (or (push_bit 24 (ucast (b ! 0))) (push_bit 16 (ucast (b ! 1))))
     (or (push_bit 8 (ucast (b ! 2))) (ucast (b ! 3)))"

lemma length_put_u32 [simp]: "length (put_u32 w) = 4"
  by (simp add: put_u32_def)

lemma get_put_u32 [simp]: "get_u32 (put_u32 w @ r) = w"
proof (rule bit_word_eqI)
  fix n assume "n < LENGTH(32)"
  then have "n < 8 \<or> (8 \<le> n \<and> n < 16) \<or> (16 \<le> n \<and> n < 24) \<or> (24 \<le> n \<and> n < 32)" by auto
  then show "bit (get_u32 (put_u32 w @ r)) n \<longleftrightarrow> bit w n"
    by (auto simp: get_u32_def put_u32_def bit_simps)
qed

section \<open>Frames\<close>

definition frame_magic :: byte where "frame_magic = 33"

datatype codec_error =
    Bad_Flag
  | Message_Too_Long
  | Message_Too_Small
  | Message_Id_Not_Found
  | Codec_Proto proto_error

definition encode_frame :: "protowire \<Rightarrow> i32 \<Rightarrow> message \<Rightarrow> codec_error + byte list" where
  "encode_frame pw serial m =
     (case message_id m of (msg_id, ok) \<Rightarrow>
        if \<not> ok then Inl Message_Id_Not_Found
        else (case encode pw m of
                Inl e \<Rightarrow> Inl (Codec_Proto e)
              | Inr payload \<Rightarrow>
                  let frame_len = 8 + length payload in
                  Inr (frame_magic # put_u32 (of_nat frame_len) @ put_u32 serial @ put_u32 msg_id
                       @ payload)))"

definition try_extract_frame ::
  "byte list \<Rightarrow> nat \<Rightarrow> codec_error + byte list option \<times> byte list" where
  "try_extract_frame buffer max_size =
     (if length buffer = 0 then Inr (None, buffer)
      else if buffer ! 0 \<noteq> frame_magic then Inl Bad_Flag
      else if length buffer < 5 then Inr (None, buffer)
      else let frame_len = unat (get_u32 (drop 1 buffer)) in
        if frame_len \<le> 0 \<or> max_size \<le> frame_len then Inl Message_Too_Long
        else if length buffer < 5 + frame_len then Inr (None, buffer)
        else Inr (Some (take frame_len (drop 5 buffer)), drop (5 + frame_len) buffer))"

definition decode_frame :: "protowire \<Rightarrow> byte list \<Rightarrow> (codec_error + i32 \<times> message) option" where
  "decode_frame pw frame =
     (if length frame < 8 then Some (Inl Message_Too_Small)
      else let serial = get_u32 (take 4 frame); msg_id = get_u32 (take 4 (drop 4 frame)) in
        map_option (\<lambda>r. case r of Inl e \<Rightarrow> Inl (Codec_Proto e) | Inr m \<Rightarrow> Inr (serial, m))
          (decode pw msg_id (drop 8 frame)))"

text \<open>The part of a packet that \<open>TryExtractFrame\<close> returns.\<close>

definition frame_body :: "byte list \<Rightarrow> byte list" where
  "frame_body packet = drop 5 packet"

lemma extract_shrinks:
  "try_extract_frame buffer n = Inr (Some frame, rest) \<Longrightarrow> length rest < length buffer"
  by (auto simp: try_extract_frame_def Let_def split: if_splits)

lemma get_u32_append:
  assumes "5 \<le> length a"
  shows "get_u32 (drop 1 (a @ b)) = get_u32 (drop 1 a)"
proof -
  from assms have "0 < length a - 1" "1 < length a - 1" "2 < length a - 1" "3 < length a - 1"
    by simp_all
  then show ?thesis by (simp add: get_u32_def nth_append del: One_nat_def)
qed

lemma extract_append:
  assumes "try_extract_frame a n = Inr (Some frame, rest)"
  shows "try_extract_frame (a @ b) n = Inr (Some frame, rest @ b)"
proof -
  have len: "5 \<le> length a" using assms by (auto simp: try_extract_frame_def Let_def split: if_splits)
  with assms get_u32_append [OF len] show ?thesis
    by (auto simp: try_extract_frame_def Let_def nth_append split: if_splits)
qed

lemma extract_append_error:
  assumes "try_extract_frame a n = Inl e"
  shows "try_extract_frame (a @ b) n = Inl e"
proof (cases "length a < 5")
  case False
  with assms get_u32_append [of a b] show ?thesis
    by (auto simp: try_extract_frame_def Let_def nth_append split: if_splits)
qed (use assms in \<open>auto simp: try_extract_frame_def Let_def nth_append split: if_splits\<close>)

lemma extract_rest_None:
  "try_extract_frame buffer n = Inr (None, rest) \<Longrightarrow> rest = buffer"
  by (auto simp: try_extract_frame_def Let_def split: if_splits)

section \<open>The read loops\<close>

datatype 'e read_error = Frame_Error codec_error | Handler_Error 'e

function drain_frames ::
  "nat \<Rightarrow> (byte list \<Rightarrow> 's \<Rightarrow> 'e option \<times> 's) \<Rightarrow> byte list \<Rightarrow> 's
    \<Rightarrow> ('e read_error + byte list) \<times> 's" where
  "drain_frames max_size handle cache s =
     (case try_extract_frame cache max_size of
        Inl e \<Rightarrow> (Inl (Frame_Error e), s)
      | Inr (None, rest) \<Rightarrow> (Inr rest, s)
      | Inr (Some frame, rest) \<Rightarrow>
          (case handle frame s of
             (Some e, s') \<Rightarrow> (Inl (Handler_Error e), s')
           | (None, s') \<Rightarrow> drain_frames max_size handle rest s'))"
  by pat_completeness auto
termination
  by (relation "measure (\<lambda>(n, h, cache, s). length cache)") (auto dest: extract_shrinks)

declare drain_frames.simps [simp del]

fun read_loop ::
  "nat \<Rightarrow> (byte list \<Rightarrow> 's \<Rightarrow> 'e option \<times> 's) \<Rightarrow> byte list list \<Rightarrow> byte list \<Rightarrow> 's
    \<Rightarrow> ('e read_error + byte list) \<times> 's" where
  "read_loop max_size handle [] cache s = (Inr cache, s)"
| "read_loop max_size handle (chunk # chunks) cache s =
     (case drain_frames max_size handle (cache @ chunk) s of
        (Inl e, s') \<Rightarrow> (Inl e, s')
      | (Inr rest, s') \<Rightarrow> read_loop max_size handle chunks rest s')"

definition server_max_frame :: nat where "server_max_frame = 2 * 1024 * 1024"
definition client_max_frame :: nat where "client_max_frame = 5 * 1024 * 1024"

text \<open>
  The server's outer loop looks at the first byte of the cache before the inner loop runs: a peer
  that does not speak the protocol is forwarded to another address, when one is configured, with
  everything read from it so far.
\<close>

datatype 'e server_end =
    Still_Reading "byte list"
  | Read_Failed "'e read_error"
  | Illegal_Forward "byte list"

fun server_read_loop ::
  "string \<Rightarrow> (byte list \<Rightarrow> 's \<Rightarrow> 'e option \<times> 's) \<Rightarrow> byte list list \<Rightarrow> byte list \<Rightarrow> 's
    \<Rightarrow> 'e server_end \<times> 's" where
  "server_read_loop illegal handle [] cache s = (Still_Reading cache, s)"
| "server_read_loop illegal handle (chunk # chunks) cache s =
     (let cache = cache @ chunk in
      if length cache > 0 \<and> cache ! 0 \<noteq> 33 then
        (if illegal \<noteq> '''' then (Illegal_Forward cache, s) else (Read_Failed (Frame_Error Bad_Flag), s))
      else
        (case drain_frames server_max_frame handle cache s of
           (Inl e, s') \<Rightarrow> (Read_Failed e, s')
         | (Inr rest, s') \<Rightarrow> server_read_loop illegal handle chunks rest s'))"

lemma drain_append:
  "drain_frames n h (a @ b) s =
    (case drain_frames n h a s of
       (Inl e, s') \<Rightarrow> (Inl e, s')
     | (Inr rest, s') \<Rightarrow> drain_frames n h (rest @ b) s')"
proof (induction n h a s rule: drain_frames.induct)
  case (1 n h a s)
  show ?case
  proof (cases "try_extract_frame a n")
    case (Inl e)
    then show ?thesis
      by (simp add: drain_frames.simps [of n h a] drain_frames.simps [of n h "a @ b"]
          extract_append_error)
  next
    case (Inr q)
    obtain fo rest where q: "q = (fo, rest)" by (cases q)
    show ?thesis
    proof (cases fo)
      case None
      with Inr q show ?thesis
        by (auto simp: drain_frames.simps [of n h a] dest: extract_rest_None)
    next
      case (Some frame)
      with Inr q have a: "try_extract_frame a n = Inr (Some frame, rest)" by simp
      obtain eo s' where h: "h frame s = (eo, s')" by (cases "h frame s")
      show ?thesis
      proof (cases eo)
        case None
        with 1 [OF a refl refl, of eo s'] h extract_append [OF a] show ?thesis
          by (simp add: drain_frames.simps [of n h a] drain_frames.simps [of n h "a @ b"] a)
      next
        case (Some e)
        with h extract_append [OF a] show ?thesis
          by (simp add: drain_frames.simps [of n h a] drain_frames.simps [of n h "a @ b"] a)
      qed
    qed
  qed
qed

text \<open>A cache the inner loop leaves behind holds no complete frame.\<close>

lemma drain_leaves:
  "drain_frames n h a s = (Inr rest, s') \<Longrightarrow> try_extract_frame rest n = Inr (None, rest)"
proof (induction n h a s rule: drain_frames.induct)
  case (1 n h a s)
  note unfolded = 1(2) [unfolded drain_frames.simps [of n h a s]]
  show ?case
  proof (cases "try_extract_frame a n")
    case (Inr q)
    obtain fo rest' where q: "q = (fo, rest')" by (cases q)
    show ?thesis
    proof (cases fo)
      case None
      with Inr q unfolded show ?thesis by (auto dest: extract_rest_None)
    next
      case (Some frame)
      obtain eo s1 where h: "h frame s = (eo, s1)" by (cases "h frame s")
      from unfolded Inr q Some h have "eo = None" "drain_frames n h rest' s1 = (Inr rest, s')"
        by (simp_all split: option.splits)
      with 1(1) [OF Inr q [symmetric] Some h [symmetric]] show ?thesis by simp
    qed
  qed (use unfolded in simp)
qed

lemma drain_left: "try_extract_frame a n = Inr (None, a) \<Longrightarrow> drain_frames n h a s = (Inr a, s)"
  by (subst drain_frames.simps) simp

lemma read_loop_drains:
  "try_extract_frame cache n = Inr (None, cache) \<Longrightarrow>
     read_loop n h chunks cache s = drain_frames n h (cache @ concat chunks) s"
proof (induction chunks arbitrary: cache s)
  case (Cons chunk chunks)
  obtain r s' where d: "drain_frames n h (cache @ chunk) s = (r, s')"
    by (cases "drain_frames n h (cache @ chunk) s")
  from d drain_append [of n h "cache @ chunk" "concat chunks" s]
  show ?case
    by (cases r) (simp_all add: Cons.IH drain_leaves)
qed (simp add: drain_left)

lemma extract_empty: "try_extract_frame [] n = Inr (None, [])"
  by (simp add: try_extract_frame_def)

section \<open>A packet on the wire\<close>

text \<open>A packet with its frame inside the limit; the limit is below 2 to the 32.\<close>

definition good_packet :: "nat \<Rightarrow> byte list \<Rightarrow> bool" where
  "good_packet n p \<longleftrightarrow> (\<forall>rest. try_extract_frame (p @ rest) n = Inr (Some (frame_body p), rest))"

lemma encode_frame_form:
  assumes "encode_frame pw serial m = Inr p"
  shows "\<exists>payload. encode pw m = Inr payload \<and>
    p = frame_magic # put_u32 (of_nat (8 + length payload)) @ put_u32 serial @
      put_u32 (fst (message_id m)) @ payload"
  using assms by (auto simp: encode_frame_def Let_def split: prod.splits if_splits sum.splits)

lemma good_packet_encode:
  assumes p: "encode_frame pw serial m = Inr p" and small: "length p < 5 + n" and n: "n \<le> 2 ^ 32"
  shows "good_packet n p"
proof -
  from encode_frame_form [OF p] obtain payload where
    p: "p = frame_magic # put_u32 (of_nat (8 + length payload)) @ put_u32 serial @
      put_u32 (fst (message_id m)) @ payload" by blast
  from small p n have "8 + length payload < 2 ^ 32" by simp
  then have len: "unat (of_nat (8 + length payload) :: u32) = 8 + length payload"
    by (simp only: unat_of_nat) simp
  have body: "drop 5 (p @ r) = put_u32 serial @ put_u32 (fst (message_id m)) @ payload @ r" for r
    using p by (simp add: numeral_eq_Suc put_u32_def)
  have head: "get_u32 (drop 1 (p @ r)) = of_nat (8 + length payload)" "(p @ r) ! 0 = frame_magic"
    "length (p @ r) = 13 + length payload + length r" for r
    using p by simp_all
  have split: "drop (5 + k) xs = drop k (drop 5 xs)" for k and xs :: "byte list"
    by (simp add: add.commute)
  have "5 + (8 + length payload) \<le> length (p @ r)" for r unfolding head by simp
  with small p have "try_extract_frame (p @ r) n =
      Inr (Some (take (8 + length payload) (drop 5 (p @ r))), drop (8 + length payload) (drop 5 (p @ r)))" for r
    unfolding try_extract_frame_def Let_def head len split by (simp add: not_less)
  then show ?thesis
    using body [of "[]"] head(3) [of "[]"] unfolding good_packet_def frame_body_def
    by (simp add: body)
qed

lemma decode_frame_body:
  assumes "encode_frame pw serial m = Inr p" "protowire_laws pw" "message_maps m"
  shows "decode_frame pw (frame_body p) = Some (Inr (serial, wire_message m))"
proof -
  from encode_frame_form [OF assms(1)] obtain payload where e: "encode pw m = Inr payload" and
    p: "p = frame_magic # put_u32 (of_nat (8 + length payload)) @ put_u32 serial @
      put_u32 (fst (message_id m)) @ payload" by blast
  from e protowire_laws.decode_encode [OF assms(2,3)]
  have "decode pw (fst (message_id m)) payload = Some (Inr (wire_message m))" by auto
  with get_put_u32 [of serial "[]"] get_put_u32 [of "fst (message_id m)" "[]"] show ?thesis
    unfolding p decode_frame_def frame_body_def Let_def by simp
qed

lemma drain_packets:
  assumes "\<forall>p \<in> set ps. good_packet n p"
  shows "drain_frames n (\<lambda>f s. (None, g f s)) (concat ps) s = (Inr [], fold (\<lambda>p. g (frame_body p)) ps s)"
  using assms
proof (induction ps arbitrary: s)
  case (Cons p ps)
  then have "try_extract_frame (p @ concat ps) n = Inr (Some (frame_body p), concat ps)"
    by (simp add: good_packet_def)
  with Cons show ?case by (simp add: drain_frames.simps [of n _ "p @ concat ps"])
qed (simp add: drain_left extract_empty)

section \<open>Properties\<close>

text \<open>
  C31. However the connection splits the stream into chunks, the read loop handles the same frames
  in the same order, with the same effect on the handler's state, and ends with the same error or
  the same unread bytes as if everything had arrived at once.
\<close>

theorem read_loop_chunking:
  "read_loop n h chunks [] s = read_loop n h [concat chunks] [] s"
  using read_loop_drains [OF extract_empty, of n h chunks s]
    read_loop_drains [OF extract_empty, of n h "[concat chunks]" s]
  by simp

text \<open>A handler that decodes and keeps what it is given.\<close>

definition collect_frame :: "protowire \<Rightarrow> byte list \<Rightarrow> (codec_error + i32 \<times> message) option list
    \<Rightarrow> unit option \<times> (codec_error + i32 \<times> message) option list" where
  "collect_frame pw f s = (None, s @ [decode_frame pw f])"

text \<open>
  C2. Every message sent is received: if the chunks are together the packets that \<open>Encode\<close> made of
  the messages, each within the frame limit, the loop hands over the messages with their serials,
  all of them, in order, and leaves nothing in the cache.
\<close>

theorem stream_delivers_messages:
  assumes "protowire_laws pw" and "n \<le> 2 ^ 32"
    and sent: "list_all2 (\<lambda>(serial, m) p. encode_frame pw serial m = Inr p \<and> message_maps m \<and>
      length p < 5 + n) sent packets"
    and "concat chunks = concat packets"
  shows "read_loop n (collect_frame pw) chunks [] [] =
    (Inr [], map (\<lambda>(serial, m). Some (Inr (serial, wire_message m))) sent)"
proof -
  have good: "\<forall>p \<in> set packets. good_packet n p"
    using sent by (induction rule: list_all2_induct) (auto intro: good_packet_encode assms(2))
  have bodies: "map (\<lambda>p. decode_frame pw (frame_body p)) packets =
      map (\<lambda>(serial, m). Some (Inr (serial, wire_message m))) sent"
    using sent by (induction rule: list_all2_induct) (auto intro: decode_frame_body assms(1))
  have collect: "fold (\<lambda>p s. s @ [decode_frame pw (frame_body p)]) ps acc =
      acc @ map (\<lambda>p. decode_frame pw (frame_body p)) ps" for ps acc
    by (induction ps arbitrary: acc) simp_all
  show ?thesis
    using read_loop_drains [OF extract_empty, of n "collect_frame pw" chunks "[]"]
      drain_packets [OF good, of "\<lambda>f s. s @ [decode_frame pw f]" "[]"] assms(4)
    by (simp add: collect_frame_def [abs_def] collect bodies)
qed

definition example_packet :: "byte list" where
  "example_packet = [33, 0, 0, 0, 10, 255, 255, 255, 254, 0, 2, 73, 244, 8, 5]"

lemma example_packet_encoded:
  "encode_frame std_wire (- 2) (Ping \<lparr>pp_ticks = 5\<rparr>) = Inr example_packet"
  by (simp add: encode_frame_def message_id_def msg_id_defs encode_def marshal_ping_def
      append_int64_field_def std_wire_def put_varint.simps put_u32_def frame_magic_def
      example_packet_def)

lemma stream_delivers_messages_witness:
  "read_loop server_max_frame (collect_frame std_wire)
     [take 7 example_packet, drop 7 example_packet @ take 3 example_packet, drop 3 example_packet] [] [] =
   (Inr [], [Some (Inr (- 2, Ping \<lparr>pp_ticks = 5\<rparr>)), Some (Inr (- 2, Ping \<lparr>pp_ticks = 5\<rparr>))])"
  using stream_delivers_messages [OF std_wire_laws, of server_max_frame
    "[(- 2, Ping \<lparr>pp_ticks = 5\<rparr>), (- 2, Ping \<lparr>pp_ticks = 5\<rparr>)]" "[example_packet, example_packet]"
    "[take 7 example_packet, drop 7 example_packet @ take 3 example_packet, drop 3 example_packet]"]
  by (simp add: example_packet_encoded server_max_frame_def message_maps_def wire_message_def
      example_packet_def del: read_loop.simps)

end
