(* ===== verification/Queues.thy ===== *)
theory Queues
  imports Prelude
begin

text \<open>
  The bounded queues between goroutines: \<open>proxyMessageQueue\<close> and \<open>byteQueue\<close> of
  \<open>internal/proxy/queue.go\<close> and \<open>writeQueue\<close> of \<open>internal/server/session.go\<close>.  Each is a ring
  buffer under a mutex, so an execution is a sequence of whole operations.  A Go slot is \<open>None\<close>
  when it holds \<open>nil\<close>.  \<open>Pop\<close> waits while the queue is empty and open; that is the value \<open>None\<close>,
  and the caller tries again later.

  The locale \<open>bounded_fifo\<close> is the interface: a queue refines a list of bounded length.  What the
  clients rely on (items leave in the order they were accepted, none is invented, lost or delivered
  after a close) is proved once inside it.
\<close>

section \<open>The ring buffers\<close>

record 'a ring =
  rg_items :: "'a option list"
  rg_closed :: bool
  rg_max :: nat
  rg_head :: nat
  rg_size :: nat

definition default_proxy_queue_capacity :: int where "default_proxy_queue_capacity = 1024"
definition default_byte_queue_capacity :: int where "default_byte_queue_capacity = 128"
definition session_write_queue_capacity :: nat where "session_write_queue_capacity = 1024"

definition new_ring :: "nat \<Rightarrow> 'a ring" where
  "new_ring n = \<lparr>rg_items = replicate n None, rg_closed = False, rg_max = n, rg_head = 0, rg_size = 0\<rparr>"

definition new_proxy_message_queue_with_capacity :: "int \<Rightarrow> 'a ring" where
  "new_proxy_message_queue_with_capacity n =
     (let n = (if n \<le> 0 then default_proxy_queue_capacity else n) in new_ring (nat n))"

definition new_byte_queue_with_capacity :: "int \<Rightarrow> byte list ring" where
  "new_byte_queue_with_capacity n =
     (let n = (if n \<le> 0 then default_byte_queue_capacity else n) in new_ring (nat n))"

definition ring_push :: "'a \<Rightarrow> 'a ring \<Rightarrow> bool \<times> 'a ring" where
  "ring_push message q =
     (if rg_closed q then (False, q)
      else if rg_size q \<ge> rg_max q then (False, q)
      else let tail = (rg_head q + rg_size q) mod rg_max q in
        (True, q\<lparr>rg_items := (rg_items q)[tail := Some message], rg_size := rg_size q + 1\<rparr>))"

definition ring_pop :: "'a ring \<Rightarrow> (('a option \<times> bool) \<times> 'a ring) option" where
  "ring_pop q =
     (if rg_size q = 0 \<and> \<not> rg_closed q then None
      else if rg_size q = 0 then Some ((None, False), q)
      else let message = rg_items q ! rg_head q in
        Some ((message, True),
          q\<lparr>rg_items := (rg_items q)[rg_head q := None],
            rg_head := (rg_head q + 1) mod rg_max q, rg_size := rg_size q - 1\<rparr>))"

definition ring_close :: "'a ring \<Rightarrow> 'a ring" where
  "ring_close q =
     q\<lparr>rg_closed := True, rg_items := map (\<lambda>_. None) (rg_items q), rg_head := 0, rg_size := 0\<rparr>"

text \<open>The byte queue has the same code over byte slices.\<close>

definition byte_queue_push :: "byte list \<Rightarrow> byte list ring \<Rightarrow> bool \<times> byte list ring" where
  "byte_queue_push = ring_push"
definition byte_queue_pop :: "byte list ring \<Rightarrow> ((byte list option \<times> bool) \<times> byte list ring) option" where
  "byte_queue_pop = ring_pop"
definition byte_queue_close :: "byte list ring \<Rightarrow> byte list ring" where
  "byte_queue_close = ring_close"

text \<open>
  The session's write queue tells a full queue from a closed one, and its \<open>Close\<close> clears the slots
  but keeps the number of items: what is popped afterwards is \<open>nil\<close>, which the write loop skips.
\<close>

datatype write_queue_error = Err_Closed | Err_Write_Queue_Full

definition new_write_queue :: "byte list ring" where
  "new_write_queue = new_ring session_write_queue_capacity"

definition write_queue_push ::
  "byte list \<Rightarrow> byte list ring \<Rightarrow> write_queue_error option \<times> byte list ring" where
  "write_queue_push data q =
     (if rg_closed q then (Some Err_Closed, q)
      else if rg_size q \<ge> rg_max q then (Some Err_Write_Queue_Full, q)
      else let tail = (rg_head q + rg_size q) mod rg_max q in
        (None, q\<lparr>rg_items := (rg_items q)[tail := Some data], rg_size := rg_size q + 1\<rparr>))"

definition write_queue_pop ::
  "byte list ring \<Rightarrow> ((byte list option \<times> bool) \<times> byte list ring) option" where
  "write_queue_pop q =
     (if rg_size q = 0 \<and> \<not> rg_closed q then None
      else if rg_size q = 0 then Some ((None, False), q)
      else let data = rg_items q ! rg_head q in
        Some ((data, True),
          q\<lparr>rg_items := (rg_items q)[rg_head q := None],
            rg_head := (rg_head q + 1) mod rg_max q, rg_size := rg_size q - 1\<rparr>))"

definition write_queue_close :: "byte list ring \<Rightarrow> byte list ring" where
  "write_queue_close q = q\<lparr>rg_closed := True, rg_items := map (\<lambda>_. None) (rg_items q)\<rparr>"

definition write_queue_accepts :: "byte list \<Rightarrow> byte list ring \<Rightarrow> bool \<times> byte list ring" where
  "write_queue_accepts data q = (case write_queue_push data q of (e, q') \<Rightarrow> (e = None, q'))"

section \<open>The interface\<close>

datatype 'a queue_op = Push_Op 'a | Pop_Op | Close_Op

text \<open>A run of operations: what was accepted, what was delivered (\<open>nil\<close> is nothing), and the queue.
  A \<open>Pop\<close> that waits leaves the queue as it is.\<close>

fun run_queue ::
  "('a \<Rightarrow> 'q \<Rightarrow> bool \<times> 'q) \<Rightarrow> ('q \<Rightarrow> (('a option \<times> bool) \<times> 'q) option) \<Rightarrow> ('q \<Rightarrow> 'q)
    \<Rightarrow> 'a queue_op list \<Rightarrow> 'a list \<times> 'a list \<times> 'q \<Rightarrow> 'a list \<times> 'a list \<times> 'q" where
  "run_queue push pop close [] (acc, del, q) = (acc, del, q)"
| "run_queue push pop close (Push_Op x # ops) (acc, del, q) =
     (case push x q of (ok, q') \<Rightarrow> run_queue push pop close ops (if ok then acc @ [x] else acc, del, q'))"
| "run_queue push pop close (Pop_Op # ops) (acc, del, q) =
     (case pop q of
        None \<Rightarrow> run_queue push pop close ops (acc, del, q)
      | Some ((Some x, _), q') \<Rightarrow> run_queue push pop close ops (acc, del @ [x], q')
      | Some ((None, _), q') \<Rightarrow> run_queue push pop close ops (acc, del, q'))"
| "run_queue push pop close (Close_Op # ops) (acc, del, q) =
     run_queue push pop close ops (acc, del, close q)"

locale bounded_fifo =
  fixes inv :: "'q \<Rightarrow> bool" and contents :: "'q \<Rightarrow> 'a option list" and closed :: "'q \<Rightarrow> bool"
    and capacity :: "'q \<Rightarrow> nat" and push :: "'a \<Rightarrow> 'q \<Rightarrow> bool \<times> 'q"
    and pop :: "'q \<Rightarrow> (('a option \<times> bool) \<times> 'q) option" and close :: "'q \<Rightarrow> 'q"
  assumes bounded: "inv q \<Longrightarrow> length (contents q) \<le> capacity q"
    and push_law: "inv q \<Longrightarrow> push x q = (ok, q') \<Longrightarrow>
      inv q' \<and> closed q' = closed q \<and> capacity q' = capacity q \<and>
      ok = (\<not> closed q \<and> length (contents q) < capacity q) \<and>
      contents q' = (if ok then contents q @ [Some x] else contents q)"
    and pop_waits: "inv q \<Longrightarrow> pop q = None \<longleftrightarrow> contents q = [] \<and> \<not> closed q"
    and pop_law: "inv q \<Longrightarrow> pop q = Some ((r, ok), q') \<Longrightarrow>
      inv q' \<and> closed q' = closed q \<and> capacity q' = capacity q \<and>
      ok = (contents q \<noteq> []) \<and> r = (if contents q = [] then None else hd (contents q)) \<and>
      contents q' = tl (contents q)"
    and close_law: "inv q \<Longrightarrow> inv (close q) \<and> closed (close q) \<and>
      capacity (close q) = capacity q \<and> set (contents (close q)) \<subseteq> {None}"
begin

definition tracks :: "'a list \<times> 'a list \<times> 'q \<Rightarrow> bool" where
  "tracks = (\<lambda>(acc, del, q). inv q \<and>
     (if closed q then set (contents q) \<subseteq> {None} \<and> (\<exists>rest. acc = del @ rest)
      else map Some acc = map Some del @ contents q))"

lemma tracks_push: "tracks (acc, del, q) \<Longrightarrow> push x q = (ok, q') \<Longrightarrow>
    tracks (if ok then acc @ [x] else acc, del, q')"
  using push_law [of q x ok q'] by (auto simp: tracks_def split: if_splits)

lemma tracks_pop:
  assumes "tracks (acc, del, q)" "pop q = Some ((r, ok), q')"
  shows "tracks (acc, (case r of None \<Rightarrow> del | Some x \<Rightarrow> del @ [x]), q')"
proof -
  from assms(1) have "inv q" by (simp add: tracks_def)
  note law = pop_law [OF this assms(2)]
  show ?thesis
  proof (cases "contents q")
    case (Cons y ys)
    with law assms(1) show ?thesis
      by (cases "closed q"; cases y)
        (auto simp: tracks_def map_eq_append_conv dest!: map_eq_Cons_D)
  qed (use law assms(1) in \<open>auto simp: tracks_def\<close>)
qed

lemma tracks_close: "tracks (acc, del, q) \<Longrightarrow> tracks (acc, del, close q)"
  using close_law [of q]
  by (auto simp: tracks_def map_eq_append_conv split: if_splits)

lemma tracks_run: "tracks st \<Longrightarrow> tracks (run_queue push pop close ops st)"
proof (induction ops arbitrary: st)
  case Nil
  then show ?case by (cases st) simp
next
  case (Cons op ops)
  obtain acc del q where st: "st = (acc, del, q)" by (cases st)
  show ?case
  proof (cases op)
    case (Push_Op x)
    with Cons st show ?thesis by (cases "push x q") (simp add: tracks_push)
  next
    case Pop_Op
    with Cons st show ?thesis
      by (auto split: option.split dest: tracks_pop)
  next
    case Close_Op
    with Cons st show ?thesis by (simp add: tracks_close)
  qed
qed

text \<open>From an empty open queue: what was delivered is a prefix of what was accepted; while the queue
  is open, the rest of it is exactly what the queue holds, in order, and never more than its
  capacity.\<close>

lemma fifo:
  assumes "inv q" "contents q = []" "\<not> closed q" "run_queue push pop close ops ([], [], q) = (acc, del, q')"
  shows "\<exists>rest. acc = del @ rest \<and> (\<not> closed q' \<longrightarrow> contents q' = map Some rest) \<and>
    length (contents q') \<le> capacity q'"
proof -
  have "tracks ([], [], q)" using assms by (simp add: tracks_def)
  from tracks_run [OF this, of ops] assms(4) have t: "tracks (acc, del, q')" by simp
  then show ?thesis
    using bounded [of q'] by (auto simp: tracks_def map_eq_append_conv split: if_splits)
qed

text \<open>Nothing is delivered after a close.\<close>

lemma closed_delivers_nothing:
  assumes "inv q" "closed q" "set (contents q) \<subseteq> {None}"
    "run_queue push pop close ops (acc, del, q) = (acc', del', q')"
  shows "acc' = acc \<and> del' = del"
  using assms
proof (induction ops arbitrary: q)
  case (Cons op ops)
  show ?case
  proof (cases op)
    case (Push_Op x)
    obtain ok q1 where p: "push x q = (ok, q1)" by (cases "push x q")
    from push_law [OF Cons.prems(1) p] Cons.prems show ?thesis
      by (intro Cons.IH [of q1]) (auto simp: Push_Op p)
  next
    case Pop_Op
    show ?thesis
    proof (cases "pop q")
      case (Some z)
      obtain r ok q1 where z: "z = ((r, ok), q1)" by (cases z) auto
      note law = pop_law [OF Cons.prems(1) Some [unfolded z]]
      from law Cons.prems(3) have "r = None" "set (contents q1) \<subseteq> {None}"
        by (cases "contents q"; auto)+
      with law Cons.prems show ?thesis
        by (intro Cons.IH [of q1]) (auto simp: Pop_Op Some z)
    qed (use Cons in \<open>auto simp: Pop_Op\<close>)
  next
    case Close_Op
    with close_law [OF Cons.prems(1)] Cons.prems show ?thesis
      by (intro Cons.IH [of "close q"]) auto
  qed
qed simp

end

section \<open>A ring buffer holds a list\<close>

definition ring_inv :: "'a ring \<Rightarrow> bool" where
  "ring_inv q \<longleftrightarrow> 0 < rg_max q \<and> length (rg_items q) = rg_max q \<and> rg_head q < rg_max q \<and>
     rg_size q \<le> rg_max q"

definition ring_contents :: "'a ring \<Rightarrow> 'a option list" where
  "ring_contents q = map (\<lambda>i. rg_items q ! ((rg_head q + i) mod rg_max q)) [0..<rg_size q]"

lemma mod_shift_neq:
  assumes "i < j" "j < i + (m :: nat)"
  shows "(h + i) mod m \<noteq> (h + j) mod m"
proof
  assume eq: "(h + i) mod m = (h + j) mod m"
  from assms(1) have "m dvd (h + j) - (h + i)"
    using eq mod_eq_dvd_iff_nat [of "h + i" "h + j" m] by simp
  with assms show False by (auto dest: dvd_imp_le)
qed

lemma length_ring_contents [simp]: "length (ring_contents q) = rg_size q"
  by (simp add: ring_contents_def)

lemma ring_contents_push:
  assumes "ring_inv q" "rg_size q < rg_max q"
  shows "ring_contents (q\<lparr>rg_items := (rg_items q)[(rg_head q + rg_size q) mod rg_max q := Some x],
      rg_size := rg_size q + 1\<rparr>) = ring_contents q @ [Some x]"
proof -
  have "(rg_head q + i) mod rg_max q \<noteq> (rg_head q + rg_size q) mod rg_max q" if "i < rg_size q" for i
    using mod_shift_neq [of i "rg_size q" "rg_max q" "rg_head q"] that assms(2) by simp
  then have "(rg_items q)[(rg_head q + rg_size q) mod rg_max q := Some x] ! ((rg_head q + i) mod rg_max q)
      = rg_items q ! ((rg_head q + i) mod rg_max q)" if "i < rg_size q" for i
    using that by (metis nth_list_update_neq)
  with assms show ?thesis
    by (auto simp: ring_contents_def ring_inv_def)
qed

lemma ring_contents_pop:
  assumes "ring_inv q" "rg_size q \<noteq> 0"
  shows "ring_contents q = rg_items q ! rg_head q #
      ring_contents (q\<lparr>rg_items := (rg_items q)[rg_head q := None],
        rg_head := (rg_head q + 1) mod rg_max q, rg_size := rg_size q - 1\<rparr>)"
proof -
  have "[0..<rg_size q] = 0 # map Suc [0..<rg_size q - 1]"
    using assms(2) by (simp add: upt_conv_Cons map_Suc_upt)
  moreover have "((rg_head q + 1) mod rg_max q + i) mod rg_max q = (rg_head q + Suc i) mod rg_max q" for i
    by (simp add: mod_simps)
  moreover have "rg_head q \<noteq> (rg_head q + Suc i) mod rg_max q" if "i < rg_size q - 1" for i
  proof -
    from assms have "rg_size q \<le> rg_max q" by (simp add: ring_inv_def)
    with that have "Suc i < rg_max q" by linarith
    with mod_shift_neq [of 0 "Suc i" "rg_max q" "rg_head q"] assms show ?thesis
      by (simp add: ring_inv_def)
  qed
  ultimately show ?thesis
    using assms by (simp add: ring_contents_def ring_inv_def del: upt_Suc)
qed

lemma ring_inv_ops:
  assumes "ring_inv q"
  shows "rg_size q < rg_max q \<Longrightarrow>
      ring_inv (q\<lparr>rg_items := (rg_items q)[t := Some x], rg_size := rg_size q + 1\<rparr>)"
    and "ring_inv (q\<lparr>rg_items := (rg_items q)[h := None],
        rg_head := (rg_head q + 1) mod rg_max q, rg_size := rg_size q - 1\<rparr>)"
    and "ring_inv (ring_close q)" and "ring_contents (ring_close q) = []"
  using assms by (auto simp: ring_inv_def ring_close_def ring_contents_def)

lemma new_ring_ok:
  "0 < n \<Longrightarrow> ring_inv (new_ring n)" "ring_contents (new_ring n) = []"
  "\<not> rg_closed (new_ring n)" "rg_max (new_ring n) = n"
  by (simp_all add: new_ring_def ring_inv_def ring_contents_def)

interpretation pq: bounded_fifo ring_inv ring_contents rg_closed rg_max ring_push ring_pop ring_close
proof unfold_locales
  fix q q' :: "'a ring" and x ok r
  assume inv: "ring_inv q"
  then show "length (ring_contents q) \<le> rg_max q" by (simp add: ring_inv_def)
  show "ring_inv q' \<and> rg_closed q' = rg_closed q \<and> rg_max q' = rg_max q \<and>
      ok = (\<not> rg_closed q \<and> length (ring_contents q) < rg_max q) \<and>
      ring_contents q' = (if ok then ring_contents q @ [Some x] else ring_contents q)"
    if "ring_push x q = (ok, q')"
    using that inv ring_contents_push [OF inv, of x] ring_inv_ops(1) [OF inv]
    by (auto simp: ring_push_def Let_def split: if_splits)
  show "ring_pop q = None \<longleftrightarrow> ring_contents q = [] \<and> \<not> rg_closed q"
    using length_ring_contents [of q] by (auto simp: ring_pop_def Let_def simp del: length_ring_contents)
  show "ring_inv q' \<and> rg_closed q' = rg_closed q \<and> rg_max q' = rg_max q \<and>
      ok = (ring_contents q \<noteq> []) \<and> r = (if ring_contents q = [] then None else hd (ring_contents q)) \<and>
      ring_contents q' = tl (ring_contents q)"
    if "ring_pop q = Some ((r, ok), q')"
  proof (cases "rg_size q = 0")
    case True
    with that inv show ?thesis by (auto simp: ring_pop_def ring_contents_def split: if_splits)
  next
    case False
    with that ring_contents_pop [OF inv False] ring_inv_ops(2) [OF inv] show ?thesis
      by (auto simp: ring_pop_def Let_def)
  qed
  show "ring_inv (ring_close q) \<and> rg_closed (ring_close q) \<and> rg_max (ring_close q) = rg_max q \<and>
      set (ring_contents (ring_close q)) \<subseteq> {None}"
    using ring_inv_ops(3,4) [OF inv] by (simp add: ring_close_def)
qed

lemma write_queue_accepts_ring: "write_queue_accepts = ring_push" "write_queue_pop = ring_pop"
  by (simp_all add: fun_eq_iff write_queue_accepts_def write_queue_push_def ring_push_def
      write_queue_pop_def ring_pop_def Let_def)

lemma write_queue_close_ok:
  assumes "ring_inv q"
  shows "ring_inv (write_queue_close q)" "set (ring_contents (write_queue_close q)) \<subseteq> {None}"
  using assms by (auto simp: ring_inv_def write_queue_close_def ring_contents_def)

interpretation wq: bounded_fifo ring_inv ring_contents rg_closed rg_max
  write_queue_accepts write_queue_pop write_queue_close
  unfolding write_queue_accepts_ring
proof unfold_locales
  fix q q' :: "byte list ring" and x ok r
  assume inv: "ring_inv q"
  show "length (ring_contents q) \<le> rg_max q" by (rule pq.bounded [OF inv])
  show "ring_inv q' \<and> rg_closed q' = rg_closed q \<and> rg_max q' = rg_max q \<and>
      ok = (\<not> rg_closed q \<and> length (ring_contents q) < rg_max q) \<and>
      ring_contents q' = (if ok then ring_contents q @ [Some x] else ring_contents q)"
    if "ring_push x q = (ok, q')"
    by (rule pq.push_law [OF inv that])
  show "ring_pop q = None \<longleftrightarrow> ring_contents q = [] \<and> \<not> rg_closed q" by (rule pq.pop_waits [OF inv])
  show "ring_inv q' \<and> rg_closed q' = rg_closed q \<and> rg_max q' = rg_max q \<and>
      ok = (ring_contents q \<noteq> []) \<and> r = (if ring_contents q = [] then None else hd (ring_contents q)) \<and>
      ring_contents q' = tl (ring_contents q)"
    if "ring_pop q = Some ((r, ok), q')"
    by (rule pq.pop_law [OF inv that])
  show "ring_inv (write_queue_close q) \<and> rg_closed (write_queue_close q) \<and>
      rg_max (write_queue_close q) = rg_max q \<and> set (ring_contents (write_queue_close q)) \<subseteq> {None}"
    using write_queue_close_ok [OF inv] by (simp add: write_queue_close_def)
qed

lemma run_queue_append:
  "run_queue push pop close (ops @ ops') st =
    run_queue push pop close ops' (run_queue push pop close ops st)"
  by (induction push pop close ops st rule: run_queue.induct) (auto split: option.split prod.split)

lemma new_queues_ok:
  "ring_inv (new_proxy_message_queue_with_capacity n)"
  "ring_contents (new_proxy_message_queue_with_capacity n) = []"
  "\<not> rg_closed (new_proxy_message_queue_with_capacity n)"
  "ring_inv new_write_queue" "ring_contents new_write_queue = []" "\<not> rg_closed new_write_queue"
  by (auto simp: new_proxy_message_queue_with_capacity_def new_write_queue_def new_ring_ok Let_def
      default_proxy_queue_capacity_def session_write_queue_capacity_def)

section \<open>Properties\<close>

text \<open>
  C32. A proxy session's message queue is a bounded FIFO across wrap-around, for every order of
  pushes, pops and closes: what was delivered is a prefix of what was accepted, while the queue is
  open it holds exactly the rest in order, and it never holds more than its capacity.
\<close>

theorem proxy_queue_fifo:
  "case run_queue ring_push ring_pop ring_close ops ([], [], new_proxy_message_queue_with_capacity n) of
     (acc, del, q) \<Rightarrow> \<exists>rest. acc = del @ rest \<and>
       (rg_closed q \<or> ring_contents q = map Some rest) \<and> rg_size q \<le> rg_max q"
  using pq.fifo [OF new_queues_ok(1-3) [of n], of ops] by (auto split: prod.split)

text \<open>
  The session's write queue delivers packets in the order they were accepted, and once it is
  closed it accepts and delivers nothing more, even though \<open>Close\<close> leaves its size as it was.
\<close>

theorem write_queue_closed:
  "case run_queue write_queue_accepts write_queue_pop write_queue_close ops ([], [], new_write_queue) of
     (acc, del, q) \<Rightarrow>
       (\<exists>rest. acc = del @ rest) \<and>
       (\<exists>q'. run_queue write_queue_accepts write_queue_pop write_queue_close
          (ops @ Close_Op # ops') ([], [], new_write_queue) = (acc, del, q'))"
proof -
  obtain acc del q where run:
    "run_queue write_queue_accepts write_queue_pop write_queue_close ops ([], [], new_write_queue)
      = (acc, del, q)" by (cases "run_queue write_queue_accepts write_queue_pop write_queue_close ops
        ([], [], new_write_queue)")
  have "wq.tracks ([], [], new_write_queue)" using new_queues_ok by (simp add: wq.tracks_def)
  from wq.tracks_run [OF this, of ops] run have "wq.tracks (acc, del, q)" by simp
  then have inv: "ring_inv q" by (simp add: wq.tracks_def)
  obtain acc' del' q' where after:
    "run_queue write_queue_accepts write_queue_pop write_queue_close ops' (acc, del, write_queue_close q)
      = (acc', del', q')" by (cases "run_queue write_queue_accepts write_queue_pop write_queue_close
        ops' (acc, del, write_queue_close q)")
  with wq.closed_delivers_nothing [OF write_queue_close_ok(1) [OF inv] _
    write_queue_close_ok(2) [OF inv] after]
  have "acc' = acc" "del' = del" by (simp_all add: write_queue_close_def)
  with after run wq.fifo [OF new_queues_ok(4-6) run] show ?thesis
    by (auto simp: run_queue_append)
qed

end
