(* ===== verification/Flow.thy ===== *)
theory Flow
  imports Prelude
begin

text \<open>
  \<open>FlowController\<close> of \<open>internal/proxy/common.go\<close>: the window of bytes a session may have sent and
  not had acknowledged.  The three methods run under one mutex.  \<open>Acquire\<close> waits in a loop on a
  condition: an attempt that waits is \<open>None\<close> and leaves the controller as it is; the loop's later
  rounds test the same condition again, so a later attempt is the same operation.

  The abstract view is the list of the sizes that were acquired and not yet released.
\<close>

record flow_controller =
  fc_max_bytes :: int
  fc_inflight :: int
  fc_closed :: bool

datatype flow_error = Flow_Closed

definition new_flow_controller :: "int \<Rightarrow> flow_controller" where
  "new_flow_controller n = \<lparr>fc_max_bytes = n, fc_inflight = 0, fc_closed = False\<rparr>"

definition flow_acquire :: "int \<Rightarrow> flow_controller \<Rightarrow> (flow_error option \<times> flow_controller) option" where
  "flow_acquire sz f =
     (if sz \<le> 0 then Some (None, f)
      else if fc_closed f then Some (Some Flow_Closed, f)
      else let need = (if sz > fc_max_bytes f then fc_max_bytes f else sz) in
        if fc_inflight f + need > fc_max_bytes f then None
        else Some (None, f\<lparr>fc_inflight := fc_inflight f + need\<rparr>))"

definition flow_release :: "int \<Rightarrow> flow_controller \<Rightarrow> flow_controller" where
  "flow_release sz f =
     (if sz \<le> 0 then f
      else let n = fc_inflight f - sz in f\<lparr>fc_inflight := (if n < 0 then 0 else n)\<rparr>)"

definition flow_close :: "flow_controller \<Rightarrow> flow_controller" where
  "flow_close f = f\<lparr>fc_closed := True, fc_inflight := 0\<rparr>"

section \<open>Runs\<close>

text \<open>
  A run of the controller with the packets in flight.  A peer acknowledges a packet it was sent, so
  a release is of the size of a packet in flight.
\<close>

inductive flow_run :: "int \<Rightarrow> flow_controller \<Rightarrow> int list \<Rightarrow> bool" for n where
  start: "flow_run n (new_flow_controller n) []"
| acquire: "flow_run n f sizes \<Longrightarrow> 0 < sz \<Longrightarrow> flow_acquire sz f = Some (None, f') \<Longrightarrow>
    flow_run n f' (sz # sizes)"
| refused: "flow_run n f sizes \<Longrightarrow> flow_acquire sz f = Some (Some Flow_Closed, f') \<Longrightarrow>
    flow_run n f' sizes"
| release: "flow_run n f sizes \<Longrightarrow> sz \<in> set sizes \<Longrightarrow>
    flow_run n (flow_release sz f) (remove1 sz sizes)"
| close: "flow_run n f sizes \<Longrightarrow> flow_run n (flow_close f) sizes"

definition charge :: "int \<Rightarrow> int \<Rightarrow> int" where
  "charge n sz = min sz n"

definition flow_inv :: "int \<Rightarrow> flow_controller \<Rightarrow> int list \<Rightarrow> bool" where
  "flow_inv n f sizes \<longleftrightarrow> fc_max_bytes f = n \<and> (\<forall>s \<in> set sizes. 0 < s) \<and>
     0 \<le> fc_inflight f \<and> fc_inflight f \<le> n \<and>
     (if fc_closed f then fc_inflight f = 0
      else fc_inflight f = sum_list (map (charge n) sizes))"

lemma sum_charge_nonneg: "0 < n \<Longrightarrow> \<forall>s \<in> set sizes. 0 < s \<Longrightarrow> 0 \<le> sum_list (map (charge n) sizes)"
  by (induction sizes) (auto simp: charge_def)

lemma sum_charge_zero:
  "0 < n \<Longrightarrow> \<forall>s \<in> set sizes. 0 < s \<Longrightarrow> sum_list (map (charge n) sizes) \<le> 0 \<Longrightarrow> sizes = []"
  using sum_charge_nonneg [of n] by (cases sizes) (force simp: charge_def)+

lemma sum_charge_remove1:
  "s \<in> set sizes \<Longrightarrow>
     sum_list (map (charge n) sizes) = charge n s + sum_list (map (charge n) (remove1 s sizes))"
  by (induction sizes) auto

lemma flow_inv_acquire [inv_intros]:
  assumes "flow_inv n f sizes" "0 < sz" "flow_acquire sz f = Some (None, f')"
  shows "flow_inv n f' (sz # sizes)"
  using assms by (auto simp: flow_inv_def flow_acquire_def charge_def Let_def min_def split: if_splits)

lemma flow_inv_release [inv_intros]:
  assumes "0 < n" "flow_inv n f sizes" "s \<in> set sizes"
  shows "flow_inv n (flow_release s f) (remove1 s sizes)"
proof -
  let ?rest = "sum_list (map (charge n) (remove1 s sizes))"
  have pos: "\<forall>x \<in> set (remove1 s sizes). 0 < x" and s: "0 < s"
    using assms by (auto simp: flow_inv_def dest: notin_set_remove1 set_remove1_subset [THEN subsetD])
  note rest = sum_charge_nonneg [OF assms(1) pos]
  show ?thesis
  proof (cases "s \<le> n")
    case True
    with assms s rest pos sum_charge_remove1 [OF assms(3), of n] show ?thesis
      by (auto simp: flow_inv_def flow_release_def Let_def charge_def)
  next
    case False
    with assms sum_charge_remove1 [OF assms(3), of n] have "\<not> fc_closed f \<Longrightarrow> ?rest \<le> 0"
      by (auto simp: flow_inv_def charge_def)
    with rest have "\<not> fc_closed f \<Longrightarrow> ?rest = 0" by simp
    with False assms s pos show ?thesis
      by (auto simp: flow_inv_def flow_release_def Let_def)
  qed
qed

lemma flow_run_inv:
  assumes "0 < n" "flow_run n f sizes"
  shows "flow_inv n f sizes"
  using assms(2)
proof induction
  case start
  with assms(1) show ?case by (simp add: flow_inv_def new_flow_controller_def)
next
  case (refused f sizes sz f')
  then show ?case by (auto simp: flow_acquire_def Let_def split: if_splits)
next
  case (close f sizes)
  then show ?case by (simp add: flow_inv_def flow_close_def)
qed (use assms(1) in \<open>auto intro: inv_intros\<close>)

section \<open>Properties\<close>

text \<open>
  C33. The window's accounting is exact: in every run the bytes in flight are between 0 and the
  window, and while the controller is open they are the sum of the sizes of the packets not yet
  released, each counted at most as the whole window (also after a packet larger than the window,
  whose release gives back more than it took).
\<close>

theorem flow_accounting:
  assumes "0 < n" and "flow_run n f sizes"
  shows "0 \<le> fc_inflight f \<and> fc_inflight f \<le> n \<and>
    (fc_closed f \<or> fc_inflight f = sum_list (map (\<lambda>s. min s n) sizes))"
  using flow_run_inv [OF assms] by (auto simp: flow_inv_def charge_def [abs_def] split: if_splits)

lemma flow_accounting_witness:
  "0 \<le> fc_inflight \<lparr>fc_max_bytes = 4, fc_inflight = 4, fc_closed = False\<rparr> \<and>
   fc_inflight \<lparr>fc_max_bytes = 4, fc_inflight = 4, fc_closed = False\<rparr> \<le> 4 \<and>
   (fc_closed \<lparr>fc_max_bytes = 4, fc_inflight = 4, fc_closed = False\<rparr> \<or>
    fc_inflight \<lparr>fc_max_bytes = 4, fc_inflight = 4, fc_closed = False\<rparr> =
      sum_list (map (\<lambda>s. min s 4) [9]))"
proof -
  have "flow_run 4 \<lparr>fc_max_bytes = 4, fc_inflight = 4, fc_closed = False\<rparr> [9]"
    by (rule flow_run.acquire [OF flow_run.start])
      (simp_all add: flow_acquire_def new_flow_controller_def)
  from flow_accounting [OF _ this] show ?thesis by simp
qed

text \<open>
  A sender never waits for nothing: in every run of an open controller an \<open>Acquire\<close> of a positive
  size waits exactly when it would exceed the window, so with no packet in flight it always
  succeeds, whatever its size; on a closed one it always returns the error.
\<close>

theorem flow_acquire_progress:
  assumes "0 < n" and "flow_run n f sizes" and "0 < sz"
  shows "(flow_acquire sz f = None \<longleftrightarrow>
      \<not> fc_closed f \<and> n < min sz n + sum_list (map (\<lambda>s. min s n) sizes)) \<and>
    (flow_acquire sz f = Some (Some Flow_Closed, f) \<longleftrightarrow> fc_closed f) \<and>
    (sizes = [] \<longrightarrow> flow_acquire sz f \<noteq> None)"
  using flow_run_inv [OF assms(1,2)] assms(1,3)
  by (auto simp: flow_inv_def flow_acquire_def charge_def [abs_def] Let_def min_def split: if_splits)

lemma flow_acquire_progress_witness:
  "flow_acquire 9 (new_flow_controller 4) \<noteq> None"
  using flow_acquire_progress [OF _ flow_run.start, of 4 9] by simp

end
