(* ===== verification/Crypto.thy ===== *)
theory Crypto
  imports Prelude
begin

text \<open>
  \<open>internal/proxy/crypto.go\<close>: the session's encryption methods, the generation of keys, the LZ4
  framing with its literal-only fallback, the XOR cipher and the AES-SIV record format.

  The packages \<open>github.com/pierrec/lz4\<close> and \<open>github.com/jedisct1/go-aes-siv\<close> are not part of the
  repository: their functions are the record \<open>crypto_env\<close>, an argument of what calls them, and
  \<open>lawful_crypto\<close> states what they document.  Random bytes are an argument: those that
  \<open>rand.Reader\<close> yields before it fails.
\<close>

section \<open>Methods and keys\<close>

type_synonym encryption_method = string

definition encryption_none :: encryption_method where "encryption_none = ''None''"
definition encryption_aes128 :: encryption_method where "encryption_aes128 = ''Aes128''"
definition encryption_xor :: encryption_method where "encryption_xor = ''Xor''"

lemmas method_defs = encryption_none_def encryption_aes128_def encryption_xor_def

definition parse_encryption_method :: "string \<Rightarrow> encryption_method" where
  "parse_encryption_method name =
     (if name = encryption_aes128 then encryption_aes128
      else if name = encryption_xor then encryption_xor
      else encryption_none)"

datatype crypto_error =
    Random_Failed
  | Too_Short
  | Bad_Size
  | Size_Mismatch
  | Lz4_Failed
  | Siv_Failed

definition generate_key :: "encryption_method \<Rightarrow> byte list \<Rightarrow> crypto_error + byte list" where
  "generate_key method random =
     (if method = encryption_none then Inr (bytes_of ''None'')
      else if method = encryption_aes128 then
        (if length random < 32 then Inl Random_Failed
         else Inr (map (\<lambda>b. 33 + b mod 94) (take 32 random)))
      else if method = encryption_xor then
        (case random of
           [] \<Rightarrow> Inl Random_Failed
         | b # random' \<Rightarrow>
             let size = 8 + unat b mod 56 in
             if length random' < size then Inl Random_Failed
             else Inr (map (\<lambda>k. if k = 0 then 1 else k) (take size random')))
      else Inr (bytes_of ''None''))"

section \<open>The packages as parameters\<close>

text \<open>
  \<open>ce_compress\<close> is \<open>lz4.CompressBlock\<close>: \<open>None\<close> an error, \<open>Some []\<close> incompressible input.
  \<open>ce_uncompress payload n\<close> is \<open>lz4.UncompressBlock\<close> into a buffer of \<open>n\<close> bytes.  \<open>ce_seal\<close> and
  \<open>ce_open\<close> are AES-SIV under a key and a nonce.
\<close>

record crypto_env =
  ce_compress :: "byte list \<Rightarrow> byte list option"
  ce_uncompress :: "byte list \<Rightarrow> nat \<Rightarrow> byte list option"
  ce_seal :: "byte list \<Rightarrow> byte list \<Rightarrow> byte list \<Rightarrow> byte list"
  ce_open :: "byte list \<Rightarrow> byte list \<Rightarrow> byte list \<Rightarrow> byte list option"

section \<open>Little-endian lengths\<close>

definition put_le :: "nat \<Rightarrow> nat \<Rightarrow> byte list" where
  "put_le k n = map (\<lambda>i. of_nat (n div 256 ^ i)) [0..<k]"

fun get_le :: "byte list \<Rightarrow> nat" where
  "get_le [] = 0"
| "get_le (b # bs) = unat b + 256 * get_le bs"

lemma put_le_Suc: "put_le (Suc k) n = of_nat n # put_le k (n div 256)"
  by (simp add: put_le_def upt_conv_Cons map_Suc_upt [symmetric] div_mult2_eq del: upt_Suc)

lemma length_put_le [simp]: "length (put_le k n) = k"
  by (simp add: put_le_def)

lemma get_put_le [simp]: "get_le (put_le k n) = n mod 256 ^ k"
proof (induction k arbitrary: n)
  case 0
  then show ?case by (simp add: put_le_def)
next
  case (Suc k)
  have "unat (of_nat n :: byte) = n mod 256" by (simp add: unat_of_nat)
  with Suc show ?case by (simp add: put_le_Suc mod_mult2_eq)
qed

section \<open>Compression\<close>

definition lz4_max_decompressed_size :: nat where
  "lz4_max_decompressed_size = 8 * 1024 * 1024"

text \<open>The loop that writes 255s is unfolded by its trip count: \<open>remaining div 255\<close> rounds leave
  \<open>remaining mod 255\<close>.\<close>

fun append_255 :: "byte list \<Rightarrow> nat \<Rightarrow> byte list \<times> nat" where
  "append_255 out remaining =
     (if remaining \<ge> 255 then append_255 (out @ [255]) (remaining - 255) else (out, remaining))"

declare append_255.simps [simp del]

definition append_lz4_literal_block :: "byte list \<Rightarrow> byte list \<Rightarrow> byte list" where
  "append_lz4_literal_block out input =
     (let literal_len = length input in
      if literal_len < 15 then (out @ [of_nat (literal_len * 16)]) @ input
      else let out = out @ [of_nat (15 * 16)];
               (out, remaining) = append_255 out (literal_len - 15)
        in (out @ [of_nat remaining]) @ input)"

definition compress_data :: "crypto_env \<Rightarrow> byte list \<Rightarrow> byte list" where
  "compress_data ce input =
     (if length input = 0 then [0, 0, 0, 0]
      else let head = put_le 4 (length input) in
        (case ce_compress ce input of
           None \<Rightarrow> append_lz4_literal_block head input
         | Some c \<Rightarrow>
             if length c \<le> 0 \<or> length c \<ge> length input then append_lz4_literal_block head input
             else head @ c))"

definition decompress_data :: "crypto_env \<Rightarrow> byte list \<Rightarrow> crypto_error + byte list" where
  "decompress_data ce input =
     (if length input < 4 then Inl Too_Short
      else let size = get_le (take 4 input) in
        if size = 0 then Inr []
        else if size > lz4_max_decompressed_size then Inl Bad_Size
        else let payload = drop 4 input; r = ce_uncompress ce payload size in
          if (case r of Some out \<Rightarrow> length out = size | None \<Rightarrow> False) then Inr (the r)
          else if length payload = size then Inr payload
          else (case r of
                  None \<Rightarrow>
                    (case ce_uncompress ce payload lz4_max_decompressed_size of
                       Some large \<Rightarrow> if length large \<ge> size then Inr (take size large) else Inl Lz4_Failed
                     | None \<Rightarrow> Inl Lz4_Failed)
                | Some _ \<Rightarrow> Inl Size_Mismatch))"

section \<open>Encryption\<close>

definition xor_data :: "byte list \<Rightarrow> byte list \<Rightarrow> byte list" where
  "xor_data data key =
     (if length key = 0 then data
      else map (\<lambda>i. xor (data ! i) (key ! (i mod length key))) [0..<length data])"

text \<open>\<open>newAES128SIVCipher\<close>: the password in a buffer of 32 bytes.\<close>

definition new_aes128_siv_cipher :: "byte list \<Rightarrow> byte list" where
  "new_aes128_siv_cipher password = take 32 password @ replicate (32 - length password) 0"

definition encrypt_aes128_siv_with_cipher ::
  "crypto_env \<Rightarrow> byte list \<Rightarrow> byte list \<Rightarrow> byte list \<Rightarrow> crypto_error + byte list" where
  "encrypt_aes128_siv_with_cipher ce cipher random data =
     (if length random < 16 then Inl Random_Failed
      else let nonce = take 16 random; ciphertext = ce_seal ce cipher nonce data in
        Inr (nonce @ put_le 8 (length ciphertext) @ ciphertext))"

definition decrypt_aes128_siv_with_cipher ::
  "crypto_env \<Rightarrow> byte list \<Rightarrow> byte list \<Rightarrow> crypto_error + byte list" where
  "decrypt_aes128_siv_with_cipher ce cipher serialized =
     (if length serialized < 24 then Inl Too_Short
      else let nonce = take 16 serialized; size = get_le (take 8 (drop 16 serialized)) in
        if size \<noteq> length (drop 24 serialized) then Inl Size_Mismatch
        else (case ce_open ce cipher nonce (drop 24 serialized) of
                None \<Rightarrow> Inl Siv_Failed
              | Some d \<Rightarrow> Inr d))"

definition encrypt ::
  "crypto_env \<Rightarrow> encryption_method \<Rightarrow> byte list \<Rightarrow> byte list \<Rightarrow> byte list \<Rightarrow> crypto_error + byte list" where
  "encrypt ce method key random data =
     (if method = encryption_none then Inr data
      else if method = encryption_xor then Inr (xor_data data key)
      else if method = encryption_aes128 then
        encrypt_aes128_siv_with_cipher ce (new_aes128_siv_cipher key) random data
      else Inr data)"

definition decrypt ::
  "crypto_env \<Rightarrow> encryption_method \<Rightarrow> byte list \<Rightarrow> byte list \<Rightarrow> crypto_error + byte list" where
  "decrypt ce method key data =
     (if method = encryption_none then Inr data
      else if method = encryption_xor then Inr (xor_data data key)
      else if method = encryption_aes128 then
        decrypt_aes128_siv_with_cipher ce (new_aes128_siv_cipher key) data
      else Inr data)"

section \<open>Laws of the packages and round trips\<close>

text \<open>
  The LZ4 block format for a block of one sequence without a match: a token with the number of
  literals in its high half (15 announces more bytes, each added, the last one below 255), then the
  literals.
\<close>

fun lz4_more :: "nat \<Rightarrow> byte list \<Rightarrow> (nat \<times> byte list) option" where
  "lz4_more n [] = None"
| "lz4_more n (b # bs) = (if b = 255 then lz4_more (n + 255) bs else Some (n + unat b, bs))"

definition lz4_literals :: "byte list \<Rightarrow> byte list option" where
  "lz4_literals block =
     (case block of
        [] \<Rightarrow> None
      | t # bs \<Rightarrow>
          if unat t mod 16 \<noteq> 0 then None
          else (case (if unat t div 16 < 15 then Some (unat t div 16, bs) else lz4_more 15 bs) of
                  None \<Rightarrow> None
                | Some (n, lits) \<Rightarrow> if length lits = n then Some lits else None))"

definition lawful_crypto :: "crypto_env \<Rightarrow> bool" where
  "lawful_crypto ce \<longleftrightarrow>
     (\<forall>x c. x \<noteq> [] \<and> c \<noteq> [] \<and> ce_compress ce x = Some c \<longrightarrow> ce_uncompress ce c (length x) = Some x) \<and>
     (\<forall>x b. x \<noteq> [] \<and> lz4_literals b = Some x \<longrightarrow> ce_uncompress ce b (length x) = Some x) \<and>
     (\<forall>k n d. length k = 32 \<and> length n = 16 \<longrightarrow> ce_open ce k n (ce_seal ce k n d) = Some d) \<and>
     (\<forall>k n d. length (ce_seal ce k n d) = 16 + length d)"

lemma append_255_prefix: "append_255 out r = (out @ fst (append_255 [] r), snd (append_255 [] r))"
proof (induction r arbitrary: out rule: less_induct)
  case (less r)
  show ?case
  proof (cases "r \<ge> 255")
    case True
    then have "r - 255 < r" by simp
    from less.IH [OF this, of "out @ [255]"] less.IH [OF this, of "[255]"] True show ?thesis
      by (simp add: append_255.simps [of _ r])
  qed (simp add: append_255.simps [of _ r])
qed

lemma lz4_more_255:
  "append_255 [] r = (o', k) \<Longrightarrow> lz4_more n (o' @ of_nat k # lits) = Some (n + r, lits)"
proof (induction r arbitrary: o' k n rule: less_induct)
  case (less r)
  show ?case
  proof (cases "r \<ge> 255")
    case True
    obtain o1 k1 where rec: "append_255 [] (r - 255) = (o1, k1)" by (cases "append_255 [] (r - 255)")
    from less.prems True rec append_255_prefix [of "[255]" "r - 255"]
    have "o' = 255 # o1" "k = k1" by (simp_all add: append_255.simps [of _ r])
    with less.IH [OF _ rec, of "n + 255"] True show ?thesis by simp
  next
    case False
    then have "unat (of_nat r :: byte) = r" by (simp add: unat_of_nat)
    moreover from this False have "(of_nat r :: byte) \<noteq> 255" by auto
    ultimately show ?thesis using less.prems False by (auto simp: append_255.simps [of _ r])
  qed
qed

lemma literal_block_literals: "lz4_literals (append_lz4_literal_block [] x) = Some x"
proof (cases "length x < 15")
  case True
  then have "length x * 16 < 256" by simp
  then have "unat (of_nat (length x * 16) :: byte) = length x * 16"
    by (simp only: unat_of_nat) simp
  with True show ?thesis
    by (simp add: lz4_literals_def append_lz4_literal_block_def Let_def del: of_nat_mult)
next
  case False
  obtain o' k where r: "append_255 [] (length x - 15) = (o', k)"
    by (cases "append_255 [] (length x - 15)")
  from lz4_more_255 [OF r, of 15 x] False r append_255_prefix [of "[240]" "length x - 15"]
  show ?thesis
    by (simp add: lz4_literals_def append_lz4_literal_block_def Let_def)
qed

lemma literal_block_prefix:
  "append_lz4_literal_block out x = out @ append_lz4_literal_block [] x"
  using append_255_prefix [of "out @ [240]" "length x - 15"] append_255_prefix [of "[240]" "length x - 15"]
  by (simp add: append_lz4_literal_block_def Let_def split_beta)

lemma xor_data_involution: "xor_data (xor_data d k) k = d"
  by (cases "k = []") (auto simp: xor_data_def xor.assoc intro!: nth_equalityI)

lemma length_xor_data [simp]: "length (xor_data d k) = length d"
  by (simp add: xor_data_def)

lemma length_new_cipher [simp]: "length (new_aes128_siv_cipher k) = 32"
  by (simp add: new_aes128_siv_cipher_def)

lemma decompress_compress:
  assumes "lawful_crypto ce" "length x \<le> lz4_max_decompressed_size"
  shows "decompress_data ce (compress_data ce x) = Inr x"
proof (cases "x = []")
  case True
  then show ?thesis by (simp add: compress_data_def decompress_data_def)
next
  case False
  from assms(2) have small: "length x mod 2 ^ 32 = length x"
    by (simp add: lz4_max_decompressed_size_def)
  have unpack: "decompress_data ce (put_le 4 (length x) @ c) = Inr x"
    if "ce_uncompress ce c (length x) = Some x" for c
    using that assms False small by (simp add: decompress_data_def Let_def)
  show ?thesis
    using False assms(1) literal_block_literals [of x]
    by (auto simp: lawful_crypto_def compress_data_def Let_def literal_block_prefix [of "put_le 4 (length x)"]
        split: option.split intro!: unpack)
qed

lemma decrypt_encrypt:
  assumes "lawful_crypto ce" "encrypt ce method key random d = Inr c" "length d < 2 ^ 63"
  shows "decrypt ce method key c = Inr d"
proof (cases "method = encryption_aes128")
  case True
  have "length (ce_seal ce k n d) < 2 ^ 64" for k n using assms(1,3) by (simp add: lawful_crypto_def)
  moreover have "ce_open ce k n (ce_seal ce k n d) = Some d" if "length k = 32" "length n = 16" for k n
    using assms(1) that by (simp add: lawful_crypto_def)
  ultimately show ?thesis
    using True assms(2)
    by (auto simp: encrypt_def decrypt_def encrypt_aes128_siv_with_cipher_def
        decrypt_aes128_siv_with_cipher_def Let_def method_defs split: if_splits)
qed (use assms in \<open>auto simp: encrypt_def decrypt_def xor_data_involution split: if_splits\<close>)

end
