(* ===== verification/Go_Base64.thy ===== *)
theory Go_Base64
  imports Prelude
begin

text \<open>
  Go's \<open>encoding/base64\<close> with the standard alphabet and padding: \<open>EncodeToString\<close>, and
  \<open>DecodeString\<close>, which skips line breaks; \<open>None\<close> stands for its error.
\<close>

definition b64_char :: "nat \<Rightarrow> char" where
  "b64_char n =
     (if n < 26 then char_of (65 + n)
      else if n < 52 then char_of (71 + n)
      else if n < 62 then char_of (n - 4)
      else if n = 62 then CHR ''+'' else CHR ''/'')"

definition b64_val :: "char \<Rightarrow> nat option" where
  "b64_val c =
     (let n = (of_char c :: nat) in
      if 65 \<le> n \<and> n \<le> 90 then Some (n - 65)
      else if 97 \<le> n \<and> n \<le> 122 then Some (n - 71)
      else if 48 \<le> n \<and> n \<le> 57 then Some (n + 4)
      else if n = 43 then Some 62
      else if n = 47 then Some 63
      else None)"

definition b64_quad :: "nat \<Rightarrow> nat \<Rightarrow> nat \<Rightarrow> string" where
  "b64_quad a b c =
     (let n = a * 65536 + b * 256 + c in
      [b64_char (n div 262144), b64_char (n div 4096 mod 64), b64_char (n div 64 mod 64),
       b64_char (n mod 64)])"

fun b64_encode :: "byte list \<Rightarrow> string" where
  "b64_encode [] = ''''"
| "b64_encode [a] = take 2 (b64_quad (unat a) 0 0) @ ''==''"
| "b64_encode [a, b] = take 3 (b64_quad (unat a) (unat b) 0) @ ''=''"
| "b64_encode (a # b # c # bs) = b64_quad (unat a) (unat b) (unat c) @ b64_encode bs"

definition b64_bytes :: "nat \<Rightarrow> nat \<Rightarrow> nat \<Rightarrow> nat \<Rightarrow> byte list" where
  "b64_bytes u v w x =
     (let n = u * 262144 + v * 4096 + w * 64 + x in
      [of_nat (n div 65536), of_nat (n div 256 mod 256), of_nat (n mod 256)])"

fun b64_decode_quads :: "string \<Rightarrow> byte list option" where
  "b64_decode_quads [] = Some []"
| "b64_decode_quads (p # q # r # s # cs) =
     (case (b64_val p, b64_val q) of
        (Some u, Some v) \<Rightarrow>
          if r = CHR ''='' then
            (if s = CHR ''='' \<and> cs = '''' then Some (take 1 (b64_bytes u v 0 0)) else None)
          else (case b64_val r of
             None \<Rightarrow> None
           | Some w \<Rightarrow>
               if s = CHR ''='' then (if cs = '''' then Some (take 2 (b64_bytes u v w 0)) else None)
               else (case (b64_val s, b64_decode_quads cs) of
                  (Some x, Some bs) \<Rightarrow> Some (b64_bytes u v w x @ bs)
                | _ \<Rightarrow> None))
      | _ \<Rightarrow> None)"
| "b64_decode_quads _ = None"

definition b64_decode :: "string \<Rightarrow> byte list option" where
  "b64_decode s = b64_decode_quads (filter (\<lambda>c. of_char c \<noteq> (10 :: nat) \<and> of_char c \<noteq> (13 :: nat)) s)"

lemma b64_val_char [simp]: "n < 64 \<Longrightarrow> b64_val (b64_char n) = Some n"
  by (auto simp: b64_val_def b64_char_def Let_def)

lemma b64_char_plain [simp]:
  assumes "n < 64"
  shows "b64_char n \<noteq> CHR ''=''" "of_char (b64_char n) \<noteq> (10 :: nat)"
    "of_char (b64_char n) \<noteq> (13 :: nat)"
  using b64_val_char [OF assms] by (auto simp: b64_val_def Let_def)

lemma b64_horner:
  "n = 64 * m1 + r0 \<Longrightarrow> m1 = 64 * m2 + r1 \<Longrightarrow> m2 = 64 * m3 + r2 \<Longrightarrow>
     m3 * 262144 + r2 * 4096 + r1 * 64 + r0 = (n :: nat)"
  by simp

lemma b64_digits:
  fixes n :: nat
  shows "n div 262144 * 262144 + (n div 4096 mod 64) * 4096 + (n div 64 mod 64) * 64 + n mod 64 = n"
proof -
  have nested: "n div 4096 = n div 64 div 64" "n div 262144 = n div 64 div 64 div 64"
    by (simp_all add: div_mult2_eq [symmetric])
  show ?thesis
    unfolding nested by (rule b64_horner) (simp_all only: mult_div_mod_eq)
qed

lemma split_256: "c < 256 \<Longrightarrow> (c + 256 * m) mod 256 = c \<and> (c + 256 * m) div 256 = (m :: nat)"
  by simp

lemma b64_bytes_digits:
  assumes "a < 256" "b < 256" "c < 256" "n = a * 65536 + b * 256 + c"
  shows "b64_bytes (n div 262144) (n div 4096 mod 64) (n div 64 mod 64) (n mod 64) =
    [of_nat a, of_nat b, of_nat c]"
proof -
  have n: "n = c + 256 * (b + 256 * a)" using assms(4) by simp
  have "n mod 256 = c" "n div 256 = b + 256 * a"
    unfolding n using split_256 [OF assms(3), of "b + 256 * a"] by blast+
  moreover from this(2) have "n div 256 mod 256 = b" using assms(2) by simp
  moreover from \<open>n div 256 = b + 256 * a\<close> have "n div 256 div 256 = a" using assms(2) by simp
  ultimately have "n div 65536 = a" "n mod 256 = c" "n div 256 mod 256 = b"
    by (simp_all add: div_mult2_eq [symmetric])
  then show ?thesis by (simp add: b64_bytes_def b64_digits Let_def)
qed

lemma byte_less: "unat (x :: byte) < 256"
  using unsigned_less [of x] by simp

lemma b64_quad_less: "a < 256 \<Longrightarrow> b < 256 \<Longrightarrow> c < 256 \<Longrightarrow> (a * 65536 + b * 256 + c) div 262144 < (64 :: nat)"
  by (simp add: less_mult_imp_div_less)

lemma b64_trailing_zeros:
  "(a * 65536 + 0 * 256 + 0) mod 64 = (0 :: nat)" "(a * 65536 + 0 * 256 + 0) div 64 mod 64 = (0 :: nat)"
  "(a * 65536 + b * 256 + 0) mod 64 = (0 :: nat)"
proof -
  have ab: "a * 65536 + b * 256 + 0 = (a * 1024 + b * 4) * 64" by simp
  have a: "a * 65536 + 0 * 256 + 0 = a * 16 * 64 * 64" by simp
  show "(a * 65536 + b * 256 + 0) mod 64 = (0 :: nat)" unfolding ab by (rule mod_mult_self2_is_0)
  show "(a * 65536 + 0 * 256 + 0) mod 64 = (0 :: nat)" unfolding a by (rule mod_mult_self2_is_0)
  show "(a * 65536 + 0 * 256 + 0) div 64 mod 64 = (0 :: nat)" unfolding a by simp
qed

lemma b64_decode_quads_encode: "b64_decode_quads (b64_encode bs) = Some bs"
proof (induction bs rule: b64_encode.induct)
  case (2 a)
  show ?case
    using b64_bytes_digits [OF byte_less [of a], of 0 0 "unat a * 65536 + 0 * 256 + 0"]
      b64_quad_less [OF byte_less [of a], of 0 0]
    by (simp add: b64_quad_def Let_def b64_trailing_zeros del: add_0_right mult_0)
next
  case (3 a b)
  show ?case
    using b64_bytes_digits [OF byte_less [of a] byte_less [of b], of 0 "unat a * 65536 + unat b * 256 + 0"]
      b64_quad_less [OF byte_less [of a] byte_less [of b], of 0]
    by (simp add: b64_quad_def Let_def b64_trailing_zeros del: add_0_right)
next
  case (4 a b c bs)
  then show ?case
    using b64_bytes_digits [OF byte_less [of a] byte_less [of b] byte_less [of c]
        refl]
      b64_quad_less [OF byte_less [of a] byte_less [of b] byte_less [of c]]
    by (simp add: b64_quad_def Let_def)
qed simp

lemma b64_encode_no_breaks:
  "filter (\<lambda>c. of_char c \<noteq> (10 :: nat) \<and> of_char c \<noteq> (13 :: nat)) (b64_encode bs) = b64_encode bs"
proof (induction bs rule: b64_encode.induct)
  case (2 a)
  show ?case using b64_quad_less [OF byte_less [of a], of 0 0] by (simp add: b64_quad_def Let_def)
next
  case (3 a b)
  show ?case
    using b64_quad_less [OF byte_less [of a] byte_less [of b], of 0]
    by (simp add: b64_quad_def Let_def)
next
  case (4 a b c bs)
  then show ?case
    using b64_quad_less [OF byte_less [of a] byte_less [of b] byte_less [of c]]
    by (simp add: b64_quad_def Let_def)
qed simp

lemma b64_decode_encode [simp]: "b64_decode (b64_encode bs) = Some bs"
  by (simp add: b64_decode_def b64_encode_no_breaks b64_decode_quads_encode)

end
