(* ===== verification/Session_Common.thy ===== *)
theory Session_Common
  imports Pb_Types Flow Crypto Go_Base64
begin

text \<open>
  \<open>internal/proxy/types.go\<close>, \<open>session_id.go\<close> and the rest of \<open>common.go\<close>: the messages between an
  inlet and an outlet, their translation to and from protocol messages, and the per-session
  compression, encryption and flow control.
\<close>

section \<open>Proxy messages\<close>

datatype proxy_message =
    I2OConnect u32 u32 u8 bool bool string string string string
  | O2IConnect u32 u32 bool string
  | I2OSendData u32 u32 "byte list"
  | I2OSendToData u32 u32 "byte list" string
  | O2ISendDataResult u32 u32 u32
  | O2IRecvData u32 u32 "byte list"
  | O2IRecvDataFrom u32 u32 "byte list" string
  | I2ORecvDataResult u32 u32 u32
  | I2ODisconnect u32 u32
  | O2IDisconnect u32 u32

fun pm_session_id :: "proxy_message \<Rightarrow> u32" where
  "pm_session_id (I2OConnect _ i _ _ _ _ _ _ _) = i"
| "pm_session_id (O2IConnect _ i _ _) = i"
| "pm_session_id (I2OSendData _ i _) = i"
| "pm_session_id (I2OSendToData _ i _ _) = i"
| "pm_session_id (O2ISendDataResult _ i _) = i"
| "pm_session_id (O2IRecvData _ i _) = i"
| "pm_session_id (O2IRecvDataFrom _ i _ _) = i"
| "pm_session_id (I2ORecvDataResult _ i _) = i"
| "pm_session_id (I2ODisconnect _ i) = i"
| "pm_session_id (O2IDisconnect _ i) = i"

fun pm_tunnel_id :: "proxy_message \<Rightarrow> u32" where
  "pm_tunnel_id (I2OConnect t _ _ _ _ _ _ _ _) = t"
| "pm_tunnel_id (O2IConnect t _ _ _) = t"
| "pm_tunnel_id (I2OSendData t _ _) = t"
| "pm_tunnel_id (I2OSendToData t _ _ _) = t"
| "pm_tunnel_id (O2ISendDataResult t _ _) = t"
| "pm_tunnel_id (O2IRecvData t _ _) = t"
| "pm_tunnel_id (O2IRecvDataFrom t _ _ _) = t"
| "pm_tunnel_id (I2ORecvDataResult t _ _) = t"
| "pm_tunnel_id (I2ODisconnect t _) = t"
| "pm_tunnel_id (O2IDisconnect t _) = t"

definition bridge_to_pb :: "proxy_message \<Rightarrow> message" where
  "bridge_to_pb m =
     (case m of
        I2OConnect t i typ tcp compressed addr meth key client \<Rightarrow>
          PbI2OConnect \<lparr>ic_tunnel_id = t, ic_session_id = i, ic_tunnel_type = ucast typ,
            ic_is_tcp = tcp, ic_is_compressed = compressed, ic_addr = addr,
            ic_encryption_method = meth, ic_encryption_key = key, ic_client_addr = client\<rparr>
      | O2IConnect t i ok e \<Rightarrow>
          PbO2IConnect \<lparr>oc_tunnel_id = t, oc_session_id = i, oc_success = ok, oc_error_info = e\<rparr>
      | I2OSendData t i d \<Rightarrow> PbI2OSendData \<lparr>pd_tunnel_id = t, pd_session_id = i, pd_data = d\<rparr>
      | I2OSendToData t i d a \<Rightarrow>
          PbI2OSendToData \<lparr>pa_tunnel_id = t, pa_session_id = i, pa_data = d, pa_addr = a\<rparr>
      | O2ISendDataResult t i n \<Rightarrow>
          PbO2ISendDataResult \<lparr>ps_tunnel_id = t, ps_session_id = i, ps_data_len = n\<rparr>
      | O2IRecvData t i d \<Rightarrow> PbO2IRecvData \<lparr>pd_tunnel_id = t, pd_session_id = i, pd_data = d\<rparr>
      | O2IRecvDataFrom t i d a \<Rightarrow>
          PbO2IRecvDataFrom \<lparr>pa_tunnel_id = t, pa_session_id = i, pa_data = d, pa_addr = a\<rparr>
      | I2ORecvDataResult t i n \<Rightarrow>
          PbI2ORecvDataResult \<lparr>ps_tunnel_id = t, ps_session_id = i, ps_data_len = n\<rparr>
      | I2ODisconnect t i \<Rightarrow> PbI2ODisconnect \<lparr>px_tunnel_id = t, px_session_id = i\<rparr>
      | O2IDisconnect t i \<Rightarrow> PbO2IDisconnect \<lparr>px_tunnel_id = t, px_session_id = i\<rparr>)"

text \<open>\<open>None\<close> is the \<open>nil, 0, false\<close> of the other message types.\<close>

definition bridge_from_pb :: "message \<Rightarrow> (proxy_message \<times> u32) option" where
  "bridge_from_pb m =
     (case m of
        PbI2OConnect x \<Rightarrow>
          Some (I2OConnect (ic_tunnel_id x) (ic_session_id x) (ucast (ic_tunnel_type x)) (ic_is_tcp x)
            (ic_is_compressed x) (ic_addr x) (ic_encryption_method x) (ic_encryption_key x)
            (ic_client_addr x), ic_tunnel_id x)
      | PbI2OSendData x \<Rightarrow>
          Some (I2OSendData (pd_tunnel_id x) (pd_session_id x) (pd_data x), pd_tunnel_id x)
      | PbI2OSendToData x \<Rightarrow>
          Some (I2OSendToData (pa_tunnel_id x) (pa_session_id x) (pa_data x) (pa_addr x), pa_tunnel_id x)
      | PbI2ORecvDataResult x \<Rightarrow>
          Some (I2ORecvDataResult (ps_tunnel_id x) (ps_session_id x) (ps_data_len x), ps_tunnel_id x)
      | PbI2ODisconnect x \<Rightarrow> Some (I2ODisconnect (px_tunnel_id x) (px_session_id x), px_tunnel_id x)
      | PbO2IConnect x \<Rightarrow>
          Some (O2IConnect (oc_tunnel_id x) (oc_session_id x) (oc_success x) (oc_error_info x),
            oc_tunnel_id x)
      | PbO2IRecvData x \<Rightarrow>
          Some (O2IRecvData (pd_tunnel_id x) (pd_session_id x) (pd_data x), pd_tunnel_id x)
      | PbO2IRecvDataFrom x \<Rightarrow>
          Some (O2IRecvDataFrom (pa_tunnel_id x) (pa_session_id x) (pa_data x) (pa_addr x), pa_tunnel_id x)
      | PbO2IDisconnect x \<Rightarrow> Some (O2IDisconnect (px_tunnel_id x) (px_session_id x), px_tunnel_id x)
      | PbO2ISendDataResult x \<Rightarrow>
          Some (O2ISendDataResult (ps_tunnel_id x) (ps_session_id x) (ps_data_len x), ps_tunnel_id x)
      | _ \<Rightarrow> None)"

definition is_i2o_message :: "proxy_message \<Rightarrow> bool" where
  "is_i2o_message m =
     (case m of
        I2OConnect _ _ _ _ _ _ _ _ _ \<Rightarrow> True | I2OSendData _ _ _ \<Rightarrow> True
      | I2OSendToData _ _ _ _ \<Rightarrow> True | I2ORecvDataResult _ _ _ \<Rightarrow> True
      | I2ODisconnect _ _ \<Rightarrow> True | _ \<Rightarrow> False)"

definition encode_key_to_base64 :: "byte list \<Rightarrow> string" where
  "encode_key_to_base64 key = b64_encode key"

definition decode_key_from_base64 :: "string \<Rightarrow> byte list option" where
  "decode_key_from_base64 s = b64_decode s"

lemma bridge_from_to_pb [simp]: "bridge_from_pb (bridge_to_pb m) = Some (m, pm_tunnel_id m)"
proof -
  have "ucast (ucast t :: u32) = t" for t :: u8
    by (rule bit_word_eqI) (simp add: bit_simps)
  then show ?thesis by (cases m) (simp_all add: bridge_to_pb_def bridge_from_pb_def)
qed

section \<open>Tunnel modes and session ids\<close>

type_synonym tunnel_mode = u32

definition mode_tcp :: tunnel_mode where "mode_tcp = 0"
definition mode_udp :: tunnel_mode where "mode_udp = 1"
definition mode_socks5 :: tunnel_mode where "mode_socks5 = 2"
definition mode_http :: tunnel_mode where "mode_http = 3"
definition mode_shadowsocks :: tunnel_mode where "mode_shadowsocks = 4"
definition mode_unknown :: tunnel_mode where "mode_unknown = 255"

definition mode_is_tcp :: "tunnel_mode \<Rightarrow> bool" where
  "mode_is_tcp m \<longleftrightarrow> m \<noteq> mode_udp"
definition mode_is_socks5 :: "tunnel_mode \<Rightarrow> bool" where
  "mode_is_socks5 m \<longleftrightarrow> m = mode_socks5"
definition uses_remote_udp_addr :: "tunnel_mode \<Rightarrow> bool" where
  "uses_remote_udp_addr m \<longleftrightarrow> m = mode_socks5 \<or> m = mode_shadowsocks"

text \<open>The loop adds 1 until the counter is not 0; the second round is the last, since the 32-bit
  counter was 0 before it.\<close>

fun next_session_id :: "nat \<Rightarrow> u32 \<Rightarrow> (u32 \<times> u32) option" where
  "next_session_id 0 counter = None"
| "next_session_id (Suc fuel) counter =
     (let i = counter + 1 in if i > 0 then Some (i, i) else next_session_id fuel i)"

section \<open>Session parameters\<close>

record session_common_info =
  sc_is_compressed :: bool
  sc_method :: encryption_method
  sc_key :: "byte list"
  sc_flow :: flow_controller
  sc_aes_siv :: "byte list option"

definition proxy_flow_window_bytes :: int where
  "proxy_flow_window_bytes = 4 * 1024 * 1024"

definition new_session_common_info ::
  "bool \<Rightarrow> encryption_method \<Rightarrow> byte list \<Rightarrow> session_common_info" where
  "new_session_common_info compressed meth key =
     \<lparr>sc_is_compressed = compressed, sc_method = meth, sc_key = key,
      sc_flow = new_flow_controller proxy_flow_window_bytes,
      sc_aes_siv = (if meth = encryption_aes128 then Some (new_aes128_siv_cipher key) else None)\<rparr>"

definition new_session_common_info_from_name ::
  "bool \<Rightarrow> string \<Rightarrow> byte list \<Rightarrow> crypto_error + session_common_info" where
  "new_session_common_info_from_name compressed method_name random =
     (let meth = parse_encryption_method method_name in
      case generate_key meth random of
        Inl e \<Rightarrow> Inl e
      | Inr key \<Rightarrow> Inr (new_session_common_info compressed meth key))"

definition sc_clone :: "session_common_info \<Rightarrow> session_common_info" where
  "sc_clone c = new_session_common_info (sc_is_compressed c) (sc_method c) (sc_key c)"

definition sc_close :: "session_common_info \<Rightarrow> session_common_info" where
  "sc_close c = c\<lparr>sc_flow := flow_close (sc_flow c)\<rparr>"

datatype common_error = Crypto_Failed crypto_error | Flow_Failed flow_error

text \<open>\<open>None\<close>: the call waits in \<open>Acquire\<close>.\<close>

definition encode_data_and_limit ::
  "crypto_env \<Rightarrow> session_common_info \<Rightarrow> byte list \<Rightarrow> byte list
    \<Rightarrow> ((common_error + byte list) \<times> session_common_info) option" where
  "encode_data_and_limit ce c random data =
     (let out = (if sc_is_compressed c then compress_data ce data else data);
          r = (case sc_aes_siv c of
                 Some cipher \<Rightarrow>
                   if sc_method c = encryption_aes128 then encrypt_aes128_siv_with_cipher ce cipher random out
                   else encrypt ce (sc_method c) (sc_key c) random out
               | None \<Rightarrow> encrypt ce (sc_method c) (sc_key c) random out)
      in case r of
           Inl e \<Rightarrow> Some (Inl (Crypto_Failed e), c)
         | Inr out \<Rightarrow>
             (case flow_acquire (int (length out)) (sc_flow c) of
                None \<Rightarrow> None
              | Some (Some e, f) \<Rightarrow> Some (Inl (Flow_Failed e), c\<lparr>sc_flow := f\<rparr>)
              | Some (None, f) \<Rightarrow> Some (Inr out, c\<lparr>sc_flow := f\<rparr>)))"

definition decode_data ::
  "crypto_env \<Rightarrow> session_common_info \<Rightarrow> byte list \<Rightarrow> crypto_error + byte list" where
  "decode_data ce c data =
     (let r = (case sc_aes_siv c of
                 Some cipher \<Rightarrow>
                   if sc_method c = encryption_aes128 then decrypt_aes128_siv_with_cipher ce cipher data
                   else decrypt ce (sc_method c) (sc_key c) data
               | None \<Rightarrow> decrypt ce (sc_method c) (sc_key c) data)
      in case r of
           Inl e \<Rightarrow> Inl e
         | Inr out \<Rightarrow> if sc_is_compressed c then decompress_data ce out else Inr out)"

lemma encode_uses_encrypt:
  assumes "sc_aes_siv c = (if sc_method c = encryption_aes128
      then Some (new_aes128_siv_cipher (sc_key c)) else None)"
  shows "encode_data_and_limit ce c random data =
      (case encrypt ce (sc_method c) (sc_key c) random
         (if sc_is_compressed c then compress_data ce data else data) of
         Inl e \<Rightarrow> Some (Inl (Crypto_Failed e), c)
       | Inr out \<Rightarrow>
           (case flow_acquire (int (length out)) (sc_flow c) of
              None \<Rightarrow> None
            | Some (Some e, f) \<Rightarrow> Some (Inl (Flow_Failed e), c\<lparr>sc_flow := f\<rparr>)
            | Some (None, f) \<Rightarrow> Some (Inr out, c\<lparr>sc_flow := f\<rparr>)))"
    and "decode_data ce c data =
      (case decrypt ce (sc_method c) (sc_key c) data of
         Inl e \<Rightarrow> Inl e
       | Inr out \<Rightarrow> if sc_is_compressed c then decompress_data ce out else Inr out)"
  using assms
  by (simp_all add: encode_data_and_limit_def decode_data_def encrypt_def decrypt_def method_defs Let_def)

lemma length_append_255: "length (fst (append_255 [] r)) \<le> r"
proof (induction r rule: less_induct)
  case (less r)
  show ?case
  proof (cases "r \<ge> 255")
    case True
    with less.IH [of "r - 255"] append_255_prefix [of "[255]" "r - 255"] show ?thesis
      by (simp add: append_255.simps [of _ r])
  qed (simp add: append_255.simps [of _ r])
qed

lemma length_compress: "length (compress_data ce x) \<le> 2 * length x + 6"
  using length_append_255 [of "length x - 15"] append_255_prefix [of "put_le 4 (length x) @ [240]" "length x - 15"]
  by (auto simp: compress_data_def Let_def append_lz4_literal_block_def split_beta split: option.split)

lemma session_data_decodes:
  assumes "lawful_crypto ce" and "length data \<le> lz4_max_decompressed_size"
    and "encode_data_and_limit ce ((new_session_common_info compressed meth key)\<lparr>sc_flow := f\<rparr>)
      random data = Some (Inr out, c')"
  shows "decode_data ce (new_session_common_info compressed meth key) out = Inr data \<and>
    flow_acquire (int (length out)) f = Some (None, sc_flow c')"
proof -
  let ?in = "if compressed then compress_data ce data else data"
  have "length ?in < 2 ^ 63"
    using assms(2) length_compress [of ce data] by (simp add: lz4_max_decompressed_size_def)
  moreover from assms(3) have "encrypt ce meth key random ?in = Inr out"
    "flow_acquire (int (length out)) f = Some (None, sc_flow c')"
    by (subst (asm) encode_uses_encrypt;
        auto simp: new_session_common_info_def split: sum.splits option.splits prod.splits)+
  ultimately show ?thesis
    using decrypt_encrypt [OF assms(1), of meth key random ?in out]
      decompress_compress [OF assms(1,2)]
    by (subst encode_uses_encrypt) (auto simp: new_session_common_info_def)
qed

section \<open>Properties\<close>

text \<open>
  C34. What one side of a session sends, the other side reads: for every method name, key and
  random nonce and with or without compression, data of up to 8 MiB that \<open>EncodeDataAndLimit\<close> lets
  through decodes to itself at any session made of the same parameters, and the flow controller is
  charged with the length of what was sent.
\<close>

theorem session_data_round_trip:
  assumes "lawful_crypto ce" and "length data \<le> lz4_max_decompressed_size"
    and "encode_data_and_limit ce ((new_session_common_info compressed meth key)\<lparr>sc_flow := f\<rparr>)
      random data = Some (Inr out, c')"
  shows "decode_data ce (new_session_common_info compressed meth key) out = Inr data \<and>
    flow_acquire (int (length out)) f = Some (None, sc_flow c')"
  using assms by (rule session_data_decodes)

text \<open>A stand-in for the two packages: nothing is compressible, literal-only blocks are read by
  the format, and the sealed text carries a constant tag.\<close>

definition example_crypto :: crypto_env where
  "example_crypto =
     \<lparr>ce_compress = (\<lambda>x. None),
      ce_uncompress = (\<lambda>b n. case lz4_literals b of
        None \<Rightarrow> None | Some x \<Rightarrow> if length x \<le> n then Some x else None),
      ce_seal = (\<lambda>k n d. replicate 16 0 @ d),
      ce_open = (\<lambda>k n c. if length c < 16 then None else Some (drop 16 c))\<rparr>"

lemma lawful_example_crypto: "lawful_crypto example_crypto"
  by (simp add: lawful_crypto_def example_crypto_def)

lemma session_data_round_trip_witness:
  "decode_data example_crypto (new_session_common_info True ''Xor'' [1, 2])
     [3, 2, 1, 2, 33, 96, 98] = Inr [98, 99]"
proof -
  have sent: "encode_data_and_limit example_crypto
      ((new_session_common_info True ''Xor'' [1, 2])\<lparr>sc_flow := new_flow_controller 100\<rparr>) [] [98, 99] =
    Some (Inr [3, 2, 1, 2, 33, 96, 98],
      (new_session_common_info True ''Xor'' [1, 2])\<lparr>sc_flow := \<lparr>fc_max_bytes = 100, fc_inflight = 7, fc_closed = False\<rparr>\<rparr>)"
    by (simp add: encode_data_and_limit_def new_session_common_info_def encrypt_def method_defs
        compress_data_def example_crypto_def Let_def put_le_def append_lz4_literal_block_def
        xor_data_def flow_acquire_def new_flow_controller_def upt_conv_Cons mod_Suc)
  from session_data_round_trip [OF lawful_example_crypto _ sent] show ?thesis
    by (simp add: lz4_max_decompressed_size_def)
qed

text \<open>
  Generated keys are usable: an AES key is 32 printable, non-blank ASCII bytes, an XOR key is 8
  to 63 bytes none of which is zero (so every byte of the data is masked), and with enough
  randomness a key is always generated; every key survives its trip through Base64.
\<close>

theorem generated_key_shape:
  assumes "generate_key method random = Inr key"
  shows "(method = encryption_aes128 \<longrightarrow> length key = 32 \<and> (\<forall>b \<in> set key. 33 \<le> b \<and> b \<le> 126)) \<and>
    (method = encryption_xor \<longrightarrow> 8 \<le> length key \<and> length key \<le> 63 \<and> 0 \<notin> set key) \<and>
    decode_key_from_base64 (encode_key_to_base64 key) = Some key"
proof -
  have printable: "33 \<le> 33 + b mod 94 \<and> 33 + b mod 94 \<le> 126" for b :: byte
  proof -
    have "unat (b mod 94) < 94" by (simp add: unat_mod_distrib)
    then show ?thesis by (simp add: word_le_nat_alt unat_word_ariths)
  qed
  have "decode_key_from_base64 (encode_key_to_base64 key) = Some key"
    by (simp add: encode_key_to_base64_def decode_key_from_base64_def)
  moreover have "length key = 32 \<and> (\<forall>b \<in> set key. 33 \<le> b \<and> b \<le> 126)" if "method = encryption_aes128"
    using assms printable that by (auto simp: generate_key_def method_defs split: if_splits)
  moreover have "8 \<le> length key \<and> length key \<le> 63 \<and> 0 \<notin> set key" if xor: "method = encryption_xor"
  proof -
    from assms xor obtain b random' where r: "random = b # random'" "8 + unat b mod 56 \<le> length random'"
      and key: "key = map (\<lambda>k. if k = 0 then 1 else k) (take (8 + unat b mod 56) random')"
      by (auto simp: generate_key_def method_defs Let_def split: if_splits list.splits)
    have "unat b mod 56 < 56" by simp
    with r have "8 \<le> length key" "length key \<le> 63" unfolding key by simp_all
    then show ?thesis unfolding key by auto
  qed
  ultimately show ?thesis by blast
qed

lemma generated_key_shape_witness:
  "8 \<le> length [1, 1, 7, 1, 1, 1, 1, 1 :: byte] \<and>
   decode_key_from_base64 (encode_key_to_base64 [1, 1, 7, 1, 1, 1, 1, 1]) =
     Some [1, 1, 7, 1, 1, 1, 1, 1]"
proof -
  have "generate_key encryption_xor [56, 0, 1, 7, 0, 0, 0, 0, 1] = Inr [1, 1, 7, 1, 1, 1, 1, 1]"
    by (simp add: generate_key_def method_defs)
  from generated_key_shape [OF this] show ?thesis by blast
qed

text \<open>
  A session id is never 0: from every value of the counter two rounds of the loop are enough,
  and the id is the counter's next non-zero value.
\<close>

theorem session_ids_positive:
  "next_session_id 2 counter = Some (if counter = - 1 then (1, 1) else (counter + 1, counter + 1)) \<and>
   (if counter = - 1 then 1 else counter + 1) \<noteq> (0 :: u32)"
proof -
  have "counter + 1 = 0 \<longleftrightarrow> counter = - 1" by (simp add: add_eq_0_iff2)
  then show ?thesis by (auto simp: numeral_2_eq_2 Let_def word_gt_0)
qed

end
