(* ===== verification/Go_Strings.thy ===== *)
theory Go_Strings
  imports Prelude
begin

text \<open>
  The part of Go's \<open>strings\<close>, \<open>strconv\<close> and \<open>unicode/utf8\<close> packages the components call, on
  byte strings: \<open>TrimSpace\<close>, \<open>Split\<close> with a one-byte separator, \<open>HasPrefix\<close>, \<open>HasSuffix\<close>,
  \<open>EqualFold\<close> against an ASCII string, \<open>FormatUint\<close> and \<open>ParseUint\<close> in base 10.
\<close>

section \<open>Prefixes and splitting\<close>

definition has_prefix :: "string \<Rightarrow> string \<Rightarrow> bool" where
  "has_prefix s p \<longleftrightarrow> take (length p) s = p"

definition has_suffix :: "string \<Rightarrow> string \<Rightarrow> bool" where
  "has_suffix s p \<longleftrightarrow> has_prefix (rev s) (rev p)"

lemma has_prefix_append [simp]: "has_prefix (p @ s) p"
  by (simp add: has_prefix_def)

lemma has_prefixE: "has_prefix s p \<Longrightarrow> (\<And>t. s = p @ t \<Longrightarrow> P) \<Longrightarrow> P"
  by (metis has_prefix_def append_take_drop_id)

lemma has_prefix_iff: "has_prefix s p \<longleftrightarrow> (\<exists>t. s = p @ t)"
  by (auto elim: has_prefixE)

lemma has_prefix_take: "has_prefix (take n s) p \<Longrightarrow> has_prefix s p"
  by (metis append.assoc append_take_drop_id has_prefixE has_prefix_append)

text \<open>\<open>strings.Split(s, sep)\<close> for a one-byte separator: always at least one piece.\<close>

fun split_on :: "char \<Rightarrow> string \<Rightarrow> string list" where
  "split_on c [] = [[]]"
| "split_on c (x # xs) =
     (if x = c then [] # split_on c xs
      else case split_on c xs of [] \<Rightarrow> [[x]] | p # ps \<Rightarrow> (x # p) # ps)"

lemma split_on_not_Nil [simp]: "split_on c s \<noteq> []"
  by (induction s) (auto split: list.splits)

section \<open>Trimming white space\<close>

text \<open>The UTF-8 encodings of the runes with \<open>unicode.IsSpace\<close>.\<close>

definition space_runes :: "string list" where
  "space_runes =
     [[CHR 0x09], [CHR 0x0A], [CHR 0x0B], [CHR 0x0C], [CHR 0x0D], [CHR 0x20],
      [CHR 0xC2, CHR 0x85], [CHR 0xC2, CHR 0xA0], [CHR 0xE1, CHR 0x9A, CHR 0x80],
      [CHR 0xE2, CHR 0x80, CHR 0x80], [CHR 0xE2, CHR 0x80, CHR 0x81],
      [CHR 0xE2, CHR 0x80, CHR 0x82], [CHR 0xE2, CHR 0x80, CHR 0x83],
      [CHR 0xE2, CHR 0x80, CHR 0x84], [CHR 0xE2, CHR 0x80, CHR 0x85],
      [CHR 0xE2, CHR 0x80, CHR 0x86], [CHR 0xE2, CHR 0x80, CHR 0x87],
      [CHR 0xE2, CHR 0x80, CHR 0x88], [CHR 0xE2, CHR 0x80, CHR 0x89],
      [CHR 0xE2, CHR 0x80, CHR 0x8A], [CHR 0xE2, CHR 0x80, CHR 0xA8],
      [CHR 0xE2, CHR 0x80, CHR 0xA9], [CHR 0xE2, CHR 0x80, CHR 0xAF],
      [CHR 0xE2, CHR 0x81, CHR 0x9F], [CHR 0xE3, CHR 0x80, CHR 0x80]]"

function trim_prefixes :: "string list \<Rightarrow> string \<Rightarrow> string" where
  "trim_prefixes rs s =
     (case find (\<lambda>r. r \<noteq> [] \<and> has_prefix s r) rs of
        None \<Rightarrow> s
      | Some r \<Rightarrow> trim_prefixes rs (drop (length r) s))"
  by pat_completeness auto
termination
proof (relation "measure (\<lambda>(rs, s). length s)")
  fix rs s r
  assume "find (\<lambda>r. r \<noteq> [] \<and> has_prefix s r) rs = Some r"
  then have "r \<noteq> []" and "has_prefix s r"
    by (auto simp: find_Some_iff)
  then show "((rs, drop (length r) s), (rs, s)) \<in> measure (\<lambda>(rs, s). length s)"
    by (auto simp: has_prefix_iff)
qed simp

declare trim_prefixes.simps [simp del]

definition trim_left :: "string \<Rightarrow> string" where
  "trim_left s = trim_prefixes space_runes s"

definition trim_right :: "string \<Rightarrow> string" where
  "trim_right s = rev (trim_prefixes (map rev space_runes) (rev s))"

definition trim_space :: "string \<Rightarrow> string" where
  "trim_space s = trim_right (trim_left s)"

text \<open>No listed prefix is left, so trimming twice is trimming once.\<close>

lemma trim_prefixes_None:
  "find (\<lambda>r. r \<noteq> [] \<and> has_prefix s r) rs = None \<Longrightarrow> trim_prefixes rs s = s"
  by (subst trim_prefixes.simps) simp

lemma trim_prefixes_Some:
  "find (\<lambda>r. r \<noteq> [] \<and> has_prefix s r) rs = Some a \<Longrightarrow>
   trim_prefixes rs s = trim_prefixes rs (drop (length a) s)"
  by (subst trim_prefixes.simps) simp

lemma trim_prefixes_done:
  "r \<in> set rs \<Longrightarrow> r \<noteq> [] \<Longrightarrow> \<not> has_prefix (trim_prefixes rs s) r"
proof (induction rs s rule: trim_prefixes.induct)
  case (1 rs s)
  show ?case
  proof (cases "find (\<lambda>r. r \<noteq> [] \<and> has_prefix s r) rs")
    case None
    with "1.prems" show ?thesis
      by (auto simp: trim_prefixes_None find_None_iff)
  next
    case (Some a)
    with "1.IH" [OF Some] "1.prems" show ?thesis
      by (simp add: trim_prefixes_Some)
  qed
qed

lemma trim_prefixes_id:
  "(\<And>r. r \<in> set rs \<Longrightarrow> r \<noteq> [] \<Longrightarrow> \<not> has_prefix s r) \<Longrightarrow> trim_prefixes rs s = s"
  by (rule trim_prefixes_None) (auto simp: find_None_iff)

lemma trim_prefixes_idem [simp]:
  "trim_prefixes rs (trim_prefixes rs s) = trim_prefixes rs s"
  by (rule trim_prefixes_id) (rule trim_prefixes_done)

lemma trim_prefixes_suffix: "\<exists>t. s = t @ trim_prefixes rs s"
proof (induction rs s rule: trim_prefixes.induct)
  case (1 rs s)
  show ?case
  proof (cases "find (\<lambda>r. r \<noteq> [] \<and> has_prefix s r) rs")
    case None
    then show ?thesis by (simp add: trim_prefixes_None)
  next
    case (Some a)
    from "1.IH" [OF Some] obtain t where
      "drop (length a) s = t @ trim_prefixes rs (drop (length a) s)" by blast
    then have "s = (take (length a) s @ t) @ trim_prefixes rs (drop (length a) s)"
      by (metis append.assoc append_take_drop_id)
    then show ?thesis unfolding trim_prefixes_Some [OF Some] by blast
  qed
qed

lemma trim_right_prefix: "\<exists>t. s = trim_right s @ t"
proof -
  obtain t where "rev s = t @ trim_prefixes (map rev space_runes) (rev s)"
    using trim_prefixes_suffix by blast
  then have "s = rev (trim_prefixes (map rev space_runes) (rev s)) @ rev t"
    by (metis rev_append rev_rev_ident)
  then show ?thesis by (auto simp: trim_right_def)
qed

lemma trim_space_idem [simp]: "trim_space (trim_space s) = trim_space s"
proof -
  let ?x = "trim_left s"
  have "trim_left (trim_right ?x) = trim_right ?x"
    unfolding trim_left_def
  proof (rule trim_prefixes_id)
    fix r assume r: "r \<in> set space_runes" "r \<noteq> []"
    obtain t where "?x = trim_right ?x @ t" using trim_right_prefix by blast
    moreover have "\<not> has_prefix ?x r"
      unfolding trim_left_def using r by (rule trim_prefixes_done)
    ultimately show "\<not> has_prefix (trim_right (trim_prefixes space_runes s)) r"
      by (metis append.assoc has_prefix_iff trim_left_def)
  qed
  moreover have "trim_right (trim_right ?x) = trim_right ?x"
    by (simp add: trim_right_def)
  ultimately show ?thesis by (simp add: trim_space_def)
qed

section \<open>Decimal numbers\<close>

definition is_digit :: "char \<Rightarrow> bool" where
  "is_digit c \<longleftrightarrow> 48 \<le> (of_char c :: nat) \<and> (of_char c :: nat) \<le> 57"

definition digit_val :: "char \<Rightarrow> nat" where
  "digit_val c = of_char c - 48"

definition digit_char :: "nat \<Rightarrow> char" where
  "digit_char n = char_of (48 + n)"

text \<open>\<open>strconv.FormatUint(n, 10)\<close>.\<close>

fun format_uint :: "nat \<Rightarrow> string" where
  "format_uint n =
     (if n < 10 then [digit_char n] else format_uint (n div 10) @ [digit_char (n mod 10)])"

declare format_uint.simps [simp del]

text \<open>\<open>strconv.ParseUint(s, 10, bits)\<close>: \<open>None\<close> for a syntax or a range error.\<close>

fun digits_val :: "nat \<Rightarrow> string \<Rightarrow> nat option" where
  "digits_val acc [] = Some acc"
| "digits_val acc (c # cs) =
     (if is_digit c then digits_val (acc * 10 + digit_val c) cs else None)"

definition parse_uint :: "nat \<Rightarrow> string \<Rightarrow> nat option" where
  "parse_uint bits s =
     (if s = [] then None
      else case digits_val 0 s of
          None \<Rightarrow> None
        | Some v \<Rightarrow> if v < 2 ^ bits then Some v else None)"

lemma of_char_digit_char [simp]:
  "n < 10 \<Longrightarrow> (of_char (digit_char n) :: nat) = 48 + n"
  by (simp add: digit_char_def)

lemma digit_char_facts [simp]:
  "n < 10 \<Longrightarrow> is_digit (digit_char n)" "n < 10 \<Longrightarrow> digit_val (digit_char n) = n"
  by (simp_all add: is_digit_def digit_val_def)

lemma digits_val_append:
  "digits_val acc (xs @ ys) = (case digits_val acc xs of None \<Rightarrow> None | Some v \<Rightarrow> digits_val v ys)"
  by (induction xs arbitrary: acc) auto

lemma format_uint_not_Nil [simp]: "format_uint n \<noteq> []"
  by (subst format_uint.simps) simp

lemma format_uint_digits: "c \<in> set (format_uint n) \<Longrightarrow> is_digit c"
proof (induction n rule: format_uint.induct)
  case (1 n)
  then show ?case by (auto simp: format_uint.simps [of n] split: if_splits)
qed

lemma digits_val_format [simp]: "digits_val 0 (format_uint n) = Some n"
proof (induction n rule: format_uint.induct)
  case (1 n)
  then show ?case
    by (auto simp: format_uint.simps [of n] digits_val_append)
qed

lemma parse_uint_format [simp]: "n < 2 ^ bits \<Longrightarrow> parse_uint bits (format_uint n) = Some n"
  by (simp add: parse_uint_def)

lemma parse_uint_range: "parse_uint bits s = Some v \<Longrightarrow> v < 2 ^ bits"
  by (auto simp: parse_uint_def split: if_splits option.splits)

lemma format_uint_inject [simp]: "format_uint m = format_uint n \<longleftrightarrow> m = n"
  by (metis digits_val_format option.inject)

text \<open>Decimal numbers followed by a non-digit are read back unambiguously.\<close>

lemma format_uint_append_inject:
  assumes "format_uint m @ c # xs = format_uint n @ d # ys"
    and "\<not> is_digit c" and "\<not> is_digit d"
  shows "m = n \<and> c = d \<and> xs = ys"
proof -
  have tw: "takeWhile is_digit (format_uint k @ e # zs) = format_uint k" if "\<not> is_digit e" for k e zs
    using that by (simp add: takeWhile_append2 format_uint_digits)
  from tw [OF assms(2), of m xs] tw [OF assms(3), of n ys] assms(1)
  have "format_uint m = format_uint n" by simp
  with assms(1) show ?thesis by simp
qed

section \<open>Case folding\<close>

definition lower_char :: "char \<Rightarrow> char" where
  "lower_char c =
     (if 65 \<le> (of_char c :: nat) \<and> (of_char c :: nat) \<le> 90 then char_of ((of_char c :: nat) + 32)
      else c)"

text \<open>
  \<open>strings.EqualFold(s, t)\<close> for an ASCII \<open>t\<close>: simple folding also identifies \<open>s\<close> with U+017F
  and \<open>k\<close> with U+212A.
\<close>

fun equal_fold :: "string \<Rightarrow> string \<Rightarrow> bool" where
  "equal_fold s [] = (s = [])"
| "equal_fold [] (c # t) = False"
| "equal_fold (x # s) (c # t) =
     (if lower_char x = lower_char c then equal_fold s t
      else if lower_char c = CHR ''s'' \<and> has_prefix (x # s) [CHR 0xC5, CHR 0xBF]
      then equal_fold (drop 1 s) t
      else if lower_char c = CHR ''k'' \<and> has_prefix (x # s) [CHR 0xE2, CHR 0x84, CHR 0xAA]
      then equal_fold (drop 2 s) t
      else False)"

section \<open>Runes\<close>

definition byte_in :: "nat \<Rightarrow> nat \<Rightarrow> char \<Rightarrow> bool" where
  "byte_in lo hi c \<longleftrightarrow> lo \<le> (of_char c :: nat) \<and> (of_char c :: nat) \<le> hi"

text \<open>The bytes the rune at the head takes: an invalid encoding takes one.\<close>

fun rune_len :: "string \<Rightarrow> nat" where
  "rune_len [] = 0"
| "rune_len (a # r) =
     (let cont = byte_in 0x80 0xBF;
          two = (\<lambda>p. case r of b # _ \<Rightarrow> p b | _ \<Rightarrow> False);
          three = (\<lambda>p. case r of b # c # _ \<Rightarrow> p b \<and> cont c | _ \<Rightarrow> False);
          four = (\<lambda>p. case r of b # c # d # _ \<Rightarrow> p b \<and> cont c \<and> cont d | _ \<Rightarrow> False)
      in if byte_in 0xC2 0xDF a \<and> two cont then 2
         else if byte_in 0xE0 0xE0 a \<and> three (byte_in 0xA0 0xBF) then 3
         else if byte_in 0xED 0xED a \<and> three (byte_in 0x80 0x9F) then 3
         else if byte_in 0xE1 0xEF a \<and> \<not> byte_in 0xED 0xED a \<and> three cont then 3
         else if byte_in 0xF0 0xF0 a \<and> four (byte_in 0x90 0xBF) then 4
         else if byte_in 0xF4 0xF4 a \<and> four (byte_in 0x80 0x8F) then 4
         else if byte_in 0xF1 0xF3 a \<and> four cont then 4
         else 1)"

text \<open>\<open>utf8.RuneCountInString\<close>.\<close>

function rune_count :: "string \<Rightarrow> nat" where
  "rune_count [] = 0"
| "rune_count (a # r) = Suc (rune_count (drop (rune_len (a # r)) (a # r)))"
  by pat_completeness auto
termination
  by (relation "measure length") (auto simp: Let_def)

declare rune_len.simps [simp del] rune_count.simps [simp del]

lemma rune_count_le: "rune_count s \<le> length s"
proof (induction s rule: rune_count.induct)
  case (2 a r)
  have "0 < rune_len (a # r)" by (simp add: rune_len.simps Let_def)
  with 2 show ?case by (simp add: rune_count.simps)
qed (simp add: rune_count.simps)

end
