(* ===== verification/Go_Net.thy ===== *)
theory Go_Net
  imports Go_Strings
begin

text \<open>
  The part of Go's \<open>net\<close> package the components call on address strings: \<open>SplitHostPort\<close>,
  \<open>JoinHostPort\<close>, \<open>ParseIP\<close>, \<open>IP.To4\<close>, \<open>IP.To16\<close> and \<open>IP.String\<close>.  An \<open>IP\<close> is its byte
  slice.
\<close>

section \<open>Host and port\<close>

definition index_of :: "char \<Rightarrow> string \<Rightarrow> nat option" where
  "index_of c s =
     (let n = length (takeWhile (\<lambda>x. x \<noteq> c) s) in if n < length s then Some n else None)"

definition last_index_of :: "char \<Rightarrow> string \<Rightarrow> nat option" where
  "last_index_of c s = map_option (\<lambda>n. length s - 1 - n) (index_of c (rev s))"

definition contains_char :: "string \<Rightarrow> char \<Rightarrow> bool" where
  "contains_char s c \<longleftrightarrow> c \<in> set s"

text \<open>\<open>net.SplitHostPort\<close>: \<open>None\<close> stands for the address error.\<close>

definition split_host_port :: "string \<Rightarrow> (string \<times> string) option" where
  "split_host_port hp =
     (case last_index_of CHR '':'' hp of
        None \<Rightarrow> None
      | Some i \<Rightarrow>
          if hd hp = CHR ''['' then
            (case index_of CHR '']'' hp of
               None \<Rightarrow> None
             | Some e \<Rightarrow>
                 if e + 1 = length hp then None
                 else if e + 1 \<noteq> i then None
                 else if contains_char (drop 1 hp) CHR ''['' then None
                 else if contains_char (drop (e + 1) hp) CHR '']'' then None
                 else Some (take (e - 1) (drop 1 hp), drop (i + 1) hp))
          else if contains_char (take i hp) CHR '':'' then None
          else if contains_char hp CHR ''['' then None
          else if contains_char hp CHR '']'' then None
          else Some (take i hp, drop (i + 1) hp))"

definition join_host_port :: "string \<Rightarrow> string \<Rightarrow> string" where
  "join_host_port host port =
     (if contains_char host CHR '':'' then ''['' @ host @ '']:'' @ port
      else host @ '':'' @ port)"

section \<open>IP addresses\<close>

text \<open>\<open>netip.parseIPv4Fields\<close>: \<open>v\<close>, \<open>n\<close> are the value and the digits of the current octet,
  \<open>fs\<close> the octets read so far.\<close>

fun ipv4_fields :: "nat \<Rightarrow> nat \<Rightarrow> byte list \<Rightarrow> string \<Rightarrow> byte list option" where
  "ipv4_fields v n fs [] =
     (if length fs < 3 \<or> n = 0 then None else Some (fs @ [of_nat v]))"
| "ipv4_fields v n fs (c # cs) =
     (if is_digit c then
        (if n = 1 \<and> v = 0 then None
         else let v' = v * 10 + digit_val c in
           if v' > 255 then None else ipv4_fields v' (n + 1) fs cs)
      else if c = CHR ''.'' then
        (if n = 0 \<or> cs = [] \<or> length fs = 3 then None
         else ipv4_fields 0 0 (fs @ [of_nat v]) cs)
      else None)"

definition parse_ipv4 :: "string \<Rightarrow> byte list option" where
  "parse_ipv4 s = ipv4_fields 0 0 [] s"

definition hex_val :: "char \<Rightarrow> nat option" where
  "hex_val c =
     (let n = (of_char c :: nat) in
      if 48 \<le> n \<and> n \<le> 57 then Some (n - 48)
      else if 97 \<le> n \<and> n \<le> 102 then Some (n - 87)
      else if 65 \<le> n \<and> n \<le> 70 then Some (n - 55)
      else None)"

text \<open>One hexadecimal group of at most four digits: digits read, value, rest.\<close>

fun hex_group :: "nat \<Rightarrow> nat \<Rightarrow> string \<Rightarrow> (nat \<times> nat \<times> string) option" where
  "hex_group n acc [] = Some (n, acc, [])"
| "hex_group n acc (c # cs) =
     (case hex_val c of
        None \<Rightarrow> Some (n, acc, c # cs)
      | Some v \<Rightarrow> if n > 3 then None else hex_group (n + 1) (acc * 16 + v) cs)"

text \<open>
  The loop of \<open>netip.parseIPv6\<close>: \<open>ip\<close> holds the bytes written so far, \<open>ell\<close> the position of
  \<open>::\<close>.  Each round writes two bytes, so eight rounds are all there are.
\<close>

fun ipv6_loop :: "nat \<Rightarrow> byte list \<Rightarrow> nat option \<Rightarrow> string \<Rightarrow> (byte list \<times> nat option \<times> string) option" where
  "ipv6_loop 0 ip ell s = Some (ip, ell, s)"
| "ipv6_loop (Suc k) ip ell s =
     (if length ip \<ge> 16 then Some (ip, ell, s)
      else case hex_group 0 0 s of
          None \<Rightarrow> None
        | Some (n, acc, r) \<Rightarrow>
            if n = 0 then None
            else (case r of
                [] \<Rightarrow> Some (ip @ [of_nat (acc div 256), of_nat acc], ell, [])
              | c # r' \<Rightarrow>
                  if c = CHR ''.'' then
                    (if ell = None \<and> length ip \<noteq> 12 then None
                     else if length ip + 4 > 16 then None
                     else case parse_ipv4 s of
                         None \<Rightarrow> None
                       | Some v4 \<Rightarrow> Some (ip @ v4, ell, []))
                  else if c \<noteq> CHR '':'' then None
                  else (let ip' = ip @ [of_nat (acc div 256), of_nat acc] in
                    (case r' of
                       [] \<Rightarrow> None
                     | d # r'' \<Rightarrow>
                         if d = CHR '':'' then
                           (if ell \<noteq> None then None
                            else if r'' = [] then Some (ip', Some (length ip'), [])
                            else ipv6_loop k ip' (Some (length ip')) r'')
                         else ipv6_loop k ip' ell r'))))"

definition parse_ipv6 :: "string \<Rightarrow> byte list option" where
  "parse_ipv6 s0 =
     (let (ell0, s) =
        (if has_prefix s0 ''::'' then (Some 0, drop 2 s0) else (None, s0))
      in if ell0 = Some 0 \<and> s = [] then Some (replicate 16 0)
         else case ipv6_loop 8 [] ell0 s of
             None \<Rightarrow> None
           | Some (ip, ell, r) \<Rightarrow>
               if r \<noteq> [] then None
               else if length ip < 16 then
                 (case ell of
                    None \<Rightarrow> None
                  | Some e \<Rightarrow> Some (take e ip @ replicate (16 - length ip) 0 @ drop e ip))
               else if ell \<noteq> None then None
               else Some ip)"

text \<open>\<open>net.ParseIP\<close>: the 16-byte form; a zone is refused.\<close>

definition parse_ip :: "string \<Rightarrow> byte list option" where
  "parse_ip s =
     (if contains_char s CHR ''%'' then None
      else case find (\<lambda>c. c = CHR ''.'' \<or> c = CHR '':'') s of
          None \<Rightarrow> None
        | Some c \<Rightarrow>
            if c = CHR ''.''
            then map_option (\<lambda>v4. replicate 10 0 @ [255, 255] @ v4) (parse_ipv4 s)
            else parse_ipv6 s)"

definition ip_to4 :: "byte list \<Rightarrow> byte list option" where
  "ip_to4 ip =
     (if length ip = 4 then Some ip
      else if length ip = 16 \<and> take 10 ip = replicate 10 0 \<and> take 2 (drop 10 ip) = [255, 255]
      then Some (drop 12 ip) else None)"

definition ip_to16 :: "byte list \<Rightarrow> byte list option" where
  "ip_to16 ip =
     (if length ip = 4 then Some (replicate 10 0 @ [255, 255] @ ip)
      else if length ip = 16 then Some ip else None)"

definition hex_digit :: "nat \<Rightarrow> char" where
  "hex_digit n = (if n < 10 then char_of (48 + n) else char_of (87 + n))"

fun format_hex :: "nat \<Rightarrow> string" where
  "format_hex n =
     (if n < 16 then [hex_digit n] else format_hex (n div 16) @ [hex_digit (n mod 16)])"

declare format_hex.simps [simp del]

fun ip_groups :: "byte list \<Rightarrow> nat list" where
  "ip_groups (a # b # r) = (unat a * 256 + unat b) # ip_groups r"
| "ip_groups _ = []"

text \<open>The first longest run of at least two zero groups, as start and end.\<close>

definition zero_run :: "nat list \<Rightarrow> nat \<times> nat" where
  "zero_run gs =
     foldl (\<lambda>(s, e) i.
         let j = i + length (takeWhile (\<lambda>g. g = 0) (drop i gs))
         in if 2 \<le> j - i \<and> e - s < j - i then (i, j) else (s, e))
       (255, 255) [0..<8]"

definition ip6_string :: "byte list \<Rightarrow> string" where
  "ip6_string ip =
     (let gs = ip_groups ip; (zs, ze) = zero_run gs;
          sep = (\<lambda>hs. case hs of [] \<Rightarrow> [] | h # t \<Rightarrow> foldl (\<lambda>a x. a @ '':'' @ x) h t)
      in if zs < 8
         then sep (map format_hex (take zs gs)) @ ''::'' @ sep (map format_hex (drop ze gs))
         else sep (map format_hex gs))"

definition ip4_string :: "byte list \<Rightarrow> string" where
  "ip4_string v4 =
     (case map (\<lambda>b. format_uint (unat b)) v4 of
        [] \<Rightarrow> [] | h # t \<Rightarrow> foldl (\<lambda>a x. a @ ''.'' @ x) h t)"

text \<open>\<open>IP.String\<close> for the 4- and 16-byte slices the callers build.\<close>

definition ip_string :: "byte list \<Rightarrow> string" where
  "ip_string ip =
     (if ip = [] then ''<nil>''
      else case ip_to4 ip of
          Some v4 \<Rightarrow> ip4_string v4
        | None \<Rightarrow> ip6_string ip)"

text \<open>\<open>IP.Equal\<close> takes an IPv4 address and its 16-byte form for the same address.\<close>

definition ip_equal :: "byte list \<Rightarrow> byte list \<Rightarrow> bool" where
  "ip_equal a b \<longleftrightarrow>
     (if length a = length b then a = b
      else if length a = 4 \<and> length b = 16 then take 12 b = replicate 10 0 @ [255, 255] \<and> a = drop 12 b
      else if length a = 16 \<and> length b = 4 then take 12 a = replicate 10 0 @ [255, 255] \<and> drop 12 a = b
      else False)"

definition ip_is_unspecified :: "byte list \<Rightarrow> bool" where
  "ip_is_unspecified ip \<longleftrightarrow> ip_equal ip (replicate 10 0 @ [255, 255, 0, 0, 0, 0]) \<or> ip_equal ip (replicate 16 0)"

lemma length_ipv4_fields:
  "ipv4_fields v n fs s = Some r \<Longrightarrow> length fs \<le> 3 \<Longrightarrow> length r = 4"
  by (induction v n fs s rule: ipv4_fields.induct)
     (auto simp: Let_def split: if_splits)

lemma length_parse_ipv4: "parse_ipv4 s = Some r \<Longrightarrow> length r = 4"
  by (auto simp: parse_ipv4_def dest: length_ipv4_fields)

end
