(* ===== verification/Target_Addr.thy ===== *)
theory Target_Addr
  imports Go_Net
begin

text \<open>
  \<open>internal/proxy/target_addr.go\<close>: the address of a SOCKS5 or Shadowsocks request, its text and its
  wire form.  The nil \<open>IP\<close> of a domain address is \<open>[]\<close>.
\<close>

definition socks5_addr_type_ipv4 :: byte where "socks5_addr_type_ipv4 = 1"
definition socks5_addr_type_domain :: byte where "socks5_addr_type_domain = 3"
definition socks5_addr_type_ipv6 :: byte where "socks5_addr_type_ipv6 = 4"

lemmas addr_type_defs = socks5_addr_type_ipv4_def socks5_addr_type_domain_def
  socks5_addr_type_ipv6_def

record target_addr =
  ta_host :: string
  ta_port :: u16
  ta_ip :: "byte list"

definition target_addr_string :: "target_addr \<Rightarrow> string" where
  "target_addr_string t =
     (if ta_ip t \<noteq> [] then join_host_port (ip_string (ta_ip t)) (format_uint (unat (ta_port t)))
      else join_host_port (ta_host t) (format_uint (unat (ta_port t))))"

datatype addr_error = Domain_Too_Long | Unsupported_Addr_Type

definition port_bytes :: "u16 \<Rightarrow> byte list" where
  "port_bytes p = [ucast (drop_bit 8 p), ucast p]"

definition bytes_port :: "byte \<Rightarrow> byte \<Rightarrow> u16" where
  "bytes_port hi lo = or (push_bit 8 (ucast hi)) (ucast lo)"

definition target_addr_to_bytes :: "target_addr \<Rightarrow> addr_error + byte list" where
  "target_addr_to_bytes t =
     (case ip_to4 (ta_ip t) of
        Some ip4 \<Rightarrow> Inr ([socks5_addr_type_ipv4] @ ip4 @ port_bytes (ta_port t))
      | None \<Rightarrow>
          (case (if ta_ip t \<noteq> [] then ip_to16 (ta_ip t) else None) of
             Some ip16 \<Rightarrow> Inr ([socks5_addr_type_ipv6] @ ip16 @ port_bytes (ta_port t))
           | None \<Rightarrow>
               if length (ta_host t) > 255 then Inl Domain_Too_Long
               else Inr ([socks5_addr_type_domain, of_nat (length (ta_host t))]
                      @ bytes_of (ta_host t) @ port_bytes (ta_port t))))"

text \<open>\<open>Inr None\<close>: more bytes are needed.  The number is how many bytes the address took.\<close>

definition read_target_addr :: "byte list \<Rightarrow> byte \<Rightarrow> addr_error + (target_addr \<times> nat) option" where
  "read_target_addr data atyp =
     (if atyp = socks5_addr_type_ipv4 then
        (if length data < 6 then Inr None
         else Inr (Some (\<lparr>ta_host = '''', ta_port = bytes_port (data ! 4) (data ! 5),
                          ta_ip = replicate 10 0 @ [255, 255] @ take 4 data\<rparr>, 6)))
      else if atyp = socks5_addr_type_ipv6 then
        (if length data < 18 then Inr None
         else Inr (Some (\<lparr>ta_host = '''', ta_port = bytes_port (data ! 16) (data ! 17),
                          ta_ip = take 16 data\<rparr>, 18)))
      else if atyp = socks5_addr_type_domain then
        (if length data < 2 then Inr None
         else let sz = unat (data ! 0) in
           if length data < 1 + sz + 2 then Inr None
           else let host = str_of (take sz (drop 1 data)); port_idx = 1 + sz;
                    port = bytes_port (data ! port_idx) (data ! (port_idx + 1)) in
             (case parse_ip host of
                Some ip \<Rightarrow> Inr (Some (\<lparr>ta_host = '''', ta_port = port, ta_ip = ip\<rparr>, 1 + sz + 2))
              | None \<Rightarrow> Inr (Some (\<lparr>ta_host = host, ta_port = port, ta_ip = []\<rparr>, 1 + sz + 2))))
      else Inl Unsupported_Addr_Type)"

lemma bytes_port_bytes [simp]: "bytes_port (ucast (drop_bit 8 p)) (ucast p) = (p :: u16)"
proof (rule bit_word_eqI)
  fix n assume "n < LENGTH(16)"
  then have "n < 8 \<or> (8 \<le> n \<and> n < 16)" by auto
  then show "bit (bytes_port (ucast (drop_bit 8 p)) (ucast p)) n \<longleftrightarrow> bit p n"
    by (auto simp: bytes_port_def bit_simps)
qed

text \<open>The size read is never more than what is there.\<close>

lemma read_target_addr_bound:
  "read_target_addr data atyp = Inr (Some (t, n)) \<Longrightarrow> 0 < n \<and> n \<le> length data"
  by (auto simp: read_target_addr_def Let_def split: if_splits option.splits)

lemma read_target_addr_append:
  assumes "read_target_addr data atyp = Inr (Some (t, n))"
  shows "read_target_addr (data @ r) atyp = Inr (Some (t, n))"
proof -
  have nth: "(data @ r) ! k = data ! k" if "k < length data" for k
    using that by (rule nth_append_left)
  consider (ipv4) "atyp = socks5_addr_type_ipv4" | (ipv6) "atyp = socks5_addr_type_ipv6"
    | (domain) "atyp = socks5_addr_type_domain"
    using assms by (auto simp: read_target_addr_def split: if_splits)
  then show ?thesis
  proof cases
    case domain
    with assms have "2 \<le> length data" "1 + unat (data ! 0) + 2 \<le> length data"
      by (auto simp: read_target_addr_def addr_type_defs Let_def split: if_splits)
    moreover from this have "(data @ r) ! 0 = data ! 0"
      "(data @ r) ! Suc (unat (data ! 0)) = data ! Suc (unat (data ! 0))"
      "(data @ r) ! Suc (Suc (unat (data ! 0))) = data ! Suc (Suc (unat (data ! 0)))"
      by (intro nth; linarith)+
    ultimately show ?thesis
      using domain assms
      by (simp add: read_target_addr_def addr_type_defs Let_def nth cong: option.case_cong)
  qed (use assms in \<open>auto simp: read_target_addr_def addr_type_defs nth split: if_splits\<close>)
qed

lemma read_encoded:
  "length v4 = 4 \<Longrightarrow> read_target_addr (v4 @ port_bytes p @ r) socks5_addr_type_ipv4 =
     Inr (Some (\<lparr>ta_host = '''', ta_port = p, ta_ip = replicate 10 0 @ [255, 255] @ v4\<rparr>, 6))"
  "length v6 = 16 \<Longrightarrow> read_target_addr (v6 @ port_bytes p @ r) socks5_addr_type_ipv6 =
     Inr (Some (\<lparr>ta_host = '''', ta_port = p, ta_ip = v6\<rparr>, 18))"
  "length h \<le> 255 \<Longrightarrow> parse_ip h = None \<Longrightarrow>
     read_target_addr (of_nat (length h) # bytes_of h @ port_bytes p @ r) socks5_addr_type_domain =
     Inr (Some (\<lparr>ta_host = h, ta_port = p, ta_ip = []\<rparr>, length h + 3))"
proof -
  assume "length h \<le> 255" "parse_ip h = None"
  moreover from this have "unat (of_nat (length h) :: byte) = length h" by (simp add: unat_of_nat)
  ultimately show "read_target_addr (of_nat (length h) # bytes_of h @ port_bytes p @ r)
      socks5_addr_type_domain = Inr (Some (\<lparr>ta_host = h, ta_port = p, ta_ip = []\<rparr>, length h + 3))"
    by (simp add: read_target_addr_def addr_type_defs port_bytes_def Let_def nth_append)
qed (simp_all add: read_target_addr_def addr_type_defs port_bytes_def nth_append)

text \<open>A usable address: a domain name that is not the text of an IP address, or an IP address.\<close>

definition good_target :: "target_addr \<Rightarrow> bool" where
  "good_target t \<longleftrightarrow> (length (ta_ip t) \<in> {4, 16} \<and> ta_host t = '''') \<or>
     (ta_ip t = [] \<and> length (ta_host t) \<le> 255 \<and> parse_ip (ta_host t) = None)"

definition canonical_target :: "target_addr \<Rightarrow> target_addr" where
  "canonical_target t = (if ta_ip t = [] then t
     else t\<lparr>ta_ip := (case ip_to16 (ta_ip t) of Some ip \<Rightarrow> ip | None \<Rightarrow> ta_ip t)\<rparr>)"

lemma ip_to4_16:
  assumes "length ip = 16" "ip_to4 ip = Some v4"
  shows "ip = replicate 10 0 @ [255, 255] @ v4"
proof -
  have "ip = take 10 ip @ take 2 (drop 10 ip) @ drop 2 (drop 10 ip)"
    by (simp only: append_take_drop_id)
  with assms show ?thesis by (simp add: ip_to4_def split: if_splits)
qed

lemma ip_to4_length: "ip_to4 ip = Some v4 \<Longrightarrow> length v4 = 4"
  by (auto simp: ip_to4_def split: if_splits)

lemma read_to_bytes:
  assumes "good_target t" "target_addr_to_bytes t = Inr bytes"
  shows "\<exists>atyp addr. bytes = atyp # addr \<and>
    read_target_addr (addr @ rest) atyp = Inr (Some (canonical_target t, length addr))"
proof (cases "ta_ip t = []")
  case True
  with assms(1) have host: "length (ta_host t) \<le> 255" "parse_ip (ta_host t) = None"
    by (auto simp: good_target_def)
  with assms(2) True have "bytes = socks5_addr_type_domain # of_nat (length (ta_host t))
      # bytes_of (ta_host t) @ port_bytes (ta_port t)"
    by (simp add: target_addr_to_bytes_def ip_to4_def)
  moreover have "canonical_target t = \<lparr>ta_host = ta_host t, ta_port = ta_port t, ta_ip = []\<rparr>"
    using True by (simp add: canonical_target_def)
  ultimately show ?thesis
    using read_encoded(3) [OF host, of "ta_port t" rest] by (simp add: port_bytes_def)
next
  case False
  with assms(1) have ip: "length (ta_ip t) = 4 \<or> length (ta_ip t) = 16" "ta_host t = ''''"
    by (auto simp: good_target_def)
  show ?thesis
  proof (cases "ip_to4 (ta_ip t)")
    case (Some v4)
    with ip False have "canonical_target t = \<lparr>ta_host = '''', ta_port = ta_port t,
        ta_ip = replicate 10 0 @ [255, 255] @ v4\<rparr>"
      using ip_to4_16 [OF _ Some]
      by (auto simp: canonical_target_def ip_to16_def ip_to4_def split: if_splits)
    with Some assms(2) read_encoded(1) [OF ip_to4_length [OF Some], of "ta_port t" rest]
      ip_to4_length [OF Some] show ?thesis
      by (auto simp: target_addr_to_bytes_def port_bytes_def)
  next
    case None
    with ip have l: "length (ta_ip t) = 16" by (auto simp: ip_to4_def)
    with ip False have "canonical_target t = \<lparr>ta_host = '''', ta_port = ta_port t, ta_ip = ta_ip t\<rparr>"
      by (simp add: canonical_target_def ip_to16_def)
    with None assms(2) False l read_encoded(2) [OF l, of "ta_port t" rest] show ?thesis
      by (auto simp: target_addr_to_bytes_def ip_to16_def port_bytes_def)
  qed
qed

section \<open>Property\<close>

text \<open>
  C35. An address that \<open>ToBytes\<close> encodes is read back by \<open>ReadTargetAddr\<close>, whatever follows it in
  the buffer, with its exact length; an IPv4 address comes back in its 16-byte form.  A host that
  is the text of an IP address, or longer than 255 bytes, is outside.
\<close>

theorem target_addr_round_trip:
  assumes "good_target t"
  shows "\<exists>atyp addr. target_addr_to_bytes t = Inr (atyp # addr) \<and>
    read_target_addr (addr @ rest) atyp = Inr (Some (canonical_target t, length addr))"
proof -
  have "\<exists>b. target_addr_to_bytes t = Inr b"
    using assms by (auto simp: good_target_def target_addr_to_bytes_def ip_to16_def split: option.split)
  then obtain b where b: "target_addr_to_bytes t = Inr b" by blast
  from read_to_bytes [OF assms b, of rest] b show ?thesis by auto
qed

lemma target_addr_round_trip_witness:
  "\<exists>atyp addr. target_addr_to_bytes \<lparr>ta_host = '''', ta_port = 80, ta_ip = [10, 0, 0, 1]\<rparr> = Inr (atyp # addr) \<and>
    read_target_addr (addr @ [1, 2]) atyp = Inr (Some (\<lparr>ta_host = '''', ta_port = 80,
      ta_ip = [0, 0, 0, 0, 0, 0, 0, 0, 0, 0, 255, 255, 10, 0, 0, 1]\<rparr>, length addr))"
  using target_addr_round_trip [of "\<lparr>ta_host = '''', ta_port = 80, ta_ip = [10, 0, 0, 1]\<rparr>" "[1, 2]"]
  by (simp add: good_target_def canonical_target_def ip_to16_def numeral_eq_Suc)

end
