(* ===== verification/Socks5.thy ===== *)
theory Socks5
  imports Session_Common Target_Addr
begin

text \<open>
  \<open>internal/proxy/context_socks5.go\<close>: the SOCKS5 inlet's state machine.

  The context's state is a record; what it does to the outside (writes to the peer, proxy messages,
  delayed closes, UDP packets) is a list of effects in the order of the calls.  The session's fixed
  data, and how the outside answers (whether a checked write succeeds, the port of a new UDP
  socket, name resolution, random bytes), are the record \<open>socks5_data\<close>.  An operation that waits
  in the flow controller is \<open>None\<close>.
\<close>

section \<open>State\<close>

definition socks5_version :: byte where "socks5_version = 5"
definition socks5_auth_none :: byte where "socks5_auth_none = 0"
definition socks5_auth_password :: byte where "socks5_auth_password = 2"
definition socks5_auth_unavailable :: byte where "socks5_auth_unavailable = 255"
definition socks5_cmd_tcp_connect :: byte where "socks5_cmd_tcp_connect = 1"
definition socks5_cmd_udp_associate :: byte where "socks5_cmd_udp_associate = 3"
definition socks5_max_buffered :: nat where "socks5_max_buffered = 512 * 1024"

lemmas socks5_consts = socks5_version_def socks5_auth_none_def socks5_auth_password_def
  socks5_auth_unavailable_def socks5_cmd_tcp_connect_def socks5_cmd_udp_associate_def

datatype socks5_status = S_Init | S_Verify | S_Connect | S_Connecting | S_Run_TCP | S_Run_UDP | S_Closing

record udp_addr =
  ua_ip :: "byte list"
  ua_port :: u16
  ua_zone :: string

datatype socks5_effect =
    Write_Peer "byte list"
  | Send_Proxy proxy_message
  | Close_Later nat
  | Close_Peer
  | Write_Udp "byte list" udp_addr
  | Close_Udp

datatype socks5_error =
    Handshake_Too_Large
  | Pending_Too_Large
  | Socks5_Addr addr_error
  | Socks5_Common common_error
  | Socks5_Decode crypto_error
  | Socks5_Write
  | Socks5_Resolve

record socks5_data =
  sd_tunnel_id :: u32
  sd_session_id :: u32
  sd_username :: string
  sd_password :: string
  sd_peer :: string
  sd_peer_tcp_ip :: "byte list option"
  sd_crypto :: crypto_env
  sd_random :: "byte list"
  sd_write_ok :: bool
  sd_udp_port :: "u16 option"
  sd_resolve :: "string \<Rightarrow> udp_addr option"

record socks5_context =
  s5_status :: socks5_status
  s5_buffer :: "byte list"
  s5_target :: "target_addr option"
  s5_connect_is_tcp :: bool
  s5_udp_bound :: bool
  s5_udp_target :: "udp_addr option"
  s5_udp_client_ip :: "byte list"
  s5_common :: session_common_info
  s5_out :: "socks5_effect list"

definition new_socks5_context :: "session_common_info \<Rightarrow> socks5_context" where
  "new_socks5_context common =
     \<lparr>s5_status = S_Init, s5_buffer = [], s5_target = None, s5_connect_is_tcp = False,
      s5_udp_bound = False, s5_udp_target = None, s5_udp_client_ip = [], s5_common = common,
      s5_out = []\<rparr>"

definition emit :: "socks5_effect \<Rightarrow> socks5_context \<Rightarrow> socks5_context" where
  "emit e c = c\<lparr>s5_out := s5_out c @ [e]\<rparr>"

section \<open>The handshake\<close>

definition s5_close_later :: "byte list \<Rightarrow> nat \<Rightarrow> socks5_context \<Rightarrow> socks5_context" where
  "s5_close_later reply ms c =
     emit (Close_Later ms) ((emit (Write_Peer reply) c)\<lparr>s5_status := S_Closing\<rparr>)"

definition reply_command_error :: "byte \<Rightarrow> socks5_context \<Rightarrow> socks5_context" where
  "reply_command_error code c =
     s5_close_later [socks5_version, code, 0, 1, 0, 0, 0, 0, 0, 0] 1000 c"

text \<open>The loop over the offered methods stops at the first one the session wants.\<close>

fun choose_method :: "bool \<Rightarrow> byte list \<Rightarrow> byte" where
  "choose_method want_auth [] = socks5_auth_unavailable"
| "choose_method want_auth (m # ms) =
     (if \<not> want_auth \<and> m = socks5_auth_none then socks5_auth_none
      else if want_auth \<and> m = socks5_auth_password then socks5_auth_password
      else choose_method want_auth ms)"

definition wants_auth :: "socks5_data \<Rightarrow> bool" where
  "wants_auth d \<longleftrightarrow> sd_username d \<noteq> '''' \<or> sd_password d \<noteq> ''''"

definition on_init :: "socks5_data \<Rightarrow> socks5_context \<Rightarrow> socks5_context" where
  "on_init d c =
     (let b = s5_buffer c in
      if length b < 3 then c
      else if b ! 0 \<noteq> socks5_version then
        s5_close_later [socks5_version, socks5_auth_unavailable] 10 c
      else let method_count = unat (b ! 1) in
        if length b < 2 + method_count then c
        else let methods = take method_count (drop 2 b);
                 method = choose_method (wants_auth d) methods;
                 c = (emit (Write_Peer [socks5_version, method]) c)\<lparr>s5_buffer := drop (2 + method_count) b\<rparr>
          in if method = socks5_auth_unavailable
             then emit (Close_Later 10) (c\<lparr>s5_status := S_Closing\<rparr>)
             else if method = socks5_auth_none then c\<lparr>s5_status := S_Connect\<rparr>
             else c\<lparr>s5_status := S_Verify\<rparr>)"

definition on_verify :: "socks5_data \<Rightarrow> socks5_context \<Rightarrow> socks5_context" where
  "on_verify d c =
     (let b = s5_buffer c in
      if length b < 5 then c
      else if b ! 0 \<noteq> 1 then s5_close_later [1, 1] 1000 c
      else let ulen = unat (b ! 1) in
        if length b < 2 + ulen + 1 then c
        else let plen_idx = 2 + ulen; plen = unat (b ! plen_idx) in
          if length b < plen_idx + 1 + plen then c
          else let username = str_of (take ulen (drop 2 b));
                   password = str_of (take plen (drop (plen_idx + 1) b));
                   c = c\<lparr>s5_buffer := drop (plen_idx + 1 + plen) b\<rparr>
            in if username = sd_username d \<and> password = sd_password d
               then (emit (Write_Peer [1, 0]) c)\<lparr>s5_status := S_Connect\<rparr>
               else s5_close_later [1, 1] 1000 c)"

definition connect_message :: "socks5_data \<Rightarrow> socks5_context \<Rightarrow> bool \<Rightarrow> target_addr \<Rightarrow> proxy_message" where
  "connect_message d c is_tcp target =
     I2OConnect (sd_tunnel_id d) (sd_session_id d) (ucast mode_socks5) is_tcp
       (sc_is_compressed (s5_common c)) (target_addr_string target) (sc_method (s5_common c))
       (encode_key_to_base64 (sc_key (s5_common c))) (sd_peer d)"

definition on_connect :: "socks5_data \<Rightarrow> socks5_context \<Rightarrow> socks5_error option \<times> socks5_context" where
  "on_connect d c =
     (let b = s5_buffer c in
      if length b < 4 then (None, c)
      else let ver = b ! 0; cmd = b ! 1; rsv = b ! 2; atyp = b ! 3 in
        if ver \<noteq> socks5_version \<or> rsv \<noteq> 0 then (None, reply_command_error 7 c)
        else (case read_target_addr (drop 4 b) atyp of
            Inl e \<Rightarrow> (Some (Socks5_Addr e), c)
          | Inr None \<Rightarrow> (None, c)
          | Inr (Some (target, sz)) \<Rightarrow>
              let c = c\<lparr>s5_buffer := drop (4 + sz) b\<rparr> in
              if cmd = socks5_cmd_tcp_connect then
                (let c = c\<lparr>s5_target := Some target, s5_connect_is_tcp := True,
                           s5_status := S_Connecting\<rparr>
                 in (None, emit (Send_Proxy (connect_message d c True target)) c))
              else if cmd = socks5_cmd_udp_associate then
                (let c = c\<lparr>s5_target := Some target, s5_connect_is_tcp := False,
                           s5_status := S_Connecting\<rparr>
                 in (None, emit (Send_Proxy (connect_message d c False target)) c))
              else (None, reply_command_error 7 c)))"

text \<open>One round of the loop of \<open>processBufferedHandshake\<close>, \<open>None\<close> when the state is not one of the
  handshake; the loop goes on while a round changes the state or takes bytes from the buffer.\<close>

definition handshake_round ::
  "socks5_data \<Rightarrow> socks5_context \<Rightarrow> (socks5_error option \<times> socks5_context) option" where
  "handshake_round d c =
     (case s5_status c of
        S_Init \<Rightarrow> Some (None, on_init d c)
      | S_Verify \<Rightarrow> Some (None, on_verify d c)
      | S_Connect \<Rightarrow> Some (on_connect d c)
      | _ \<Rightarrow> None)"

fun status_rank :: "socks5_status \<Rightarrow> nat" where
  "status_rank S_Init = 0" | "status_rank S_Verify = 1" | "status_rank S_Connect = 2"
| "status_rank _ = 3"

lemma handshake_round_rank:
  assumes "handshake_round d c = Some (None, c')"
    and "\<not> (s5_status c' = s5_status c \<and> length (s5_buffer c') = length (s5_buffer c))"
  shows "3 - status_rank (s5_status c') < 3 - status_rank (s5_status c)"
  using assms
  by (auto simp: handshake_round_def on_init_def on_verify_def on_connect_def Let_def emit_def
      s5_close_later_def reply_command_error_def
      split: socks5_status.splits if_splits sum.splits option.splits prod.splits)

function process_buffered_handshake ::
  "socks5_data \<Rightarrow> socks5_context \<Rightarrow> socks5_error option \<times> socks5_context" where
  "process_buffered_handshake d c =
     (case handshake_round d c of
        None \<Rightarrow> (None, c)
      | Some (Some e, c') \<Rightarrow> (Some e, c')
      | Some (None, c') \<Rightarrow>
          if s5_status c' = s5_status c \<and> length (s5_buffer c') = length (s5_buffer c)
          then (None, c') else process_buffered_handshake d c')"
  by pat_completeness auto
termination
  by (relation "measure (\<lambda>(d, c). 3 - status_rank (s5_status c))")
    (auto dest!: handshake_round_rank)

declare process_buffered_handshake.simps [simp del]

section \<open>Running\<close>

definition send_tcp_payload ::
  "socks5_data \<Rightarrow> byte list \<Rightarrow> socks5_context \<Rightarrow> (socks5_error option \<times> socks5_context) option" where
  "send_tcp_payload d payload c =
     (if length payload = 0 then Some (None, c)
      else (case encode_data_and_limit (sd_crypto d) (s5_common c) (sd_random d) payload of
              None \<Rightarrow> None
            | Some (Inl e, common) \<Rightarrow> Some (Some (Socks5_Common e), c\<lparr>s5_common := common\<rparr>)
            | Some (Inr encoded, common) \<Rightarrow>
                Some (None, emit (Send_Proxy (I2OSendData (sd_tunnel_id d) (sd_session_id d) encoded))
                  (c\<lparr>s5_common := common\<rparr>))))"

definition on_udp_associate_payload ::
  "socks5_data \<Rightarrow> byte list \<Rightarrow> socks5_context \<Rightarrow> (socks5_error option \<times> socks5_context) option" where
  "on_udp_associate_payload d payload c =
     (if length payload < 11 then Some (None, c)
      else if payload ! 0 \<noteq> 0 \<or> payload ! 1 \<noteq> 0 \<or> payload ! 2 \<noteq> 0 then Some (None, c)
      else (case read_target_addr (drop 4 payload) (payload ! 3) of
              Inl e \<Rightarrow> Some (Some (Socks5_Addr e), c)
            | Inr None \<Rightarrow> Some (None, c)
            | Inr (Some (target, sz)) \<Rightarrow>
                (case encode_data_and_limit (sd_crypto d) (s5_common c) (sd_random d)
                        (drop (4 + sz) payload) of
                   None \<Rightarrow> None
                 | Some (Inl e, common) \<Rightarrow> Some (Some (Socks5_Common e), c\<lparr>s5_common := common\<rparr>)
                 | Some (Inr encoded, common) \<Rightarrow>
                     Some (None, emit (Send_Proxy (I2OSendToData (sd_tunnel_id d) (sd_session_id d)
                       encoded (target_addr_string target))) (c\<lparr>s5_common := common\<rparr>)))))"

definition on_peer_data ::
  "socks5_data \<Rightarrow> byte list \<Rightarrow> socks5_context \<Rightarrow> (socks5_error option \<times> socks5_context) option" where
  "on_peer_data d payload c =
     (case s5_status c of
        S_Run_TCP \<Rightarrow> send_tcp_payload d payload c
      | S_Run_UDP \<Rightarrow> on_udp_associate_payload d payload c
      | S_Closing \<Rightarrow> Some (None, c)
      | S_Connecting \<Rightarrow>
          if length (s5_buffer c) + length payload > socks5_max_buffered
          then Some (Some Pending_Too_Large, c)
          else Some (None, c\<lparr>s5_buffer := s5_buffer c @ payload\<rparr>)
      | _ \<Rightarrow>
          if length (s5_buffer c) + length payload > socks5_max_buffered
          then Some (Some Handshake_Too_Large, c)
          else Some (process_buffered_handshake d (c\<lparr>s5_buffer := s5_buffer c @ payload\<rparr>)))"

definition bind_udp_associate :: "socks5_data \<Rightarrow> socks5_context \<Rightarrow> socks5_error option \<times> socks5_context" where
  "bind_udp_associate d c =
     (case sd_udp_port d of
        None \<Rightarrow> (None, reply_command_error 4 c)
      | Some port \<Rightarrow>
          let c = c\<lparr>s5_udp_bound := True, s5_status := S_Run_UDP\<rparr>;
              c = (case sd_peer_tcp_ip d of None \<Rightarrow> c | Some ip \<Rightarrow> c\<lparr>s5_udp_client_ip := ip\<rparr>);
              c = emit (Write_Peer ([socks5_version, 0, 0, 1, 0, 0, 0, 0] @ port_bytes port)) c
          in (if sd_write_ok d then None else Some Socks5_Write, c))"

definition on_connect_reply ::
  "socks5_data \<Rightarrow> bool \<Rightarrow> socks5_context \<Rightarrow> (socks5_error option \<times> socks5_context) option" where
  "on_connect_reply d success c =
     (if \<not> success then Some (None, reply_command_error 4 c)
      else if s5_target c = None then Some (None, c)
      else if s5_status c \<noteq> S_Connecting then Some (None, c)
      else if s5_connect_is_tcp c then
        (let c = emit (Write_Peer [socks5_version, 0, 0, 1, 0, 0, 0, 0, 0, 0]) (c\<lparr>s5_status := S_Run_TCP\<rparr>)
         in if \<not> sd_write_ok d then Some (Some Socks5_Write, c)
            else let pending = s5_buffer c in send_tcp_payload d pending (c\<lparr>s5_buffer := []\<rparr>))
      else Some (bind_udp_associate d (c\<lparr>s5_buffer := []\<rparr>)))"

definition accept_udp_client_addr :: "udp_addr option \<Rightarrow> socks5_context \<Rightarrow> bool \<times> socks5_context" where
  "accept_udp_client_addr addr c =
     (case addr of
        None \<Rightarrow> (False, c)
      | Some a \<Rightarrow>
          if length (s5_udp_client_ip c) > 0 \<and> \<not> ip_is_unspecified (s5_udp_client_ip c) \<and>
             \<not> ip_equal (ua_ip a) (s5_udp_client_ip c) then (False, c)
          else (case s5_udp_target c of
                  None \<Rightarrow> (True, c\<lparr>s5_udp_target := Some a\<rparr>)
                | Some t \<Rightarrow> (ua_port a = ua_port t \<and> ua_zone a = ua_zone t \<and> ip_equal (ua_ip a) (ua_ip t), c)))"

text \<open>One packet of the loop of \<open>readUDPAssociate\<close>; the error of the handler is dropped.\<close>

definition read_udp_associate ::
  "socks5_data \<Rightarrow> udp_addr option \<Rightarrow> byte list \<Rightarrow> socks5_context \<Rightarrow> socks5_context option" where
  "read_udp_associate d addr packet c =
     (case accept_udp_client_addr addr c of (ok, c) \<Rightarrow>
        if \<not> ok then Some c else map_option snd (on_udp_associate_payload d packet c))"

definition on_proxy_message ::
  "socks5_data \<Rightarrow> proxy_message \<Rightarrow> socks5_context \<Rightarrow> (socks5_error option \<times> socks5_context) option" where
  "on_proxy_message d message c =
     (case message of
        O2IConnect t i success e \<Rightarrow> on_connect_reply d success c
      | O2IRecvData t i data \<Rightarrow>
          (case decode_data (sd_crypto d) (s5_common c) data of
             Inl e \<Rightarrow> Some (Some (Socks5_Decode e), c)
           | Inr decoded \<Rightarrow>
               let c = emit (Write_Peer decoded) c in
               if sd_write_ok d
               then Some (None, emit (Send_Proxy (I2ORecvDataResult (sd_tunnel_id d) i (of_nat (length data)))) c)
               else Some (Some Socks5_Write, c))
      | O2IRecvDataFrom t i data remote_addr \<Rightarrow>
          if \<not> s5_udp_bound c then Some (None, c)
          else (case s5_udp_target c of
             None \<Rightarrow> Some (None, c)
           | Some udp_target \<Rightarrow>
               (case decode_data (sd_crypto d) (s5_common c) data of
                  Inl e \<Rightarrow> Some (Some (Socks5_Decode e), c)
                | Inr decoded \<Rightarrow>
                    (case sd_resolve d remote_addr of
                       None \<Rightarrow> Some (Some Socks5_Resolve, c)
                     | Some remote \<Rightarrow>
                         (case target_addr_to_bytes \<lparr>ta_host = '''', ta_port = ua_port remote, ta_ip = ua_ip remote\<rparr> of
                            Inl e \<Rightarrow> Some (Some (Socks5_Addr e), c)
                          | Inr addr_bytes \<Rightarrow>
                              let c = emit (Write_Udp ([0, 0, 0] @ addr_bytes @ decoded) udp_target) c in
                              if sd_write_ok d
                              then Some (None, emit (Send_Proxy (I2ORecvDataResult (sd_tunnel_id d) i
                                     (of_nat (length data)))) c)
                              else Some (Some Socks5_Write, c)))))
      | O2IDisconnect t i \<Rightarrow> Some (None, emit Close_Peer c)
      | _ \<Rightarrow> Some (None, c))"

definition on_stop :: "socks5_data \<Rightarrow> socks5_context \<Rightarrow> socks5_context" where
  "on_stop d c =
     (let c = (if s5_udp_bound c then emit Close_Udp c else c) in
      emit (Send_Proxy (I2ODisconnect (sd_tunnel_id d) (sd_session_id d))) c)"

section \<open>Runs of the context\<close>

text \<open>
  A run: the bytes the peer has sent so far, the last error, the state.  The inlet closes a session
  whose handler fails, so a run goes on only from \<open>None\<close>.
\<close>

inductive socks5_run ::
  "socks5_data \<Rightarrow> session_common_info \<Rightarrow> byte list \<Rightarrow> socks5_error option \<Rightarrow> socks5_context \<Rightarrow> bool"
  for d common where
  start: "socks5_run d common [] None (new_socks5_context common)"
| peer: "socks5_run d common s None c \<Longrightarrow> on_peer_data d payload c = Some (e, c') \<Longrightarrow>
    socks5_run d common (s @ payload) e c'"
| proxy: "socks5_run d common s None c \<Longrightarrow> on_proxy_message d m c = Some (e, c') \<Longrightarrow>
    socks5_run d common s e c'"
| udp: "socks5_run d common s None c \<Longrightarrow> s5_udp_bound c \<Longrightarrow>
    read_udp_associate d addr packet c = Some c' \<Longrightarrow> socks5_run d common s None c'"

text \<open>What goes to the outlet on behalf of the peer.\<close>

fun outbound :: "proxy_message \<Rightarrow> bool" where
  "outbound (I2OConnect _ _ _ _ _ _ _ _ _) = True"
| "outbound (I2OSendData _ _ _) = True"
| "outbound (I2OSendToData _ _ _ _) = True"
| "outbound _ = False"

definition sends_outbound :: "socks5_context \<Rightarrow> bool" where
  "sends_outbound c \<longleftrightarrow> (\<exists>m. Send_Proxy m \<in> set (s5_out c) \<and> outbound m)"

definition greeting :: "byte list \<Rightarrow> byte list" where
  "greeting ms = [socks5_version, of_nat (length ms)] @ ms"

definition credentials :: "string \<Rightarrow> string \<Rightarrow> byte list" where
  "credentials u p = [1, of_nat (length u)] @ bytes_of u @ [of_nat (length p)] @ bytes_of p"

definition authorised :: "socks5_data \<Rightarrow> byte list \<Rightarrow> bool" where
  "authorised d s \<longleftrightarrow> wants_auth d \<longrightarrow>
     (\<exists>ms rest. s = greeting ms @ credentials (sd_username d) (sd_password d) @ rest \<and>
        socks5_auth_password \<in> set ms)"

definition socks5_inv :: "socks5_data \<Rightarrow> byte list \<Rightarrow> socks5_context \<Rightarrow> bool" where
  "socks5_inv d s c \<longleftrightarrow>
     (s5_status c = S_Init \<longrightarrow> s = s5_buffer c) \<and>
     (s5_status c = S_Verify \<longrightarrow>
        (\<exists>ms. s = greeting ms @ s5_buffer c \<and> socks5_auth_password \<in> set ms)) \<and>
     (s5_status c \<notin> {S_Init, S_Verify, S_Closing} \<or> sends_outbound c \<or> s5_udp_bound c \<longrightarrow>
        authorised d s)"

lemma authorised_append: "authorised d s \<Longrightarrow> authorised d (s @ t)"
  unfolding authorised_def by (metis append_assoc)

lemma choose_method_cases:
  "choose_method False ms \<in> {0, 255}"
  "choose_method True ms = (if 2 \<in> set ms then 2 else 255)"
  by (induction ms) (simp_all add: socks5_consts)

lemma choose_method_in:
  "choose_method w ms = 0 \<Longrightarrow> \<not> w" "choose_method w ms \<noteq> 0 \<Longrightarrow> choose_method w ms \<noteq> 255 \<Longrightarrow> 2 \<in> set ms"
  using choose_method_cases [of ms] by (cases w; force split: if_splits)+

lemma split_greeting:
  assumes "\<not> length b < 3" "b ! 0 = socks5_version" "\<not> length b < 2 + unat (b ! 1)"
  shows "b = greeting (take (unat (b ! 1)) (drop 2 b)) @ drop (2 + unat (b ! 1)) b"
proof -
  obtain x y r where b: "b = x # y # r" using assms(1) by (cases b; cases "tl b") auto
  with assms have "length (take (unat y) r) = unat y" by simp
  with b assms(2) show ?thesis by (simp add: greeting_def)
qed

lemma split_credentials:
  assumes "b ! 0 = 1" "\<not> length b < 5" "\<not> length b < 2 + unat (b ! 1) + 1"
    "\<not> length b < 2 + unat (b ! 1) + 1 + unat (b ! (2 + unat (b ! 1)))"
  shows "b = credentials (str_of (take (unat (b ! 1)) (drop 2 b)))
      (str_of (take (unat (b ! (2 + unat (b ! 1)))) (drop (2 + unat (b ! 1) + 1) b)))
    @ drop (2 + unat (b ! 1) + 1 + unat (b ! (2 + unat (b ! 1)))) b"
proof -
  obtain x y r where b: "b = x # y # r" using assms(2) by (cases b; cases "tl b") auto
  with assms have len: "unat y < length r" by simp
  define q where "q = drop (Suc (unat y)) r"
  from len have r: "r = take (unat y) r @ (r ! unat y) # q"
    by (simp add: q_def id_take_nth_drop)
  have "length q = length r - Suc (unat y)" by (simp add: q_def)
  with assms b have "unat (r ! unat y) \<le> length q" by simp
  then have "length (take (unat (r ! unat y)) q) = unat (r ! unat y)" by simp
  moreover from len have "length (take (unat y) r) = unat y" by simp
  moreover have "drop (Suc (unat y + unat (r ! unat y))) r = drop (unat (r ! unat y)) q"
    by (simp add: q_def add.commute)
  moreover from r have "take (unat y) r @ (r ! unat y) # take (unat (r ! unat y)) q @
      drop (unat (r ! unat y)) q = r" by simp
  ultimately show ?thesis
    using b assms(1) by (simp add: credentials_def q_def [symmetric])
qed

lemma on_init_inv:
  assumes "socks5_inv d s c" "s5_status c = S_Init"
  shows "socks5_inv d s (on_init d c)"
proof -
  let ?b = "s5_buffer c" and ?n = "unat (s5_buffer c ! 1)"
  let ?m = "choose_method (wants_auth d) (take ?n (drop 2 ?b))"
  from assms have s: "s = ?b" by (simp add: socks5_inv_def)
  show ?thesis
  proof (cases "length ?b < 3 \<or> ?b ! 0 \<noteq> socks5_version \<or> length ?b < 2 + ?n")
    case True
    with assms show ?thesis
      by (auto simp: on_init_def socks5_inv_def s5_close_later_def emit_def sends_outbound_def Let_def)
  next
    case False
    then have "?b = greeting (take ?n (drop 2 ?b)) @ drop (2 + ?n) ?b"
      by (intro split_greeting) simp_all
    then have "?m \<noteq> 0 \<Longrightarrow> ?m \<noteq> 255 \<Longrightarrow> \<exists>ms. s = greeting ms @ drop (2 + ?n) ?b \<and> socks5_auth_password \<in> set ms"
      using choose_method_in(2) s by (auto simp: socks5_auth_password_def)
    moreover have "?m = 0 \<Longrightarrow> authorised d s"
      by (frule choose_method_in(1)) (simp add: authorised_def)
    ultimately show ?thesis
      using assms False
      by (auto simp: on_init_def socks5_inv_def emit_def sends_outbound_def Let_def
          socks5_auth_none_def socks5_auth_unavailable_def)
  qed
qed

lemma on_verify_inv:
  assumes "socks5_inv d s c" "s5_status c = S_Verify"
  shows "socks5_inv d s (on_verify d c)"
proof -
  let ?b = "s5_buffer c" and ?u = "unat (s5_buffer c ! 1)"
  let ?p = "unat (?b ! (2 + ?u))"
  from assms obtain ms where s: "s = greeting ms @ ?b" "socks5_auth_password \<in> set ms"
    by (auto simp: socks5_inv_def)
  show ?thesis
  proof (cases "length ?b < 5 \<or> ?b ! 0 \<noteq> 1 \<or> length ?b < 2 + ?u + 1 \<or> length ?b < 2 + ?u + 1 + ?p")
    case True
    with assms show ?thesis
      by (auto simp: on_verify_def socks5_inv_def s5_close_later_def emit_def sends_outbound_def Let_def)
  next
    case False
    then have "?b = credentials (str_of (take ?u (drop 2 ?b))) (str_of (take ?p (drop (2 + ?u + 1) ?b)))
        @ drop (2 + ?u + 1 + ?p) ?b"
      by (intro split_credentials) simp_all
    with s have "str_of (take ?u (drop 2 ?b)) = sd_username d \<Longrightarrow>
        str_of (take ?p (drop (2 + ?u + 1) ?b)) = sd_password d \<Longrightarrow> authorised d s"
      unfolding authorised_def by metis
    with assms False show ?thesis
      by (auto simp: on_verify_def socks5_inv_def s5_close_later_def emit_def sends_outbound_def
          Let_def)
  qed
qed

text \<open>From \<open>S_Connect\<close> on the peer is authorised, and stays so.\<close>

lemma on_connect_inv:
  assumes "socks5_inv d s c" "s5_status c = S_Connect" "on_connect d c = (e, c')"
  shows "socks5_inv d s c'"
proof -
  from assms have "authorised d s" by (simp add: socks5_inv_def)
  moreover from assms(2,3) have "s5_status c' \<notin> {S_Init, S_Verify}"
    by (auto simp: on_connect_def Let_def emit_def s5_close_later_def reply_command_error_def
        split: if_splits sum.splits option.splits prod.splits)
  ultimately show ?thesis by (simp add: socks5_inv_def)
qed

lemma process_inv:
  "socks5_inv d s c \<Longrightarrow> process_buffered_handshake d c = (e, c') \<Longrightarrow> socks5_inv d s c'"
proof (induction d c arbitrary: e c' rule: process_buffered_handshake.induct)
  case (1 d c)
  have round: "socks5_inv d s c1" if "handshake_round d c = Some (e1, c1)" for e1 c1
    using that 1(2)
    by (auto simp: handshake_round_def intro: on_init_inv on_verify_inv on_connect_inv
        split: socks5_status.splits)
  show ?case
  proof (cases "handshake_round d c")
    case None
    with 1 show ?thesis by (simp add: process_buffered_handshake.simps [of d c])
  next
    case (Some r)
    obtain e1 c1 where r: "r = (e1, c1)" by (cases r)
    with Some round have "socks5_inv d s c1" by simp
    with 1(1) [OF Some r [symmetric]] 1(3) Some r show ?thesis
      by (auto simp: process_buffered_handshake.simps [of d c] split: option.splits if_splits)
  qed
qed

text \<open>Past the handshake the invariant only says that the peer is authorised.\<close>

lemma authorised_inv:
  "authorised d s \<Longrightarrow> s5_status c \<notin> {S_Init, S_Verify} \<Longrightarrow> socks5_inv d s c"
  by (simp add: socks5_inv_def)

lemma inv_authorised:
  "socks5_inv d s c \<Longrightarrow> s5_status c \<notin> {S_Init, S_Verify, S_Closing} \<Longrightarrow> authorised d s"
  by (simp add: socks5_inv_def)

lemma inv_outbound: "socks5_inv d s c \<Longrightarrow> sends_outbound c \<Longrightarrow> authorised d s"
  by (simp add: socks5_inv_def)

lemma send_status:
  "send_tcp_payload d p c = Some (e, c') \<Longrightarrow> s5_status c' = s5_status c"
  "on_udp_associate_payload d p c = Some (e, c') \<Longrightarrow> s5_status c' = s5_status c"
  by (auto simp: send_tcp_payload_def on_udp_associate_payload_def emit_def
      split: if_splits option.splits sum.splits prod.splits)

lemma inv_buffer: "socks5_inv d s c \<Longrightarrow> socks5_inv d (s @ p) (c\<lparr>s5_buffer := s5_buffer c @ p\<rparr>)"
  using authorised_append [of d s p] by (auto simp: socks5_inv_def sends_outbound_def)

lemma inv_closing: "socks5_inv d s c \<Longrightarrow> s5_status c = S_Closing \<Longrightarrow> socks5_inv d (s @ p) c"
  using authorised_append [of d s p] by (auto simp: socks5_inv_def)

text \<open>A call that fails because the buffer is full leaves the state as it was.\<close>

lemma on_peer_data_inv:
  assumes inv: "socks5_inv d s c" and call: "on_peer_data d p c = Some (e, c')"
  shows "(e \<noteq> None \<and> c' = c) \<or> socks5_inv d (s @ p) c'"
proof (cases "s5_status c")
  case S_Run_TCP
  then have "authorised d (s @ p)" using inv_authorised [OF inv] authorised_append by simp
  with S_Run_TCP call show ?thesis
    by (auto simp: on_peer_data_def intro!: authorised_inv dest: send_status)
next
  case S_Run_UDP
  then have "authorised d (s @ p)" using inv_authorised [OF inv] authorised_append by simp
  with S_Run_UDP call show ?thesis
    by (auto simp: on_peer_data_def intro!: authorised_inv dest: send_status)
next
  case S_Closing
  with call inv_closing [OF inv S_Closing] show ?thesis by (simp add: on_peer_data_def)
next
  case S_Connecting
  with call inv_buffer [OF inv] show ?thesis by (auto simp: on_peer_data_def split: if_splits)
qed (use call process_inv [OF inv_buffer [OF inv, of p]] in
    \<open>auto simp: on_peer_data_def split: if_splits\<close>)

lemma on_connect_reply_inv:
  assumes inv: "socks5_inv d s c" and call: "on_connect_reply d ok c = Some (e, c')"
  shows "socks5_inv d s c'"
proof (cases "ok \<and> s5_target c \<noteq> None \<and> s5_status c = S_Connecting")
  case True
  then have "authorised d s" using inv_authorised [OF inv] by simp
  moreover have "s5_status c' \<notin> {S_Init, S_Verify}"
    using call True
    by (auto simp: on_connect_reply_def bind_udp_associate_def emit_def reply_command_error_def
        s5_close_later_def Let_def split: if_splits option.splits dest!: send_status)
  ultimately show ?thesis by (rule authorised_inv)
next
  case False
  with inv call show ?thesis
    by (auto simp: on_connect_reply_def reply_command_error_def s5_close_later_def emit_def
        socks5_inv_def sends_outbound_def split: if_splits)
qed

lemma sends_outbound_emit:
  "sends_outbound (emit e c) \<longleftrightarrow> sends_outbound c \<or> (\<exists>m. e = Send_Proxy m \<and> outbound m)"
  by (auto simp: sends_outbound_def emit_def)

lemma inv_emit:
  "socks5_inv d s c \<Longrightarrow> (\<And>m. e = Send_Proxy m \<Longrightarrow> \<not> outbound m) \<Longrightarrow> socks5_inv d s (emit e c)"
  unfolding socks5_inv_def sends_outbound_emit by (auto simp: emit_def)

lemma on_proxy_message_inv:
  assumes inv: "socks5_inv d s c" and call: "on_proxy_message d m c = Some (e, c')"
  shows "socks5_inv d s c'"
proof (cases m)
  case (O2IConnect t i ok err)
  with call on_connect_reply_inv [OF inv] show ?thesis by (simp add: on_proxy_message_def)
qed (use inv call in \<open>auto simp: on_proxy_message_def Let_def
    split: if_splits option.splits sum.splits intro!: inv_emit\<close>)

lemma accept_udp_frame:
  "accept_udp_client_addr addr c = (ok, c') \<Longrightarrow>
     s5_status c' = s5_status c \<and> s5_out c' = s5_out c \<and> s5_udp_bound c' = s5_udp_bound c \<and>
     s5_buffer c' = s5_buffer c"
  by (auto simp: accept_udp_client_addr_def split: option.splits if_splits)

lemma read_udp_inv:
  assumes inv: "socks5_inv d s c" and "s5_udp_bound c"
    and call: "read_udp_associate d addr p c = Some c'"
  shows "socks5_inv d s c'"
proof -
  obtain ok c1 where acc: "accept_udp_client_addr addr c = (ok, c1)"
    by (cases "accept_udp_client_addr addr c")
  have auth: "authorised d s" using assms(1,2) by (simp add: socks5_inv_def)
  have inv1: "socks5_inv d s c1"
    using inv accept_udp_frame [OF acc] by (simp add: socks5_inv_def sends_outbound_def)
  from call acc consider "c' = c1" | e where "on_udp_associate_payload d p c1 = Some (e, c')"
    by (auto simp: read_udp_associate_def split: if_splits)
  then show ?thesis
  proof cases
    case 2
    have "s5_buffer c' = s5_buffer c1"
      using 2 by (auto simp: on_udp_associate_payload_def emit_def
          split: if_splits option.splits sum.splits prod.splits)
    with send_status(2) [OF 2] inv1 auth show ?thesis by (simp add: socks5_inv_def)
  qed (simp add: inv1)
qed

lemma socks5_run_safe:
  "socks5_run d common s e c \<Longrightarrow>
     (e = None \<longrightarrow> socks5_inv d s c) \<and> (sends_outbound c \<longrightarrow> authorised d s)"
proof (induction rule: socks5_run.induct)
  case start
  show ?case by (simp add: socks5_inv_def sends_outbound_def new_socks5_context_def)
next
  case (peer s c payload e c')
  then have "socks5_inv d s c" by simp
  from on_peer_data_inv [OF this peer.hyps(2)] show ?case
    using peer.IH authorised_append [of d s payload] by (auto dest: inv_outbound)
next
  case (proxy s c m e c')
  then have "socks5_inv d s c" by simp
  from on_proxy_message_inv [OF this proxy.hyps(2)] show ?case by (auto dest: inv_outbound)
next
  case (udp s c addr packet c')
  then have "socks5_inv d s c" by simp
  from read_udp_inv [OF this udp.hyps(2,3)] show ?case by (auto dest: inv_outbound)
qed

section \<open>What a whole handshake does\<close>

lemma on_init_greeting:
  assumes "s5_status c = S_Init" "s5_buffer c = greeting ms @ rest" "length ms \<le> 255"
    "\<not> wants_auth d" "socks5_auth_none \<in> set ms"
  shows "on_init d c = (emit (Write_Peer [5, 0]) c)\<lparr>s5_buffer := rest, s5_status := S_Connect\<rparr>"
proof -
  have "choose_method False ms = 0" using assms(5)
    by (induction ms) (auto simp: socks5_auth_none_def socks5_auth_password_def)
  moreover have "unat (of_nat (length ms) :: byte) = length ms"
    using assms(3) by (simp add: unat_of_nat)
  moreover have "ms \<noteq> []" using assms(5) by auto
  then have "\<not> length (s5_buffer c) < 3" using assms(2) by (cases ms) (simp_all add: greeting_def)
  ultimately show ?thesis
    using assms by (simp add: on_init_def greeting_def Let_def socks5_consts emit_def)
qed

lemma on_connect_request:
  assumes "s5_status c = S_Connect" "s5_buffer c = [5, 1, 0] @ atyp # addr @ rest"
    "read_target_addr (addr @ rest) atyp = Inr (Some (t, length addr))"
  shows "on_connect d c = (None, emit (Send_Proxy (connect_message d c True t))
     (c\<lparr>s5_buffer := rest, s5_target := Some t, s5_connect_is_tcp := True, s5_status := S_Connecting\<rparr>))"
proof -
  have "drop (4 + length addr) ([5, 1, 0] @ atyp # addr @ rest) = rest"
    by (simp add: drop_drop [symmetric] add.commute del: drop_drop)
  with assms show ?thesis
    by (simp add: on_connect_def Let_def socks5_consts connect_message_def)
qed

lemma handshake_pipelined:
  assumes "\<not> wants_auth d" "length ms \<le> 255" "socks5_auth_none \<in> set ms"
    and "read_target_addr (addr @ payload) atyp = Inr (Some (t, length addr))"
  shows "process_buffered_handshake d ((new_socks5_context common)\<lparr>s5_buffer :=
       greeting ms @ [5, 1, 0] @ atyp # addr @ payload\<rparr>) =
    (None, (new_socks5_context common)\<lparr>s5_status := S_Connecting, s5_buffer := payload, s5_target := Some t,
       s5_connect_is_tcp := True, s5_out := [Write_Peer [5, 0],
         Send_Proxy (connect_message d (new_socks5_context common) True t)]\<rparr>)"
proof -
  let ?c0 = "(new_socks5_context common)\<lparr>s5_buffer := greeting ms @ [5, 1, 0] @ atyp # addr @ payload\<rparr>"
  let ?c1 = "(emit (Write_Peer [5, 0]) ?c0)\<lparr>s5_buffer := [5, 1, 0] @ atyp # addr @ payload, s5_status := S_Connect\<rparr>"
  let ?c2 = "emit (Send_Proxy (connect_message d ?c1 True t))
     (?c1\<lparr>s5_buffer := payload, s5_target := Some t, s5_connect_is_tcp := True, s5_status := S_Connecting\<rparr>)"
  have new: "s5_status (new_socks5_context common) = S_Init" by (simp add: new_socks5_context_def)
  then have init: "s5_status ?c0 = S_Init" by simp
  have "on_init d ?c0 = ?c1"
    by (rule on_init_greeting [OF init _ assms(2,1,3)]) simp
  moreover have "on_connect d ?c1 = (None, ?c2)"
    by (rule on_connect_request [OF _ _ assms(4)]) (simp_all add: emit_def)
  ultimately have "process_buffered_handshake d ?c0 = (None, ?c2)"
    by (simp add: process_buffered_handshake.simps handshake_round_def emit_def new)
  also have "?c2 = (new_socks5_context common)\<lparr>s5_status := S_Connecting, s5_buffer := payload,
       s5_target := Some t, s5_connect_is_tcp := True, s5_out := [Write_Peer [5, 0],
         Send_Proxy (connect_message d (new_socks5_context common) True t)]\<rparr>"
    by (simp add: emit_def new_socks5_context_def connect_message_def)
  finally show ?thesis .
qed

section \<open>Properties\<close>

text \<open>
  C10. No connection without the credentials: if the tunnel has a user name or a password, then in
  every run of the context (any split of the peer's bytes, any replies and UDP packets in between)
  nothing is sent to the outlet on the peer's behalf unless the peer's bytes begin with a greeting
  that offers password authentication followed by exactly that user name and password.
\<close>

theorem socks5_requires_credentials:
  assumes "socks5_run d common s e c" and "sends_outbound c" and "wants_auth d"
  shows "\<exists>ms rest. s = greeting ms @ credentials (sd_username d) (sd_password d) @ rest \<and>
    socks5_auth_password \<in> set ms"
  using socks5_run_safe [OF assms(1)] assms(2,3) by (auto simp: authorised_def)

definition example_data :: "string \<Rightarrow> string \<Rightarrow> socks5_data" where
  "example_data u p =
     \<lparr>sd_tunnel_id = 7, sd_session_id = 9, sd_username = u, sd_password = p, sd_peer = ''1.2.3.4:5'',
      sd_peer_tcp_ip = None, sd_crypto = example_crypto, sd_random = [], sd_write_ok = True,
      sd_udp_port = None, sd_resolve = (\<lambda>_. None)\<rparr>"

definition example_common :: session_common_info where
  "example_common = new_session_common_info False encryption_none []"

lemma socks5_requires_credentials_witness:
  "\<exists>ms rest. [5, 1, 2, 1, 1, 117, 1, 112, 5, 1, 0, 1, 10, 0, 0, 1, 0, 80] =
      greeting ms @ credentials ''u'' ''p'' @ rest \<and> socks5_auth_password \<in> set ms"
proof -
  let ?d = "example_data ''u'' ''p''"
  let ?s = "[5, 1, 2, 1, 1, 117, 1, 112, 5, 1, 0, 1, 10, 0, 0, 1, 0, 80] :: byte list"
  have chars: "char_of (117 :: nat) = CHR ''u''" "char_of (112 :: nat) = CHR ''p''"
    by code_simp+
  obtain e c where call: "on_peer_data ?d ?s (new_socks5_context example_common) = Some (e, c)"
    "sends_outbound c"
    by (simp add: on_peer_data_def new_socks5_context_def socks5_max_buffered_def
        process_buffered_handshake.simps handshake_round_def on_init_def on_verify_def on_connect_def
        socks5_consts emit_def Let_def wants_auth_def example_data_def read_target_addr_def
        addr_type_defs sends_outbound_def connect_message_def str_of_def chars)
  have "socks5_run ?d example_common ([] @ ?s) e c"
    by (rule socks5_run.peer [OF socks5_run.start call(1)])
  from socks5_requires_credentials [OF this call(2)] show ?thesis
    by (simp add: wants_auth_def example_data_def)
qed

text \<open>
  A pipelined request is served: a peer of a tunnel without credentials that sends greeting, TCP
  connect request and payload at once gets the method reply, the outlet is asked to connect to the
  requested address, and the payload waits; when the outlet reports success the peer gets the
  success reply and the payload, encoded, is the first data sent.
\<close>

theorem socks5_pipelined_connect:
  assumes "\<not> wants_auth d" and "length ms \<le> 255" and "socks5_auth_none \<in> set ms"
    and "good_target t" and "target_addr_to_bytes t = Inr addr" and "sd_write_ok d"
    and "length (greeting ms @ [5, 1, 0] @ addr @ payload) \<le> socks5_max_buffered" and "payload \<noteq> []"
    and "encode_data_and_limit (sd_crypto d) common (sd_random d) payload = Some (Inr sent, common')"
  shows "\<exists>c c' request. on_peer_data d (greeting ms @ [5, 1, 0] @ addr @ payload)
      (new_socks5_context common) = Some (None, c) \<and>
    request = connect_message d c True (canonical_target t) \<and>
    s5_out c = [Write_Peer [5, 0], Send_Proxy request] \<and>
    on_proxy_message d (O2IConnect (sd_tunnel_id d) (sd_session_id d) True '''') c = Some (None, c') \<and>
    s5_status c' = S_Run_TCP \<and> s5_buffer c' = [] \<and>
    s5_out c' = s5_out c @ [Write_Peer [5, 0, 0, 1, 0, 0, 0, 0, 0, 0],
      Send_Proxy (I2OSendData (sd_tunnel_id d) (sd_session_id d) sent)]"
proof -
  from read_to_bytes [OF assms(4,5), of payload] obtain atyp a where addr: "addr = atyp # a"
    and rd: "read_target_addr (a @ payload) atyp = Inr (Some (canonical_target t, length a))" by blast
  note hs = handshake_pipelined [OF assms(1-3) rd, of common]
  have "on_peer_data d (greeting ms @ [5, 1, 0] @ addr @ payload) (new_socks5_context common) =
     Some (process_buffered_handshake d ((new_socks5_context common)\<lparr>s5_buffer :=
       greeting ms @ [5, 1, 0] @ atyp # a @ payload\<rparr>))"
    using assms(7) by (simp add: on_peer_data_def new_socks5_context_def addr)
  with hs assms(6,8,9) show ?thesis
    by (simp add: on_proxy_message_def on_connect_reply_def new_socks5_context_def send_tcp_payload_def
        connect_message_def socks5_version_def emit_def Let_def)
qed

lemma socks5_pipelined_connect_witness:
  "\<exists>c c' request. on_peer_data (example_data '''' '''')
      [5, 1, 0, 5, 1, 0, 1, 10, 0, 0, 1, 0, 80, 72, 105] (new_socks5_context example_common) = Some (None, c) \<and>
    request = connect_message (example_data '''' '''') c True (canonical_target
      \<lparr>ta_host = '''', ta_port = 80, ta_ip = [10, 0, 0, 1]\<rparr>) \<and>
    s5_out c = [Write_Peer [5, 0], Send_Proxy request] \<and>
    on_proxy_message (example_data '''' '''') (O2IConnect 7 9 True '''') c = Some (None, c') \<and>
    s5_status c' = S_Run_TCP \<and> s5_buffer c' = [] \<and>
    s5_out c' = s5_out c @ [Write_Peer [5, 0, 0, 1, 0, 0, 0, 0, 0, 0],
      Send_Proxy (I2OSendData 7 9 [72, 105])]"
proof -
  let ?t = "\<lparr>ta_host = '''', ta_port = 80, ta_ip = [10, 0, 0, 1]\<rparr>"
  have addr: "target_addr_to_bytes ?t = Inr [1, 10, 0, 0, 1, 0, 80]"
    by (simp add: target_addr_to_bytes_def ip_to4_def port_bytes_def addr_type_defs)
  have sent: "encode_data_and_limit (sd_crypto (example_data '''' '''')) example_common
      (sd_random (example_data '''' '''')) [72, 105] =
    Some (Inr [72, 105], example_common\<lparr>sc_flow := (sc_flow example_common)\<lparr>fc_inflight := 2\<rparr>\<rparr>)"
    by (simp add: encode_data_and_limit_def example_common_def new_session_common_info_def
        encrypt_def method_defs flow_acquire_def new_flow_controller_def proxy_flow_window_bytes_def Let_def)
  from socks5_pipelined_connect [of "example_data '''' ''''" "[0]" ?t "[1, 10, 0, 0, 1, 0, 80]" "[72, 105]",
    OF _ _ _ _ addr _ _ _ sent] show ?thesis
    by (simp add: example_data_def wants_auth_def socks5_auth_none_def good_target_def greeting_def
        socks5_version_def socks5_max_buffered_def)
qed

end
