(* ===== verification/Tunnel_Runtime.thy ===== *)
theory Tunnel_Runtime
  imports Go_Strings
begin

text \<open>
  \<open>internal/manager/tunnel_runtime.go\<close>: what is known of the running inlets and outlets.  The store
  is a map from tunnel ids; the time of an update is an argument.
\<close>

record tunnel_runtime_record =
  rr_tunnel_id :: u32
  rr_inlet_running :: bool
  rr_outlet_running :: bool
  rr_inlet_error :: string
  rr_outlet_error :: string
  rr_updated_at :: int

type_synonym runtime_store = "u32 \<rightharpoonup> tunnel_runtime_record"

definition new_tunnel_runtime_store :: runtime_store where
  "new_tunnel_runtime_store = Map.empty"

definition zero_runtime_record :: tunnel_runtime_record where
  "zero_runtime_record =
     \<lparr>rr_tunnel_id = 0, rr_inlet_running = False, rr_outlet_running = False, rr_inlet_error = '''',
      rr_outlet_error = '''', rr_updated_at = 0\<rparr>"

definition runtime_get :: "runtime_store \<Rightarrow> u32 \<Rightarrow> tunnel_runtime_record option" where
  "runtime_get s i = s i"

definition runtime_record :: "runtime_store \<Rightarrow> u32 \<Rightarrow> tunnel_runtime_record" where
  "runtime_record s i = (case s i of None \<Rightarrow> zero_runtime_record | Some r \<Rightarrow> r)"

definition set_inlet :: "int \<Rightarrow> u32 \<Rightarrow> bool \<Rightarrow> string \<Rightarrow> runtime_store \<Rightarrow> runtime_store" where
  "set_inlet now i running err s =
     s(i \<mapsto> (runtime_record s i)\<lparr>rr_tunnel_id := i, rr_inlet_running := running,
            rr_inlet_error := trim_space err, rr_updated_at := now\<rparr>)"

definition set_outlet :: "int \<Rightarrow> u32 \<Rightarrow> bool \<Rightarrow> string \<Rightarrow> runtime_store \<Rightarrow> runtime_store" where
  "set_outlet now i running err s =
     s(i \<mapsto> (runtime_record s i)\<lparr>rr_tunnel_id := i, rr_outlet_running := running,
            rr_outlet_error := trim_space err, rr_updated_at := now\<rparr>)"

definition runtime_clear :: "u32 \<Rightarrow> runtime_store \<Rightarrow> runtime_store" where
  "runtime_clear i s = s(i := None)"

text \<open>A record's id is its key.\<close>

definition runtime_ok :: "runtime_store \<Rightarrow> bool" where
  "runtime_ok s \<longleftrightarrow> (\<forall>i r. s i = Some r \<longrightarrow> rr_tunnel_id r = i)"

lemma runtime_ok_ops [inv_intros]:
  "runtime_ok new_tunnel_runtime_store" "runtime_ok s \<Longrightarrow> runtime_ok (set_inlet now i b e s)"
  "runtime_ok s \<Longrightarrow> runtime_ok (set_outlet now i b e s)" "runtime_ok s \<Longrightarrow> runtime_ok (runtime_clear i s)"
  by (auto simp: runtime_ok_def new_tunnel_runtime_store_def set_inlet_def set_outlet_def
      runtime_clear_def)

text \<open>Reports of the two ends of a tunnel do not disturb each other.\<close>

lemma inlet_outlet_independent:
  "runtime_get (set_outlet t2 i b2 e2 (set_inlet t1 i b1 e1 s)) i =
     map_option (\<lambda>r. r\<lparr>rr_updated_at := t2\<rparr>)
       (runtime_get (set_inlet t1 i b1 e1 (set_outlet t2 i b2 e2 s)) i)"
  by (simp add: runtime_get_def set_inlet_def set_outlet_def runtime_record_def)

end
