(* ===== verification/Model_Tunnel.thy ===== *)
theory Model_Tunnel
  imports Go_Strings
begin

text \<open>
  \<open>internal/model/tunnel.go\<close>: the tunnel types with their wire values, the tunnel record the
  server stores, and the two descriptions the proxy manager compares to decide whether a running
  inlet or outlet still fits its tunnel.  A Go map is an association list with distinct keys, in
  the order in which \<open>range\<close> happens to visit it.
\<close>

section \<open>Tunnel types\<close>

datatype tunnel_type =
    TunnelTypeTCP | TunnelTypeUDP | TunnelTypeSOCKS5 | TunnelTypeHTTP | TunnelTypeShadowsocks
  | TunnelTypeUnknown

definition normalize_tunnel_type :: "u32 \<Rightarrow> tunnel_type" where
  "normalize_tunnel_type v =
     (if v = 0 then TunnelTypeTCP
      else if v = 1 then TunnelTypeUDP
      else if v = 2 then TunnelTypeSOCKS5
      else if v = 3 then TunnelTypeHTTP
      else if v = 4 then TunnelTypeShadowsocks
      else TunnelTypeUnknown)"

fun wire_value :: "tunnel_type \<Rightarrow> u32" where
  "wire_value TunnelTypeTCP = 0"
| "wire_value TunnelTypeUDP = 1"
| "wire_value TunnelTypeSOCKS5 = 2"
| "wire_value TunnelTypeHTTP = 3"
| "wire_value TunnelTypeShadowsocks = 4"
| "wire_value TunnelTypeUnknown = 255"

definition tunnel_type_valid :: "tunnel_type \<Rightarrow> bool" where
  "tunnel_type_valid t \<longleftrightarrow> t \<noteq> TunnelTypeUnknown"

definition requires_endpoint :: "tunnel_type \<Rightarrow> bool" where
  "requires_endpoint t \<longleftrightarrow> t = TunnelTypeTCP \<or> t = TunnelTypeUDP"

lemma normalize_wire_value [simp]: "normalize_tunnel_type (wire_value t) = t"
  by (cases t) (simp_all add: normalize_tunnel_type_def)

section \<open>Tunnels\<close>

type_synonym str_map = "(string \<times> string) list"

record tunnel =
  t_id :: u32
  t_source :: string
  t_endpoint :: string
  t_enabled :: bool
  t_sender :: u32
  t_receiver :: u32
  t_description :: string
  t_tunnel_type :: u32
  t_password :: string
  t_username :: string
  t_is_compressed :: bool
  t_custom_mapping :: str_map
  t_encryption_method :: string

definition u32_str :: "u32 \<Rightarrow> string" where
  "u32_str v = format_uint (unat v)"

definition bool_string :: "bool \<Rightarrow> string" where
  "bool_string v = (if v then ''true'' else ''false'')"

definition stable_custom_mapping_string :: "str_map \<Rightarrow> string" where
  "stable_custom_mapping_string m =
     (if m = [] then ''''
      else concat (map (\<lambda>k. k @ '':'' @ the (map_of m k) @ [CHR 0x0A]) (sort (map fst m))))"

definition outlet_description :: "tunnel \<Rightarrow> string" where
  "outlet_description t =
     ''id:'' @ u32_str (t_id t) @ ''-sender:'' @ u32_str (t_sender t) @
     ''-enabled:'' @ bool_string (t_enabled t)"

definition inlet_description :: "tunnel \<Rightarrow> string" where
  "inlet_description t =
     ''id:'' @ u32_str (t_id t) @
     ''-source:'' @ t_source t @
     ''-endpoint:'' @ t_endpoint t @
     ''-sender:'' @ u32_str (t_sender t) @
     ''-receiver:'' @ u32_str (t_receiver t) @
     ''-tunnel_type:'' @ u32_str (t_tunnel_type t) @
     ''-username:'' @ t_username t @
     ''-password:'' @ t_password t @
     ''-enabled:'' @ bool_string (t_enabled t) @
     ''-is_compressed:'' @ bool_string (t_is_compressed t) @
     ''-encryption_method:'' @ t_encryption_method t @
     ''-custom_mapping:['' @ stable_custom_mapping_string (t_custom_mapping t) @ '']''"

section \<open>What the descriptions determine\<close>

lemma u32_str_inject [simp]: "u32_str a = u32_str b \<longleftrightarrow> a = b"
  by (simp add: u32_str_def word_eq_iff_unsigned [symmetric])

lemma bool_string_inject [simp]: "bool_string a = bool_string b \<longleftrightarrow> a = b"
  by (simp add: bool_string_def)

lemma u32_str_append_inject:
  "u32_str a @ CHR ''-'' # xs = u32_str b @ CHR ''-'' # ys \<longleftrightarrow> a = b \<and> xs = ys"
  using format_uint_append_inject [of "unat a" "CHR ''-''" xs "unat b" "CHR ''-''" ys]
  by (auto simp: u32_str_def is_digit_def word_eq_iff_unsigned [symmetric])

lemma outlet_description_inject:
  "outlet_description t = outlet_description t' \<longleftrightarrow>
     t_id t = t_id t' \<and> t_sender t = t_sender t' \<and> t_enabled t = t_enabled t'"
  by (auto simp: outlet_description_def u32_str_append_inject)

text \<open>The mapping's text depends on its contents only, not on the order of iteration.\<close>

lemma stable_custom_mapping_order:
  assumes "distinct (map fst m)" and "distinct (map fst m')" and "map_of m = map_of m'"
  shows "stable_custom_mapping_string m = stable_custom_mapping_string m'"
proof -
  have "set (map fst m) = set (map fst m')"
    using assms(3) by (metis dom_map_of_conv_image_fst set_map)
  then have "sort (map fst m) = sort (map fst m')"
    using assms(1,2) by (metis sorted_list_of_set_sort_remdups distinct_remdups_id)
  moreover have "m = [] \<longleftrightarrow> m' = []"
    using assms(3) by (metis map_of_eq_empty_iff)
  ultimately show ?thesis
    using assms(3) by (simp add: stable_custom_mapping_string_def)
qed

end
