(* ===== verification/Validate.thy ===== *)
theory Validate
  imports Go_Net
begin

text \<open>\<open>internal/util/validate.go\<close>: the checks on player keys, remarks and tunnel addresses.\<close>

definition is_ascii_no_space :: "string \<Rightarrow> bool" where
  "is_ascii_no_space s \<longleftrightarrow>
     \<not> contains_char s CHR '' '' \<and> list_all (\<lambda>c. (of_char c :: nat) \<le> 127) s"

definition is_valid_player_remark :: "string \<Rightarrow> bool" where
  "is_valid_player_remark s0 =
     (let s = trim_space s0 in s \<noteq> '''' \<and> rune_count s \<le> 30)"

definition is_valid_player_key :: "string \<Rightarrow> bool" where
  "is_valid_player_key s \<longleftrightarrow> length s \<ge> 2 \<and> length s \<le> 64 \<and> is_ascii_no_space s"

definition is_domain_char :: "char \<Rightarrow> bool" where
  "is_domain_char c \<longleftrightarrow>
     byte_in 97 122 c \<or> byte_in 65 90 c \<or> byte_in 48 57 c \<or> c = CHR ''-''"

definition is_valid_domain :: "string \<Rightarrow> bool" where
  "is_valid_domain domain =
     (let parts = split_on CHR ''.'' domain in
      length parts \<ge> 2 \<and>
      list_all (\<lambda>part. part \<noteq> '''' \<and> \<not> has_prefix part ''-'' \<and> \<not> has_suffix part ''-'' \<and>
                       list_all is_domain_char part) parts)"

definition split_host_port_checked :: "string \<Rightarrow> (string \<times> string) option" where
  "split_host_port_checked addr0 =
     (let addr = trim_space addr0 in
      if addr = '''' then None
      else case split_host_port addr of
          None \<Rightarrow> None
        | Some (host, port) \<Rightarrow>
            if port = '''' then None
            else if parse_uint 16 port = None then None
            else Some (host, port))"

definition is_valid_tunnel_host :: "string \<Rightarrow> bool \<Rightarrow> bool" where
  "is_valid_tunnel_host host0 allow_empty =
     (let host = trim_space host0 in
      if host = '''' then allow_empty
      else if equal_fold host ''localhost'' \<or> is_valid_domain host then True
      else parse_ip host \<noteq> None)"

definition is_valid_tunnel_source_address :: "string \<Rightarrow> bool" where
  "is_valid_tunnel_source_address addr =
     (case split_host_port_checked addr of
        None \<Rightarrow> False | Some (host, _) \<Rightarrow> is_valid_tunnel_host host True)"

definition is_valid_tunnel_endpoint_address :: "string \<Rightarrow> bool" where
  "is_valid_tunnel_endpoint_address addr =
     (case split_host_port_checked addr of
        None \<Rightarrow> False | Some (host, _) \<Rightarrow> is_valid_tunnel_host host False)"

definition get_tunnel_port :: "string \<Rightarrow> u16 option" where
  "get_tunnel_port addr =
     (case split_host_port_checked addr of
        None \<Rightarrow> None
      | Some (_, port) \<Rightarrow> map_option of_nat (parse_uint 16 port))"

section \<open>What an accepted address guarantees\<close>

lemma split_host_port_checked_port:
  "split_host_port_checked addr = Some (h, p) \<Longrightarrow> \<exists>v. parse_uint 16 p = Some v"
  by (auto simp: split_host_port_checked_def Let_def split: if_splits option.splits)

lemma get_tunnel_port_iff:
  "get_tunnel_port addr \<noteq> None \<longleftrightarrow> split_host_port_checked addr \<noteq> None"
  by (auto simp: get_tunnel_port_def dest: split_host_port_checked_port split: option.splits)

lemma source_address_has_port:
  "is_valid_tunnel_source_address addr \<Longrightarrow> \<exists>p. get_tunnel_port addr = Some p"
  using get_tunnel_port_iff [of addr]
  by (auto simp: is_valid_tunnel_source_address_def split: option.splits)

lemma endpoint_address_is_source:
  "is_valid_tunnel_endpoint_address addr \<Longrightarrow> is_valid_tunnel_source_address addr"
  by (auto simp: is_valid_tunnel_endpoint_address_def is_valid_tunnel_source_address_def
      is_valid_tunnel_host_def Let_def split: option.splits if_splits)

lemma validation_ignores_outer_space [simp]:
  "is_valid_tunnel_source_address (trim_space addr) = is_valid_tunnel_source_address addr"
  "is_valid_tunnel_endpoint_address (trim_space addr) = is_valid_tunnel_endpoint_address addr"
  "get_tunnel_port (trim_space addr) = get_tunnel_port addr"
  by (simp_all add: is_valid_tunnel_source_address_def is_valid_tunnel_endpoint_address_def
      get_tunnel_port_def split_host_port_checked_def)

end
