(* ===== verification/Shadowsocks.thy ===== *)
theory Shadowsocks
  imports Prelude Crypto
begin

text \<open>
  \<open>internal/proxy/shadowsocks.go\<close>: the methods, the derivation of keys, the stream reader and
  writer and the packet format of Shadowsocks.

  The ciphers, HKDF and MD5 are packages: the record \<open>ss_env\<close> holds their functions, an argument of
  what calls them, and \<open>lawful_ss\<close> states what they document.  A \<open>cipher.AEAD\<close> is a record of its
  methods.  Random bytes are those \<open>rand.Reader\<close> yields before it fails.

  The locale \<open>incremental\<close> is what a session context relies on when it feeds a parser with the
  pieces a connection delivers: feeding two pieces is feeding their concatenation.
\<close>

section \<open>Methods\<close>

record aead =
  ad_nonce_size :: nat
  ad_overhead :: nat
  ad_seal :: "byte list \<Rightarrow> byte list \<Rightarrow> byte list"
  ad_open :: "byte list \<Rightarrow> byte list \<Rightarrow> byte list option"

record ss_env =
  se_md5 :: "byte list \<Rightarrow> byte list"
  se_hkdf :: "byte list \<Rightarrow> byte list \<Rightarrow> byte list \<Rightarrow> nat \<Rightarrow> byte list option"
  se_aes_gcm :: "byte list \<Rightarrow> aead option"
  se_chacha20 :: "byte list \<Rightarrow> aead option"

record method_spec =
  sp_name :: string
  sp_key_size :: nat
  sp_salt_size :: nat
  sp_new_aead :: "ss_env \<Rightarrow> byte list \<Rightarrow> aead option"

datatype ss_error =
    Unsupported_Method
  | Random_Error
  | Aead_Error
  | Open_Failed
  | Bad_Chunk_Size
  | Bad_Payload_Size
  | Packet_Too_Short

definition default_shadowsocks_method :: string where
  "default_shadowsocks_method = ''chacha20-ietf-poly1305''"

definition shadowsocks_info :: "byte list" where
  "shadowsocks_info = bytes_of ''ss-subkey''"

definition shadowsocks_max_payload :: nat where
  "shadowsocks_max_payload = 0x3fff"

definition normalize_shadowsocks_method :: "string \<Rightarrow> string" where
  "normalize_shadowsocks_method name = (if name = '''' then default_shadowsocks_method else name)"

definition method_spec_by_name :: "string \<Rightarrow> method_spec option" where
  "method_spec_by_name name =
     (if name = ''aes-128-gcm'' then
        Some \<lparr>sp_name = name, sp_key_size = 16, sp_salt_size = 16, sp_new_aead = se_aes_gcm\<rparr>
      else if name = ''aes-256-gcm'' then
        Some \<lparr>sp_name = name, sp_key_size = 32, sp_salt_size = 32, sp_new_aead = se_aes_gcm\<rparr>
      else if name = ''chacha20-ietf-poly1305'' then
        Some \<lparr>sp_name = name, sp_key_size = 32, sp_salt_size = 32, sp_new_aead = se_chacha20\<rparr>
      else None)"

definition is_supported_shadowsocks_method :: "string \<Rightarrow> bool" where
  "is_supported_shadowsocks_method name \<longleftrightarrow>
     method_spec_by_name (normalize_shadowsocks_method name) \<noteq> None"

section \<open>Keys and nonces\<close>

text \<open>\<open>deriveShadowsocksMasterKey\<close>: each round appends a digest; every digest has 16 bytes, so a
  round for each byte of the key is more than enough.\<close>

fun master_key_loop ::
  "(byte list \<Rightarrow> byte list) \<Rightarrow> byte list \<Rightarrow> nat \<Rightarrow> nat \<Rightarrow> byte list \<Rightarrow> byte list \<Rightarrow> byte list option" where
  "master_key_loop md5 password key_size fuel previous out =
     (if length out < key_size then
        (case fuel of
           0 \<Rightarrow> None
         | Suc fuel' \<Rightarrow>
             let previous' = md5 (previous @ password) in
             master_key_loop md5 password key_size fuel' previous' (out @ previous'))
      else Some (take key_size out))"

declare master_key_loop.simps [simp del]

definition derive_master_key :: "ss_env \<Rightarrow> string \<Rightarrow> nat \<Rightarrow> byte list option" where
  "derive_master_key env password key_size =
     master_key_loop (se_md5 env) (bytes_of password) key_size key_size [] []"

definition new_shadowsocks_aead :: "ss_env \<Rightarrow> method_spec \<Rightarrow> byte list \<Rightarrow> byte list \<Rightarrow> aead option" where
  "new_shadowsocks_aead env spec master_key salt =
     (case se_hkdf env master_key salt shadowsocks_info (sp_key_size spec) of
        None \<Rightarrow> None
      | Some subkey \<Rightarrow> sp_new_aead spec env subkey)"

fun increment_nonce :: "byte list \<Rightarrow> byte list" where
  "increment_nonce [] = []"
| "increment_nonce (b # bs) = (if b + 1 \<noteq> 0 then (b + 1) # bs else 0 # increment_nonce bs)"

section \<open>The stream reader\<close>

record stream_reader =
  rd_spec :: method_spec
  rd_master_key :: "byte list"
  rd_buffer :: "byte list"
  rd_aead :: "aead option"
  rd_nonce :: "byte list"
  rd_payload_size :: nat

text \<open>The derivation of the key does not end when the digests are empty; then there is no reader.\<close>

definition new_stream_reader :: "ss_env \<Rightarrow> string \<Rightarrow> string \<Rightarrow> (ss_error + stream_reader) option" where
  "new_stream_reader env name password =
     (case method_spec_by_name (normalize_shadowsocks_method name) of
        None \<Rightarrow> Some (Inl Unsupported_Method)
      | Some spec \<Rightarrow>
          map_option (\<lambda>key. Inr \<lparr>rd_spec = spec, rd_master_key = key, rd_buffer = [], rd_aead = None,
              rd_nonce = [], rd_payload_size = 0\<rparr>)
            (derive_master_key env password (sp_key_size spec)))"

text \<open>The position of the reader in its stream: the nonce, what is buffered, and the size of the
  payload whose header has been read (0 before the header).  \<open>read_size\<close> is the first half of the
  body of \<open>Feed\<close>'s loop: \<open>None\<close> breaks out of it.\<close>

type_synonym position = "byte list \<times> byte list \<times> nat"

definition read_size :: "aead \<Rightarrow> position \<Rightarrow> position \<times> (ss_error + unit) option" where
  "read_size a = (\<lambda>(nonce, buffer, psize).
     if psize = 0 then
       let block = 2 + ad_overhead a in
       if length buffer < block then ((nonce, buffer, psize), None)
       else (case ad_open a nonce (take block buffer) of
               None \<Rightarrow> ((nonce, buffer, psize), Some (Inl Open_Failed))
             | Some plain \<Rightarrow>
                 let nonce = increment_nonce nonce; buffer = drop block buffer in
                 (case plain of
                    [h, l] \<Rightarrow>
                      let psize = unat h * 256 + unat l in
                      if psize \<le> 0 \<or> psize > shadowsocks_max_payload
                      then ((nonce, buffer, psize), Some (Inl Bad_Payload_Size))
                      else ((nonce, buffer, psize), Some (Inr ()))
                  | _ \<Rightarrow> ((nonce, buffer, psize), Some (Inl Bad_Chunk_Size))))
     else ((nonce, buffer, psize), Some (Inr ())))"

lemma read_size_buffer:
  "read_size a (n, b, s) = ((n', b', s'), Some (Inr ())) \<Longrightarrow> length b' \<le> length b \<and> 0 < s'"
  by (auto simp: read_size_def Let_def split: if_splits option.splits list.splits)

function feed_loop :: "aead \<Rightarrow> position \<Rightarrow> byte list list \<Rightarrow> position \<times> (ss_error + byte list list)" where
  "feed_loop a pos out =
     (case read_size a pos of
        (pos, None) \<Rightarrow> (pos, Inr out)
      | (pos, Some (Inl e)) \<Rightarrow> (pos, Inl e)
      | ((nonce, buffer, psize), Some (Inr _)) \<Rightarrow>
          let block = psize + ad_overhead a in
          if length buffer < block then ((nonce, buffer, psize), Inr out)
          else (case ad_open a nonce (take block buffer) of
                  None \<Rightarrow> ((nonce, buffer, psize), Inl Open_Failed)
                | Some payload \<Rightarrow>
                    feed_loop a (increment_nonce nonce, drop block buffer, 0) (out @ [payload])))"
  by pat_completeness auto
termination
  by (relation "measure (\<lambda>(a, (n, b, s), out). length b)") (auto dest!: read_size_buffer [OF sym])

declare feed_loop.simps [simp del]

definition ss_drain :: "aead \<Rightarrow> stream_reader \<Rightarrow> stream_reader \<times> (ss_error + byte list list)" where
  "ss_drain a r =
     (case feed_loop a (rd_nonce r, rd_buffer r, rd_payload_size r) [] of
        ((nonce, buffer, psize), res) \<Rightarrow>
          (r\<lparr>rd_nonce := nonce, rd_buffer := buffer, rd_payload_size := psize\<rparr>, res))"

definition ss_feed ::
  "ss_env \<Rightarrow> stream_reader \<Rightarrow> byte list \<Rightarrow> stream_reader \<times> (ss_error + byte list list)" where
  "ss_feed env r data =
     (let r = r\<lparr>rd_buffer := rd_buffer r @ data\<rparr>; salt_size = sp_salt_size (rd_spec r) in
      case rd_aead r of
        Some a \<Rightarrow> ss_drain a r
      | None \<Rightarrow>
          if length (rd_buffer r) < salt_size then (r, Inr [])
          else (case new_shadowsocks_aead env (rd_spec r) (rd_master_key r) (take salt_size (rd_buffer r)) of
                  None \<Rightarrow> (r, Inl Aead_Error)
                | Some a \<Rightarrow>
                    ss_drain a (r\<lparr>rd_aead := Some a, rd_nonce := replicate (ad_nonce_size a) 0,
                      rd_buffer := drop salt_size (rd_buffer r)\<rparr>)))"

section \<open>The stream writer\<close>

record stream_writer =
  wr_spec :: method_spec
  wr_master_key :: "byte list"
  wr_salt :: "byte list"
  wr_aead :: aead
  wr_nonce :: "byte list"
  wr_salt_sent :: bool

definition new_stream_writer ::
  "ss_env \<Rightarrow> string \<Rightarrow> string \<Rightarrow> byte list \<Rightarrow> (ss_error + stream_writer) option" where
  "new_stream_writer env name password random =
     (case method_spec_by_name (normalize_shadowsocks_method name) of
        None \<Rightarrow> Some (Inl Unsupported_Method)
      | Some spec \<Rightarrow>
          if length random < sp_salt_size spec then Some (Inl Random_Error)
          else let salt = take (sp_salt_size spec) random in
            map_option (\<lambda>key.
              case new_shadowsocks_aead env spec key salt of
                None \<Rightarrow> Inl Aead_Error
              | Some a \<Rightarrow> Inr \<lparr>wr_spec = spec, wr_master_key = key, wr_salt = salt, wr_aead = a,
                  wr_nonce = replicate (ad_nonce_size a) 0, wr_salt_sent = False\<rparr>)
              (derive_master_key env password (sp_key_size spec)))"

text \<open>The body of \<open>SealData\<close>'s loop: the size of a chunk and the chunk, each sealed under a nonce of
  its own.\<close>

definition seal_chunk :: "aead \<Rightarrow> byte list \<Rightarrow> byte list \<Rightarrow> byte list \<times> byte list" where
  "seal_chunk a nonce chunk =
     (let size_plain = [of_nat (length chunk div 256), of_nat (length chunk)];
          sealed_size = ad_seal a nonce size_plain;
          nonce = increment_nonce nonce
      in (increment_nonce nonce, sealed_size @ ad_seal a nonce chunk))"

function seal_loop :: "aead \<Rightarrow> byte list \<Rightarrow> byte list \<Rightarrow> byte list \<Rightarrow> byte list \<times> byte list" where
  "seal_loop a nonce data out =
     (if length data > 0 then
        let chunk_size = (if length data > shadowsocks_max_payload then shadowsocks_max_payload else length data);
            (nonce, block) = seal_chunk a nonce (take chunk_size data)
        in seal_loop a nonce (drop chunk_size data) (out @ block)
      else (nonce, out))"
  by pat_completeness auto
termination
  by (relation "measure (\<lambda>(a, n, d, out). length d)") (auto simp: shadowsocks_max_payload_def)

declare seal_loop.simps [simp del]

definition seal_data :: "stream_writer \<Rightarrow> byte list \<Rightarrow> stream_writer \<times> byte list" where
  "seal_data w data =
     (if length data = 0 then (w, [])
      else let out = (if wr_salt_sent w then [] else wr_salt w);
               (nonce, out) = seal_loop (wr_aead w) (wr_nonce w) data out
        in (w\<lparr>wr_salt_sent := True, wr_nonce := nonce\<rparr>, out))"

section \<open>Packets\<close>

definition encrypt_packet ::
  "ss_env \<Rightarrow> string \<Rightarrow> string \<Rightarrow> byte list \<Rightarrow> byte list \<Rightarrow> (ss_error + byte list) option" where
  "encrypt_packet env name password random payload =
     (case method_spec_by_name (normalize_shadowsocks_method name) of
        None \<Rightarrow> Some (Inl Unsupported_Method)
      | Some spec \<Rightarrow>
          if length random < sp_salt_size spec then Some (Inl Random_Error)
          else let salt = take (sp_salt_size spec) random in
            map_option (\<lambda>key.
              case new_shadowsocks_aead env spec key salt of
                None \<Rightarrow> Inl Aead_Error
              | Some a \<Rightarrow> Inr (salt @ ad_seal a (replicate (ad_nonce_size a) 0) payload))
              (derive_master_key env password (sp_key_size spec)))"

definition decrypt_packet ::
  "ss_env \<Rightarrow> string \<Rightarrow> string \<Rightarrow> byte list \<Rightarrow> (ss_error + byte list) option" where
  "decrypt_packet env name password packet =
     (case method_spec_by_name (normalize_shadowsocks_method name) of
        None \<Rightarrow> Some (Inl Unsupported_Method)
      | Some spec \<Rightarrow>
          if length packet < sp_salt_size spec then Some (Inl Packet_Too_Short)
          else map_option (\<lambda>key.
              case new_shadowsocks_aead env spec key (take (sp_salt_size spec) packet) of
                None \<Rightarrow> Inl Aead_Error
              | Some a \<Rightarrow>
                  (case ad_open a (replicate (ad_nonce_size a) 0) (drop (sp_salt_size spec) packet) of
                     None \<Rightarrow> Inl Open_Failed
                   | Some payload \<Rightarrow> Inr payload))
              (derive_master_key env password (sp_key_size spec)))"


section \<open>Feeding in pieces\<close>

fun feed_all :: "('s \<Rightarrow> 'i list \<Rightarrow> 's \<times> ('e + 'o list)) \<Rightarrow> 's \<Rightarrow> 'i list list \<Rightarrow> 's \<times> ('e + 'o list)" where
  "feed_all feed s [] = (s, Inr [])"
| "feed_all feed s (x # xs) =
     (case feed s x of
        (s', Inl e) \<Rightarrow> (s', Inl e)
      | (s', Inr os) \<Rightarrow> map_prod id (map_sum id ((@) os)) (feed_all feed s' xs))"

locale incremental =
  fixes feed :: "'s \<Rightarrow> 'i list \<Rightarrow> 's \<times> ('e + 'o list)"
    and settled :: "'s \<Rightarrow> bool"
  assumes feed_nil: "settled s \<Longrightarrow> feed s [] = (s, Inr [])"
    and feed_settled: "settled s \<Longrightarrow> feed s x = (s', Inr os) \<Longrightarrow> settled s'"
    and feed_append: "settled s \<Longrightarrow> feed s x = (s', Inr os) \<Longrightarrow>
      feed s (x @ y) = map_prod id (map_sum id ((@) os)) (feed s' y)"
    and feed_error: "settled s \<Longrightarrow> feed s x = (s', Inl e) \<Longrightarrow> snd (feed s (x @ y)) = Inl e"
begin

lemma any_cut: "settled s \<Longrightarrow> snd (feed_all feed s xs) = snd (feed s (concat xs))"
proof (induction xs arbitrary: s)
  case Nil
  then show ?case by (simp add: feed_nil)
next
  case (Cons x xs)
  obtain s' r where f: "feed s x = (s', r)" by (cases "feed s x")
  show ?case
  proof (cases r)
    case (Inl e)
    then show ?thesis using f feed_error [OF Cons.prems, of x s' e "concat xs"] by simp
  next
    case (Inr os)
    with f have "settled s'" using feed_settled [OF Cons.prems] by blast
    from Cons.IH [OF this] f Inr feed_append [OF Cons.prems, of x s' os "concat xs"]
    show ?thesis by simp
  qed
qed

end

section \<open>The reader is incremental\<close>

definition grow :: "byte list \<Rightarrow> position \<Rightarrow> position" where
  "grow y = (\<lambda>(n, b, s). (n, b @ y, s))"

lemma read_size_grow:
  "read_size a p = (q, Some r) \<Longrightarrow> read_size a (grow y p) = (grow y q, Some r)"
  by (cases p)
    (auto simp: read_size_def grow_def Let_def split: if_splits option.splits list.splits)

lemma read_size_waits: "read_size a p = (q, None) \<Longrightarrow> q = p"
  by (cases p) (auto simp: read_size_def Let_def split: if_splits option.splits list.splits)

lemma read_size_positive: "0 < s \<Longrightarrow> read_size a (n, b, s) = ((n, b, s), Some (Inr ()))"
  by (simp add: read_size_def)

lemma feed_loop_none: "read_size a p = (q, None) \<Longrightarrow> feed_loop a p out = (p, Inr out)"
  using read_size_waits [of a p q] by (simp add: feed_loop.simps [of a p])

lemma feed_loop_error: "read_size a p = (q, Some (Inl e)) \<Longrightarrow> feed_loop a p out = (q, Inl e)"
  by (simp add: feed_loop.simps [of a p])

lemma feed_loop_size:
  "read_size a p = ((n, b, s), Some (Inr u)) \<Longrightarrow>
   feed_loop a p out =
     (if length b < s + ad_overhead a then ((n, b, s), Inr out)
      else (case ad_open a n (take (s + ad_overhead a) b) of
              None \<Rightarrow> ((n, b, s), Inl Open_Failed)
            | Some d \<Rightarrow> feed_loop a (increment_nonce n, drop (s + ad_overhead a) b, 0) (out @ [d])))"
  by (simp add: feed_loop.simps [of a p] Let_def cong: option.case_cong)

lemma feed_loop_after_size:
  assumes "read_size a p = (q, Some (Inr u))"
  shows "feed_loop a p out = feed_loop a q out"
proof -
  obtain n b s where q: "q = (n, b, s)" by (cases q)
  have "0 < s" using assms read_size_buffer by (cases p) (fastforce simp: q)
  then show ?thesis using feed_loop_size [OF assms [unfolded q]] q
    by (simp add: feed_loop_size [OF read_size_positive])
qed

lemma feed_loop_append:
  "feed_loop a p out = (q, Inr out') \<Longrightarrow> feed_loop a (grow y p) out = feed_loop a (grow y q) out'"
proof (induction a p out rule: feed_loop.induct)
  case (1 a p out)
  obtain p' r where size: "read_size a p = (p', r)" by (cases "read_size a p")
  obtain n b s where p': "p' = (n, b, s)" by (cases p')
  show ?case
  proof (cases r)
    case None
    with 1(2) size show ?thesis by (simp add: feed_loop_none)
  next
    case r: (Some r')
    show ?thesis
    proof (cases r')
      case (Inl e)
      with 1(2) size r show ?thesis by (simp add: feed_loop_error)
    next
      case (Inr u)
      note now = size [unfolded p' r Inr]
      have grown: "feed_loop a (grow y p) out = feed_loop a (grow y p') out"
        by (rule feed_loop_after_size [OF read_size_grow]) (use now p' in simp)
      have pos: "0 < s" using now read_size_buffer by (cases p) fastforce
      show ?thesis
      proof (cases "length b < s + ad_overhead a")
        case True
        with 1(2) grown feed_loop_size [OF now] show ?thesis by (simp add: p')
      next
        case False
        then obtain d where "ad_open a n (take (s + ad_overhead a) b) = Some d"
          using 1(2) feed_loop_size [OF now] by (auto split: option.splits)
        with False 1 now grown pos show ?thesis
          by (simp add: p' grow_def feed_loop_size [OF now] feed_loop_size [OF read_size_positive] del: unit_eq)
      qed
    qed
  qed
qed

lemma feed_loop_fails_grown:
  "feed_loop a p out = (q, Inl e) \<Longrightarrow> snd (feed_loop a (grow y p) out) = Inl e"
proof (induction a p out rule: feed_loop.induct)
  case (1 a p out)
  obtain p' r where size: "read_size a p = (p', Some r)"
    using 1(2) feed_loop_none [of a p] by (cases "read_size a p", cases "snd (read_size a p)") auto
  obtain n b s where p': "p' = (n, b, s)" by (cases p')
  show ?case
  proof (cases r)
    case (Inl e')
    with 1(2) size read_size_grow [OF size, of y] show ?thesis by (simp add: feed_loop_error)
  next
    case (Inr u)
    note now = size [unfolded p' Inr]
    have grown: "feed_loop a (grow y p) out = feed_loop a (grow y p') out"
      by (rule feed_loop_after_size [OF read_size_grow]) (use now p' in simp)
    have pos: "0 < s" using now read_size_buffer by (cases p) fastforce
    have long: "\<not> length b < s + ad_overhead a" using 1(2) feed_loop_size [OF now] by (auto split: if_splits)
    show ?thesis
    proof (cases "ad_open a n (take (s + ad_overhead a) b)")
      case None
      with 1(2) long grown pos show ?thesis
        by (auto simp: p' grow_def feed_loop_size [OF now] feed_loop_size [OF read_size_positive])
    next
      case (Some d)
      with long 1 now grown pos show ?thesis
        by (simp add: p' grow_def feed_loop_size [OF now] feed_loop_size [OF read_size_positive])
    qed
  qed
qed

lemma feed_loop_out:
  "feed_loop a p (pre @ out) = map_prod id (map_sum id ((@) pre)) (feed_loop a p out)"
proof (induction a p out rule: feed_loop.induct)
  case (1 a p out)
  obtain p' r where size: "read_size a p = (p', r)" by (cases "read_size a p")
  obtain n b s where p': "p' = (n, b, s)" by (cases p')
  show ?case
  proof (cases r)
    case None
    with size show ?thesis by (simp add: feed_loop_none)
  next
    case r: (Some r')
    show ?thesis
    proof (cases r')
      case (Inl e)
      with size r show ?thesis by (simp add: feed_loop_error)
    next
      case (Inr u)
      note now = size [unfolded p' r Inr]
      show ?thesis
      proof (cases "length b < s + ad_overhead a")
        case True
        with feed_loop_size [OF now] show ?thesis by simp
      next
        case False
        with 1 now show ?thesis
          by (cases "ad_open a n (take (s + ad_overhead a) b)") (simp_all add: feed_loop_size [OF now])
      qed
    qed
  qed
qed

lemma feed_loop_settles: "feed_loop a p out = (q, Inr out') \<Longrightarrow> feed_loop a q x = (q, Inr x)"
proof (induction a p out rule: feed_loop.induct)
  case (1 a p out)
  obtain p' r where size: "read_size a p = (p', r)" by (cases "read_size a p")
  obtain n b s where p': "p' = (n, b, s)" by (cases p')
  show ?case
  proof (cases r)
    case None
    with 1(2) size show ?thesis by (simp add: feed_loop_none)
  next
    case r: (Some r')
    show ?thesis
    proof (cases r')
      case (Inl e)
      with 1(2) size r show ?thesis by (simp add: feed_loop_error)
    next
      case (Inr u)
      note now = size [unfolded p' r Inr]
      have pos: "0 < s" using now read_size_buffer by (cases p) fastforce
      show ?thesis
      proof (cases "length b < s + ad_overhead a")
        case True
        with 1(2) pos show ?thesis
          by (simp add: feed_loop_size [OF now]) (auto simp: feed_loop_size [OF read_size_positive])
      next
        case False
        with 1 now show ?thesis
          by (cases "ad_open a n (take (s + ad_overhead a) b)") (simp_all add: feed_loop_size [OF now])
      qed
    qed
  qed
qed

definition reader_settled :: "stream_reader \<Rightarrow> bool" where
  "reader_settled r \<longleftrightarrow>
     (case rd_aead r of
        None \<Rightarrow> length (rd_buffer r) < sp_salt_size (rd_spec r)
      | Some a \<Rightarrow>
          feed_loop a (rd_nonce r, rd_buffer r, rd_payload_size r) [] =
            ((rd_nonce r, rd_buffer r, rd_payload_size r), Inr []))"

lemma ss_drain_settled: "ss_drain a r = (r', Inr os) \<Longrightarrow> rd_aead r = Some a \<Longrightarrow> reader_settled r'"
  by (auto simp: ss_drain_def reader_settled_def dest: feed_loop_settles split: prod.splits)

lemma ss_drain_more:
  assumes "ss_drain a r = (r', Inr os)"
  shows "ss_drain a (r\<lparr>rd_buffer := rd_buffer r @ y\<rparr>) =
    map_prod id (map_sum id ((@) os)) (ss_drain a (r'\<lparr>rd_buffer := rd_buffer r' @ y\<rparr>))"
proof -
  obtain n b s where loop: "feed_loop a (rd_nonce r, rd_buffer r, rd_payload_size r) [] = ((n, b, s), Inr os)"
    and r': "r' = r\<lparr>rd_nonce := n, rd_buffer := b, rd_payload_size := s\<rparr>"
    using assms by (auto simp: ss_drain_def split: prod.splits)
  have eq: "feed_loop a (rd_nonce r, rd_buffer r @ y, rd_payload_size r) [] =
      map_prod id (map_sum id ((@) os)) (feed_loop a (n, b @ y, s) [])"
    using feed_loop_append [OF loop, of y] feed_loop_out [of a "(n, b @ y, s)" os "[]"] by (simp add: grow_def)
  show ?thesis by (simp add: ss_drain_def eq r' split: prod.splits)
qed

lemma ss_drain_fails_more:
  "ss_drain a r = (r', Inl e) \<Longrightarrow> snd (ss_drain a (r\<lparr>rd_buffer := rd_buffer r @ y\<rparr>)) = Inl e"
  using feed_loop_fails_grown [of a "(rd_nonce r, rd_buffer r, rd_payload_size r)" "[]" _ e y]
  by (auto simp: ss_drain_def grow_def split: prod.splits)

lemma prepend_nothing: "map_prod id (map_sum id ((@) [])) z = z"
  by (cases z; cases "snd z") auto

lemma ss_feed_waits:
  "rd_aead r = None \<Longrightarrow> length (rd_buffer r @ x) < sp_salt_size (rd_spec r) \<Longrightarrow>
   ss_feed env r x = (r\<lparr>rd_buffer := rd_buffer r @ x\<rparr>, Inr [])"
  by (simp add: ss_feed_def)

lemma ss_feed_opens:
  "rd_aead r = None \<Longrightarrow> \<not> length (rd_buffer r @ x) < sp_salt_size (rd_spec r) \<Longrightarrow>
   ss_feed env r x =
     (case new_shadowsocks_aead env (rd_spec r) (rd_master_key r) (take (sp_salt_size (rd_spec r)) (rd_buffer r @ x)) of
        None \<Rightarrow> (r\<lparr>rd_buffer := rd_buffer r @ x\<rparr>, Inl Aead_Error)
      | Some a \<Rightarrow> ss_drain a (r\<lparr>rd_aead := Some a, rd_nonce := replicate (ad_nonce_size a) 0,
          rd_buffer := drop (sp_salt_size (rd_spec r)) (rd_buffer r @ x)\<rparr>))"
  by (simp add: ss_feed_def Let_def cong: option.case_cong)

lemma ss_feed_open: "rd_aead r = Some a \<Longrightarrow> ss_feed env r x = ss_drain a (r\<lparr>rd_buffer := rd_buffer r @ x\<rparr>)"
  by (simp add: ss_feed_def)

lemma ss_drain_fields: "ss_drain a r = (r', res) \<Longrightarrow> rd_aead r' = rd_aead r \<and> rd_spec r' = rd_spec r"
  by (auto simp: ss_drain_def split: prod.splits)

lemma ss_feed_append:
  assumes "ss_feed env r x = (r', Inr os)"
  shows "ss_feed env r (x @ y) = map_prod id (map_sum id ((@) os)) (ss_feed env r' y)"
proof (cases "rd_aead r")
  case None
  show ?thesis
  proof (cases "length (rd_buffer r @ x) < sp_salt_size (rd_spec r)")
    case True
    with assms None have "r' = r\<lparr>rd_buffer := rd_buffer r @ x\<rparr>" "os = []" by (auto simp: ss_feed_waits)
    then show ?thesis by (simp add: prepend_nothing ss_feed_def)
  next
    case False
    let ?n = "sp_salt_size (rd_spec r)"
    from False None assms obtain a where a:
      "new_shadowsocks_aead env (rd_spec r) (rd_master_key r) (take ?n (rd_buffer r @ x)) = Some a"
      "ss_drain a (r\<lparr>rd_aead := Some a, rd_nonce := replicate (ad_nonce_size a) 0,
          rd_buffer := drop ?n (rd_buffer r @ x)\<rparr>) = (r', Inr os)"
      by (auto simp: ss_feed_opens split: option.splits)
    from False have short: "?n \<le> length (rd_buffer r) + length x" by simp
    have whole: "ss_feed env r (x @ y) =
        ss_drain a (r\<lparr>rd_aead := Some a, rd_nonce := replicate (ad_nonce_size a) 0,
          rd_buffer := drop ?n (rd_buffer r @ x) @ y\<rparr>)"
      using None short a(1) by (subst ss_feed_opens) simp_all
    show ?thesis using ss_drain_more [OF a(2), of y] ss_drain_fields [OF a(2)]
      by (simp add: whole ss_feed_open)
  qed
next
  case (Some a)
  with assms ss_drain_more [of a "r\<lparr>rd_buffer := rd_buffer r @ x\<rparr>" r' os y] show ?thesis
    using ss_drain_fields [of a _ r'] by (auto simp: ss_feed_open)
qed

lemma ss_feed_fails_more:
  assumes "ss_feed env r x = (r', Inl e)"
  shows "snd (ss_feed env r (x @ y)) = Inl e"
proof (cases "rd_aead r")
  case None
  let ?n = "sp_salt_size (rd_spec r)"
  from assms None have long: "?n \<le> length (rd_buffer r) + length x"
    by (cases "length (rd_buffer r @ x) < ?n") (auto simp: ss_feed_waits)
  then have more: "\<not> length (rd_buffer r @ x @ y) < ?n" "\<not> length (rd_buffer r @ x) < ?n" by simp_all
  show ?thesis
  proof (cases "new_shadowsocks_aead env (rd_spec r) (rd_master_key r) (take ?n (rd_buffer r @ x))")
    case none: None
    with assms None more long show ?thesis by (simp add: ss_feed_opens)
  next
    case (Some a)
    with assms None more long show ?thesis
      using ss_drain_fails_more [of a "r\<lparr>rd_aead := Some a, rd_nonce := replicate (ad_nonce_size a) 0,
          rd_buffer := drop ?n (rd_buffer r @ x)\<rparr>" r' e y]
      by (simp add: ss_feed_opens)
  qed
next
  case (Some a)
  with assms ss_drain_fails_more [of a "r\<lparr>rd_buffer := rd_buffer r @ x\<rparr>" r' e y] show ?thesis
    by (simp add: ss_feed_open)
qed

interpretation ss: incremental "ss_feed env" reader_settled for env
proof (unfold_locales, goal_cases)
  case (1 s)
  then show ?case by (auto simp: reader_settled_def ss_feed_def ss_drain_def split: option.splits)
next
  case (2 s x s' os)
  show ?case
  proof (cases "rd_aead s")
    case None
    with 2 show ?thesis
      by (cases "length (rd_buffer s @ x) < sp_salt_size (rd_spec s)")
        (auto simp: ss_feed_waits ss_feed_opens reader_settled_def [of "_\<lparr>rd_buffer := _\<rparr>"]
          intro: ss_drain_settled split: option.splits)
  next
    case (Some a)
    with 2 ss_drain_settled show ?thesis by (fastforce simp: ss_feed_open)
  qed
qed (erule ss_feed_append ss_feed_fails_more)+

section \<open>Laws of the packages\<close>

definition lawful_aead :: "aead \<Rightarrow> bool" where
  "lawful_aead a \<longleftrightarrow>
     (\<forall>n d. length n = ad_nonce_size a \<longrightarrow>
        ad_open a n (ad_seal a n d) = Some d \<and> length (ad_seal a n d) = length d + ad_overhead a)"

text \<open>MD5 digests have 16 bytes; HKDF with SHA-1 yields up to 255 blocks of 20 bytes; AES takes keys
  of 16, 24 or 32 bytes, ChaCha20-Poly1305 of 32, and what they give is an AEAD.\<close>

definition lawful_ss :: "ss_env \<Rightarrow> bool" where
  "lawful_ss env \<longleftrightarrow>
     (\<forall>x. length (se_md5 env x) = 16) \<and>
     (\<forall>m s i n. n \<le> 5100 \<longrightarrow> (\<exists>k. se_hkdf env m s i n = Some k \<and> length k = n)) \<and>
     (\<forall>k. length k \<in> {16, 24, 32} \<longrightarrow> (\<exists>a. se_aes_gcm env k = Some a \<and> lawful_aead a)) \<and>
     (\<forall>k. length k = 32 \<longrightarrow> (\<exists>a. se_chacha20 env k = Some a \<and> lawful_aead a))"

lemma master_key_loop_total:
  "(\<And>x. length (md5 x) = 16) \<Longrightarrow> size' \<le> length out + 16 * fuel \<Longrightarrow>
   \<exists>k. master_key_loop md5 pw size' fuel prev out = Some k \<and> length k = size'"
proof (induction fuel arbitrary: prev out)
  case 0
  then show ?case by (simp add: master_key_loop.simps)
next
  case (Suc fuel)
  show ?case
  proof (cases "length out < size'")
    case True
    with Suc.IH [of "out @ md5 (prev @ pw)" "md5 (prev @ pw)"] Suc.prems show ?thesis
      by (simp add: master_key_loop.simps [of _ _ _ "Suc fuel"] Let_def)
  qed (simp add: master_key_loop.simps)
qed

lemma derive_master_key_total:
  "lawful_ss env \<Longrightarrow> \<exists>k. derive_master_key env pw n = Some k \<and> length k = n"
  unfolding derive_master_key_def lawful_ss_def by (rule master_key_loop_total) auto

lemma length_increment_nonce [simp]: "length (increment_nonce n) = length n"
  by (induction n rule: increment_nonce.induct) auto

lemma get_le_bound: "get_le bs < 256 ^ length bs"
proof (induction bs)
  case (Cons b bs)
  have "unat b < 256" using unsigned_less [of b] by simp
  with Cons show ?case by simp
qed simp

text \<open>The nonce counts up modulo the number of nonces, so that no two of fewer blocks share one.\<close>

lemma increment_nonce_counts: "get_le (increment_nonce n) = (get_le n + 1) mod 256 ^ length n"
proof (induction n rule: increment_nonce.induct)
  case (2 b bs)
  show ?case
  proof (cases "b + 1 = 0")
    case True
    then have "b = 255" by (simp add: eq_neg_iff_add_eq_0 [symmetric])
    then have "unat b = 255" by simp
    then have "get_le (b # bs) + 1 = 256 * (get_le bs + 1)" by simp
    with 2 True show ?thesis by (simp add: mult_mod_right)
  next
    case False
    then have "unat (b + 1) = unat b + 1" by (metis Suc_eq_plus1 add.commute unatSuc)
    with False show ?thesis using get_le_bound [of "(b + 1) # bs"] by (simp del: word_neq_0_conv)
  qed
qed simp

section \<open>Streams and packets survive\<close>

lemma seal_loop_out: "seal_loop a n d out = map_prod id ((@) out) (seal_loop a n d [])"
proof (induction "length d" arbitrary: d n out rule: less_induct)
  case less
  show ?case
  proof (cases "d = []")
    case True
    then show ?thesis by (simp add: seal_loop.simps)
  next
    case False
    define k where "k = (if length d > shadowsocks_max_payload then shadowsocks_max_payload else length d)"
    have "length (drop k d) < length d" using False by (simp add: k_def shadowsocks_max_payload_def)
    from less [OF this] have IH: "seal_loop a m (drop k d) z = map_prod id ((@) z) (seal_loop a m (drop k d) [])" for m z .
    obtain m block where c: "seal_chunk a n (take k d) = (m, block)" by (cases "seal_chunk a n (take k d)")
    have unfold: "seal_loop a n d z = seal_loop a m (drop k d) (z @ block)" for z
      using False c by (simp add: seal_loop.simps [of _ _ d] Let_def k_def)
    show ?thesis unfolding unfold IH [of m "out @ block"] IH [of m "[] @ block"]
      by (cases "seal_loop a m (drop k d) []") simp
  qed
qed

lemma feed_sealed_chunk:
  assumes "lawful_aead a" "length n = ad_nonce_size a" "0 < length c" "length c \<le> shadowsocks_max_payload"
    and "seal_chunk a n c = (m, block)"
  shows "feed_loop a (n, block @ rest, 0) out = feed_loop a (m, rest, 0) (out @ [c])"
proof -
  let ?m = "increment_nonce n"
  define h l :: byte where "h = of_nat (length c div 256)" and "l = of_nat (length c)"
  then have hl: "[of_nat (length c div 256), of_nat (length c)] = [h, l]" by simp
  have len: "unat h * 256 + unat l = length c"
    using assms(4) by (simp add: h_def l_def unat_of_nat shadowsocks_max_payload_def)
  then have pos: "0 < unat h \<or> 0 < unat l" using assms(3) by arith
  have block: "block = ad_seal a n [h, l] @ ad_seal a ?m c" "m = increment_nonce ?m"
    using assms(5) by (simp_all add: seal_chunk_def Let_def hl)
  have law: "ad_open a k (ad_seal a k d) = Some d \<and> length (ad_seal a k d) = length d + ad_overhead a"
    if "length k = length n" for k d using assms(1,2) that by (simp add: lawful_aead_def)
  have size: "read_size a (n, block @ rest, 0) = ((?m, ad_seal a ?m c @ rest, length c), Some (Inr ()))"
    using len pos assms(4) law [of n "[h, l]"] by (simp add: read_size_def block Let_def)
  from law [of ?m c] show ?thesis unfolding feed_loop_size [OF size] by (simp add: block)
qed

lemma feed_sealed_loop:
  assumes "lawful_aead a" "length n = ad_nonce_size a"
  shows "\<exists>os. concat os = d \<and> (\<forall>rest out.
    feed_loop a (n, snd (seal_loop a n d []) @ rest, 0) out =
      feed_loop a (fst (seal_loop a n d []), rest, 0) (out @ os)) \<and>
    length (fst (seal_loop a n d [])) = ad_nonce_size a"
  using assms(2)
proof (induction "length d" arbitrary: d n rule: less_induct)
  case less
  show ?case
  proof (cases "d = []")
    case True
    then show ?thesis using less.prems by (auto simp: seal_loop.simps intro!: exI [of _ "[]"])
  next
    case False
    define k where "k = (if length d > shadowsocks_max_payload then shadowsocks_max_payload else length d)"
    have k: "length (drop k d) < length d" "0 < length (take k d)" "length (take k d) \<le> shadowsocks_max_payload"
      using False by (auto simp: k_def shadowsocks_max_payload_def)
    obtain m block where c: "seal_chunk a n (take k d) = (m, block)" by (cases "seal_chunk a n (take k d)")
    then have m: "length m = ad_nonce_size a" using less.prems by (auto simp: seal_chunk_def Let_def)
    obtain m' blocks where r: "seal_loop a m (drop k d) [] = (m', blocks)" by (cases "seal_loop a m (drop k d) []")
    have whole: "seal_loop a n d [] = (m', block @ blocks)"
      using False c r seal_loop_out [of a m "drop k d" block]
      by (simp add: seal_loop.simps [of _ _ d] Let_def k_def)
    from less.hyps [OF k(1) m] r obtain os where os: "concat os = drop k d"
      "\<And>rest out. feed_loop a (m, blocks @ rest, 0) out = feed_loop a (m', rest, 0) (out @ os)"
      "length m' = ad_nonce_size a" by auto
    have "concat (take k d # os) = d" using os(1) by simp
    moreover have "feed_loop a (n, (block @ blocks) @ rest, 0) out = feed_loop a (m', rest, 0) (out @ (take k d # os))"
      for rest out
      using feed_sealed_chunk [OF assms(1) less.prems k(2,3) c, of "blocks @ rest" out] os(2) by simp
    ultimately show ?thesis unfolding whole using os(3) by (intro exI [of _ "take k d # os"]) simp
  qed
qed

text \<open>Everything a writer seals, message by message.\<close>

fun seal_all :: "stream_writer \<Rightarrow> byte list list \<Rightarrow> byte list" where
  "seal_all w [] = []"
| "seal_all w (d # ds) = (let (w', sealed) = seal_data w d in sealed @ seal_all w' ds)"

lemma feed_sealed:
  assumes "lawful_aead (wr_aead w)" "length (wr_nonce w) = ad_nonce_size (wr_aead w)" "wr_salt_sent w"
  shows "\<exists>q os. feed_loop (wr_aead w) (wr_nonce w, seal_all w ds, 0) out = (q, Inr (out @ os)) \<and>
    concat os = concat ds"
  using assms
proof (induction ds arbitrary: w out)
  case Nil
  have "feed_loop (wr_aead w) (wr_nonce w, [], 0) out = ((wr_nonce w, [], 0), Inr out)"
    by (rule feed_loop_none [where q = "(wr_nonce w, [], 0)"]) (simp add: read_size_def)
  then show ?case by simp
next
  case (Cons d ds)
  obtain n b where l: "seal_loop (wr_aead w) (wr_nonce w) d [] = (n, b)"
    by (cases "seal_loop (wr_aead w) (wr_nonce w) d []")
  obtain w' sealed where s: "seal_data w d = (w', sealed)" by (cases "seal_data w d")
  have w': "wr_aead w' = wr_aead w \<and> wr_salt_sent w' \<and> wr_nonce w' = n \<and> sealed = b"
    using s l Cons.prems by (auto simp: seal_data_def seal_loop.simps [of _ _ "[]"] split: if_splits)
  from feed_sealed_loop [OF Cons.prems(1,2), of d] l obtain os where os: "concat os = d"
    "\<And>rest out. feed_loop (wr_aead w) (wr_nonce w, b @ rest, 0) out = feed_loop (wr_aead w) (n, rest, 0) (out @ os)"
    "length n = ad_nonce_size (wr_aead w)" by auto
  from Cons.IH [of w' "out @ os"] Cons.prems w' os(3) obtain q os' where
    "feed_loop (wr_aead w) (n, seal_all w' ds, 0) (out @ os) = (q, Inr ((out @ os) @ os'))" "concat os' = concat ds"
    by auto
  then show ?case using os s w' by (intro exI [of _ q] exI [of _ "os @ os'"]) simp
qed

text \<open>With the laws of the packages a supported method always gives the AEAD of a salt.\<close>

lemma spec_sizes:
  "method_spec_by_name name = Some spec \<Longrightarrow>
   0 < sp_salt_size spec \<and> sp_salt_size spec \<le> 32 \<and> sp_key_size spec \<in> {16, 32}"
  by (auto simp: method_spec_by_name_def split: if_splits)

lemma new_aead_total:
  assumes "lawful_ss env" "method_spec_by_name name = Some spec"
  shows "\<exists>a. new_shadowsocks_aead env spec key salt = Some a \<and> lawful_aead a"
proof -
  from spec_sizes [OF assms(2)] have "sp_key_size spec \<le> 5100" by auto
  with assms(1) obtain k where k:
    "se_hkdf env key salt shadowsocks_info (sp_key_size spec) = Some k" "length k = sp_key_size spec"
    unfolding lawful_ss_def by meson
  then have "\<exists>a. sp_new_aead spec env k = Some a \<and> lawful_aead a"
    using assms by (auto simp: method_spec_by_name_def lawful_ss_def split: if_splits)
  with k show ?thesis by (simp add: new_shadowsocks_aead_def)
qed

lemma new_stream_ends:
  assumes "lawful_ss env" "is_supported_shadowsocks_method name" "32 \<le> length random"
  obtains spec key a where "lawful_aead a" "0 < sp_salt_size spec" "sp_salt_size spec \<le> length random"
    "new_shadowsocks_aead env spec key (take (sp_salt_size spec) random) = Some a"
    "new_stream_writer env name pw random = Some (Inr \<lparr>wr_spec = spec, wr_master_key = key,
       wr_salt = take (sp_salt_size spec) random, wr_aead = a, wr_nonce = replicate (ad_nonce_size a) 0,
       wr_salt_sent = False\<rparr>)"
    "new_stream_reader env name pw = Some (Inr \<lparr>rd_spec = spec, rd_master_key = key, rd_buffer = [],
       rd_aead = None, rd_nonce = [], rd_payload_size = 0\<rparr>)"
proof -
  from assms(2) obtain spec where spec: "method_spec_by_name (normalize_shadowsocks_method name) = Some spec"
    by (auto simp: is_supported_shadowsocks_method_def)
  from derive_master_key_total [OF assms(1)] obtain key where "derive_master_key env pw (sp_key_size spec) = Some key"
    by blast
  with new_aead_total [OF assms(1) spec, of key "take (sp_salt_size spec) random"] spec_sizes [OF spec] assms(3) spec
  show ?thesis by (auto intro!: that simp: new_stream_writer_def new_stream_reader_def Let_def)
qed

lemma first_seal:
  assumes "\<not> wr_salt_sent w"
  shows "seal_all w ds = (if concat ds = [] then [] else wr_salt w @ seal_all (w\<lparr>wr_salt_sent := True\<rparr>) ds)"
  using assms
proof (induction ds)
  case (Cons d ds)
  then show ?case
    using seal_loop_out [of "wr_aead w" "wr_nonce w" d "wr_salt w"]
    by (cases "d = []") (auto simp: seal_data_def split_beta)
qed simp

lemma stream_delivered:
  assumes "lawful_ss env" "is_supported_shadowsocks_method name" "32 \<le> length random"
  shows "\<exists>w r. new_stream_writer env name pw random = Some (Inr w) \<and>
    new_stream_reader env name pw = Some (Inr r) \<and>
    (\<forall>ds pieces. concat pieces = seal_all w ds \<longrightarrow>
       (\<exists>os. snd (feed_all (ss_feed env) r pieces) = Inr os \<and> concat os = concat ds))"
proof -
  from new_stream_ends [OF assms, of pw] obtain spec key a where ends: "lawful_aead a" "0 < sp_salt_size spec"
    "sp_salt_size spec \<le> length random"
    "new_shadowsocks_aead env spec key (take (sp_salt_size spec) random) = Some a"
    "new_stream_writer env name pw random = Some (Inr \<lparr>wr_spec = spec, wr_master_key = key,
       wr_salt = take (sp_salt_size spec) random, wr_aead = a, wr_nonce = replicate (ad_nonce_size a) 0,
       wr_salt_sent = False\<rparr>)" (is "_ = Some (Inr ?w)")
    "new_stream_reader env name pw = Some (Inr \<lparr>rd_spec = spec, rd_master_key = key, rd_buffer = [],
       rd_aead = None, rd_nonce = [], rd_payload_size = 0\<rparr>)" (is "_ = Some (Inr ?r)")
    by metis
  have settled: "reader_settled ?r" using ends(2) by (simp add: reader_settled_def)
  have "\<exists>os. snd (ss_feed env ?r (seal_all ?w ds)) = Inr os \<and> concat os = concat ds" for ds
  proof (cases "concat ds = []")
    case True
    then show ?thesis using first_seal [of ?w ds] ends(2) by (auto simp: ss_feed_waits)
  next
    case False
    from feed_sealed [of "?w\<lparr>wr_salt_sent := True\<rparr>" ds "[]"] ends(1) obtain q os where
      "feed_loop a (replicate (ad_nonce_size a) 0, seal_all (?w\<lparr>wr_salt_sent := True\<rparr>) ds, 0) [] = (q, Inr os)"
      "concat os = concat ds" by auto
    then show ?thesis using False first_seal [of ?w ds] ends(3,4)
      by (auto simp: ss_feed_opens ss_drain_def split: prod.splits)
  qed
  with ends ss.any_cut [OF settled, of env] show ?thesis by (metis (no_types, lifting))
qed

lemma packet_round_trip:
  assumes "lawful_ss env" "is_supported_shadowsocks_method name" "32 \<le> length random"
  shows "\<exists>packet. encrypt_packet env name pw random d = Some (Inr packet) \<and>
    decrypt_packet env name pw packet = Some (Inr d)"
proof -
  from assms(2) obtain spec where spec: "method_spec_by_name (normalize_shadowsocks_method name) = Some spec"
    by (auto simp: is_supported_shadowsocks_method_def)
  from derive_master_key_total [OF assms(1)] obtain key where key: "derive_master_key env pw (sp_key_size spec) = Some key"
    by blast
  from new_aead_total [OF assms(1) spec, of key "take (sp_salt_size spec) random"] obtain a
    where "new_shadowsocks_aead env spec key (take (sp_salt_size spec) random) = Some a" "lawful_aead a" by auto
  with spec_sizes [OF spec] assms(3) spec key show ?thesis
    by (simp add: encrypt_packet_def decrypt_packet_def Let_def lawful_aead_def)
qed

section \<open>The property\<close>

text \<open>C17. Shadowsocks streams: with packages that keep their laws, a supported method and enough random
  bytes, a writer and a reader of the same password always exist, and whatever is written, in whatever
  messages (empty ones and ones larger than a chunk included), and however the network cuts the sealed
  stream into pieces, the reader accepts every piece and hands out exactly the bytes written, in order.\<close>

theorem shadowsocks_stream_round_trip:
  assumes "lawful_ss env" "is_supported_shadowsocks_method name" "32 \<le> length random"
  shows "\<exists>w r. new_stream_writer env name pw random = Some (Inr w) \<and>
    new_stream_reader env name pw = Some (Inr r) \<and>
    (\<forall>ds pieces. concat pieces = seal_all w ds \<longrightarrow>
       (\<exists>os. snd (feed_all (ss_feed env) r pieces) = Inr os \<and> concat os = concat ds))"
  using assms by (rule stream_delivered)

text \<open>An AEAD whose tag is the nonce, and packages that give it for every key.\<close>

definition example_tag :: "byte list \<Rightarrow> byte list" where
  "example_tag n = take 16 (n @ replicate 16 0)"

definition example_aead :: aead where
  "example_aead = \<lparr>ad_nonce_size = 12, ad_overhead = 16, ad_seal = (\<lambda>n d. d @ example_tag n),
     ad_open = (\<lambda>n c. if 16 \<le> length c \<and> drop (length c - 16) c = example_tag n
       then Some (take (length c - 16) c) else None)\<rparr>"

definition example_ss :: ss_env where
  "example_ss = \<lparr>se_md5 = (\<lambda>x. replicate 16 (of_nat (length x))), se_hkdf = (\<lambda>m s i n. Some (replicate n 7)),
     se_aes_gcm = (\<lambda>k. Some example_aead), se_chacha20 = (\<lambda>k. Some example_aead)\<rparr>"

lemma lawful_example_ss: "lawful_ss example_ss"
  by (auto simp: lawful_ss_def lawful_aead_def example_ss_def example_aead_def example_tag_def)

lemma shadowsocks_stream_round_trip_witness:
  "\<exists>w r. new_stream_writer example_ss ''aes-256-gcm'' ''secret'' (replicate 32 9) = Some (Inr w) \<and>
    new_stream_reader example_ss ''aes-256-gcm'' ''secret'' = Some (Inr r) \<and>
    (\<exists>os. snd (feed_all (ss_feed example_ss) r [take 5 (seal_all w [[1, 2], [3]]), drop 5 (seal_all w [[1, 2], [3]])])
       = Inr os \<and> concat os = [1, 2, 3])"
proof -
  have "is_supported_shadowsocks_method ''aes-256-gcm''" by code_simp
  then obtain w r where "new_stream_writer example_ss ''aes-256-gcm'' ''secret'' (replicate 32 9) = Some (Inr w)"
    "new_stream_reader example_ss ''aes-256-gcm'' ''secret'' = Some (Inr r)"
    and all: "\<And>ds pieces. concat pieces = seal_all w ds \<longrightarrow>
       (\<exists>os. snd (feed_all (ss_feed example_ss) r pieces) = Inr os \<and> concat os = concat ds)"
    using shadowsocks_stream_round_trip [OF lawful_example_ss, of "''aes-256-gcm''" "replicate 32 9" "''secret''"]
    by auto
  moreover have "concat [[1, 2], [3]] = [1, 2, 3 :: byte]" by simp
  ultimately show ?thesis
    using all [of "[take 5 (seal_all w [[1, 2], [3]]), drop 5 (seal_all w [[1, 2], [3]])]" "[[1, 2], [3]]"] by auto
qed

end
