(* ===== verification/Tunnel_Manager.thy ===== *)
theory Tunnel_Manager
  imports Model_Tunnel Validate Tunnel_Runtime Shadowsocks
begin

text \<open>
  \<open>internal/manager/tunnel_manager.go\<close>: the tunnels the server knows, as the list the code keeps in
  memory and the map from ids beside it.

  The database is outside: what a store call returns is an argument (\<open>Inl\<close> its error).  The
  players are a predicate, the set of the ids \<open>PlayerManager.Exists\<close> knows.  Broadcasts to the
  notifier are appended to a list: player, tunnel, whether it is a deletion.  Each operation runs
  under the manager's lock, so a run is a sequence of whole operations.
\<close>

section \<open>State\<close>

type_synonym notice = "u32 \<times> tunnel \<times> bool"

record tunnel_manager =
  tm_tunnels :: "tunnel list"
  tm_lookup :: "u32 \<rightharpoonup> tunnel"
  tm_runtime :: "runtime_store option"
  tm_has_notifier :: bool
  tm_notices :: "notice list"

datatype tunnel_error =
    Unsupported_Type
  | Source_Format
  | Endpoint_Format
  | No_Sender
  | No_Receiver
  | Unsupported_Method
  | Port_In_Use
  | No_Such_Tunnel
  | Store_Error string

definition new_tunnel_manager :: "runtime_store option \<Rightarrow> bool \<Rightarrow> tunnel_manager" where
  "new_tunnel_manager runtime has_notifier =
     \<lparr>tm_tunnels = [], tm_lookup = Map.empty, tm_runtime = runtime, tm_has_notifier = has_notifier,
      tm_notices = []\<rparr>"

section \<open>Normalising and validating\<close>

text \<open>A Go map is rebuilt key by key, in the order of iteration: of two keys that are equal after
  trimming the later one wins.\<close>

definition normalize_mapping :: "str_map \<Rightarrow> str_map" where
  "normalize_mapping m =
     fold (\<lambda>(k, v) n. let key = trim_space k in
       if key = '''' then n else AList.update key (trim_space v) n) m []"

definition normalize_tunnel_fields :: "tunnel \<Rightarrow> tunnel" where
  "normalize_tunnel_fields t0 =
     (let t = t0\<lparr>t_source := trim_space (t_source t0), t_endpoint := trim_space (t_endpoint t0),
               t_description := trim_space (t_description t0), t_username := trim_space (t_username t0),
               t_password := trim_space (t_password t0),
               t_encryption_method := trim_space (t_encryption_method t0),
               t_tunnel_type := wire_value (normalize_tunnel_type (t_tunnel_type t0))\<rparr>;
          t = (if normalize_tunnel_type (t_tunnel_type t) = TunnelTypeShadowsocks then
                 (let t = t\<lparr>t_username := ''''\<rparr> in
                  if t_encryption_method t = '''' then t\<lparr>t_encryption_method := default_shadowsocks_method\<rparr>
                  else t)
               else t)
      in t\<lparr>t_custom_mapping := normalize_mapping (t_custom_mapping t)\<rparr>)"

definition validate_static :: "(u32 \<Rightarrow> bool) \<Rightarrow> tunnel \<Rightarrow> tunnel_error option" where
  "validate_static players t =
     (let ty = normalize_tunnel_type (t_tunnel_type t) in
      if \<not> tunnel_type_valid ty then Some Unsupported_Type
      else if \<not> is_valid_tunnel_source_address (t_source t) then Some Source_Format
      else if requires_endpoint ty \<and> \<not> is_valid_tunnel_endpoint_address (t_endpoint t)
      then Some Endpoint_Format
      else if t_sender t \<noteq> 0 \<and> \<not> players (t_sender t) then Some No_Sender
      else if t_receiver t \<noteq> 0 \<and> \<not> players (t_receiver t) then Some No_Receiver
      else if ty = TunnelTypeShadowsocks \<and> \<not> is_supported_shadowsocks_method (t_encryption_method t)
      then Some Unsupported_Method
      else None)"

definition tunnel_listens_tcp :: "tunnel \<Rightarrow> bool" where
  "tunnel_listens_tcp t \<longleftrightarrow> normalize_tunnel_type (t_tunnel_type t) \<in>
     {TunnelTypeTCP, TunnelTypeSOCKS5, TunnelTypeHTTP, TunnelTypeShadowsocks}"

definition tunnel_listens_udp :: "tunnel \<Rightarrow> bool" where
  "tunnel_listens_udp t \<longleftrightarrow> normalize_tunnel_type (t_tunnel_type t) \<in> {TunnelTypeUDP, TunnelTypeShadowsocks}"

definition tunnels_share_listener_protocol :: "tunnel \<Rightarrow> tunnel \<Rightarrow> bool" where
  "tunnels_share_listener_protocol a b \<longleftrightarrow>
     tunnel_listens_tcp a \<and> tunnel_listens_tcp b \<or> tunnel_listens_udp a \<and> tunnel_listens_udp b"

fun port_conflict_loop :: "tunnel \<Rightarrow> u32 \<Rightarrow> u16 \<Rightarrow> tunnel list \<Rightarrow> tunnel_error option" where
  "port_conflict_loop t self_id port [] = None"
| "port_conflict_loop t self_id port (x # xs) =
     (if t_id x = self_id \<or> t_receiver x \<noteq> t_receiver t then port_conflict_loop t self_id port xs
      else (case get_tunnel_port (t_source x) of
              None \<Rightarrow> port_conflict_loop t self_id port xs
            | Some existing_port \<Rightarrow>
                if existing_port = port \<and> tunnels_share_listener_protocol x t then Some Port_In_Use
                else port_conflict_loop t self_id port xs))"

definition validate_port_conflict :: "tunnel_manager \<Rightarrow> tunnel \<Rightarrow> u32 \<Rightarrow> tunnel_error option" where
  "validate_port_conflict m t self_id =
     (case get_tunnel_port (t_source t) of
        None \<Rightarrow> None
      | Some port \<Rightarrow> port_conflict_loop t self_id port (tm_tunnels m))"

section \<open>Operations\<close>

definition broadcast_tunnel :: "u32 \<Rightarrow> tunnel \<Rightarrow> bool \<Rightarrow> tunnel_manager \<Rightarrow> tunnel_manager" where
  "broadcast_tunnel player t is_delete m =
     (if tm_has_notifier m then m\<lparr>tm_notices := tm_notices m @ [(player, t, is_delete)]\<rparr> else m)"

definition notify :: "tunnel \<Rightarrow> bool \<Rightarrow> tunnel_manager \<Rightarrow> tunnel_manager" where
  "notify t is_delete m =
     (let m = broadcast_tunnel (t_sender t) t is_delete m in
      if t_sender t \<noteq> t_receiver t then broadcast_tunnel (t_receiver t) t is_delete m else m)"

definition clear_runtime :: "u32 \<Rightarrow> tunnel_manager \<Rightarrow> tunnel_manager" where
  "clear_runtime i m = m\<lparr>tm_runtime := map_option (runtime_clear i) (tm_runtime m)\<rparr>"

definition should_clear_runtime_on_update :: "tunnel \<Rightarrow> tunnel \<Rightarrow> bool" where
  "should_clear_runtime_on_update old_t new_t \<longleftrightarrow>
     (if t_enabled old_t \<noteq> t_enabled new_t then True
      else if t_sender old_t \<noteq> t_sender new_t \<or> t_receiver old_t \<noteq> t_receiver new_t then True
      else if inlet_description old_t \<noteq> inlet_description new_t then True
      else outlet_description old_t \<noteq> outlet_description new_t)"

definition rebuild_lookup :: "tunnel list \<Rightarrow> u32 \<rightharpoonup> tunnel" where
  "rebuild_lookup ts = fold (\<lambda>t lk. lk(t_id t \<mapsto> t)) ts Map.empty"

definition tm_load_all :: "string + tunnel list \<Rightarrow> tunnel_manager \<Rightarrow> tunnel_error option \<times> tunnel_manager" where
  "tm_load_all found m =
     (case found of
        Inl e \<Rightarrow> (Some (Store_Error e), m)
      | Inr tunnels0 \<Rightarrow>
          let tunnels = map normalize_tunnel_fields tunnels0 in
          (None, m\<lparr>tm_tunnels := tunnels, tm_lookup := rebuild_lookup tunnels\<rparr>))"

definition tm_all :: "tunnel_manager \<Rightarrow> tunnel list" where
  "tm_all m = tm_tunnels m"

definition tm_query :: "tunnel_manager \<Rightarrow> int \<Rightarrow> int \<Rightarrow> tunnel list" where
  "tm_query m page_number page_size =
     (let page_size = (if page_size \<le> 0 \<or> page_size > 100 then 10 else page_size);
          page_number = (if page_number < 0 then 0 else page_number);
          start = page_number * page_size
      in if start \<ge> int (length (tm_tunnels m)) then []
         else let stop = (if start + page_size > int (length (tm_tunnels m))
                          then int (length (tm_tunnels m)) else start + page_size)
              in take (nat (stop - start)) (drop (nat start) (tm_tunnels m)))"

definition tm_count :: "tunnel_manager \<Rightarrow> nat" where
  "tm_count m = length (tm_tunnels m)"

definition tm_get :: "tunnel_manager \<Rightarrow> u32 \<Rightarrow> tunnel option" where
  "tm_get m i = tm_lookup m i"

definition tm_by_player :: "tunnel_manager \<Rightarrow> u32 \<Rightarrow> tunnel list" where
  "tm_by_player m p = filter (\<lambda>t. t_sender t = p \<or> t_receiver t = p) (tm_tunnels m)"

definition tm_add ::
  "(u32 \<Rightarrow> bool) \<Rightarrow> string + u32 \<Rightarrow> tunnel \<Rightarrow> tunnel_manager \<Rightarrow> (tunnel_error + tunnel) \<times> tunnel_manager" where
  "tm_add players inserted t0 m =
     (let t = normalize_tunnel_fields t0 in
      case validate_static players t of
        Some e \<Rightarrow> (Inl e, m)
      | None \<Rightarrow>
          (case validate_port_conflict m t 0 of
             Some e \<Rightarrow> (Inl e, m)
           | None \<Rightarrow>
               (case inserted of
                  Inl e \<Rightarrow> (Inl (Store_Error e), m)
                | Inr i \<Rightarrow>
                    let t = t\<lparr>t_id := i\<rparr>;
                        m = m\<lparr>tm_tunnels := tm_tunnels m @ [t], tm_lookup := (tm_lookup m)(i \<mapsto> t)\<rparr>
                    in (Inr t, notify t False m))))"

text \<open>The loop that replaces the first list entry of the id; \<open>None\<close> if there is none.\<close>

fun replace_first :: "tunnel \<Rightarrow> tunnel list \<Rightarrow> tunnel list option" where
  "replace_first t [] = None"
| "replace_first t (x # xs) =
     (if t_id x = t_id t then Some (t # xs) else map_option ((#) x) (replace_first t xs))"

definition tm_update ::
  "(u32 \<Rightarrow> bool) \<Rightarrow> string option \<Rightarrow> tunnel \<Rightarrow> tunnel_manager \<Rightarrow> tunnel_error option \<times> tunnel_manager" where
  "tm_update players stored t0 m =
     (let t = normalize_tunnel_fields t0 in
      case validate_static players t of
        Some e \<Rightarrow> (Some e, m)
      | None \<Rightarrow>
          (case tm_lookup m (t_id t) of
             None \<Rightarrow> (Some No_Such_Tunnel, m)
           | Some old \<Rightarrow>
               (case validate_port_conflict m t (t_id t) of
                  Some e \<Rightarrow> (Some e, m)
                | None \<Rightarrow>
                    (case stored of
                       Some e \<Rightarrow> (Some (Store_Error e), m)
                     | None \<Rightarrow>
                         let m = (if should_clear_runtime_on_update old t then clear_runtime (t_id t) m else m) in
                         (case replace_first t (tm_tunnels m) of
                            None \<Rightarrow> (Some No_Such_Tunnel, m)
                          | Some ts \<Rightarrow>
                              let m = m\<lparr>tm_tunnels := ts, tm_lookup := (tm_lookup m)(t_id t \<mapsto> t)\<rparr>;
                                  m = (if t_sender old \<noteq> t_sender t
                                       then broadcast_tunnel (t_sender old) t True m else m);
                                  m = (if t_receiver old \<noteq> t_receiver t
                                       then broadcast_tunnel (t_receiver old) t True m else m)
                              in (None, notify t False m))))))"

text \<open>The loop that removes the first list entry of the id.\<close>

fun remove_first :: "u32 \<Rightarrow> tunnel list \<Rightarrow> (tunnel \<times> tunnel list) option" where
  "remove_first i [] = None"
| "remove_first i (x # xs) =
     (if t_id x = i then Some (x, xs) else map_option (\<lambda>(t, ys). (t, x # ys)) (remove_first i xs))"

definition tm_delete ::
  "string option \<Rightarrow> u32 \<Rightarrow> tunnel_manager \<Rightarrow> tunnel_error option \<times> tunnel_manager" where
  "tm_delete stored i m =
     (case stored of
        Some e \<Rightarrow> (Some (Store_Error e), m)
      | None \<Rightarrow>
          let m = clear_runtime i m in
          (case remove_first i (tm_tunnels m) of
             None \<Rightarrow> (None, m)
           | Some (t, ts) \<Rightarrow>
               (None, notify t True (m\<lparr>tm_tunnels := ts, tm_lookup := (tm_lookup m)(i := None)\<rparr>))))"

section \<open>The invariant\<close>

definition listen_conflict :: "tunnel \<Rightarrow> tunnel \<Rightarrow> bool" where
  "listen_conflict a b \<longleftrightarrow> t_receiver a = t_receiver b \<and>
     get_tunnel_port (t_source a) \<noteq> None \<and>
     get_tunnel_port (t_source a) = get_tunnel_port (t_source b) \<and> tunnels_share_listener_protocol a b"

definition no_conflicts :: "tunnel list \<Rightarrow> bool" where
  "no_conflicts ts \<longleftrightarrow>
     (\<forall>a \<in> set ts. \<forall>b \<in> set ts. t_id a \<noteq> t_id b \<longrightarrow> \<not> listen_conflict a b)"

definition tm_inv :: "tunnel_manager \<Rightarrow> bool" where
  "tm_inv m \<longleftrightarrow> distinct (map t_id (tm_tunnels m)) \<and> 0 \<notin> t_id ` set (tm_tunnels m) \<and>
     tm_lookup m = map_of (map (\<lambda>t. (t_id t, t)) (tm_tunnels m)) \<and> no_conflicts (tm_tunnels m)"

lemma listen_conflict_sym: "listen_conflict a b \<longleftrightarrow> listen_conflict b a"
  by (auto simp: listen_conflict_def tunnels_share_listener_protocol_def)

lemma port_conflict_loop_None:
  "get_tunnel_port (t_source t) = Some port \<Longrightarrow>
   port_conflict_loop t self_id port ts = None \<longleftrightarrow>
     (\<forall>x \<in> set ts. t_id x \<noteq> self_id \<longrightarrow> \<not> listen_conflict x t)"
  by (induction ts) (auto simp: listen_conflict_def split: option.split)

lemma validate_port_conflict_None:
  "validate_port_conflict m t self_id = None \<longleftrightarrow>
     (\<forall>x \<in> set (tm_tunnels m). t_id x \<noteq> self_id \<longrightarrow> \<not> listen_conflict x t)"
  by (auto simp: validate_port_conflict_def port_conflict_loop_None listen_conflict_def
      split: option.split)

lemma listen_conflict_id [simp]:
  "listen_conflict x (t\<lparr>t_id := i\<rparr>) = listen_conflict x t"
  by (simp add: listen_conflict_def tunnels_share_listener_protocol_def tunnel_listens_tcp_def
      tunnel_listens_udp_def)

lemma broadcast_frame [simp]:
  "tm_tunnels (broadcast_tunnel p t d m) = tm_tunnels m"
  "tm_lookup (broadcast_tunnel p t d m) = tm_lookup m"
  "tm_tunnels (notify t d m) = tm_tunnels m" "tm_lookup (notify t d m) = tm_lookup m"
  "tm_tunnels (clear_runtime i m) = tm_tunnels m" "tm_lookup (clear_runtime i m) = tm_lookup m"
  by (simp_all add: broadcast_tunnel_def notify_def clear_runtime_def Let_def)

lemma tm_inv_frame:
  "tm_tunnels m' = tm_tunnels m \<Longrightarrow> tm_lookup m' = tm_lookup m \<Longrightarrow> tm_inv m' = tm_inv m"
  by (simp add: tm_inv_def)

lemma rebuild_lookup_map_of:
  "distinct (map t_id ts) \<Longrightarrow> rebuild_lookup ts = map_of (map (\<lambda>t. (t_id t, t)) ts)"
proof -
  have "fold (\<lambda>t lk. lk(t_id t \<mapsto> t)) ts lk = lk ++ map_of (map (\<lambda>t. (t_id t, t)) ts)"
    if "distinct (map t_id ts)" for lk
    using that
  proof (induction ts arbitrary: lk)
    case (Cons t ts)
    then have "t_id t \<notin> dom (map_of (map (\<lambda>t. (t_id t, t)) ts))"
      by (auto simp: dom_map_of_conv_image_fst)
    with Cons show ?case by (simp add: map_add_upd_left del: fun_upd_apply)
  qed simp
  then show "distinct (map t_id ts) \<Longrightarrow> ?thesis" by (simp add: rebuild_lookup_def)
qed

lemma lookup_iff:
  assumes "tm_inv m"
  shows "tm_lookup m i = Some t \<longleftrightarrow> t \<in> set (tm_tunnels m) \<and> t_id t = i"
proof -
  have "distinct (map fst (map (\<lambda>t. (t_id t, t)) (tm_tunnels m)))"
    using assms by (simp add: tm_inv_def comp_def)
  from map_of_eq_Some_iff [OF this] assms show ?thesis by (auto simp: tm_inv_def)
qed

lemma tm_inv_unique:
  "tm_inv m \<Longrightarrow> a \<in> set (tm_tunnels m) \<Longrightarrow> b \<in> set (tm_tunnels m) \<Longrightarrow> t_id a = t_id b \<longleftrightarrow> a = b"
  by (metis lookup_iff option.inject)

lemma replace_first_list:
  "t \<in> set ts \<Longrightarrow> t_id t = t_id t' \<Longrightarrow> distinct (map t_id ts) \<Longrightarrow>
     replace_first t' ts = Some (map (\<lambda>x. if t_id x = t_id t' then t' else x) ts)"
proof (induction ts)
  case (Cons x ts)
  show ?case
  proof (cases "t_id x = t_id t'")
    case True
    with Cons.prems have "t_id t' \<notin> t_id ` set ts" by auto
    then have "map (\<lambda>x. if t_id x = t_id t' then t' else x) ts = ts"
      by (intro map_idI) (metis imageI)
    with True show ?thesis by simp
  qed (use Cons in auto)
qed simp

lemma remove_first_list:
  "distinct (map t_id ts) \<Longrightarrow> remove_first i ts =
     (case map_of (map (\<lambda>t. (t_id t, t)) ts) i of
        None \<Rightarrow> None | Some t \<Rightarrow> Some (t, filter (\<lambda>x. t_id x \<noteq> i) ts))"
proof (induction ts)
  case (Cons x ts)
  show ?case
  proof (cases "t_id x = i")
    case True
    with Cons.prems have "filter (\<lambda>x. t_id x \<noteq> i) ts = ts"
      by (intro filter_True) (metis imageI distinct.simps(2) list.map(2) list.set_map)
    with True show ?thesis by simp
  qed (use Cons in \<open>auto split: option.split\<close>)
qed simp

lemma map_of_replace:
  "map_of (map (\<lambda>t. (t_id t, t)) (map (\<lambda>x. if t_id x = t_id t' then t' else x) ts)) =
     (if t_id t' \<in> t_id ` set ts then (map_of (map (\<lambda>t. (t_id t, t)) ts))(t_id t' \<mapsto> t')
      else map_of (map (\<lambda>t. (t_id t, t)) ts))"
  by (induction ts) (auto simp: fun_upd_twist)

lemma map_of_filter:
  "map_of (map (\<lambda>t. (t_id t, t)) (filter (\<lambda>x. t_id x \<noteq> i) ts)) =
     (map_of (map (\<lambda>t. (t_id t, t)) ts))(i := None)"
  by (induction ts) (auto simp: fun_upd_twist)

section \<open>Every operation keeps it\<close>

text \<open>The database's own guarantee: a new row gets an id that is not 0 and not in use.\<close>

definition fresh_id :: "tunnel_manager \<Rightarrow> string + u32 \<Rightarrow> bool" where
  "fresh_id m inserted \<longleftrightarrow>
     (case inserted of Inl _ \<Rightarrow> True | Inr i \<Rightarrow> i \<noteq> 0 \<and> i \<notin> t_id ` set (tm_tunnels m))"

lemma tm_add_inv [inv_intros]:
  assumes "tm_inv m" "fresh_id m inserted" "tm_add players inserted t m = (r, m')"
  shows "tm_inv m'"
proof (cases r)
  case (Inl e)
  with assms show ?thesis
    by (auto simp: tm_add_def Let_def split: option.splits sum.splits)
next
  case (Inr t')
  let ?t = "normalize_tunnel_fields t"
  from assms(3) Inr obtain i where i: "inserted = Inr i"
    and free: "validate_port_conflict m ?t 0 = None"
    and m': "m' = notify (?t\<lparr>t_id := i\<rparr>) False (m\<lparr>tm_tunnels := tm_tunnels m @ [?t\<lparr>t_id := i\<rparr>],
      tm_lookup := (tm_lookup m)(i \<mapsto> ?t\<lparr>t_id := i\<rparr>)\<rparr>)"
    by (auto simp: tm_add_def Let_def split: option.splits sum.splits)
  from assms(1,2) i have ids: "i \<noteq> 0" "i \<notin> t_id ` set (tm_tunnels m)" "0 \<notin> t_id ` set (tm_tunnels m)"
    by (auto simp: fresh_id_def tm_inv_def)
  then have "\<forall>x \<in> set (tm_tunnels m). \<not> listen_conflict x ?t"
    using free by (auto simp: validate_port_conflict_None)
  then have "no_conflicts (tm_tunnels m @ [?t\<lparr>t_id := i\<rparr>])"
    using assms(1) by (auto simp: tm_inv_def no_conflicts_def listen_conflict_sym [of "?t\<lparr>t_id := i\<rparr>"])
  moreover have "map_of (map (\<lambda>t. (t_id t, t)) (tm_tunnels m @ [?t\<lparr>t_id := i\<rparr>])) =
      (tm_lookup m)(i \<mapsto> ?t\<lparr>t_id := i\<rparr>)"
  proof -
    have "i \<notin> dom (tm_lookup m)"
      using ids(2) lookup_iff [OF assms(1), of i] by (auto simp: dom_def)
    with assms(1) show ?thesis by (simp add: tm_inv_def map_add_upd_left)
  qed
  ultimately show ?thesis
    using assms(1) ids unfolding m' tm_inv_def by simp
qed

lemma normalize_id [simp]: "t_id (normalize_tunnel_fields t) = t_id t"
  by (simp add: normalize_tunnel_fields_def Let_def)

lemma replace_first_known:
  assumes "tm_inv m" "tm_lookup m (t_id t) = Some old"
  shows "replace_first t (tm_tunnels m) =
     Some (map (\<lambda>x. if t_id x = t_id t then t else x) (tm_tunnels m))"
  by (rule replace_first_list [of old]) (use lookup_iff [OF assms(1)] assms in \<open>auto simp: tm_inv_def\<close>)

text \<open>What a successful update leaves, as one list, one map update and its notices.\<close>

definition update_notices :: "tunnel \<Rightarrow> tunnel \<Rightarrow> notice list" where
  "update_notices old t =
     (if t_sender old \<noteq> t_sender t then [(t_sender old, t, True)] else []) @
     (if t_receiver old \<noteq> t_receiver t then [(t_receiver old, t, True)] else []) @
     (t_sender t, t, False) # (if t_sender t \<noteq> t_receiver t then [(t_receiver t, t, False)] else [])"

lemma tm_update_cases:
  assumes inv: "tm_inv m"
  shows "tm_update players stored t0 m =
    (let t = normalize_tunnel_fields t0 in
     case validate_static players t of Some e \<Rightarrow> (Some e, m) | None \<Rightarrow>
     case tm_lookup m (t_id t) of None \<Rightarrow> (Some No_Such_Tunnel, m) | Some old \<Rightarrow>
     case validate_port_conflict m t (t_id t) of Some e \<Rightarrow> (Some e, m) | None \<Rightarrow>
     case stored of Some e \<Rightarrow> (Some (Store_Error e), m) | None \<Rightarrow>
       (None, m\<lparr>tm_tunnels := map (\<lambda>x. if t_id x = t_id t then t else x) (tm_tunnels m),
         tm_lookup := (tm_lookup m)(t_id t \<mapsto> t),
         tm_runtime := (if should_clear_runtime_on_update old t
                        then map_option (runtime_clear (t_id t)) (tm_runtime m) else tm_runtime m),
         tm_notices := tm_notices m @ (if tm_has_notifier m then update_notices old t else [])\<rparr>))"
proof -
  define t where "t = normalize_tunnel_fields t0"
  show ?thesis
  proof (cases "validate_static players t = None \<and> tm_lookup m (t_id t) \<noteq> None")
    case True
    then obtain old where old: "validate_static players t = None" "tm_lookup m (t_id t) = Some old"
      by auto
    note rep = replace_first_known [OF inv old(2)]
    from old rep show ?thesis
      unfolding tm_update_def t_def [symmetric] Let_def
      by (cases "validate_port_conflict m t (t_id t)"; cases stored)
        (simp_all add: clear_runtime_def broadcast_tunnel_def notify_def update_notices_def)
  next
    case False
    then show ?thesis
      unfolding tm_update_def t_def [symmetric] Let_def
      by (cases "validate_static players t"; cases "tm_lookup m (t_id t)") simp_all
  qed
qed

lemma tm_update_shape:
  assumes inv: "tm_inv m" and call: "tm_update players stored t m = (None, m')"
  obtains old where "tm_lookup m (t_id t) = Some old"
    "validate_port_conflict m (normalize_tunnel_fields t) (t_id t) = None"
    "tm_tunnels m' = map (\<lambda>x. if t_id x = t_id t then normalize_tunnel_fields t else x) (tm_tunnels m)"
    "tm_lookup m' = (tm_lookup m)(t_id t \<mapsto> normalize_tunnel_fields t)"
    "tm_notices m' = tm_notices m @
       (if tm_has_notifier m then update_notices old (normalize_tunnel_fields t) else [])"
  using call unfolding tm_update_cases [OF inv] Let_def normalize_id
  by (auto split: option.splits simp del: fun_upd_apply)

lemma tm_update_error:
  "tm_inv m \<Longrightarrow> tm_update players stored t m = (Some e, m') \<Longrightarrow> m' = m"
  by (simp add: tm_update_cases Let_def split: option.splits)

lemma no_conflicts_replace:
  assumes "no_conflicts ts" "\<forall>x \<in> set ts. t_id x \<noteq> t_id t \<longrightarrow> \<not> listen_conflict x t"
  shows "no_conflicts (map (\<lambda>x. if t_id x = t_id t then t else x) ts)"
  unfolding no_conflicts_def
proof (intro ballI impI)
  let ?ts = "map (\<lambda>x. if t_id x = t_id t then t else x) ts"
  fix a b assume ab: "a \<in> set ?ts" "b \<in> set ?ts" "t_id a \<noteq> t_id b"
  have "x \<in> set ts \<and> t_id x \<noteq> t_id t \<or> x = t" if "x \<in> set ?ts" for x
  proof -
    from that obtain y where "y \<in> set ts" "x = (if t_id y = t_id t then t else y)" by (auto simp only: set_map image_iff)
    then show ?thesis by (cases "t_id y = t_id t") simp_all
  qed
  with ab have "a \<in> set ts \<and> t_id a \<noteq> t_id t \<or> a = t" "b \<in> set ts \<and> t_id b \<noteq> t_id t \<or> b = t"
    by blast+
  with ab(3) assms listen_conflict_sym [of a b] show "\<not> listen_conflict a b"
    unfolding no_conflicts_def by blast
qed

lemma map_of_replace_known:
  "map_of (map (\<lambda>t. (t_id t, t)) ts) (t_id t') = Some old \<Longrightarrow>
   map_of (map (\<lambda>t. (t_id t, t)) (map (\<lambda>x. if t_id x = t_id t' then t' else x) ts)) =
     (map_of (map (\<lambda>t. (t_id t, t)) ts))(t_id t' \<mapsto> t')"
proof -
  assume "map_of (map (\<lambda>t. (t_id t, t)) ts) (t_id t') = Some old"
  from map_of_SomeD [OF this] have "t_id t' \<in> t_id ` set ts" by (simp only: set_map image_iff) blast
  then show ?thesis by (simp only: map_of_replace if_True)
qed

lemma ids_replace:
  "map t_id (map (\<lambda>x. if t_id x = t_id t then t else x) ts) = map t_id ts"
  by (induction ts) simp_all

lemma tm_inv_replace:
  assumes "tm_inv m" "tm_lookup m (t_id t) = Some old" "validate_port_conflict m t (t_id t) = None"
    "tm_tunnels m' = map (\<lambda>x. if t_id x = t_id t then t else x) (tm_tunnels m)"
    "tm_lookup m' = (tm_lookup m)(t_id t \<mapsto> t)"
  shows "tm_inv m'"
proof -
  let ?ts = "map (\<lambda>x. if t_id x = t_id t then t else x) (tm_tunnels m)"
  from assms(1) have m: "distinct (map t_id (tm_tunnels m))" "0 \<notin> set (map t_id (tm_tunnels m))"
    "tm_lookup m = map_of (map (\<lambda>t. (t_id t, t)) (tm_tunnels m))" "no_conflicts (tm_tunnels m)"
    by (simp_all add: tm_inv_def)
  have "distinct (map t_id ?ts)" "0 \<notin> set (map t_id ?ts)"
    using m(1,2) by (simp_all only: ids_replace not_False_eq_True)
  moreover have "(tm_lookup m)(t_id t \<mapsto> t) = map_of (map (\<lambda>t. (t_id t, t)) ?ts)"
    using map_of_replace_known [OF assms(2) [unfolded m(3)]] unfolding m(3) by (rule sym)
  moreover have "no_conflicts ?ts"
    by (rule no_conflicts_replace [OF m(4) assms(3) [unfolded validate_port_conflict_None]])
  ultimately show ?thesis
    unfolding tm_inv_def assms(4,5) set_map [symmetric] by (intro conjI)
qed

lemma tm_update_inv [inv_intros]:
  assumes inv: "tm_inv m" and call: "tm_update players stored t m = (r, m')"
  shows "tm_inv m'"
proof (cases r)
  case (Some e)
  with tm_update_error [OF inv] call inv show ?thesis by blast
next
  case None
  from call [unfolded None] show ?thesis
    by (rule tm_update_shape [OF inv])
      (rule tm_inv_replace [OF inv, of "normalize_tunnel_fields t"]; simp only: normalize_id)
qed

lemma tm_delete_shape:
  assumes inv: "tm_inv m"
  shows "fst (tm_delete None i m) = None \<and>
    tm_tunnels (snd (tm_delete None i m)) = filter (\<lambda>x. t_id x \<noteq> i) (tm_tunnels m) \<and>
    tm_lookup (snd (tm_delete None i m)) = (tm_lookup m)(i := None)"
proof -
  have "distinct (map t_id (tm_tunnels m))" using inv by (simp add: tm_inv_def)
  then have rem: "remove_first i (tm_tunnels m) = (case tm_lookup m i of
        None \<Rightarrow> None | Some t \<Rightarrow> Some (t, filter (\<lambda>x. t_id x \<noteq> i) (tm_tunnels m)))"
    using inv remove_first_list [of "tm_tunnels m" i] by (simp add: tm_inv_def)
  show ?thesis
  proof (cases "tm_lookup m i")
    case None
    then have "\<forall>x \<in> set (tm_tunnels m). t_id x \<noteq> i" using lookup_iff [OF inv, of i] by auto
    then have "filter (\<lambda>x. t_id x \<noteq> i) (tm_tunnels m) = tm_tunnels m" by (simp add: filter_id_conv)
    with None rem show ?thesis
      by (simp add: tm_delete_def Let_def fun_upd_idem)
  qed (simp add: tm_delete_def Let_def rem)
qed

lemma distinct_filter_ids: "distinct (map t_id ts) \<Longrightarrow> distinct (map t_id (filter P ts))"
  by (induction ts) auto

lemma tm_delete_inv [inv_intros]:
  assumes inv: "tm_inv m" and call: "tm_delete stored i m = (r, m')"
  shows "tm_inv m'"
proof (cases stored)
  case None
  from tm_delete_shape [OF inv, of i] call None
  have shape: "tm_tunnels m' = filter (\<lambda>x. t_id x \<noteq> i) (tm_tunnels m)"
    "tm_lookup m' = (tm_lookup m)(i := None)" by simp_all
  have "no_conflicts (tm_tunnels m')"
    using inv unfolding shape by (simp add: tm_inv_def no_conflicts_def)
  with inv show ?thesis
    unfolding tm_inv_def shape map_of_filter by (auto intro: distinct_filter_ids)
qed (use inv call in \<open>simp add: tm_delete_def\<close>)

text \<open>A run: the manager loads tables that hold distinct non-zero ids and no two tunnels in conflict,
  then serves requests in any order.\<close>

inductive tm_run :: "tunnel_manager \<Rightarrow> bool" where
  load: "distinct (map t_id ts) \<Longrightarrow> 0 \<notin> t_id ` set ts \<Longrightarrow> no_conflicts (map normalize_tunnel_fields ts) \<Longrightarrow>
    tm_run (snd (tm_load_all (Inr ts) (new_tunnel_manager rt has_notifier)))"
| add: "tm_run m \<Longrightarrow> fresh_id m inserted \<Longrightarrow> tm_add players inserted t m = (r, m') \<Longrightarrow> tm_run m'"
| update: "tm_run m \<Longrightarrow> tm_update players stored t m = (e, m') \<Longrightarrow> tm_run m'"
| delete: "tm_run m \<Longrightarrow> tm_delete stored i m = (e, m') \<Longrightarrow> tm_run m'"

lemma normalize_ids: "map t_id (map normalize_tunnel_fields ts) = map t_id ts"
  by (induction ts) simp_all

lemma tm_run_inv: "tm_run m \<Longrightarrow> tm_inv m"
proof (induction rule: tm_run.induct)
  case (load ts rt has_notifier)
  let ?ts = "map normalize_tunnel_fields ts"
  have ids: "distinct (map t_id ?ts)" "0 \<notin> set (map t_id ?ts)"
    using load by (simp_all only: normalize_ids set_map not_False_eq_True)
  from rebuild_lookup_map_of [OF ids(1)] ids load(3) show ?case
    unfolding tm_load_all_def tm_inv_def Let_def by (simp del: map_map)
qed (auto intro: inv_intros)

section \<open>Normal forms\<close>

lemma update_fresh: "k \<notin> fst ` set xs \<Longrightarrow> AList.update k v xs = xs @ [(k, v)]"
  by (induction xs) auto

text \<open>A mapping is normal when its keys are distinct, not blank, and no entry has space around it.\<close>

definition mapping_normal :: "str_map \<Rightarrow> bool" where
  "mapping_normal m \<longleftrightarrow> distinct (map fst m) \<and>
     (\<forall>(k, v) \<in> set m. k \<noteq> '''' \<and> trim_space k = k \<and> trim_space v = v)"

lemma mapping_normal_update:
  "mapping_normal m \<Longrightarrow> k \<noteq> '''' \<Longrightarrow> trim_space k = k \<Longrightarrow> trim_space v = v \<Longrightarrow>
   mapping_normal (AList.update k v m)"
proof (induction m)
  case (Cons x m)
  then have tail: "mapping_normal m" and x: "fst x \<notin> fst ` set m" by (auto simp: mapping_normal_def)
  show ?case
  proof (cases "fst x = k")
    case False
    moreover have "fst x \<notin> fst ` set (AList.update k v m)"
      using False x dom_update [of k v m] by simp
    ultimately show ?thesis
      using Cons.IH [OF tail Cons.prems(2-)] Cons.prems(1) by (cases x) (simp add: mapping_normal_def)
  qed (use Cons.prems in \<open>cases x; auto simp: mapping_normal_def\<close>)
qed (simp add: mapping_normal_def)

lemma normalize_mapping_normal: "mapping_normal (normalize_mapping m)"
proof -
  have "mapping_normal n \<Longrightarrow> mapping_normal (fold (\<lambda>(k, v) n. let key = trim_space k in
       if key = '''' then n else AList.update key (trim_space v) n) m n)" for n
    by (induction m arbitrary: n) (auto simp: Let_def mapping_normal_update)
  from this [of "[]"] show ?thesis by (simp add: normalize_mapping_def) (simp add: mapping_normal_def)
qed

lemma normalize_mapping_id: "mapping_normal m \<Longrightarrow> normalize_mapping m = m"
proof -
  have "mapping_normal (n @ m) \<Longrightarrow> fold (\<lambda>(k, v) n. let key = trim_space k in
       if key = '''' then n else AList.update key (trim_space v) n) m n = n @ m" for n
  proof (induction m arbitrary: n)
    case (Cons x m)
    obtain k v where x: "x = (k, v)" by fastforce
    with Cons.prems have "k \<noteq> ''''" "trim_space k = k" "trim_space v = v" "k \<notin> fst ` set n"
      by (auto simp: mapping_normal_def)
    moreover have "mapping_normal ((n @ [x]) @ m)" using Cons.prems by simp
    ultimately show ?case using Cons.IH [of "n @ [x]"] by (simp add: x Let_def update_fresh)
  qed simp
  from this [of "[]"] show "mapping_normal m \<Longrightarrow> normalize_mapping m = m"
    by (simp add: normalize_mapping_def)
qed

lemma normalize_mapping_idem [simp]: "normalize_mapping (normalize_mapping m) = normalize_mapping m"
  by (rule normalize_mapping_id) (rule normalize_mapping_normal)

lemma trim_space_blank [simp]: "trim_space '''' = ''''"
  by (simp add: trim_space_def trim_left_def trim_right_def trim_prefixes_id has_prefix_def)

lemma trim_space_default [simp]: "trim_space default_shadowsocks_method = default_shadowsocks_method"
  unfolding default_shadowsocks_method_def by code_simp

lemma default_method_not_blank: "default_shadowsocks_method \<noteq> ''''"
  by (simp add: default_shadowsocks_method_def)

lemma type_4: "normalize_tunnel_type 4 = TunnelTypeShadowsocks"
  by (simp add: normalize_tunnel_type_def)

lemma normalize_idem [simp]:
  "normalize_tunnel_fields (normalize_tunnel_fields t) = normalize_tunnel_fields t"
  unfolding normalize_tunnel_fields_def Let_def
  by (cases t) (simp add: default_method_not_blank default_method_not_blank [symmetric] type_4)

lemma normalize_set_id:
  "normalize_tunnel_fields (t\<lparr>t_id := i\<rparr>) = (normalize_tunnel_fields t)\<lparr>t_id := i\<rparr>"
  by (cases t) (simp add: normalize_tunnel_fields_def Let_def)

text \<open>Every tunnel in memory is in normal form, so a reload of the table the manager has written
  gives exactly what it has in memory.\<close>

lemma tm_run_normal: "tm_run m \<Longrightarrow> \<forall>t \<in> set (tm_tunnels m). normalize_tunnel_fields t = t"
proof (induction rule: tm_run.induct)
  case (load ts rt has_notifier)
  show ?case by (simp add: tm_load_all_def Let_def)
next
  case (add m inserted players t r m')
  then show ?case
    by (auto simp: tm_add_def Let_def normalize_set_id split: option.splits sum.splits)
next
  case (update m players stored t e m')
  show ?case
  proof (cases e)
    case None
    with update.hyps(2) have "tm_update players stored t m = (None, m')" by simp
    then obtain old where "tm_tunnels m' =
        map (\<lambda>x. if t_id x = t_id t then normalize_tunnel_fields t else x) (tm_tunnels m)"
      by (rule tm_update_shape [OF tm_run_inv [OF update.hyps(1)]])
    with update.IH show ?thesis by (simp only: set_map) auto
  next
    case (Some e')
    with tm_update_error [OF tm_run_inv [OF update.hyps(1)], of players stored t e' m'] update
    show ?thesis by simp
  qed
next
  case (delete m stored i e m')
  show ?case
  proof (cases stored)
    case None
    with tm_delete_shape [OF tm_run_inv [OF delete.hyps(1)], of i] delete show ?thesis by simp
  qed (use delete in \<open>simp add: tm_delete_def\<close>)
qed

section \<open>Properties\<close>

definition sample_tunnel :: tunnel where
  "sample_tunnel =
     \<lparr>t_id = 0, t_source = '':7000'', t_endpoint = '''', t_enabled = True, t_sender = 1,
      t_receiver = 2, t_description = ''web'', t_tunnel_type = 2, t_password = '''', t_username = '''',
      t_is_compressed = False, t_custom_mapping = [], t_encryption_method = ''''\<rparr>"

definition example_manager :: tunnel_manager where
  "example_manager = snd (tm_load_all (Inr [sample_tunnel\<lparr>t_id := 5\<rparr>])
     (new_tunnel_manager (Some Map.empty) True))"

lemma example_manager_run: "tm_run example_manager"
  unfolding example_manager_def by (rule tm_run.load) (simp_all add: sample_tunnel_def no_conflicts_def)

text \<open>C11.  Whatever sequence of additions, updates and deletions the manager has served, its list
  and its lookup map hold the same tunnels under distinct ids, and no two tunnels of one receiver
  listen on the same port for the same protocol.\<close>

theorem tunnels_consistent:
  assumes "tm_run m"
  shows "distinct (map t_id (tm_all m)) \<and>
    (\<forall>i t. (tm_get m i = Some t) = (t \<in> set (tm_all m) \<and> t_id t = i)) \<and>
    (\<forall>a \<in> set (tm_all m). \<forall>b \<in> set (tm_all m). a \<noteq> b \<longrightarrow> \<not> listen_conflict a b)"
proof -
  note inv = tm_run_inv [OF assms]
  have "t_id a \<noteq> t_id b" if "a \<in> set (tm_all m)" "b \<in> set (tm_all m)" "a \<noteq> b" for a b
    using that tm_inv_unique [OF inv] by (simp add: tm_all_def)
  with inv lookup_iff [OF inv] show ?thesis
    by (auto simp: tm_inv_def tm_all_def tm_get_def no_conflicts_def)
qed

theorem tunnels_consistent_witness:
  "tm_get example_manager 5 = Some (sample_tunnel\<lparr>t_id := 5\<rparr>)"
proof -
  have "tm_all example_manager = [normalize_tunnel_fields (sample_tunnel\<lparr>t_id := 5\<rparr>)]"
    by (simp add: example_manager_def tm_load_all_def tm_all_def Let_def)
  also have "normalize_tunnel_fields (sample_tunnel\<lparr>t_id := 5\<rparr>) = sample_tunnel\<lparr>t_id := 5\<rparr>"
    unfolding sample_tunnel_def by code_simp
  finally show ?thesis
    using tunnels_consistent [OF example_manager_run] by (simp add: sample_tunnel_def)
qed

text \<open>C36.  An update the manager refuses changes nothing.  One it accepts replaces the tunnel of that
  id by the normalised one and no other, tells every former owner that has lost the tunnel to delete
  it before the present owners are told of the new one, and forgets the runtime report only when
  the change is one that restarts an end of the tunnel.\<close>

theorem tunnel_update_effect:
  assumes "tm_run m" and "tm_update players stored t0 m = (e, m')"
  shows "(e \<noteq> None \<longrightarrow> m' = m) \<and> (e = None \<longrightarrow> (\<exists>old. let t = normalize_tunnel_fields t0 in
      tm_get m (t_id t) = Some old \<and>
      tm_all m' = map (\<lambda>x. if x = old then t else x) (tm_all m) \<and>
      (\<forall>i. tm_get m' i = (if i = t_id t then Some t else tm_get m i)) \<and>
      tm_notices m' = tm_notices m @ (if tm_has_notifier m then update_notices old t else []) \<and>
      tm_runtime m' = (if should_clear_runtime_on_update old t
        then map_option (runtime_clear (t_id t)) (tm_runtime m) else tm_runtime m)))"
proof (cases e)
  case (Some e')
  with tm_update_error [OF tm_run_inv [OF assms(1)]] assms(2) show ?thesis by simp
next
  case None
  note inv = tm_run_inv [OF assms(1)]
  let ?t = "normalize_tunnel_fields t0"
  from assms(2) None obtain old where old: "tm_lookup m (t_id ?t) = Some old"
    and m': "m' = m\<lparr>tm_tunnels := map (\<lambda>x. if t_id x = t_id ?t then ?t else x) (tm_tunnels m),
         tm_lookup := (tm_lookup m)(t_id ?t \<mapsto> ?t),
         tm_runtime := (if should_clear_runtime_on_update old ?t
                        then map_option (runtime_clear (t_id ?t)) (tm_runtime m) else tm_runtime m),
         tm_notices := tm_notices m @ (if tm_has_notifier m then update_notices old ?t else [])\<rparr>"
    by (auto simp: tm_update_cases [OF inv] Let_def simp del: fun_upd_apply split: option.splits)
  have "(x = old) = (t_id x = t_id ?t)" if "x \<in> set (tm_tunnels m)" for x
    using that old lookup_iff [OF inv] tm_inv_unique [OF inv, of x old] by auto
  then have "map (\<lambda>x. if t_id x = t_id ?t then ?t else x) (tm_tunnels m) =
      map (\<lambda>x. if x = old then ?t else x) (tm_tunnels m)" by simp
  with None old show ?thesis by (simp add: m' Let_def tm_get_def tm_all_def)
qed

theorem tunnel_update_effect_witness:
  "let t = sample_tunnel\<lparr>t_id := 5, t_receiver := 3\<rparr>;
       m' = snd (tm_update (\<lambda>_. True) None t example_manager)
   in tm_all m' = [t] \<and> tm_notices m' = [(2, t, True), (1, t, False), (3, t, False)]"
proof -
  let ?t = "sample_tunnel\<lparr>t_id := 5, t_receiver := 3\<rparr>"
  have old: "normalize_tunnel_fields (sample_tunnel\<lparr>t_id := 5\<rparr>) = sample_tunnel\<lparr>t_id := 5\<rparr>"
    and new: "normalize_tunnel_fields ?t = ?t"
    unfolding sample_tunnel_def by code_simp+
  have run: "tm_all example_manager = [sample_tunnel\<lparr>t_id := 5\<rparr>]" "tm_has_notifier example_manager"
    "tm_notices example_manager = []"
    "tm_get example_manager 5 = Some (sample_tunnel\<lparr>t_id := 5\<rparr>)"
    by (simp_all add: example_manager_def tm_load_all_def tm_all_def tm_get_def Let_def old
        new_tunnel_manager_def rebuild_lookup_def)
  have ok: "fst (tm_update (\<lambda>_. True) None ?t example_manager) = None"
  proof -
    have "parse_uint 16 ''7000'' = Some 7000"
      by (simp add: parse_uint_def is_digit_def digit_val_def)
    moreover have "split_host_port '':7000'' = Some ('''', ''7000'')" "trim_space '':7000'' = '':7000''"
      by code_simp+
    ultimately have "is_valid_tunnel_source_address '':7000''"
      by (simp add: is_valid_tunnel_source_address_def split_host_port_checked_def is_valid_tunnel_host_def)
    then have v: "validate_static (\<lambda>_. True) ?t = None"
      by (simp add: validate_static_def sample_tunnel_def normalize_tunnel_type_def
          tunnel_type_valid_def requires_endpoint_def)
    have l: "tm_lookup example_manager (t_id ?t) = Some (sample_tunnel\<lparr>t_id := 5\<rparr>)"
      using run(4) by (simp add: tm_get_def)
    have c: "validate_port_conflict example_manager ?t (t_id ?t) = None"
      using run(1) by (simp add: validate_port_conflict_None tm_all_def)
    show ?thesis
      unfolding tm_update_cases [OF tm_run_inv [OF example_manager_run]] Let_def new v l c
      by (simp only: option.case fst_conv)
  qed
  let ?m' = "snd (tm_update (\<lambda>_. True) None ?t example_manager)"
  have "tm_update (\<lambda>_. True) None ?t example_manager = (None, ?m')"
    using ok by (simp add: prod_eq_iff)
  from tunnel_update_effect [OF example_manager_run this] obtain old where
    old: "tm_get example_manager (t_id ?t) = Some old"
    and all: "tm_all ?m' = map (\<lambda>x. if x = old then ?t else x) (tm_all example_manager)"
    and notices: "tm_notices ?m' = tm_notices example_manager @
      (if tm_has_notifier example_manager then update_notices old ?t else [])"
    unfolding Let_def new by blast
  from old run have old: "old = sample_tunnel\<lparr>t_id := 5\<rparr>" by simp
  have "update_notices old ?t = [(2, ?t, True), (1, ?t, False), (3, ?t, False)]"
    unfolding old update_notices_def by (simp add: sample_tunnel_def)
  with notices run have "tm_notices ?m' = [(2, ?t, True), (1, ?t, False), (3, ?t, False)]" by simp
  moreover have "tm_all ?m' = [?t]" unfolding all run(1) old by simp
  ultimately show ?thesis unfolding Let_def by (rule conjI [rotated])
qed

text \<open>Loading the table again gives the manager exactly the tunnels and the lookup map it has:
  what it keeps in memory is what its database rows normalise to.\<close>

theorem tunnel_reload_stable:
  assumes "tm_run m"
  shows "tm_load_all (Inr (tm_all m)) m = (None, m)"
proof -
  have "map normalize_tunnel_fields (tm_tunnels m) = tm_tunnels m"
    using tm_run_normal [OF assms] by (simp add: map_idI)
  with tm_run_inv [OF assms] show ?thesis
    by (simp add: tm_load_all_def tm_all_def Let_def rebuild_lookup_map_of tm_inv_def)
qed

theorem tunnel_reload_stable_witness:
  "tm_load_all (Inr (tm_all example_manager)) example_manager = (None, example_manager)"
  by (rule tunnel_reload_stable) (rule example_manager_run)

text \<open>The pages of a listing, put one after the other, are the tunnels in order: none is
  skipped and none is shown twice.\<close>

theorem tunnel_pages:
  assumes "0 < n" "n \<le> 100"
  shows "concat (map (\<lambda>p. tm_query m (int p) (int n)) [0..<k]) = take (k * n) (tm_all m)"
proof -
  have page: "tm_query m (int p) (int n) = take n (drop (p * n) (tm_all m))" for p
  proof -
    have e: "int p * int n = int (p * n)" by simp
    have "nat (int (length xs) - int (p * n)) = length xs - p * n" for xs :: "tunnel list"
      by (simp flip: nat_minus_as_int del: of_nat_mult)
    with assms show ?thesis
      by (simp add: tm_query_def tm_all_def Let_def e del: of_nat_mult)
  qed
  show ?thesis
  proof (induction k)
    case (Suc k)
    then show ?case by (simp add: page) (simp only: add.commute [of n] take_add)
  qed simp
qed

theorem tunnel_pages_witness:
  "concat (map (\<lambda>p. tm_query example_manager (int p) (int 2)) [0..<3]) = take (3 * 2) (tm_all example_manager)"
  by (rule tunnel_pages) simp_all

end
