(* ===== verification/Version.thy ===== *)
theory Version
  imports Go_Strings
begin

text \<open>
  The versions of \<open>internal/upgrade/security.go\<close>: the semantic-version parser and the comparison
  that decides whether an offered client is newer than the running one.

  The regular expression is matched the way its anchors and character classes force it: each part
  ends at the first character outside its class.  Go's \<open>int, bool\<close> results are an option.
\<close>

section \<open>Parsing\<close>

record parsed_version =
  pv_numbers :: "nat list"
  pv_pre :: string

definition is_version_char :: "char \<Rightarrow> bool" where
  "is_version_char c \<longleftrightarrow> is_digit c \<or> byte_in 65 90 c \<or> byte_in 97 122 c \<or> c = CHR ''.'' \<or> c = CHR ''-''"

text \<open>One number group: \<open>0\<close>, or digits that do not start with \<open>0\<close>.\<close>

definition match_number :: "string \<Rightarrow> (string \<times> string) option" where
  "match_number s =
     (let digits = takeWhile is_digit s in
      if digits = [] \<or> (hd digits = CHR ''0'' \<and> length digits \<noteq> 1) then None
      else Some (digits, dropWhile is_digit s))"

fun match_dot :: "string \<Rightarrow> string option" where
  "match_dot (c # s) = (if c = CHR ''.'' then Some s else None)"
| "match_dot [] = None"

text \<open>An optional part: its lead character, then at least one character of the class.\<close>

definition match_part :: "char \<Rightarrow> string \<Rightarrow> (string \<times> string) option" where
  "match_part lead s =
     (if s \<noteq> [] \<and> hd s = lead then
        (let body = takeWhile is_version_char (tl s) in
         if body = [] then None else Some (body, dropWhile is_version_char (tl s)))
      else Some ([], s))"

definition semver_match :: "string \<Rightarrow> (string \<times> string \<times> string \<times> string) option" where
  "semver_match s0 =
     (let s = (if s0 \<noteq> [] \<and> hd s0 = CHR ''v'' then tl s0 else s0) in
      Option.bind (match_number s) (\<lambda>(a, s).
      Option.bind (match_dot s) (\<lambda>s.
      Option.bind (match_number s) (\<lambda>(b, s).
      Option.bind (match_dot s) (\<lambda>s.
      Option.bind (match_number s) (\<lambda>(c, s).
      Option.bind (match_part CHR ''-'' s) (\<lambda>(pre, s).
      Option.bind (match_part CHR ''+'' s) (\<lambda>(build, s).
      if s = [] then Some (a, b, c, pre) else None))))))))"

definition parse_version :: "string \<Rightarrow> parsed_version option" where
  "parse_version v =
     (case semver_match (trim_space v) of
        None \<Rightarrow> None
      | Some (a, b, c, pre) \<Rightarrow>
          (case (parse_uint 64 a, parse_uint 64 b, parse_uint 64 c) of
             (Some x, Some y, Some z) \<Rightarrow> Some \<lparr>pv_numbers = [x, y, z], pv_pre = pre\<rparr>
           | _ \<Rightarrow> None))"

definition is_valid_version :: "string \<Rightarrow> bool" where
  "is_valid_version v \<longleftrightarrow> parse_version v \<noteq> None"

section \<open>Comparing\<close>

fun compare_numbers :: "nat list \<Rightarrow> nat list \<Rightarrow> int" where
  "compare_numbers (a # as) (b # bs) =
     (if a < b then - 1 else if a > b then 1 else compare_numbers as bs)"
| "compare_numbers _ _ = 0"

text \<open>Two identifiers that differ as texts; the switch of the loop's body.\<close>

definition compare_identifiers :: "string \<Rightarrow> string \<Rightarrow> int" where
  "compare_identifiers a b =
     (case (parse_uint 64 a, parse_uint 64 b) of
        (Some an, Some bn) \<Rightarrow> if an < bn then - 1 else 1
      | (Some _, None) \<Rightarrow> - 1
      | (None, Some _) \<Rightarrow> 1
      | (None, None) \<Rightarrow> if a < b then - 1 else 1)"

fun compare_pre :: "string list \<Rightarrow> string list \<Rightarrow> int" where
  "compare_pre (a # as) (b # bs) = (if a = b then compare_pre as bs else compare_identifiers a b)"
| "compare_pre [] (b # bs) = - 1"
| "compare_pre _ [] = 1"

definition compare_parsed :: "parsed_version \<Rightarrow> parsed_version \<Rightarrow> int" where
  "compare_parsed a b =
     (let c = compare_numbers (pv_numbers a) (pv_numbers b) in
      if c \<noteq> 0 then c
      else if pv_pre a = pv_pre b then 0
      else if pv_pre a = '''' then 1
      else if pv_pre b = '''' then - 1
      else compare_pre (split_on CHR ''.'' (pv_pre a)) (split_on CHR ''.'' (pv_pre b)))"

definition compare_versions :: "string \<Rightarrow> string \<Rightarrow> int option" where
  "compare_versions left right =
     (case parse_version left of
        None \<Rightarrow> None
      | Some a \<Rightarrow>
          (case parse_version right of
             None \<Rightarrow> None
           | Some b \<Rightarrow> Some (compare_parsed a b)))"

section \<open>Being older is a strict order\<close>

definition older_identifier :: "string \<Rightarrow> string \<Rightarrow> bool" where
  "older_identifier a b \<longleftrightarrow> a \<noteq> b \<and> compare_identifiers a b = - 1"

lemma older_identifier_trans:
  "older_identifier a b \<Longrightarrow> older_identifier b c \<Longrightarrow> older_identifier a c"
  unfolding older_identifier_def compare_identifiers_def
  by (cases "parse_uint 64 a"; cases "parse_uint 64 b"; cases "parse_uint 64 c")
    (auto split: if_splits)

lemma older_identifier_asym: "older_identifier a b \<Longrightarrow> \<not> older_identifier b a"
  unfolding older_identifier_def compare_identifiers_def
  by (cases "parse_uint 64 a"; cases "parse_uint 64 b") (auto split: if_splits)

lemma compare_pre_older:
  "compare_pre (a # as) (b # bs) = - 1 \<longleftrightarrow>
     (if a = b then compare_pre as bs = - 1 else older_identifier a b)"
  by (simp add: older_identifier_def)

lemma compare_pre_trans:
  "compare_pre xs ys = - 1 \<Longrightarrow> compare_pre ys zs = - 1 \<Longrightarrow> compare_pre xs zs = - 1"
proof (induction xs ys arbitrary: zs rule: compare_pre.induct)
  case (1 a as b bs)
  from "1.prems"(2) obtain c cs where zs: "zs = c # cs" by (cases zs) auto
  show ?case
    using "1.prems" "1.IH" [of cs] older_identifier_trans [of a b c] older_identifier_asym [of a b]
    unfolding zs compare_pre_older by (auto split: if_splits)
next
  case (2 b bs)
  then show ?case by (cases zs) auto
qed auto

lemma compare_pre_irrefl: "compare_pre xs xs \<noteq> - 1"
  by (induction xs) simp_all

lemma compare_numbers_trans:
  "length xs = length ys \<Longrightarrow> length ys = length zs \<Longrightarrow>
   compare_numbers xs ys \<le> 0 \<Longrightarrow> compare_numbers ys zs \<le> 0 \<Longrightarrow>
   compare_numbers xs zs \<le> 0 \<and>
     (compare_numbers xs zs = 0 \<longrightarrow> compare_numbers xs ys = 0 \<and> compare_numbers ys zs = 0)"
proof (induction xs ys arbitrary: zs rule: compare_numbers.induct)
  case (1 a as b bs)
  then obtain c cs where zs: "zs = c # cs" by (cases zs) auto
  from "1.prems" have "a \<le> b" "b \<le> c" by (simp_all add: zs split: if_splits)
  then consider "a < b" "a < c" | "a = b" "b < c" | "a = b" "b = c" by linarith
  then show ?case
  proof cases
    case 3
    with "1.IH" [of cs] "1.prems" show ?thesis by (simp add: zs)
  qed (simp_all add: zs)
qed auto

lemma compare_numbers_range: "compare_numbers xs ys \<in> {- 1, 0, 1}"
  by (induction xs ys rule: compare_numbers.induct) auto

lemma compare_numbers_refl [simp]: "compare_numbers xs xs = 0"
  by (induction xs) simp_all

lemma compare_numbers_eq:
  "length xs = length ys \<Longrightarrow> compare_numbers xs ys = 0 \<longleftrightarrow> xs = ys"
  by (induction xs ys rule: compare_numbers.induct) auto

lemma compare_pre_range: "compare_pre xs ys \<in> {- 1, 1}"
  by (induction xs ys rule: compare_pre.induct)
    (auto simp: compare_identifiers_def split: option.split)

lemma parse_version_length: "parse_version v = Some p \<Longrightarrow> length (pv_numbers p) = 3"
  by (auto simp: parse_version_def split: option.splits prod.splits)

lemma compare_parsed_older:
  "compare_parsed a b = - 1 \<longleftrightarrow>
     compare_numbers (pv_numbers a) (pv_numbers b) = - 1 \<or>
     compare_numbers (pv_numbers a) (pv_numbers b) = 0 \<and> pv_pre a \<noteq> pv_pre b \<and> pv_pre a \<noteq> '''' \<and>
       (pv_pre b = '''' \<or> compare_pre (split_on CHR ''.'' (pv_pre a)) (split_on CHR ''.'' (pv_pre b)) = - 1)"
  using compare_numbers_range [of "pv_numbers a" "pv_numbers b"]
  by (auto simp: compare_parsed_def Let_def)

lemma compare_parsed_trans:
  assumes "length (pv_numbers a) = 3" "length (pv_numbers b) = 3" "length (pv_numbers c) = 3"
    and "compare_parsed a b = - 1" "compare_parsed b c = - 1"
  shows "compare_parsed a c = - 1"
proof -
  let ?n = "\<lambda>x y. compare_numbers (pv_numbers x) (pv_numbers y)"
  from assms(4,5) have le: "?n a b \<le> 0" "?n b c \<le> 0"
    by (auto simp: compare_parsed_older)
  from compare_numbers_trans [OF _ _ le] assms(1-3)
  have ac: "?n a c \<le> 0" "?n a c = 0 \<Longrightarrow> ?n a b = 0 \<and> ?n b c = 0" by auto
  show ?thesis
  proof (cases "?n a c = 0")
    case True
    with ac assms(4,5) have pre: "pv_pre a \<noteq> ''''" "pv_pre b \<noteq> ''''"
      "compare_pre (split_on CHR ''.'' (pv_pre a)) (split_on CHR ''.'' (pv_pre b)) = - 1"
      "pv_pre c = '''' \<or> compare_pre (split_on CHR ''.'' (pv_pre b)) (split_on CHR ''.'' (pv_pre c)) = - 1"
      by (auto simp: compare_parsed_older)
    then have "pv_pre c = '''' \<or> compare_pre (split_on CHR ''.'' (pv_pre a)) (split_on CHR ''.'' (pv_pre c)) = - 1"
      using compare_pre_trans by blast
    moreover from this pre(1) have "pv_pre a \<noteq> pv_pre c" using compare_pre_irrefl by auto
    ultimately show ?thesis using True pre(1) by (simp add: compare_parsed_older)
  next
    case False
    with ac compare_numbers_range [of "pv_numbers a" "pv_numbers c"] have "?n a c = - 1" by auto
    then show ?thesis by (simp add: compare_parsed_older)
  qed
qed

lemma older_chain:
  assumes "compare_versions a b = Some (- 1)" "compare_versions b c = Some (- 1)"
  shows "compare_versions a c = Some (- 1)"
proof -
  from assms obtain x y z where v: "parse_version a = Some x" "parse_version b = Some y"
    "parse_version c = Some z" "compare_parsed x y = - 1" "compare_parsed y z = - 1"
    by (auto simp: compare_versions_def split: option.splits)
  have "compare_parsed x z = - 1"
    by (rule compare_parsed_trans [OF v(1-3) [THEN parse_version_length] v(4,5)])
  with v show ?thesis by (simp add: compare_versions_def)
qed

section \<open>The characters of a version\<close>

text \<open>A valid version is a text of digits, letters and a few marks, with white space around it.\<close>

definition is_semver_char :: "char \<Rightarrow> bool" where
  "is_semver_char c \<longleftrightarrow> is_version_char c \<or> c = CHR ''v'' \<or> c = CHR ''+''"

definition space_byte :: "char \<Rightarrow> bool" where
  "space_byte c \<longleftrightarrow> (\<exists>r \<in> set space_runes. c \<in> set r)"

lemma match_numberD: "match_number s = Some (d, r) \<Longrightarrow> s = d @ r \<and> d \<noteq> [] \<and> (\<forall>c \<in> set d. is_digit c)"
  by (auto simp: match_number_def Let_def dest: set_takeWhileD split: if_splits)

lemma match_dotD: "match_dot s = Some r \<Longrightarrow> s = CHR ''.'' # r"
  by (cases s) (auto split: if_splits)

lemma match_partD:
  "match_part lead s = Some (d, r) \<Longrightarrow> \<exists>p. s = p @ r \<and> set p \<subseteq> {lead} \<union> {c. is_version_char c}"
  by (cases s) (auto simp: match_part_def Let_def dest: set_takeWhileD split: if_splits
      intro!: exI [of _ "lead # d"])

lemma semver_match_chars:
  assumes "semver_match s = Some r"
  shows "(\<forall>c \<in> set s. is_semver_char c) \<and> (\<exists>c \<in> set s. is_digit c)"
proof -
  let ?s = "if s \<noteq> [] \<and> hd s = CHR ''v'' then tl s else s"
  have s: "set s \<subseteq> {CHR ''v''} \<union> set ?s" "set ?s \<subseteq> set s" by (cases s; auto)+
  from assms obtain a s1 s2 b s3 s4 c s5 pre s6 build where
    "match_number ?s = Some (a, s1)" "match_dot s1 = Some s2" "match_number s2 = Some (b, s3)"
    "match_dot s3 = Some s4" "match_number s4 = Some (c, s5)" "match_part CHR ''-'' s5 = Some (pre, s6)"
    "match_part CHR ''+'' s6 = Some (build, [])"
    by (auto simp: semver_match_def Let_def bind_eq_Some_conv split: if_split_asm)
  note m = match_numberD [OF this(1)] match_dotD [OF this(2)] match_numberD [OF this(3)]
    match_dotD [OF this(4)] match_numberD [OF this(5)] match_partD [OF this(6)] match_partD [OF this(7)]
  then obtain p q where t: "?s = a @ CHR ''.'' # b @ CHR ''.'' # c @ p @ q"
    "set p \<subseteq> {CHR ''-''} \<union> {c. is_version_char c}" "set q \<subseteq> {CHR ''+''} \<union> {c. is_version_char c}"
    by auto
  have "\<forall>x \<in> set ?s. is_semver_char x"
    using m t by (auto simp: is_semver_char_def is_version_char_def)
  moreover have "hd a \<in> set ?s" "is_digit (hd a)" using m t(1) by auto
  ultimately show ?thesis using s by (auto simp: is_semver_char_def)
qed

lemma trim_prefixes_split: "\<exists>t. s = t @ trim_prefixes rs s \<and> set t \<subseteq> (\<Union>r \<in> set rs. set r)"
proof (induction rs s rule: trim_prefixes.induct)
  case (1 rs s)
  show ?case
  proof (cases "find (\<lambda>r. r \<noteq> [] \<and> has_prefix s r) rs")
    case None
    then show ?thesis by (simp add: trim_prefixes_None)
  next
    case (Some a)
    from "1.IH" [OF Some] obtain t where t: "drop (length a) s = t @ trim_prefixes rs (drop (length a) s)"
      "set t \<subseteq> (\<Union>r \<in> set rs. set r)" by blast
    from Some have "a \<in> set rs" "take (length a) s = a" by (auto simp: find_Some_iff has_prefix_def)
    then have "s = (a @ t) @ trim_prefixes rs (drop (length a) s)"
      using t(1) by (metis append.assoc append_take_drop_id)
    with t(2) \<open>a \<in> set rs\<close> show ?thesis unfolding trim_prefixes_Some [OF Some] by (intro exI [of _ "a @ t"]) auto
  qed
qed

lemma trim_space_split:
  "\<exists>a b. s = a @ trim_space s @ b \<and> (\<forall>c \<in> set a \<union> set b. space_byte c)"
proof -
  obtain a where a: "s = a @ trim_left s" "set a \<subseteq> (\<Union>r \<in> set space_runes. set r)"
    using trim_prefixes_split [of s space_runes] by (auto simp: trim_left_def)
  obtain b where "rev (trim_left s) = b @ trim_prefixes (map rev space_runes) (rev (trim_left s))"
    "set b \<subseteq> (\<Union>r \<in> set space_runes. set r)"
    using trim_prefixes_split [of "rev (trim_left s)" "map rev space_runes"] by auto
  then have "trim_left s = trim_space s @ rev b" "set (rev b) \<subseteq> (\<Union>r \<in> set space_runes. set r)"
    by (metis rev_append rev_rev_ident trim_right_def trim_space_def, simp)
  with a show ?thesis by (intro exI [of _ a] exI [of _ "rev b"]) (auto simp: space_byte_def)
qed

lemma semver_not_space: "is_semver_char c \<Longrightarrow> \<not> space_byte c"
  by (auto simp: is_semver_char_def is_version_char_def is_digit_def byte_in_def space_byte_def
      space_runes_def)

lemma newline_space: "space_byte CHR 0x0A"
  by (simp add: space_byte_def space_runes_def)

lemma valid_version_split:
  assumes "parse_version v = Some x"
  shows "\<exists>a c b. v = a @ c @ b \<and> c \<noteq> [] \<and> (\<forall>x \<in> set a \<union> set b. space_byte x) \<and>
    (\<forall>x \<in> set c. \<not> space_byte x)"
proof -
  from assms obtain r where "semver_match (trim_space v) = Some r"
    by (auto simp: parse_version_def split: option.splits)
  from semver_match_chars [OF this] trim_space_split [of v] show ?thesis
    by (metis empty_iff list.set(1) semver_not_space)
qed

text \<open>So a version is recovered from a text that goes on with a line break and a text that does not
  begin with white space.\<close>

lemma version_prefix_unique:
  assumes v: "parse_version v = Some x" "parse_version w = Some y"
    and eq: "v @ CHR 0x0A # p # r = w @ CHR 0x0A # p # r'" and p: "\<not> space_byte p"
  shows "v = w"
proof -
  have no_longer: "y = []" if h: "parse_version (u @ y) = Some z" "parse_version u = Some z'"
    "y @ CHR 0x0A # p # s = CHR 0x0A # p # s'" for u y z z' s s'
  proof (rule ccontr)
    assume "y \<noteq> []"
    with h(3) obtain y' where y: "y = CHR 0x0A # y'" by (cases y) auto
    obtain a c b where w: "u @ y = a @ c @ b" "c \<noteq> []" "\<forall>x \<in> set a \<union> set b. space_byte x"
      "\<forall>x \<in> set c. \<not> space_byte x" using valid_version_split [OF h(1)] by blast
    obtain a' c' b' where u: "u = a' @ c' @ b'" "c' \<noteq> []" "\<forall>x \<in> set c'. \<not> space_byte x"
      using valid_version_split [OF h(2)] by blast
    have "\<forall>x \<in> set y. space_byte x"
    proof (cases "length (a @ c) \<le> length u")
      case True
      have "u @ y = (a @ c) @ b" using w(1) by simp
      then obtain us where "b = us @ y" using True by (auto simp: append_eq_append_conv2)
      with w(3) show ?thesis by auto
    next
      case False
      have "u @ CHR 0x0A # y' = (a @ c) @ b" using w(1) y by simp
      with False obtain us where us: "a @ c = u @ CHR 0x0A # us"
        by (auto simp: append_eq_append_conv2 Cons_eq_append_conv)
      show ?thesis
      proof (cases "length u < length a")
        case True
        from us True have "\<exists>t. a = u @ t" by (auto simp: append_eq_append_conv2)
        with w(3) u have "\<forall>x \<in> set c'. space_byte x" by auto
        with u show ?thesis by (cases c') auto
      next
        case False
        with us obtain t where "c = t @ CHR 0x0A # us" by (auto simp: append_eq_append_conv2)
        with w(4) newline_space show ?thesis by auto
      qed
    qed
    moreover from h(3) y have "y' @ CHR 0x0A # p # s = p # s'" by simp
    then have "p \<in> set y \<or> p = CHR 0x0A" using y by (cases y') auto
    ultimately show False using p newline_space by auto
  qed
  from eq consider y where "v = w @ y" "y @ CHR 0x0A # p # r = CHR 0x0A # p # r'"
    | y where "w = v @ y" "y @ CHR 0x0A # p # r' = CHR 0x0A # p # r"
    by (auto simp: append_eq_append_conv2)
  then show ?thesis using no_longer v by cases (metis append_Nil2)+
qed

section \<open>Properties\<close>

text \<open>C37. "Older than" is a strict order on valid versions: a client that only ever moves to an
  offered version its comparison calls newer never comes back to a version it has left, however
  long the chain of upgrades.\<close>

theorem upgrades_never_cycle:
  assumes "\<forall>i < n. compare_versions (vs i) (vs (Suc i)) = Some (- 1)" and "i < j" "j \<le> n"
  shows "compare_versions (vs i) (vs j) = Some (- 1) \<and> trim_space (vs i) \<noteq> trim_space (vs j)"
proof -
  have "compare_versions (vs i) (vs j) = Some (- 1)"
    using assms(2,3)
  proof (induction j rule: less_induct)
    case (less j)
    then obtain k where j: "j = Suc k" by (cases j) auto
    from assms(1) less.prems have step: "compare_versions (vs k) (vs j) = Some (- 1)"
      by (simp add: j)
    show ?case
    proof (cases "i = k")
      case False
      with less.IH [of k] less.prems have "compare_versions (vs i) (vs k) = Some (- 1)" by (simp add: j)
      from older_chain [OF this step] show ?thesis .
    qed (use step in simp)
  qed
  moreover have "compare_versions v w \<noteq> Some (- 1)" if "trim_space v = trim_space w" for v w
  proof -
    from that have "parse_version v = parse_version w" by (simp add: parse_version_def)
    then show ?thesis by (simp add: compare_versions_def compare_parsed_def split: option.split)
  qed
  ultimately show ?thesis by auto
qed

lemma compare_versions_refl: "is_valid_version v \<Longrightarrow> compare_versions v v = Some 0"
  by (auto simp: is_valid_version_def compare_versions_def compare_parsed_def)

text \<open>What evaluates a closed version text.\<close>

lemma trim_space_plain: "trim_left s = s \<Longrightarrow> trim_right s = s \<Longrightarrow> trim_space s = s"
  by (simp add: trim_space_def)

lemmas version_eval = compare_versions_def parse_version_def semver_match_def match_number_def
  match_part_def is_version_char_def is_digit_def byte_in_def parse_uint_def digit_val_def
  compare_parsed_def compare_identifiers_def Let_def trim_space_def trim_left_def trim_right_def
  trim_prefixes.simps space_runes_def has_prefix_def

lemma version_examples:
  "parse_version ''v1.2.3-rc.1+x'' = Some \<lparr>pv_numbers = [1, 2, 3], pv_pre = ''rc.1''\<rparr>"
  "compare_versions ''1.2.3-rc.2'' ''1.2.3'' = Some (- 1)"
  "parse_version ''1.02.3'' = None"
  by (simp_all add: version_eval)

theorem upgrades_never_cycle_witness:
  "compare_versions ''1.0.0-rc.1'' ''1.0.0'' = Some (- 1)"
proof -
  let ?vs = "\<lambda>i. if i = 0 then ''1.0.0-rc.1'' else if i = 1 then ''1.0.0-rc.2'' else ''1.0.0'' :: string"
  have "\<forall>i < 2. compare_versions (?vs i) (?vs (Suc i)) = Some (- 1)"
    by (simp add: less_2_cases_iff version_eval)
  from upgrades_never_cycle [OF this, of 0 2] show ?thesis by simp
qed

text \<open>Identifiers that are equal as numbers but not as texts are each newer than the other, so the
  comparison is not antisymmetric.\<close>

lemma compare_versions_not_antisymmetric:
  "compare_versions ''1.0.0-1'' ''1.0.0-01'' = Some 1" "compare_versions ''1.0.0-01'' ''1.0.0-1'' = Some 1"
  by (simp_all add: version_eval)

end
