(* ===== verification/Upgrade_Offer.thy ===== *)
theory Upgrade_Offer
  imports Pb_Types Go_Strings
begin

text \<open>
  The signed offers of \<open>internal/upgrade/security.go\<close>: the payload that is signed, the signature
  and its check, and the digests in hexadecimal.

  The hash functions of Go's \<open>crypto\<close> packages and the mapping of non-ASCII runes to lower case are
  a parameter, the record \<open>digests\<close>; what the code relies on is that a MAC is a function of key and
  text, and, where a theorem says so, that two texts do not collide.
\<close>

record digests =
  dg_sha256 :: "byte list \<Rightarrow> byte list"
  dg_hmac :: "byte list \<Rightarrow> byte list \<Rightarrow> byte list"
  dg_lower :: "string \<Rightarrow> string"

section \<open>Hexadecimal\<close>

definition hex_nibble :: "nat \<Rightarrow> char" where
  "hex_nibble n = (if n < 10 then char_of (48 + n) else char_of (87 + n))"

text \<open>\<open>hex.EncodeToString\<close> and \<open>hex.DecodeString\<close>.\<close>

fun hex_encode :: "byte list \<Rightarrow> string" where
  "hex_encode [] = []"
| "hex_encode (b # bs) = hex_nibble (unat b div 16) # hex_nibble (unat b mod 16) # hex_encode bs"

definition nibble_val :: "char \<Rightarrow> nat option" where
  "nibble_val c =
     (let n = of_char c in
      if 48 \<le> n \<and> n \<le> 57 then Some (n - 48)
      else if 97 \<le> n \<and> n \<le> 102 then Some (n - 87)
      else if 65 \<le> n \<and> n \<le> 70 then Some (n - 55)
      else None)"

fun hex_decode :: "string \<Rightarrow> byte list option" where
  "hex_decode [] = Some []"
| "hex_decode [_] = None"
| "hex_decode (h # l # s) =
     (case (nibble_val h, nibble_val l, hex_decode s) of
        (Some x, Some y, Some r) \<Rightarrow> Some (of_nat (16 * x + y) # r)
      | _ \<Rightarrow> None)"

lemma nibble_val_hex [simp]: "n < 16 \<Longrightarrow> nibble_val (hex_nibble n) = Some n"
  by (auto simp: nibble_val_def hex_nibble_def Let_def)

lemma high_nibble: "unat (b :: byte) div 16 < 16"
proof -
  have "unat b < 2 ^ LENGTH(8)" by (rule unsigned_less)
  then have "unat b < 256" by simp
  then show ?thesis by (simp add: less_mult_imp_div_less)
qed

lemma hex_decode_encode [simp]: "hex_decode (hex_encode bs) = Some bs"
proof (induction bs)
  case (Cons b bs)
  note high_nibble [of b]
  moreover have "(of_nat (16 * (unat b div 16) + unat b mod 16) :: byte) = b"
    by (simp only: mult_div_mod_eq) simp
  ultimately show ?case using Cons by simp
qed simp

lemma length_hex_encode [simp]: "length (hex_encode bs) = 2 * length bs"
  by (induction bs) simp_all

lemma hex_encode_inject [simp]: "hex_encode a = hex_encode b \<longleftrightarrow> a = b"
  by (metis hex_decode_encode option.inject)

text \<open>Hexadecimal digits are not white space and are their own lower case.\<close>

definition is_lower_hex :: "char \<Rightarrow> bool" where
  "is_lower_hex c \<longleftrightarrow> byte_in 48 57 c \<or> byte_in 97 102 c"

lemma hex_encode_chars: "list_all is_lower_hex (hex_encode bs)"
proof -
  have "is_lower_hex (hex_nibble n)" if "n < 16" for n
    using that by (auto simp: is_lower_hex_def hex_nibble_def byte_in_def)
  then show ?thesis by (induction bs) (simp_all add: high_nibble)
qed

section \<open>Offers\<close>

text \<open>\<open>strings.ToLower\<close>: ASCII text byte by byte, other text by the rune mapping.\<close>

definition to_lower :: "digests \<Rightarrow> string \<Rightarrow> string" where
  "to_lower dg s =
     (if list_all (\<lambda>c. (of_char c :: nat) < 128) s then map lower_char s else dg_lower dg s)"

definition sha256_hex :: "digests \<Rightarrow> byte list \<Rightarrow> string" where
  "sha256_hex dg data = hex_encode (dg_sha256 dg data)"

definition format_int :: "i64 \<Rightarrow> string" where
  "format_int v = (if sint v < 0 then ''-'' @ format_uint (nat (- sint v)) else format_uint (nat (sint v)))"

abbreviation (input) newline :: char where "newline \<equiv> CHR 0x0A"

definition offer_payload :: "digests \<Rightarrow> upgrade_offer \<Rightarrow> string" where
  "offer_payload dg o' =
     ''gpipe-upgrade-v1'' @ [newline] @ uo_task_id o' @ [newline] @ uo_version o' @ [newline] @
     uo_platform o' @ [newline] @ format_int (uo_size o') @ [newline] @
     to_lower dg (uo_sha256 o') @ [newline] @ format_uint (unat (uo_chunk_size o'))"

definition sign_offer :: "digests \<Rightarrow> string \<Rightarrow> upgrade_offer \<Rightarrow> string" where
  "sign_offer dg key o' = hex_encode (dg_hmac dg (bytes_of key) (bytes_of (offer_payload dg o')))"

definition verify_offer :: "digests \<Rightarrow> string \<Rightarrow> upgrade_offer \<Rightarrow> bool" where
  "verify_offer dg key o' =
     (case hex_decode (trim_space (uo_signature o')) of
        None \<Rightarrow> False
      | Some provided \<Rightarrow> provided = dg_hmac dg (bytes_of key) (bytes_of (offer_payload dg o')))"

lemma trim_left_id: "s = [] \<or> \<not> (\<exists>r \<in> set space_runes. hd r = hd s) \<Longrightarrow> trim_left s = s"
proof -
  assume "s = [] \<or> \<not> (\<exists>r \<in> set space_runes. hd r = hd s)"
  then have "\<not> has_prefix s r" if "r \<in> set space_runes" "r \<noteq> []" for r
    using that by (cases r; cases s) (force simp: has_prefix_def)+
  then show ?thesis by (auto simp: trim_left_def intro: trim_prefixes_id)
qed

lemma trim_right_id: "s = [] \<or> \<not> (\<exists>r \<in> set space_runes. last r = last s) \<Longrightarrow> trim_right s = s"
proof -
  assume a: "s = [] \<or> \<not> (\<exists>r \<in> set space_runes. last r = last s)"
  have "\<not> has_prefix (rev s) (rev r)" if "r \<in> set space_runes" "rev r \<noteq> []" for r
  proof
    assume "has_prefix (rev s) (rev r)"
    then obtain t where "rev s = rev r @ t" by (auto simp: has_prefix_iff)
    then have "s = rev t @ r" by (metis rev_append rev_rev_ident)
    with a that show False by auto
  qed
  then have "trim_prefixes (map rev space_runes) (rev s) = rev s"
    by (intro trim_prefixes_id) auto
  then show ?thesis by (simp add: trim_right_def)
qed

lemma trim_space_hex [simp]: "trim_space (hex_encode bs) = hex_encode bs"
proof -
  have "\<forall>r \<in> set space_runes. \<not> is_lower_hex (hd r) \<and> \<not> is_lower_hex (last r)"
    by (simp add: space_runes_def is_lower_hex_def byte_in_def)
  moreover have "hex_encode bs = [] \<or> is_lower_hex (hd (hex_encode bs)) \<and> is_lower_hex (last (hex_encode bs))"
    using hex_encode_chars [of bs] by (cases "hex_encode bs = []") (simp_all add: list_all_iff)
  ultimately have "trim_left (hex_encode bs) = hex_encode bs" "trim_right (hex_encode bs) = hex_encode bs"
    by (metis trim_left_id, metis trim_right_id)
  then show ?thesis by (simp add: trim_space_def)
qed

lemma to_lower_hex [simp]: "to_lower dg (hex_encode bs) = hex_encode bs"
proof -
  have hex: "(of_char c :: nat) < 128 \<and> lower_char c = c" if "is_lower_hex c" for c
    using that by (auto simp: is_lower_hex_def byte_in_def lower_char_def)
  have "list_all (\<lambda>c. (of_char c :: nat) < 128) (hex_encode bs)"
    using hex_encode_chars [of bs] by (rule list.pred_mono_strong) (simp add: hex)
  moreover have "map lower_char (hex_encode bs) = hex_encode bs"
    using hex_encode_chars [of bs] by (intro map_idI) (simp add: hex list_all_iff)
  ultimately show ?thesis by (simp add: to_lower_def)
qed

lemma offer_payload_signature [simp]:
  "offer_payload dg (o'\<lparr>uo_signature := s\<rparr>) = offer_payload dg o'"
  by (simp add: offer_payload_def)

lemma verify_signed [simp]: "verify_offer dg key (o'\<lparr>uo_signature := sign_offer dg key o'\<rparr>)"
  by (simp add: verify_offer_def sign_offer_def)

end
