(* ===== verification/Upgrade_Manager.thy ===== *)
theory Upgrade_Manager
  imports Upgrade_Offer "HOL-Library.Signed_Division"
begin

text \<open>
  \<open>internal/manager/upgrade_manager.go\<close>: the server's side of a client upgrade.  A task holds the
  signed offer and the staged artifact; the client's status reports drive the transfer, one chunk per
  report.

  The staged file has a name only its task knows, so its contents are kept in the task; \<open>None\<close> is
  the empty path of a removed file.  The clock, the random task id, and the error of a file operation
  (\<open>None\<close> when it succeeds) are arguments.  Times are nanoseconds.  Every operation holds the
  manager's lock, so a run is a sequence of whole operations.
\<close>

section \<open>State\<close>

definition upgrade_chunk_size :: u32 where "upgrade_chunk_size = 128 * 1024"
definition upgrade_task_ttl :: int where "upgrade_task_ttl = 45 * 60 * 10 ^ 9"
definition upgrade_apply_ttl :: int where "upgrade_apply_ttl = 5 * 60 * 10 ^ 9"
definition max_upgrade_artifact_size :: nat where "max_upgrade_artifact_size = 256 * 1024 * 1024"

record upgrade_task =
  ut_player :: u32
  ut_offer :: upgrade_offer
  ut_artifact :: "byte list option"
  ut_state :: string
  ut_offset :: i64
  ut_err :: string
  ut_created :: int
  ut_updated :: int

type_synonym upgrade_manager = "u32 \<rightharpoonup> upgrade_task"

definition new_upgrade_manager :: upgrade_manager where
  "new_upgrade_manager = Map.empty"

definition terminal_upgrade_state :: "string \<Rightarrow> bool" where
  "terminal_upgrade_state s \<longleftrightarrow> s = ''succeeded'' \<or> s = ''failed'' \<or> s = ''rolled_back''"

section \<open>Operations\<close>

definition remove_artifact :: "upgrade_task \<Rightarrow> upgrade_task" where
  "remove_artifact t = t\<lparr>ut_artifact := None\<rparr>"

text \<open>What the loop over the tasks does to one task; \<open>None\<close> when it is deleted.\<close>

definition prune_task :: "int \<Rightarrow> upgrade_task \<Rightarrow> upgrade_task option" where
  "prune_task now t =
     (let ttl = (if ut_state t = ''applying'' then upgrade_apply_ttl else upgrade_task_ttl) in
      if now - ut_updated t < ttl then Some t
      else if terminal_upgrade_state (ut_state t) then None
      else
        let was_applying = (ut_state t = ''applying'') in
        Some (remove_artifact (t\<lparr>ut_state := ''failed'',
          ut_err := (if was_applying then ''upgrade apply timed out waiting for the client to restart''
                     else ''upgrade task expired''),
          ut_updated := now\<rparr>)))"

definition prune_expired :: "int \<Rightarrow> upgrade_manager \<Rightarrow> upgrade_manager" where
  "prune_expired now m = (\<lambda>p. Option.bind (m p) (prune_task now))"

definition um_start ::
  "digests \<Rightarrow> int \<Rightarrow> string + byte list \<Rightarrow> string option \<Rightarrow> u32 \<Rightarrow> string \<Rightarrow> string \<Rightarrow> string \<Rightarrow> byte list
    \<Rightarrow> upgrade_manager \<Rightarrow> (string + upgrade_offer) \<times> upgrade_manager" where
  "um_start dg now random staged player version platform key data m =
     (if player = 0 \<or> length data = 0 then (Inl ''invalid empty upgrade'', m)
      else if length data > max_upgrade_artifact_size
      then (Inl (''upgrade artifact exceeds '' @ format_uint max_upgrade_artifact_size @ '' bytes''), m)
      else (case random of
          Inl e \<Rightarrow> (Inl (''generate upgrade task id: '' @ e), m)
        | Inr value \<Rightarrow>
            let offer = \<lparr>uo_task_id = hex_encode value, uo_version = version, uo_platform = platform,
                  uo_size = of_nat (length data), uo_sha256 = sha256_hex dg data, uo_signature = '''',
                  uo_chunk_size = upgrade_chunk_size\<rparr>;
                offer = offer\<lparr>uo_signature := sign_offer dg key offer\<rparr>
            in (case staged of
                  Some e \<Rightarrow> (Inl e, m)
                | None \<Rightarrow>
                    let m = prune_expired now m;
                        busy = (case m player of
                            None \<Rightarrow> False
                          | Some t \<Rightarrow> \<not> terminal_upgrade_state (ut_state t) \<and>
                              now - ut_updated t < upgrade_task_ttl)
                    in if busy then (Inl ''an upgrade is already in progress'', m)
                       else (Inr offer, m(player \<mapsto>
                         \<lparr>ut_player = player, ut_offer = offer, ut_artifact = Some data,
                          ut_state = ''offered'', ut_offset = 0, ut_err = '''', ut_created = now,
                          ut_updated = now\<rparr>)))))"

definition um_offer :: "int \<Rightarrow> u32 \<Rightarrow> upgrade_manager \<Rightarrow> upgrade_offer option \<times> upgrade_manager" where
  "um_offer now player m0 =
     (let m = prune_expired now m0 in
      (case m player of
         None \<Rightarrow> None
       | Some t \<Rightarrow> if terminal_upgrade_state (ut_state t) then None else Some (ut_offer t), m))"

definition read_upgrade_artifact_chunk ::
  "string option \<Rightarrow> byte list option \<Rightarrow> i64 \<Rightarrow> i64 \<Rightarrow> string + byte list" where
  "read_upgrade_artifact_chunk io path start end' =
     (case path of
        None \<Rightarrow> Inl ''invalid staged upgrade artifact range''
      | Some contents \<Rightarrow>
          if sint start < 0 \<or> sint end' \<le> sint start \<or>
             sint (end' - start) > sint (ucast upgrade_chunk_size :: i64)
          then Inl ''invalid staged upgrade artifact range''
          else (case io of
              Some e \<Rightarrow> Inl e
            | None \<Rightarrow>
                let want = nat (sint (end' - start));
                    data = take want (drop (nat (sint start)) contents)
                in if length data \<noteq> want then Inl ''unexpected EOF'' else Inr data))"

definition um_handle_status ::
  "digests \<Rightarrow> int \<Rightarrow> string option \<Rightarrow> u32 \<Rightarrow> upgrade_status_report option
    \<Rightarrow> upgrade_manager \<Rightarrow> (string + upgrade_chunk option) \<times> upgrade_manager" where
  "um_handle_status dg now io player report m0 =
     (case report of
        None \<Rightarrow> (Inl ''missing upgrade status'', m0)
      | Some r \<Rightarrow>
          let m = prune_expired now m0 in
          (case m player of
             None \<Rightarrow> (Inl ''upgrade task not found'', m)
           | Some t0 \<Rightarrow>
               let size' = uo_size (ut_offer t0); off = us_offset r in
               if uo_task_id (ut_offer t0) \<noteq> us_task_id r then (Inl ''upgrade task not found'', m)
               else if terminal_upgrade_state (ut_state t0)
               then (if ut_err t0 \<noteq> '''' then Inl (ut_err t0) else Inr None, m)
               else
                 let t = t0\<lparr>ut_state := us_state r, ut_err := us_error r,
                       ut_offset := (if 0 \<le> sint off \<and> sint off \<le> sint size' then off else ut_offset t0)\<rparr>;
                     t = (if ut_state t \<noteq> ut_state t0 \<or> ut_offset t \<noteq> ut_offset t0 \<or> ut_err t \<noteq> ut_err t0
                          then t\<lparr>ut_updated := now\<rparr> else t)
                 in if us_state r = ''failed'' \<or> us_state r = ''rolled_back''
                    then (Inr None, m(player \<mapsto> remove_artifact t))
                    else if us_state r \<noteq> ''accepted'' \<and> us_state r \<noteq> ''downloading''
                    then (Inr None, m(player \<mapsto> t))
                    else if sint off < 0 \<or> sint off > sint size'
                    then (Inl ''invalid upgrade offset'', m(player \<mapsto> t))
                    else if off = size' then (Inr None, m(player \<mapsto> t))
                    else
                      let end' = off + ucast (uo_chunk_size (ut_offer t));
                          end' = (if sint end' > sint size' then size' else end')
                      in (case read_upgrade_artifact_chunk io (ut_artifact t) off end' of
                            Inl e \<Rightarrow>
                              let msg = ''read staged upgrade artifact: '' @ e in
                              (Inl msg, m(player \<mapsto> remove_artifact
                                (t\<lparr>ut_state := ''failed'', ut_err := msg, ut_updated := now\<rparr>)))
                          | Inr data \<Rightarrow>
                              (Inr (Some \<lparr>uc_task_id = us_task_id r, uc_offset = off, uc_data = data,
                                 uc_sha256 = sha256_hex dg data, uc_eof = (end' = size')\<rparr>),
                               m(player \<mapsto> t)))))"

definition um_complete_on_login :: "int \<Rightarrow> u32 \<Rightarrow> string \<Rightarrow> upgrade_manager \<Rightarrow> upgrade_manager" where
  "um_complete_on_login now player version m =
     (case m player of
        None \<Rightarrow> m
      | Some t \<Rightarrow>
          if uo_version (ut_offer t) \<noteq> version then m
          else m(player \<mapsto> remove_artifact (t\<lparr>ut_state := ''succeeded'', ut_offset := uo_size (ut_offer t),
                 ut_err := '''', ut_updated := now\<rparr>)))"

definition um_fail :: "int \<Rightarrow> u32 \<Rightarrow> string \<Rightarrow> string option \<Rightarrow> upgrade_manager \<Rightarrow> upgrade_manager" where
  "um_fail now player task_id err m =
     (case m player of
        None \<Rightarrow> m
      | Some t \<Rightarrow>
          if task_id \<noteq> '''' \<and> uo_task_id (ut_offer t) \<noteq> task_id then m
          else let t = remove_artifact (t\<lparr>ut_state := ''failed'', ut_updated := now\<rparr>) in
            m(player \<mapsto> (case err of None \<Rightarrow> t | Some e \<Rightarrow> t\<lparr>ut_err := e\<rparr>)))"

record upgrade_snapshot =
  sn_task_id :: string
  sn_version :: string
  sn_state :: string
  sn_progress :: int
  sn_error :: string
  sn_updated_at :: int

definition um_snapshot :: "int \<Rightarrow> u32 \<Rightarrow> upgrade_manager \<Rightarrow> upgrade_snapshot \<times> upgrade_manager" where
  "um_snapshot now player m0 =
     (let m = prune_expired now m0 in
      (case m player of
         None \<Rightarrow> \<lparr>sn_task_id = '''', sn_version = '''', sn_state = '''', sn_progress = 0,
                  sn_error = '''', sn_updated_at = 0\<rparr>
       | Some t \<Rightarrow>
           let size' = uo_size (ut_offer t);
               progress = (if sint size' > 0 then sint (ut_offset t * 100) sdiv sint size' else 0);
               progress = (if ut_state t = ''succeeded'' then 100 else progress)
           in \<lparr>sn_task_id = uo_task_id (ut_offer t), sn_version = uo_version (ut_offer t),
               sn_state = ut_state t, sn_progress = progress, sn_error = ut_err t,
               sn_updated_at = ut_updated t\<rparr>, m))"

definition um_remove :: "u32 \<Rightarrow> upgrade_manager \<Rightarrow> upgrade_manager" where
  "um_remove player m = m(player := None)"

section \<open>Offsets as numbers\<close>

lemma sint_of_nat_small: "n < 2 ^ 63 \<Longrightarrow> sint (of_nat n :: i64) = int n"
  by (simp add: signed_of_nat signed_take_bit_int_eq_self)

lemma nat_offset: "0 \<le> sint (v :: i64) \<Longrightarrow> v = of_nat (nat (sint v))"
  by simp

definition chunk_end :: "i64 \<Rightarrow> u32 \<Rightarrow> i64 \<Rightarrow> i64" where
  "chunk_end off chunk size' =
     (let e = off + ucast chunk in if sint e > sint size' then size' else e)"

definition next_chunk :: "nat \<Rightarrow> byte list \<Rightarrow> byte list" where
  "next_chunk k data = take (128 * 1024) (drop k data)"

lemma read_chunk_slice:
  assumes "k < length data" "length data \<le> max_upgrade_artifact_size"
  shows "read_upgrade_artifact_chunk None (Some data) (of_nat k)
      (chunk_end (of_nat k) upgrade_chunk_size (of_nat (length data))) = Inr (next_chunk k data) \<and>
    (chunk_end (of_nat k) upgrade_chunk_size (of_nat (length data)) = of_nat (length data)) =
      (k + length (next_chunk k data) = length data)"
proof -
  let ?n = "min (k + 128 * 1024) (length data)" and ?e = "of_nat k + ucast upgrade_chunk_size :: i64"
  have bounds: "length data < 2 ^ 63" "k + 128 * 1024 < 2 ^ 63"
    using assms(1,2) by (simp_all add: max_upgrade_artifact_size_def)
  have e: "?e = of_nat (k + 128 * 1024)"
    by (simp add: upgrade_chunk_size_def)
  then have se: "sint ?e = int (k + 128 * 1024)"
    using sint_of_nat_small [OF bounds(2)] by (simp only: e)
  have stop: "chunk_end (of_nat k) upgrade_chunk_size (of_nat (length data)) = of_nat ?n"
    using bounds unfolding chunk_end_def Let_def se by (simp add: sint_of_nat_small) (simp add: upgrade_chunk_size_def)
  have "sint (of_nat ?n - of_nat k :: i64) = int (?n - k)"
  proof -
    have "(of_nat ?n - of_nat k :: i64) = of_nat (?n - k)" using assms(1) by (subst of_nat_diff) auto
    moreover have "?n - k < 2 ^ 63" using bounds by simp
    ultimately show ?thesis by (simp only: sint_of_nat_small)
  qed
  moreover have "sint (of_nat ?n :: i64) = int ?n" "sint (of_nat k :: i64) = int k"
    using bounds by (simp_all add: sint_of_nat_small del: of_nat_min)
  moreover have "sint (ucast upgrade_chunk_size :: i64) = 128 * 1024"
    by (simp add: upgrade_chunk_size_def)
  ultimately have "read_upgrade_artifact_chunk None (Some data) (of_nat k) (of_nat ?n) = Inr (next_chunk k data)"
    using assms(1) by (auto simp: read_upgrade_artifact_chunk_def next_chunk_def Let_def min_def)
  moreover have "(of_nat ?n = (of_nat (length data) :: i64)) = (k + length (next_chunk k data) = length data)"
  proof -
    have "(of_nat ?n = (of_nat (length data) :: i64)) = (?n = length data)"
      using bounds by (metis min.strict_coboundedI2 of_nat_eq_iff sint_of_nat_small)
    then show ?thesis using assms(1) by (auto simp: next_chunk_def min_def)
  qed
  ultimately show ?thesis unfolding stop by simp
qed

section \<open>The invariant\<close>

definition task_ok :: "digests \<Rightarrow> upgrade_task \<Rightarrow> bool" where
  "task_ok dg t \<longleftrightarrow>
     0 < sint (uo_size (ut_offer t)) \<and> sint (uo_size (ut_offer t)) \<le> int max_upgrade_artifact_size \<and>
     0 \<le> sint (ut_offset t) \<and> sint (ut_offset t) \<le> sint (uo_size (ut_offer t)) \<and>
     uo_chunk_size (ut_offer t) = upgrade_chunk_size \<and>
     (\<forall>data. ut_artifact t = Some data \<longrightarrow> uo_size (ut_offer t) = of_nat (length data) \<and>
        length data \<le> max_upgrade_artifact_size \<and> uo_sha256 (ut_offer t) = sha256_hex dg data) \<and>
     (\<not> terminal_upgrade_state (ut_state t) \<longrightarrow> ut_artifact t \<noteq> None)"

definition um_inv :: "digests \<Rightarrow> upgrade_manager \<Rightarrow> bool" where
  "um_inv dg m \<longleftrightarrow> (\<forall>p t. m p = Some t \<longrightarrow> task_ok dg t)"

lemma um_inv_upd: "um_inv dg m \<Longrightarrow> task_ok dg t \<Longrightarrow> um_inv dg (m(p \<mapsto> t))"
  by (simp add: um_inv_def)

lemma terminal_consts [simp]:
  "terminal_upgrade_state ''failed''" "terminal_upgrade_state ''succeeded''"
  "terminal_upgrade_state ''rolled_back''"
  by (simp_all add: terminal_upgrade_state_def)

lemma prune_task_ok: "task_ok dg t \<Longrightarrow> prune_task now t = Some t' \<Longrightarrow> task_ok dg t'"
  by (auto simp: prune_task_def Let_def task_ok_def remove_artifact_def split: if_splits)

lemma prune_inv: "um_inv dg m \<Longrightarrow> um_inv dg (prune_expired now m)"
  by (auto simp: um_inv_def prune_expired_def Option.bind_eq_Some_conv intro: prune_task_ok)

lemma um_start_inv:
  "um_inv dg m \<Longrightarrow> um_start dg now random staged player version platform key data m = (r, m') \<Longrightarrow> um_inv dg m'"
  by (auto simp: um_start_def Let_def prune_inv task_ok_def sint_of_nat_small max_upgrade_artifact_size_def
      split: if_splits sum.splits option.splits intro!: um_inv_upd)

text \<open>A report's effect on the task it names, before the transfer goes on.\<close>

definition reported :: "int \<Rightarrow> upgrade_status_report \<Rightarrow> upgrade_task \<Rightarrow> upgrade_task" where
  "reported now r t0 =
     (let t = t0\<lparr>ut_state := us_state r, ut_err := us_error r,
        ut_offset := (if 0 \<le> sint (us_offset r) \<and> sint (us_offset r) \<le> sint (uo_size (ut_offer t0))
                      then us_offset r else ut_offset t0)\<rparr>
      in if ut_state t \<noteq> ut_state t0 \<or> ut_offset t \<noteq> ut_offset t0 \<or> ut_err t \<noteq> ut_err t0
         then t\<lparr>ut_updated := now\<rparr> else t)"

lemma reported_frame [simp]:
  "ut_offer (reported now r t) = ut_offer t" "ut_artifact (reported now r t) = ut_artifact t"
  "ut_state (reported now r t) = us_state r"
  by (simp_all add: reported_def Let_def)

lemma reported_ok:
  "task_ok dg t \<Longrightarrow> \<not> terminal_upgrade_state (ut_state t) \<Longrightarrow> task_ok dg (reported now r t)"
  by (auto simp: task_ok_def reported_def Let_def)

lemma artifact_removed_ok:
  "task_ok dg t \<Longrightarrow> terminal_upgrade_state (ut_state (f t)) \<Longrightarrow> ut_offer (f t) = ut_offer t \<Longrightarrow>
   ut_offset (f t) = ut_offset t \<or> ut_offset (f t) = uo_size (ut_offer t) \<Longrightarrow> ut_artifact (f t) = None \<Longrightarrow>
   task_ok dg (f t)"
  by (auto simp: task_ok_def)

lemma um_handle_status_unfold:
  "um_handle_status dg now io player (Some r) m0 =
     (let m = prune_expired now m0 in
      case m player of
        None \<Rightarrow> (Inl ''upgrade task not found'', m)
      | Some t0 \<Rightarrow>
          if uo_task_id (ut_offer t0) \<noteq> us_task_id r then (Inl ''upgrade task not found'', m)
          else if terminal_upgrade_state (ut_state t0)
          then (if ut_err t0 \<noteq> '''' then Inl (ut_err t0) else Inr None, m)
          else let t = reported now r t0; size' = uo_size (ut_offer t0); off = us_offset r in
            if us_state r = ''failed'' \<or> us_state r = ''rolled_back''
            then (Inr None, m(player \<mapsto> remove_artifact t))
            else if us_state r \<noteq> ''accepted'' \<and> us_state r \<noteq> ''downloading''
            then (Inr None, m(player \<mapsto> t))
            else if sint off < 0 \<or> sint off > sint size'
            then (Inl ''invalid upgrade offset'', m(player \<mapsto> t))
            else if off = size' then (Inr None, m(player \<mapsto> t))
            else
              let e = chunk_end off (uo_chunk_size (ut_offer t)) size'
              in case read_upgrade_artifact_chunk io (ut_artifact t) off e of
                   Inl err \<Rightarrow>
                     let msg = ''read staged upgrade artifact: '' @ err in
                     (Inl msg, m(player \<mapsto> remove_artifact
                       (t\<lparr>ut_state := ''failed'', ut_err := msg, ut_updated := now\<rparr>)))
                 | Inr data \<Rightarrow>
                     (Inr (Some \<lparr>uc_task_id = us_task_id r, uc_offset = off, uc_data = data,
                        uc_sha256 = sha256_hex dg data, uc_eof = (e = size')\<rparr>), m(player \<mapsto> t)))"
  unfolding um_handle_status_def reported_def chunk_end_def Let_def by simp

lemma um_handle_status_inv:
  assumes inv: "um_inv dg m0"
  shows "um_inv dg (snd (um_handle_status dg now io player report m0))"
proof (cases report)
  case None
  with inv show ?thesis by (simp add: um_handle_status_def)
next
  case (Some r)
  let ?m = "prune_expired now m0"
  have m: "um_inv dg ?m" using inv by (rule prune_inv)
  show ?thesis
  proof (cases "\<exists>t0. ?m player = Some t0 \<and> uo_task_id (ut_offer t0) = us_task_id r \<and>
      \<not> terminal_upgrade_state (ut_state t0)")
    case False
    with m show ?thesis
      unfolding Some um_handle_status_unfold Let_def by (auto split: option.split)
  next
    case True
    then obtain t0 where t0: "?m player = Some t0" "uo_task_id (ut_offer t0) = us_task_id r"
      "\<not> terminal_upgrade_state (ut_state t0)" by blast
    let ?t = "reported now r t0"
    from m t0 have ok: "task_ok dg t0" by (simp add: um_inv_def)
    have t: "task_ok dg ?t" by (rule reported_ok [OF ok t0(3)])
    have gone: "task_ok dg (remove_artifact (?t\<lparr>ut_state := ''failed'', ut_err := e, ut_updated := now\<rparr>))" for e
      using t by (simp add: task_ok_def remove_artifact_def)
    have "task_ok dg (remove_artifact ?t)" if "us_state r = ''failed'' \<or> us_state r = ''rolled_back''"
      using t that by (auto simp: task_ok_def remove_artifact_def)
    with t gone m t0 show ?thesis
      unfolding Some um_handle_status_unfold Let_def
      by (auto split: sum.split intro: um_inv_upd simp del: fun_upd_apply)
  qed
qed

lemma um_other_ops_inv:
  "um_inv dg m \<Longrightarrow> um_inv dg (um_complete_on_login now p v m)"
  "um_inv dg m \<Longrightarrow> um_inv dg (um_fail now p tid err m)"
  "um_inv dg m \<Longrightarrow> um_inv dg (um_remove p m)"
  by (auto simp: um_complete_on_login_def um_fail_def um_remove_def Let_def um_inv_def task_ok_def
      remove_artifact_def order.strict_implies_order split: option.split)

text \<open>A run: any requests of the web console, reports, logins and clock readings in any order.\<close>

inductive um_run :: "digests \<Rightarrow> upgrade_manager \<Rightarrow> bool" for dg where
  new: "um_run dg new_upgrade_manager"
| start: "um_run dg m \<Longrightarrow>
    um_run dg (snd (um_start dg now random staged player version platform key data m))"
| offer: "um_run dg m \<Longrightarrow> um_run dg (snd (um_offer now player m))"
| status: "um_run dg m \<Longrightarrow> um_run dg (snd (um_handle_status dg now io player report m))"
| complete: "um_run dg m \<Longrightarrow> um_run dg (um_complete_on_login now player version m)"
| fail: "um_run dg m \<Longrightarrow> um_run dg (um_fail now player task_id err m)"
| snapshot: "um_run dg m \<Longrightarrow> um_run dg (snd (um_snapshot now player m))"
| remove: "um_run dg m \<Longrightarrow> um_run dg (um_remove player m)"

lemma um_run_inv: "um_run dg m \<Longrightarrow> um_inv dg m"
proof (induction rule: um_run.induct)
  case new
  show ?case by (simp add: um_inv_def new_upgrade_manager_def)
qed (auto simp: um_offer_def um_snapshot_def Let_def prod_eq_iff intro: um_handle_status_inv
  um_other_ops_inv prune_inv um_start_inv [OF _ prod.collapse [symmetric]])

text \<open>What a report for a live task is answered.\<close>

lemma um_handle_status_chunk:
  assumes "um_inv dg m0" and "um_handle_status dg now io player (Some r) m0 = (Inr (Some c), m')"
  defines "k \<equiv> nat (sint (us_offset r))"
  obtains t0 data where "prune_expired now m0 player = Some t0" "m' player = Some (reported now r t0)"
    "ut_artifact t0 = Some data" "uo_task_id (ut_offer t0) = us_task_id r"
    "us_state r = ''accepted'' \<or> us_state r = ''downloading''" "task_ok dg t0"
    "us_offset r = of_nat k" "k < length data" "0 \<le> sint (us_offset r)"
    "c = \<lparr>uc_task_id = us_task_id r, uc_offset = us_offset r, uc_data = next_chunk k data,
       uc_sha256 = sha256_hex dg (next_chunk k data),
       uc_eof = (k + length (next_chunk k data) = length data)\<rparr>"
proof -
  let ?m = "prune_expired now m0"
  note eq = assms(2) [unfolded um_handle_status_unfold Let_def]
  from eq obtain t0 where t0: "?m player = Some t0" by (cases "?m player") simp_all
  note eq = eq [unfolded t0 option.case]
  from eq have t: "uo_task_id (ut_offer t0) = us_task_id r" "\<not> terminal_upgrade_state (ut_state t0)"
    by (simp_all split: if_split_asm)
  from eq t have st: "us_state r = ''accepted'' \<or> us_state r = ''downloading''"
    "0 \<le> sint (us_offset r)" "sint (us_offset r) \<le> sint (uo_size (ut_offer t0))"
    "us_offset r \<noteq> uo_size (ut_offer t0)"
    by (auto split: if_split_asm)
  let ?e = "chunk_end (us_offset r) (uo_chunk_size (ut_offer t0)) (uo_size (ut_offer t0))"
  obtain d where read: "read_upgrade_artifact_chunk io (ut_artifact t0) (us_offset r) ?e = Inr d"
    using eq t st by (cases "read_upgrade_artifact_chunk io (ut_artifact t0) (us_offset r) ?e") auto
  with eq t st have c: "c = \<lparr>uc_task_id = us_task_id r, uc_offset = us_offset r, uc_data = d,
      uc_sha256 = sha256_hex dg d, uc_eof = (?e = uo_size (ut_offer t0))\<rparr>"
    and m': "m' player = Some (reported now r t0)" by auto
  from prune_inv [OF assms(1)] t0(1) have ok: "task_ok dg t0" by (simp add: um_inv_def)
  with t(2) obtain data where data: "ut_artifact t0 = Some data" "uo_size (ut_offer t0) = of_nat (length data)"
    "length data \<le> max_upgrade_artifact_size" "uo_chunk_size (ut_offer t0) = upgrade_chunk_size"
    by (auto simp: task_ok_def)
  have k: "us_offset r = of_nat k" unfolding k_def using st(2) by (rule nat_offset)
  have len: "sint (of_nat (length data) :: i64) = int (length data)"
    using data(3) by (intro sint_of_nat_small) (simp add: max_upgrade_artifact_size_def)
  have lt: "k < length data"
    using st(2,3,4) k unfolding data(2) len by (metis int_nat_eq k_def nat_less_le of_nat_le_iff)
  have io: "io = None" using read data(1) by (auto simp: read_upgrade_artifact_chunk_def split: if_splits option.splits)
  note slice = read_chunk_slice [OF lt data(3)]
  have "d = next_chunk k data"
    using read slice unfolding io data(1,2,4) k by simp
  moreover have "(?e = uo_size (ut_offer t0)) = (k + length (next_chunk k data) = length data)"
    using slice unfolding data(2,4) k by simp
  ultimately show thesis
    using that [OF t0 m' data(1) t(1) st(1) ok k lt st(2)] c by simp
qed

section \<open>Properties\<close>

text \<open>C38. Whatever a client reports, a chunk it is sent is exactly the part of the signed artifact that
  begins at the offset it reported: at most 128 KiB, never past the end, with its own digest, and
  marked as the last one when it ends the artifact.  The task's offer carries the digest of that
  artifact.\<close>

theorem upgrade_chunk_exact:
  assumes "um_run dg m" and "um_handle_status dg now io player (Some r) m = (Inr (Some c), m')"
  shows "\<exists>t data. m' player = Some t \<and> ut_artifact t = Some data \<and>
    uo_sha256 (ut_offer t) = sha256_hex dg data \<and> uo_task_id (ut_offer t) = uc_task_id c \<and>
    uc_offset c = us_offset r \<and>
    (\<exists>k. us_offset r = of_nat k \<and> k < length data \<and> uc_data c = take (128 * 1024) (drop k data) \<and>
      uc_sha256 c = sha256_hex dg (uc_data c) \<and> uc_eof c = (k + length (uc_data c) = length data))"
proof -
  from um_handle_status_chunk [OF um_run_inv [OF assms(1)] assms(2)] obtain t0 data where
    t: "m' player = Some (reported now r t0)" and data: "ut_artifact t0 = Some data"
    and "uo_task_id (ut_offer t0) = us_task_id r" "task_ok dg t0"
    and k: "us_offset r = of_nat (nat (sint (us_offset r)))" "nat (sint (us_offset r)) < length data"
    and c: "c = \<lparr>uc_task_id = us_task_id r, uc_offset = us_offset r,
       uc_data = next_chunk (nat (sint (us_offset r))) data,
       uc_sha256 = sha256_hex dg (next_chunk (nat (sint (us_offset r))) data),
       uc_eof = (nat (sint (us_offset r)) + length (next_chunk (nat (sint (us_offset r))) data) = length data)\<rparr>" .
  then have "uo_sha256 (ut_offer t0) = sha256_hex dg data" by (simp add: task_ok_def)
  with t data k c \<open>uo_task_id (ut_offer t0) = us_task_id r\<close> show ?thesis
    by (intro exI [of _ "reported now r t0"] exI [of _ data] conjI exI [of _ "nat (sint (us_offset r))"])
      (simp_all add: next_chunk_def)
qed

definition example_digests :: digests where
  "example_digests = \<lparr>dg_sha256 = (\<lambda>x. take 32 (x @ replicate 32 0)),
     dg_hmac = (\<lambda>k x. take 32 (k @ x @ replicate 32 0)), dg_lower = map lower_char\<rparr>"

definition example_report :: upgrade_status_report where
  "example_report = \<lparr>us_task_id = ''0a'', us_state = ''accepted'', us_offset = 1, us_error = ''''\<rparr>"

lemma example_nibbles: "hex_nibble 0 = CHR ''0''" "hex_nibble 10 = CHR ''a''"
  by code_simp+

theorem upgrade_chunk_exact_witness:
  "let m = snd (um_start example_digests 0 (Inr [10]) None 7 ''1.0.0'' ''linux'' ''key'' [65, 66, 67] Map.empty);
       c = \<lparr>uc_task_id = ''0a'', uc_offset = 1, uc_data = [66, 67],
            uc_sha256 = sha256_hex example_digests [66, 67], uc_eof = True\<rparr>
   in fst (um_handle_status example_digests 1 None 7 (Some example_report) m) = Inr (Some c) \<and>
     (\<exists>k. (1 :: i64) = of_nat k \<and> uc_eof c = (k + 2 = length [65, 66, 67 :: byte]))"
proof -
  let ?m = "snd (um_start example_digests 0 (Inr [10]) None 7 ''1.0.0'' ''linux'' ''key'' [65, 66, 67] Map.empty)"
  let ?c = "\<lparr>uc_task_id = ''0a'', uc_offset = 1, uc_data = [66, 67],
            uc_sha256 = sha256_hex example_digests [66, 67], uc_eof = True\<rparr>"
  let ?r = "um_handle_status example_digests 1 None 7 (Some example_report) ?m"
  have run: "um_run example_digests ?m"
    using um_run.start [OF um_run.new] by (simp add: new_upgrade_manager_def)
  have eval: "fst ?r = Inr (Some ?c)"
    by (simp add: um_start_def um_handle_status_def max_upgrade_artifact_size_def prune_expired_def
        prune_task_def upgrade_task_ttl_def terminal_upgrade_state_def example_nibbles Let_def
        example_report_def upgrade_chunk_size_def read_upgrade_artifact_chunk_def)
  then have "?r = (Inr (Some ?c), snd ?r)" by (simp add: prod_eq_iff)
  from upgrade_chunk_exact [OF run this] eval show ?thesis
    unfolding Let_def by (auto simp: example_report_def intro: exI [of _ 1])
qed

text \<open>The console sees a task only until it is too old; a report that says again what the last one said
  does not make it younger.\<close>

definition replay :: "digests \<Rightarrow> u32 \<Rightarrow> upgrade_status_report \<Rightarrow> (int \<times> string option) list
    \<Rightarrow> upgrade_manager \<Rightarrow> upgrade_manager" where
  "replay dg player r ts m =
     fold (\<lambda>(now, io) m. snd (um_handle_status dg now io player (Some r) m)) ts m"

definition not_alive :: "upgrade_task option \<Rightarrow> bool" where
  "not_alive t \<longleftrightarrow> (case t of None \<Rightarrow> True | Some t \<Rightarrow> terminal_upgrade_state (ut_state t))"

lemma prune_not_alive: "not_alive (m p) \<Longrightarrow> not_alive (prune_expired now m p)"
  by (auto simp: not_alive_def prune_expired_def prune_task_def Let_def split: option.splits if_splits
      bind_splits)

lemma prune_cases:
  "m p = Some t \<Longrightarrow> prune_expired now m p = Some t \<or> not_alive (prune_expired now m p)"
  by (auto simp: not_alive_def prune_expired_def prune_task_def remove_artifact_def Let_def)

lemma handle_status_not_alive:
  "not_alive (m p) \<Longrightarrow> not_alive (snd (um_handle_status dg now io p (Some r) m) p)"
  using prune_not_alive [of m p now]
  by (auto simp: um_handle_status_unfold Let_def not_alive_def split: option.split)

lemma handle_status_replay:
  assumes "m p = Some t" "us_state r = ut_state t" "us_offset r = ut_offset t" "us_error r = ut_err t"
  shows "snd (um_handle_status dg now io p (Some r) m) p = Some t \<or>
    not_alive (snd (um_handle_status dg now io p (Some r) m) p)"
proof -
  from assms(2-4) have same: "reported now r t = t" by (simp add: reported_def Let_def)
  from prune_cases [of m p t now, OF assms(1)] show ?thesis
  proof
    assume "prune_expired now m p = Some t"
    with same assms(2) show ?thesis
      by (auto simp: um_handle_status_unfold Let_def not_alive_def remove_artifact_def
          terminal_upgrade_state_def split: sum.split)
  next
    assume "not_alive (prune_expired now m p)"
    then show ?thesis
      by (auto simp: um_handle_status_unfold Let_def not_alive_def split: option.splits)
  qed
qed

text \<open>A client that only repeats its last status cannot keep an upgrade alive: whatever the times of
  its reports, once the task's lifetime has passed since the last real change (five minutes while
  applying, else forty-five) the upgrade is no longer offered.\<close>

theorem replayed_status_expires:
  assumes "m p = Some t" "us_state r = ut_state t" "us_offset r = ut_offset t" "us_error r = ut_err t"
    and "now - ut_updated t \<ge> (if ut_state t = ''applying'' then upgrade_apply_ttl else upgrade_task_ttl)"
  shows "fst (um_offer now p (replay dg p r ts m)) = None"
proof -
  have "replay dg p r ts m p = Some t \<or> not_alive (replay dg p r ts m p)"
    using assms(1)
  proof (induction ts rule: rev_induct)
    case (snoc x ts)
    obtain at io where x: "x = (at, io)" by fastforce
    from snoc show ?case
      using handle_status_replay [OF _ assms(2-4)] handle_status_not_alive
      unfolding replay_def x by (simp add: split_beta) metis
  qed (simp add: replay_def)
  then have "not_alive (prune_expired now (replay dg p r ts m) p)"
  proof
    assume "replay dg p r ts m p = Some t"
    with assms(5) show ?thesis
      by (auto simp: not_alive_def prune_expired_def prune_task_def remove_artifact_def Let_def split: if_splits)
  qed (rule prune_not_alive)
  then show ?thesis by (auto simp: um_offer_def Let_def not_alive_def split: option.splits)
qed

definition example_task :: upgrade_task where
  "example_task =
     \<lparr>ut_player = 7, ut_offer = \<lparr>uo_task_id = ''0a'', uo_version = ''1.0.0'', uo_platform = ''linux'',
        uo_size = 3, uo_sha256 = '''', uo_signature = '''', uo_chunk_size = 131072\<rparr>,
      ut_artifact = Some [65, 66, 67], ut_state = ''applying'', ut_offset = 3, ut_err = '''',
      ut_created = 0, ut_updated = 0\<rparr>"

theorem replayed_status_expires_witness:
  "let r = \<lparr>us_task_id = ''0a'', us_state = ''applying'', us_offset = 3, us_error = ''''\<rparr>
   in fst (um_offer 299999999999 7 [7 \<mapsto> example_task]) = Some (ut_offer example_task) \<and>
     fst (um_offer 300000000000 7 (replay example_digests 7 r [(100000000000, None), (299999999999, None)]
       [7 \<mapsto> example_task])) = None"
  unfolding Let_def
  by (intro conjI replayed_status_expires [of "[7 \<mapsto> example_task]" 7 example_task])
    (simp_all add: upgrade_apply_ttl_def um_offer_def prune_expired_def prune_task_def terminal_upgrade_state_def
      example_task_def)

end
