(* ===== verification/Upgrade_Receiver.thy ===== *)
theory Upgrade_Receiver
  imports Upgrade_Manager Version
begin

text \<open>
  \<open>internal/upgrade/receiver.go\<close>: the client's side of an upgrade.  The receiver checks an offer,
  writes the chunks into a candidate file, remembers its progress in \<open>download.json\<close>, and hands the
  verified candidate to the apply helper.

  The file system is part of the state: a map from paths to contents for the binaries, and one field
  for each JSON file of the update directory (\<open>None\<close> when it is absent).  Which file
  operation fails, and with what, is an argument of each operation; an atomic JSON write that fails
  may fail before or after the rename.
\<close>

section \<open>State\<close>

definition max_artifact_size :: i64 where "max_artifact_size = 256 * 1024 * 1024"

record runtime_options =
  ro_enabled :: bool
  ro_version :: string
  ro_platform :: string
  ro_key :: string
  ro_mode :: string
  ro_restart_args :: "string list"
  ro_service_name :: string

record download_state =
  ds_task_id :: string
  ds_version :: string
  ds_platform :: string
  ds_size :: i64
  ds_sha256 :: string
  ds_candidate :: string
  ds_offset :: i64

record apply_state =
  as_task_id :: string
  as_target :: string
  as_candidate :: string
  as_backup :: string
  as_mode :: string
  as_restart_args :: "string list"
  as_service_name :: string
  as_expected_sha256 :: string
  as_expected_version :: string
  as_parent_pid :: int
  as_health_path :: string
  as_result_path :: string
  as_created_at :: int

record apply_result =
  ar_task_id :: string
  ar_state :: string
  ar_error :: string

record receiver =
  rc_opts :: runtime_options
  rc_dir :: string
  rc_base :: string
  rc_offer :: "upgrade_offer option"
  rc_candidate :: string
  rc_offset :: i64
  rc_files :: "string \<rightharpoonup> byte list"
  rc_download :: "download_state option"
  rc_pending :: "apply_state option"
  rc_result :: "apply_result option"

text \<open>\<open>filepath.Join\<close> of a clean directory and a plain name.\<close>

definition path_join :: "string \<Rightarrow> string \<Rightarrow> string" where
  "path_join dir name = dir @ ''/'' @ name"

definition rc_executable :: "receiver \<Rightarrow> string" where
  "rc_executable r = path_join (rc_dir r) (rc_base r)"

definition rc_update_dir :: "receiver \<Rightarrow> string" where
  "rc_update_dir r = path_join (rc_dir r) ''.gpipe-update''"

datatype save_outcome = Save_Ok | Save_Failed string bool

definition task_id_valid :: "string \<Rightarrow> bool" where
  "task_id_valid s \<longleftrightarrow> length s = 32 \<and> list_all is_lower_hex s"

section \<open>Progress and digests\<close>

definition save_download_state :: "save_outcome \<Rightarrow> upgrade_offer \<Rightarrow> receiver \<Rightarrow> string option \<times> receiver" where
  "save_download_state io offer r =
     (let s = \<lparr>ds_task_id = uo_task_id offer, ds_version = uo_version offer,
            ds_platform = uo_platform offer, ds_size = uo_size offer, ds_sha256 = uo_sha256 offer,
            ds_candidate = rc_candidate r, ds_offset = rc_offset r\<rparr>
      in case io of
           Save_Ok \<Rightarrow> (None, r\<lparr>rc_download := Some s\<rparr>)
         | Save_Failed e replaced \<Rightarrow> (Some e, if replaced then r\<lparr>rc_download := Some s\<rparr> else r))"

definition file_sha256 :: "digests \<Rightarrow> string option \<Rightarrow> string \<Rightarrow> receiver \<Rightarrow> string + string" where
  "file_sha256 dg io path r =
     (case rc_files r path of
        None \<Rightarrow> Inl ''file does not exist''
      | Some contents \<Rightarrow> (case io of Some e \<Rightarrow> Inl e | None \<Rightarrow> Inr (sha256_hex dg contents)))"

section \<open>Accepting an offer\<close>

record accept_io =
  ai_ext :: string
  ai_mkdir :: "string option"
  ai_read :: bool
  ai_stat :: bool
  ai_prepare :: "string option"
  ai_prepare_sync :: "string option"
  ai_save :: save_outcome
  ai_digest :: "string option"
  ai_reset :: "string option"
  ai_reset_sync :: "string option"
  ai_save_again :: save_outcome

text \<open>Opening with \<open>O_CREATE|O_TRUNC\<close>, then \<open>Sync\<close>.\<close>

definition truncate_file :: "string option \<Rightarrow> string option \<Rightarrow> string \<Rightarrow> receiver \<Rightarrow> string option \<times> receiver" where
  "truncate_file open_io sync_io path r =
     (case open_io of
        Some e \<Rightarrow> (Some e, r)
      | None \<Rightarrow> (sync_io, r\<lparr>rc_files := (rc_files r)(path \<mapsto> [])\<rparr>))"

definition failed_report :: "string \<Rightarrow> i64 \<Rightarrow> string \<Rightarrow> upgrade_status_report" where
  "failed_report task_id off e = \<lparr>us_task_id = task_id, us_state = ''failed'', us_offset = off, us_error = e\<rparr>"

text \<open>The checks before any file is touched.\<close>

definition check_offer :: "digests \<Rightarrow> runtime_options \<Rightarrow> upgrade_offer option \<Rightarrow> string option" where
  "check_offer dg opts offer =
     (if \<not> ro_enabled opts then Some ''self update is disabled for this client mode''
      else case offer of
        None \<Rightarrow> Some ''invalid upgrade task''
      | Some f \<Rightarrow>
          if \<not> task_id_valid (uo_task_id f) then Some ''invalid upgrade task''
          else if uo_platform f \<noteq> ro_platform opts then Some (''platform mismatch: '' @ uo_platform f)
          else if (case compare_versions (ro_version opts) (uo_version f) of
                     None \<Rightarrow> True | Some c \<Rightarrow> c \<ge> 0)
          then Some ''target version is not newer than current version''
          else if sint (uo_size f) \<le> 0 \<or> sint (uo_size f) > sint max_artifact_size
          then Some ''invalid upgrade artifact size''
          else if uo_chunk_size f = 0 \<or> uo_chunk_size f > 1024 * 1024
          then Some ''invalid upgrade chunk size''
          else if length (uo_sha256 f) \<noteq> 64 then Some ''invalid upgrade digest''
          else if \<not> verify_offer dg (ro_key opts) f then Some ''upgrade signature verification failed''
          else None)"

definition resume_offset :: "accept_io \<Rightarrow> upgrade_offer \<Rightarrow> string \<Rightarrow> receiver \<Rightarrow> i64" where
  "resume_offset io f candidate r =
     (case (if ai_read io then rc_download r else None) of
        None \<Rightarrow> 0
      | Some p \<Rightarrow>
          if ds_task_id p = uo_task_id f \<and> ds_sha256 p = uo_sha256 f \<and> ds_size p = uo_size f \<and>
             ds_candidate p = candidate
          then (case (if ai_stat io then rc_files r candidate else None) of
                  None \<Rightarrow> 0
                | Some contents \<Rightarrow>
                    if int (length contents) = sint (ds_offset p) \<and> sint (ds_offset p) \<le> sint (uo_size f)
                    then ds_offset p else 0)
          else 0)"

text \<open>The parts of \<open>Accept\<close> after the checks, the last one first: starting again when a complete
  candidate has the wrong digest; recording the offer and its progress; preparing the file.\<close>

definition accept_restart ::
  "accept_io \<Rightarrow> upgrade_offer \<Rightarrow> string \<Rightarrow> receiver \<Rightarrow> upgrade_status_report \<times> receiver" where
  "accept_restart io f candidate r =
     (case truncate_file (ai_reset io) (ai_reset_sync io) candidate r of
        (Some e, r) \<Rightarrow> (failed_report (uo_task_id f) 0 e, r)
      | (None, r) \<Rightarrow>
          (case save_download_state (ai_save_again io) f (r\<lparr>rc_offset := 0\<rparr>) of
             (Some e, r) \<Rightarrow> (failed_report (uo_task_id f) 0 e, r)
           | (None, r) \<Rightarrow>
               (\<lparr>us_task_id = uo_task_id f, us_state = ''accepted'', us_offset = 0, us_error = ''''\<rparr>, r)))"

definition accept_record ::
  "digests \<Rightarrow> accept_io \<Rightarrow> upgrade_offer \<Rightarrow> string \<Rightarrow> i64 \<Rightarrow> receiver \<Rightarrow> upgrade_status_report \<times> receiver" where
  "accept_record dg io f candidate off r =
     (case save_download_state (ai_save io) f
             (r\<lparr>rc_offer := Some f, rc_candidate := candidate, rc_offset := off\<rparr>) of
        (Some e, r) \<Rightarrow> (failed_report (uo_task_id f) 0 e, r)
      | (None, r) \<Rightarrow>
          if off \<noteq> uo_size f
          then (\<lparr>us_task_id = uo_task_id f, us_state = ''accepted'', us_offset = off, us_error = ''''\<rparr>, r)
          else if file_sha256 dg (ai_digest io) candidate r = Inr (to_lower dg (uo_sha256 f))
          then (\<lparr>us_task_id = uo_task_id f, us_state = ''verifying'', us_offset = off, us_error = ''''\<rparr>, r)
          else accept_restart io f candidate r)"

definition prepare_candidate :: "accept_io \<Rightarrow> i64 \<Rightarrow> string \<Rightarrow> receiver \<Rightarrow> string option \<times> receiver" where
  "prepare_candidate io off candidate r =
     (if off = 0
      then truncate_file (map_option (\<lambda>e. ''prepare upgrade file: '' @ e) (ai_prepare io)) (ai_prepare_sync io)
             candidate r
      else (None, r))"

definition rc_accept ::
  "digests \<Rightarrow> accept_io \<Rightarrow> upgrade_offer option \<Rightarrow> receiver \<Rightarrow> upgrade_status_report \<times> receiver" where
  "rc_accept dg io offer r =
     (case (check_offer dg (rc_opts r) offer, offer) of
        (None, Some f) \<Rightarrow>
          (case ai_mkdir io of
             Some e \<Rightarrow> (failed_report (uo_task_id f) 0 (''create update directory: '' @ e), r)
           | None \<Rightarrow>
               let candidate = path_join (rc_update_dir r) (''candidate-'' @ uo_task_id f @ ai_ext io);
                   off = resume_offset io f candidate r
               in (case prepare_candidate io off candidate r of
                     (Some e, r) \<Rightarrow> (failed_report (uo_task_id f) 0 e, r)
                   | (None, r) \<Rightarrow> accept_record dg io f candidate off r))
      | (Some e, _) \<Rightarrow> (failed_report (case offer of None \<Rightarrow> '''' | Some f \<Rightarrow> uo_task_id f) 0 e, r)
      | (None, None) \<Rightarrow> (failed_report '''' 0 ''invalid upgrade task'', r))"

section \<open>Receiving chunks\<close>

datatype write_outcome = Write_Ok | Write_Failed string nat | Flush_Failed string

record chunk_io =
  ci_open :: "string option"
  ci_write :: write_outcome
  ci_save :: save_outcome
  ci_digest :: "string option"
  ci_chmod :: "string option"

text \<open>\<open>WriteAt\<close>: a hole before the offset reads as zeros.\<close>

definition write_at :: "byte list \<Rightarrow> nat \<Rightarrow> byte list \<Rightarrow> byte list" where
  "write_at contents off data =
     take off (contents @ replicate (off - length contents) 0) @ data @ drop (off + length data) contents"

text \<open>The checks before the file is touched; writing; what follows when the progress is saved.\<close>

definition check_chunk :: "digests \<Rightarrow> upgrade_offer \<Rightarrow> i64 \<Rightarrow> upgrade_chunk \<Rightarrow> string option" where
  "check_chunk dg f off c =
     (if uc_task_id c \<noteq> uo_task_id f then Some ''unexpected upgrade chunk''
      else if uc_offset c \<noteq> off
      then Some (''unexpected chunk offset '' @ format_int (uc_offset c) @ '', want '' @ format_int off)
      else if length (uc_data c) = 0 \<or> length (uc_data c) > unat (uo_chunk_size f)
      then Some ''invalid upgrade chunk length''
      else if sha256_hex dg (uc_data c) \<noteq> to_lower dg (uc_sha256 c)
      then Some ''upgrade chunk checksum mismatch''
      else if sint (off + of_nat (length (uc_data c))) > sint (uo_size f)
      then Some ''upgrade chunk exceeds artifact size''
      else None)"

definition write_candidate :: "chunk_io \<Rightarrow> byte list \<Rightarrow> receiver \<Rightarrow> string option \<times> receiver" where
  "write_candidate io data r =
     (case (rc_files r (rc_candidate r), ci_open io) of
        (None, _) \<Rightarrow> (Some ''file does not exist'', r)
      | (Some _, Some e) \<Rightarrow> (Some e, r)
      | (Some contents, None) \<Rightarrow>
          let written = (\<lambda>d. r\<lparr>rc_files := (rc_files r)(rc_candidate r \<mapsto>
                write_at contents (nat (sint (rc_offset r))) d)\<rparr>) in
          (case ci_write io of
             Write_Failed e n \<Rightarrow> (Some (''write upgrade chunk: '' @ e), written (take n data))
           | Flush_Failed e \<Rightarrow> (Some (''write upgrade chunk: '' @ e), written data)
           | Write_Ok \<Rightarrow> (None, written data)))"

definition chunk_failed :: "string \<Rightarrow> receiver \<Rightarrow> (upgrade_status_report \<times> bool) \<times> receiver" where
  "chunk_failed e r =
     ((failed_report (case rc_offer r of None \<Rightarrow> '''' | Some f \<Rightarrow> uo_task_id f) (rc_offset r) e, False), r)"

definition finish_chunk ::
  "digests \<Rightarrow> chunk_io \<Rightarrow> upgrade_offer \<Rightarrow> bool \<Rightarrow> receiver \<Rightarrow> (upgrade_status_report \<times> bool) \<times> receiver" where
  "finish_chunk dg io f eof r =
     (if \<not> eof
      then ((\<lparr>us_task_id = uo_task_id f, us_state = ''downloading'', us_offset = rc_offset r, us_error = ''''\<rparr>,
             False), r)
      else if rc_offset r \<noteq> uo_size f then chunk_failed ''upgrade ended before declared size'' r
      else (case file_sha256 dg (ci_digest io) (rc_candidate r) r of
          Inl e \<Rightarrow> chunk_failed e r
        | Inr digest \<Rightarrow>
            if digest \<noteq> to_lower dg (uo_sha256 f) then chunk_failed ''upgrade artifact checksum mismatch'' r
            else (case ci_chmod io of
                Some e \<Rightarrow> chunk_failed e r
              | None \<Rightarrow>
                  ((\<lparr>us_task_id = uo_task_id f, us_state = ''verifying'', us_offset = rc_offset r,
                     us_error = ''''\<rparr>, True), r))))"

definition rc_handle_chunk ::
  "digests \<Rightarrow> chunk_io \<Rightarrow> upgrade_chunk option \<Rightarrow> receiver \<Rightarrow> (upgrade_status_report \<times> bool) \<times> receiver" where
  "rc_handle_chunk dg io chunk r =
     (case (rc_offer r, chunk) of
        (Some f, Some c) \<Rightarrow>
          (case check_chunk dg f (rc_offset r) c of
             Some e \<Rightarrow> chunk_failed e r
           | None \<Rightarrow>
               (case write_candidate io (uc_data c) r of
                  (Some e, r) \<Rightarrow> chunk_failed e r
                | (None, r) \<Rightarrow>
                    (case save_download_state (ci_save io) f
                            (r\<lparr>rc_offset := rc_offset r + of_nat (length (uc_data c))\<rparr>) of
                       (Some e, r) \<Rightarrow> chunk_failed e r
                     | (None, r) \<Rightarrow> finish_chunk dg io f (uc_eof c) r)))
      | _ \<Rightarrow> chunk_failed ''unexpected upgrade chunk'' r)"

section \<open>Handing over and cleaning up\<close>

definition remove_file :: "string \<Rightarrow> receiver \<Rightarrow> receiver" where
  "remove_file path r = r\<lparr>rc_files := (rc_files r)(path := None)\<rparr>"

datatype apply_start = Not_Ready string | Start_Failed string | Apply_Started

definition rc_start_apply ::
  "save_outcome \<Rightarrow> string option \<Rightarrow> int \<Rightarrow> int \<Rightarrow> receiver \<Rightarrow> apply_start \<times> receiver" where
  "rc_start_apply save helper pid now r =
     (case rc_offer r of
        None \<Rightarrow> (Not_Ready ''upgrade is not ready to apply'', r)
      | Some f \<Rightarrow>
          if rc_candidate r = '''' \<or> rc_offset r \<noteq> uo_size f
          then (Not_Ready ''upgrade is not ready to apply'', r)
          else
            let state = \<lparr>as_task_id = uo_task_id f, as_target = rc_executable r,
                  as_candidate = rc_candidate r,
                  as_backup = rc_executable r @ ''.backup-'' @ uo_task_id f,
                  as_mode = ro_mode (rc_opts r), as_restart_args = ro_restart_args (rc_opts r),
                  as_service_name = ro_service_name (rc_opts r), as_expected_sha256 = uo_sha256 f,
                  as_expected_version = uo_version f, as_parent_pid = pid,
                  as_health_path = path_join (rc_update_dir r) (''health-'' @ uo_task_id f),
                  as_result_path = path_join (rc_update_dir r) ''last-result.json'',
                  as_created_at = now\<rparr>;
                r = (remove_file (as_health_path state) r)\<lparr>rc_result := None\<rparr>
            in (case save of
                  Save_Failed e replaced \<Rightarrow>
                    (Start_Failed e, if replaced then r\<lparr>rc_pending := Some state\<rparr> else r)
                | Save_Ok \<Rightarrow>
                    let r = r\<lparr>rc_pending := Some state\<rparr> in
                    (case helper of
                       Some e \<Rightarrow> (Start_Failed (''start upgrade helper: '' @ e), r)
                     | None \<Rightarrow> (Apply_Started, r))))"

text \<open>The health file's contents are not read by anyone; only its presence is.\<close>

definition rc_mark_healthy :: "save_outcome \<Rightarrow> byte list \<Rightarrow> receiver \<Rightarrow> receiver" where
  "rc_mark_healthy save contents r =
     (case rc_pending r of
        None \<Rightarrow> r
      | Some state \<Rightarrow>
          if as_target state \<noteq> rc_executable r \<or> as_expected_version state \<noteq> ro_version (rc_opts r) then r
          else (case save of
              Save_Failed _ False \<Rightarrow> r
            | _ \<Rightarrow> r\<lparr>rc_files := (rc_files r)(as_health_path state \<mapsto> contents)\<rparr>))"

definition rc_pending_result :: "receiver \<Rightarrow> upgrade_status_report option" where
  "rc_pending_result r =
     (case rc_result r of
        None \<Rightarrow> None
      | Some a \<Rightarrow>
          if ar_task_id a = '''' then None
          else Some \<lparr>us_task_id = ar_task_id a, us_state = ar_state a, us_offset = 0, us_error = ar_error a\<rparr>)"

definition rc_acknowledge_result :: "string \<Rightarrow> receiver \<Rightarrow> receiver" where
  "rc_acknowledge_result task_id r =
     (case rc_pending_result r of
        None \<Rightarrow> r
      | Some report \<Rightarrow> if us_task_id report \<noteq> task_id then r else r\<lparr>rc_result := None\<rparr>)"

text \<open>The name of a directly contained file, if the path is one.\<close>

definition entry_name :: "string \<Rightarrow> string \<Rightarrow> string option" where
  "entry_name dir path =
     (if has_prefix path (dir @ ''/'') \<and> CHR ''/'' \<notin> set (drop (length dir + 1) path)
      then Some (drop (length dir + 1) path) else None)"

text \<open>The two listings may fail; \<open>protect\<close> is the pending candidate that has no result yet.\<close>

definition rc_cleanup :: "bool \<Rightarrow> bool \<Rightarrow> receiver \<Rightarrow> receiver" where
  "rc_cleanup list_updates list_targets r =
     (let protect = (if rc_result r = None then map_option as_candidate (rc_pending r) else None);
          stale = (\<lambda>path. list_updates \<and>
            (case entry_name (rc_update_dir r) path of
               None \<Rightarrow> False
             | Some name \<Rightarrow> has_prefix name ''candidate-'' \<and>
                 \<not> (rc_offer r \<noteq> None \<and> rc_candidate r \<noteq> '''' \<and> path = rc_candidate r) \<and>
                 protect \<noteq> Some path));
          leftover = (\<lambda>path. protect = None \<and> list_targets \<and>
            (case entry_name (rc_dir r) path of
               None \<Rightarrow> False
             | Some name \<Rightarrow> has_prefix name (rc_base r @ ''.backup-'') \<or>
                 has_prefix name (rc_base r @ ''.failed-'')))
      in r\<lparr>rc_files := (\<lambda>path. if stale path \<or> leftover path then None else rc_files r path)\<rparr>)"

section \<open>The invariant\<close>

text \<open>The offer a receiver works on passed every check, its progress stays within the declared size,
  and the candidate is a file of the update directory that no health file can be.\<close>

definition rc_inv :: "digests \<Rightarrow> receiver \<Rightarrow> bool" where
  "rc_inv dg r \<longleftrightarrow>
     (\<forall>f. rc_offer r = Some f \<longrightarrow> check_offer dg (rc_opts r) (Some f) = None \<and>
        0 \<le> sint (rc_offset r) \<and> sint (rc_offset r) \<le> sint (uo_size f) \<and>
        (\<exists>name. rc_candidate r = path_join (rc_update_dir r) (''candidate-'' @ name))) \<and>
     (\<forall>p. rc_pending r = Some p \<longrightarrow> (\<exists>name. as_health_path p = path_join (rc_update_dir r) (''health-'' @ name)))"

lemma max_artifact_size_sint [simp]: "sint max_artifact_size = 268435456"
  by (simp add: max_artifact_size_def)

lemma check_offer_None:
  "check_offer dg opts offer = None \<Longrightarrow> \<exists>f. offer = Some f \<and> task_id_valid (uo_task_id f) \<and>
     uo_platform f = ro_platform opts \<and> compare_versions (ro_version opts) (uo_version f) \<noteq> None \<and>
     (\<forall>c. compare_versions (ro_version opts) (uo_version f) = Some c \<longrightarrow> c < 0) \<and>
     0 < sint (uo_size f) \<and> sint (uo_size f) \<le> sint max_artifact_size \<and>
     unat (uo_chunk_size f) \<le> 1024 * 1024 \<and> length (uo_sha256 f) = 64 \<and> verify_offer dg (ro_key opts) f"
  by (auto simp: check_offer_def word_less_nat_alt not_less split: if_splits option.splits)

lemma length_write_at: "off \<le> length xs \<Longrightarrow> length (write_at xs off d) = max (off + length d) (length xs)"
  by (auto simp: write_at_def max_def)

lemma take_write_at: "off \<le> length xs \<Longrightarrow> take (off + length d) (write_at xs off d) = take off xs @ d"
  by (simp add: write_at_def)

lemma path_join_inject [simp]: "path_join d a = path_join d b \<longleftrightarrow> a = b"
  by (simp add: path_join_def)

lemma entry_of_nested: "entry_name dir (path_join (path_join dir ''.gpipe-update'') name) = None"
  by (simp add: entry_name_def path_join_def has_prefix_def)

lemma resume_offset_cases:
  "resume_offset io f candidate r = 0 \<or>
   (\<exists>contents. rc_files r candidate = Some contents \<and>
      int (length contents) = sint (resume_offset io f candidate r) \<and>
      sint (resume_offset io f candidate r) \<le> sint (uo_size f))"
  by (auto simp: resume_offset_def split: option.split if_split)

lemma save_frame:
  "snd (save_download_state io f r) = r \<or> (\<exists>s. snd (save_download_state io f r) = r\<lparr>rc_download := s\<rparr>)"
  by (cases io) (auto simp: save_download_state_def Let_def)

lemma rc_inv_download [simp]: "rc_inv dg (r\<lparr>rc_download := s\<rparr>) = rc_inv dg r"
  by (simp add: rc_inv_def rc_update_dir_def)

lemma rc_inv_save: "rc_inv dg r \<Longrightarrow> save_download_state io f r = (e, r') \<Longrightarrow> rc_inv dg r'"
  by (metis rc_inv_download save_frame snd_conv)

lemma save_same [simp]:
  "rc_files (snd (save_download_state io f r)) = rc_files r"
  "rc_candidate (snd (save_download_state io f r)) = rc_candidate r"
  "rc_offer (snd (save_download_state io f r)) = rc_offer r"
  "rc_opts (snd (save_download_state io f r)) = rc_opts r"
  "rc_offset (snd (save_download_state io f r)) = rc_offset r"
  by (cases io; simp add: save_download_state_def Let_def)+

lemma rc_inv_files [simp]: "rc_inv dg (r\<lparr>rc_files := fs\<rparr>) = rc_inv dg r"
  by (simp add: rc_inv_def rc_update_dir_def)

lemma rc_inv_truncate: "rc_inv dg r \<Longrightarrow> truncate_file a b path r = (e, r') \<Longrightarrow> rc_inv dg r'"
  by (auto simp: truncate_file_def split: option.splits)

lemma rc_inv_accepted:
  assumes "rc_inv dg r" "check_offer dg (rc_opts r) (Some f) = None"
    "candidate = path_join (rc_update_dir r) (''candidate-'' @ name)"
    "0 \<le> sint off" "sint off \<le> sint (uo_size f)"
  shows "rc_inv dg (r\<lparr>rc_offer := Some f, rc_candidate := candidate, rc_offset := off\<rparr>)"
  using assms by (auto simp: rc_inv_def rc_update_dir_def)

lemma truncate_same:
  "truncate_file a b path r = (e, r') \<Longrightarrow> rc_opts r' = rc_opts r \<and> rc_update_dir r' = rc_update_dir r"
  by (auto simp: truncate_file_def rc_update_dir_def split: option.splits)

lemma checked_size: "check_offer dg opts (Some f) = None \<Longrightarrow> 0 < sint (uo_size f)"
  using check_offer_None by blast

lemma rc_inv_zero: "rc_inv dg r \<Longrightarrow> rc_inv dg (r\<lparr>rc_offset := 0\<rparr>)"
  by (auto simp: rc_inv_def rc_update_dir_def intro: less_imp_le checked_size)

lemma accept_restart_inv: "rc_inv dg r \<Longrightarrow> rc_inv dg (snd (accept_restart io f candidate r))"
  unfolding accept_restart_def
  by (auto split: prod.split option.split) (metis rc_inv_truncate rc_inv_save rc_inv_zero)+

lemma accept_record_inv:
  "rc_inv dg (r\<lparr>rc_offer := Some f, rc_candidate := candidate, rc_offset := off\<rparr>) \<Longrightarrow>
   rc_inv dg (snd (accept_record dg io f candidate off r))"
  unfolding accept_record_def
  by (auto split: prod.split option.split dest: rc_inv_save intro: accept_restart_inv)

lemma prepare_candidate_inv:
  "rc_inv dg r \<Longrightarrow> prepare_candidate io off candidate r = (e, r') \<Longrightarrow>
   rc_inv dg r' \<and> rc_opts r' = rc_opts r \<and> rc_update_dir r' = rc_update_dir r"
  unfolding prepare_candidate_def
  by (auto split: if_splits dest: rc_inv_truncate truncate_same)

lemma resume_offset_bounds:
  "0 < sint (uo_size f) \<Longrightarrow> 0 \<le> sint (resume_offset io f candidate r) \<and>
     sint (resume_offset io f candidate r) \<le> sint (uo_size f)"
  using resume_offset_cases [of io f candidate r] by auto

lemma rc_accept_inv:
  assumes inv: "rc_inv dg r"
  shows "rc_inv dg (snd (rc_accept dg io offer r))"
proof (cases "check_offer dg (rc_opts r) offer = None \<and> ai_mkdir io = None")
  case True
  then obtain f where f: "offer = Some f" "0 < sint (uo_size f)" using check_offer_None by blast
  let ?c = "path_join (rc_update_dir r) (''candidate-'' @ uo_task_id f @ ai_ext io)"
  let ?off = "resume_offset io f ?c r"
  obtain e r' where prep: "prepare_candidate io ?off ?c r = (e, r')" by fastforce
  note r' = prepare_candidate_inv [OF inv prep]
  have "rc_inv dg (r'\<lparr>rc_offer := Some f, rc_candidate := ?c, rc_offset := ?off\<rparr>)"
    by (rule rc_inv_accepted [of _ _ _ _ "uo_task_id f @ ai_ext io"])
      (use r' True f resume_offset_bounds in auto)
  with True f prep r' show ?thesis
    by (auto simp: rc_accept_def Let_def intro: accept_record_inv split: option.split)
qed (use inv in \<open>auto simp: rc_accept_def split: option.split\<close>)

lemma chunk_failed_state [simp]: "snd (chunk_failed e r) = r" "fst (chunk_failed e r) \<noteq> (rep, True)"
  by (simp_all add: chunk_failed_def)

lemma finish_chunk_state [simp]: "snd (finish_chunk dg io f eof r) = r"
  by (simp add: finish_chunk_def split: sum.split option.split)

lemma write_candidate_same:
  "write_candidate io data r = (e, r') \<Longrightarrow> rc_offer r' = rc_offer r \<and> rc_opts r' = rc_opts r \<and>
     rc_candidate r' = rc_candidate r \<and> rc_offset r' = rc_offset r \<and> (\<exists>fs. r' = r\<lparr>rc_files := fs\<rparr>)"
  by (auto simp: write_candidate_def Let_def split: option.splits write_outcome.splits)
    (metis receiver.surjective receiver.update_convs(7))+

lemma chunk_offset_bound:
  assumes "check_offer dg opts (Some f) = None" "0 \<le> sint off" "sint off \<le> sint (uo_size f)"
    "check_chunk dg f off c = None"
  shows "sint (off + of_nat (length (uc_data c))) = sint off + int (length (uc_data c))"
proof -
  from assms(4) have "length (uc_data c) \<le> unat (uo_chunk_size f)"
    by (auto simp: check_chunk_def split: if_splits)
  with check_offer_None [OF assms(1)] have len: "length (uc_data c) \<le> 1024 * 1024"
    and small: "sint (uo_size f) \<le> 268435456" by auto
  define k where "k = nat (sint off)"
  have off: "off = of_nat k" "sint off = int k" using assms(2) by (simp_all add: k_def)
  have sum: "off + of_nat (length (uc_data c)) = of_nat (k + length (uc_data c))"
    unfolding off(1) by simp
  have "k + length (uc_data c) < 2 ^ 63" using len small assms(3) off(2) by simp
  from sint_of_nat_small [OF this] show ?thesis unfolding sum off(2) by (simp only: of_nat_add)
qed

lemma rc_inv_progress:
  assumes "rc_inv dg r" "rc_offer r = Some f" "check_chunk dg f (rc_offset r) c = None"
    "r' = r\<lparr>rc_files := fs, rc_offset := rc_offset r + of_nat (length (uc_data c))\<rparr>"
  shows "rc_inv dg r'"
proof -
  from assms(1,2) have "check_offer dg (rc_opts r) (Some f) = None" "0 \<le> sint (rc_offset r)"
    "sint (rc_offset r) \<le> sint (uo_size f)" by (auto simp: rc_inv_def)
  from chunk_offset_bound [OF this assms(3)] assms show ?thesis
    by (auto simp: rc_inv_def rc_update_dir_def check_chunk_def split: if_splits)
qed

lemma rc_handle_chunk_inv:
  assumes inv: "rc_inv dg r"
  shows "rc_inv dg (snd (rc_handle_chunk dg io chunk r))"
proof (cases "\<exists>f c. rc_offer r = Some f \<and> chunk = Some c \<and> check_chunk dg f (rc_offset r) c = None")
  case False
  with inv show ?thesis by (auto simp: rc_handle_chunk_def split: option.split)
next
  case True
  then obtain f c where fc: "rc_offer r = Some f" "chunk = Some c" "check_chunk dg f (rc_offset r) c = None" by blast
  obtain e r1 where w: "write_candidate io (uc_data c) r = (e, r1)" by fastforce
  from write_candidate_same [OF w] obtain fs where r1: "r1 = r\<lparr>rc_files := fs\<rparr>" by blast
  let ?r2 = "r1\<lparr>rc_offset := rc_offset r1 + of_nat (length (uc_data c))\<rparr>"
  have "rc_inv dg ?r2" by (rule rc_inv_progress [OF inv fc(1,3)]) (simp add: r1)
  then have "rc_inv dg (snd (save_download_state (ci_save io) f ?r2))"
    by (rule rc_inv_save [OF _ prod.collapse [symmetric]])
  with inv fc w r1 show ?thesis
    by (simp add: rc_handle_chunk_def split_beta split: option.split)
qed

lemma rc_start_apply_inv: "rc_inv dg r \<Longrightarrow> rc_inv dg (snd (rc_start_apply save helper pid now r))"
  by (auto simp: rc_start_apply_def Let_def rc_inv_def rc_update_dir_def remove_file_def
      split: option.splits save_outcome.splits if_splits)

lemma rc_small_ops_inv:
  "rc_inv dg r \<Longrightarrow> rc_inv dg (rc_mark_healthy save contents r)"
  "rc_inv dg r \<Longrightarrow> rc_inv dg (rc_acknowledge_result tid r)"
  "rc_inv dg r \<Longrightarrow> rc_inv dg (rc_cleanup a b r)"
  by (auto simp: rc_mark_healthy_def rc_acknowledge_result_def rc_cleanup_def Let_def rc_inv_def rc_update_dir_def
      split: option.splits save_outcome.splits bool.splits)

section \<open>The client's frame handler\<close>

text \<open>The upgrade branches of \<open>handleFrame\<close> and \<open>startUpgradeApply\<close> in
  \<open>internal/client/client.go\<close>: the reports sent, the outcome of starting the helper if it was
  started, and the receiver.\<close>

record apply_io =
  pi_save :: save_outcome
  pi_helper :: "string option"
  pi_pid :: int
  pi_now :: int

definition start_upgrade_apply ::
  "apply_io \<Rightarrow> string \<Rightarrow> i64 \<Rightarrow> receiver \<Rightarrow> upgrade_status_report \<times> apply_start \<times> receiver" where
  "start_upgrade_apply io task_id off r =
     (case rc_start_apply (pi_save io) (pi_helper io) (pi_pid io) (pi_now io) r of
        (Apply_Started, r) \<Rightarrow>
          (\<lparr>us_task_id = task_id, us_state = ''applying'', us_offset = off, us_error = ''''\<rparr>, Apply_Started, r)
      | (Not_Ready e, r) \<Rightarrow> (failed_report task_id off e, Not_Ready e, r)
      | (Start_Failed e, r) \<Rightarrow> (failed_report task_id off e, Start_Failed e, r))"

definition client_on_upgrade_offer ::
  "digests \<Rightarrow> accept_io \<Rightarrow> apply_io \<Rightarrow> upgrade_offer \<Rightarrow> receiver
    \<Rightarrow> upgrade_status_report list \<times> apply_start option \<times> receiver" where
  "client_on_upgrade_offer dg io pio offer r =
     (case rc_accept dg io (Some offer) r of
        (report, r) \<Rightarrow>
          if us_state report = ''verifying''
          then (case start_upgrade_apply pio (uo_task_id offer) (us_offset report) r of
                  (answer, outcome, r) \<Rightarrow> ([report, answer], Some outcome, r))
          else ([report], None, r))"

definition client_on_upgrade_chunk ::
  "digests \<Rightarrow> chunk_io \<Rightarrow> apply_io \<Rightarrow> upgrade_chunk \<Rightarrow> receiver
    \<Rightarrow> upgrade_status_report list \<times> apply_start option \<times> receiver" where
  "client_on_upgrade_chunk dg io pio chunk r =
     (case rc_handle_chunk dg io (Some chunk) r of
        ((report, ready), r) \<Rightarrow>
          if \<not> ready then ([report], None, r)
          else (case start_upgrade_apply pio (uc_task_id chunk) (us_offset report) r of
                  (answer, outcome, r) \<Rightarrow> ([report, answer], Some outcome, r)))"

text \<open>A run of the receiver inside its client, with any server, any file-system failures and any
  timer.\<close>

inductive rc_run :: "digests \<Rightarrow> receiver \<Rightarrow> bool" for dg where
  new: "rc_offer r = None \<Longrightarrow> rc_pending r = None \<Longrightarrow> rc_run dg r"
| offer: "rc_run dg r \<Longrightarrow> client_on_upgrade_offer dg io pio f r = (reports, started, r') \<Longrightarrow> rc_run dg r'"
| chunk: "rc_run dg r \<Longrightarrow> client_on_upgrade_chunk dg cio pio c r = (reports, started, r') \<Longrightarrow> rc_run dg r'"
| healthy: "rc_run dg r \<Longrightarrow> rc_run dg (rc_mark_healthy save contents r)"
| acknowledge: "rc_run dg r \<Longrightarrow> rc_run dg (rc_acknowledge_result task_id r)"
| cleanup: "rc_run dg r \<Longrightarrow> rc_run dg (rc_cleanup a b r)"

lemma start_upgrade_apply_inv:
  "rc_inv dg r \<Longrightarrow> start_upgrade_apply io tid off r = (rep, out, r') \<Longrightarrow> rc_inv dg r'"
  using rc_start_apply_inv [of dg r "pi_save io" "pi_helper io" "pi_pid io" "pi_now io"]
  by (auto simp: start_upgrade_apply_def split: prod.splits apply_start.splits)

lemma rc_run_inv: "rc_run dg r \<Longrightarrow> rc_inv dg r"
proof (induction rule: rc_run.induct)
  case (new r)
  then show ?case by (simp add: rc_inv_def)
next
  case (offer r io pio f reports started r')
  then show ?case
    using rc_accept_inv [of dg r io "Some f"] start_upgrade_apply_inv
    by (auto simp: client_on_upgrade_offer_def split: prod.splits if_splits)
next
  case (chunk r cio pio c reports started r')
  then show ?case
    using rc_handle_chunk_inv [of dg r cio "Some c"] start_upgrade_apply_inv
    by (auto simp: client_on_upgrade_chunk_def split: prod.splits if_splits)
qed (simp_all add: rc_small_ops_inv)

text \<open>The candidate that may be run: complete, with the digest that was signed for this client.\<close>

definition ready_candidate :: "digests \<Rightarrow> receiver \<Rightarrow> bool" where
  "ready_candidate dg r \<longleftrightarrow>
     (\<exists>f contents c. rc_offer r = Some f \<and> rc_offset r = uo_size f \<and>
        rc_files r (rc_candidate r) = Some contents \<and> sha256_hex dg contents = to_lower dg (uo_sha256 f) \<and>
        verify_offer dg (ro_key (rc_opts r)) f \<and> uo_platform f = ro_platform (rc_opts r) \<and>
        compare_versions (ro_version (rc_opts r)) (uo_version f) = Some c \<and> c < 0)"

lemma ready_candidateI:
  assumes "rc_inv dg r" "rc_offer r = Some f" "rc_offset r = uo_size f"
    "file_sha256 dg io (rc_candidate r) r = Inr (to_lower dg (uo_sha256 f))"
  shows "ready_candidate dg r"
proof -
  from assms(1,2) have "check_offer dg (rc_opts r) (Some f) = None" by (simp add: rc_inv_def)
  from check_offer_None [OF this] assms(2-4) show ?thesis
    by (auto simp: ready_candidate_def file_sha256_def split: option.splits)
qed

lemma accept_verifying:
  assumes "rc_inv dg r" "rc_accept dg io offer r = (rep, r')" "us_state rep = ''verifying''"
  shows "ready_candidate dg r'"
proof -
  from rc_accept_inv [OF assms(1), of io offer] assms(2) have inv: "rc_inv dg r'" by simp
  have restart: "us_state (fst (accept_restart io f c r1)) \<noteq> ''verifying''" for f c r1
    by (auto simp: accept_restart_def failed_report_def split: prod.split option.split)
  from assms(2,3) obtain f c off r1 where "accept_record dg io f c off r1 = (rep, r')"
    by (auto simp: rc_accept_def Let_def failed_report_def split: option.splits prod.splits)
  with assms(3) restart [of f c] obtain e where
    "save_download_state (ai_save io) f (r1\<lparr>rc_offer := Some f, rc_candidate := c, rc_offset := off\<rparr>) = (e, r')"
    "off = uo_size f" "file_sha256 dg (ai_digest io) c r' = Inr (to_lower dg (uo_sha256 f))"
    unfolding accept_record_def
    by (auto simp: failed_report_def split: option.splits prod.splits if_splits) (metis fst_conv)+
  moreover from this(1) have "rc_offer r' = Some f" "rc_candidate r' = c" "rc_offset r' = off"
    using save_same [of "ai_save io" f "r1\<lparr>rc_offer := Some f, rc_candidate := c, rc_offset := off\<rparr>"] by simp_all
  ultimately show ?thesis using inv by (intro ready_candidateI) auto
qed

lemma chunk_ready:
  assumes "rc_inv dg r" "rc_handle_chunk dg io chunk r = ((rep, True), r')"
  shows "ready_candidate dg r'"
proof -
  from rc_handle_chunk_inv [OF assms(1), of io chunk] assms(2) have inv: "rc_inv dg r'" by simp
  from assms(2) obtain c where c: "chunk = Some c"
    by (auto simp: rc_handle_chunk_def chunk_failed_def split: option.splits)
  from assms(2) obtain f r1 r2 where fin: "finish_chunk dg io f (uc_eof c) r2 = ((rep, True), r')"
    and "rc_offer r = Some f" "write_candidate io (uc_data c) r = (None, r1)"
    "save_download_state (ci_save io) f (r1\<lparr>rc_offset := rc_offset r1 + of_nat (length (uc_data c))\<rparr>) = (None, r2)"
    by (auto simp: c rc_handle_chunk_def chunk_failed_def split: option.splits prod.splits)
  then have "rc_offer r2 = Some f"
    using write_candidate_same save_same(3) by (metis receiver.select_convs(4) receiver.surjective
      receiver.update_convs(6) snd_conv)
  with fin inv show ?thesis
    by (auto simp: finish_chunk_def chunk_failed_def intro: ready_candidateI split: if_splits sum.splits option.splits)
qed

lemma start_apply_ready:
  assumes "rc_inv dg r" "ready_candidate dg r" "start_upgrade_apply io tid off r = (rep, Apply_Started, r')"
  shows "ready_candidate dg r' \<and> (\<exists>p f. rc_pending r' = Some p \<and> rc_offer r' = Some f \<and>
    as_candidate p = rc_candidate r' \<and> as_expected_sha256 p = uo_sha256 f \<and>
    as_expected_version p = uo_version f \<and> as_target p = rc_executable r')"
proof -
  from assms(2) obtain f where f: "rc_offer r = Some f" by (auto simp: ready_candidate_def)
  with assms(1) obtain name where cand: "rc_candidate r = path_join (rc_update_dir r) (''candidate-'' @ name)"
    by (auto simp: rc_inv_def)
  then have "rc_candidate r \<noteq> path_join (rc_update_dir r) (''health-'' @ uo_task_id f)" by simp
  moreover from assms(3) have "fst (rc_start_apply (pi_save io) (pi_helper io) (pi_pid io) (pi_now io) r) = Apply_Started"
    "r' = snd (rc_start_apply (pi_save io) (pi_helper io) (pi_pid io) (pi_now io) r)"
    by (auto simp: start_upgrade_apply_def split: prod.splits apply_start.splits)
  ultimately show ?thesis
    using assms(2) f
    by (auto simp: rc_start_apply_def Let_def ready_candidate_def remove_file_def rc_executable_def
        split: if_splits save_outcome.splits option.splits)
qed

end
