(* ===== verification/Upgrade_Transfer.thy ===== *)
theory Upgrade_Transfer
  imports Upgrade_Receiver
begin

text \<open>
  The upgrade as a whole: what the server's manager (\<open>Upgrade_Manager\<close>) and the client's receiver
  (\<open>Upgrade_Receiver\<close>) achieve together, and what the signature of an offer covers.
\<close>

section \<open>Properties\<close>

text \<open>C6. A client starts the apply helper only on a verified candidate.  Whatever server it talks to,
  whichever file operations fail and however the download was interrupted and resumed before, when
  the handling of an offer or a chunk ends in the helper being started, the candidate file has the
  digest of an offer that was signed with the client's key, for its platform and for a newer version,
  and this candidate and digest are what the helper is told to check and install.\<close>

theorem applied_candidate_verified:
  assumes "rc_run dg r"
    and "client_on_upgrade_offer dg io pio offer r = (reports, Some Apply_Started, r') \<or>
      client_on_upgrade_chunk dg cio pio chunk r = (reports, Some Apply_Started, r')"
  shows "ready_candidate dg r' \<and> (\<exists>p f. rc_pending r' = Some p \<and> rc_offer r' = Some f \<and>
    as_candidate p = rc_candidate r' \<and> as_expected_sha256 p = uo_sha256 f \<and>
    as_expected_version p = uo_version f \<and> as_target p = rc_executable r')"
  using assms(2)
proof
  note inv = rc_run_inv [OF assms(1)]
  assume "client_on_upgrade_offer dg io pio offer r = (reports, Some Apply_Started, r')"
  then obtain rep r1 where acc: "rc_accept dg io (Some offer) r = (rep, r1)" "us_state rep = ''verifying''"
    and start: "\<exists>last. start_upgrade_apply pio (uo_task_id offer) (us_offset rep) r1 = (last, Apply_Started, r')"
    by (auto simp: client_on_upgrade_offer_def split: prod.splits if_splits)
  from rc_accept_inv [OF inv, of io "Some offer"] acc have "rc_inv dg r1" by simp
  with start accept_verifying [OF inv acc] show ?thesis using start_apply_ready by blast
next
  note inv = rc_run_inv [OF assms(1)]
  assume "client_on_upgrade_chunk dg cio pio chunk r = (reports, Some Apply_Started, r')"
  then obtain rep r1 where hc: "rc_handle_chunk dg cio (Some chunk) r = ((rep, True), r1)"
    and start: "\<exists>last. start_upgrade_apply pio (uc_task_id chunk) (us_offset rep) r1 = (last, Apply_Started, r')"
    by (auto simp: client_on_upgrade_chunk_def split: prod.splits if_splits)
  from rc_handle_chunk_inv [OF inv, of cio "Some chunk"] hc have "rc_inv dg r1" by simp
  with start chunk_ready [OF inv hc] show ?thesis using start_apply_ready by blast
qed

text \<open>The exchange of reports and chunks when nothing fails: the server answers the last report, the
  receiver handles the chunk, and its next report goes back; \<open>clock\<close> gives the time of each round.\<close>

definition no_chunk_faults :: chunk_io where
  "no_chunk_faults = \<lparr>ci_open = None, ci_write = Write_Ok, ci_save = Save_Ok, ci_digest = None, ci_chmod = None\<rparr>"

fun transfer ::
  "nat \<Rightarrow> digests \<Rightarrow> (nat \<Rightarrow> int) \<Rightarrow> u32 \<Rightarrow> upgrade_status_report \<Rightarrow> upgrade_manager \<Rightarrow> receiver
    \<Rightarrow> (upgrade_status_report \<times> bool) \<times> upgrade_manager \<times> receiver" where
  "transfer 0 dg clock player report m r = ((report, False), m, r)"
| "transfer (Suc n) dg clock player report m r =
     (case um_handle_status dg (clock 0) None player (Some report) m of
        (Inr (Some chunk), m) \<Rightarrow>
          (case rc_handle_chunk dg no_chunk_faults (Some chunk) r of
             ((report, ready), r) \<Rightarrow>
               if ready then ((report, True), m, r)
               else transfer n dg (\<lambda>i. clock (Suc i)) player report m r)
      | (_, m) \<Rightarrow> ((report, False), m, r))"

lemma task_data:
  "task_ok dg t \<Longrightarrow> ut_artifact t = Some data \<Longrightarrow>
   uo_size (ut_offer t) = of_nat (length data) \<and> length data \<le> max_upgrade_artifact_size \<and>
   sint (uo_size (ut_offer t)) = int (length data) \<and> uo_chunk_size (ut_offer t) = upgrade_chunk_size \<and>
   uo_sha256 (ut_offer t) = sha256_hex dg data"
  by (simp add: task_ok_def sint_of_nat_small max_upgrade_artifact_size_def)

definition served_chunk :: "digests \<Rightarrow> string \<Rightarrow> nat \<Rightarrow> byte list \<Rightarrow> upgrade_chunk" where
  "served_chunk dg task_id k data =
     \<lparr>uc_task_id = task_id, uc_offset = of_nat k, uc_data = next_chunk k data,
      uc_sha256 = sha256_hex dg (next_chunk k data), uc_eof = (k + length (next_chunk k data) = length data)\<rparr>"

lemma handle_status_serves:
  assumes "prune_expired now m p = Some t" "\<not> terminal_upgrade_state (ut_state t)" "task_ok dg t"
    and "ut_artifact t = Some data" "k < length data" "us_task_id r = uo_task_id (ut_offer t)"
    and "us_state r = ''accepted'' \<or> us_state r = ''downloading''" "us_offset r = of_nat k"
  shows "um_handle_status dg now None p (Some r) m =
    (Inr (Some (served_chunk dg (us_task_id r) k data)), (prune_expired now m)(p \<mapsto> reported now r t))"
proof -
  note d = task_data [OF assms(3,4)]
  have k: "sint (of_nat k :: i64) = int k"
    using d assms(5) by (intro sint_of_nat_small) (simp add: max_upgrade_artifact_size_def)
  then have ne: "(of_nat k :: i64) \<noteq> of_nat (length data)" using d assms(5) by auto
  note slice = read_chunk_slice [OF assms(5) d [THEN conjunct2, THEN conjunct1]]
  have st: "us_state r \<noteq> ''failed''" "us_state r \<noteq> ''rolled_back''" using assms(7) by auto
  have "\<not> (us_state r \<noteq> ''accepted'' \<and> us_state r \<noteq> ''downloading'')" using assms(7) by blast
  moreover have "sint (of_nat (length data) :: i64) = int (length data)"
    using d by (intro sint_of_nat_small) (simp add: max_upgrade_artifact_size_def)
  ultimately show ?thesis
    using assms(1-6,8) d k ne slice st
    unfolding um_handle_status_unfold Let_def served_chunk_def by simp
qed

lemma handle_chunk_serves:
  assumes "task_ok dg t" "ut_artifact t = Some data" "k < length data"
    and r: "rc_offer r = Some (ut_offer t)" "rc_offset r = of_nat k"
      "rc_files r (rc_candidate r) = Some (take k data)"
  defines "k' \<equiv> k + length (next_chunk k data)"
  obtains r' where "rc_handle_chunk dg no_chunk_faults
      (Some (served_chunk dg (uo_task_id (ut_offer t)) k data)) r =
      ((\<lparr>us_task_id = uo_task_id (ut_offer t),
         us_state = (if k' = length data then ''verifying'' else ''downloading''),
         us_offset = of_nat k', us_error = ''''\<rparr>, k' = length data), r')"
    "rc_offer r' = Some (ut_offer t)" "rc_offset r' = of_nat k'" "rc_candidate r' = rc_candidate r"
    "rc_files r' (rc_candidate r') = Some (take k' data)"
proof -
  note d = task_data [OF assms(1,2)]
  let ?f = "ut_offer t" and ?c = "served_chunk dg (uo_task_id (ut_offer t)) k data"
  have len: "0 < length (next_chunk k data)" "length (next_chunk k data) \<le> 131072" "k' \<le> length data"
    using assms(3) by (auto simp: next_chunk_def k'_def)
  have sum: "(of_nat k :: i64) + of_nat (length (next_chunk k data)) = of_nat k'" by (simp add: k'_def)
  have small: "sint (of_nat j :: i64) = int j" if "j \<le> length data" for j
    using d that by (intro sint_of_nat_small) (simp add: max_upgrade_artifact_size_def)
  have check: "check_chunk dg ?f (rc_offset r) ?c = None"
    using d len small [OF len(3)] small [OF order_refl]
    by (simp add: check_chunk_def served_chunk_def r sum upgrade_chunk_size_def sha256_hex_def not_less)
  let ?r1 = "r\<lparr>rc_files := (rc_files r)(rc_candidate r \<mapsto> take k' data)\<rparr>"
  let ?r2 = "?r1\<lparr>rc_offset := of_nat k'\<rparr>"
  define s where "s = snd (save_download_state Save_Ok ?f ?r2)"
  have s: "save_download_state Save_Ok ?f ?r2 = (None, s)" "rc_offer s = Some ?f" "rc_offset s = of_nat k'"
    "rc_candidate s = rc_candidate r" "rc_files s (rc_candidate s) = Some (take k' data)"
    "rc_files s (rc_candidate r) = Some (take k' data)"
    by (simp_all add: s_def save_download_state_def Let_def r)
  have "write_at (take k data) k (next_chunk k data) = take k' data"
    using assms(3) by (simp add: write_at_def k'_def next_chunk_def take_add min_def)
  then have wr: "write_candidate no_chunk_faults (uc_data ?c) r = (None, ?r1)"
    using assms(3) small [of k] by (simp add: write_candidate_def no_chunk_faults_def served_chunk_def r)
  have last: "(of_nat k' = (of_nat (length data) :: i64)) = (k' = length data)"
    using small [OF len(3)] small [of "length data"] by (metis order_refl of_nat_eq_iff)
  have fin: "finish_chunk dg no_chunk_faults ?f (uc_eof ?c) s =
      ((\<lparr>us_task_id = uo_task_id ?f,
         us_state = (if k' = length data then ''verifying'' else ''downloading''),
         us_offset = of_nat k', us_error = ''''\<rparr>, k' = length data), s)"
    using d last by (auto simp: finish_chunk_def served_chunk_def k'_def [symmetric] s file_sha256_def
        no_chunk_faults_def sha256_hex_def)
  have "rc_handle_chunk dg no_chunk_faults (Some ?c) r = finish_chunk dg no_chunk_faults ?f (uc_eof ?c) s"
    using check wr s(1) by (simp add: rc_handle_chunk_def r) (simp add: no_chunk_faults_def served_chunk_def r sum)
  with that fin s show thesis by simp
qed

lemma accept_outcome:
  assumes "rc_accept dg io (Some f) r0 = (report, r)" "us_state report = ''accepted''"
  shows "rc_offer r = Some f \<and> rc_offset r = us_offset report \<and> us_task_id report = uo_task_id f"
proof -
  have restart: "rc_offer r = Some f \<and> rc_offset r = us_offset report \<and> us_task_id report = uo_task_id f"
    if "accept_restart io f c r1 = (report, r)" "rc_offer r1 = Some f" for c r1
  proof -
    from that(1) assms(2) obtain r2 r3 where "truncate_file (ai_reset io) (ai_reset_sync io) c r1 = (None, r2)"
      "save_download_state (ai_save_again io) f (r2\<lparr>rc_offset := 0\<rparr>) = (None, r)"
      "us_offset report = 0" "us_task_id report = uo_task_id f"
      by (auto simp: accept_restart_def failed_report_def split: prod.splits option.splits)
    moreover from this(1) that(2) have "rc_offer r2 = Some f"
      by (auto simp: truncate_file_def split: option.splits)
    ultimately show ?thesis
      using save_same(3,5) [of "ai_save_again io" f "r2\<lparr>rc_offset := 0\<rparr>"] by simp
  qed
  from assms obtain c off r1 where rec: "accept_record dg io f c off r1 = (report, r)"
    by (auto simp: rc_accept_def Let_def failed_report_def split: option.splits prod.splits)
  obtain e r2 where s: "save_download_state (ai_save io) f (r1\<lparr>rc_offer := Some f, rc_candidate := c, rc_offset := off\<rparr>) = (e, r2)"
    by fastforce
  then have "rc_offer r2 = Some f" "rc_offset r2 = off"
    using save_same [of "ai_save io" f "r1\<lparr>rc_offer := Some f, rc_candidate := c, rc_offset := off\<rparr>"] by simp_all
  with rec s assms(2) restart show ?thesis
    unfolding accept_record_def by (auto simp: failed_report_def split: option.splits if_splits)
qed

lemma prune_fresh:
  "m p = Some t \<Longrightarrow> ut_state t \<noteq> ''applying'' \<Longrightarrow> now - ut_updated t < upgrade_task_ttl \<Longrightarrow>
   prune_expired now m p = Some t"
  by (simp add: prune_expired_def prune_task_def Let_def)

lemma transfer_completes:
  assumes "prune_expired (clock 0) m p = Some t" "\<not> terminal_upgrade_state (ut_state t)" "task_ok dg t"
    "ut_artifact t = Some data" "k < length data"
    and report: "us_task_id report = uo_task_id (ut_offer t)" "us_offset report = of_nat k"
      "us_state report = ''accepted'' \<or> us_state report = ''downloading''"
      "us_state report \<noteq> ut_state t \<or> us_offset report \<noteq> ut_offset t"
    and clock: "\<forall>i. clock (Suc i) - clock i < upgrade_task_ttl"
    and r: "rc_offer r = Some (ut_offer t)" "rc_offset r = of_nat k"
      "rc_files r (rc_candidate r) = Some (take k data)"
    and "length data - k \<le> n * (128 * 1024)"
  shows "\<exists>m' r'. transfer n dg clock p report m r =
     ((\<lparr>us_task_id = uo_task_id (ut_offer t), us_state = ''verifying'', us_offset = uo_size (ut_offer t),
        us_error = ''''\<rparr>, True), m', r') \<and>
     rc_candidate r' = rc_candidate r \<and> rc_files r' (rc_candidate r') = Some data"
  using assms
proof (induction n arbitrary: clock m t k report r)
  case (Suc n)
  note d = task_data [OF Suc.prems(3,4)]
  have nat_small: "sint (of_nat j :: i64) = int j" if "j \<le> length data" for j
    using d that by (intro sint_of_nat_small) (simp add: max_upgrade_artifact_size_def)
  let ?t' = "reported (clock 0) report t" and ?k' = "k + length (next_chunk k data)"
  let ?m' = "(prune_expired (clock 0) m)(p \<mapsto> ?t')"
  from handle_status_serves [OF Suc.prems(1-6,8,7)] Suc.prems(6)
  have hs: "um_handle_status dg (clock 0) None p (Some report) m =
    (Inr (Some (served_chunk dg (uo_task_id (ut_offer t)) k data)), ?m')" by simp
  from handle_chunk_serves [OF Suc.prems(3-5,11-13)] obtain r' where
    hc: "rc_handle_chunk dg no_chunk_faults
      (Some (served_chunk dg (uo_task_id (ut_offer t)) k data)) r =
      ((\<lparr>us_task_id = uo_task_id (ut_offer t),
         us_state = (if ?k' = length data then ''verifying'' else ''downloading''),
         us_offset = of_nat ?k', us_error = ''''\<rparr>, ?k' = length data), r')"
    and r': "rc_offer r' = Some (ut_offer t)" "rc_offset r' = of_nat ?k'" "rc_candidate r' = rc_candidate r"
      "rc_files r' (rc_candidate r') = Some (take ?k' data)" .
  show ?case
  proof (cases "?k' = length data")
    case True
    with hs hc r' d show ?thesis by simp
  next
    case False
    then have k': "?k' = k + 131072" "?k' < length data" using Suc.prems(5) by (auto simp: next_chunk_def)
    have upd: "ut_updated ?t' = clock 0" "ut_state ?t' = us_state report"
      using Suc.prems(9) d Suc.prems(5,7) nat_small [of k] by (auto simp: reported_def Let_def)
    let ?report' = "\<lparr>us_task_id = uo_task_id (ut_offer t), us_state = ''downloading'',
      us_offset = of_nat ?k', us_error = ''''\<rparr> :: upgrade_status_report"
    have "ut_state ?t' \<noteq> ''applying''" using upd(2) Suc.prems(8) by auto
    then have p1: "prune_expired (clock (Suc 0)) ?m' p = Some ?t'"
      using Suc.prems(10) upd(1) by (intro prune_fresh) simp_all
    have live: "\<not> terminal_upgrade_state (ut_state ?t')"
      using Suc.prems(8) by (auto simp: terminal_upgrade_state_def)
    have ok: "task_ok dg ?t'" by (rule reported_ok [OF Suc.prems(3,2)])
    have off: "ut_offset ?t' = of_nat k"
      using Suc.prems(5,7) d nat_small [of k] nat_small [of "length data"] by (simp add: reported_def Let_def)
    have "of_nat ?k' \<noteq> (of_nat k :: i64)"
    proof -
      have "sint (of_nat ?k' :: i64) \<noteq> sint (of_nat k :: i64)"
        using k' Suc.prems(5) by (simp add: nat_small del: of_nat_add)
      then show ?thesis by metis
    qed
    then have news: "us_state ?report' \<noteq> ut_state ?t' \<or> us_offset ?report' \<noteq> ut_offset ?t'"
      using off by simp
    have le: "length data - ?k' \<le> n * (128 * 1024)" using Suc.prems(14) k'(1) by simp
    have "ut_artifact ?t' = Some data" "rc_offer r' = Some (ut_offer ?t')" using Suc.prems(4) r'(1) by simp_all
    note ih = Suc.IH [of "\<lambda>i. clock (Suc i)" ?m' ?t' ?k' ?report' r', OF p1 live ok this(1) k'(2) _ _ _ news _
        this(2) r'(2,4) le]
    have "\<exists>m2 r2. transfer n dg (\<lambda>i. clock (Suc i)) p ?report' ?m' r' =
       ((\<lparr>us_task_id = uo_task_id (ut_offer t), us_state = ''verifying'', us_offset = uo_size (ut_offer t),
          us_error = ''''\<rparr>, True), m2, r2) \<and>
       rc_candidate r2 = rc_candidate r' \<and> rc_files r2 (rc_candidate r2) = Some data"
      by (rule ih [unfolded reported_frame]) (use Suc.prems(10) in simp_all)
    with hs hc r' False show ?thesis by simp
  qed
qed simp

text \<open>C12. An upgrade that is offered is delivered.  In any reachable state of the server's manager with a
  live task, a receiver that has accepted its offer at some offset, with the artifact's beginning up
  to there in its candidate file, ends with the whole artifact in that file and reports it as
  verified, after at most one round for each 128 KiB, provided no file operation fails and no two
  rounds are forty-five minutes apart.\<close>

theorem upgrade_transfer_completes:
  assumes "um_run dg m" and "prune_expired (clock 0) m p = Some t"
    and "\<not> terminal_upgrade_state (ut_state t)"
    and accepted: "rc_accept dg io (Some (ut_offer t)) r0 = (report, r)" "us_state report = ''accepted''"
    and "us_state report \<noteq> ut_state t \<or> us_offset report \<noteq> ut_offset t"
    and "\<forall>i. clock (Suc i) - clock i < upgrade_task_ttl"
    and "\<forall>data. ut_artifact t = Some data \<longrightarrow> (\<exists>k < length data. us_offset report = of_nat k \<and>
      rc_files r (rc_candidate r) = Some (take k data))"
  shows "\<exists>data m' r'. ut_artifact t = Some data \<and>
    transfer (length data div (128 * 1024) + 1) dg clock p report m r =
      ((\<lparr>us_task_id = uo_task_id (ut_offer t), us_state = ''verifying'', us_offset = uo_size (ut_offer t),
         us_error = ''''\<rparr>, True), m', r') \<and>
    rc_files r' (rc_candidate r') = Some data"
proof -
  from prune_inv [OF um_run_inv [OF assms(1)]] assms(2) have ok: "task_ok dg t" by (simp add: um_inv_def)
  with assms(3) obtain data where data: "ut_artifact t = Some data" by (auto simp: task_ok_def)
  with assms(8) obtain k where k: "k < length data" "us_offset report = of_nat k"
    "rc_files r (rc_candidate r) = Some (take k data)" by blast
  from accept_outcome [OF accepted] k(2) have r: "rc_offer r = Some (ut_offer t)" "rc_offset r = of_nat k"
    and id: "us_task_id report = uo_task_id (ut_offer t)" by simp_all
  have "length data - k \<le> (length data div (128 * 1024) + 1) * (128 * 1024)"
    using div_mult_mod_eq [of "length data" "128 * 1024"] mod_less_divisor [of "128 * 1024" "length data"]
    by simp
  from transfer_completes [where k = k, OF assms(2,3) ok data k(1) id k(2) disjI1 [OF accepted(2)] assms(6,7) r k(3) this]
    data show ?thesis by auto
qed

text \<open>One upgrade, played through.\<close>

definition example_task_bytes :: "byte list" where
  "example_task_bytes = [10, 10, 10, 10, 10, 10, 10, 10, 10, 10, 10, 10, 10, 10, 10, 10]"

definition example_offer :: upgrade_offer where
  "example_offer =
     (let f = \<lparr>uo_task_id = hex_encode example_task_bytes, uo_version = ''1.0.1'', uo_platform = ''linux'',
            uo_size = 3, uo_sha256 = sha256_hex example_digests [65, 66, 67], uo_signature = '''',
            uo_chunk_size = upgrade_chunk_size\<rparr>
      in f\<lparr>uo_signature := sign_offer example_digests ''key'' f\<rparr>)"

definition example_live_task :: upgrade_task where
  "example_live_task =
     \<lparr>ut_player = 7, ut_offer = example_offer, ut_artifact = Some [65, 66, 67], ut_state = ''offered'',
      ut_offset = 0, ut_err = '''', ut_created = 0, ut_updated = 0\<rparr>"

definition example_receiver :: receiver where
  "example_receiver =
     \<lparr>rc_opts = \<lparr>ro_enabled = True, ro_version = ''1.0.0'', ro_platform = ''linux'', ro_key = ''key'',
        ro_mode = ''process'', ro_restart_args = [], ro_service_name = ''''\<rparr>,
      rc_dir = ''/opt'', rc_base = ''gpipe'', rc_offer = None, rc_candidate = '''', rc_offset = 0,
      rc_files = [''/opt/gpipe'' \<mapsto> [1]], rc_download = None, rc_pending = None, rc_result = None\<rparr>"

definition no_accept_faults :: accept_io where
  "no_accept_faults =
     \<lparr>ai_ext = '''', ai_mkdir = None, ai_read = True, ai_stat = True, ai_prepare = None,
      ai_prepare_sync = None, ai_save = Save_Ok, ai_digest = None, ai_reset = None, ai_reset_sync = None,
      ai_save_again = Save_Ok\<rparr>"

lemma example_start:
  "snd (um_start example_digests 0 (Inr example_task_bytes) None 7 ''1.0.1'' ''linux'' ''key'' [65, 66, 67]
     new_upgrade_manager) = [7 \<mapsto> example_live_task]"
  by (simp add: um_start_def max_upgrade_artifact_size_def prune_expired_def new_upgrade_manager_def
      example_live_task_def example_offer_def Let_def fun_eq_iff)

lemma example_offer_fields:
  "uo_task_id example_offer = hex_encode example_task_bytes" "uo_version example_offer = ''1.0.1''"
  "uo_platform example_offer = ''linux''" "uo_size example_offer = 3"
  "uo_sha256 example_offer = sha256_hex example_digests [65, 66, 67]"
  "uo_chunk_size example_offer = upgrade_chunk_size"
  by (simp_all add: example_offer_def Let_def)

lemma example_checked: "check_offer example_digests (rc_opts example_receiver) (Some example_offer) = None"
proof -
  have "task_id_valid (hex_encode example_task_bytes)"
    by (simp add: task_id_valid_def hex_encode_chars) (simp add: example_task_bytes_def)
  moreover have "compare_versions ''1.0.0'' ''1.0.1'' = Some (- 1)"
    by (simp add: version_eval)
  moreover have "length (sha256_hex example_digests [65, 66, 67]) = 64"
    by (simp add: sha256_hex_def example_digests_def)
  moreover have "verify_offer example_digests ''key'' example_offer"
    unfolding example_offer_def Let_def by (rule verify_signed)
  ultimately show ?thesis
    by (simp add: check_offer_def example_receiver_def example_offer_fields upgrade_chunk_size_def)
qed

lemma example_accepted:
  defines "result \<equiv> rc_accept example_digests no_accept_faults (Some example_offer) example_receiver"
  shows "us_state (fst result) = ''accepted''" "us_offset (fst result) = 0"
    "rc_files (snd result) (rc_candidate (snd result)) = Some []"
proof -
  have "uo_size example_offer = 3" by (simp add: example_offer_def Let_def)
  then show "us_state (fst result) = ''accepted''" "us_offset (fst result) = 0"
    "rc_files (snd result) (rc_candidate (snd result)) = Some []"
    using example_checked
    by (simp_all add: result_def rc_accept_def no_accept_faults_def resume_offset_def prepare_candidate_def
        truncate_file_def accept_record_def save_download_state_def Let_def example_receiver_def)
qed

theorem upgrade_transfer_completes_witness:
  "let (report, r) = rc_accept example_digests no_accept_faults (Some example_offer) example_receiver;
       ((last, ready), m', r') = transfer 1 example_digests (\<lambda>i. int i) 7 report [7 \<mapsto> example_live_task] r
   in us_state last = ''verifying'' \<and> ready \<and> rc_files r' (rc_candidate r') = Some [65, 66, 67]"
proof -
  have run: "um_run example_digests [7 \<mapsto> example_live_task]"
    using um_run.start [OF um_run.new] example_start by metis
  have t: "prune_expired 0 [7 \<mapsto> example_live_task] 7 = Some example_live_task"
    by (rule prune_fresh) (simp_all add: example_live_task_def upgrade_task_ttl_def)
  let ?res = "rc_accept example_digests no_accept_faults (Some example_offer) example_receiver"
  have res: "?res = (fst ?res, snd ?res)" by simp
  have "\<exists>data m' r'. ut_artifact example_live_task = Some data \<and>
    transfer (length data div (128 * 1024) + 1) example_digests (\<lambda>i. int i) 7 (fst ?res) [7 \<mapsto> example_live_task] (snd ?res) =
      ((\<lparr>us_task_id = uo_task_id (ut_offer example_live_task), us_state = ''verifying'',
         us_offset = uo_size (ut_offer example_live_task), us_error = ''''\<rparr>, True), m', r') \<and>
    rc_files r' (rc_candidate r') = Some data"
    by (rule upgrade_transfer_completes [OF run, where ?r0.0 = example_receiver and io = no_accept_faults])
      (use t example_accepted in \<open>simp_all add: example_live_task_def terminal_upgrade_state_def upgrade_task_ttl_def\<close>)
  then obtain m' r' where "transfer 1 example_digests (\<lambda>i. int i) 7 (fst ?res) [7 \<mapsto> example_live_task] (snd ?res) =
      ((\<lparr>us_task_id = uo_task_id (ut_offer example_live_task), us_state = ''verifying'',
         us_offset = uo_size (ut_offer example_live_task), us_error = ''''\<rparr>, True), m', r')"
    "rc_files r' (rc_candidate r') = Some [65, 66, 67]"
    by (auto simp: example_live_task_def simp del: transfer.simps)
  then show ?thesis by (simp add: split_beta del: transfer.simps)
qed

definition example_apply_io :: apply_io where
  "example_apply_io = \<lparr>pi_save = Save_Ok, pi_helper = None, pi_pid = 4, pi_now = 0\<rparr>"

definition example_ready :: receiver where
  "example_ready = snd (rc_accept example_digests no_accept_faults (Some example_offer) example_receiver)"

lemma example_ready_run: "rc_run example_digests example_ready"
proof (rule rc_run.offer [OF rc_run.new])
  show "client_on_upgrade_offer example_digests no_accept_faults example_apply_io example_offer example_receiver =
      ([fst (rc_accept example_digests no_accept_faults (Some example_offer) example_receiver)], None, example_ready)"
    using example_accepted(1) by (simp add: client_on_upgrade_offer_def split_beta example_ready_def)
qed (simp_all add: example_receiver_def)

lemma example_ready_state:
  "rc_offer example_ready = Some example_offer" "rc_offset example_ready = of_nat 0"
  "rc_files example_ready (rc_candidate example_ready) = Some (take 0 [65, 66, 67])"
  using accept_outcome [OF prod.collapse [symmetric] example_accepted(1)] example_accepted(2,3)
  by (simp_all add: example_ready_def)

lemma example_task_ok: "task_ok example_digests example_live_task"
  by (simp add: task_ok_def example_live_task_def example_offer_fields max_upgrade_artifact_size_def)

definition example_chunk :: upgrade_chunk where
  "example_chunk = served_chunk example_digests (uo_task_id example_offer) 0 [65, 66, 67]"

lemma example_applied:
  obtains reports r1 r2 where
    "client_on_upgrade_chunk example_digests no_chunk_faults example_apply_io example_chunk example_ready = (reports, Some Apply_Started, r2)"
    "rc_handle_chunk example_digests no_chunk_faults (Some example_chunk) example_ready = ((hd reports, True), r1)"
    "rc_start_apply Save_Ok None 4 0 r1 = (Apply_Started, r2)" "rc_offer r1 = Some example_offer"
proof -
  let ?c = example_chunk
  have offer: "ut_offer example_live_task = example_offer" "ut_artifact example_live_task = Some [65, 66, 67]"
    by (simp_all add: example_live_task_def)
  have "(0 :: nat) < length [65, 66, 67 :: byte]" by simp
  from handle_chunk_serves [OF example_task_ok offer(2) this example_ready_state [folded offer(1)]] obtain r' where
    hc: "rc_handle_chunk example_digests no_chunk_faults
        (Some (served_chunk example_digests (uo_task_id (ut_offer example_live_task)) 0 [65, 66, 67])) example_ready =
      ((\<lparr>us_task_id = uo_task_id (ut_offer example_live_task),
         us_state = (if 0 + length (next_chunk 0 [65, 66, 67]) = length [65, 66, 67 :: byte] then ''verifying''
           else ''downloading''),
         us_offset = of_nat (0 + length (next_chunk 0 [65, 66, 67])), us_error = ''''\<rparr>,
        0 + length (next_chunk 0 [65, 66, 67]) = length [65, 66, 67 :: byte]), r')"
    and r': "rc_offer r' = Some (ut_offer example_live_task)"
      "rc_offset r' = of_nat (0 + length (next_chunk 0 [65, 66, 67]))"
      "rc_candidate r' = rc_candidate example_ready" by blast
  define rep where "rep = \<lparr>us_task_id = uo_task_id example_offer, us_state = ''verifying'', us_offset = 3, us_error = ''''\<rparr>"
  have "length (next_chunk 0 [65, 66, 67]) = 3" by (simp add: next_chunk_def)
  with hc r' offer have hc: "rc_handle_chunk example_digests no_chunk_faults (Some ?c) example_ready = ((rep, True), r')"
    and r': "rc_offer r' = Some example_offer" "rc_offset r' = 3" "rc_candidate r' = rc_candidate example_ready"
    by (simp_all add: rep_def example_chunk_def)
  have "rc_candidate r' \<noteq> ''''"
    using rc_run_inv [OF example_ready_run] example_ready_state(1) r'(3) by (auto simp: rc_inv_def path_join_def)
  with r' have "fst (rc_start_apply Save_Ok None 4 0 r') = Apply_Started"
    by (simp add: rc_start_apply_def Let_def example_offer_fields)
  then obtain r2 where start: "rc_start_apply Save_Ok None 4 0 r' = (Apply_Started, r2)"
    by (metis prod.collapse)
  have run: "client_on_upgrade_chunk example_digests no_chunk_faults example_apply_io ?c example_ready =
      ([rep, \<lparr>us_task_id = uc_task_id ?c, us_state = ''applying'', us_offset = us_offset rep, us_error = ''''\<rparr>],
        Some Apply_Started, r2)"
    by (simp add: client_on_upgrade_chunk_def hc start_upgrade_apply_def example_apply_io_def start)
  from that [OF this] hc start r'(1) show thesis by simp
qed

theorem applied_candidate_verified_witness:
  "let (reports, started, r') = client_on_upgrade_chunk example_digests no_chunk_faults example_apply_io example_chunk example_ready
   in started = Some Apply_Started \<and> ready_candidate example_digests r'"
proof -
  obtain reports r2 where run: "client_on_upgrade_chunk example_digests no_chunk_faults example_apply_io example_chunk example_ready =
    (reports, Some Apply_Started, r2)" using example_applied by blast
  from applied_candidate_verified [OF example_ready_run disjI2 [OF run]] show ?thesis by (simp add: run)
qed

lemma split_first:
  "c \<notin> set a \<Longrightarrow> c \<notin> set b \<Longrightarrow> a @ c # x = b @ c # y \<Longrightarrow> a = b \<and> x = y"
  by (induction a arbitrary: b) (case_tac b; auto)+

lemma split_last:
  assumes "c \<notin> set x" "c \<notin> set y" "a @ c # x = b @ c # y"
  shows "a = b \<and> x = y"
proof -
  from assms(3) have "rev x @ c # rev a = rev y @ c # rev b"
    by (metis append.assoc append_Cons append_Nil rev.simps(2) rev_append)
  with split_first [of c "rev x" "rev y" "rev a" "rev b"] assms(1,2) show ?thesis by simp
qed

lemma format_uint_no_newline: "newline \<notin> set (format_uint n)"
  using format_uint_digits by (fastforce simp: is_digit_def)


definition transparent_digests :: digests where
  "transparent_digests = example_digests\<lparr>dg_hmac := (\<lambda>k x. x)\<rparr>"

definition example_signed :: "char \<Rightarrow> upgrade_offer" where
  "example_signed c =
     (let f = \<lparr>uo_task_id = hex_encode example_task_bytes, uo_version = ''1.0.1'', uo_platform = ''linux'',
            uo_size = 3, uo_sha256 = replicate 64 c, uo_signature = '''', uo_chunk_size = upgrade_chunk_size\<rparr>
      in f\<lparr>uo_signature := sign_offer transparent_digests ''key'' f\<rparr>)"

lemma example_signed_checked:
  "check_offer transparent_digests (rc_opts example_receiver) (Some (example_signed c)) = None"
proof -
  have "task_id_valid (hex_encode example_task_bytes)"
    by (simp add: task_id_valid_def hex_encode_chars) (simp add: example_task_bytes_def)
  moreover have "compare_versions ''1.0.0'' ''1.0.1'' = Some (- 1)"
    by (simp add: version_eval)
  moreover have "verify_offer transparent_digests ''key'' (example_signed c)"
    unfolding example_signed_def Let_def by (rule verify_signed)
  moreover have "uo_task_id (example_signed c) = hex_encode example_task_bytes"
    "uo_version (example_signed c) = ''1.0.1''" "uo_platform (example_signed c) = ''linux''"
    "uo_size (example_signed c) = 3" "uo_sha256 (example_signed c) = replicate 64 c"
    "uo_chunk_size (example_signed c) = upgrade_chunk_size"
    by (simp_all add: example_signed_def Let_def)
  ultimately show ?thesis
    by (simp add: check_offer_def example_receiver_def upgrade_chunk_size_def)
qed


end
