(* ===== verification/User_Store.thy ===== *)
theory User_Store
  imports Go_Strings
begin

text \<open>
  \<open>internal/store/user_store.go\<close> over the table \<open>user\<close> that \<open>internal/db/sqlite.go\<close> creates.

  The table is the list of its rows in the order of insertion; each function is the meaning of its
  SQL statement on that list, with the constraints of the schema (\<open>id\<close> is the primary key,
  \<open>username\<close> is unique).  Times are the texts the table stores.  The database engine's own failures
  are an argument (\<open>None\<close> when there is none); a statement that fails changes nothing.
\<close>

record user =
  u_id :: u32
  u_remark :: string
  u_key :: string
  u_create_time :: string
  u_last_online_time :: string
  u_client_version :: string
  u_client_platform :: string
  u_updater_version :: u32

record player_update =
  up_id :: u32
  up_remark :: string
  up_key :: string

type_synonym user_table = "user list"

datatype store_error =
    Engine string
  | Constraint_Failed
  | Rows_Affected nat
  | Duplicate_Player_Key

text \<open>\<open>ORDER BY create_time DESC, id DESC\<close>.\<close>

definition newest_first :: "user_table \<Rightarrow> user list" where
  "newest_first us = rev (sort_key u_create_time (sort_key (\<lambda>u. unat (u_id u)) us))"

definition us_list :: "string option \<Rightarrow> int \<Rightarrow> int \<Rightarrow> user_table \<Rightarrow> store_error + (user list \<times> nat)" where
  "us_list db page_number page_size us =
     (let page_size = (if page_size \<le> 0 \<or> page_size > 100 then 10 else page_size);
          page_number = (if page_number < 0 then 0 else page_number)
      in case db of
           Some e \<Rightarrow> Inl (Engine e)
         | None \<Rightarrow> Inr (take (nat page_size) (drop (nat (page_number * page_size)) (newest_first us)), length us))"

definition us_find_by_key :: "string option \<Rightarrow> string \<Rightarrow> user_table \<Rightarrow> store_error + user option" where
  "us_find_by_key db key us =
     (case db of
        Some e \<Rightarrow> Inl (Engine e)
      | None \<Rightarrow>
          (case take 2 (sort_key (\<lambda>u. unat (u_id u)) (filter (\<lambda>u. u_key u = key) us)) of
             [] \<Rightarrow> Inr None
           | [u] \<Rightarrow> Inr (Some u)
           | _ \<Rightarrow> Inl Duplicate_Player_Key))"

definition us_find_by_remark :: "string option \<Rightarrow> string \<Rightarrow> user_table \<Rightarrow> store_error + user option" where
  "us_find_by_remark db remark us =
     (case db of Some e \<Rightarrow> Inl (Engine e) | None \<Rightarrow> Inr (find (\<lambda>u. u_remark u = remark) us))"

definition us_find_by_id :: "string option \<Rightarrow> u32 \<Rightarrow> user_table \<Rightarrow> store_error + user option" where
  "us_find_by_id db i us =
     (case db of Some e \<Rightarrow> Inl (Engine e) | None \<Rightarrow> Inr (find (\<lambda>u. u_id u = i) us))"

definition us_find_all :: "string option \<Rightarrow> user_table \<Rightarrow> store_error + user list" where
  "us_find_all db us = (case db of Some e \<Rightarrow> Inl (Engine e) | None \<Rightarrow> Inr (newest_first us))"

definition us_insert :: "string option \<Rightarrow> user \<Rightarrow> user_table \<Rightarrow> store_error option \<times> user_table" where
  "us_insert db u us =
     (case db of
        Some e \<Rightarrow> (Some (Engine e), us)
      | None \<Rightarrow>
          if u_id u \<in> u_id ` set us \<or> u_remark u \<in> u_remark ` set us then (Some Constraint_Failed, us)
          else (None, us @ [u]))"

text \<open>An \<open>UPDATE ... WHERE id = ?\<close> and what the code makes of the number of rows.\<close>

definition update_row :: "string option \<Rightarrow> u32 \<Rightarrow> (user \<Rightarrow> user) \<Rightarrow> user_table \<Rightarrow> store_error option \<times> user_table" where
  "update_row db i f us =
     (case db of
        Some e \<Rightarrow> (Some (Engine e), us)
      | None \<Rightarrow>
          let rows = filter (\<lambda>u. u_id u = i) us;
              clash = (\<exists>u \<in> set rows. \<exists>v \<in> set us. u_id v \<noteq> i \<and> u_remark v = u_remark (f u))
          in if clash then (Some Constraint_Failed, us)
             else (if length rows \<noteq> 1 then Some (Rows_Affected (length rows)) else None,
                   map (\<lambda>u. if u_id u = i then f u else u) us))"

definition us_update :: "string option \<Rightarrow> player_update \<Rightarrow> user_table \<Rightarrow> store_error option \<times> user_table" where
  "us_update db up us =
     update_row db (up_id up) (\<lambda>u. u\<lparr>u_remark := up_remark up, u_key := up_key up\<rparr>) us"

definition us_update_login_info ::
  "string option \<Rightarrow> u32 \<Rightarrow> string \<Rightarrow> user_table \<Rightarrow> store_error option \<times> user_table" where
  "us_update_login_info db i at us = update_row db i (\<lambda>u. u\<lparr>u_last_online_time := at\<rparr>) us"

definition us_update_client_info ::
  "string option \<Rightarrow> u32 \<Rightarrow> string \<Rightarrow> string \<Rightarrow> u32 \<Rightarrow> user_table \<Rightarrow> store_error option \<times> user_table" where
  "us_update_client_info db i version platform updater us =
     update_row db i (\<lambda>u. u\<lparr>u_client_version := version, u_client_platform := platform,
                         u_updater_version := updater\<rparr>) us"

definition us_delete :: "string option \<Rightarrow> u32 \<Rightarrow> user_table \<Rightarrow> store_error option \<times> user_table" where
  "us_delete db i us =
     (case db of
        Some e \<Rightarrow> (Some (Engine e), us)
      | None \<Rightarrow>
          let n = length (filter (\<lambda>u. u_id u = i) us)
          in (if n \<noteq> 1 then Some (Rows_Affected n) else None, filter (\<lambda>u. u_id u \<noteq> i) us))"

section \<open>Well-formed tables\<close>

text \<open>The schema's constraints, and the one the schema leaves to the manager: no two players have the
  same key.\<close>

definition table_ok :: "user_table \<Rightarrow> bool" where
  "table_ok us \<longleftrightarrow> distinct (map u_id us) \<and> distinct (map u_remark us) \<and> distinct (map u_key us)"

lemma distinct_map_unique:
  "distinct (map f us) \<Longrightarrow> u \<in> set us \<Longrightarrow> v \<in> set us \<Longrightarrow> f u = f v \<Longrightarrow> u = v"
  by (metis distinct_map inj_onD)

lemma find_unique:
  "distinct (map f us) \<Longrightarrow> find (\<lambda>u. f u = x) us = Some u \<longleftrightarrow> u \<in> set us \<and> f u = x"
  by (induction us) auto

lemma find_none: "find (\<lambda>u. f u = x) us = None \<longleftrightarrow> x \<notin> f ` set us"
  by (auto simp: find_None_iff)

lemma filter_unique:
  "distinct (map f us) \<Longrightarrow> filter (\<lambda>u. f u = x) us = (case find (\<lambda>u. f u = x) us of None \<Rightarrow> [] | Some u \<Rightarrow> [u])"
proof (induction us)
  case (Cons u us)
  show ?case
  proof (cases "f u = x")
    case True
    with Cons.prems have "\<forall>v \<in> set us. f v \<noteq> x" by (metis distinct.simps(2) imageI list.simps(9) set_map)
    then have "filter (\<lambda>u. f u = x) us = []" by (simp add: filter_empty_conv)
    with True show ?thesis by simp
  qed (use Cons in simp)
qed simp

lemma find_by_key_ok:
  "table_ok us \<Longrightarrow> us_find_by_key None key us = Inr (find (\<lambda>u. u_key u = key) us)"
  by (simp add: us_find_by_key_def filter_unique table_ok_def split: option.split)

lemma distinct_map_upd:
  assumes "distinct (map g us)" "distinct (map f us)" "u \<in> set us" "g u = i"
    and "\<forall>v \<in> set us. g v \<noteq> i \<longrightarrow> f v \<noteq> f' u"
  shows "distinct (map (\<lambda>v. if g v = i then f' v else f v) us)"
  using assms
proof (induction us)
  case (Cons v us)
  show ?case
  proof (cases "g v = i")
    case True
    with Cons.prems have "v = u" "\<forall>w \<in> set us. g w \<noteq> i" by (auto simp: image_iff)
    then have eq: "map (\<lambda>v. if g v = i then f' v else f v) us = map f us" by simp
    have "f' v \<notin> set (map f us)" using Cons.prems(5) \<open>v = u\<close> \<open>\<forall>w \<in> set us. g w \<noteq> i\<close> by auto
    with Cons.prems(2) show ?thesis unfolding list.map(2) if_P [OF True] distinct.simps eq by simp
  next
    case False
    with Cons.prems have "u \<in> set us" by auto
    with Cons False have "distinct (map (\<lambda>v. if g v = i then f' v else f v) us)" by simp
    moreover have "f v \<noteq> (if g w = i then f' w else f w)" if "w \<in> set us" for w
    proof (cases "g w = i")
      case True
      with that Cons.prems \<open>u \<in> set us\<close> have "w = u" by (auto intro: distinct_map_unique [of g us])
      with Cons.prems False True show ?thesis by simp
    qed (use Cons.prems that in \<open>auto simp: image_iff\<close>)
    then have "f v \<notin> (\<lambda>w. if g w = i then f' w else f w) ` set us" by blast
    ultimately show ?thesis using False by simp
  qed
qed simp

lemma update_row_fields:
  assumes "update_row db i f us = (e, us')" "\<And>u. u_id (f u) = u_id u"
  shows "map u_id us' = map u_id us"
  using assms by (auto simp: update_row_def Let_def comp_def split: option.splits if_splits)

end
