(* ===== verification/Player_Manager.thy ===== *)
theory Player_Manager
  imports User_Store Validate
begin

text \<open>
  \<open>internal/manager/player_manager.go\<close>: the players and their sessions, beside the table of
  \<open>User_Store\<close>.

  A session is a pointer, known by its place among the sessions made so far.  Closing a session is the caller's business: an
  operation that closes one returns it.  Random bytes, the clock's text and the failures of the
  database, by the name of the store function, are arguments.  The operations that change the table
  hold one lock, so a run is a sequence of whole operations; only the write of a client's version
  happens later, outside that lock, and is an operation of its own.
\<close>

section \<open>State\<close>

definition player_key_charset :: string where
  "player_key_charset = ''ABCDEFGHJKLMNPQRSTUVWXYZabcdefghijkmnopqrstuvwxyz23456789''"

definition player_key_length :: nat where "player_key_length = 20"

record player_state =
  pl_online :: bool
  pl_session :: "nat option"
  pl_version :: string
  pl_platform :: string
  pl_updater :: u32

record client_info =
  cl_version :: string
  cl_platform :: string
  cl_updater :: u32

record player_manager =
  pg_players :: "u32 \<rightharpoonup> player_state"
  pg_table :: user_table

datatype player_error =
    Store_Failed store_error
  | Invalid_Remark
  | Invalid_Key
  | Remark_Exists
  | Key_Exists
  | Online_Key_Update
  | Online_Delete
  | Random_Failed string
  | No_Unique_Key

type_synonym db_faults = "string \<Rightarrow> string option"

definition blank_player :: player_state where
  "blank_player = \<lparr>pl_online = False, pl_session = None, pl_version = '''', pl_platform = '''', pl_updater = 0\<rparr>"

definition pg_load_all :: "db_faults \<Rightarrow> player_manager \<Rightarrow> store_error option \<times> player_manager" where
  "pg_load_all db m =
     (case us_find_all (db ''find_all'') (pg_table m) of
        Inl e \<Rightarrow> (Some e, m)
      | Inr users \<Rightarrow>
          (None, m\<lparr>pg_players := fold (\<lambda>u players. players(u_id u \<mapsto>
             \<lparr>pl_online = False, pl_session = None, pl_version = u_client_version u,
              pl_platform = u_client_platform u, pl_updater = u_updater_version u\<rparr>)) users (pg_players m)\<rparr>))"

definition pg_exists :: "player_manager \<Rightarrow> u32 \<Rightarrow> bool" where
  "pg_exists m i \<longleftrightarrow> pg_players m i \<noteq> None"

definition pg_is_online :: "player_manager \<Rightarrow> u32 \<Rightarrow> bool" where
  "pg_is_online m i = (case pg_players m i of None \<Rightarrow> False | Some p \<Rightarrow> pl_online p)"

definition pg_session :: "player_manager \<Rightarrow> u32 \<Rightarrow> nat option" where
  "pg_session m i = (case pg_players m i of None \<Rightarrow> None | Some p \<Rightarrow> pl_session p)"

definition pg_client_info :: "player_manager \<Rightarrow> u32 \<Rightarrow> client_info" where
  "pg_client_info m i =
     (case pg_players m i of
        None \<Rightarrow> \<lparr>cl_version = '''', cl_platform = '''', cl_updater = 0\<rparr>
      | Some p \<Rightarrow> \<lparr>cl_version = pl_version p, cl_platform = pl_platform p, cl_updater = pl_updater p\<rparr>)"

section \<open>Sessions\<close>

text \<open>The locked half of \<open>BindClient\<close>, with the session to close; then the write to the database.\<close>

definition pg_bind_client :: "u32 \<Rightarrow> nat \<Rightarrow> client_info \<Rightarrow> player_manager \<Rightarrow> nat option \<times> player_manager" where
  "pg_bind_client i session info m =
     (let p = (case pg_players m i of None \<Rightarrow> blank_player | Some p \<Rightarrow> p);
          old = pl_session p;
          p = p\<lparr>pl_session := Some session, pl_online := True\<rparr>;
          p = (if cl_version info \<noteq> '''' then p\<lparr>pl_version := cl_version info, pl_platform := cl_platform info,
                 pl_updater := cl_updater info\<rparr> else p)
      in (if old \<noteq> None \<and> old \<noteq> Some session then old else None,
          m\<lparr>pg_players := (pg_players m)(i \<mapsto> p)\<rparr>))"

definition pg_persist_client_info ::
  "db_faults \<Rightarrow> u32 \<Rightarrow> client_info \<Rightarrow> player_manager \<Rightarrow> store_error option \<times> player_manager" where
  "pg_persist_client_info db i info m =
     (if cl_version info = '''' then (None, m)
      else if (case pg_players m i of
                 None \<Rightarrow> False
               | Some p \<Rightarrow> pl_version p = cl_version info \<and> pl_platform p = cl_platform info \<and>
                   pl_updater p = cl_updater info)
      then (case us_update_client_info (db ''update_client_info'') i (cl_version info) (cl_platform info)
              (cl_updater info) (pg_table m) of (e, t) \<Rightarrow> (e, m\<lparr>pg_table := t\<rparr>))
      else (None, m))"

definition pg_record_login ::
  "db_faults \<Rightarrow> u32 \<Rightarrow> string \<Rightarrow> player_manager \<Rightarrow> store_error option \<times> player_manager" where
  "pg_record_login db i at m =
     (case us_update_login_info (db ''update_login_info'') i at (pg_table m) of (e, t) \<Rightarrow> (e, m\<lparr>pg_table := t\<rparr>))"

definition pg_unbind :: "u32 \<Rightarrow> nat \<Rightarrow> player_manager \<Rightarrow> player_manager" where
  "pg_unbind i session m =
     (case pg_players m i of
        None \<Rightarrow> m
      | Some p \<Rightarrow>
          if pl_session p = Some session
          then m\<lparr>pg_players := (pg_players m)(i \<mapsto> p\<lparr>pl_session := None, pl_online := False\<rparr>)\<rparr>
          else m)"

section \<open>Adding, changing and deleting players\<close>

definition generate_random_player_key :: "string + byte list \<Rightarrow> player_error + string" where
  "generate_random_player_key random =
     (case random of
        Inl e \<Rightarrow> Inl (Random_Failed e)
      | Inr bs \<Rightarrow> Inr (map (\<lambda>b. player_key_charset ! (unat b mod length player_key_charset))
            (take player_key_length bs)))"

text \<open>At most a thousand tries; each item is what one try draws and whether its query fails.\<close>

fun unique_key_loop ::
  "nat \<Rightarrow> ((string + byte list) \<times> string option) list \<Rightarrow> user_table \<Rightarrow> player_error + string" where
  "unique_key_loop 0 draws us = Inl No_Unique_Key"
| "unique_key_loop (Suc n) [] us = Inl No_Unique_Key"
| "unique_key_loop (Suc n) ((random, db) # draws) us =
     (case generate_random_player_key random of
        Inl e \<Rightarrow> Inl e
      | Inr key \<Rightarrow>
          (case us_find_by_key db key us of
             Inl e \<Rightarrow> Inl (Store_Failed e)
           | Inr None \<Rightarrow> Inr key
           | Inr (Some _) \<Rightarrow> unique_key_loop n draws us))"

datatype add_result = Added u32 | Refused i32 string | Add_Failed player_error

text \<open>\<open>rand.Intn(89999999)\<close> draws, at most ten thousand of them.\<close>

fun fresh_id_loop :: "nat \<Rightarrow> nat list \<Rightarrow> player_manager \<Rightarrow> u32 option" where
  "fresh_id_loop 0 draws m = None"
| "fresh_id_loop (Suc n) [] m = None"
| "fresh_id_loop (Suc n) (d # draws) m =
     (let i = of_nat (d mod 89999999 + 10000000) in
      if pg_exists m i then fresh_id_loop n draws m else Some i)"

definition pg_add ::
  "db_faults \<Rightarrow> ((string + byte list) \<times> string option) list \<Rightarrow> nat list \<Rightarrow> string \<Rightarrow> string \<Rightarrow> string
    \<Rightarrow> player_manager \<Rightarrow> add_result \<times> player_manager" where
  "pg_add db keys ids now remark0 key0 m =
     (let remark = trim_space remark0; key1 = trim_space key0 in
      if \<not> is_valid_player_remark remark
      then (Refused (- 1) ''remark may not be empty and must be within 30 characters.'', m)
      else case (if key1 = '''' then unique_key_loop 1000 keys (pg_table m) else Inr key1) of
          Inl e \<Rightarrow> (Add_Failed e, m)
        | Inr key \<Rightarrow>
            if \<not> is_valid_player_key key
            then (Refused (- 1) ''key must be 2-64 ASCII characters without spaces.'', m)
            else (case us_find_by_remark (db ''find_by_remark'') remark (pg_table m) of
                Inl e \<Rightarrow> (Add_Failed (Store_Failed e), m)
              | Inr (Some _) \<Rightarrow> (Refused (- 2) ''remark already exists'', m)
              | Inr None \<Rightarrow>
                  (case us_find_by_key (db ''find_by_key'') key (pg_table m) of
                     Inl e \<Rightarrow> (Add_Failed (Store_Failed e), m)
                   | Inr (Some _) \<Rightarrow> (Refused (- 3) ''key already exists'', m)
                   | Inr None \<Rightarrow>
                       (case fresh_id_loop 10000 ids m of
                          None \<Rightarrow> (Refused (- 4) ''too many cycles'', m)
                        | Some i \<Rightarrow>
                            (case us_insert (db ''insert'')
                               \<lparr>u_id = i, u_remark = remark, u_key = key, u_create_time = now,
                                u_last_online_time = '''', u_client_version = '''', u_client_platform = '''',
                                u_updater_version = 0\<rparr> (pg_table m) of
                               (Some e, _) \<Rightarrow> (Add_Failed (Store_Failed e), m)
                             | (None, t) \<Rightarrow>
                                 (Added i, m\<lparr>pg_table := t, pg_players := (pg_players m)(i \<mapsto> blank_player)\<rparr>))))))"

definition pg_update :: "db_faults \<Rightarrow> player_update \<Rightarrow> player_manager \<Rightarrow> player_error option \<times> player_manager" where
  "pg_update db up0 m =
     (let up = up0\<lparr>up_remark := trim_space (up_remark up0), up_key := trim_space (up_key up0)\<rparr> in
      if \<not> is_valid_player_remark (up_remark up) then (Some Invalid_Remark, m)
      else if \<not> is_valid_player_key (up_key up) then (Some Invalid_Key, m)
      else case us_find_by_remark (db ''find_by_remark'') (up_remark up) (pg_table m) of
          Inl e \<Rightarrow> (Some (Store_Failed e), m)
        | Inr by_remark \<Rightarrow>
            if (case by_remark of None \<Rightarrow> False | Some u \<Rightarrow> u_id u \<noteq> up_id up) then (Some Remark_Exists, m)
            else (case us_find_by_key (db ''find_by_key'') (up_key up) (pg_table m) of
                Inl e \<Rightarrow> (Some (Store_Failed e), m)
              | Inr by_key \<Rightarrow>
                  if (case by_key of None \<Rightarrow> False | Some u \<Rightarrow> u_id u \<noteq> up_id up) then (Some Key_Exists, m)
                  else (case us_find_by_id (db ''find_by_id'') (up_id up) (pg_table m) of
                      Inl e \<Rightarrow> (Some (Store_Failed e), m)
                    | Inr current \<Rightarrow>
                        if (case current of None \<Rightarrow> False | Some u \<Rightarrow> u_key u \<noteq> up_key up) \<and>
                           pg_is_online m (up_id up)
                        then (Some Online_Key_Update, m)
                        else (case us_update (db ''update'') up (pg_table m) of
                            (e, t) \<Rightarrow> (map_option Store_Failed e, m\<lparr>pg_table := t\<rparr>)))))"

definition pg_delete :: "db_faults \<Rightarrow> u32 \<Rightarrow> player_manager \<Rightarrow> (player_error option \<times> nat option) \<times> player_manager" where
  "pg_delete db i m =
     (if pg_is_online m i then ((Some Online_Delete, None), m)
      else case us_delete (db ''delete'') i (pg_table m) of
          (Some e, t) \<Rightarrow> ((Some (Store_Failed e), None), m\<lparr>pg_table := t\<rparr>)
        | (None, t) \<Rightarrow>
            ((None, pg_session m i), m\<lparr>pg_table := t, pg_players := (pg_players m)(i := None)\<rparr>))"

definition pg_list :: "db_faults \<Rightarrow> int \<Rightarrow> int \<Rightarrow> player_manager \<Rightarrow> store_error + (user list \<times> nat)" where
  "pg_list db page_number page_size m = us_list (db ''list'') page_number page_size (pg_table m)"

section \<open>The invariant\<close>

definition pg_inv :: "player_manager \<Rightarrow> bool" where
  "pg_inv m \<longleftrightarrow> table_ok (pg_table m) \<and> (\<forall>u \<in> set (pg_table m). is_valid_player_key (u_key u)) \<and>
     u_id ` set (pg_table m) \<subseteq> dom (pg_players m) \<and>
     (\<forall>i p. pg_players m i = Some p \<longrightarrow> (pl_online p \<longleftrightarrow> pl_session p \<noteq> None))"

lemma table_ok_empty [simp]: "table_ok []"
  by (simp add: table_ok_def)

lemma find_by_remark_None:
  "us_find_by_remark db r us = Inr None \<Longrightarrow> r \<notin> u_remark ` set us"
  by (auto simp: us_find_by_remark_def find_None_iff split: option.splits)

lemma find_by_key_None:
  "us_find_by_key db k us = Inr None \<Longrightarrow> k \<notin> u_key ` set us"
proof -
  assume "us_find_by_key db k us = Inr None"
  then have "take 2 (sort_key (\<lambda>u. unat (u_id u)) (filter (\<lambda>u. u_key u = k) us)) = []"
    by (auto simp: us_find_by_key_def split: option.splits list.splits)
  then have "set (sort_key (\<lambda>u. unat (u_id u)) (filter (\<lambda>u. u_key u = k) us)) = {}" by simp
  then show ?thesis by auto
qed

lemma find_by_key_Some:
  "table_ok us \<Longrightarrow> us_find_by_key db k us = Inr (Some u) \<Longrightarrow> v \<in> set us \<Longrightarrow> u_key v = k \<Longrightarrow> v = u"
  by (cases db) (auto simp: find_by_key_ok find_unique table_ok_def us_find_by_key_def [of "Some _"]
      intro: distinct_map_unique)

lemma pg_add_cases:
  assumes "pg_add db keys ids now remark key m = (res, m')"
  shows "m' = m \<or> (\<exists>i remark' key'. res = Added i \<and> \<not> pg_exists m i \<and> i \<noteq> 0 \<and>
    is_valid_player_key key' \<and> remark' \<notin> u_remark ` set (pg_table m) \<and> key' \<notin> u_key ` set (pg_table m) \<and>
    i \<notin> u_id ` set (pg_table m) \<and>
    m' = m\<lparr>pg_table := pg_table m @ [\<lparr>u_id = i, u_remark = remark', u_key = key', u_create_time = now,
        u_last_online_time = '''', u_client_version = '''', u_client_platform = '''', u_updater_version = 0\<rparr>],
      pg_players := (pg_players m)(i \<mapsto> blank_player)\<rparr>)"
proof -
  have pos: "(of_nat (d mod 89999999 + 10000000) :: u32) \<noteq> 0" for d
  proof
    assume a: "(of_nat (d mod 89999999 + 10000000) :: u32) = 0"
    have "unat (of_nat (d mod 89999999 + 10000000) :: u32) = d mod 89999999 + 10000000"
      by (simp add: unat_of_nat del: of_nat_add)
    with a show False by (simp del: of_nat_add)
  qed
  have fresh: "fresh_id_loop n draws m = Some i \<Longrightarrow> \<not> pg_exists m i \<and> i \<noteq> 0" for n draws i
    using pos by (induction n draws m rule: fresh_id_loop.induct) (auto simp: Let_def simp del: of_nat_add split: if_splits)
  show ?thesis
  proof (cases "\<exists>i. res = Added i")
    case False
    with assms have "m' = m"
      unfolding pg_add_def Let_def by (auto split: if_splits sum.splits option.splits prod.splits)
    then show ?thesis ..
  next
    case True
    then obtain i where i: "res = Added i" ..
    with assms obtain key' t where k: "is_valid_player_key key'"
      "us_find_by_remark (db ''find_by_remark'') (trim_space remark) (pg_table m) = Inr None"
      "us_find_by_key (db ''find_by_key'') key' (pg_table m) = Inr None"
      "fresh_id_loop 10000 ids m = Some i"
      "us_insert (db ''insert'')
         \<lparr>u_id = i, u_remark = trim_space remark, u_key = key', u_create_time = now,
          u_last_online_time = '''', u_client_version = '''', u_client_platform = '''',
          u_updater_version = 0\<rparr> (pg_table m) = (None, t)"
      "m' = m\<lparr>pg_table := t, pg_players := (pg_players m)(i \<mapsto> blank_player)\<rparr>"
      unfolding pg_add_def Let_def by (auto split: if_splits sum.splits option.splits prod.splits)
    have "\<not> pg_exists m i \<and> i \<noteq> 0" by (rule fresh [OF k(4)])
    moreover note find_by_remark_None [OF k(2)] find_by_key_None [OF k(3)]
    moreover from k(5) have "i \<notin> u_id ` set (pg_table m)"
      "t = pg_table m @ [\<lparr>u_id = i, u_remark = trim_space remark, u_key = key', u_create_time = now,
          u_last_online_time = '''', u_client_version = '''', u_client_platform = '''',
          u_updater_version = 0\<rparr>]"
      by (auto simp: us_insert_def split: option.splits if_splits)
    ultimately show ?thesis using i k(1,6) by blast
  qed
qed

lemma pg_add_inv:
  assumes "pg_inv m" "pg_add db keys ids now remark key m = (res, m')"
  shows "pg_inv m'"
  using pg_add_cases [OF assms(2)]
proof (elim disjE exE conjE)
  fix i remark' key' assume h: "is_valid_player_key key'"
    "remark' \<notin> u_remark ` set (pg_table m)" "key' \<notin> u_key ` set (pg_table m)" "i \<notin> u_id ` set (pg_table m)"
    "m' = m\<lparr>pg_table := pg_table m @ [\<lparr>u_id = i, u_remark = remark', u_key = key', u_create_time = now,
        u_last_online_time = '''', u_client_version = '''', u_client_platform = '''', u_updater_version = 0\<rparr>],
      pg_players := (pg_players m)(i \<mapsto> blank_player)\<rparr>"
  have "u_id ` set (pg_table m) \<subseteq> dom ((pg_players m)(i \<mapsto> blank_player))"
    using assms(1) unfolding pg_inv_def dom_fun_upd by auto
  with h assms(1) show ?thesis
    by (simp add: pg_inv_def table_ok_def blank_player_def)
qed (use assms(1) in simp)

text \<open>An update of rows that keeps ids and remarks or moves them where they are free.\<close>

lemma update_row_cases:
  assumes "update_row db i f us = (e, us')"
  shows "us' = us \<or> us' = map (\<lambda>u. if u_id u = i then f u else u) us"
  using assms by (auto simp: update_row_def Let_def split: option.splits if_splits)

lemma find_by_keyD:
  assumes "table_ok us" "us_find_by_key db k us = Inr r" "case r of None \<Rightarrow> True | Some u \<Rightarrow> u_id u = i"
    "v \<in> set us" "u_id v \<noteq> i"
  shows "u_key v \<noteq> k"
  using assms find_by_key_None [of db k us] find_by_key_Some [of us db k _ v] by (cases r) auto

lemma find_by_remarkD:
  assumes "table_ok us" "us_find_by_remark db k us = Inr r" "case r of None \<Rightarrow> True | Some u \<Rightarrow> u_id u = i"
    "v \<in> set us" "u_id v \<noteq> i"
  shows "u_remark v \<noteq> k"
proof (cases r)
  case None
  with assms find_by_remark_None [of db k us] show ?thesis by auto
next
  case (Some u)
  with assms(2) have "find (\<lambda>u. u_remark u = k) us = Some u" by (simp add: us_find_by_remark_def split: option.splits)
  with assms Some show ?thesis
    by (auto simp: find_unique table_ok_def dest: distinct_map_unique [of u_remark us u v])
qed

lemma pg_update_cases:
  assumes inv: "pg_inv m" and call: "pg_update db up0 m = (e, m')"
  shows "m' = m \<or> (\<exists>up :: player_update. up_id up = up_id up0 \<and> is_valid_player_key (up_key up) \<and>
    (\<forall>v \<in> set (pg_table m). u_id v \<noteq> up_id up \<longrightarrow> u_remark v \<noteq> up_remark up \<and> u_key v \<noteq> up_key up) \<and>
    (pg_is_online m (up_id up) \<longrightarrow> (\<forall>v \<in> set (pg_table m). u_id v = up_id up \<longrightarrow> u_key v = up_key up)) \<and>
    m' = m\<lparr>pg_table := map (\<lambda>u. if u_id u = up_id up
      then u\<lparr>u_remark := up_remark up, u_key := up_key up\<rparr> else u) (pg_table m)\<rparr>)"
proof -
  define up where "up = up0\<lparr>up_remark := trim_space (up_remark up0), up_key := trim_space (up_key up0)\<rparr>"
  have ok: "table_ok (pg_table m)" using inv by (simp add: pg_inv_def)
  show ?thesis
  proof (cases "m' = m")
    case False
    from call False obtain by_remark by_key current e' t where k: "is_valid_player_key (up_key up)"
      "us_find_by_remark (db ''find_by_remark'') (up_remark up) (pg_table m) = Inr by_remark"
      "\<not> (case by_remark of None \<Rightarrow> False | Some u \<Rightarrow> u_id u \<noteq> up_id up)"
      "us_find_by_key (db ''find_by_key'') (up_key up) (pg_table m) = Inr by_key"
      "\<not> (case by_key of None \<Rightarrow> False | Some u \<Rightarrow> u_id u \<noteq> up_id up)"
      "us_find_by_id (db ''find_by_id'') (up_id up) (pg_table m) = Inr current"
      "\<not> ((case current of None \<Rightarrow> False | Some u \<Rightarrow> u_key u \<noteq> up_key up) \<and> pg_is_online m (up_id up))"
      "us_update (db ''update'') up (pg_table m) = (e', t)" "m' = m\<lparr>pg_table := t\<rparr>"
      unfolding pg_update_def Let_def up_def [symmetric]
      by (simp split: if_split_asm sum.split_asm prod.split_asm)
    have free: "\<forall>v \<in> set (pg_table m). u_id v \<noteq> up_id up \<longrightarrow> u_remark v \<noteq> up_remark up \<and> u_key v \<noteq> up_key up"
      using find_by_keyD [OF ok k(4)] find_by_remarkD [OF ok k(2)] k(3,5) by (auto split: option.splits)
    have online: "pg_is_online m (up_id up) \<longrightarrow>
        (\<forall>v \<in> set (pg_table m). u_id v = up_id up \<longrightarrow> u_key v = up_key up)"
      using k(6,7) ok by (auto simp: us_find_by_id_def table_ok_def find_None_iff find_unique
          split: option.splits dest: distinct_map_unique [of u_id])
    from k(8) False k(9) have t: "t = map (\<lambda>u. if u_id u = up_id up
        then u\<lparr>u_remark := up_remark up, u_key := up_key up\<rparr> else u) (pg_table m)"
      using update_row_cases by (fastforce simp: us_update_def)
    have id: "up_id up = up_id up0" by (simp add: up_def)
    show ?thesis
      by (rule disjI2, rule exI [of _ up], intro conjI id k(1) free online) (simp only: k(9) t)
  qed simp
qed

lemma changed_row_ok:
  assumes "table_ok us"
    and "\<forall>v \<in> set us. u_id v \<noteq> i \<longrightarrow> u_remark v \<noteq> r \<and> u_key v \<noteq> k"
  shows "table_ok (map (\<lambda>u. if u_id u = i then u\<lparr>u_remark := r, u_key := k\<rparr> else u) us)"
proof (cases "i \<in> u_id ` set us")
  case True
  then obtain u where u: "u \<in> set us" "u_id u = i" by auto
  have "distinct (map (\<lambda>v. if u_id v = i then r else u_remark v) us)"
    by (rule distinct_map_upd [of u_id us u_remark u i "\<lambda>_. r"]) (use assms u in \<open>auto simp: table_ok_def\<close>)
  moreover have "distinct (map (\<lambda>v. if u_id v = i then k else u_key v) us)"
    by (rule distinct_map_upd [of u_id us u_key u i "\<lambda>_. k"]) (use assms u in \<open>auto simp: table_ok_def\<close>)
  ultimately show ?thesis using assms(1) by (simp add: table_ok_def comp_def if_distrib cong: if_cong)
next
  case False
  then have "map (\<lambda>u. if u_id u = i then u\<lparr>u_remark := r, u_key := k\<rparr> else u) us = us"
    by (intro map_idI) auto
  with assms(1) show ?thesis by simp
qed

lemma pg_update_inv:
  assumes "pg_inv m" "pg_update db up m = (e, m')"
  shows "pg_inv m'"
  using pg_update_cases [OF assms]
proof (elim disjE exE conjE)
  fix up assume h: "is_valid_player_key (up_key up)"
    "\<forall>v \<in> set (pg_table m). u_id v \<noteq> up_id up \<longrightarrow> u_remark v \<noteq> up_remark up \<and> u_key v \<noteq> up_key up"
    "m' = m\<lparr>pg_table := map (\<lambda>u. if u_id u = up_id up
      then u\<lparr>u_remark := up_remark up, u_key := up_key up\<rparr> else u) (pg_table m)\<rparr>"
  from assms(1) have "table_ok (pg_table m)" by (simp add: pg_inv_def)
  from changed_row_ok [OF this h(2)] assms(1) h(1,3) show ?thesis
    by (auto simp: pg_inv_def)
qed (use assms(1) in simp)

lemma map_keep: "(\<And>u. g (f u) = g u) \<Longrightarrow> map g (map (\<lambda>u. if u_id u = i then f u else u) us) = map g us"
  by simp

lemma keys_valid:
  "(\<forall>u \<in> set us. is_valid_player_key (u_key u)) = (\<forall>k \<in> u_key ` set us. is_valid_player_key k)"
  by simp

lemma table_update [simp]:
  "pg_table (m\<lparr>pg_table := t\<rparr>) = t" "pg_players (m\<lparr>pg_table := t\<rparr>) = pg_players m"
  by simp_all

lemma keep_ids_inv:
  assumes "pg_inv m" "update_row db i f (pg_table m) = (e, t)"
    "\<And>u. u_id (f u) = u_id u" "\<And>u. u_remark (f u) = u_remark u" "\<And>u. u_key (f u) = u_key u"
  shows "pg_inv (m\<lparr>pg_table := t\<rparr>)"
  using update_row_cases [OF assms(2)]
proof
  assume "t = pg_table m"
  with assms(1) show ?thesis by simp
next
  assume t: "t = map (\<lambda>u. if u_id u = i then f u else u) (pg_table m)"
  note same = map_keep [of u_id f, OF assms(3)] map_keep [of u_remark f, OF assms(4)]
    map_keep [of u_key f, OF assms(5)]
  have "u_id ` set t = u_id ` set (pg_table m)" "u_key ` set t = u_key ` set (pg_table m)"
    unfolding t set_map [symmetric] same by simp_all
  moreover have "table_ok t = table_ok (pg_table m)" unfolding t table_ok_def same ..
  ultimately show ?thesis using assms(1) by (simp only: pg_inv_def table_update keys_valid simp_thms) blast
qed

lemma pg_delete_inv:
  assumes "pg_inv m" "pg_delete db i m = (r, m')"
  shows "pg_inv m'"
proof -
  from assms have "m' = m \<or> m' = m\<lparr>pg_table := filter (\<lambda>u. u_id u \<noteq> i) (pg_table m),
      pg_players := (pg_players m)(i := None)\<rparr> \<or>
      m' = m\<lparr>pg_table := filter (\<lambda>u. u_id u \<noteq> i) (pg_table m)\<rparr>"
    by (auto simp: pg_delete_def us_delete_def Let_def split: if_splits option.splits)
  then show ?thesis using assms(1)
    by (elim disjE) (auto simp: pg_inv_def table_ok_def distinct_map_filter split: if_splits)
qed

lemma pg_session_ops_inv:
  "pg_inv m \<Longrightarrow> pg_inv (snd (pg_bind_client i s info m))"
  "pg_inv m \<Longrightarrow> pg_inv (pg_unbind i s m)"
  "pg_inv m \<Longrightarrow> pg_inv (snd (pg_record_login db i at m))"
  "pg_inv m \<Longrightarrow> pg_inv (snd (pg_persist_client_info db i info m))"
  by (auto simp: pg_bind_client_def pg_unbind_def Let_def pg_inv_def split: option.split)[2]
    (auto simp: pg_record_login_def pg_persist_client_info_def us_update_login_info_def
      us_update_client_info_def split_beta split: option.split intro: keep_ids_inv [OF _ prod.collapse [symmetric]])

section \<open>Runs\<close>

text \<open>The operations in the order their locks were taken.\<close>

inductive pg_step :: "player_manager \<Rightarrow> player_manager \<Rightarrow> bool" where
  add: "pg_add db keys ids now remark key m = (r, m') \<Longrightarrow> pg_step m m'"
| update: "pg_update db up m = (e, m') \<Longrightarrow> pg_step m m'"
| delete: "pg_delete db i m = (d, m') \<Longrightarrow> pg_step m m'"
| bind: "pg_bind_client i s info m = (old, m') \<Longrightarrow> pg_step m m'"
| persist: "pg_persist_client_info db i info m = (e, m') \<Longrightarrow> pg_step m m'"
| login: "pg_record_login db i at m = (e, m') \<Longrightarrow> pg_step m m'"
| unbind: "pg_step m (pg_unbind i s m)"

text \<open>The start loads a table that has the constraints; a fresh database has no row.\<close>

inductive pg_reachable :: "player_manager \<Rightarrow> bool" where
  load: "table_ok t \<Longrightarrow> \<forall>u \<in> set t. is_valid_player_key (u_key u) \<Longrightarrow>
     pg_load_all db \<lparr>pg_players = Map.empty, pg_table = t\<rparr> = (None, m) \<Longrightarrow> pg_reachable m"
| step: "pg_reachable m \<Longrightarrow> pg_step m m' \<Longrightarrow> pg_reachable m'"

lemma fold_upd_dom: "dom (fold (\<lambda>u f. f(g u \<mapsto> h u)) us f) = dom f \<union> g ` set us"
  by (induction us arbitrary: f) auto

lemma fold_upd_ran:
  "(\<forall>i p. f i = Some p \<longrightarrow> Q p) \<Longrightarrow> (\<forall>u. Q (h u)) \<Longrightarrow> (\<forall>i p. fold (\<lambda>u f. f(g u \<mapsto> h u)) us f i = Some p \<longrightarrow> Q p)"
proof (induction us arbitrary: f)
  case (Cons u us)
  have "\<forall>i p. (f(g u \<mapsto> h u)) i = Some p \<longrightarrow> Q p" using Cons.prems by auto
  from Cons.IH [OF this Cons.prems(2)] show ?case by simp
qed simp

lemma pg_load_inv:
  assumes "table_ok t" "\<forall>u \<in> set t. is_valid_player_key (u_key u)"
    "pg_load_all db \<lparr>pg_players = Map.empty, pg_table = t\<rparr> = (None, m)"
  shows "pg_inv m"
proof -
  let ?h = "\<lambda>u. \<lparr>pl_online = False, pl_session = None, pl_version = u_client_version u,
     pl_platform = u_client_platform u, pl_updater = u_updater_version u\<rparr>"
  from assms(3) have m: "m = \<lparr>pg_players = fold (\<lambda>u f. f(u_id u \<mapsto> ?h u)) (newest_first t) Map.empty, pg_table = t\<rparr>"
    by (simp add: pg_load_all_def us_find_all_def split: option.splits)
  have "set (newest_first t) = set t" by (simp add: newest_first_def)
  moreover have "\<forall>i p. fold (\<lambda>u f. f(u_id u \<mapsto> ?h u)) (newest_first t) Map.empty i = Some p \<longrightarrow>
      (pl_online p \<longleftrightarrow> pl_session p \<noteq> None)"
    by (rule fold_upd_ran) simp_all
  ultimately show ?thesis using assms(1,2) unfolding pg_inv_def m by (simp add: fold_upd_dom)
qed

lemma pg_step_inv: "pg_step m m' \<Longrightarrow> pg_inv m \<Longrightarrow> pg_inv m'"
  by (induction rule: pg_step.induct)
    (use pg_session_ops_inv in \<open>auto intro: pg_add_inv pg_update_inv pg_delete_inv simp: prod_eq_iff\<close>)

lemma pg_reachable_inv: "pg_reachable m \<Longrightarrow> pg_inv m"
  by (induction rule: pg_reachable.induct) (auto intro: pg_load_inv pg_step_inv)

definition row_key :: "player_manager \<Rightarrow> u32 \<Rightarrow> string option" where
  "row_key m i = map_option u_key (find (\<lambda>u. u_id u = i) (pg_table m))"

lemma row_key_update_row:
  assumes "update_row db j f us = (e, us')" "\<forall>u. u_id (f u) = u_id u"
    "\<forall>u \<in> set us. u_id u = i \<longrightarrow> j = i \<longrightarrow> u_key (f u) = u_key u"
  shows "map_option u_key (find (\<lambda>u. u_id u = i) us') = map_option u_key (find (\<lambda>u. u_id u = i) us)"
proof -
  have "map_option u_key (find (\<lambda>u. u_id u = i) (map (\<lambda>u. if u_id u = j then f u else u) us)) =
      map_option u_key (find (\<lambda>u. u_id u = i) us)"
    using assms(2,3) by (induction us) auto
  with update_row_cases [OF assms(1)] show ?thesis by auto
qed

lemma find_snoc: "find P (us @ [u]) = (case find P us of None \<Rightarrow> (if P u then Some u else None) | Some v \<Rightarrow> Some v)"
  by (induction us) auto

lemma row_key_delete: "i \<noteq> j \<Longrightarrow> find (\<lambda>u. u_id u = i) (filter (\<lambda>u. u_id u \<noteq> j) us) = find (\<lambda>u. u_id u = i) us"
  by (induction us) auto

lemma row_key_online:
  assumes "pg_step m m'" "pg_inv m" "pg_is_online m i"
  shows "row_key m' i = row_key m i"
  using assms(1)
proof cases
  case (add db keys ids now remark key r)
  from pg_add_cases [OF this] show ?thesis
  proof (elim disjE exE conjE)
    fix j remark' key' assume h: "\<not> pg_exists m j"
      "m' = m\<lparr>pg_table := pg_table m @ [\<lparr>u_id = j, u_remark = remark', u_key = key', u_create_time = now,
        u_last_online_time = '''', u_client_version = '''', u_client_platform = '''', u_updater_version = 0\<rparr>],
      pg_players := (pg_players m)(j \<mapsto> blank_player)\<rparr>"
    from h(1) assms(3) have "i \<noteq> j" by (auto simp: pg_exists_def pg_is_online_def)
    with h(2) show ?thesis by (simp add: row_key_def find_snoc split: option.split)
  qed simp
next
  case (update db up e)
  from pg_update_cases [OF assms(2) this] show ?thesis
  proof (elim disjE exE conjE)
    fix up :: player_update
    assume h: "pg_is_online m (up_id up) \<longrightarrow> (\<forall>v \<in> set (pg_table m). u_id v = up_id up \<longrightarrow> u_key v = up_key up)"
      "m' = m\<lparr>pg_table := map (\<lambda>u. if u_id u = up_id up
        then u\<lparr>u_remark := up_remark up, u_key := up_key up\<rparr> else u) (pg_table m)\<rparr>"
    have "map_option u_key (find (\<lambda>u. u_id u = i) (map (\<lambda>u. if u_id u = up_id up
        then u\<lparr>u_remark := up_remark up, u_key := up_key up\<rparr> else u) us)) =
        map_option u_key (find (\<lambda>u. u_id u = i) us)"
      if "\<forall>v \<in> set us. u_id v = up_id up \<longrightarrow> i = up_id up \<longrightarrow> u_key v = up_key up" for us
      using that by (induction us) auto
    with h assms(3) show ?thesis by (auto simp: row_key_def)
  qed simp
next
  case (delete db j d)
  with assms(3) show ?thesis
    by (cases "i = j") (auto simp: pg_delete_def us_delete_def row_key_def row_key_delete Let_def
        split: if_splits option.splits)
next
  case (bind j s info old)
  then show ?thesis by (auto simp: pg_bind_client_def Let_def row_key_def)
next
  case (persist db j info e)
  then show ?thesis
    by (auto simp: pg_persist_client_info_def us_update_client_info_def row_key_def
        split: if_splits prod.splits intro!: row_key_update_row)
next
  case (login db j at e)
  then show ?thesis
    by (auto simp: pg_record_login_def us_update_login_info_def row_key_def
        split: prod.splits intro!: row_key_update_row)
next
  case (unbind j s)
  then show ?thesis by (auto simp: pg_unbind_def row_key_def split: option.split)
qed

text \<open>A player for the examples: added, then logged in.\<close>

definition sample_players :: player_manager where
  "sample_players = snd (pg_bind_client 10000007 1 \<lparr>cl_version = '''', cl_platform = '''', cl_updater = 0\<rparr>
     (snd (pg_add (\<lambda>_. None) [] [7] ''t'' ''home'' ''secret'' \<lparr>pg_players = Map.empty, pg_table = []\<rparr>)))"

lemma sample_players_reachable: "pg_reachable sample_players"
  unfolding sample_players_def
  by (rule pg_reachable.step [OF pg_reachable.step [OF pg_reachable.load [of "[]" "\<lambda>_. None"]]],
      simp_all add: pg_load_all_def us_find_all_def newest_first_def)
    (rule pg_step.add, rule prod.collapse [symmetric], rule pg_step.bind, rule prod.collapse [symmetric])

section \<open>Properties\<close>

text \<open>C24. Whatever sequence of additions, changes, deletions, logins and disconnections has run, with
  whatever database failures, and although the schema does not demand it: no two players share a key,
  so the query a login makes never meets a duplicate and finds exactly the player with that key; ids
  and remarks are distinct too, every stored key is one that validation accepts, every row belongs to a
  player the manager knows, and a player is online exactly when a session is bound to it.\<close>

theorem player_keys_unique:
  assumes "pg_reachable m"
  shows "us_find_by_key None key (pg_table m) \<noteq> Inl Duplicate_Player_Key \<and>
    (us_find_by_key None key (pg_table m) = Inr (Some u) \<longleftrightarrow> u \<in> set (pg_table m) \<and> u_key u = key) \<and>
    distinct (map u_id (pg_table m)) \<and> distinct (map u_remark (pg_table m)) \<and>
    (\<forall>u \<in> set (pg_table m). is_valid_player_key (u_key u) \<and> pg_exists m (u_id u)) \<and>
    (\<forall>i. pg_is_online m i \<longleftrightarrow> pg_session m i \<noteq> None)"
proof -
  from pg_reachable_inv [OF assms] have inv: "pg_inv m" .
  then have ok: "table_ok (pg_table m)" by (simp add: pg_inv_def)
  then have "distinct (map u_key (pg_table m))" by (simp add: table_ok_def)
  note key = find_by_key_ok [OF ok] find_unique [OF this]
  have "\<forall>i. pg_is_online m i \<longleftrightarrow> pg_session m i \<noteq> None"
    using inv by (auto simp: pg_inv_def pg_is_online_def pg_session_def split: option.split)
  moreover have "\<forall>u \<in> set (pg_table m). is_valid_player_key (u_key u) \<and> pg_exists m (u_id u)"
    using inv by (auto simp: pg_inv_def pg_exists_def)
  ultimately show ?thesis using ok by (simp add: key table_ok_def)
qed

theorem player_keys_unique_witness:
  "us_find_by_key None ''secret'' (pg_table sample_players) \<noteq> Inl Duplicate_Player_Key \<and>
   pg_is_online sample_players 10000007"
proof -
  have "pg_session sample_players 10000007 = Some 1"
    by (simp add: sample_players_def pg_bind_client_def pg_session_def Let_def)
  with player_keys_unique [OF sample_players_reachable, of "''secret''"] show ?thesis by simp
qed

text \<open>While a player is online, no operation of the manager takes away its row or changes the key
  it logged in with; deleting it is refused and changes nothing, and an update that would change its
  key is refused.\<close>

theorem online_player_protected:
  assumes "pg_reachable m" "pg_is_online m i"
  shows "(pg_step m m' \<longrightarrow> row_key m' i = row_key m i) \<and>
    pg_delete db i m = ((Some Online_Delete, None), m) \<and>
    (pg_update db up m = (None, m'') \<longrightarrow> up_id up = i \<longrightarrow> i \<in> u_id ` set (pg_table m) \<longrightarrow>
       row_key m i = Some (trim_space (up_key up)))"
proof (intro conjI impI)
  from pg_reachable_inv [OF assms(1)] have inv: "pg_inv m" .
  show "row_key m' i = row_key m i" if "pg_step m m'" by (rule row_key_online [OF that inv assms(2)])
  show "pg_delete db i m = ((Some Online_Delete, None), m)" using assms(2) by (simp add: pg_delete_def)
  assume up: "pg_update db up m = (None, m'')" "up_id up = i" "i \<in> u_id ` set (pg_table m)"
  then obtain u where u: "find (\<lambda>u. u_id u = i) (pg_table m) = Some u"
    by (cases "find (\<lambda>u. u_id u = i) (pg_table m)") (auto simp: find_none)
  with up assms(2) show "row_key m i = Some (trim_space (up_key up))"
    by (auto simp: pg_update_def Let_def us_find_by_id_def row_key_def
        split: if_split_asm sum.split_asm option.split_asm)
qed

theorem online_player_protected_witness:
  "pg_delete (\<lambda>_. None) 10000007 sample_players = ((Some Online_Delete, None), sample_players)"
proof -
  have "pg_is_online sample_players 10000007"
    by (simp add: sample_players_def pg_bind_client_def pg_is_online_def Let_def)
  from online_player_protected [OF sample_players_reachable this] show ?thesis by blast
qed

end
