(* ===== verification/Server_Hub.thy ===== *)
theory Server_Hub
  imports Frame Queues Tunnel_Manager Player_Manager Upgrade_Manager
begin

text \<open>
  The hub of \<open>internal/server/session.go\<close>: its sessions, the pushes of tunnel updates and the closing
  of a session.

  A session is a pointer: its place in \<open>hb_objects\<close>, the list of all sessions made since the start.
  The tunnel manager's runtime store is the one of the runtime.  The runtime is set before the first
  session exists.  The server's own proxy manager is not part of this state: the calls it gets are
  recorded in order in \<open>hb_local\<close>, and what it sends is an event of its own.

  A handler runs as one step.  Pushing to a full queue closes the receiving session, which pushes to
  others in turn; the recursion takes fuel, and an operation is \<open>None\<close> when the fuel runs out.
\<close>

section \<open>State\<close>

record server_session =
  ss_id :: u32
  ss_player :: u32
  ss_queue :: "byte list ring"
  ss_closed :: bool

datatype local_call =
    Handle_PB message
  | Update_Tunnel modify_tunnel_ntf
  | Sync_Tunnels "pb_tunnel list"

record hub =
  hb_next_id :: u32
  hb_objects :: "server_session list"
  hb_sessions :: "u32 \<rightharpoonup> nat"
  hb_players :: player_manager
  hb_tunnels :: tunnel_manager
  hb_upgrades :: upgrade_manager
  hb_local :: "local_call list"

datatype session_error =
    Frame_Failed codec_error
  | Queue_Failed write_queue_error

definition player_available :: "hub \<Rightarrow> u32 \<Rightarrow> bool" where
  "player_available h player \<longleftrightarrow> (if player = 0 then True else pg_is_online (hb_players h) player)"

definition tunnel_runtime_enabled :: "hub \<Rightarrow> tunnel \<Rightarrow> bool" where
  "tunnel_runtime_enabled h t \<longleftrightarrow>
     t_enabled t \<and> player_available h (t_sender t) \<and> player_available h (t_receiver t)"

definition runtime_tunnel_pb :: "hub \<Rightarrow> tunnel \<Rightarrow> pb_tunnel" where
  "runtime_tunnel_pb h t =
     \<lparr>pt_source = Some \<lparr>tp_addr = t_source t\<rparr>, pt_endpoint = Some \<lparr>tp_addr = t_endpoint t\<rparr>,
      pt_id = t_id t, pt_enabled = tunnel_runtime_enabled h t, pt_sender = t_sender t,
      pt_receiver = t_receiver t, pt_tunnel_type = t_tunnel_type t, pt_password = t_password t,
      pt_username = t_username t, pt_is_compressed = t_is_compressed t,
      pt_encryption_method = t_encryption_method t, pt_custom_mapping = t_custom_mapping t\<rparr>"

definition runtime_tunnel_update :: "hub \<Rightarrow> tunnel \<Rightarrow> bool \<Rightarrow> modify_tunnel_ntf" where
  "runtime_tunnel_update h t is_delete =
     \<lparr>mt_is_delete = is_delete, mt_tunnel = Some (runtime_tunnel_pb h t)\<rparr>"

definition local_call :: "local_call \<Rightarrow> hub \<Rightarrow> hub" where
  "local_call c h = h\<lparr>hb_local := hb_local h @ [c]\<rparr>"

text \<open>\<open>NewHub\<close>, \<open>NewRuntime\<close> and \<open>SetRuntime\<close>, from the loaded players and tunnels.\<close>

definition set_runtime :: "player_manager \<Rightarrow> tunnel_manager \<Rightarrow> hub" where
  "set_runtime players tunnels =
     (let h = \<lparr>hb_next_id = 1, hb_objects = [], hb_sessions = Map.empty, hb_players = players,
               hb_tunnels = tunnels, hb_upgrades = new_upgrade_manager, hb_local = []\<rparr>
      in local_call (Sync_Tunnels (map (runtime_tunnel_pb h)
           (filter (\<lambda>t. t_sender t = 0 \<or> t_receiver t = 0) (tm_all tunnels)))) h)"

definition new_session :: "hub \<Rightarrow> nat \<times> hub" where
  "new_session h =
     (let i = hb_next_id h + 1 in
      (length (hb_objects h),
       h\<lparr>hb_next_id := i,
         hb_objects := hb_objects h @ [\<lparr>ss_id = i, ss_player = 0, ss_queue = new_write_queue, ss_closed = False\<rparr>]\<rparr>))"

definition session_at :: "hub \<Rightarrow> nat \<Rightarrow> server_session" where
  "session_at h i = hb_objects h ! i"

definition set_session :: "nat \<Rightarrow> server_session \<Rightarrow> hub \<Rightarrow> hub" where
  "set_session i s h = h\<lparr>hb_objects := (hb_objects h)[i := s]\<rparr>"

definition register_player :: "u32 \<Rightarrow> nat \<Rightarrow> hub \<Rightarrow> hub" where
  "register_player player i h = h\<lparr>hb_sessions := (hb_sessions h)(player \<mapsto> i)\<rparr>"

definition unregister_player :: "u32 \<Rightarrow> nat \<Rightarrow> hub \<Rightarrow> hub" where
  "unregister_player player i h =
     (if hb_sessions h player = Some i then h\<lparr>hb_sessions := (hb_sessions h)(player := None)\<rparr> else h)"

definition session_for :: "hub \<Rightarrow> u32 \<Rightarrow> nat option" where
  "session_for h player = hb_sessions h player"

section \<open>Sending\<close>

definition enqueue :: "protowire \<Rightarrow> nat \<Rightarrow> i32 \<Rightarrow> message \<Rightarrow> hub \<Rightarrow> session_error option \<times> hub" where
  "enqueue pw i serial m h =
     (case encode_frame pw serial m of
        Inl e \<Rightarrow> (Some (Frame_Failed e), h)
      | Inr packet \<Rightarrow>
          (case write_queue_push packet (ss_queue (session_at h i)) of
             (e, q) \<Rightarrow> (map_option Queue_Failed e, set_session i ((session_at h i)\<lparr>ss_queue := q\<rparr>) h)))"

definition send_push :: "protowire \<Rightarrow> nat \<Rightarrow> message \<Rightarrow> hub \<Rightarrow> session_error option \<times> hub" where
  "send_push pw i m h = enqueue pw i 0 m h"

definition sync_server_tunnel_update :: "modify_tunnel_ntf \<Rightarrow> hub \<Rightarrow> hub" where
  "sync_server_tunnel_update update h =
     (case mt_tunnel update of
        None \<Rightarrow> h
      | Some t \<Rightarrow> if pt_sender t = 0 \<or> pt_receiver t = 0 then local_call (Update_Tunnel update) h else h)"

section \<open>Pushing updates and closing\<close>

type_synonym close_fn = "nat \<Rightarrow> hub \<Rightarrow> hub option"

primrec fold_option :: "('a \<Rightarrow> 's \<Rightarrow> 's option) \<Rightarrow> 'a list \<Rightarrow> 's \<Rightarrow> 's option" where
  "fold_option f [] s = Some s"
| "fold_option f (x # xs) s = Option.bind (f x s) (fold_option f xs)"

definition push_tunnel_update :: "close_fn \<Rightarrow> protowire \<Rightarrow> u32 \<Rightarrow> modify_tunnel_ntf \<Rightarrow> hub \<Rightarrow> hub option" where
  "push_tunnel_update close pw player update h =
     (if player = 0 then Some h
      else case session_for h player of
          None \<Rightarrow> Some h
        | Some i \<Rightarrow>
            (case send_push pw i (ModifyTunnelNtf update) h of
               (None, h) \<Rightarrow> Some h
             | (Some _, h) \<Rightarrow> close i h))"

definition push_tunnel_state :: "close_fn \<Rightarrow> protowire \<Rightarrow> u32 \<Rightarrow> tunnel \<Rightarrow> hub \<Rightarrow> hub option" where
  "push_tunnel_state close pw skip t h =
     (let update = runtime_tunnel_update h t False;
          h = sync_server_tunnel_update update h
      in Option.bind
           (if t_sender t \<noteq> 0 \<and> t_sender t \<noteq> skip then push_tunnel_update close pw (t_sender t) update h
            else Some h)
           (\<lambda>h. if t_receiver t \<noteq> 0 \<and> t_receiver t \<noteq> skip \<and> t_receiver t \<noteq> t_sender t
                 then push_tunnel_update close pw (t_receiver t) update h else Some h))"

definition broadcast_player_tunnel_states ::
  "close_fn \<Rightarrow> protowire \<Rightarrow> u32 \<Rightarrow> u32 \<Rightarrow> hub \<Rightarrow> hub option" where
  "broadcast_player_tunnel_states close pw player skip h =
     (if player = 0 then Some h
      else fold_option (push_tunnel_state close pw skip) (tm_by_player (hb_tunnels h) player) h)"

definition clear_player_tunnel_runtime :: "u32 \<Rightarrow> hub \<Rightarrow> hub" where
  "clear_player_tunnel_runtime player h =
     (if player = 0 then h
      else h\<lparr>hb_tunnels := fold (\<lambda>t. clear_runtime (t_id t)) (tm_by_player (hb_tunnels h) player) (hb_tunnels h)\<rparr>)"

text \<open>The first part of \<open>Close\<close>, before it tells the others.\<close>

definition detach_session :: "nat \<Rightarrow> hub \<Rightarrow> hub" where
  "detach_session i h =
     (let s = session_at h i; player = ss_player s;
          h = set_session i (s\<lparr>ss_closed := True, ss_queue := write_queue_close (ss_queue s)\<rparr>) h
      in if player = 0 then h
         else let h = unregister_player player i h;
                  h = h\<lparr>hb_players := pg_unbind player i (hb_players h)\<rparr>
              in clear_player_tunnel_runtime player h)"

primrec close_session :: "nat \<Rightarrow> protowire \<Rightarrow> close_fn" where
  "close_session 0 pw = (\<lambda>i h. None)"
| "close_session (Suc fuel) pw = (\<lambda>i h.
     let player = ss_player (session_at h i) in
     if ss_closed (session_at h i) then Some h
     else broadcast_player_tunnel_states (close_session fuel pw) pw player player (detach_session i h))"

definition hub_close :: "protowire \<Rightarrow> close_fn" where
  "hub_close pw i h = close_session (Suc (length (hb_objects h))) pw i h"

text \<open>The notifier the tunnel manager calls.\<close>

definition hub_broadcast_tunnel :: "protowire \<Rightarrow> notice \<Rightarrow> hub \<Rightarrow> hub option" where
  "hub_broadcast_tunnel pw n h =
     (case n of (player, t, is_delete) \<Rightarrow>
        let update = runtime_tunnel_update h t is_delete in
        if player = 0 then Some (sync_server_tunnel_update update h)
        else push_tunnel_update (hub_close pw) pw player update h)"

section \<open>What the parts of a step may change\<close>

definition queue_of :: "hub \<Rightarrow> nat \<Rightarrow> byte list option list" where
  "queue_of h i = ring_contents (ss_queue (session_at h i))"

definition is_packet :: "protowire \<Rightarrow> i32 \<Rightarrow> message \<Rightarrow> byte list \<Rightarrow> bool" where
  "is_packet pw serial m x \<longleftrightarrow> encode_frame pw serial m = Inr x"

text \<open>The invariant of the hub; \<open>x\<close> is a displaced session that is about to be closed.\<close>

definition session_ok :: "protowire \<Rightarrow> server_session \<Rightarrow> bool" where
  "session_ok pw s \<longleftrightarrow> ring_inv (ss_queue s) \<and> rg_closed (ss_queue s) = ss_closed s \<and>
     (ss_closed s \<longrightarrow> set (ring_contents (ss_queue s)) \<subseteq> {None}) \<and>
     (\<forall>y. Some y \<in> set (ring_contents (ss_queue s)) \<longrightarrow> (\<exists>serial m. is_packet pw serial m y))"

definition registered_ok :: "hub \<Rightarrow> bool" where
  "registered_ok h \<longleftrightarrow> (\<forall>p i. hb_sessions h p = Some i \<longrightarrow>
     p \<noteq> 0 \<and> i < length (hb_objects h) \<and> ss_player (session_at h i) = p \<and> \<not> ss_closed (session_at h i))"

definition open_registered :: "nat option \<Rightarrow> hub \<Rightarrow> bool" where
  "open_registered x h \<longleftrightarrow>
     (\<forall>i < length (hb_objects h). \<not> ss_closed (session_at h i) \<longrightarrow> ss_player (session_at h i) \<noteq> 0 \<longrightarrow>
        x \<noteq> Some i \<longrightarrow> hb_sessions h (ss_player (session_at h i)) = Some i)"

definition queues_ok :: "protowire \<Rightarrow> hub \<Rightarrow> bool" where
  "queues_ok pw h \<longleftrightarrow> (\<forall>i < length (hb_objects h). session_ok pw (session_at h i))"

definition players_agree :: "hub \<Rightarrow> bool" where
  "players_agree h \<longleftrightarrow> (\<forall>p. pg_session (hb_players h) p = hb_sessions h p)"

definition players_ok :: "player_manager \<Rightarrow> bool" where
  "players_ok m \<longleftrightarrow> pg_inv m \<and> 0 \<notin> u_id ` set (pg_table m)"

definition hub_inv_except :: "protowire \<Rightarrow> nat option \<Rightarrow> hub \<Rightarrow> bool" where
  "hub_inv_except pw x h \<longleftrightarrow> registered_ok h \<and> players_agree h \<and> open_registered x h \<and> queues_ok pw h \<and>
     players_ok (hb_players h)"

abbreviation hub_inv :: "protowire \<Rightarrow> hub \<Rightarrow> bool" where
  "hub_inv pw \<equiv> hub_inv_except pw None"

definition sessions_grow :: "protowire \<Rightarrow> (nat \<Rightarrow> i32 \<Rightarrow> message \<Rightarrow> bool) \<Rightarrow> hub \<Rightarrow> hub \<Rightarrow> bool" where
  "sessions_grow pw Q h h' \<longleftrightarrow> length (hb_objects h') = length (hb_objects h) \<and>
     (\<forall>j. ss_closed (session_at h j) \<longrightarrow> ss_closed (session_at h' j)) \<and>
     (\<forall>j. ss_closed (session_at h' j) \<or>
        (\<exists>new. queue_of h' j = queue_of h j @ map Some new \<and>
           (\<forall>y \<in> set new. \<exists>serial m. Q j serial m \<and> is_packet pw serial m y)))"

lemma sessions_grow_refl [simp]: "sessions_grow pw Q h h"
  unfolding sessions_grow_def by (auto intro: exI [of _ "[]"])

lemma sessions_grow_trans [trans]:
  assumes "sessions_grow pw Q h h'" "sessions_grow pw Q h' h''"
  shows "sessions_grow pw Q h h''"
  unfolding sessions_grow_def
proof (intro conjI allI)
  show "length (hb_objects h'') = length (hb_objects h)" using assms by (simp add: sessions_grow_def)
  show "ss_closed (session_at h j) \<longrightarrow> ss_closed (session_at h'' j)" for j
    using assms by (simp add: sessions_grow_def)
  fix j
  show "ss_closed (session_at h'' j) \<or> (\<exists>new. queue_of h'' j = queue_of h j @ map Some new \<and>
      (\<forall>y \<in> set new. \<exists>serial m. Q j serial m \<and> is_packet pw serial m y))"
  proof (cases "ss_closed (session_at h'' j)")
    case False
    then have "\<not> ss_closed (session_at h' j)" using assms(2) by (auto simp: sessions_grow_def)
    with False assms obtain a b where "queue_of h' j = queue_of h j @ map Some a"
      "queue_of h'' j = queue_of h' j @ map Some b"
      "\<forall>y \<in> set a. \<exists>serial m. Q j serial m \<and> is_packet pw serial m y"
      "\<forall>y \<in> set b. \<exists>serial m. Q j serial m \<and> is_packet pw serial m y"
      unfolding sessions_grow_def by meson
    then show ?thesis by (intro disjI2 exI [of _ "a @ b"]) auto
  qed simp
qed

lemma sessions_grow_mono:
  assumes "sessions_grow pw Q h h'" "\<forall>j serial m. Q j serial m \<longrightarrow> Q' j serial m"
  shows "sessions_grow pw Q' h h'"
  using assms unfolding sessions_grow_def by meson

text \<open>What pushing and closing leave alone.\<close>

definition same_data :: "hub \<Rightarrow> hub \<Rightarrow> bool" where
  "same_data h h' \<longleftrightarrow> hb_next_id h' = hb_next_id h \<and> hb_upgrades h' = hb_upgrades h \<and>
     pg_table (hb_players h') = pg_table (hb_players h) \<and>
     dom (pg_players (hb_players h')) = dom (pg_players (hb_players h)) \<and>
     tm_tunnels (hb_tunnels h') = tm_tunnels (hb_tunnels h) \<and>
     tm_lookup (hb_tunnels h') = tm_lookup (hb_tunnels h) \<and>
     (\<forall>j. ss_player (session_at h' j) = ss_player (session_at h j)) \<and>
     (\<forall>p. hb_sessions h' p = hb_sessions h p \<or> hb_sessions h' p = None) \<and>
     (\<exists>us. hb_local h' = hb_local h @ map Update_Tunnel us)"

lemma same_data_refl [simp]: "same_data h h"
  unfolding same_data_def by (auto intro: exI [of _ "[]"])

lemma same_data_trans [trans]:
  assumes "same_data h h'" "same_data h' h''"
  shows "same_data h h''"
proof -
  from assms obtain us vs where l: "hb_local h' = hb_local h @ map Update_Tunnel us"
    "hb_local h'' = hb_local h' @ map Update_Tunnel vs" by (auto simp: same_data_def)
  have "\<forall>p. hb_sessions h'' p = hb_sessions h p \<or> hb_sessions h'' p = None"
    using assms unfolding same_data_def by metis
  moreover from l have "hb_local h'' = hb_local h @ map Update_Tunnel (us @ vs)" by simp
  then have "\<exists>us. hb_local h'' = hb_local h @ map Update_Tunnel us" ..
  ultimately show ?thesis using assms unfolding same_data_def by simp
qed

section \<open>The parts keep the invariant\<close>

lemma session_at_set [simp]:
  "session_at (set_session i s h) j = (if j = i \<and> i < length (hb_objects h) then s else session_at h j)"
  "length (hb_objects (set_session i s h)) = length (hb_objects h)"
  "hb_sessions (set_session i s h) = hb_sessions h" "hb_players (set_session i s h) = hb_players h"
  "hb_tunnels (set_session i s h) = hb_tunnels h" "hb_upgrades (set_session i s h) = hb_upgrades h"
  "hb_local (set_session i s h) = hb_local h" "hb_next_id (set_session i s h) = hb_next_id h"
  by (auto simp: session_at_def set_session_def list_update_beyond)

lemma write_queue_push_contents:
  assumes "ring_inv q" "write_queue_push y q = (e, q')"
  shows "ring_inv q' \<and> rg_closed q' = rg_closed q \<and>
    ring_contents q' = (if e = None then ring_contents q @ [Some y] else ring_contents q) \<and>
    (e = None \<longrightarrow> \<not> rg_closed q)"
  using assms ring_contents_push [of q y, simplified] ring_inv_ops(1) [of q, simplified]
  by (auto simp: write_queue_push_def Let_def not_le split: if_splits)

lemma enqueue_cases:
  assumes "enqueue pw i serial m h = (e, h')"
  obtains "e \<noteq> None" "h' = h"
  | y f q where "is_packet pw serial m y" "write_queue_push y (ss_queue (session_at h i)) = (f, q)"
      "e = map_option Queue_Failed f" "h' = set_session i ((session_at h i)\<lparr>ss_queue := q\<rparr>) h"
  using assms by (auto simp: enqueue_def is_packet_def split: sum.splits prod.splits)

lemma session_ok_push:
  assumes "session_ok pw s" "is_packet pw serial m y" "write_queue_push y (ss_queue s) = (f, q)"
  shows "session_ok pw (s\<lparr>ss_queue := q\<rparr>)"
  using write_queue_push_contents [of "ss_queue s" y f q] assms
  by (auto simp: session_ok_def split: if_splits)

lemma hub_inv_queues:
  assumes "hub_inv_except pw x h" "hb_sessions h' = hb_sessions h" "hb_players h' = hb_players h"
    "length (hb_objects h') = length (hb_objects h)"
    "\<And>j. ss_player (session_at h' j) = ss_player (session_at h j)"
    "\<And>j. ss_closed (session_at h' j) = ss_closed (session_at h j)" "queues_ok pw h'"
  shows "hub_inv_except pw x h'"
proof -
  have "registered_ok h' = registered_ok h" "players_agree h' = players_agree h"
    "open_registered x h' = open_registered x h"
    unfolding registered_ok_def players_agree_def open_registered_def assms(2-6) by (rule refl)+
  with assms show ?thesis by (simp add: hub_inv_except_def)
qed

lemma enqueue_inv:
  assumes "hub_inv_except pw x h" "i < length (hb_objects h)" "enqueue pw i serial m h = (e, h')"
  shows "hub_inv_except pw x h'"
  using assms(3)
proof (cases rule: enqueue_cases)
  case 1
  with assms show ?thesis by simp
next
  case (2 y f q)
  have "session_ok pw (session_at h i)" using assms by (simp add: hub_inv_except_def queues_ok_def)
  from session_ok_push [OF this 2(1,2)] assms(1) have "queues_ok pw h'"
    unfolding 2(4) by (simp add: hub_inv_except_def queues_ok_def)
  from hub_inv_queues [OF assms(1) _ _ _ _ _ this] show ?thesis unfolding 2(4) by simp
qed

lemma enqueue_effect:
  assumes "hub_inv_except pw x h" "i < length (hb_objects h)" "enqueue pw i serial m h = (e, h')"
    "Q i serial m"
  shows "same_data h h'" "sessions_grow pw Q h h'" "\<forall>j. ss_closed (session_at h' j) = ss_closed (session_at h j)"
proof -
  have "same_data h h' \<and> sessions_grow pw Q h h' \<and> (\<forall>j. ss_closed (session_at h' j) = ss_closed (session_at h j))"
    using assms(3)
  proof (cases rule: enqueue_cases)
    case (2 y f q)
    have "session_ok pw (session_at h i)" using assms by (simp add: hub_inv_except_def queues_ok_def)
    then have "ring_inv (ss_queue (session_at h i))" by (simp add: session_ok_def)
    note c = write_queue_push_contents [OF this 2(2)]
    have d: "same_data h h'" unfolding same_data_def 2(4) using assms(2) by (auto intro: exI [of _ "[]"])
    have "\<exists>new. queue_of h' j = queue_of h j @ map Some new \<and>
        (\<forall>y \<in> set new. \<exists>serial m. Q j serial m \<and> is_packet pw serial m y)" for j
    proof (cases "j = i \<and> f = None")
      case True
      then show ?thesis using c assms(2,4) 2(1) unfolding 2(4) queue_of_def
        by (intro exI [of _ "[y]"]) auto
    next
      case False
      then show ?thesis using c assms(2) unfolding 2(4) queue_of_def by (intro exI [of _ "[]"]) auto
    qed
    then have g: "sessions_grow pw Q h h'"
      unfolding sessions_grow_def using assms(2) by (simp add: 2(4))
    from d g show ?thesis unfolding 2(4) using assms(2) by simp
  qed simp
  then show "same_data h h'" "sessions_grow pw Q h h'"
    "\<forall>j. ss_closed (session_at h' j) = ss_closed (session_at h j)" by blast+
qed

lemma local_call_simps [simp]:
  "hb_objects (local_call c h) = hb_objects h" "hb_sessions (local_call c h) = hb_sessions h"
  "hb_players (local_call c h) = hb_players h" "hb_tunnels (local_call c h) = hb_tunnels h"
  "hb_upgrades (local_call c h) = hb_upgrades h" "hb_next_id (local_call c h) = hb_next_id h"
  "hb_local (local_call c h) = hb_local h @ [c]" "session_at (local_call c h) i = session_at h i"
  "queue_of (local_call c h) i = queue_of h i"
  by (simp_all add: local_call_def session_at_def queue_of_def)

lemma local_call_inv [simp]: "hub_inv_except pw x (local_call c h) = hub_inv_except pw x h"
  by (simp add: hub_inv_except_def registered_ok_def players_agree_def open_registered_def queues_ok_def)

lemma sync_server_effect:
  "hub_inv_except pw x (sync_server_tunnel_update u h) = hub_inv_except pw x h"
  "same_data h (sync_server_tunnel_update u h)" "sessions_grow pw Q h (sync_server_tunnel_update u h)"
  "hb_objects (sync_server_tunnel_update u h) = hb_objects h"
proof -
  have "same_data h (local_call (Update_Tunnel u) h)"
    unfolding same_data_def by (auto intro: exI [of _ "[u]"])
  moreover have "sessions_grow pw Q h (local_call (Update_Tunnel u) h)"
    unfolding sessions_grow_def by (auto intro: exI [of _ "[]"])
  ultimately show "hub_inv_except pw x (sync_server_tunnel_update u h) = hub_inv_except pw x h"
    "same_data h (sync_server_tunnel_update u h)" "sessions_grow pw Q h (sync_server_tunnel_update u h)"
    "hb_objects (sync_server_tunnel_update u h) = hb_objects h"
    by (auto simp: sync_server_tunnel_update_def split: option.split)
qed

section \<open>Closing a session ends, whatever it sets off\<close>

definition is_update :: "nat \<Rightarrow> i32 \<Rightarrow> message \<Rightarrow> bool" where
  "is_update j serial m \<longleftrightarrow> serial = 0 \<and> (\<exists>u. m = ModifyTunnelNtf u)"

definition open_count :: "hub \<Rightarrow> nat" where
  "open_count h = card {i. i < length (hb_objects h) \<and> \<not> ss_closed (session_at h i)}"

definition good_change :: "protowire \<Rightarrow> hub \<Rightarrow> hub \<Rightarrow> bool" where
  "good_change pw h h' \<longleftrightarrow> hub_inv pw h' \<and> same_data h h' \<and> sessions_grow pw is_update h h'"

definition closes :: "nat \<Rightarrow> protowire \<Rightarrow> close_fn \<Rightarrow> bool" where
  "closes n pw close \<longleftrightarrow> (\<forall>i h x. hub_inv_except pw x h \<longrightarrow> x = None \<or> x = Some i \<longrightarrow>
     i < length (hb_objects h) \<longrightarrow> open_count h < n \<longrightarrow>
     (\<exists>h'. close i h = Some h' \<and> good_change pw h h' \<and> ss_closed (session_at h' i)))"

lemma open_count_mono: "sessions_grow pw Q h h' \<Longrightarrow> open_count h' \<le> open_count h"
  unfolding open_count_def sessions_grow_def by (intro card_mono) auto

lemma good_change_refl: "hub_inv pw h \<Longrightarrow> good_change pw h h"
  by (simp add: good_change_def)

lemma good_change_trans:
  "good_change pw h h' \<Longrightarrow> good_change pw h' h'' \<Longrightarrow> good_change pw h h''"
  unfolding good_change_def by (meson same_data_trans sessions_grow_trans)

lemma good_change_count: "good_change pw h h' \<Longrightarrow> open_count h' \<le> open_count h"
  by (auto simp: good_change_def intro: open_count_mono)

lemma session_forD:
  "hub_inv_except pw x h \<Longrightarrow> session_for h p = Some i \<Longrightarrow>
    i < length (hb_objects h) \<and> ss_player (session_at h i) = p \<and> \<not> ss_closed (session_at h i) \<and> p \<noteq> 0"
  by (auto simp: hub_inv_except_def registered_ok_def session_for_def)

lemma push_tunnel_update_good:
  assumes "closes n pw close" "hub_inv pw h" "open_count h < n"
  shows "\<exists>h'. push_tunnel_update close pw player update h = Some h' \<and> good_change pw h h'"
proof (cases "player = 0 \<or> session_for h player = None")
  case True
  then show ?thesis using good_change_refl [OF assms(2)] by (auto simp: push_tunnel_update_def)
next
  case False
  then obtain i where i: "player \<noteq> 0" "session_for h player = Some i" by auto
  obtain e h1 where s: "send_push pw i (ModifyTunnelNtf update) h = (e, h1)" by fastforce
  note len = session_forD [OF assms(2) i(2)]
  from s have q: "enqueue pw i 0 (ModifyTunnelNtf update) h = (e, h1)" by (simp add: send_push_def)
  from len have l: "i < length (hb_objects h)" by simp
  have u: "is_update i 0 (ModifyTunnelNtf update)" by (simp add: is_update_def)
  have g: "good_change pw h h1"
    using enqueue_inv [OF assms(2) l q] enqueue_effect(1,2) [OF assms(2) l q, of is_update, OF u]
    by (simp add: good_change_def)
  show ?thesis
  proof (cases e)
    case None
    with i s g show ?thesis by (simp add: push_tunnel_update_def)
  next
    case (Some e')
    from g have inv1: "hub_inv pw h1" and l1: "i < length (hb_objects h1)"
      using l by (auto simp: good_change_def sessions_grow_def)
    have "open_count h1 < n" using good_change_count [OF g] assms(3) by simp
    with assms(1) inv1 l1 obtain h2 where "close i h1 = Some h2" "good_change pw h1 h2"
      unfolding closes_def by blast
    with i s g Some good_change_trans show ?thesis by (auto simp: push_tunnel_update_def)
  qed
qed

lemma fold_option_good:
  assumes "\<And>x h. hub_inv pw h \<Longrightarrow> open_count h < n \<Longrightarrow> \<exists>h'. f x h = Some h' \<and> good_change pw h h'"
    "hub_inv pw h" "open_count h < n"
  shows "\<exists>h'. fold_option f xs h = Some h' \<and> good_change pw h h'"
  using assms(2,3)
proof (induction xs arbitrary: h)
  case Nil
  then show ?case by (simp add: good_change_refl)
next
  case (Cons x xs)
  from assms(1) [OF Cons.prems] obtain h1 where h1: "f x h = Some h1" "good_change pw h h1" by blast
  then have "hub_inv pw h1" "open_count h1 < n"
    using good_change_count [OF h1(2)] Cons.prems(2) by (auto simp: good_change_def)
  from Cons.IH [OF this] h1 good_change_trans show ?case by fastforce
qed

lemma push_tunnel_state_good:
  assumes "closes n pw close" "hub_inv pw h" "open_count h < n"
  shows "\<exists>h'. push_tunnel_state close pw skip t h = Some h' \<and> good_change pw h h'"
proof -
  define u where "u = runtime_tunnel_update h t False"
  define h1 where "h1 = sync_server_tunnel_update u h"
  have g1: "good_change pw h h1" using sync_server_effect(1) [of pw None u h] sync_server_effect(2) [of h u]
      sync_server_effect(3) [of pw is_update h u] assms(2)
    by (simp add: good_change_def h1_def)
  have c1: "hub_inv pw h1" "open_count h1 < n"
    using g1 good_change_count [OF g1] assms(3) by (auto simp: good_change_def)
  have "\<exists>h'. (if b then push_tunnel_update close pw p u k else Some k) = Some h' \<and> good_change pw k h'"
    if "hub_inv pw k" "open_count k < n" for b p k
    using push_tunnel_update_good [OF assms(1) that] good_change_refl [OF that(1)] by simp
  note opt = this
  from opt [OF c1, of "t_sender t \<noteq> 0 \<and> t_sender t \<noteq> skip" "t_sender t"] obtain h2
    where h2: "(if t_sender t \<noteq> 0 \<and> t_sender t \<noteq> skip then push_tunnel_update close pw (t_sender t) u h1
      else Some h1) = Some h2" "good_change pw h1 h2" by blast
  then have c2: "hub_inv pw h2" "open_count h2 < n"
    using good_change_count [OF h2(2)] c1 by (auto simp: good_change_def)
  from opt [OF c2, of "t_receiver t \<noteq> 0 \<and> t_receiver t \<noteq> skip \<and> t_receiver t \<noteq> t_sender t" "t_receiver t"]
  obtain h3 where h3: "(if t_receiver t \<noteq> 0 \<and> t_receiver t \<noteq> skip \<and> t_receiver t \<noteq> t_sender t
      then push_tunnel_update close pw (t_receiver t) u h2 else Some h2) = Some h3" "good_change pw h2 h3" by blast
  have "push_tunnel_state close pw skip t h = Some h3"
    unfolding push_tunnel_state_def Let_def u_def [symmetric] h1_def [symmetric] h2(1) using h3(1) by simp
  with good_change_trans [OF good_change_trans [OF g1 h2(2)] h3(2)] show ?thesis by blast
qed

lemma broadcast_good:
  assumes "closes n pw close" "hub_inv pw h" "open_count h < n"
  shows "\<exists>h'. broadcast_player_tunnel_states close pw player skip h = Some h' \<and> good_change pw h h'"
  using fold_option_good [of pw n "push_tunnel_state close pw skip" h "tm_by_player (hb_tunnels h) player"]
    push_tunnel_state_good [OF assms(1)] assms(2,3) good_change_refl [OF assms(2)]
  by (auto simp: broadcast_player_tunnel_states_def)

lemma clear_runtime_fold [simp]:
  "tm_tunnels (fold (\<lambda>t. clear_runtime (t_id t)) ts m) = tm_tunnels m"
  "tm_lookup (fold (\<lambda>t. clear_runtime (t_id t)) ts m) = tm_lookup m"
  by (induction ts arbitrary: m) (simp_all add: clear_runtime_def)

lemma detach_simps:
  "session_at (detach_session i h) j =
     (if j = i \<and> i < length (hb_objects h)
      then (session_at h i)\<lparr>ss_closed := True, ss_queue := write_queue_close (ss_queue (session_at h i))\<rparr>
      else session_at h j)"
  "length (hb_objects (detach_session i h)) = length (hb_objects h)"
  "hb_sessions (detach_session i h) =
     (if ss_player (session_at h i) \<noteq> 0 \<and> hb_sessions h (ss_player (session_at h i)) = Some i
      then (hb_sessions h)(ss_player (session_at h i) := None) else hb_sessions h)"
  "hb_players (detach_session i h) =
     (if ss_player (session_at h i) = 0 then hb_players h
      else pg_unbind (ss_player (session_at h i)) i (hb_players h))"
  "tm_tunnels (hb_tunnels (detach_session i h)) = tm_tunnels (hb_tunnels h)"
  "tm_lookup (hb_tunnels (detach_session i h)) = tm_lookup (hb_tunnels h)"
  "hb_upgrades (detach_session i h) = hb_upgrades h" "hb_local (detach_session i h) = hb_local h"
  "hb_next_id (detach_session i h) = hb_next_id h"
proof -
  define s where "s = session_at h i"
  define h1 where "h1 = set_session i (s\<lparr>ss_closed := True, ss_queue := write_queue_close (ss_queue s)\<rparr>) h"
  define h2 where "h2 = (unregister_player (ss_player s) i h1)\<lparr>hb_players := pg_unbind (ss_player s) i (hb_players h1)\<rparr>"
  have h1: "session_at h1 j = (if j = i \<and> i < length (hb_objects h)
      then s\<lparr>ss_closed := True, ss_queue := write_queue_close (ss_queue s)\<rparr> else session_at h j)"
    "length (hb_objects h1) = length (hb_objects h)" "hb_sessions h1 = hb_sessions h"
    "hb_players h1 = hb_players h" "hb_tunnels h1 = hb_tunnels h" "hb_upgrades h1 = hb_upgrades h"
    "hb_local h1 = hb_local h" "hb_next_id h1 = hb_next_id h" for j
    by (simp_all add: h1_def)
  have h2: "session_at h2 j = session_at h1 j" "length (hb_objects h2) = length (hb_objects h)"
    "hb_sessions h2 = (if hb_sessions h (ss_player s) = Some i then (hb_sessions h)(ss_player s := None)
      else hb_sessions h)" "hb_players h2 = pg_unbind (ss_player s) i (hb_players h)"
    "hb_tunnels h2 = hb_tunnels h" "hb_upgrades h2 = hb_upgrades h" "hb_local h2 = hb_local h"
    "hb_next_id h2 = hb_next_id h" for j
    by (simp_all add: h2_def unregister_player_def h1 session_at_def)
  have d: "detach_session i h = (if ss_player s = 0 then h1
      else h2\<lparr>hb_tunnels := fold (\<lambda>t. clear_runtime (t_id t)) (tm_by_player (hb_tunnels h2) (ss_player s)) (hb_tunnels h2)\<rparr>)"
    by (simp add: detach_session_def clear_player_tunnel_runtime_def Let_def s_def h1_def h2_def unregister_player_def)
  have at: "session_at (k\<lparr>hb_tunnels := t\<rparr>) j = session_at k j" for k :: hub and t j by (simp add: session_at_def)
  show "session_at (detach_session i h) j = (if j = i \<and> i < length (hb_objects h)
      then (session_at h i)\<lparr>ss_closed := True, ss_queue := write_queue_close (ss_queue (session_at h i))\<rparr>
      else session_at h j)"
    unfolding d by (simp add: at h1 h2 s_def)
  show "length (hb_objects (detach_session i h)) = length (hb_objects h)"
    "hb_sessions (detach_session i h) =
     (if ss_player (session_at h i) \<noteq> 0 \<and> hb_sessions h (ss_player (session_at h i)) = Some i
      then (hb_sessions h)(ss_player (session_at h i) := None) else hb_sessions h)"
    "hb_players (detach_session i h) =
     (if ss_player (session_at h i) = 0 then hb_players h
      else pg_unbind (ss_player (session_at h i)) i (hb_players h))"
    "tm_tunnels (hb_tunnels (detach_session i h)) = tm_tunnels (hb_tunnels h)"
    "tm_lookup (hb_tunnels (detach_session i h)) = tm_lookup (hb_tunnels h)"
    "hb_upgrades (detach_session i h) = hb_upgrades h" "hb_local (detach_session i h) = hb_local h"
    "hb_next_id (detach_session i h) = hb_next_id h"
    unfolding d by (simp_all add: h1 h2 s_def)
qed

lemma pg_unbind_simps:
  "pg_session (pg_unbind p i m) q = (if q = p \<and> pg_session m p = Some i then None else pg_session m q)"
  "pg_table (pg_unbind p i m) = pg_table m" "dom (pg_players (pg_unbind p i m)) = dom (pg_players m)"
  by (auto simp: pg_unbind_def pg_session_def split: option.splits)

lemma detach_inv:
  assumes "hub_inv_except pw x h" "x = None \<or> x = Some i" "i < length (hb_objects h)"
  shows "hub_inv pw (detach_session i h)"
proof -
  let ?d = "detach_session i h"
  let ?p = "ss_player (session_at h i)"
  from assms(1) have reg: "registered_ok h" and agree: "players_agree h" and opn: "open_registered x h"
    and qs: "queues_ok pw h" and pl: "players_ok (hb_players h)" by (simp_all add: hub_inv_except_def)
  have "registered_ok ?d"
    unfolding registered_ok_def
  proof (intro allI impI)
    fix p j assume a: "hb_sessions ?d p = Some j"
    then have b: "hb_sessions h p = Some j" by (auto simp: detach_simps split: if_splits)
    with reg have c: "p \<noteq> 0" "j < length (hb_objects h)" "ss_player (session_at h j) = p" "\<not> ss_closed (session_at h j)"
      by (auto simp: registered_ok_def)
    have "j \<noteq> i"
    proof
      assume "j = i"
      with a b c show False by (simp add: detach_simps)
    qed
    with c show "p \<noteq> 0 \<and> j < length (hb_objects ?d) \<and> ss_player (session_at ?d j) = p \<and>
        \<not> ss_closed (session_at ?d j)" by (simp add: detach_simps)
  qed
  moreover have "players_agree ?d"
    using agree unfolding players_agree_def detach_simps
    by (cases "?p = 0") (simp_all add: pg_unbind_simps)
  moreover have "open_registered None ?d"
    unfolding open_registered_def detach_simps
  proof (intro allI impI)
    fix j assume j: "j < length (hb_objects h)"
    let ?s = "if j = i \<and> i < length (hb_objects h)
      then (session_at h i)\<lparr>ss_closed := True, ss_queue := write_queue_close (ss_queue (session_at h i))\<rparr>
      else session_at h j"
    assume c: "\<not> ss_closed ?s" "ss_player ?s \<noteq> 0"
    then have ne: "j \<noteq> i" using assms(3) by auto
    then have "x \<noteq> Some j" using assms(2) by auto
    with opn j c ne have "hb_sessions h (ss_player (session_at h j)) = Some j"
      by (auto simp: open_registered_def)
    with ne show "(if ?p \<noteq> 0 \<and> hb_sessions h ?p = Some i then (hb_sessions h)(?p := None) else hb_sessions h)
      (ss_player ?s) = Some j" by auto
  qed
  moreover have "queues_ok pw ?d"
    using qs write_queue_close_ok [of "ss_queue (session_at h i)"] assms(3)
    unfolding queues_ok_def detach_simps session_ok_def by (auto simp: write_queue_close_def)
  moreover have "players_ok (hb_players ?d)"
    using pl pg_session_ops_inv(2) unfolding players_ok_def detach_simps by (simp add: pg_unbind_simps)
  ultimately show ?thesis by (simp add: hub_inv_except_def)
qed

lemma detach_effect:
  assumes "i < length (hb_objects h)"
  shows "same_data h (detach_session i h)" "sessions_grow pw Q h (detach_session i h)"
    "ss_closed (session_at (detach_session i h) i)"
proof -
  show "same_data h (detach_session i h)"
    unfolding same_data_def detach_simps using assms
    by (auto simp: pg_unbind_simps intro: exI [of _ "[]"])
  show "sessions_grow pw Q h (detach_session i h)"
    unfolding sessions_grow_def queue_of_def detach_simps using assms by (auto intro: exI [of _ "[]"])
  show "ss_closed (session_at (detach_session i h) i)" using assms by (simp add: detach_simps)
qed

lemma detach_count:
  assumes "i < length (hb_objects h)" "\<not> ss_closed (session_at h i)"
  shows "open_count (detach_session i h) < open_count h"
proof -
  have "{j. j < length (hb_objects (detach_session i h)) \<and> \<not> ss_closed (session_at (detach_session i h) j)} \<subset>
      {j. j < length (hb_objects h) \<and> \<not> ss_closed (session_at h j)}"
    using assms by (auto simp: detach_simps split: if_splits)
  then show ?thesis unfolding open_count_def by (intro psubset_card_mono) auto
qed

lemma close_session_closes: "closes fuel pw (close_session fuel pw)"
proof (induction fuel)
  case 0
  then show ?case by (simp add: closes_def)
next
  case (Suc fuel)
  show ?case
    unfolding closes_def
  proof (intro allI impI)
    fix i h x
    assume h: "hub_inv_except pw x h" "x = None \<or> x = Some i" "i < length (hb_objects h)" "open_count h < Suc fuel"
    show "\<exists>h'. close_session (Suc fuel) pw i h = Some h' \<and> good_change pw h h' \<and> ss_closed (session_at h' i)"
    proof (cases "ss_closed (session_at h i)")
      case True
      with h(1,2) have "hub_inv pw h"
        by (auto simp: hub_inv_except_def open_registered_def)
      with True show ?thesis by (simp add: good_change_refl)
    next
      case False
      let ?d = "detach_session i h"
      have g: "good_change pw h ?d" using detach_inv [OF h(1-3)] detach_effect(1,2) [OF h(3)]
        by (simp add: good_change_def)
      have "open_count ?d < fuel" using detach_count [OF h(3) False] h(4) by simp
      with broadcast_good [OF Suc.IH, of ?d] g obtain h' where h': "broadcast_player_tunnel_states (close_session fuel pw) pw
          (ss_player (session_at h i)) (ss_player (session_at h i)) ?d = Some h'" "good_change pw ?d h'"
        unfolding good_change_def by blast
      then have "ss_closed (session_at h' i)"
        using detach_effect(3) [OF h(3)] by (simp add: good_change_def sessions_grow_def)
      with h' g False good_change_trans show ?thesis by auto
    qed
  qed
qed

lemma open_count_le: "open_count h \<le> length (hb_objects h)"
proof -
  have "open_count h \<le> card {..<length (hb_objects h)}" unfolding open_count_def by (intro card_mono) auto
  then show ?thesis by simp
qed

lemma hub_close_closes: "closes n pw (hub_close pw)"
  using close_session_closes open_count_le le_imp_less_Suc
  unfolding closes_def hub_close_def by blast

end
