(* ===== verification/Server_Session.thy ===== *)
theory Server_Session
  imports Server_Hub
begin

text \<open>
  What a session does with the frames it reads: the handlers of \<open>internal/server/session.go\<close>.

  \<open>server_io\<close> holds what a handler gets from outside: database failures by store function, readings of
  the clock in the order they are taken, the texts of errors, random draws.  A handler gives the error
  that ends the read loop, if any, and the hub; it is \<open>None\<close> when closing sessions would never end, which
  the lemmas exclude.
\<close>

record server_io =
  si_dg :: digests
  si_db :: db_faults
  si_clock :: "nat \<Rightarrow> int"
  si_time_text :: string
  si_artifact :: "string option"
  si_keys :: "((string + byte list) \<times> string option) list"
  si_ids :: "nat list"
  si_player_error :: "player_error \<Rightarrow> string"
  si_session_error :: "session_error \<Rightarrow> string"

definition runtime_component_inlet :: string where "runtime_component_inlet = ''inlet''"
definition runtime_component_outlet :: string where "runtime_component_outlet = ''outlet''"

definition pb_error_of :: "i32 \<Rightarrow> string \<Rightarrow> message" where
  "pb_error_of number text = Error \<lparr>pe_number = number, pe_message = text\<rparr>"

section \<open>Requests\<close>

text \<open>The steps of \<open>onLogin\<close> after the key was found: binding the session, which closes the one it
  displaces; the result of an upgrade the client brings along.\<close>

definition login_bind :: "protowire \<Rightarrow> server_io \<Rightarrow> nat \<Rightarrow> u32 \<Rightarrow> client_info \<Rightarrow> hub \<Rightarrow> hub option" where
  "login_bind pw io i player info h =
     (let h = set_session i ((session_at h i)\<lparr>ss_player := player\<rparr>) h;
          h = h\<lparr>hb_players := snd (pg_record_login (si_db io) player (si_time_text io) (hb_players h))\<rparr>;
          h = register_player player i h
      in case pg_bind_client player i info (hb_players h) of
           (old, players) \<Rightarrow>
             (let h = h\<lparr>hb_players := players\<rparr> in
              map_option (\<lambda>h. h\<lparr>hb_players := snd (pg_persist_client_info (si_db io) player info (hb_players h))\<rparr>)
                (case old of None \<Rightarrow> Some h | Some j \<Rightarrow> hub_close pw j h)))"

definition login_upgrades :: "server_io \<Rightarrow> u32 \<Rightarrow> login_req \<Rightarrow> hub \<Rightarrow> hub" where
  "login_upgrades io player req h =
     (let ups = (if lr_upgrade_task_id req \<noteq> ''''
            then snd (um_handle_status (si_dg io) (si_clock io 0) (si_artifact io) player
              (Some \<lparr>us_task_id = lr_upgrade_task_id req, us_state = lr_upgrade_state req, us_offset = 0,
                us_error = lr_upgrade_error req\<rparr>) (hb_upgrades h))
            else hb_upgrades h)
      in h\<lparr>hb_upgrades := um_complete_on_login (si_clock io 1) player (lr_version req) ups\<rparr>)"

definition login_reply :: "u32 \<Rightarrow> hub \<Rightarrow> message" where
  "login_reply player h =
     LoginAck \<lparr>la_player_id = player,
       la_tunnel_list = map (runtime_tunnel_pb h) (tm_by_player (hb_tunnels h) player),
       la_supports_runtime_report = True\<rparr>"

definition on_login :: "protowire \<Rightarrow> server_io \<Rightarrow> nat \<Rightarrow> login_req \<Rightarrow> hub \<Rightarrow> (message \<times> hub) option" where
  "on_login pw io i req h =
     (if ss_player (session_at h i) \<noteq> 0 then Some (pb_error_of (- 1) ''repeat login'', h)
      else case us_find_by_key (si_db io ''find_by_key'') (lr_password req) (pg_table (hb_players h)) of
          Inl e \<Rightarrow> Some (pb_error_of error_code_internal_error (si_player_error io (Store_Failed e)), h)
        | Inr None \<Rightarrow> Some (pb_error_of (- 2) ''Incorrect key'', h)
        | Inr (Some u) \<Rightarrow>
            Option.bind
              (login_bind pw io i (u_id u) \<lparr>cl_version = lr_version req, cl_platform = lr_platform req,
                 cl_updater = lr_updater_version req\<rparr> h)
              (\<lambda>h. let h = login_upgrades io (u_id u) req h; reply = login_reply (u_id u) h in
                map_option (Pair reply)
                  (broadcast_player_tunnel_states (hub_close pw) pw (u_id u) (u_id u) h)))"

definition on_register :: "server_io \<Rightarrow> register_req \<Rightarrow> hub \<Rightarrow> message \<times> hub" where
  "on_register io req h =
     (case pg_add (si_db io) (si_keys io) (si_ids io) (si_time_text io) (rr_username req) (rr_password req)
             (hb_players h) of
        (Added _, m) \<Rightarrow> (Success, h\<lparr>hb_players := m\<rparr>)
      | (Refused code text, m) \<Rightarrow> (pb_error_of code text, h\<lparr>hb_players := m\<rparr>)
      | (Add_Failed e, m) \<Rightarrow> (pb_error_of error_code_internal_error (si_player_error io e), h\<lparr>hb_players := m\<rparr>))"

definition handle_request :: "protowire \<Rightarrow> server_io \<Rightarrow> nat \<Rightarrow> message \<Rightarrow> hub \<Rightarrow> (message \<times> hub) option" where
  "handle_request pw io i m h =
     (case m of
        Ping p \<Rightarrow> Some (Pong \<lparr>pp_ticks = pp_ticks p\<rparr>, h)
      | LoginReq req \<Rightarrow> on_login pw io i req h
      | RegisterReq req \<Rightarrow> Some (on_register io req h)
      | _ \<Rightarrow> Some (pb_error_of error_code_player_not_login ''player not logged in'', h))"

section \<open>Pushes\<close>

definition handle_upgrade_status ::
  "protowire \<Rightarrow> server_io \<Rightarrow> nat \<Rightarrow> upgrade_status_report \<Rightarrow> hub \<Rightarrow> hub option" where
  "handle_upgrade_status pw io i report h =
     (let player = ss_player (session_at h i) in
      case um_handle_status (si_dg io) (si_clock io 0) (si_artifact io) player (Some report) (hb_upgrades h) of
        (Inl _, ups) \<Rightarrow> Some (h\<lparr>hb_upgrades := ups\<rparr>)
      | (Inr None, ups) \<Rightarrow> Some (h\<lparr>hb_upgrades := ups\<rparr>)
      | (Inr (Some chunk), ups) \<Rightarrow>
          (case send_push pw i (UpgradeChunk chunk) (h\<lparr>hb_upgrades := ups\<rparr>) of
             (None, h) \<Rightarrow> Some h
           | (Some e, h) \<Rightarrow>
               hub_close pw i (h\<lparr>hb_upgrades := um_fail (si_clock io 1) player (us_task_id report)
                 (Some (si_session_error io e)) (hb_upgrades h)\<rparr>)))"

definition set_runtime_state :: "(runtime_store \<Rightarrow> runtime_store) \<Rightarrow> hub \<Rightarrow> hub" where
  "set_runtime_state f h =
     h\<lparr>hb_tunnels := (hb_tunnels h)\<lparr>tm_runtime := map_option f (tm_runtime (hb_tunnels h))\<rparr>\<rparr>"

definition handle_tunnel_runtime_report :: "server_io \<Rightarrow> nat \<Rightarrow> tunnel_runtime_report \<Rightarrow> hub \<Rightarrow> hub" where
  "handle_tunnel_runtime_report io i r h =
     (if tr_tunnel_id r = 0 then h
      else case tm_get (hb_tunnels h) (tr_tunnel_id r) of
          None \<Rightarrow> h
        | Some t \<Rightarrow>
            if tr_component r = runtime_component_inlet
            then (if t_receiver t \<noteq> ss_player (session_at h i) then h
                  else set_runtime_state (set_inlet (si_clock io 0) (tr_tunnel_id r) (tr_running r) (tr_error r)) h)
            else if tr_component r = runtime_component_outlet
            then (if t_sender t \<noteq> ss_player (session_at h i) then h
                  else set_runtime_state (set_outlet (si_clock io 0) (tr_tunnel_id r) (tr_running r) (tr_error r)) h)
            else h)"

text \<open>The tunnel of a proxy message and whether it goes from inlet to outlet.\<close>

definition route_of :: "message \<Rightarrow> (u32 \<times> bool) option" where
  "route_of m =
     (case m of
        PbI2OConnect x \<Rightarrow> Some (ic_tunnel_id x, True)
      | PbI2OSendData x \<Rightarrow> Some (pd_tunnel_id x, True)
      | PbI2OSendToData x \<Rightarrow> Some (pa_tunnel_id x, True)
      | PbI2ODisconnect x \<Rightarrow> Some (px_tunnel_id x, True)
      | PbI2ORecvDataResult x \<Rightarrow> Some (ps_tunnel_id x, True)
      | PbO2IConnect x \<Rightarrow> Some (oc_tunnel_id x, False)
      | PbO2IRecvData x \<Rightarrow> Some (pd_tunnel_id x, False)
      | PbO2IRecvDataFrom x \<Rightarrow> Some (pa_tunnel_id x, False)
      | PbO2IDisconnect x \<Rightarrow> Some (px_tunnel_id x, False)
      | PbO2ISendDataResult x \<Rightarrow> Some (ps_tunnel_id x, False)
      | _ \<Rightarrow> None)"

text \<open>Tunnel, sending player, receiving player.\<close>

definition resolve_route :: "hub \<Rightarrow> message \<Rightarrow> (u32 \<times> u32 \<times> u32) option" where
  "resolve_route h m =
     (case route_of m of
        None \<Rightarrow> None
      | Some (i, i2o) \<Rightarrow>
          (case tm_get (hb_tunnels h) i of
             None \<Rightarrow> None
           | Some t \<Rightarrow>
               if \<not> t_enabled t then None
               else if i2o then Some (i, t_receiver t, t_sender t)
               else Some (i, t_sender t, t_receiver t)))"

definition offline_reply :: "message \<Rightarrow> u32 \<Rightarrow> message option" where
  "offline_reply m tunnel =
     (case m of
        PbI2OConnect x \<Rightarrow> Some (PbO2IConnect \<lparr>oc_tunnel_id = tunnel, oc_session_id = ic_session_id x,
          oc_success = False, oc_error_info = ''no player for tunnel '' @ u32_str tunnel @ '' or the player is offline''\<rparr>)
      | PbI2OSendData x \<Rightarrow> Some (PbO2IDisconnect \<lparr>px_tunnel_id = tunnel, px_session_id = pd_session_id x\<rparr>)
      | PbI2ORecvDataResult x \<Rightarrow> Some (PbO2IDisconnect \<lparr>px_tunnel_id = tunnel, px_session_id = ps_session_id x\<rparr>)
      | PbO2IConnect x \<Rightarrow> Some (PbI2ODisconnect \<lparr>px_tunnel_id = tunnel, px_session_id = oc_session_id x\<rparr>)
      | PbO2IRecvData x \<Rightarrow> Some (PbI2ODisconnect \<lparr>px_tunnel_id = tunnel, px_session_id = pd_session_id x\<rparr>)
      | PbO2ISendDataResult x \<Rightarrow> Some (PbI2ODisconnect \<lparr>px_tunnel_id = tunnel, px_session_id = ps_session_id x\<rparr>)
      | _ \<Rightarrow> None)"

definition handle_offline_proxy ::
  "protowire \<Rightarrow> message \<Rightarrow> u32 \<Rightarrow> u32 \<Rightarrow> hub \<Rightarrow> session_error option \<times> hub" where
  "handle_offline_proxy pw m tunnel from_player h =
     (case offline_reply m tunnel of
        None \<Rightarrow> (None, h)
      | Some reply \<Rightarrow>
          if from_player = 0 then (None, local_call (Handle_PB reply) h)
          else (case session_for h from_player of
              None \<Rightarrow> (None, h)
            | Some i \<Rightarrow> send_push pw i reply h))"

definition forward_message ::
  "protowire \<Rightarrow> message \<Rightarrow> u32 \<Rightarrow> u32 \<Rightarrow> u32 \<Rightarrow> hub \<Rightarrow> (session_error option \<times> hub) option" where
  "forward_message pw m tunnel from_player to_player h =
     (case session_for h to_player of
        None \<Rightarrow>
          if to_player = 0 then Some (None, local_call (Handle_PB m) h)
          else Some (handle_offline_proxy pw m tunnel from_player h)
      | Some k \<Rightarrow>
          (case send_push pw k m h of
             (None, h) \<Rightarrow> Some (None, h)
           | (Some _, h) \<Rightarrow> map_option (handle_offline_proxy pw m tunnel from_player) (hub_close pw k h)))"

definition handle_push ::
  "protowire \<Rightarrow> server_io \<Rightarrow> nat \<Rightarrow> message \<Rightarrow> hub \<Rightarrow> (session_error option \<times> hub) option" where
  "handle_push pw io i m h =
     (let player = ss_player (session_at h i) in
      if player = 0 then Some (None, h)
      else case m of
          TunnelRuntimeReport r \<Rightarrow> Some (None, handle_tunnel_runtime_report io i r h)
        | UpgradeStatusReport r \<Rightarrow> map_option (Pair None) (handle_upgrade_status pw io i r h)
        | _ \<Rightarrow>
            (case resolve_route h m of
               None \<Rightarrow> Some (None, h)
             | Some (tunnel, from_player, to_player) \<Rightarrow>
                 if from_player \<noteq> player then Some (None, h)
                 else forward_message pw m tunnel from_player to_player h))"

section \<open>Frames and the events of a session\<close>

definition handle_frame ::
  "protowire \<Rightarrow> server_io \<Rightarrow> nat \<Rightarrow> byte list \<Rightarrow> hub \<Rightarrow> (session_error option \<times> hub) option" where
  "handle_frame pw io i frame h =
     (case decode_frame pw frame of
        None \<Rightarrow> None
      | Some (Inl e) \<Rightarrow> Some (Some (Frame_Failed e), h)
      | Some (Inr (serial, m)) \<Rightarrow>
          if sint serial < 0
          then map_option (\<lambda>(response, h). enqueue pw i (- serial) response h) (handle_request pw io i m h)
          else if serial = 0 then handle_push pw io i m h
          else Some (None, h))"

text \<open>The function half a second after a login: it offers the player's unfinished upgrade again.\<close>

definition delayed_offer :: "protowire \<Rightarrow> server_io \<Rightarrow> nat \<Rightarrow> u32 \<Rightarrow> hub \<Rightarrow> hub option" where
  "delayed_offer pw io i player h =
     (if pg_session (hb_players h) player \<noteq> Some i then Some h
      else case um_offer (si_clock io 0) player (hb_upgrades h) of
          (None, ups) \<Rightarrow> Some (h\<lparr>hb_upgrades := ups\<rparr>)
        | (Some offer, ups) \<Rightarrow>
            (case send_push pw i (UpgradeOffer offer) (h\<lparr>hb_upgrades := ups\<rparr>) of
               (None, h) \<Rightarrow> Some h
             | (Some _, h) \<Rightarrow> hub_close pw i h))"

text \<open>What the server's proxy manager sends, and what it reports (\<open>SetRuntime\<close>).\<close>

definition hub_send_remote :: "protowire \<Rightarrow> u32 \<Rightarrow> message \<Rightarrow> hub \<Rightarrow> bool \<times> hub" where
  "hub_send_remote pw player m h =
     (case session_for h player of
        None \<Rightarrow> (False, h)
      | Some i \<Rightarrow> (case send_push pw i m h of (e, h) \<Rightarrow> (e = None, h)))"

definition hub_runtime_report :: "int \<Rightarrow> u32 \<Rightarrow> string \<Rightarrow> bool \<Rightarrow> string \<Rightarrow> hub \<Rightarrow> hub" where
  "hub_runtime_report now tunnel component running err h =
     (if component = runtime_component_inlet then set_runtime_state (set_inlet now tunnel running err) h
      else if component = runtime_component_outlet then set_runtime_state (set_outlet now tunnel running err) h
      else h)"

section \<open>Every handler ends and keeps the hub consistent\<close>

lemma hub_inv_fields [simp]:
  "hub_inv_except pw x (h\<lparr>hb_upgrades := u\<rparr>) = hub_inv_except pw x h"
  "hub_inv_except pw x (h\<lparr>hb_tunnels := t\<rparr>) = hub_inv_except pw x h"
  by (simp_all add: hub_inv_except_def registered_ok_def players_agree_def open_registered_def queues_ok_def
      session_at_def)

lemma session_at_fields [simp]:
  "session_at (h\<lparr>hb_upgrades := u\<rparr>) i = session_at h i" "session_at (h\<lparr>hb_tunnels := t\<rparr>) i = session_at h i"
  "session_at (h\<lparr>hb_players := p\<rparr>) i = session_at h i" "session_at (register_player q k h) i = session_at h i"
  by (simp_all add: session_at_def register_player_def)

lemma sessions_grow_objects: "hb_objects h' = hb_objects h \<Longrightarrow> sessions_grow pw Q h h'"
  unfolding sessions_grow_def queue_of_def session_at_def by (auto intro: exI [of _ "[]"])

lemma hub_inv_players:
  assumes "hub_inv_except pw x h" "pg_players m = pg_players (hb_players h)" "players_ok m"
  shows "hub_inv_except pw x (h\<lparr>hb_players := m\<rparr>)"
proof -
  have "pg_session m p = pg_session (hb_players h) p" for p using assms(2) by (simp add: pg_session_def)
  with assms show ?thesis
    by (simp add: hub_inv_except_def registered_ok_def players_agree_def open_registered_def queues_ok_def)
qed

lemma update_row_ids:
  assumes "update_row db i f t = (e, t')" "\<And>u. u_id (f u) = u_id u"
  shows "u_id ` set t' = u_id ` set t"
proof -
  from update_row_fields [OF assms] have "set (map u_id t') = set (map u_id t)" by (rule arg_cong)
  then show ?thesis by simp
qed

lemma record_login_ok:
  "pg_players (snd (pg_record_login db i at m)) = pg_players m"
  "players_ok m \<Longrightarrow> players_ok (snd (pg_record_login db i at m))"
proof -
  obtain e t where u: "update_row (db ''update_login_info'') i (\<lambda>u. u\<lparr>u_last_online_time := at\<rparr>) (pg_table m) = (e, t)"
    by fastforce
  then have eq: "snd (pg_record_login db i at m) = m\<lparr>pg_table := t\<rparr>"
    by (simp add: pg_record_login_def us_update_login_info_def)
  from eq show "pg_players (snd (pg_record_login db i at m)) = pg_players m" by simp
  assume "players_ok m"
  then show "players_ok (snd (pg_record_login db i at m))"
    using pg_session_ops_inv(3) [of m db i at] update_row_ids [OF u] by (simp add: players_ok_def eq)
qed

lemma persist_ok:
  "pg_players (snd (pg_persist_client_info db i info m)) = pg_players m"
  "players_ok m \<Longrightarrow> players_ok (snd (pg_persist_client_info db i info m))"
proof -
  obtain e t where u: "update_row (db ''update_client_info'') i
      (\<lambda>u. u\<lparr>u_client_version := cl_version info, u_client_platform := cl_platform info,
        u_updater_version := cl_updater info\<rparr>) (pg_table m) = (e, t)" by fastforce
  then have eq: "snd (pg_persist_client_info db i info m) \<in> {m, m\<lparr>pg_table := t\<rparr>}"
    by (auto simp: pg_persist_client_info_def us_update_client_info_def)
  from eq show "pg_players (snd (pg_persist_client_info db i info m)) = pg_players m" by auto
  assume "players_ok m"
  then show "players_ok (snd (pg_persist_client_info db i info m))"
    using pg_session_ops_inv(4) [of m db i info] update_row_ids [OF u] eq by (auto simp: players_ok_def)
qed

lemma bind_client_ok:
  assumes "pg_bind_client p i info m = (old, m')"
  shows "pg_session m' q = (if q = p then Some i else pg_session m q)" "pg_table m' = pg_table m"
    "players_ok m \<Longrightarrow> players_ok m'"
    "old = (if pg_session m p \<noteq> Some i then pg_session m p else None)"
proof -
  show "players_ok m \<Longrightarrow> players_ok m'"
    using pg_session_ops_inv(1) [of m p i info] assms
    by (auto simp: players_ok_def pg_bind_client_def Let_def)
qed (use assms in \<open>auto simp: pg_bind_client_def pg_session_def blank_player_def Let_def split: option.splits if_splits\<close>)

text \<open>The state between binding the new session and closing the one it displaces.\<close>

lemma bound_inv:
  assumes "hub_inv pw h" "i < length (hb_objects h)" "\<not> ss_closed (session_at h i)"
    "ss_player (session_at h i) = 0" "p \<noteq> 0"
    and m: "pg_players m = pg_players (hb_players h)" "players_ok m"
    and bind: "pg_bind_client p i info m = (old, m')"
    and h': "h' = (register_player p i (set_session i ((session_at h i)\<lparr>ss_player := p\<rparr>) h))\<lparr>hb_players := m'\<rparr>"
  shows "hub_inv_except pw old h'" "\<And>j. old = Some j \<Longrightarrow> j < length (hb_objects h')"
    "sessions_grow pw Q h h'"
proof -
  from assms(1) have reg: "registered_ok h" and agree: "players_agree h" and opn: "open_registered None h"
    and qs: "queues_ok pw h" and pl: "players_ok (hb_players h)" by (simp_all add: hub_inv_except_def)
  have sess: "pg_session m q = hb_sessions h q" for q
    using agree m(1) by (simp add: players_agree_def pg_session_def)
  have nr: "hb_sessions h q \<noteq> Some i" for q
    using reg assms(4) unfolding registered_ok_def by metis
  have old: "old = hb_sessions h p" using bind_client_ok(4) [OF bind] nr by (simp add: sess)
  have at: "session_at h' j = (if j = i then (session_at h i)\<lparr>ss_player := p\<rparr> else session_at h j)" for j
    using assms(2) by (simp add: h')
  have hs: "hb_sessions h' = (hb_sessions h)(p \<mapsto> i)" and len: "length (hb_objects h') = length (hb_objects h)"
    and ph: "hb_players h' = m'" by (simp_all add: h' register_player_def)
  show "\<And>j. old = Some j \<Longrightarrow> j < length (hb_objects h')"
    using reg by (auto simp: old len registered_ok_def)
  show "sessions_grow pw Q h h'"
    unfolding sessions_grow_def len queue_of_def at by (auto intro: exI [of _ "[]"])
  have "registered_ok h'"
    unfolding registered_ok_def hs len
  proof (intro allI impI)
    fix q j assume "((hb_sessions h)(p \<mapsto> i)) q = Some j"
    then consider "q = p" "j = i" | "q \<noteq> p" "hb_sessions h q = Some j" by (auto split: if_splits)
    then show "q \<noteq> 0 \<and> j < length (hb_objects h) \<and> ss_player (session_at h' j) = q \<and> \<not> ss_closed (session_at h' j)"
    proof cases
      case 2
      then have "j \<noteq> i" using nr by metis
      with 2 reg show ?thesis by (simp add: at registered_ok_def)
    qed (use assms in \<open>simp add: at\<close>)
  qed
  moreover have "players_agree h'"
    unfolding players_agree_def hs ph by (simp add: bind_client_ok(1) [OF bind] sess)
  moreover have "open_registered old h'"
    unfolding open_registered_def hs len
  proof (intro allI impI)
    fix j assume j: "j < length (hb_objects h)" "\<not> ss_closed (session_at h' j)" "ss_player (session_at h' j) \<noteq> 0"
      "old \<noteq> Some j"
    show "((hb_sessions h)(p \<mapsto> i)) (ss_player (session_at h' j)) = Some j"
    proof (cases "j = i")
      case False
      with j opn have r: "hb_sessions h (ss_player (session_at h j)) = Some j"
        by (simp add: at open_registered_def)
      with j(4) False show ?thesis by (auto simp: at old)
    qed (simp add: at)
  qed
  moreover have "queues_ok pw h'" using qs by (simp add: queues_ok_def len at session_ok_def)
  moreover have "players_ok (hb_players h')" using bind_client_ok(3) [OF bind m(2)] by (simp add: ph)
  ultimately show "hub_inv_except pw old h'" by (simp add: hub_inv_except_def)
qed

lemma hub_close_good:
  assumes "hub_inv_except pw x h" "x = None \<or> x = Some i" "i < length (hb_objects h)"
  shows "\<exists>h'. hub_close pw i h = Some h' \<and> good_change pw h h' \<and> ss_closed (session_at h' i)"
  using hub_close_closes [of "Suc (open_count h)" pw] assms unfolding closes_def by blast

lemma broadcast_hub_good:
  assumes "hub_inv pw h"
  shows "\<exists>h'. broadcast_player_tunnel_states (hub_close pw) pw player skip h = Some h' \<and> good_change pw h h'"
  by (rule broadcast_good [OF hub_close_closes [of "Suc (open_count h)"] assms]) simp

lemma find_by_key_member:
  assumes "us_find_by_key db k us = Inr (Some u)"
  shows "u \<in> set us \<and> u_key u = k"
proof -
  let ?l = "sort_key (\<lambda>u. unat (u_id u)) (filter (\<lambda>u. u_key u = k) us)"
  from assms have "take 2 ?l = [u]" by (auto simp: us_find_by_key_def split: option.splits list.splits)
  then have "u \<in> set ?l" by (metis in_set_takeD list.set_intros(1))
  then show ?thesis by simp
qed

lemma persist_update_inv:
  "hub_inv pw h \<Longrightarrow> hub_inv pw (h\<lparr>hb_players := snd (pg_persist_client_info db p info (hb_players h))\<rparr>)"
  by (rule hub_inv_players) (auto simp: persist_ok hub_inv_except_def)

lemma login_bind_good:
  assumes "hub_inv pw h" "i < length (hb_objects h)" "\<not> ss_closed (session_at h i)"
    "ss_player (session_at h i) = 0" "p \<noteq> 0"
  shows "\<exists>h'. login_bind pw io i p info h = Some h' \<and> hub_inv pw h' \<and> sessions_grow pw is_update h h' \<and>
    tm_tunnels (hb_tunnels h') = tm_tunnels (hb_tunnels h) \<and> ss_player (session_at h' i) = p"
proof -
  define m where "m = snd (pg_record_login (si_db io) p (si_time_text io) (hb_players h))"
  obtain old m' where bind: "pg_bind_client p i info m = (old, m')" by fastforce
  define h1 where "h1 = (register_player p i (set_session i ((session_at h i)\<lparr>ss_player := p\<rparr>) h))\<lparr>hb_players := m'\<rparr>"
  have "players_ok (hb_players h)" using assms(1) by (simp add: hub_inv_except_def)
  then have m: "pg_players m = pg_players (hb_players h)" "players_ok m" by (simp_all add: m_def record_login_ok)
  note b = bound_inv [OF assms m bind h1_def]
  have t1: "hb_tunnels h1 = hb_tunnels h" "ss_player (session_at h1 i) = p"
    using assms(2) by (simp_all add: h1_def) (simp add: register_player_def)
  have lb: "login_bind pw io i p info h =
      map_option (\<lambda>h. h\<lparr>hb_players := snd (pg_persist_client_info (si_db io) p info (hb_players h))\<rparr>)
        (case old of None \<Rightarrow> Some h1 | Some j \<Rightarrow> hub_close pw j h1)"
    using bind by (cases old) (simp_all add: login_bind_def Let_def m_def h1_def register_player_def set_session_def)
  have "\<exists>h2. (case old of None \<Rightarrow> Some h1 | Some j \<Rightarrow> hub_close pw j h1) = Some h2 \<and> good_change pw h1 h2"
  proof (cases old)
    case None
    with b(1) show ?thesis by (simp add: good_change_refl)
  next
    case (Some j)
    with hub_close_good [of pw old h1 j] b(1,2) show ?thesis by auto
  qed
  then obtain h2 where h2: "(case old of None \<Rightarrow> Some h1 | Some j \<Rightarrow> hub_close pw j h1) = Some h2"
    "good_change pw h1 h2" by blast
  let ?h3 = "h2\<lparr>hb_players := snd (pg_persist_client_info (si_db io) p info (hb_players h2))\<rparr>"
  from h2(2) have i2: "hub_inv pw h2" "same_data h1 h2" "sessions_grow pw is_update h1 h2"
    by (simp_all add: good_change_def)
  have "sessions_grow pw is_update h ?h3"
    using sessions_grow_trans [OF b(3) sessions_grow_trans [OF i2(3) sessions_grow_objects [of ?h3 h2]]] by simp
  moreover have "hub_inv pw ?h3" by (rule persist_update_inv [OF i2(1)])
  ultimately show ?thesis using i2(2) t1 by (simp add: lb h2(1) same_data_def)
qed

lemma login_displaces_lemma:
  assumes "hub_inv pw h" "i < length (hb_objects h)" "\<not> ss_closed (session_at h i)"
    "ss_player (session_at h i) = 0" "p \<noteq> 0" "login_bind pw io i p info h = Some h'" "session_for h p = Some j"
  shows "ss_closed (session_at h' j)"
proof -
  define m where "m = snd (pg_record_login (si_db io) p (si_time_text io) (hb_players h))"
  obtain old m' where bind: "pg_bind_client p i info m = (old, m')" by fastforce
  define h1 where "h1 = (register_player p i (set_session i ((session_at h i)\<lparr>ss_player := p\<rparr>) h))\<lparr>hb_players := m'\<rparr>"
  have "players_ok (hb_players h)" using assms(1) by (simp add: hub_inv_except_def)
  then have m: "pg_players m = pg_players (hb_players h)" "players_ok m" by (simp_all add: m_def record_login_ok)
  note b = bound_inv [OF assms(1-5) m bind h1_def]
  have "j \<noteq> i" using session_forD [OF assms(1,7)] assms(4) by auto
  moreover have "pg_session m p = Some j"
    using assms(1,7) m(1) by (simp add: hub_inv_except_def players_agree_def session_for_def pg_session_def)
  ultimately have old: "old = Some j" using bind_client_ok(4) [OF bind] by simp
  have lb: "login_bind pw io i p info h =
      map_option (\<lambda>h. h\<lparr>hb_players := snd (pg_persist_client_info (si_db io) p info (hb_players h))\<rparr>) (hub_close pw j h1)"
    using bind old by (simp add: login_bind_def Let_def m_def h1_def register_player_def set_session_def)
  from hub_close_good [of pw old h1 j] b(1,2) old obtain h2 where
    "hub_close pw j h1 = Some h2" "ss_closed (session_at h2 j)" by auto
  with lb assms(6) show ?thesis by auto
qed

lemma on_login_good:
  assumes "hub_inv pw h" "i < length (hb_objects h)" "\<not> ss_closed (session_at h i) \<or> ss_player (session_at h i) \<noteq> 0"
  shows "\<exists>r h'. on_login pw io i req h = Some (r, h') \<and> hub_inv pw h' \<and> sessions_grow pw is_update h h'"
proof -
  let ?find = "us_find_by_key (si_db io ''find_by_key'') (lr_password req) (pg_table (hb_players h))"
  show ?thesis
  proof (cases "ss_player (session_at h i) = 0 \<and> (\<exists>u. ?find = Inr (Some u))")
    case False
    then show ?thesis using assms(1)
      by (auto simp: on_login_def split: sum.split option.split)
  next
    case True
    then obtain u where p0: "ss_player (session_at h i) = 0" and u: "?find = Inr (Some u)" by blast
    have "u \<in> set (pg_table (hb_players h))" using find_by_key_member [OF u] by simp
    then have "u_id u \<noteq> 0" using assms(1) by (auto simp: hub_inv_except_def players_ok_def image_iff)
    with login_bind_good [OF assms(1,2) _ p0] assms(3) p0
    obtain h1 where h1: "login_bind pw io i (u_id u) \<lparr>cl_version = lr_version req, cl_platform = lr_platform req,
        cl_updater = lr_updater_version req\<rparr> h = Some h1" "hub_inv pw h1" "sessions_grow pw is_update h h1"
      by blast
    define h2 where "h2 = login_upgrades io (u_id u) req h1"
    have h2: "hub_inv pw h2" "hb_objects h2 = hb_objects h1" using h1(2) by (simp_all add: h2_def login_upgrades_def Let_def)
    from broadcast_hub_good [OF h2(1)] obtain h3 where h3: "broadcast_player_tunnel_states (hub_close pw) pw (u_id u) (u_id u) h2 = Some h3"
      "good_change pw h2 h3" by blast
    have "sessions_grow pw is_update h h3"
      using sessions_grow_trans [OF sessions_grow_trans [OF h1(3) sessions_grow_objects [OF h2(2)]]] h3(2)
      by (simp add: good_change_def)
    with h3 show ?thesis using p0 u h1(1) by (simp add: on_login_def Let_def h2_def [symmetric] good_change_def)
  qed
qed

lemma on_register_good:
  assumes "hub_inv pw h"
  shows "hub_inv pw (snd (on_register io req h))" "hb_objects (snd (on_register io req h)) = hb_objects h"
proof -
  obtain res m' where a: "pg_add (si_db io) (si_keys io) (si_ids io) (si_time_text io) (rr_username req)
      (rr_password req) (hb_players h) = (res, m')" by fastforce
  have eq: "snd (on_register io req h) = h\<lparr>hb_players := m'\<rparr>"
    by (simp add: on_register_def a split: add_result.split)
  show "hb_objects (snd (on_register io req h)) = hb_objects h" by (simp add: eq)
  have "players_agree h" "players_ok (hb_players h)" using assms by (simp_all add: hub_inv_except_def)
  then have "\<forall>p. pg_session m' p = pg_session (hb_players h) p" "players_ok m'"
    using pg_add_cases [OF a] pg_add_inv [OF _ a]
    by (auto simp: players_ok_def pg_session_def pg_exists_def blank_player_def)
  then show "hub_inv pw (snd (on_register io req h))" using assms unfolding eq
    by (simp add: hub_inv_except_def registered_ok_def players_agree_def open_registered_def queues_ok_def)
qed

section \<open>What a frame may make the hub send\<close>

text \<open>The proxy message \<open>m0\<close> comes from an end of an enabled tunnel; the session \<open>j\<close> is the registered one of
  the other end, or of the sender itself when the reply says that the other end is away.\<close>

definition routed :: "hub \<Rightarrow> u32 \<Rightarrow> message \<Rightarrow> nat \<Rightarrow> message \<Rightarrow> bool" where
  "routed h player m0 j m \<longleftrightarrow> (\<exists>tunnel i2o t. route_of m0 = Some (tunnel, i2o) \<and>
     tm_get (hb_tunnels h) tunnel = Some t \<and> t_enabled t \<and>
     player = (if i2o then t_receiver t else t_sender t) \<and>
     (m = m0 \<and> hb_sessions h (if i2o then t_sender t else t_receiver t) = Some j \<or>
      offline_reply m0 tunnel = Some m \<and> hb_sessions h player = Some j))"

definition may_be_sent :: "protowire \<Rightarrow> hub \<Rightarrow> nat \<Rightarrow> byte list \<Rightarrow> nat \<Rightarrow> i32 \<Rightarrow> message \<Rightarrow> bool" where
  "may_be_sent pw h i frame j serial m \<longleftrightarrow>
     is_update j serial m \<or>
     j = i \<and> (\<exists>s m0. decode_frame pw frame = Some (Inr (s, m0)) \<and> sint s < 0 \<and> serial = - s) \<or>
     j = i \<and> serial = 0 \<and> (\<exists>c. m = UpgradeChunk c) \<or>
     serial = 0 \<and> ss_player (session_at h i) \<noteq> 0 \<and>
       (\<exists>m0. decode_frame pw frame = Some (Inr (0, m0)) \<and> routed h (ss_player (session_at h i)) m0 j m)"

lemma enqueue_good:
  assumes "hub_inv pw h" "i < length (hb_objects h)" "enqueue pw i serial m h = (e, h')" "Q i serial m"
  shows "hub_inv pw h'" "same_data h h'" "sessions_grow pw Q h h'"
  using enqueue_inv [OF assms(1-3)] enqueue_effect(1,2) [OF assms(1-3), of Q] assms(4) by blast+

lemma handle_offline_good:
  assumes "hub_inv pw h" "handle_offline_proxy pw m tunnel player h = (e, h')"
    "\<And>j r. offline_reply m tunnel = Some r \<Longrightarrow> hb_sessions h player = Some j \<Longrightarrow> Q j 0 r"
  shows "hub_inv pw h' \<and> sessions_grow pw Q h h'"
proof (cases "offline_reply m tunnel = None \<or> player = 0 \<or> session_for h player = None")
  case True
  then show ?thesis using assms(1,2) sessions_grow_objects [of "local_call _ h" h]
    by (auto simp: handle_offline_proxy_def split: option.splits if_splits)
next
  case False
  then obtain r j where r: "offline_reply m tunnel = Some r" "session_for h player = Some j" "player \<noteq> 0" by auto
  with assms(2) have "enqueue pw j 0 r h = (e, h')" by (simp add: handle_offline_proxy_def send_push_def)
  from enqueue_good [OF assms(1) _ this, of Q] session_forD [OF assms(1) r(2)] assms(3) [OF r(1)] r(2) show ?thesis
    by (simp add: session_for_def)
qed

lemma forward_good:
  assumes "hub_inv pw h"
    "\<And>j. hb_sessions h to_player = Some j \<Longrightarrow> Q j 0 m"
    "\<And>j r. offline_reply m tunnel = Some r \<Longrightarrow> hb_sessions h player = Some j \<Longrightarrow> Q j 0 r"
    "\<And>j serial m. is_update j serial m \<Longrightarrow> Q j serial m"
  shows "\<exists>e h'. forward_message pw m tunnel player to_player h = Some (e, h') \<and> hub_inv pw h' \<and> sessions_grow pw Q h h'"
proof (cases "session_for h to_player")
  case None
  show ?thesis
  proof (cases "to_player = 0")
    case True
    with None assms(1) sessions_grow_objects [of "local_call (Handle_PB m) h" h] show ?thesis
      by (auto simp: forward_message_def)
  next
    case False
    obtain e h' where "handle_offline_proxy pw m tunnel player h = (e, h')" by fastforce
    with handle_offline_good [OF assms(1) this, of Q] assms(3) None False show ?thesis
      by (auto simp: forward_message_def)
  qed
next
  case (Some k)
  obtain e h1 where s: "send_push pw k m h = (e, h1)" by fastforce
  note k = session_forD [OF assms(1) Some]
  from Some have "Q k 0 m" by (intro assms(2)) (simp add: session_for_def)
  with enqueue_good [OF assms(1) _ s [unfolded send_push_def], of Q] k
  have g: "hub_inv pw h1" "same_data h h1" "sessions_grow pw Q h h1" by auto
  show ?thesis
  proof (cases e)
    case None
    with g s Some show ?thesis by (simp add: forward_message_def)
  next
    case e: (Some e')
    have "k < length (hb_objects h1)" using k g(3) by (simp add: sessions_grow_def)
    with hub_close_good [OF g(1)] obtain h2 where h2: "hub_close pw k h1 = Some h2" "good_change pw h1 h2" by blast
    then have i2: "hub_inv pw h2" "same_data h1 h2" "sessions_grow pw Q h1 h2"
      using sessions_grow_mono [of pw is_update h1 h2 Q] assms(4) by (auto simp: good_change_def)
    obtain e3 h3 where h3: "handle_offline_proxy pw m tunnel player h2 = (e3, h3)" by fastforce
    have "Q j 0 r" if r: "offline_reply m tunnel = Some r" and j: "hb_sessions h2 player = Some j" for j r
    proof -
      have "hb_sessions h1 player = Some j" using i2(2) j by (auto simp: same_data_def dest: spec [of _ player])
      then have "hb_sessions h player = Some j" using g(2) by (auto simp: same_data_def dest: spec [of _ player])
      with r show ?thesis by (rule assms(3))
    qed
    from handle_offline_good [OF i2(1) h3, of Q] this
    have "hub_inv pw h3" "sessions_grow pw Q h2 h3" by blast+
    with sessions_grow_trans [OF sessions_grow_trans [OF g(3) i2(3)]] show ?thesis
      using s e Some h2(1) h3 by (auto simp: forward_message_def)
  qed
qed

lemma handle_upgrade_status_good:
  assumes "hub_inv pw h" "i < length (hb_objects h)"
    "\<And>c. Q i 0 (UpgradeChunk c)" "\<And>j serial m. is_update j serial m \<Longrightarrow> Q j serial m"
  shows "\<exists>h'. handle_upgrade_status pw io i r h = Some h' \<and> hub_inv pw h' \<and> sessions_grow pw Q h h'"
proof -
  obtain res ups where u: "um_handle_status (si_dg io) (si_clock io 0) (si_artifact io)
      (ss_player (session_at h i)) (Some r) (hb_upgrades h) = (res, ups)" by fastforce
  let ?h1 = "h\<lparr>hb_upgrades := ups\<rparr>"
  have g1: "hub_inv pw ?h1" "i < length (hb_objects ?h1)" "sessions_grow pw Q h ?h1"
    using assms(1,2) by (simp_all add: sessions_grow_objects)
  show ?thesis
  proof (cases "\<exists>c. res = Inr (Some c)")
    case False
    then have "handle_upgrade_status pw io i r h = Some ?h1"
      by (simp add: handle_upgrade_status_def u split: sum.split option.split)
    with g1 show ?thesis by simp
  next
    case True
    then obtain c where c: "res = Inr (Some c)" ..
    obtain e h2 where s: "send_push pw i (UpgradeChunk c) ?h1 = (e, h2)" by fastforce
    note g2 = enqueue_good [OF g1(1,2) s [unfolded send_push_def], of Q, OF assms(3)]
    show ?thesis
    proof (cases e)
      case None
      with c s g2 sessions_grow_trans [OF g1(3)] show ?thesis by (auto simp: handle_upgrade_status_def u Let_def)
    next
      case (Some e')
      let ?h3 = "h2\<lparr>hb_upgrades := um_fail (si_clock io 1) (ss_player (session_at h i)) (us_task_id r)
        (Some (si_session_error io e')) (hb_upgrades h2)\<rparr>"
      have g3: "hub_inv pw ?h3" "i < length (hb_objects ?h3)" "sessions_grow pw Q h2 ?h3"
        using g2 assms(2) by (simp_all add: sessions_grow_objects sessions_grow_def [of pw Q "h\<lparr>hb_upgrades := ups\<rparr>"])
      from hub_close_good [OF g3(1) _ g3(2)] obtain h4 where h4: "hub_close pw i ?h3 = Some h4" "good_change pw ?h3 h4"
        by blast
      then have "hub_inv pw h4" "sessions_grow pw Q ?h3 h4"
        using sessions_grow_mono [of pw is_update ?h3 h4 Q] assms(4) by (auto simp: good_change_def)
      with sessions_grow_trans [OF sessions_grow_trans [OF sessions_grow_trans [OF g1(3) g2(3)] g3(3)]]
      have "hub_inv pw h4" "sessions_grow pw Q h h4" by blast+
      then show ?thesis using c s Some h4(1) by (simp add: handle_upgrade_status_def u Let_def)
    qed
  qed
qed

lemma runtime_report_objects:
  "\<exists>t. handle_tunnel_runtime_report io i r h = h\<lparr>hb_tunnels := t\<rparr>"
  by (auto simp: handle_tunnel_runtime_report_def set_runtime_state_def split: option.split
      intro: exI [of _ "hb_tunnels h"])

lemma route_push:
  "handle_push pw io i m h =
     (if ss_player (session_at h i) = 0 then Some (None, h)
      else case route_of m of
          Some (tunnel, i2o) \<Rightarrow>
            (case tm_get (hb_tunnels h) tunnel of
               None \<Rightarrow> Some (None, h)
             | Some t \<Rightarrow>
                 if \<not> t_enabled t \<or> ss_player (session_at h i) \<noteq> (if i2o then t_receiver t else t_sender t)
                 then Some (None, h)
                 else forward_message pw m tunnel (ss_player (session_at h i))
                   (if i2o then t_sender t else t_receiver t) h)
        | None \<Rightarrow>
            (case m of
               TunnelRuntimeReport r \<Rightarrow> Some (None, handle_tunnel_runtime_report io i r h)
             | UpgradeStatusReport r \<Rightarrow> map_option (Pair None) (handle_upgrade_status pw io i r h)
             | _ \<Rightarrow> Some (None, h)))"
  by (cases m) (auto simp: handle_push_def resolve_route_def route_of_def Let_def split: option.split)

lemma handle_push_good:
  assumes "hub_inv pw h" "i < length (hb_objects h)" "decode_frame pw frame = Some (Inr (0, m))"
  shows "\<exists>e h'. handle_push pw io i m h = Some (e, h') \<and> hub_inv pw h' \<and>
    sessions_grow pw (may_be_sent pw h i frame) h h'"
proof (cases "ss_player (session_at h i) = 0")
  case True
  with assms(1) show ?thesis by (simp add: handle_push_def)
next
  case logged_in: False
  let ?p = "ss_player (session_at h i)"
  have upd: "is_update j serial m' \<Longrightarrow> may_be_sent pw h i frame j serial m'" for j serial m'
    by (simp add: may_be_sent_def)
  show ?thesis
  proof (cases "route_of m")
    case None
    consider r where "m = TunnelRuntimeReport r" | r where "m = UpgradeStatusReport r"
      | "\<forall>r. m \<noteq> TunnelRuntimeReport r" "\<forall>r. m \<noteq> UpgradeStatusReport r" by blast
    then show ?thesis
    proof cases
      case (1 r)
      obtain t where "handle_tunnel_runtime_report io i r h = h\<lparr>hb_tunnels := t\<rparr>"
        using runtime_report_objects by blast
      with 1 logged_in assms(1) sessions_grow_objects [of "h\<lparr>hb_tunnels := t\<rparr>" h] show ?thesis
        by (simp add: handle_push_def)
    next
      case (2 r)
      have "may_be_sent pw h i frame i 0 (UpgradeChunk c)" for c by (auto simp: may_be_sent_def)
      from handle_upgrade_status_good [OF assms(1,2), of "may_be_sent pw h i frame", OF this upd, of io r]
        2 logged_in show ?thesis
        by (auto simp: handle_push_def)
    next
      case 3
      with None logged_in assms(1) show ?thesis by (cases m) (auto simp: route_push)
    qed
  next
    case (Some r)
    obtain tunnel i2o where r: "route_of m = Some (tunnel, i2o)" using Some by (cases r) simp
    show ?thesis
    proof (cases "\<exists>t. tm_get (hb_tunnels h) tunnel = Some t \<and> t_enabled t \<and>
        ?p = (if i2o then t_receiver t else t_sender t)")
      case False
      then have "handle_push pw io i m h = Some (None, h)"
        using logged_in r by (auto simp: route_push split: option.split)
      with assms(1) show ?thesis by simp
    next
      case True
      then obtain t where t: "tm_get (hb_tunnels h) tunnel = Some t" "t_enabled t"
        "?p = (if i2o then t_receiver t else t_sender t)" by blast
      let ?to = "if i2o then t_sender t else t_receiver t"
      have "handle_push pw io i m h = forward_message pw m tunnel ?p ?to h"
        using logged_in r t by (simp add: route_push)
      moreover have "may_be_sent pw h i frame j 0 m" if "hb_sessions h ?to = Some j" for j
        unfolding may_be_sent_def routed_def using that logged_in assms(3) r t by blast
      moreover have "may_be_sent pw h i frame j 0 q"
        if "offline_reply m tunnel = Some q" "hb_sessions h ?p = Some j" for j q
        unfolding may_be_sent_def routed_def using that logged_in assms(3) r t by blast
      ultimately show ?thesis using forward_good [OF assms(1), of ?to "may_be_sent pw h i frame" m tunnel ?p] upd
        by metis
    qed
  qed
qed

lemma handle_request_good:
  assumes "hub_inv pw h" "i < length (hb_objects h)" "\<not> ss_closed (session_at h i) \<or> ss_player (session_at h i) \<noteq> 0"
  shows "\<exists>r h'. handle_request pw io i m h = Some (r, h') \<and> hub_inv pw h' \<and> sessions_grow pw is_update h h'"
proof -
  consider q where "m = LoginReq q" | q where "m = RegisterReq q" | p where "m = Ping p"
    | "\<forall>q. m \<noteq> LoginReq q" "\<forall>q. m \<noteq> RegisterReq q" "\<forall>q. m \<noteq> Ping q" by blast
  then show ?thesis
  proof cases
    case (1 q)
    with on_login_good [OF assms, of io q] show ?thesis by (simp add: handle_request_def)
  next
    case (2 q)
    with on_register_good [OF assms(1), of io q] sessions_grow_objects [of "snd (on_register io q h)" h]
    show ?thesis by (cases "on_register io q h") (simp add: handle_request_def)
  next
    case (3 p)
    with assms(1) show ?thesis by (simp add: handle_request_def)
  next
    case 4
    with assms(1) show ?thesis by (cases m) (simp_all add: handle_request_def)
  qed
qed

lemma decode_frame_not_None: "protowire_laws pw \<Longrightarrow> decode_frame pw frame \<noteq> None"
  using protowire_laws.decode_not_None by (auto simp: decode_frame_def Let_def)

lemma handle_frame_good:
  assumes laws: "protowire_laws pw" and inv: "hub_inv pw h" and i: "i < length (hb_objects h)"
    and live: "\<not> ss_closed (session_at h i) \<or> ss_player (session_at h i) \<noteq> 0"
  shows "\<exists>e h'. handle_frame pw io i frame h = Some (e, h') \<and> hub_inv pw h' \<and>
    sessions_grow pw (may_be_sent pw h i frame) h h'"
proof (cases "\<exists>serial m. decode_frame pw frame = Some (Inr (serial, m))")
  case False
  then obtain e where "decode_frame pw frame = Some (Inl e)"
    using decode_frame_not_None [OF laws, of frame] by (cases "decode_frame pw frame") (auto split: sum.splits, metis sum.exhaust surj_pair)
  with inv show ?thesis by (simp add: handle_frame_def)
next
  case True
  then obtain serial m where d: "decode_frame pw frame = Some (Inr (serial, m))" by blast
  consider "sint serial < 0" | "serial = 0" | "\<not> sint serial < 0" "serial \<noteq> 0" by blast
  then show ?thesis
  proof cases
    case 1
    obtain r h1 where h1: "handle_request pw io i m h = Some (r, h1)" "hub_inv pw h1" "sessions_grow pw is_update h h1"
      using handle_request_good [OF inv i live] by blast
    obtain e h2 where h2: "enqueue pw i (- serial) r h1 = (e, h2)" by fastforce
    have "may_be_sent pw h i frame i (- serial) r" using d 1 by (auto simp: may_be_sent_def)
    moreover have "i < length (hb_objects h1)" using i h1(3) by (simp add: sessions_grow_def)
    ultimately have g: "hub_inv pw h2" "sessions_grow pw (may_be_sent pw h i frame) h1 h2"
      using enqueue_good [OF h1(2) _ h2, of "may_be_sent pw h i frame"] by blast+
    have "sessions_grow pw (may_be_sent pw h i frame) h h1"
      by (rule sessions_grow_mono [OF h1(3)]) (simp add: may_be_sent_def)
    from sessions_grow_trans [OF this g(2)] g(1) 1 d h1(1) h2 show ?thesis by (simp add: handle_frame_def)
  next
    case 2
    with handle_push_good [OF inv i, of frame m io] d show ?thesis by (simp add: handle_frame_def)
  next
    case 3
    with d inv show ?thesis by (simp add: handle_frame_def)
  qed
qed

end
