(* ===== verification/Server_Run.thy ===== *)
theory Server_Run
  imports Server_Session Session_Common Std_Wire
begin

text \<open>
  Runs of the server: every event that changes the hub, in any order - connections, frames, the write
  loops, closing, the web handlers' changes to players, tunnels and upgrades, and what the server's own
  proxy manager sends and reports.

  One event is left out: a session closed before it logged in handles no further frame.  The code lets
  it (its read loop goes on over what is already in its cache); \<open>closed_session_login\<close> shows what then
  happens.
\<close>

section \<open>The tunnel manager with the hub as its notifier\<close>

definition hub_apply_notices :: "protowire \<Rightarrow> tunnel_manager \<Rightarrow> hub \<Rightarrow> hub option" where
  "hub_apply_notices pw m h =
     fold_option (hub_broadcast_tunnel pw) (tm_notices m) (h\<lparr>hb_tunnels := m\<lparr>tm_notices := []\<rparr>\<rparr>)"

definition hub_add_tunnel ::
  "protowire \<Rightarrow> string + u32 \<Rightarrow> tunnel \<Rightarrow> hub \<Rightarrow> ((tunnel_error + tunnel) \<times> hub) option" where
  "hub_add_tunnel pw inserted t h =
     (case tm_add (pg_exists (hb_players h)) inserted t (hb_tunnels h) of
        (r, m) \<Rightarrow> map_option (Pair r) (hub_apply_notices pw m h))"

definition hub_update_tunnel ::
  "protowire \<Rightarrow> string option \<Rightarrow> tunnel \<Rightarrow> hub \<Rightarrow> (tunnel_error option \<times> hub) option" where
  "hub_update_tunnel pw stored t h =
     (case tm_update (pg_exists (hb_players h)) stored t (hb_tunnels h) of
        (r, m) \<Rightarrow> map_option (Pair r) (hub_apply_notices pw m h))"

definition hub_delete_tunnel ::
  "protowire \<Rightarrow> string option \<Rightarrow> u32 \<Rightarrow> hub \<Rightarrow> (tunnel_error option \<times> hub) option" where
  "hub_delete_tunnel pw stored i h =
     (case tm_delete stored i (hb_tunnels h) of
        (r, m) \<Rightarrow> map_option (Pair r) (hub_apply_notices pw m h))"

text \<open>\<open>PlayerManager.Delete\<close> closes the session it finds.\<close>

definition hub_delete_player :: "protowire \<Rightarrow> db_faults \<Rightarrow> u32 \<Rightarrow> hub \<Rightarrow> (player_error option \<times> hub) option" where
  "hub_delete_player pw db p h =
     (case pg_delete db p (hb_players h) of
        ((e, session), m) \<Rightarrow>
          map_option (Pair e)
            (case session of
               None \<Rightarrow> Some (h\<lparr>hb_players := m\<rparr>)
             | Some i \<Rightarrow> hub_close pw i (h\<lparr>hb_players := m\<rparr>)))"

section \<open>Runs\<close>

inductive hub_run :: "protowire \<Rightarrow> hub \<Rightarrow> bool" for pw where
  start: "table_ok t \<Longrightarrow> 0 \<notin> u_id ` set t \<Longrightarrow> \<forall>u \<in> set t. is_valid_player_key (u_key u) \<Longrightarrow>
     pg_load_all db \<lparr>pg_players = Map.empty, pg_table = t\<rparr> = (None, players) \<Longrightarrow>
     hub_run pw (set_runtime players tunnels)"
| accept: "hub_run pw h \<Longrightarrow> new_session h = (i, h') \<Longrightarrow> hub_run pw h'"
| frame: "hub_run pw h \<Longrightarrow> i < length (hb_objects h) \<Longrightarrow>
     \<not> ss_closed (session_at h i) \<or> ss_player (session_at h i) \<noteq> 0 \<Longrightarrow>
     handle_frame pw io i f h = Some (e, h') \<Longrightarrow> hub_run pw h'"
| written: "hub_run pw h \<Longrightarrow> i < length (hb_objects h) \<Longrightarrow>
     write_queue_pop (ss_queue (session_at h i)) = Some (d, q) \<Longrightarrow>
     hub_run pw (set_session i ((session_at h i)\<lparr>ss_queue := q\<rparr>) h)"
| close: "hub_run pw h \<Longrightarrow> i < length (hb_objects h) \<Longrightarrow> hub_close pw i h = Some h' \<Longrightarrow> hub_run pw h'"
| offer: "hub_run pw h \<Longrightarrow> delayed_offer pw io i p h = Some h' \<Longrightarrow> hub_run pw h'"
| push_offer: "hub_run pw h \<Longrightarrow> pg_session (hb_players h) p = Some i \<Longrightarrow>
     send_push pw i (UpgradeOffer offer) h = (e, h') \<Longrightarrow> hub_run pw h'"
| remote: "hub_run pw h \<Longrightarrow> hub_send_remote pw p m h = (ok, h') \<Longrightarrow> hub_run pw h'"
| report: "hub_run pw h \<Longrightarrow> hub_run pw (hub_runtime_report now tunnel component running err h)"
| upgrades: "hub_run pw h \<Longrightarrow> hub_run pw (h\<lparr>hb_upgrades := ups\<rparr>)"
| add_tunnel: "hub_run pw h \<Longrightarrow> hub_add_tunnel pw inserted tun h = Some (r, h') \<Longrightarrow> hub_run pw h'"
| update_tunnel: "hub_run pw h \<Longrightarrow> hub_update_tunnel pw stored tun h = Some (s, h') \<Longrightarrow> hub_run pw h'"
| delete_tunnel: "hub_run pw h \<Longrightarrow> hub_delete_tunnel pw stored i h = Some (s, h') \<Longrightarrow> hub_run pw h'"
| add_player: "hub_run pw h \<Longrightarrow> hub_run pw (snd (on_register io req h))"
| update_player: "hub_run pw h \<Longrightarrow> pg_update db up (hb_players h) = (x, m) \<Longrightarrow> hub_run pw (h\<lparr>hb_players := m\<rparr>)"
| delete_player: "hub_run pw h \<Longrightarrow> hub_delete_player pw db p h = Some (x, h') \<Longrightarrow> hub_run pw h'"

lemma write_queue_pop_ok:
  assumes "session_ok pw s" "write_queue_pop (ss_queue s) = Some (d, q)"
  shows "session_ok pw (s\<lparr>ss_queue := q\<rparr>)"
proof -
  from assms(1) have inv: "ring_inv (ss_queue s)" by (simp add: session_ok_def)
  have "ring_inv q \<and> rg_closed q = rg_closed (ss_queue s) \<and> set (ring_contents q) \<subseteq> set (ring_contents (ss_queue s))"
  proof (cases "rg_size (ss_queue s) = 0")
    case True
    with assms(2) inv show ?thesis by (auto simp: write_queue_pop_def split: if_splits)
  next
    case False
    with assms(2) have q: "q = (ss_queue s)\<lparr>rg_items := (rg_items (ss_queue s))[rg_head (ss_queue s) := None],
        rg_head := (rg_head (ss_queue s) + 1) mod rg_max (ss_queue s), rg_size := rg_size (ss_queue s) - 1\<rparr>"
      by (auto simp: write_queue_pop_def Let_def)
    have "set (ring_contents q) \<subseteq> set (ring_contents (ss_queue s))"
      unfolding q ring_contents_pop [OF inv False] by auto
    then show ?thesis using ring_inv_ops(2) [OF inv] by (auto simp: q)
  qed
  with assms(1) show ?thesis by (auto simp: session_ok_def)
qed

lemma new_session_inv:
  assumes "hub_inv pw h" "new_session h = (i, h')"
  shows "hub_inv pw h'"
proof -
  from assms(2) have h': "h' = h\<lparr>hb_next_id := hb_next_id h + 1, hb_objects := hb_objects h @
      [\<lparr>ss_id = hb_next_id h + 1, ss_player = 0, ss_queue = new_write_queue, ss_closed = False\<rparr>]\<rparr>"
    by (simp add: new_session_def Let_def)
  have at: "session_at h' j = (if j < length (hb_objects h) then session_at h j
      else [\<lparr>ss_id = hb_next_id h + 1, ss_player = 0, ss_queue = new_write_queue, ss_closed = False\<rparr>] !
        (j - length (hb_objects h)))" for j
    by (simp add: h' session_at_def nth_append)
  have "ring_inv new_write_queue" "ring_contents new_write_queue = []" "\<not> rg_closed new_write_queue"
    by (rule new_queues_ok)+
  then have new: "session_ok pw \<lparr>ss_id = k, ss_player = 0, ss_queue = new_write_queue, ss_closed = False\<rparr>" for k
    by (simp add: session_ok_def)
  from assms(1) have reg: "registered_ok h" "players_agree h" "open_registered None h" "queues_ok pw h"
    "players_ok (hb_players h)" by (simp_all add: hub_inv_except_def)
  have "registered_ok h'"
    unfolding registered_ok_def
  proof (intro allI impI)
    fix p k assume "hb_sessions h' p = Some k"
    then have "hb_sessions h p = Some k" by (simp add: h')
    with reg(1) have "p \<noteq> 0" "k < length (hb_objects h)" "ss_player (session_at h k) = p" "\<not> ss_closed (session_at h k)"
      unfolding registered_ok_def by blast+
    then show "p \<noteq> 0 \<and> k < length (hb_objects h') \<and> ss_player (session_at h' k) = p \<and> \<not> ss_closed (session_at h' k)"
      unfolding at by (simp add: h')
  qed
  moreover have "open_registered None h'"
    using reg(3) unfolding open_registered_def at by (auto simp: h' less_Suc_eq)
  moreover have "queues_ok pw h'"
    using reg(4) new unfolding queues_ok_def at by (auto simp: h' less_Suc_eq)
  ultimately show ?thesis using reg by (simp add: hub_inv_except_def players_agree_def h')
qed

lemma load_sessions: "pg_load_all db \<lparr>pg_players = Map.empty, pg_table = t\<rparr> = (None, m) \<Longrightarrow>
    pg_table m = t \<and> (\<forall>p. pg_session m p = None)"
proof -
  assume a: "pg_load_all db \<lparr>pg_players = Map.empty, pg_table = t\<rparr> = (None, m)"
  then have m: "m = \<lparr>pg_players = fold (\<lambda>u f. f(u_id u \<mapsto> \<lparr>pl_online = False, pl_session = None,
      pl_version = u_client_version u, pl_platform = u_client_platform u, pl_updater = u_updater_version u\<rparr>))
      (newest_first t) Map.empty, pg_table = t\<rparr>"
    by (simp add: pg_load_all_def us_find_all_def split: option.splits)
  have "\<forall>i p. pg_players m i = Some p \<longrightarrow> pl_session p = None"
    unfolding m by (simp, rule fold_upd_ran) simp_all
  then show ?thesis by (auto simp: m pg_session_def split: option.split)
qed

lemma start_inv:
  assumes "table_ok t" "0 \<notin> u_id ` set t" "\<forall>u \<in> set t. is_valid_player_key (u_key u)"
    "pg_load_all db \<lparr>pg_players = Map.empty, pg_table = t\<rparr> = (None, players)"
  shows "hub_inv pw (set_runtime players tunnels)"
  using pg_load_inv [OF assms(1,3,4)] load_sessions [OF assms(4)] assms(2)
  by (simp add: set_runtime_def Let_def hub_inv_except_def registered_ok_def players_agree_def
      open_registered_def queues_ok_def players_ok_def)

lemma broadcast_notice_good:
  assumes "hub_inv pw h"
  shows "\<exists>h'. hub_broadcast_tunnel pw n h = Some h' \<and> good_change pw h h'"
proof -
  obtain p t d where n: "n = (p, t, d)" by (cases n)
  show ?thesis
  proof (cases "p = 0")
    case True
    with assms show ?thesis
      using sync_server_effect(1) [of pw None "runtime_tunnel_update h t d" h]
        sync_server_effect(2) [of h "runtime_tunnel_update h t d"]
        sync_server_effect(3) [of pw is_update h "runtime_tunnel_update h t d"]
      by (auto simp: hub_broadcast_tunnel_def n Let_def good_change_def)
  next
    case False
    with push_tunnel_update_good [OF hub_close_closes assms lessI] show ?thesis
      by (simp add: hub_broadcast_tunnel_def n Let_def)
  qed
qed

lemma apply_notices_good:
  assumes "hub_inv pw h"
  shows "\<exists>h'. hub_apply_notices pw m h = Some h' \<and> hub_inv pw h' \<and> sessions_grow pw is_update h h'"
proof -
  let ?h = "h\<lparr>hb_tunnels := m\<lparr>tm_notices := []\<rparr>\<rparr>"
  have i: "hub_inv pw ?h" using assms by simp
  obtain h' where "hub_apply_notices pw m h = Some h'" "good_change pw ?h h'"
    using fold_option_good [OF _ i lessI, of "hub_broadcast_tunnel pw" "tm_notices m"] broadcast_notice_good
    by (auto simp: hub_apply_notices_def)
  moreover have "sessions_grow pw is_update h ?h" by (simp add: sessions_grow_objects)
  ultimately show ?thesis using sessions_grow_trans by (fastforce simp: good_change_def)
qed

lemma notices_inv: "hub_inv pw h \<Longrightarrow> hub_apply_notices pw m h = Some h' \<Longrightarrow> hub_inv pw h'"
  using apply_notices_good [of pw h m] by auto

lemma tunnel_ops_good:
  assumes "hub_inv pw h"
  shows "hub_add_tunnel pw inserted t h = Some (r, h') \<Longrightarrow> hub_inv pw h'"
    "hub_update_tunnel pw stored t h = Some (s, h') \<Longrightarrow> hub_inv pw h'"
    "hub_delete_tunnel pw stored i h = Some (s, h') \<Longrightarrow> hub_inv pw h'"
  by (auto simp: hub_add_tunnel_def hub_update_tunnel_def hub_delete_tunnel_def
      split: prod.splits intro: notices_inv [OF assms])

lemma offline_no_session: "pg_inv m \<Longrightarrow> \<not> pg_is_online m p \<Longrightarrow> pg_session m p = None"
  by (auto simp: pg_inv_def pg_is_online_def pg_session_def split: option.splits)

lemma delete_player_good:
  assumes inv: "hub_inv pw h" and del: "hub_delete_player pw db p h = Some (x, h')"
  shows "hub_inv pw h'"
proof -
  from inv have ag: "players_agree h" and pl: "players_ok (hb_players h)" and pg: "pg_inv (hb_players h)"
    by (simp_all add: hub_inv_except_def players_ok_def)
  obtain e s m where d: "pg_delete db p (hb_players h) = ((e, s), m)" by (metis surj_pair)
  have s: "s = None" "\<forall>q. pg_session m q = pg_session (hb_players h) q"
    "u_id ` set (pg_table m) \<subseteq> u_id ` set (pg_table (hb_players h))"
    using d offline_no_session [OF pg, of p]
    by (auto simp: pg_delete_def us_delete_def Let_def pg_session_def split: if_splits option.splits)
  from del s(1) have "h' = h\<lparr>hb_players := m\<rparr>" by (simp add: hub_delete_player_def d)
  moreover have "players_ok m" using pg_delete_inv [OF pg d] pl s(3) by (auto simp: players_ok_def)
  ultimately show ?thesis using inv s(2)
    by (simp add: hub_inv_except_def registered_ok_def players_agree_def open_registered_def queues_ok_def)
qed

lemma update_player_good:
  assumes inv: "hub_inv pw h" and up: "pg_update db up (hb_players h) = (x, m)"
  shows "hub_inv pw (h\<lparr>hb_players := m\<rparr>)"
proof (rule hub_inv_players [OF inv])
  from inv have pg: "pg_inv (hb_players h)" and ids: "0 \<notin> u_id ` set (pg_table (hb_players h))"
    by (simp_all add: hub_inv_except_def players_ok_def)
  have "u_id ` set (map (\<lambda>u. if u_id u = j then u\<lparr>u_remark := a, u_key := b\<rparr> else u) t) = u_id ` set t" for j a b t
    by (induction t) auto
  with pg_update_cases [OF pg up] have "pg_players m = pg_players (hb_players h) \<and>
      u_id ` set (pg_table m) = u_id ` set (pg_table (hb_players h))"
    by (elim disjE exE conjE) (simp_all only: table_update simp_thms)
  with pg_update_inv [OF pg up] ids show "pg_players m = pg_players (hb_players h)" "players_ok m"
    by (simp_all add: players_ok_def)
qed

lemma delayed_offer_good:
  assumes inv: "hub_inv pw h"
  shows "\<exists>h'. delayed_offer pw io i p h = Some h' \<and> hub_inv pw h'"
proof (cases "pg_session (hb_players h) p = Some i")
  case False
  with inv show ?thesis by (simp add: delayed_offer_def)
next
  case True
  obtain off ups where u: "um_offer (si_clock io 0) p (hb_upgrades h) = (off, ups)" by fastforce
  have "session_for h p = Some i" using inv True by (auto simp: hub_inv_except_def players_agree_def session_for_def)
  note i = session_forD [OF inv this]
  show ?thesis
  proof (cases off)
    case None
    with True u inv show ?thesis by (simp add: delayed_offer_def)
  next
    case (Some f)
    obtain e h1 where s: "send_push pw i (UpgradeOffer f) (h\<lparr>hb_upgrades := ups\<rparr>) = (e, h1)" by fastforce
    have g: "hub_inv pw h1" "sessions_grow pw (\<lambda>_ _ _. True) (h\<lparr>hb_upgrades := ups\<rparr>) h1"
      using enqueue_good [OF _ _ s [unfolded send_push_def], of "\<lambda>_ _ _. True"] inv i by simp_all
    have "i < length (hb_objects h1)" using g(2) i by (simp add: sessions_grow_def)
    with hub_close_good [OF g(1)] obtain h2 where "hub_close pw i h1 = Some h2" "good_change pw h1 h2" by blast
    with True u Some s g show ?thesis by (cases e) (simp_all add: delayed_offer_def good_change_def)
  qed
qed

lemma send_remote_good:
  assumes inv: "hub_inv pw h" and s: "hub_send_remote pw p m h = (ok, h')"
  shows "hub_inv pw h'"
proof (cases "session_for h p")
  case None
  with assms show ?thesis by (simp add: hub_send_remote_def)
next
  case (Some i)
  obtain e h1 where "enqueue pw i 0 m h = (e, h1)" by fastforce
  with enqueue_good [OF inv _ this, of "\<lambda>_ _ _. True"] session_forD [OF inv Some] s Some show ?thesis
    by (simp add: hub_send_remote_def send_push_def)
qed

lemma hub_run_inv:
  assumes "protowire_laws pw" "hub_run pw h"
  shows "hub_inv pw h"
  using assms(2)
proof induction
  case (start t db players tunnels)
  then show ?case by (rule start_inv)
next
  case (frame h i io f e h')
  from handle_frame_good [OF assms(1) frame.IH frame.hyps(2,3), of io f] frame.hyps(4) show ?case by auto
next
  case (written h i d q)
  have "session_ok pw (session_at h i)" using written by (simp add: hub_inv_except_def queues_ok_def)
  from write_queue_pop_ok [OF this written.hyps(3)]
  have "queues_ok pw (set_session i ((session_at h i)\<lparr>ss_queue := q\<rparr>) h)"
    using written.IH by (simp add: hub_inv_except_def queues_ok_def)
  from hub_inv_queues [OF written.IH _ _ _ _ _ this] show ?case by simp
next
  case (close h i h')
  from hub_close_good [OF close.IH _ close.hyps(2)] close.hyps(3) show ?case by (auto simp: good_change_def)
next
  case (offer h io i p h')
  from delayed_offer_good [OF offer.IH, of io i p] offer.hyps(2) show ?case by auto
next
  case (push_offer h p i offer e h')
  have "session_for h p = Some i" using push_offer by (auto simp: hub_inv_except_def players_agree_def session_for_def)
  from enqueue_good [OF push_offer.IH _ push_offer.hyps(3) [unfolded send_push_def], of "\<lambda>_ _ _. True"]
    session_forD [OF push_offer.IH this] show ?case by simp
next
  case (report h now tunnel component running err)
  then show ?case by (simp add: hub_runtime_report_def set_runtime_state_def)
next
  case (accept h i h')
  then show ?case by (auto intro: new_session_inv)
next
  case (remote h p m ok h')
  then show ?case by (auto intro: send_remote_good)
next
  case (upgrades h ups)
  then show ?case by simp
next
  case (add_tunnel h inserted tun r h')
  then show ?case by (auto intro: tunnel_ops_good)
next
  case (update_tunnel h stored tun s h')
  then show ?case by (auto intro: tunnel_ops_good)
next
  case (delete_tunnel h stored i s h')
  then show ?case by (auto intro: tunnel_ops_good)
next
  case (add_player h io req)
  then show ?case by (auto intro: on_register_good)
next
  case (update_player h db up x m)
  then show ?case by (auto intro: update_player_good)
next
  case (delete_player h db p x h')
  then show ?case by (auto intro: delete_player_good)
qed

section \<open>A run for the examples\<close>

text \<open>Two players and a tunnel between them; two connections, the first of which logs in as the player
  with the inlet.\<close>

definition packet :: "i32 \<Rightarrow> message \<Rightarrow> byte list" where
  "packet serial m = projr (encode_frame std_wire serial m)"

lemma encode_frame_maps: "protowire_laws pw \<Longrightarrow> message_maps m \<Longrightarrow> \<exists>y. encode_frame pw serial m = Inr y"
  using protowire_laws.decode_encode [of pw m]
  by (cases m) (auto simp: encode_frame_def message_id_def Let_def)

lemma encode_packet: "message_maps m \<Longrightarrow> encode_frame std_wire serial m = Inr (packet serial m)"
  using encode_frame_maps [OF std_wire_laws, of m serial] by (auto simp: packet_def)

lemma decode_packet:
  "message_maps m \<Longrightarrow> decode_frame std_wire (frame_body (packet serial m)) = Some (Inr (serial, wire_message m))"
  by (rule decode_frame_body [OF encode_packet std_wire_laws])

definition sample_user :: "u32 \<Rightarrow> string \<Rightarrow> string \<Rightarrow> user" where
  "sample_user i r k = \<lparr>u_id = i, u_remark = r, u_key = k, u_create_time = ''t'', u_last_online_time = ''t'',
     u_client_version = '''', u_client_platform = '''', u_updater_version = 0\<rparr>"

definition sample_table :: user_table where
  "sample_table = [sample_user 7 ''home'' ''k7'', sample_user 8 ''office'' ''k8'']"

definition sample_io :: server_io where
  "sample_io = \<lparr>si_dg = \<lparr>dg_sha256 = (\<lambda>x. x), dg_hmac = (\<lambda>k x. x), dg_lower = (\<lambda>x. x)\<rparr>, si_db = (\<lambda>_. None),
     si_clock = (\<lambda>_. 0), si_time_text = ''t'', si_artifact = None, si_keys = [], si_ids = [],
     si_player_error = (\<lambda>_. ''''), si_session_error = (\<lambda>_. '''')\<rparr>"

definition sample_link :: tunnel where
  "sample_link = \<lparr>t_id = 1, t_source = ''0.0.0.0:80'', t_endpoint = ''10.0.0.1:80'', t_enabled = True,
     t_sender = 8, t_receiver = 7, t_description = '''', t_tunnel_type = 0, t_password = '''', t_username = '''',
     t_is_compressed = False, t_custom_mapping = [], t_encryption_method = ''''\<rparr>"

definition sample_tunnels :: tunnel_manager where
  "sample_tunnels = \<lparr>tm_tunnels = [sample_link], tm_lookup = [1 \<mapsto> sample_link],
     tm_runtime = Some new_tunnel_runtime_store, tm_has_notifier = True, tm_notices = []\<rparr>"

definition sample_req :: login_req where
  "sample_req = \<lparr>lr_version = '''', lr_username = '''', lr_password = ''k7'', lr_platform = '''',
     lr_updater_version = 0, lr_upgrade_task_id = '''', lr_upgrade_state = '''', lr_upgrade_error = ''''\<rparr>"

definition sample_ack :: message where
  "sample_ack = LoginAck \<lparr>la_player_id = 7, la_tunnel_list =
     [\<lparr>pt_source = Some \<lparr>tp_addr = ''0.0.0.0:80''\<rparr>, pt_endpoint = Some \<lparr>tp_addr = ''10.0.0.1:80''\<rparr>, pt_id = 1,
       pt_enabled = False, pt_sender = 8, pt_receiver = 7, pt_tunnel_type = 0, pt_password = '''', pt_username = '''',
       pt_is_compressed = False, pt_encryption_method = '''', pt_custom_mapping = []\<rparr>],
     la_supports_runtime_report = True\<rparr>"

definition sample_hub :: "server_session list \<Rightarrow> (u32 \<rightharpoonup> nat) \<Rightarrow> (u32 \<rightharpoonup> player_state) \<Rightarrow> hub" where
  "sample_hub objects sessions players =
     \<lparr>hb_next_id = 1 + of_nat (length objects), hb_objects = objects, hb_sessions = sessions,
      hb_players = \<lparr>pg_players = players, pg_table = sample_table\<rparr>, hb_tunnels = sample_tunnels,
      hb_upgrades = Map.empty, hb_local = [Sync_Tunnels []]\<rparr>"

definition fresh_session :: "u32 \<Rightarrow> server_session" where
  "fresh_session i = \<lparr>ss_id = i, ss_player = 0, ss_queue = new_write_queue, ss_closed = False\<rparr>"

definition online_player :: player_state where
  "online_player = blank_player\<lparr>pl_online := True, pl_session := Some 0\<rparr>"

definition sample_queue :: "byte list ring" where
  "sample_queue = snd (write_queue_push (packet 1 sample_ack) new_write_queue)"

definition sample_accepted :: hub where
  "sample_accepted = sample_hub [fresh_session 2, fresh_session 3] Map.empty [8 \<mapsto> blank_player, 7 \<mapsto> blank_player]"

definition sample_logged_in :: hub where
  "sample_logged_in = sample_hub [(fresh_session 2)\<lparr>ss_player := 7, ss_queue := sample_queue\<rparr>, fresh_session 3]
     [7 \<mapsto> 0] [8 \<mapsto> blank_player, 7 \<mapsto> online_player]"

lemmas sample_defs = sample_hub_def sample_tunnels_def sample_link_def sample_table_def sample_user_def
  sample_io_def sample_req_def fresh_session_def online_player_def blank_player_def

lemma sample_accepted_run: "hub_run pw sample_accepted"
proof -
  let ?s = "set_runtime \<lparr>pg_players = [8 \<mapsto> blank_player, 7 \<mapsto> blank_player], pg_table = sample_table\<rparr> sample_tunnels"
  have "hub_run pw ?s"
    by (rule hub_run.start [of sample_table "\<lambda>_. None"])
      (simp_all add: sample_defs table_ok_def is_valid_player_key_def is_ascii_no_space_def contains_char_def pg_load_all_def
        us_find_all_def newest_first_def byte_in_def)
  moreover have "new_session ?s = (0, sample_hub [fresh_session 2] Map.empty [8 \<mapsto> blank_player, 7 \<mapsto> blank_player])"
    by (simp add: new_session_def set_runtime_def sample_defs local_call_def tm_all_def new_upgrade_manager_def Let_def)
  moreover have "new_session (sample_hub [fresh_session 2] Map.empty [8 \<mapsto> blank_player, 7 \<mapsto> blank_player]) =
      (1, sample_accepted)"
    by (simp add: new_session_def sample_accepted_def sample_defs Let_def)
  ultimately show ?thesis by (meson hub_run.accept)
qed

lemma bex_filter: "(\<exists>x \<in> set (filter P xs). Q x) = list_ex (\<lambda>x. P x \<and> Q x) xs"
  by (induction xs) auto

lemma sample_login:
  "handle_frame std_wire sample_io 0 (frame_body (packet (- 1) (LoginReq sample_req))) sample_accepted =
     Some (None, sample_logged_in)"
proof -
  have l: "on_login std_wire sample_io 0 sample_req sample_accepted =
      Some (sample_ack, sample_hub [(fresh_session 2)\<lparr>ss_player := 7\<rparr>, fresh_session 3]
        [7 \<mapsto> 0] [8 \<mapsto> blank_player, 7 \<mapsto> online_player])"
    by (simp add: sample_accepted_def sample_defs Let_def on_login_def session_at_def us_find_by_key_def
        login_bind_def set_session_def pg_record_login_def us_update_login_info_def update_row_def bex_filter
        register_player_def pg_bind_client_def pg_persist_client_info_def login_upgrades_def
        um_complete_on_login_def login_reply_def tm_by_player_def broadcast_player_tunnel_states_def
        push_tunnel_state_def push_tunnel_update_def session_for_def sync_server_tunnel_update_def
        runtime_tunnel_update_def runtime_tunnel_pb_def tunnel_runtime_enabled_def player_available_def
        pg_is_online_def sample_ack_def fun_upd_twist del: set_filter)
  have "message_maps sample_ack" by (simp add: message_maps_def sample_ack_def go_map_def)
  note e = encode_packet [OF this, of 1]
  have q: "write_queue_push (packet 1 sample_ack) new_write_queue = (None, sample_queue)"
    by (simp add: sample_queue_def write_queue_push_def new_write_queue_def new_ring_def
        session_write_queue_capacity_def Let_def)
  show ?thesis
    using decode_packet [of "LoginReq sample_req" "- 1"] l e q
    by (simp add: handle_frame_def message_maps_def wire_message_def handle_request_def enqueue_def
        sample_logged_in_def sample_hub_def fresh_session_def session_at_def set_session_def)
qed

lemma sample_run: "hub_run std_wire sample_logged_in"
  by (rule hub_run.frame [OF sample_accepted_run _ _ sample_login])
    (simp_all add: sample_accepted_def sample_hub_def fresh_session_def session_at_def)

section \<open>Properties\<close>



text \<open>C20. Closing a session always comes to an end, although a full queue met on the way closes another
  session, which pushes to others in turn; afterwards the session is closed, nothing is forwarded to it,
  and its player is offline if the session was the player's own.  So every frame a live session reads is
  handled to the end as well.\<close>

theorem closing_terminates:
  assumes "protowire_laws pw" "hub_run pw h" "i < length (hb_objects h)"
  shows "(\<exists>h'. hub_close pw i h = Some h' \<and> hub_run pw h' \<and> ss_closed (session_at h' i) \<and>
      (\<forall>p. session_for h' p \<noteq> Some i) \<and>
      (\<forall>p. session_for h p = Some i \<longrightarrow> \<not> pg_is_online (hb_players h') p)) \<and>
    (\<not> ss_closed (session_at h i) \<longrightarrow> (\<exists>e h'. handle_frame pw io i f h = Some (e, h') \<and> hub_run pw h'))"
proof
  from hub_run_inv [OF assms(1,2)] have inv: "hub_inv pw h" .
  from hub_close_good [OF inv _ assms(3)] obtain h' where
    h': "hub_close pw i h = Some h'" "good_change pw h h'" "ss_closed (session_at h' i)" by blast
  have run: "hub_run pw h'" by (rule hub_run.close [OF assms(2,3) h'(1)])
  have inv': "hub_inv pw h'" using h'(2) by (simp add: good_change_def)
  have not: "session_for h' p \<noteq> Some i" for p
    using session_forD [OF inv'] h'(3) by metis
  have "\<not> pg_is_online (hb_players h') p" if "session_for h p = Some i" for p
  proof -
    have "session_for h' p = None"
      using h'(2) not [of p] that by (auto simp: good_change_def same_data_def session_for_def dest: spec [of _ p])
    then have "pg_session (hb_players h') p = None"
      using inv' by (simp add: hub_inv_except_def players_agree_def session_for_def)
    then show ?thesis using inv'
      by (auto simp: hub_inv_except_def players_ok_def pg_inv_def pg_is_online_def pg_session_def split: option.splits)
  qed
  with h' run not show "\<exists>h'. hub_close pw i h = Some h' \<and> hub_run pw h' \<and> ss_closed (session_at h' i) \<and>
      (\<forall>p. session_for h' p \<noteq> Some i) \<and>
      (\<forall>p. session_for h p = Some i \<longrightarrow> \<not> pg_is_online (hb_players h') p)" by blast
  show "\<not> ss_closed (session_at h i) \<longrightarrow> (\<exists>e h'. handle_frame pw io i f h = Some (e, h') \<and> hub_run pw h')"
    using handle_frame_good [OF assms(1) inv assms(3)] hub_run.frame [OF assms(2,3)] by blast
qed

theorem closing_terminates_witness:
  "\<exists>h'. hub_close std_wire 0 sample_logged_in = Some h' \<and> \<not> pg_is_online (hb_players h') 7"
proof -
  have "0 < length (hb_objects sample_logged_in)" "session_for sample_logged_in 7 = Some 0"
    by (simp_all add: sample_logged_in_def sample_hub_def session_for_def)
  with closing_terminates [OF std_wire_laws sample_run this(1)] show ?thesis by blast
qed

text \<open>What session \<open>i\<close> may cause in the queue of \<open>j\<close> with the frame \<open>f\<close>: a tunnel update; for itself the
  answer to a request or a chunk of its upgrade; the proxy message of the frame, if it names an enabled
  tunnel, \<open>i\<close> is the session of the tunnel's right end for that direction and \<open>j\<close> the session of the
  other; for itself the reply that the other end is away.\<close>

definition lawful_push :: "protowire \<Rightarrow> hub \<Rightarrow> nat \<Rightarrow> byte list \<Rightarrow> nat \<Rightarrow> i32 \<Rightarrow> message \<Rightarrow> bool" where
  "lawful_push pw h i f j serial m \<longleftrightarrow>
     serial = 0 \<and> (\<exists>u. m = ModifyTunnelNtf u) \<or>
     j = i \<and> (\<exists>s m0. decode_frame pw f = Some (Inr (s, m0)) \<and> sint s < 0 \<and> serial = - s) \<or>
     j = i \<and> serial = 0 \<and> (\<exists>c. m = UpgradeChunk c) \<or>
     serial = 0 \<and> (\<exists>m0 tunnel i2o t. decode_frame pw f = Some (Inr (0, m0)) \<and>
       route_of m0 = Some (tunnel, i2o) \<and> tm_get (hb_tunnels h) tunnel = Some t \<and> t_enabled t \<and>
       session_for h (if i2o then t_receiver t else t_sender t) = Some i \<and>
       (m = m0 \<and> session_for h (if i2o then t_sender t else t_receiver t) = Some j \<or>
        offline_reply m0 tunnel = Some m \<and> j = i))"

lemma may_be_sent_lawful:
  assumes inv: "hub_inv pw h" and i: "i < length (hb_objects h)" "\<not> ss_closed (session_at h i)"
    and m: "may_be_sent pw h i f j serial m"
  shows "lawful_push pw h i f j serial m"
proof (cases "serial = 0 \<and> ss_player (session_at h i) \<noteq> 0 \<and>
    (\<exists>m0. decode_frame pw f = Some (Inr (0, m0)) \<and> routed h (ss_player (session_at h i)) m0 j m)")
  case False
  with m show ?thesis unfolding may_be_sent_def lawful_push_def is_update_def by blast
next
  case True
  then obtain m0 tunnel i2o t where t: "serial = 0" "ss_player (session_at h i) \<noteq> 0"
    "decode_frame pw f = Some (Inr (0, m0))" "route_of m0 = Some (tunnel, i2o)"
    "tm_get (hb_tunnels h) tunnel = Some t" "t_enabled t"
    "ss_player (session_at h i) = (if i2o then t_receiver t else t_sender t)"
    "m = m0 \<and> hb_sessions h (if i2o then t_sender t else t_receiver t) = Some j \<or>
     offline_reply m0 tunnel = Some m \<and> hb_sessions h (ss_player (session_at h i)) = Some j"
    unfolding routed_def by blast
  have self: "hb_sessions h (ss_player (session_at h i)) = Some i"
    using inv i t(2) by (simp add: hub_inv_except_def open_registered_def)
  with t(7) have "session_for h (if i2o then t_receiver t else t_sender t) = Some i"
    by (simp add: session_for_def)
  moreover have "m = m0 \<and> session_for h (if i2o then t_sender t else t_receiver t) = Some j \<or>
      offline_reply m0 tunnel = Some m \<and> j = i"
    using t(8) self by (auto simp: session_for_def)
  ultimately show ?thesis using t(1,3-6) unfolding lawful_push_def by blast
qed


definition sample_connect :: message where
  "sample_connect = PbI2OConnect \<lparr>ic_tunnel_id = 1, ic_session_id = 5, ic_tunnel_type = 0, ic_is_tcp = True,
     ic_is_compressed = False, ic_addr = ''10.0.0.1:80'', ic_encryption_method = '''', ic_encryption_key = '''',
     ic_client_addr = ''''\<rparr>"

definition sample_reply :: message where
  "sample_reply = PbO2IConnect \<lparr>oc_tunnel_id = 1, oc_session_id = 5, oc_success = False,
     oc_error_info = ''no player for tunnel 1 or the player is offline''\<rparr>"

lemma sample_reply: "offline_reply sample_connect 1 = Some sample_reply"
proof -
  have "u32_str 1 = ''1''" by code_simp
  then show ?thesis by (simp add: sample_connect_def sample_reply_def offline_reply_def)
qed

lemma message_encodable: "message_maps m \<Longrightarrow> protowire_laws pw \<Longrightarrow> \<exists>y. encode_frame pw serial m = Inr y"
  by (rule encode_frame_maps)

lemma enqueue_open:
  assumes "hub_inv pw h" "i < length (hb_objects h)" "\<not> ss_closed (session_at h i)"
    "rg_size (ss_queue (session_at h i)) < rg_max (ss_queue (session_at h i))" "encode_frame pw serial m = Inr y"
  shows "\<exists>q. enqueue pw i serial m h = (None, set_session i ((session_at h i)\<lparr>ss_queue := q\<rparr>) h) \<and>
    ring_contents q = queue_of h i @ [Some y]"
proof -
  have "session_ok pw (session_at h i)" using assms(1,2) by (simp add: hub_inv_except_def queues_ok_def)
  then have ok: "ring_inv (ss_queue (session_at h i))" "\<not> rg_closed (ss_queue (session_at h i))"
    using assms(3) by (simp_all add: session_ok_def)
  obtain e q where p: "write_queue_push y (ss_queue (session_at h i)) = (e, q)" by fastforce
  have "e = None" using p ok(2) assms(4) by (auto simp: write_queue_push_def Let_def split: if_splits)
  with write_queue_push_contents [OF ok(1) p] p assms(5) show ?thesis
    by (auto simp: enqueue_def queue_of_def)
qed


lemma sample_state:
  "session_at sample_logged_in 0 = (fresh_session 2)\<lparr>ss_player := 7, ss_queue := sample_queue\<rparr>"
  "session_at sample_logged_in (Suc 0) = fresh_session 3" "length (hb_objects sample_logged_in) = 2"
  "tm_get (hb_tunnels sample_logged_in) 1 = Some sample_link"
  "\<not> pg_is_online (hb_players sample_logged_in) 8"
  "rg_size sample_queue < rg_max sample_queue"
  by (simp_all add: sample_logged_in_def sample_defs session_at_def tm_get_def pg_is_online_def
      sample_queue_def write_queue_push_def new_write_queue_def new_ring_def session_write_queue_capacity_def Let_def)

lemma sample_connect_frame:
  "decode_frame std_wire (frame_body (packet 0 sample_connect)) = Some (Inr (0, sample_connect))"
  using decode_packet [of sample_connect 0] by (simp add: sample_connect_def message_maps_def wire_message_def)



text \<open>C22. The right key logs a session in as the player the key belongs to and as nobody else: the answer
  names that player and lists exactly its tunnels, a session that was logged in as the player before is
  closed, and from then on the hub forwards to the new one (unless pushing closed it on the way).  A key
  nobody has changes nothing.\<close>

theorem login_takes_over:
  assumes "protowire_laws pw" "hub_run pw h" "i < length (hb_objects h)" "\<not> ss_closed (session_at h i)"
    "ss_player (session_at h i) = 0" "si_db io ''find_by_key'' = None"
  shows "if lr_password req \<in> u_key ` set (pg_table (hb_players h))
    then \<exists>u ack h'. u \<in> set (pg_table (hb_players h)) \<and> u_key u = lr_password req \<and>
      on_login pw io i req h = Some (LoginAck ack, h') \<and> la_player_id ack = u_id u \<and>
      map pt_id (la_tunnel_list ack) = map t_id (tm_by_player (hb_tunnels h) (u_id u)) \<and>
      ss_player (session_at h' i) = u_id u \<and>
      (ss_closed (session_at h' i) \<or> session_for h' (u_id u) = Some i) \<and>
      (\<forall>j. session_for h (u_id u) = Some j \<longrightarrow> ss_closed (session_at h' j))
    else on_login pw io i req h = Some (pb_error_of (- 2) ''Incorrect key'', h)"
proof -
  note inv = hub_run_inv [OF assms(1,2)]
  then have tok: "table_ok (pg_table (hb_players h))" by (simp add: hub_inv_except_def players_ok_def pg_inv_def)
  note find = find_by_key_ok [OF tok, of "lr_password req"]
  show ?thesis
  proof (cases "lr_password req \<in> u_key ` set (pg_table (hb_players h))")
    case False
    then have "find (\<lambda>u. u_key u = lr_password req) (pg_table (hb_players h)) = None" by (simp add: find_none)
    with False find assms(5,6) show ?thesis by (simp add: on_login_def)
  next
    case True
    then have "find (\<lambda>u. u_key u = lr_password req) (pg_table (hb_players h)) \<noteq> None" by (simp add: find_none)
    then obtain u where "find (\<lambda>u. u_key u = lr_password req) (pg_table (hb_players h)) = Some u" by auto
    with find assms(6) have u: "us_find_by_key (si_db io ''find_by_key'') (lr_password req) (pg_table (hb_players h)) = Inr (Some u)"
      by simp
    note mem = find_by_key_member [OF u]
    then have nz: "u_id u \<noteq> 0" using inv by (auto simp: hub_inv_except_def players_ok_def image_iff)
    let ?info = "\<lparr>cl_version = lr_version req, cl_platform = lr_platform req, cl_updater = lr_updater_version req\<rparr>"
    from login_bind_good [OF inv assms(3-5) nz, of io ?info] obtain h1 where
      h1: "login_bind pw io i (u_id u) ?info h = Some h1" "hub_inv pw h1" "sessions_grow pw is_update h h1"
        "tm_tunnels (hb_tunnels h1) = tm_tunnels (hb_tunnels h)" "ss_player (session_at h1 i) = u_id u" by blast
    define h2 where "h2 = login_upgrades io (u_id u) req h1"
    have h2: "hub_inv pw h2" "hb_objects h2 = hb_objects h1" "tm_tunnels (hb_tunnels h2) = tm_tunnels (hb_tunnels h)"
      "ss_player (session_at h2 i) = u_id u"
      using h1 by (simp_all add: h2_def login_upgrades_def Let_def)
    from broadcast_hub_good [OF h2(1)] obtain h3 where
      h3: "broadcast_player_tunnel_states (hub_close pw) pw (u_id u) (u_id u) h2 = Some h3" "good_change pw h2 h3" by blast
    let ?ack = "\<lparr>la_player_id = u_id u, la_tunnel_list = map (runtime_tunnel_pb h2) (tm_by_player (hb_tunnels h2) (u_id u)),
      la_supports_runtime_report = True\<rparr>"
    have ol: "on_login pw io i req h = Some (LoginAck ?ack, h3)"
      using u assms(5) h1(1) h3(1) by (simp add: on_login_def Let_def h2_def login_reply_def)
    have ids: "map pt_id (la_tunnel_list ?ack) = map t_id (tm_by_player (hb_tunnels h) (u_id u))"
      using h2(3) by (simp add: tm_by_player_def runtime_tunnel_pb_def)
    have g3: "hub_inv pw h3" "same_data h2 h3" "sessions_grow pw is_update h2 h3"
      using h3(2) by (simp_all add: good_change_def)
    then have pl: "ss_player (session_at h3 i) = u_id u" using h2(4) by (simp add: same_data_def)
    have grow: "sessions_grow pw is_update h h3"
      by (rule sessions_grow_trans [OF sessions_grow_trans [OF h1(3) sessions_grow_objects [OF h2(2)]] g3(3)])
    then have len: "i < length (hb_objects h3)" using assms(3) by (simp add: sessions_grow_def)
    have reg: "ss_closed (session_at h3 i) \<or> session_for h3 (u_id u) = Some i"
      using g3(1) len pl nz by (auto simp: hub_inv_except_def open_registered_def session_for_def)
    have "ss_closed (session_at h3 j)" if j: "session_for h (u_id u) = Some j" for j
    proof (rule ccontr)
      assume open_j: "\<not> ss_closed (session_at h3 j)"
      have "j < length (hb_objects h)" "ss_player (session_at h j) = u_id u" using session_forD [OF inv j] by auto
      then have ne: "j \<noteq> i" using assms(5) nz by auto
      show False using login_displaces_lemma [OF inv assms(3-5) nz h1(1) j] h2(2) g3(3) open_j
        by (auto simp: sessions_grow_def session_at_def)
    qed
    with mem ol ids pl reg True show ?thesis by (auto intro!: exI [of _ u] exI [of _ ?ack] exI [of _ h3])
  qed
qed

theorem login_takes_over_witness:
  "\<exists>u ack h'. u \<in> set sample_table \<and> u_key u = ''k7'' \<and>
     on_login std_wire sample_io 0 sample_req sample_accepted = Some (LoginAck ack, h') \<and> la_player_id ack = u_id u"
proof -
  have s: "0 < length (hb_objects sample_accepted)" "\<not> ss_closed (session_at sample_accepted 0)"
    "ss_player (session_at sample_accepted 0) = 0" "si_db sample_io ''find_by_key'' = None"
    "pg_table (hb_players sample_accepted) = sample_table" "lr_password sample_req = ''k7''"
    by (simp_all add: sample_accepted_def sample_defs session_at_def)
  have "''k7'' \<in> u_key ` set sample_table" by (simp add: sample_table_def sample_user_def)
  with login_takes_over [OF std_wire_laws sample_accepted_run s(1-4), of sample_req]
  show ?thesis unfolding s(5,6) by auto
qed

text \<open>C23. Everything in the queue of an open session is an encoded frame, so what its client reads decodes
  to the message the server meant; the queue of a closed session holds nothing to send.\<close>

theorem queues_hold_frames:
  assumes "protowire_laws pw" "hub_run pw h" "i < length (hb_objects h)" "x \<in> set (queue_of h i)"
  shows "if ss_closed (session_at h i) then x = None
    else \<forall>y. x = Some y \<longrightarrow> (\<exists>serial m. encode_frame pw serial m = Inr y \<and>
      (message_maps m \<longrightarrow> decode_frame pw (frame_body y) = Some (Inr (serial, wire_message m))))"
proof -
  have ok: "session_ok pw (session_at h i)"
    using hub_run_inv [OF assms(1,2)] assms(3) by (simp add: hub_inv_except_def queues_ok_def)
  show ?thesis
  proof (cases "ss_closed (session_at h i)")
    case True
    with ok assms(4) show ?thesis by (auto simp: session_ok_def queue_of_def)
  next
    case False
    have "\<exists>serial m. encode_frame pw serial m = Inr y \<and>
        (message_maps m \<longrightarrow> decode_frame pw (frame_body y) = Some (Inr (serial, wire_message m)))" if "x = Some y" for y
    proof -
      from ok assms(4) that obtain serial m where e: "encode_frame pw serial m = Inr y"
        by (auto simp: session_ok_def queue_of_def is_packet_def)
      with decode_frame_body [OF e assms(1)] show ?thesis by blast
    qed
    with False show ?thesis by simp
  qed
qed

theorem queues_hold_frames_witness:
  "\<exists>serial m. encode_frame std_wire serial m = Inr (packet 1 sample_ack) \<and>
     (message_maps m \<longrightarrow> decode_frame std_wire (frame_body (packet 1 sample_ack)) = Some (Inr (serial, wire_message m)))"
proof -
  have q: "queue_of sample_logged_in 0 = [Some (packet 1 sample_ack)]"
    by (simp add: queue_of_def sample_state sample_queue_def write_queue_push_def new_write_queue_def new_ring_def
        session_write_queue_capacity_def ring_contents_def Let_def)
  have "0 < length (hb_objects sample_logged_in)" "\<not> ss_closed (session_at sample_logged_in 0)"
    by (simp_all add: sample_state fresh_session_def)
  with queues_hold_frames [OF std_wire_laws sample_run, of 0 "Some (packet 1 sample_ack)"] q show ?thesis by simp
qed

section \<open>Two behaviours the code does not mean to have\<close>

text \<open>A tunnel moved away from the server altogether: the notice that the server's own end is gone
  (\<open>BroadcastTunnel\<close> with player 0) is dropped because the new tunnel has no server end, so the server's
  proxy manager keeps its inlet or outlet running.\<close>

lemma moved_tunnel_not_stopped:
  assumes "t_sender t \<noteq> 0" "t_receiver t \<noteq> 0"
  shows "hub_broadcast_tunnel pw (0, t, True) h = Some h"
  using assms
  by (simp add: hub_broadcast_tunnel_def sync_server_tunnel_update_def runtime_tunnel_update_def
      runtime_tunnel_pb_def)

text \<open>A login read by a session that was closed in the meantime: the player stays online with a session
  nobody will ever close again.\<close>

lemma closed_session_login:
  "\<exists>r h'. on_login std_wire sample_io 0 sample_req
       (sample_hub [(fresh_session 2)\<lparr>ss_closed := True, ss_queue := write_queue_close new_write_queue\<rparr>] Map.empty
         [8 \<mapsto> blank_player, 7 \<mapsto> blank_player]) = Some (r, h') \<and>
     pg_is_online (hb_players h') 7 \<and> session_for h' 7 = Some 0 \<and> hub_close std_wire 0 h' = Some h'"
  by (simp add: sample_defs Let_def on_login_def session_at_def us_find_by_key_def
      login_bind_def set_session_def pg_record_login_def us_update_login_info_def update_row_def bex_filter
      register_player_def pg_bind_client_def pg_persist_client_info_def login_upgrades_def
      um_complete_on_login_def login_reply_def tm_by_player_def broadcast_player_tunnel_states_def
      push_tunnel_state_def push_tunnel_update_def session_for_def sync_server_tunnel_update_def
      runtime_tunnel_update_def runtime_tunnel_pb_def hub_close_def pg_is_online_def del: set_filter)

end
