(* ===== verification/Proxy_Context.thy ===== *)
theory Proxy_Context
  imports Socks5 Shadowsocks
begin

text \<open>
  \<open>internal/proxy/context.go\<close>: what the contexts of an inlet's sessions share, the context of plain
  TCP and UDP tunnels, and the contract of every context.

  A context's state extends the record \<open>ctx_base\<close>: the session's common part and the effects so far,
  in the order of the calls (writes to the peer, proxy messages, closes), as in \<open>Socks5\<close>.
  \<open>context_data\<close> is \<open>ContextData\<close> with the peer's address; \<open>answers\<close> is how the outside answers during
  one call: whether writes and closes succeed, what a name resolves to, the random bytes of the n-th
  draw.  An operation that waits in the flow controller is \<open>None\<close>.

  The locale \<open>session_context\<close> states what an outlet relies on: every message of a session carries its
  tunnel and session id, a session asks at most once for a connection, and only then sends data.
\<close>

section \<open>Data and effects\<close>

type_synonym context_effect = socks5_effect

record context_data =
  cd_tunnel_id :: u32
  cd_session_id :: u32
  cd_mode :: tunnel_mode
  cd_output_addr :: string
  cd_username :: string
  cd_password :: string
  cd_method :: string
  cd_peer :: string
  cd_crypto :: crypto_env

record answers =
  an_write :: bool
  an_close :: bool
  an_resolve :: "string \<Rightarrow> udp_addr option"
  an_random :: "nat \<Rightarrow> byte list"

datatype context_error =
    Ctx_Common common_error
  | Ctx_Decode crypto_error
  | Ctx_Write
  | Ctx_Close
  | Ctx_Resolve
  | Ctx_Addr addr_error
  | Ctx_Shadowsocks ss_error
  | Ctx_Empty_Target
  | Ctx_Incomplete_Target
  | Ctx_Pending_Too_Large
  | Ctx_Header_Too_Large
  | Ctx_Bad_Request
  | Ctx_Bad_Target
  | Ctx_Connect_Failed string

record ctx_base =
  cx_common :: session_common_info
  cx_out :: "context_effect list"

definition cx_emit :: "context_effect \<Rightarrow> 'a ctx_base_scheme \<Rightarrow> 'a ctx_base_scheme" where
  "cx_emit e c = c\<lparr>cx_out := cx_out c @ [e]\<rparr>"

definition cx_connect :: "context_data \<Rightarrow> u8 \<Rightarrow> bool \<Rightarrow> string \<Rightarrow> 'a ctx_base_scheme \<Rightarrow> 'a ctx_base_scheme" where
  "cx_connect d typ tcp addr c =
     cx_emit (Send_Proxy (I2OConnect (cd_tunnel_id d) (cd_session_id d) typ tcp
       (sc_is_compressed (cx_common c)) addr (sc_method (cx_common c))
       (encode_key_to_base64 (sc_key (cx_common c))) (cd_peer d))) c"

text \<open>Encoding a payload and sending it in a message of its own.\<close>

definition cx_send ::
  "context_data \<Rightarrow> byte list \<Rightarrow> (byte list \<Rightarrow> proxy_message) \<Rightarrow> byte list \<Rightarrow> 'a ctx_base_scheme
    \<Rightarrow> (context_error option \<times> 'a ctx_base_scheme) option" where
  "cx_send d random message payload c =
     (case encode_data_and_limit (cd_crypto d) (cx_common c) random payload of
        None \<Rightarrow> None
      | Some (Inl e, common) \<Rightarrow> Some (Some (Ctx_Common e), c\<lparr>cx_common := common\<rparr>)
      | Some (Inr encoded, common) \<Rightarrow>
          Some (None, cx_emit (Send_Proxy (message encoded)) (c\<lparr>cx_common := common\<rparr>)))"

definition send_data_message :: "context_data \<Rightarrow> byte list \<Rightarrow> proxy_message" where
  "send_data_message d encoded = I2OSendData (cd_tunnel_id d) (cd_session_id d) encoded"

text \<open>A write to the peer whose hook acknowledges the data.\<close>

definition cx_write_ack ::
  "context_data \<Rightarrow> answers \<Rightarrow> u32 \<Rightarrow> byte list \<Rightarrow> byte list \<Rightarrow> 'a ctx_base_scheme
    \<Rightarrow> context_error option \<times> 'a ctx_base_scheme" where
  "cx_write_ack d ans i data packet c =
     (let c = cx_emit (Write_Peer packet) c in
      if an_write ans
      then (None, cx_emit (Send_Proxy (I2ORecvDataResult (cd_tunnel_id d) i (of_nat (length data)))) c)
      else (Some Ctx_Write, c))"

definition cx_close :: "answers \<Rightarrow> 'a ctx_base_scheme \<Rightarrow> context_error option \<times> 'a ctx_base_scheme" where
  "cx_close ans c = (if an_close ans then None else Some Ctx_Close, cx_emit Close_Peer c)"

definition cx_stop :: "context_data \<Rightarrow> 'a ctx_base_scheme \<Rightarrow> 'a ctx_base_scheme" where
  "cx_stop d c = cx_emit (Send_Proxy (I2ODisconnect (cd_tunnel_id d) (cd_session_id d))) c"

section \<open>What a session may say\<close>

fun is_connect :: "proxy_message \<Rightarrow> bool" where
  "is_connect (I2OConnect _ _ _ _ _ _ _ _ _) = True"
| "is_connect _ = False"

fun is_send :: "proxy_message \<Rightarrow> bool" where
  "is_send (I2OSendData _ _ _) = True"
| "is_send (I2OSendToData _ _ _ _) = True"
| "is_send _ = False"

fun sent :: "context_effect list \<Rightarrow> proxy_message list" where
  "sent [] = []"
| "sent (Send_Proxy m # es) = m # sent es"
| "sent (_ # es) = sent es"

fun talk :: "(proxy_message \<Rightarrow> bool) \<Rightarrow> bool \<Rightarrow> proxy_message list \<Rightarrow> bool" where
  "talk own opened [] = True"
| "talk own opened (m # ms) =
     (own m \<and> (is_connect m \<longrightarrow> \<not> opened) \<and> (is_send m \<longrightarrow> opened) \<and> talk own (opened \<or> is_connect m) ms)"

lemma sent_append [simp]: "sent (es @ fs) = sent es @ sent fs"
  by (induction es rule: sent.induct) auto

lemma talk_append [simp]:
  "talk own opened (ms @ ns) \<longleftrightarrow> talk own opened ms \<and> talk own (opened \<or> (\<exists>m \<in> set ms. is_connect m)) ns"
  by (induction ms arbitrary: opened) (auto simp: disj_assoc)

text \<open>\<open>asked\<close>: the effects contain the request for a connection.  A step speaks when it only appends
  effects and the messages among them fit what was said before.\<close>

definition asked :: "context_effect list \<Rightarrow> bool" where
  "asked es \<longleftrightarrow> (\<exists>m \<in> set (sent es). is_connect m)"

definition speaks :: "(proxy_message \<Rightarrow> bool) \<Rightarrow> context_effect list \<Rightarrow> context_effect list \<Rightarrow> bool" where
  "speaks own xs ys \<longleftrightarrow> (\<exists>es. ys = xs @ es \<and> talk own (asked xs) (sent es))"

lemma asked_append [simp]: "asked (xs @ ys) \<longleftrightarrow> asked xs \<or> asked ys"
  by (auto simp: asked_def)

lemma asked_simps [simp]:
  "\<not> asked []"
  "asked (Send_Proxy m # es) \<longleftrightarrow> is_connect m \<or> asked es"
  "asked (Write_Peer b # es) = asked es"
  "asked (Close_Peer # es) = asked es"
  "asked (Close_Later n # es) = asked es"
  "asked (Write_Udp b a # es) = asked es"
  "asked (Close_Udp # es) = asked es"
  by (simp_all add: asked_def)

lemma speaks_refl [simp]: "speaks own xs xs"
  by (simp add: speaks_def)

lemma speaks_more: "talk own (asked xs) (sent es) \<Longrightarrow> speaks own xs (xs @ es)"
  by (auto simp: speaks_def)

lemma speaks_trans [trans]: "speaks own xs ys \<Longrightarrow> speaks own ys zs \<Longrightarrow> speaks own xs zs"
  by (auto simp: speaks_def asked_def bex_Un)

lemma speaks_asked: "speaks own xs ys \<Longrightarrow> asked xs \<Longrightarrow> asked ys"
  by (auto simp: speaks_def)

section \<open>The contract of a context\<close>

text \<open>A run of a session's context: it is started, then takes data from the peer and answers from the
  outlet in any order.  An answer is addressed to the session and follows its request.\<close>

inductive context_run ::
  "(proxy_message \<Rightarrow> bool) \<Rightarrow> ('s \<Rightarrow> context_effect list) \<Rightarrow> 's \<Rightarrow> ('s \<Rightarrow> ('e option \<times> 's) option)
    \<Rightarrow> ('a \<Rightarrow> 's \<Rightarrow> ('e option \<times> 's) option) \<Rightarrow> ('b \<Rightarrow> proxy_message \<Rightarrow> 's \<Rightarrow> ('e option \<times> 's) option)
    \<Rightarrow> 's \<Rightarrow> bool"
  for own out fresh start input reply where
  run_start: "start fresh = Some (None, s) \<Longrightarrow> context_run own out fresh start input reply s"
| run_input: "context_run own out fresh start input reply s \<Longrightarrow> input a s = Some (e, s') \<Longrightarrow>
    context_run own out fresh start input reply s'"
| run_reply: "context_run own out fresh start input reply s \<Longrightarrow> asked (out s) \<Longrightarrow> own m \<Longrightarrow>
    reply b m s = Some (e, s') \<Longrightarrow> context_run own out fresh start input reply s'"

locale session_context =
  fixes own :: "proxy_message \<Rightarrow> bool"
    and out :: "'s \<Rightarrow> context_effect list"
    and good :: "'s \<Rightarrow> bool"
    and fresh :: 's
    and start :: "'s \<Rightarrow> ('e option \<times> 's) option"
    and input :: "'a \<Rightarrow> 's \<Rightarrow> ('e option \<times> 's) option"
    and reply :: "'b \<Rightarrow> proxy_message \<Rightarrow> 's \<Rightarrow> ('e option \<times> 's) option"
    and stop :: "'s \<Rightarrow> 's"
  assumes silent: "out fresh = []"
    and start_speaks: "start fresh = Some (None, s) \<Longrightarrow> good s \<and> speaks own (out fresh) (out s)"
    and input_speaks: "good s \<Longrightarrow> input a s = Some (e, s') \<Longrightarrow> good s' \<and> speaks own (out s) (out s')"
    and reply_speaks: "good s \<Longrightarrow> asked (out s) \<Longrightarrow> own m \<Longrightarrow> reply b m s = Some (e, s') \<Longrightarrow>
      good s' \<and> speaks own (out s) (out s')"
    and stop_speaks: "good s \<Longrightarrow> speaks own (out s) (out (stop s))"
begin

lemma run_speaks: "context_run own out fresh start input reply s \<Longrightarrow> good s \<and> speaks own [] (out s)"
proof (induction rule: context_run.induct)
  case (run_start s)
  then show ?case using start_speaks silent by simp
next
  case (run_input s a e s')
  then show ?case using input_speaks speaks_trans by metis
next
  case (run_reply s m b e s')
  then show ?case using reply_speaks speaks_trans by metis
qed

lemma run_orderly: "context_run own out fresh start input reply s \<Longrightarrow> talk own False (sent (out (stop s)))"
  using run_speaks [of s] stop_speaks [of s] speaks_trans [of own "[]" "out s" "out (stop s)"]
  by (auto simp: speaks_def asked_def)

end

definition own_message :: "context_data \<Rightarrow> proxy_message \<Rightarrow> bool" where
  "own_message d m \<longleftrightarrow> pm_tunnel_id m = cd_tunnel_id d \<and> pm_session_id m = cd_session_id d"

section \<open>The context of TCP and UDP tunnels\<close>

record universal_context = ctx_base +
  uc_connected :: bool
  uc_started :: bool

definition new_universal_context :: "session_common_info \<Rightarrow> universal_context" where
  "new_universal_context common = \<lparr>cx_common = common, cx_out = [], uc_connected = False, uc_started = False\<rparr>"

definition uc_on_start :: "context_data \<Rightarrow> universal_context \<Rightarrow> context_error option \<times> universal_context" where
  "uc_on_start d c =
     (None, cx_connect d (ucast (cd_mode d)) (mode_is_tcp (cd_mode d)) (cd_output_addr d) (c\<lparr>uc_started := True\<rparr>))"

definition uc_on_peer_data ::
  "context_data \<Rightarrow> answers \<times> byte list \<Rightarrow> universal_context \<Rightarrow> (context_error option \<times> universal_context) option" where
  "uc_on_peer_data d = (\<lambda>(ans, payload) c. cx_send d (an_random ans 0) (send_data_message d) payload c)"

definition uc_on_proxy_message ::
  "context_data \<Rightarrow> answers \<Rightarrow> proxy_message \<Rightarrow> universal_context \<Rightarrow> (context_error option \<times> universal_context) option" where
  "uc_on_proxy_message d ans message c =
     (case message of
        O2IConnect t i success e \<Rightarrow>
          if success then Some (None, c\<lparr>uc_connected := True\<rparr>)
          else if uc_started c then Some (cx_close ans c) else Some (None, c)
      | O2IRecvData t i data \<Rightarrow>
          if \<not> uc_started c then Some (None, c)
          else (case decode_data (cd_crypto d) (cx_common c) data of
                  Inl e \<Rightarrow> Some (Some (Ctx_Decode e), c)
                | Inr decoded \<Rightarrow> Some (cx_write_ack d ans i data decoded c))
      | O2IDisconnect t i \<Rightarrow> if uc_started c then Some (cx_close ans c) else Some (None, c)
      | _ \<Rightarrow> Some (None, c))"

definition uc_on_stop :: "context_data \<Rightarrow> universal_context \<Rightarrow> universal_context" where
  "uc_on_stop d c = cx_stop d c"

definition uc_ready_for_read :: "universal_context \<Rightarrow> bool" where
  "uc_ready_for_read c = uc_connected c"

section \<open>Steps that speak\<close>

lemma cx_out_emit [simp]: "cx_out (cx_emit e c) = cx_out c @ [e]"
  by (simp add: cx_emit_def)

lemma cx_send_speaks:
  assumes "cx_send d random message payload c = Some (e, c')" "asked (cx_out c)"
    and "\<And>x. own (message x) \<and> \<not> is_connect (message x)"
  shows "speaks own (cx_out c) (cx_out c')"
  using assms by (auto simp: cx_send_def split: option.splits prod.splits sum.splits intro!: speaks_more)

lemma cx_write_ack_speaks:
  "cx_write_ack d ans i data packet c = (e, c') \<Longrightarrow>
   own (I2ORecvDataResult (cd_tunnel_id d) i (of_nat (length data))) \<Longrightarrow> speaks own (cx_out c) (cx_out c')"
  by (auto simp: cx_write_ack_def Let_def speaks_def split: if_splits)

lemma cx_close_speaks: "cx_close ans c = (e, c') \<Longrightarrow> speaks own (cx_out c) (cx_out c')"
  by (auto simp: cx_close_def speaks_def)

lemma cx_stop_speaks: "speaks (own_message d) (cx_out c) (cx_out (cx_stop d c))"
  by (auto simp: cx_stop_def own_message_def intro: speaks_more)

lemma cx_connect_speaks: "\<not> asked (cx_out c) \<Longrightarrow> speaks (own_message d) (cx_out c) (cx_out (cx_connect d typ tcp addr c))"
  by (auto simp: cx_connect_def own_message_def intro: speaks_more)

lemma asked_connect [simp]: "asked (cx_out (cx_connect d typ tcp addr c))"
  by (simp add: cx_connect_def)

lemmas cx_speaks = cx_send_speaks cx_write_ack_speaks cx_close_speaks

lemma ack_own: "own_message d (O2IRecvData t i data) \<Longrightarrow> own_message d (I2ORecvDataResult (cd_tunnel_id d) i n)"
  "own_message d (O2IRecvDataFrom t i data a) \<Longrightarrow> own_message d (I2ORecvDataResult (cd_tunnel_id d) i n)"
  by (simp_all add: own_message_def)

lemma data_own [simp]: "own_message d (send_data_message d x)" "\<not> is_connect (send_data_message d x)"
  by (simp_all add: own_message_def send_data_message_def)

text \<open>Sending several payloads, each in a message of its own, until one fails.\<close>

fun cx_send_all ::
  "context_data \<Rightarrow> (nat \<Rightarrow> byte list) \<Rightarrow> nat \<Rightarrow> ((byte list \<Rightarrow> proxy_message) \<times> byte list) list
    \<Rightarrow> 'a ctx_base_scheme \<Rightarrow> (context_error option \<times> 'a ctx_base_scheme) option" where
  "cx_send_all d random k [] c = Some (None, c)"
| "cx_send_all d random k ((message, payload) # items) c =
     (case cx_send d (random k) message payload c of
        None \<Rightarrow> None
      | Some (Some e, c) \<Rightarrow> Some (Some e, c)
      | Some (None, c) \<Rightarrow> cx_send_all d random (k + 1) items c)"

lemma cx_send_all_speaks:
  assumes "cx_send_all d random k items c = Some (e, c')" "asked (cx_out c)"
    and "\<And>message payload x. (message, payload) \<in> set items \<Longrightarrow> own (message x) \<and> \<not> is_connect (message x)"
  shows "speaks own (cx_out c) (cx_out c')"
  using assms
proof (induction items arbitrary: k c)
  case (Cons item items)
  obtain message payload where item: "item = (message, payload)" by (cases item)
  with Cons.prems(1) obtain e1 c1 where send: "cx_send d (random k) message payload c = Some (e1, c1)"
    by (auto split: option.splits)
  have first: "speaks own (cx_out c) (cx_out c1)"
    by (rule cx_send_speaks [OF send Cons.prems(2)]) (use Cons.prems(3) item in auto)
  show ?case
  proof (cases e1)
    case None
    with Cons.prems(1) item send have "cx_send_all d random (k + 1) items c1 = Some (e, c')" by simp
    from Cons.IH [OF this speaks_asked [OF first Cons.prems(2)]] Cons.prems(3) first
    show ?thesis by (meson list.set_intros(2) speaks_trans)
  next
    case (Some e')
    with Cons.prems(1) item send first show ?thesis by simp
  qed
qed simp

text \<open>The helpers change nothing beyond the base of a state.\<close>

lemma cx_send_same:
  assumes "cx_send d random message payload c = Some (e, c')"
  obtains common effects where "c' = c\<lparr>cx_common := common, cx_out := effects\<rparr>"
  using assms by (cases c) (auto simp: cx_send_def cx_emit_def split: option.splits prod.splits sum.splits)

lemma cx_send_all_same:
  "cx_send_all d random k items c = Some (e, c') \<Longrightarrow>
   \<exists>common effects. c' = c\<lparr>cx_common := common, cx_out := effects\<rparr>"
proof (induction items arbitrary: k c)
  case Nil
  then show ?case by (cases c) auto
next
  case (Cons item items)
  obtain message payload where item: "item = (message, payload)" by (cases item)
  with Cons.prems obtain e1 c1 where send: "cx_send d (random k) message payload c = Some (e1, c1)"
    by (auto split: option.splits)
  then obtain common effects where "c1 = c\<lparr>cx_common := common, cx_out := effects\<rparr>" by (rule cx_send_same)
  with Cons send item show ?case by (cases e1) force+
qed

lemma cx_write_ack_same:
  assumes "cx_write_ack d ans i data packet c = (e, c')"
  obtains effects where "c' = c\<lparr>cx_out := effects\<rparr>"
  using assms by (auto simp: cx_write_ack_def cx_emit_def Let_def split: if_splits)

lemma cx_close_same:
  assumes "cx_close ans c = (e, c')"
  obtains effects where "c' = c\<lparr>cx_out := effects\<rparr>"
  using assms by (auto simp: cx_close_def cx_emit_def)

interpretation uc: session_context "own_message d" cx_out "\<lambda>c. asked (cx_out c)"
  "new_universal_context common" "\<lambda>c. Some (uc_on_start d c)" "uc_on_peer_data d" "uc_on_proxy_message d" "uc_on_stop d"
  for d common
proof (unfold_locales, goal_cases)
  case (2 s)
  then show ?case
    by (auto simp: uc_on_start_def new_universal_context_def cx_connect_def cx_emit_def own_message_def speaks_def)
next
  case (3 s a e s')
  then have "speaks (own_message d) (cx_out s) (cx_out s')"
    by (cases a) (auto simp: uc_on_peer_data_def intro: cx_speaks)
  with 3 show ?case using speaks_asked by blast
next
  case (4 s m b e s')
  then have "speaks (own_message d) (cx_out s) (cx_out s')"
    by (auto simp: uc_on_proxy_message_def split: proxy_message.splits if_splits sum.splits
        dest: ack_own intro: cx_speaks)
  with 4 show ?case using speaks_asked by blast
qed (simp_all add: new_universal_context_def uc_on_stop_def cx_stop_speaks)

end
