(* ===== verification/Context_Http.thy ===== *)
theory Context_Http
  imports Proxy_Context Go_Base64
begin

text \<open>
  \<open>internal/proxy/context_http.go\<close>: the HTTP proxy context.

  The parsers of \<open>net/http\<close> and \<open>net/url\<close> are the record \<open>http_env\<close>, an argument of what calls them:
  \<open>http.ReadRequest\<close> on a complete header and \<open>url.Parse\<close>.  What they return is modelled as far as the
  context reads it.  The header is a list of canonical keys with their values.
\<close>

section \<open>Requests\<close>

record http_url =
  hu_scheme :: string
  hu_host :: string
  hu_opaque :: string
  hu_hostname :: string
  hu_port :: string
  hu_request_uri :: string

record http_request =
  hr_method :: string
  hr_host :: string
  hr_request_uri :: string
  hr_proto :: string
  hr_url :: "http_url option"
  hr_header :: "(string \<times> string list) list"
  hr_content_length :: int
  hr_transfer_encoding :: "string list"

record http_env =
  he_read_request :: "byte list \<Rightarrow> http_request option"
  he_parse_url :: "string \<Rightarrow> http_url option"

definition crlf :: string where "crlf = [CHR 0x0D, CHR 0x0A]"

definition proxy_auth_required_response :: string where
  "proxy_auth_required_response =
     ''HTTP/1.1 407 Proxy Authentication Required'' @ crlf @
     ''Proxy-Authenticate: Basic realm='' @ [CHR 0x22] @ ''Proxy'' @ [CHR 0x22] @ crlf @ crlf"

definition bad_gateway_header :: string where
  "bad_gateway_header =
     ''HTTP/1.1 502 Bad Gateway'' @ crlf @ ''Content-Type: text/html'' @ crlf @ ''Connection: close'' @ crlf @ crlf"

definition connection_established :: string where
  "connection_established =
     ''HTTP/1.1 200 Connection Established'' @ crlf @ ''Proxy-Agent: npipe/HTTP/1.1'' @ crlf @ crlf"

definition http_max_header_bytes :: nat where "http_max_header_bytes = 64 * 1024"
definition http_max_buffered :: nat where "http_max_buffered = 512 * 1024"

text \<open>\<open>bytes.Index\<close> of the blank line that ends the header.\<close>

fun header_end :: "byte list \<Rightarrow> nat option" where
  "header_end bs =
     (if take 4 bs = [13, 10, 13, 10] then Some 0
      else (case bs of [] \<Rightarrow> None | _ # bs' \<Rightarrow> map_option Suc (header_end bs')))"

declare header_end.simps [simp del]

section \<open>Credentials and target\<close>

definition header_get :: "string \<Rightarrow> (string \<times> string list) list \<Rightarrow> string" where
  "header_get name h = (case map_of h name of Some (v # _) \<Rightarrow> v | _ \<Rightarrow> '''')"

definition basic_prefix :: string where "basic_prefix = ''Basic ''"

definition http_authorized :: "context_data \<Rightarrow> http_request \<Rightarrow> bool" where
  "http_authorized d req \<longleftrightarrow>
     (if cd_username d = '''' \<or> cd_password d = '''' then True
      else let auth = header_get ''Proxy-Authorization'' (hr_header req) in
        if \<not> has_prefix auth basic_prefix then False
        else (case b64_decode (drop (length basic_prefix) auth) of
                None \<Rightarrow> False
              | Some raw \<Rightarrow>
                  (case index_of CHR '':'' (str_of raw) of
                     None \<Rightarrow> False
                   | Some i \<Rightarrow> take i (str_of raw) = cd_username d \<and> drop (i + 1) (str_of raw) = cd_password d)))"

definition trim_slashes :: "string \<Rightarrow> string" where
  "trim_slashes s = (if has_prefix s ''//'' then drop 2 s else s)"

definition connect_authority :: "http_request \<Rightarrow> string" where
  "connect_authority req =
     (let authority = trim_space (hr_host req) in
      trim_slashes
        (if authority = '''' then
           (case hr_url req of
              Some u \<Rightarrow> if hu_host u \<noteq> '''' then hu_host u
                        else if hu_opaque u \<noteq> '''' then hu_opaque u else hr_request_uri req
            | None \<Rightarrow> hr_request_uri req)
         else authority))"

definition url_target :: "http_url \<Rightarrow> context_error + string \<times> string" where
  "url_target u =
     (let port = (if hu_port u = '''' then (if equal_fold (hu_scheme u) ''https'' then ''443'' else ''80'')
                  else hu_port u)
      in if hu_hostname u = '''' then Inl Ctx_Bad_Target else Inr (hu_hostname u, port))"

definition resolve_proxy_target :: "http_env \<Rightarrow> http_request \<Rightarrow> context_error + string \<times> string" where
  "resolve_proxy_target env req =
     (if hr_method req = ''CONNECT'' then
        let authority = connect_authority req in
        (case split_host_port authority of
           Some hp \<Rightarrow> Inr hp
         | None \<Rightarrow> if authority = '''' then Inl Ctx_Bad_Target else Inr (authority, ''443''))
      else (case hr_url req of
              None \<Rightarrow> Inl Ctx_Bad_Target
            | Some u \<Rightarrow>
                if hu_scheme u \<noteq> '''' then url_target u
                else let path = hr_request_uri req;
                         path = (if \<not> has_prefix path ''http://'' \<and> \<not> has_prefix path ''https://''
                                 then ''http://'' @ hr_host req @ path else path)
                  in (case he_parse_url env path of
                        None \<Rightarrow> Inl Ctx_Bad_Target
                      | Some parsed \<Rightarrow> url_target parsed)))"

section \<open>The rewritten header\<close>

definition hop_headers :: "string list" where
  "hop_headers =
     [''Proxy-Connection'', ''Proxy-Authorization'', ''Forwarded'', ''X-Forwarded-For'', ''X-Forwarded-Host'',
      ''X-Forwarded-Proto'', ''Via'', ''Content-Length'', ''Transfer-Encoding'']"

text \<open>\<open>Header.Write\<close>: the keys in order, a line for each value, with line breaks in a value replaced and
  its ends trimmed.\<close>

definition header_value :: "string \<Rightarrow> string" where
  "header_value v =
     (let blank = (\<lambda>c. c \<in> {CHR 0x20, CHR 0x09, CHR 0x0A, CHR 0x0D});
          v = map (\<lambda>c. if c \<in> {CHR 0x0A, CHR 0x0D} then CHR 0x20 else c) v
      in rev (dropWhile blank (rev (dropWhile blank v))))"

definition header_write :: "(string \<times> string list) list \<Rightarrow> string" where
  "header_write h =
     concat (map (\<lambda>(k, vs). concat (map (\<lambda>v. k @ '': '' @ header_value v @ crlf) vs)) (sort_key fst h))"

fun join_comma :: "string list \<Rightarrow> string" where
  "join_comma [] = ''''"
| "join_comma [s] = s"
| "join_comma (s # ss) = s @ '', '' @ join_comma ss"

definition rewrite_proxy_request_header :: "http_request \<Rightarrow> context_error + byte list" where
  "rewrite_proxy_request_header req =
     (case hr_url req of
        None \<Rightarrow> Inl Ctx_Bad_Request
      | Some u \<Rightarrow>
          let request_uri = (if hu_request_uri u = '''' then ''/'' else hu_request_uri u);
              header = filter (\<lambda>(k, vs). k \<notin> set hop_headers) (hr_header req)
          in Inr (bytes_of (hr_method req @ '' '' @ request_uri @ '' '' @ hr_proto req @ crlf @
               ''Host: '' @ hr_host req @ crlf @
               (if hr_content_length req > 0
                then ''Content-Length: '' @ format_uint (nat (hr_content_length req)) @ crlf else '''') @
               (if hr_transfer_encoding req \<noteq> []
                then ''Transfer-Encoding: '' @ join_comma (hr_transfer_encoding req) @ crlf else '''') @
               header_write header @ crlf)))"

section \<open>The context\<close>

datatype http_status = Http_Free | Http_Connecting | Http_Running | Http_Invalid

record http_context = ctx_base +
  hc_status :: http_status
  hc_cache :: "byte list"
  hc_pending :: "byte list list"
  hc_pending_bytes :: nat
  hc_is_connect_method :: bool

definition new_http_context :: "session_common_info \<Rightarrow> http_context" where
  "new_http_context common =
     \<lparr>cx_common = common, cx_out = [], hc_status = Http_Free, hc_cache = [], hc_pending = [],
      hc_pending_bytes = 0, hc_is_connect_method = False\<rparr>"

definition http_on_start :: "http_context \<Rightarrow> context_error option \<times> http_context" where
  "http_on_start c = (None, c)"

definition http_buffer_pending_payload :: "byte list \<Rightarrow> http_context \<Rightarrow> context_error option \<times> http_context" where
  "http_buffer_pending_payload payload c =
     (if length payload = 0 then (None, c)
      else if hc_pending_bytes c + length payload > http_max_buffered then (Some Ctx_Pending_Too_Large, c)
      else (None, c\<lparr>hc_pending := hc_pending c @ [payload],
                    hc_pending_bytes := hc_pending_bytes c + length payload\<rparr>))"

definition http_send_upstream ::
  "context_data \<Rightarrow> byte list \<Rightarrow> byte list \<Rightarrow> http_context \<Rightarrow> (context_error option \<times> http_context) option" where
  "http_send_upstream d random payload c =
     (if length payload = 0 then Some (None, c) else cx_send d random (send_data_message d) payload c)"

text \<open>The end of the request: the connection is asked for, unless what is to be sent first is too large.\<close>

definition http_ask :: "context_data \<Rightarrow> string \<Rightarrow> string \<Rightarrow> http_context \<Rightarrow> context_error option \<times> http_context" where
  "http_ask d host port c =
     (if length (hc_cache c) > http_max_buffered then (Some Ctx_Pending_Too_Large, c)
      else (None, cx_connect d (ucast mode_http) True (join_host_port host port) c))"

definition http_accept_request ::
  "http_env \<Rightarrow> context_data \<Rightarrow> http_request \<Rightarrow> byte list \<Rightarrow> http_context \<Rightarrow> context_error option \<times> http_context" where
  "http_accept_request env d req initial_payload c =
     (if \<not> http_authorized d req then
        (None, cx_emit (Close_Later 1000) (cx_emit (Write_Peer (bytes_of proxy_auth_required_response))
          (c\<lparr>hc_status := Http_Invalid\<rparr>)))
      else (case resolve_proxy_target env req of
              Inl e \<Rightarrow> (Some e, c)
            | Inr (host, port) \<Rightarrow>
                let c = c\<lparr>hc_status := Http_Connecting\<rparr> in
                if hr_method req = ''CONNECT'' then
                  (case http_buffer_pending_payload initial_payload
                          (c\<lparr>hc_is_connect_method := True, hc_cache := bytes_of connection_established\<rparr>) of
                     (Some e, c) \<Rightarrow> (Some e, c)
                   | (None, c) \<Rightarrow> http_ask d host port c)
                else (case rewrite_proxy_request_header req of
                        Inl e \<Rightarrow> (Some e, c)
                      | Inr rewritten \<Rightarrow> http_ask d host port (c\<lparr>hc_cache := rewritten @ initial_payload\<rparr>))))"

definition http_on_request ::
  "http_env \<Rightarrow> context_data \<Rightarrow> byte list \<Rightarrow> http_context \<Rightarrow> context_error option \<times> http_context" where
  "http_on_request env d payload c =
     (let c = c\<lparr>hc_cache := hc_cache c @ payload\<rparr>; cache = hc_cache c in
      case header_end cache of
        None \<Rightarrow> if length cache > http_max_header_bytes then (Some Ctx_Header_Too_Large, c) else (None, c)
      | Some i \<Rightarrow>
          if i + 4 > http_max_header_bytes then (Some Ctx_Header_Too_Large, c)
          else (case he_read_request env (take (i + 4) cache) of
                  None \<Rightarrow> (Some Ctx_Bad_Request, c)
                | Some req \<Rightarrow> http_accept_request env d req (drop (i + 4) cache) c))"

definition http_on_peer_data ::
  "http_env \<Rightarrow> context_data \<Rightarrow> answers \<times> byte list \<Rightarrow> http_context \<Rightarrow> (context_error option \<times> http_context) option" where
  "http_on_peer_data env d = (\<lambda>(ans, payload) c.
     case hc_status c of
       Http_Free \<Rightarrow> Some (http_on_request env d payload c)
     | Http_Connecting \<Rightarrow> Some (http_buffer_pending_payload payload c)
     | Http_Running \<Rightarrow> http_send_upstream d (an_random ans 0) payload c
     | Http_Invalid \<Rightarrow> Some (None, c))"

definition http_flush_pending_payloads ::
  "context_data \<Rightarrow> answers \<Rightarrow> nat \<Rightarrow> http_context \<Rightarrow> (context_error option \<times> http_context) option" where
  "http_flush_pending_payloads d ans k c =
     (case cx_send_all d (an_random ans) k
             (map (\<lambda>p. (send_data_message d, p)) (filter (\<lambda>p. length p \<noteq> 0) (hc_pending c))) c of
        None \<Rightarrow> None
      | Some (Some e, c) \<Rightarrow> Some (Some e, c)
      | Some (None, c) \<Rightarrow> Some (None, c\<lparr>hc_pending := [], hc_pending_bytes := 0\<rparr>))"

definition http_on_connected ::
  "context_data \<Rightarrow> answers \<Rightarrow> http_context \<Rightarrow> (context_error option \<times> http_context) option" where
  "http_on_connected d ans c =
     (let c = c\<lparr>hc_status := Http_Running\<rparr> in
      if hc_is_connect_method c then
        (let c = cx_emit (Write_Peer (hc_cache c)) c in
         if an_write ans then http_flush_pending_payloads d ans 0 (c\<lparr>hc_cache := []\<rparr>)
         else Some (Some Ctx_Write, c))
      else (case http_send_upstream d (an_random ans 0) (hc_cache c) c of
              None \<Rightarrow> None
            | Some (Some e, c) \<Rightarrow> Some (Some e, c)
            | Some (None, c) \<Rightarrow> http_flush_pending_payloads d ans 1 (c\<lparr>hc_cache := []\<rparr>)))"

definition bad_gateway_body :: "string \<Rightarrow> string" where
  "bad_gateway_body e =
     ''<html><body><h1>502 Bad Gateway</h1><p>Proxy connection failed: '' @ e @ ''</p></body></html>''"

definition http_on_proxy_message ::
  "context_data \<Rightarrow> answers \<Rightarrow> proxy_message \<Rightarrow> http_context \<Rightarrow> (context_error option \<times> http_context) option" where
  "http_on_proxy_message d ans message c =
     (case message of
        O2IConnect t i success e \<Rightarrow>
          if success then http_on_connected d ans c
          else Some (None, cx_emit (Close_Later 1000)
                 (cx_emit (Write_Peer (bytes_of (bad_gateway_header @ bad_gateway_body e))) (c\<lparr>hc_status := Http_Invalid\<rparr>)))
      | O2IRecvData t i data \<Rightarrow>
          (case decode_data (cd_crypto d) (cx_common c) data of
             Inl e \<Rightarrow> Some (Some (Ctx_Decode e), c)
           | Inr decoded \<Rightarrow> Some (cx_write_ack d ans i data decoded c))
      | O2IDisconnect t i \<Rightarrow> Some (cx_close ans c)
      | _ \<Rightarrow> Some (None, c))"

definition http_on_stop :: "context_data \<Rightarrow> http_context \<Rightarrow> http_context" where
  "http_on_stop d c = cx_stop d c"

definition http_ready_for_read :: "http_context \<Rightarrow> bool" where
  "http_ready_for_read c \<longleftrightarrow> hc_status c \<noteq> Http_Connecting \<and> hc_status c \<noteq> Http_Invalid"

section \<open>The context keeps the contract\<close>

text \<open>Before the request nothing is asked for, a running context has asked, and the pending bytes are
  counted and bounded.\<close>

definition http_pending_ok :: "http_context \<Rightarrow> bool" where
  "http_pending_ok c \<longleftrightarrow>
     hc_pending_bytes c = length (concat (hc_pending c)) \<and> hc_pending_bytes c \<le> http_max_buffered"

definition http_good :: "http_context \<Rightarrow> bool" where
  "http_good c \<longleftrightarrow>
     (hc_status c = Http_Free \<longrightarrow> \<not> asked (cx_out c)) \<and>
     (hc_status c = Http_Running \<longrightarrow> asked (cx_out c)) \<and> http_pending_ok c"

lemma http_buffer_form:
  "http_buffer_pending_payload payload c = (e, c') \<Longrightarrow>
   (\<exists>ps n. c' = c\<lparr>hc_pending := ps, hc_pending_bytes := n\<rparr>) \<and> (http_pending_ok c \<longrightarrow> http_pending_ok c')"
  by (auto simp: http_buffer_pending_payload_def http_pending_ok_def split: if_splits)
     (metis http_context.surjective http_context.update_convs(3,4))+

text \<open>What a step in the state \<open>Http_Free\<close> does, \<open>stream\<close> being all the peer has sent: a connection is
  asked for only after a request with the right credentials.\<close>

definition http_step :: "http_env \<Rightarrow> context_data \<Rightarrow> byte list \<Rightarrow> http_context \<Rightarrow> http_context \<Rightarrow> bool" where
  "http_step env d stream c c' \<longleftrightarrow>
     (hc_status c' = Http_Running \<longrightarrow> hc_status c = Http_Running) \<and>
     (http_pending_ok c \<longrightarrow> http_pending_ok c') \<and>
     (\<not> asked (cx_out c) \<longrightarrow> speaks (own_message d) (cx_out c) (cx_out c') \<and>
       (hc_status c' = Http_Free \<longrightarrow> \<not> asked (cx_out c')) \<and>
       (asked (cx_out c') \<longrightarrow>
         (\<exists>n req. he_read_request env (take n stream) = Some req \<and> http_authorized d req)))"

lemma http_step_quiet:
  "cx_out c' = cx_out c \<Longrightarrow> hc_status c' \<in> {hc_status c, Http_Connecting} \<Longrightarrow>
   (http_pending_ok c \<longrightarrow> http_pending_ok c') \<Longrightarrow> http_step env d stream c c'"
  by (auto simp: http_step_def)

lemma http_ask_step:
  assumes "http_ask d host port c1 = (e, c2)" "hc_status c1 = Http_Connecting" "cx_out c1 = cx_out c"
    "http_pending_ok c \<longrightarrow> http_pending_ok c1" "he_read_request env (take n stream) = Some req"
    "http_authorized d req"
  shows "http_step env d stream c c2"
  using assms cx_connect_speaks [of c1 d "ucast mode_http" True "join_host_port host port"]
  by (auto simp: http_step_def http_ask_def http_pending_ok_def cx_connect_def cx_emit_def split: if_splits)

lemma http_accept_step:
  assumes accept: "http_accept_request env d req rest (c\<lparr>hc_cache := cache\<rparr>) = (e, c2)"
    and req: "he_read_request env (take n stream) = Some req"
  shows "http_step env d stream c c2"
proof (cases "http_authorized d req")
  case False
  with accept show ?thesis
    by (auto simp: http_step_def http_accept_request_def http_pending_ok_def cx_emit_def intro!: speaks_more)
next
  case True
  note ask = http_ask_step [OF _ _ _ _ req True]
  show ?thesis
  proof (cases "resolve_proxy_target env req")
    case (Inl e1)
    with accept True show ?thesis
      by (auto simp: http_accept_request_def http_pending_ok_def intro: http_step_quiet)
  next
    case (Inr hp)
    obtain host port where hp: "hp = (host, port)" by (cases hp)
    let ?c = "c\<lparr>hc_status := Http_Connecting, hc_is_connect_method := True, hc_cache := bytes_of connection_established\<rparr>"
    obtain e3 c3 where buf: "http_buffer_pending_payload rest ?c = (e3, c3)"
      by (cases "http_buffer_pending_payload rest ?c")
    from http_buffer_form [OF buf] have c3: "hc_status c3 = Http_Connecting" "cx_out c3 = cx_out c"
      "http_pending_ok c \<longrightarrow> http_pending_ok c3" by (auto simp: http_pending_ok_def)
    consider "hr_method req = ''CONNECT''" "e3 = None" "http_ask d host port c3 = (e, c2)"
      | "hr_method req = ''CONNECT''" "c2 = c3"
      | "hr_method req \<noteq> ''CONNECT''" "c2 = c\<lparr>hc_status := Http_Connecting, hc_cache := cache\<rparr>"
      | h where "hr_method req \<noteq> ''CONNECT''"
          "http_ask d host port (c\<lparr>hc_status := Http_Connecting, hc_cache := h @ rest\<rparr>) = (e, c2)"
      using accept True Inr hp buf
      by (cases e3; cases "rewrite_proxy_request_header req")
         (auto simp: http_accept_request_def Let_def split: if_splits)
    then show ?thesis
    proof cases
      case 1
      show ?thesis by (rule ask [OF 1(3) c3])
    next
      case 4
      show ?thesis by (rule ask [OF 4(2)]) (simp_all add: http_pending_ok_def)
    qed (use c3 in \<open>auto intro!: http_step_quiet simp: http_pending_ok_def\<close>)
  qed
qed

lemma http_request_step:
  assumes "http_on_request env d payload c = (e, c')"
  shows "http_step env d (hc_cache c @ payload) c c'"
proof (cases "header_end (hc_cache c @ payload)")
  case None
  with assms show ?thesis
    by (auto simp: http_on_request_def Let_def http_pending_ok_def split: if_splits intro!: http_step_quiet)
next
  case (Some i)
  consider "c' = c\<lparr>hc_cache := hc_cache c @ payload\<rparr>"
    | req where "he_read_request env (take (i + 4) (hc_cache c @ payload)) = Some req"
      "http_accept_request env d req (drop (i + 4) (hc_cache c @ payload)) (c\<lparr>hc_cache := hc_cache c @ payload\<rparr>) = (e, c')"
    using assms Some
    by (cases "he_read_request env (take (i + 4) (hc_cache c @ payload))")
       (auto simp: http_on_request_def Let_def split: if_splits)
  then show ?thesis
  proof cases
    case 1
    then show ?thesis by (auto intro!: http_step_quiet simp: http_pending_ok_def)
  next
    case 2
    then show ?thesis by (blast intro: http_accept_step)
  qed
qed

text \<open>The other operations, once a connection has been asked for.\<close>

lemma http_send_all_same:
  "cx_send_all d random k items (c :: http_context) = Some (e, c') \<Longrightarrow>
   hc_status c' = hc_status c \<and> hc_pending c' = hc_pending c \<and> hc_pending_bytes c' = hc_pending_bytes c"
  by (drule cx_send_all_same) auto

lemma http_send_upstream_speaks:
  assumes "http_send_upstream d random payload c = Some (e, c')" "asked (cx_out c)"
  shows "speaks (own_message d) (cx_out c) (cx_out c')"
    and "hc_status c' = hc_status c \<and> hc_pending c' = hc_pending c \<and> hc_pending_bytes c' = hc_pending_bytes c"
  using assms by (auto simp: http_send_upstream_def split: if_splits intro: cx_send_speaks elim: cx_send_same)

lemma http_flush_speaks:
  assumes "http_flush_pending_payloads d ans k c = Some (e, c')" "asked (cx_out c)"
  shows "speaks (own_message d) (cx_out c) (cx_out c')" and "hc_status c' = hc_status c"
    and "http_pending_ok c \<Longrightarrow> http_pending_ok c'"
proof -
  from assms(1) obtain e1 c1 where all: "cx_send_all d (an_random ans) k
      (map (\<lambda>p. (send_data_message d, p)) (filter (\<lambda>p. length p \<noteq> 0) (hc_pending c))) c = Some (e1, c1)"
    and c': "c' = (if e1 = None then c1\<lparr>hc_pending := [], hc_pending_bytes := 0\<rparr> else c1)"
    by (auto simp: http_flush_pending_payloads_def split: option.splits)
  have "speaks (own_message d) (cx_out c) (cx_out c1)"
    using all assms(2) by (rule cx_send_all_speaks) auto
  then show "speaks (own_message d) (cx_out c) (cx_out c')" by (simp add: c')
  show "hc_status c' = hc_status c" and "http_pending_ok c \<Longrightarrow> http_pending_ok c'"
    using http_send_all_same [OF all] by (auto simp: c' http_pending_ok_def)
qed

lemma http_on_connected_speaks:
  assumes "http_on_connected d ans c = Some (e, c')" "asked (cx_out c)"
  shows "speaks (own_message d) (cx_out c) (cx_out c') \<and> hc_status c' = Http_Running \<and>
    (http_pending_ok c \<longrightarrow> http_pending_ok c')"
proof (cases "hc_is_connect_method c")
  case True
  let ?c = "(c\<lparr>hc_status := Http_Running, cx_out := cx_out c @ [Write_Peer (hc_cache c)]\<rparr>)"
  have first: "speaks (own_message d) (cx_out c) (cx_out ?c)" by (simp add: speaks_def)
  show ?thesis
  proof (cases "an_write ans")
    case w: True
    with True assms have "http_flush_pending_payloads d ans 0 (?c\<lparr>hc_cache := []\<rparr>) = Some (e, c')"
      by (simp add: http_on_connected_def Let_def cx_emit_def)
    from http_flush_speaks [OF this] assms(2) first show ?thesis
      by (auto simp: http_pending_ok_def intro: speaks_trans)
  next
    case False
    with True assms first show ?thesis by (auto simp: http_on_connected_def Let_def cx_emit_def http_pending_ok_def)
  qed
next
  case False
  from assms(1) False obtain e1 c1 where up:
    "http_send_upstream d (an_random ans 0) (hc_cache c) (c\<lparr>hc_status := Http_Running\<rparr>) = Some (e1, c1)"
    and rest: "(e1 = None \<and> http_flush_pending_payloads d ans 1 (c1\<lparr>hc_cache := []\<rparr>) = Some (e, c')) \<or> c' = c1"
    by (auto simp: http_on_connected_def Let_def split: option.splits)
  from http_send_upstream_speaks [OF up] assms(2) have one: "speaks (own_message d) (cx_out c) (cx_out c1)"
    "hc_status c1 = Http_Running" "http_pending_ok c \<longrightarrow> http_pending_ok c1" by (auto simp: http_pending_ok_def)
  from rest show ?thesis
  proof (elim disjE conjE)
    assume flush: "http_flush_pending_payloads d ans 1 (c1\<lparr>hc_cache := []\<rparr>) = Some (e, c')"
    have a: "asked (cx_out c1)" using one(1) assms(2) by (rule speaks_asked)
    from http_flush_speaks [OF flush] a one show ?thesis
      by (auto simp: http_pending_ok_def intro: speaks_trans)
  qed (use one in simp)
qed

lemma http_reply_speaks:
  assumes "http_on_proxy_message d ans m c = Some (e, c')" "asked (cx_out c)" "http_good c" "own_message d m"
  shows "http_good c' \<and> speaks (own_message d) (cx_out c) (cx_out c')"
proof (cases m)
  case (O2IConnect t i success err)
  show ?thesis
  proof (cases success)
    case True
    with assms O2IConnect have "http_on_connected d ans c = Some (e, c')" by (simp add: http_on_proxy_message_def)
    from http_on_connected_speaks [OF this assms(2)] assms(2,3) show ?thesis
      by (auto simp: http_good_def intro: speaks_asked)
  next
    case False
    with assms O2IConnect show ?thesis
      by (auto simp: http_on_proxy_message_def cx_emit_def http_good_def http_pending_ok_def speaks_def)
  qed
next
  case (O2IRecvData t i data)
  consider decoded where "cx_write_ack d ans i data decoded c = (e, c')" | "c' = c"
    using assms O2IRecvData by (auto simp: http_on_proxy_message_def split: sum.splits)
  then show ?thesis
  proof cases
    case (1 decoded)
    have sp: "speaks (own_message d) (cx_out c) (cx_out c')"
      using 1 by (rule cx_write_ack_speaks) (use assms(4) O2IRecvData in \<open>simp add: own_message_def\<close>)
    from 1 obtain effects where "c' = c\<lparr>cx_out := effects\<rparr>" by (rule cx_write_ack_same)
    with assms(2,3) sp speaks_asked [OF sp assms(2)] show ?thesis by (simp add: http_good_def http_pending_ok_def)
  qed (use assms in simp)
next
  case (O2IDisconnect t i)
  with assms show ?thesis
    by (auto simp: http_on_proxy_message_def http_good_def http_pending_ok_def cx_close_def cx_emit_def speaks_def)
qed (use assms in \<open>simp_all add: http_on_proxy_message_def\<close>)

interpretation http: session_context "own_message d" cx_out http_good "new_http_context common"
  "\<lambda>c. Some (http_on_start c)" "http_on_peer_data env d" "http_on_proxy_message d" "http_on_stop d"
  for d env common
proof (unfold_locales, goal_cases)
  case (2 s)
  then show ?case
    by (auto simp: http_on_start_def new_http_context_def http_good_def http_pending_ok_def)
next
  case (3 s a e s')
  obtain ans payload where a: "a = (ans, payload)" by (cases a)
  show ?case
  proof (cases "hc_status s")
    case Http_Free
    with 3 a have "http_on_request env d payload s = (e, s')" by (simp add: http_on_peer_data_def)
    from http_request_step [OF this] 3(1) Http_Free show ?thesis by (auto simp: http_step_def http_good_def)
  next
    case Http_Connecting
    with 3 a have "http_buffer_pending_payload payload s = (e, s')" by (simp add: http_on_peer_data_def)
    from http_buffer_form [OF this] 3(1) Http_Connecting show ?thesis by (auto simp: http_good_def)
  next
    case Http_Running
    with 3 a have "http_send_upstream d (an_random ans 0) payload s = Some (e, s')"
      by (simp add: http_on_peer_data_def)
    from http_send_upstream_speaks [OF this] 3(1) Http_Running show ?thesis
      by (auto simp: http_good_def http_pending_ok_def intro: speaks_asked)
  next
    case Http_Invalid
    with 3 a show ?thesis by (simp add: http_on_peer_data_def)
  qed
next
  case (4 s m b e s')
  then show ?case using http_reply_speaks by blast
qed (simp_all add: new_http_context_def http_on_stop_def cx_stop_speaks)

text \<open>The credentials a client sends with the tunnel's user name and password are accepted.\<close>

lemma index_of_append: "c \<notin> set xs \<Longrightarrow> index_of c (xs @ c # ys) = Some (length xs)"
proof -
  assume "c \<notin> set xs"
  then have "takeWhile (\<lambda>x. x \<noteq> c) (xs @ c # ys) = xs" by (induction xs) auto
  then show ?thesis by (simp add: index_of_def Let_def)
qed

lemma http_authorized_accepts:
  assumes "CHR '':'' \<notin> set (cd_username d)"
    and "header_get ''Proxy-Authorization'' (hr_header req) =
      basic_prefix @ b64_encode (bytes_of (cd_username d @ '':'' @ cd_password d))"
  shows "http_authorized d req"
  using assms index_of_append [OF assms(1), of "cd_password d"]
  by (simp add: http_authorized_def Let_def)

text \<open>The first payload of a session without the credentials is answered by a refusal, never by a request
  for a connection.\<close>

lemma http_requires_credentials:
  assumes "http_on_peer_data env d (ans, payload) c = Some (e, c')" "http_good c" "\<not> asked (cx_out c)"
    and "\<And>n req. he_read_request env (take n (hc_cache c @ payload)) = Some req \<Longrightarrow> \<not> http_authorized d req"
  shows "\<not> asked (cx_out c')"
proof (cases "hc_status c")
  case Http_Free
  with assms(1) have "http_on_request env d payload c = (e, c')" by (simp add: http_on_peer_data_def)
  from http_request_step [OF this] assms(3,4) show ?thesis by (auto simp: http_step_def)
next
  case Http_Connecting
  with assms(1) have "http_buffer_pending_payload payload c = (e, c')" by (simp add: http_on_peer_data_def)
  from http_buffer_form [OF this] assms(3) show ?thesis by auto
next
  case Http_Running
  with assms(2,3) show ?thesis by (simp add: http_good_def)
next
  case Http_Invalid
  with assms show ?thesis by (simp add: http_on_peer_data_def)
qed

end
