(* ===== verification/Context_Shadowsocks.thy ===== *)
theory Context_Shadowsocks
  imports Proxy_Context
begin

text \<open>
  \<open>internal/proxy/context_shadowsocks.go\<close>: the contexts of Shadowsocks tunnels over TCP and UDP.

  The packages of \<open>Shadowsocks\<close> are an argument of what calls them.  A call is \<open>None\<close> when it waits in the
  flow controller, when the derivation of the key does not end, or when it uses what \<open>OnStart\<close> has not set.
\<close>

definition ss_max_pending_bytes :: nat where "ss_max_pending_bytes = 512 * 1024"
definition ss_max_pending_items :: nat where "ss_max_pending_items = 4096"
definition ss_tcp_item_overhead :: nat where "ss_tcp_item_overhead = 24"
definition ss_udp_item_overhead :: nat where "ss_udp_item_overhead = 40"

definition parse_shadowsocks_target :: "byte list \<Rightarrow> context_error + target_addr \<times> byte list" where
  "parse_shadowsocks_target payload =
     (case payload of
        [] \<Rightarrow> Inl Ctx_Empty_Target
      | atyp # rest \<Rightarrow>
          (case read_target_addr rest atyp of
             Inl e \<Rightarrow> Inl (Ctx_Addr e)
           | Inr None \<Rightarrow> Inl Ctx_Incomplete_Target
           | Inr (Some (target, n)) \<Rightarrow> Inr (target, drop (1 + n) payload)))"

section \<open>TCP\<close>

datatype ss_tcp_status = Ss_Init | Ss_Connecting | Ss_Running

record ss_tcp_context = ctx_base +
  st_status :: ss_tcp_status
  st_reader :: "stream_reader option"
  st_encoder :: "stream_writer option"
  st_pending :: "byte list list"
  st_pending_bytes :: nat

definition new_ss_tcp_context :: "session_common_info \<Rightarrow> ss_tcp_context" where
  "new_ss_tcp_context common =
     \<lparr>cx_common = common, cx_out = [], st_status = Ss_Init, st_reader = None, st_encoder = None,
      st_pending = [], st_pending_bytes = 0\<rparr>"

text \<open>The run of \<open>OnStart\<close> that ends with the second constructor's random bytes.\<close>

definition ss_tcp_on_start ::
  "ss_env \<Rightarrow> context_data \<Rightarrow> byte list \<Rightarrow> ss_tcp_context \<Rightarrow> (context_error option \<times> ss_tcp_context) option" where
  "ss_tcp_on_start env d random c =
     (case new_stream_reader env (cd_method d) (cd_password d) of
        None \<Rightarrow> None
      | Some (Inl e) \<Rightarrow> Some (Some (Ctx_Shadowsocks e), c)
      | Some (Inr reader) \<Rightarrow>
          (case new_stream_writer env (cd_method d) (cd_password d) random of
             None \<Rightarrow> None
           | Some (Inl e) \<Rightarrow> Some (Some (Ctx_Shadowsocks e), c)
           | Some (Inr encoder) \<Rightarrow> Some (None, c\<lparr>st_reader := Some reader, st_encoder := Some encoder\<rparr>)))"

definition ss_tcp_buffer_pending :: "byte list \<Rightarrow> ss_tcp_context \<Rightarrow> context_error option \<times> ss_tcp_context" where
  "ss_tcp_buffer_pending payload c =
     (if length payload = 0 then (None, c)
      else let cost = ss_tcp_item_overhead + length payload in
        if length (st_pending c) \<ge> ss_max_pending_items \<or> st_pending_bytes c + cost > ss_max_pending_bytes
        then (Some Ctx_Pending_Too_Large, c)
        else (None, c\<lparr>st_pending := st_pending c @ [payload], st_pending_bytes := st_pending_bytes c + cost\<rparr>))"

definition ss_tcp_handle_chunk ::
  "context_data \<Rightarrow> byte list \<Rightarrow> byte list \<Rightarrow> ss_tcp_context \<Rightarrow> (context_error option \<times> ss_tcp_context) option" where
  "ss_tcp_handle_chunk d random chunk c =
     (if length chunk = 0 then Some (None, c)
      else (case st_status c of
              Ss_Init \<Rightarrow>
                (case parse_shadowsocks_target chunk of
                   Inl e \<Rightarrow> Some (Some e, c)
                 | Inr (target, body) \<Rightarrow>
                     let c = cx_connect d (ucast mode_shadowsocks) True (target_addr_string target)
                               (c\<lparr>st_status := Ss_Connecting\<rparr>)
                     in if length body > 0 then Some (ss_tcp_buffer_pending body c) else Some (None, c))
            | Ss_Connecting \<Rightarrow> Some (ss_tcp_buffer_pending chunk c)
            | Ss_Running \<Rightarrow> cx_send d random (send_data_message d) chunk c))"

fun ss_tcp_handle_chunks ::
  "context_data \<Rightarrow> (nat \<Rightarrow> byte list) \<Rightarrow> nat \<Rightarrow> byte list list \<Rightarrow> ss_tcp_context
    \<Rightarrow> (context_error option \<times> ss_tcp_context) option" where
  "ss_tcp_handle_chunks d random k [] c = Some (None, c)"
| "ss_tcp_handle_chunks d random k (chunk # chunks) c =
     (case ss_tcp_handle_chunk d (random k) chunk c of
        None \<Rightarrow> None
      | Some (Some e, c) \<Rightarrow> Some (Some e, c)
      | Some (None, c) \<Rightarrow> ss_tcp_handle_chunks d random (k + 1) chunks c)"

definition ss_tcp_on_peer_data ::
  "ss_env \<Rightarrow> context_data \<Rightarrow> answers \<times> byte list \<Rightarrow> ss_tcp_context \<Rightarrow> (context_error option \<times> ss_tcp_context) option" where
  "ss_tcp_on_peer_data env d = (\<lambda>(ans, payload) c.
     case st_reader c of
       None \<Rightarrow> None
     | Some reader \<Rightarrow>
         (case ss_feed env reader payload of
            (reader, Inl e) \<Rightarrow> Some (Some (Ctx_Shadowsocks e), c\<lparr>st_reader := Some reader\<rparr>)
          | (reader, Inr chunks) \<Rightarrow>
              ss_tcp_handle_chunks d (an_random ans) 0 chunks (c\<lparr>st_reader := Some reader\<rparr>)))"

definition ss_tcp_on_proxy_message ::
  "context_data \<Rightarrow> answers \<Rightarrow> proxy_message \<Rightarrow> ss_tcp_context \<Rightarrow> (context_error option \<times> ss_tcp_context) option" where
  "ss_tcp_on_proxy_message d ans message c =
     (case message of
        O2IConnect t i success e \<Rightarrow>
          if \<not> success then (if st_reader c \<noteq> None then Some (cx_close ans c) else Some (None, c))
          else if st_status c \<noteq> Ss_Connecting then Some (None, c)
          else let pending = st_pending c in
            cx_send_all d (an_random ans) 0 (map (\<lambda>p. (send_data_message d, p)) pending)
              (c\<lparr>st_status := Ss_Running, st_pending := [], st_pending_bytes := 0\<rparr>)
      | O2IRecvData t i data \<Rightarrow>
          (case decode_data (cd_crypto d) (cx_common c) data of
             Inl e \<Rightarrow> Some (Some (Ctx_Decode e), c)
           | Inr decoded \<Rightarrow>
               (case st_encoder c of
                  None \<Rightarrow> None
                | Some w \<Rightarrow>
                    (case seal_data w decoded of
                       (w, packet) \<Rightarrow> Some (cx_write_ack d ans i data packet (c\<lparr>st_encoder := Some w\<rparr>)))))
      | O2IDisconnect t i \<Rightarrow> if st_reader c \<noteq> None then Some (cx_close ans c) else Some (None, c)
      | _ \<Rightarrow> Some (None, c))"

definition ss_tcp_on_stop :: "context_data \<Rightarrow> ss_tcp_context \<Rightarrow> ss_tcp_context" where
  "ss_tcp_on_stop d c = cx_stop d c"

definition ss_tcp_ready_for_read :: "ss_tcp_context \<Rightarrow> bool" where
  "ss_tcp_ready_for_read c = True"

section \<open>UDP\<close>

record ss_udp_context = ctx_base +
  su_connected :: bool
  su_pending :: "(string \<times> byte list) list"
  su_pending_bytes :: nat

definition new_ss_udp_context :: "session_common_info \<Rightarrow> ss_udp_context" where
  "new_ss_udp_context common =
     \<lparr>cx_common = common, cx_out = [], su_connected = False, su_pending = [], su_pending_bytes = 0\<rparr>"

definition ss_udp_on_start :: "context_data \<Rightarrow> ss_udp_context \<Rightarrow> context_error option \<times> ss_udp_context" where
  "ss_udp_on_start d c =
     (if \<not> is_supported_shadowsocks_method (cd_method d) then (Some (Ctx_Shadowsocks Unsupported_Method), c)
      else (None, cx_connect d (ucast mode_shadowsocks) False '''' c))"

definition ss_udp_buffer_pending ::
  "string \<Rightarrow> byte list \<Rightarrow> ss_udp_context \<Rightarrow> context_error option \<times> ss_udp_context" where
  "ss_udp_buffer_pending target body c =
     (let cost = ss_udp_item_overhead + length target + length body in
      if length (su_pending c) \<ge> ss_max_pending_items \<or> su_pending_bytes c + cost > ss_max_pending_bytes
      then (Some Ctx_Pending_Too_Large, c)
      else (None, c\<lparr>su_pending := su_pending c @ [(target, body)], su_pending_bytes := su_pending_bytes c + cost\<rparr>))"

definition send_to_message :: "context_data \<Rightarrow> string \<Rightarrow> byte list \<Rightarrow> proxy_message" where
  "send_to_message d target encoded = I2OSendToData (cd_tunnel_id d) (cd_session_id d) encoded target"

definition ss_udp_on_peer_data ::
  "ss_env \<Rightarrow> context_data \<Rightarrow> answers \<times> byte list \<Rightarrow> ss_udp_context \<Rightarrow> (context_error option \<times> ss_udp_context) option" where
  "ss_udp_on_peer_data env d = (\<lambda>(ans, payload) c.
     case decrypt_packet env (cd_method d) (cd_password d) payload of
       None \<Rightarrow> None
     | Some (Inl e) \<Rightarrow> Some (Some (Ctx_Shadowsocks e), c)
     | Some (Inr decoded) \<Rightarrow>
         (case parse_shadowsocks_target decoded of
            Inl e \<Rightarrow> Some (Some e, c)
          | Inr (target, body) \<Rightarrow>
              if \<not> su_connected c then Some (ss_udp_buffer_pending (target_addr_string target) body c)
              else cx_send d (an_random ans 0) (send_to_message d (target_addr_string target)) body c))"

definition ss_udp_on_proxy_message ::
  "ss_env \<Rightarrow> context_data \<Rightarrow> answers \<Rightarrow> proxy_message \<Rightarrow> ss_udp_context
    \<Rightarrow> (context_error option \<times> ss_udp_context) option" where
  "ss_udp_on_proxy_message env d ans message c =
     (case message of
        O2IConnect t i success e \<Rightarrow>
          if \<not> success then Some (Some (Ctx_Connect_Failed e), c)
          else let pending = su_pending c in
            cx_send_all d (an_random ans) 0 (map (\<lambda>(target, body). (send_to_message d target, body)) pending)
              (c\<lparr>su_connected := True, su_pending := [], su_pending_bytes := 0\<rparr>)
      | O2IRecvDataFrom t i data remote_addr \<Rightarrow>
          (case decode_data (cd_crypto d) (cx_common c) data of
             Inl e \<Rightarrow> Some (Some (Ctx_Decode e), c)
           | Inr decoded \<Rightarrow>
               (case an_resolve ans remote_addr of
                  None \<Rightarrow> Some (Some Ctx_Resolve, c)
                | Some remote \<Rightarrow>
                    (case target_addr_to_bytes \<lparr>ta_host = '''', ta_port = ua_port remote, ta_ip = ua_ip remote\<rparr> of
                       Inl e \<Rightarrow> Some (Some (Ctx_Addr e), c)
                     | Inr target_bytes \<Rightarrow>
                         (case encrypt_packet env (cd_method d) (cd_password d) (an_random ans 0)
                                 (target_bytes @ decoded) of
                            None \<Rightarrow> None
                          | Some (Inl e) \<Rightarrow> Some (Some (Ctx_Shadowsocks e), c)
                          | Some (Inr packet) \<Rightarrow> Some (cx_write_ack d ans i data packet c)))))
      | _ \<Rightarrow> Some (None, c))"

definition ss_udp_on_stop :: "context_data \<Rightarrow> ss_udp_context \<Rightarrow> ss_udp_context" where
  "ss_udp_on_stop d c = cx_stop d c"

definition ss_udp_ready_for_read :: "ss_udp_context \<Rightarrow> bool" where
  "ss_udp_ready_for_read c = True"

section \<open>The contexts keep the contract\<close>

definition ss_tcp_pending_ok :: "ss_tcp_context \<Rightarrow> bool" where
  "ss_tcp_pending_ok c \<longleftrightarrow>
     st_pending_bytes c = (\<Sum>p \<leftarrow> st_pending c. ss_tcp_item_overhead + length p) \<and>
     st_pending_bytes c \<le> ss_max_pending_bytes \<and> length (st_pending c) \<le> ss_max_pending_items"

definition ss_tcp_good :: "ss_tcp_context \<Rightarrow> bool" where
  "ss_tcp_good c \<longleftrightarrow> (st_status c = Ss_Init \<longleftrightarrow> \<not> asked (cx_out c)) \<and> ss_tcp_pending_ok c"

lemma ss_tcp_buffer_form:
  "ss_tcp_buffer_pending payload c = (e, c') \<Longrightarrow>
   cx_out c' = cx_out c \<and> st_status c' = st_status c \<and> (ss_tcp_pending_ok c \<longrightarrow> ss_tcp_pending_ok c')"
  by (auto simp: ss_tcp_buffer_pending_def ss_tcp_pending_ok_def Let_def split: if_splits)

lemma ss_tcp_send_all_same:
  "cx_send_all d random k items (c :: ss_tcp_context) = Some (e, c') \<Longrightarrow>
   st_status c' = st_status c \<and> st_pending c' = st_pending c \<and> st_pending_bytes c' = st_pending_bytes c"
  by (drule cx_send_all_same) auto

lemma ss_tcp_handle_chunk_speaks:
  assumes "ss_tcp_handle_chunk d random chunk c = Some (e, c')" "ss_tcp_good c"
  shows "ss_tcp_good c' \<and> speaks (own_message d) (cx_out c) (cx_out c')"
proof (cases "st_status c")
  case Ss_Init
  have conn: "speaks (own_message d) (cx_out c) (cx_out (cx_connect d ty tcp addr (c\<lparr>st_status := s\<rparr>)))" for ty tcp addr s
    using Ss_Init assms(2) cx_connect_speaks [of "c\<lparr>st_status := s\<rparr>" d ty tcp addr] by (simp add: ss_tcp_good_def)
  show ?thesis
  proof (cases "chunk = [] \<or> (\<exists>e. parse_shadowsocks_target chunk = Inl e)")
    case True
    with Ss_Init assms show ?thesis by (cases "chunk = []") (auto simp: ss_tcp_handle_chunk_def)
  next
    case False
    then obtain target body where parse: "chunk \<noteq> []" "parse_shadowsocks_target chunk = Inr (target, body)"
      by (cases "parse_shadowsocks_target chunk") auto
    let ?c = "cx_connect d (ucast mode_shadowsocks) True (target_addr_string target) (c\<lparr>st_status := Ss_Connecting\<rparr>)"
    have fields: "st_status ?c = Ss_Connecting" "ss_tcp_pending_ok ?c = ss_tcp_pending_ok c"
      by (simp_all add: cx_connect_def cx_emit_def ss_tcp_pending_ok_def)
    have "ss_tcp_buffer_pending body ?c = (e, c') \<or> c' = ?c"
      using assms(1) parse Ss_Init by (auto simp: ss_tcp_handle_chunk_def Let_def split: if_splits)
    then have "cx_out c' = cx_out ?c \<and> st_status c' = Ss_Connecting \<and> ss_tcp_pending_ok c'"
      using ss_tcp_buffer_form [of body ?c e c'] fields assms(2) by (auto simp: ss_tcp_good_def)
    then show ?thesis using conn by (simp add: ss_tcp_good_def)
  qed
next
  case Ss_Connecting
  with assms have "c' = c \<or> ss_tcp_buffer_pending chunk c = (e, c')"
    by (cases "chunk = []") (auto simp: ss_tcp_handle_chunk_def)
  then show ?thesis using ss_tcp_buffer_form [of chunk c e c'] assms(2) by (auto simp: ss_tcp_good_def)
next
  case Ss_Running
  with assms have "c' = c \<or> cx_send d random (send_data_message d) chunk c = Some (e, c')"
    by (cases "chunk = []") (auto simp: ss_tcp_handle_chunk_def)
  then show ?thesis
  proof
    assume send: "cx_send d random (send_data_message d) chunk c = Some (e, c')"
    from Ss_Running assms(2) have a: "asked (cx_out c)" by (auto simp: ss_tcp_good_def)
    have sp: "speaks (own_message d) (cx_out c) (cx_out c')" by (rule cx_send_speaks [OF send a]) simp
    from send obtain common es where "c' = c\<lparr>cx_common := common, cx_out := es\<rparr>" by (rule cx_send_same)
    with sp speaks_asked [OF sp a] a assms(2) Ss_Running show ?thesis
      by (simp add: ss_tcp_good_def ss_tcp_pending_ok_def)
  qed (use assms in simp)
qed

lemma ss_tcp_handle_chunks_speaks:
  "ss_tcp_handle_chunks d random k chunks c = Some (e, c') \<Longrightarrow> ss_tcp_good c \<Longrightarrow>
   ss_tcp_good c' \<and> speaks (own_message d) (cx_out c) (cx_out c')"
proof (induction chunks arbitrary: k c)
  case (Cons chunk chunks)
  then obtain e1 c1 where one: "ss_tcp_handle_chunk d (random k) chunk c = Some (e1, c1)"
    by (auto split: option.splits)
  from ss_tcp_handle_chunk_speaks [OF this Cons.prems(2)] have
    first: "ss_tcp_good c1" "speaks (own_message d) (cx_out c) (cx_out c1)" by auto
  show ?case
  proof (cases e1)
    case None
    with Cons.prems(1) one have "ss_tcp_handle_chunks d random (k + 1) chunks c1 = Some (e, c')" by simp
    from Cons.IH [OF this first(1)] first(2) speaks_trans show ?thesis by blast
  next
    case (Some e')
    with Cons.prems(1) one first show ?thesis by simp
  qed
qed simp

lemma ss_tcp_reply_speaks:
  assumes "ss_tcp_on_proxy_message d ans m c = Some (e, c')" "ss_tcp_good c" "asked (cx_out c)" "own_message d m"
  shows "ss_tcp_good c' \<and> speaks (own_message d) (cx_out c) (cx_out c')"
proof -
  have close: "ss_tcp_good c' \<and> speaks (own_message d) (cx_out c) (cx_out c')" if "cx_close ans c = (e, c')"
    using that assms(2) by (auto simp: cx_close_def cx_emit_def ss_tcp_good_def ss_tcp_pending_ok_def speaks_def)
  show ?thesis
  proof (cases m)
    case (O2IConnect t i success err)
    show ?thesis
    proof (cases "success \<and> st_status c = Ss_Connecting")
      case True
      let ?c = "c\<lparr>st_status := Ss_Running, st_pending := [], st_pending_bytes := 0\<rparr>"
      from True assms O2IConnect have all: "cx_send_all d (an_random ans) 0
          (map (\<lambda>p. (send_data_message d, p)) (st_pending c)) ?c = Some (e, c')"
        by (simp add: ss_tcp_on_proxy_message_def Let_def)
      have "speaks (own_message d) (cx_out ?c) (cx_out c')"
        by (rule cx_send_all_speaks [OF all]) (use assms(3) in auto)
      with ss_tcp_send_all_same [OF all] assms(2,3) show ?thesis
        by (auto simp: ss_tcp_good_def ss_tcp_pending_ok_def intro: speaks_asked)
    next
      case False
      with assms O2IConnect close show ?thesis by (auto simp: ss_tcp_on_proxy_message_def split: if_splits)
    qed
  next
    case (O2IRecvData t i data)
    consider w packet where "cx_write_ack d ans i data packet (c\<lparr>st_encoder := Some w\<rparr>) = (e, c')" | "c' = c"
      using assms(1) O2IRecvData
      by (auto simp: ss_tcp_on_proxy_message_def split: sum.splits option.splits prod.splits)
    then show ?thesis
    proof cases
      case (1 w packet)
      have sp: "speaks (own_message d) (cx_out (c\<lparr>st_encoder := Some w\<rparr>)) (cx_out c')"
        using 1 by (rule cx_write_ack_speaks) (use assms(4) O2IRecvData in \<open>simp add: own_message_def\<close>)
      from 1 obtain es where "c' = c\<lparr>st_encoder := Some w, cx_out := es\<rparr>" by (rule cx_write_ack_same)
      with sp speaks_asked [OF sp] assms(2,3) show ?thesis by (auto simp: ss_tcp_good_def ss_tcp_pending_ok_def)
    qed (use assms in simp)
  next
    case (O2IDisconnect t i)
    with assms close show ?thesis by (auto simp: ss_tcp_on_proxy_message_def split: if_splits)
  qed (use assms in \<open>simp_all add: ss_tcp_on_proxy_message_def\<close>)
qed

interpretation ss_tcp: session_context "own_message d" cx_out ss_tcp_good "new_ss_tcp_context common"
  "ss_tcp_on_start env d random" "ss_tcp_on_peer_data env d" "ss_tcp_on_proxy_message d" "ss_tcp_on_stop d"
  for env d common random
proof (unfold_locales, goal_cases)
  case (2 s)
  then show ?case
    by (auto simp: ss_tcp_on_start_def new_ss_tcp_context_def ss_tcp_good_def ss_tcp_pending_ok_def
        split: option.splits sum.splits)
next
  case (3 s a e s')
  obtain ans payload where a: "a = (ans, payload)" by (cases a)
  from 3(1) have good: "ss_tcp_good (s\<lparr>st_reader := r\<rparr>)" for r
    by (simp add: ss_tcp_good_def ss_tcp_pending_ok_def)
  from 3 a consider r where "s' = s\<lparr>st_reader := r\<rparr>"
    | r chunks where "ss_tcp_handle_chunks d (an_random ans) 0 chunks (s\<lparr>st_reader := r\<rparr>) = Some (e, s')"
    by (auto simp: ss_tcp_on_peer_data_def split: option.splits prod.splits sum.splits)
  then show ?case
  proof cases
    case (1 r)
    with good show ?thesis by simp
  next
    case (2 r chunks)
    from ss_tcp_handle_chunks_speaks [OF 2 good] show ?thesis by simp
  qed
next
  case (4 s m b e s')
  then show ?case using ss_tcp_reply_speaks by blast
qed (simp_all add: new_ss_tcp_context_def ss_tcp_on_stop_def cx_stop_speaks)

lemma send_to_own [simp]: "own_message d (send_to_message d a x)" "\<not> is_connect (send_to_message d a x)"
  by (simp_all add: own_message_def send_to_message_def)

lemma ss_udp_input_speaks:
  assumes "ss_udp_on_peer_data env d (ans, payload) c = Some (e, c')" "asked (cx_out c)"
  shows "speaks (own_message d) (cx_out c) (cx_out c')"
proof -
  from assms(1) consider "c' = c" | target body where "ss_udp_buffer_pending target body c = (e, c')"
    | target body where "cx_send d (an_random ans 0) (send_to_message d target) body c = Some (e, c')"
    by (auto simp: ss_udp_on_peer_data_def split: option.splits sum.splits if_splits)
  then show ?thesis
  proof cases
    case (2 target body)
    then show ?thesis by (auto simp: ss_udp_buffer_pending_def Let_def split: if_splits)
  next
    case (3 target body)
    from 3 assms(2) show ?thesis by (rule cx_send_speaks) simp
  qed simp
qed

lemma ss_udp_reply_speaks:
  assumes "ss_udp_on_proxy_message env d ans m c = Some (e, c')" "asked (cx_out c)" "own_message d m"
  shows "speaks (own_message d) (cx_out c) (cx_out c')"
proof -
  from assms(1) consider "c' = c"
    | items where "cx_send_all d (an_random ans) 0 (map (\<lambda>(target, body). (send_to_message d target, body)) items)
        (c\<lparr>su_connected := True, su_pending := [], su_pending_bytes := 0\<rparr>) = Some (e, c')"
    | t i data a packet where "m = O2IRecvDataFrom t i data a" "cx_write_ack d ans i data packet c = (e, c')"
    by (cases m) (auto simp: ss_udp_on_proxy_message_def Let_def split: option.splits sum.splits if_splits)
  then show ?thesis
  proof cases
    case (2 items)
    have "speaks (own_message d) (cx_out (c\<lparr>su_connected := True, su_pending := [], su_pending_bytes := 0\<rparr>)) (cx_out c')"
      by (rule cx_send_all_speaks [OF 2]) (use assms(2) in auto)
    then show ?thesis by simp
  next
    case (3 t i data a packet)
    from 3(2) show ?thesis by (rule cx_write_ack_speaks) (use assms(3) 3(1) in \<open>simp add: own_message_def\<close>)
  qed simp
qed

interpretation ss_udp: session_context "own_message d" cx_out "\<lambda>c. asked (cx_out c)" "new_ss_udp_context common"
  "\<lambda>c. Some (ss_udp_on_start d c)" "ss_udp_on_peer_data env d" "ss_udp_on_proxy_message env d" "ss_udp_on_stop d"
  for env d common
proof (unfold_locales, goal_cases)
  case (2 s)
  then have "s = cx_connect d (ucast mode_shadowsocks) False '''' (new_ss_udp_context common)"
    by (auto simp: ss_udp_on_start_def split: if_splits)
  then show ?case using cx_connect_speaks [of "new_ss_udp_context common" d] by (simp add: new_ss_udp_context_def)
next
  case (3 s a e s')
  then show ?case using ss_udp_input_speaks speaks_asked by (cases a) blast
next
  case (4 s m b e s')
  then show ?case using ss_udp_reply_speaks speaks_asked by blast
qed (simp_all add: new_ss_udp_context_def ss_udp_on_stop_def cx_stop_speaks)

section \<open>What is sent upstream\<close>

text \<open>The bytes the outlet decodes from the data messages of a session, in order.\<close>

fun upstream :: "crypto_env \<Rightarrow> session_common_info \<Rightarrow> proxy_message list \<Rightarrow> byte list" where
  "upstream ce common [] = []"
| "upstream ce common (I2OSendData t i data # ms) =
     (case decode_data ce common data of Inr x \<Rightarrow> x | Inl _ \<Rightarrow> []) @ upstream ce common ms"
| "upstream ce common (_ # ms) = upstream ce common ms"

lemma upstream_append [simp]: "upstream ce common (ms @ ns) = upstream ce common ms @ upstream ce common ns"
  by (induction ms rule: upstream.induct) auto

text \<open>A session's common part: only the flow controller changes.\<close>

definition same_common :: "session_common_info \<Rightarrow> session_common_info \<Rightarrow> bool" where
  "same_common common c \<longleftrightarrow> (\<exists>f. c = common\<lparr>sc_flow := f\<rparr>)"

lemma same_common_refl [simp]: "same_common common common"
  unfolding same_common_def by (rule exI [of _ "sc_flow common"]) simp

lemma encode_same_common:
  "encode_data_and_limit ce c random data = Some (r, c') \<Longrightarrow> same_common common c \<Longrightarrow> same_common common c'"
  by (auto simp: encode_data_and_limit_def Let_def same_common_def split: sum.splits option.splits prod.splits if_splits)

lemma cx_send_upstream:
  assumes "cx_send d random (send_data_message d) payload c = Some (None, c')" "lawful_crypto (cd_crypto d)"
    "length payload \<le> lz4_max_decompressed_size"
    and "common = new_session_common_info compressed meth key" "same_common common (cx_common c)"
  shows "upstream (cd_crypto d) common (sent (cx_out c')) = upstream (cd_crypto d) common (sent (cx_out c)) @ payload"
    and "same_common common (cx_common c')"
proof -
  from assms(1) obtain encoded com where enc:
    "encode_data_and_limit (cd_crypto d) (cx_common c) random payload = Some (Inr encoded, com)"
    "c' = cx_emit (Send_Proxy (send_data_message d encoded)) (c\<lparr>cx_common := com\<rparr>)"
    by (auto simp: cx_send_def split: option.splits prod.splits sum.splits)
  from assms(4,5) obtain f where "cx_common c = (new_session_common_info compressed meth key)\<lparr>sc_flow := f\<rparr>"
    by (auto simp: same_common_def)
  then have dec: "decode_data (cd_crypto d) common encoded = Inr payload"
    using session_data_decodes [OF assms(2,3), where compressed = compressed and meth = meth and key = key and f = f] enc(1) assms(4) by simp
  then show "upstream (cd_crypto d) common (sent (cx_out c')) = upstream (cd_crypto d) common (sent (cx_out c)) @ payload"
    by (simp add: enc(2) send_data_message_def)
  show "same_common common (cx_common c')" using encode_same_common [OF enc(1) assms(5)] by (simp add: enc(2) cx_emit_def)
qed

lemma cx_send_all_upstream:
  assumes "lawful_crypto (cd_crypto d)" "common = new_session_common_info compressed meth key"
  shows "cx_send_all d random k (map (\<lambda>p. (send_data_message d, p)) ps) c = Some (None, c') \<Longrightarrow>
    (\<And>p. p \<in> set ps \<Longrightarrow> length p \<le> lz4_max_decompressed_size) \<Longrightarrow> same_common common (cx_common c) \<Longrightarrow>
    upstream (cd_crypto d) common (sent (cx_out c')) = upstream (cd_crypto d) common (sent (cx_out c)) @ concat ps \<and>
    same_common common (cx_common c')"
proof (induction ps arbitrary: k c)
  case (Cons p ps)
  from Cons.prems(1) obtain c1 where one: "cx_send d (random k) (send_data_message d) p c = Some (None, c1)"
    and rest: "cx_send_all d random (k + 1) (map (\<lambda>p. (send_data_message d, p)) ps) c1 = Some (None, c')"
    by (auto split: option.splits)
  have "length p \<le> lz4_max_decompressed_size" using Cons.prems(2) by simp
  from cx_send_upstream [OF one assms(1) this assms(2) Cons.prems(3)] Cons.IH [OF rest] Cons.prems(2)
  show ?case by simp
qed simp

text \<open>A run of the TCP context without errors: the chunks its reader has handed out, in order, and the
  state.\<close>

inductive ss_tcp_run ::
  "ss_env \<Rightarrow> context_data \<Rightarrow> session_common_info \<Rightarrow> byte list list \<Rightarrow> ss_tcp_context \<Rightarrow> bool"
  for env d common where
  tcp_start: "ss_tcp_on_start env d random (new_ss_tcp_context common) = Some (None, c) \<Longrightarrow> ss_tcp_run env d common [] c"
| tcp_peer: "ss_tcp_run env d common chunks c \<Longrightarrow> st_reader c = Some r \<Longrightarrow> ss_feed env r payload = (r', Inr os) \<Longrightarrow>
    ss_tcp_on_peer_data env d (ans, payload) c = Some (None, c') \<Longrightarrow> ss_tcp_run env d common (chunks @ os) c'"
| tcp_reply: "ss_tcp_run env d common chunks c \<Longrightarrow> ss_tcp_on_proxy_message d ans m c = Some (None, c') \<Longrightarrow>
    ss_tcp_run env d common chunks c'"

text \<open>Of the chunks so far the first that is not empty names the target, and what follows it is upstream
  or pending.\<close>

definition ss_tcp_delivers :: "context_data \<Rightarrow> session_common_info \<Rightarrow> byte list list \<Rightarrow> ss_tcp_context \<Rightarrow> bool" where
  "ss_tcp_delivers d common chunks c \<longleftrightarrow>
     same_common common (cx_common c) \<and>
     (\<forall>p \<in> set (st_pending c). length p \<le> lz4_max_decompressed_size) \<and>
     (case filter (\<lambda>p. p \<noteq> []) chunks of
        [] \<Rightarrow> st_status c = Ss_Init \<and> st_pending c = [] \<and> upstream (cd_crypto d) common (sent (cx_out c)) = []
      | first # rest \<Rightarrow>
          st_status c \<noteq> Ss_Init \<and> (st_status c = Ss_Running \<longrightarrow> st_pending c = []) \<and>
          (\<exists>target body. parse_shadowsocks_target first = Inr (target, body) \<and>
             upstream (cd_crypto d) common (sent (cx_out c)) @ concat (st_pending c) = body @ concat rest))"

lemma parse_target_shorter: "parse_shadowsocks_target p = Inr (target, body) \<Longrightarrow> length body \<le> length p"
  by (auto simp: parse_shadowsocks_target_def split: list.splits sum.splits option.splits)

lemma ss_tcp_buffered:
  "ss_tcp_buffer_pending payload c = (None, c') \<Longrightarrow>
   concat (st_pending c') = concat (st_pending c) @ payload \<and> set (st_pending c') \<subseteq> set (st_pending c) \<union> {payload} \<and>
   cx_common c' = cx_common c \<and> cx_out c' = cx_out c \<and> st_status c' = st_status c"
  by (auto simp: ss_tcp_buffer_pending_def Let_def split: if_splits)

lemma ss_tcp_chunk_delivers:
  assumes "ss_tcp_handle_chunk d random chunk c = Some (None, c')" "ss_tcp_delivers d common chunks c"
    and law: "lawful_crypto (cd_crypto d)" "common = new_session_common_info compressed meth key"
    and small: "length chunk \<le> lz4_max_decompressed_size"
  shows "ss_tcp_delivers d common (chunks @ [chunk]) c'"
proof (cases "chunk = []")
  case True
  with assms(1,2) show ?thesis by (simp add: ss_tcp_handle_chunk_def ss_tcp_delivers_def)
next
  case False
  show ?thesis
  proof (cases "st_status c")
    case Ss_Init
    with assms(1) False obtain target body where parse: "parse_shadowsocks_target chunk = Inr (target, body)"
      and c': "c' = cx_connect d (ucast mode_shadowsocks) True (target_addr_string target) (c\<lparr>st_status := Ss_Connecting\<rparr>)
        \<and> body = [] \<or> ss_tcp_buffer_pending body
        (cx_connect d (ucast mode_shadowsocks) True (target_addr_string target) (c\<lparr>st_status := Ss_Connecting\<rparr>)) = (None, c')"
      by (auto simp: ss_tcp_handle_chunk_def Let_def split: sum.splits if_splits)
    from assms(2) Ss_Init have "filter (\<lambda>p. p \<noteq> []) chunks = []" "st_pending c = []"
      "upstream (cd_crypto d) common (sent (cx_out c)) = []" "same_common common (cx_common c)"
      by (auto simp: ss_tcp_delivers_def split: list.splits)
    with c' parse False small parse_target_shorter [OF parse] show ?thesis
      by (auto simp: ss_tcp_delivers_def cx_connect_def cx_emit_def dest!: ss_tcp_buffered)
  next
    case Ss_Connecting
    with assms(1) False have "ss_tcp_buffer_pending chunk c = (None, c')" by (simp add: ss_tcp_handle_chunk_def)
    from ss_tcp_buffered [OF this] assms(2) Ss_Connecting False small show ?thesis
      by (auto simp: ss_tcp_delivers_def split: list.splits)
  next
    case Ss_Running
    with assms(1) False have send: "cx_send d random (send_data_message d) chunk c = Some (None, c')"
      by (simp add: ss_tcp_handle_chunk_def)
    from assms(2) have same: "same_common common (cx_common c)" by (simp add: ss_tcp_delivers_def)
    from send obtain com es where "c' = c\<lparr>cx_common := com, cx_out := es\<rparr>" by (rule cx_send_same)
    with cx_send_upstream [OF send law(1) small law(2) same] assms(2) Ss_Running False show ?thesis
      by (auto simp: ss_tcp_delivers_def split: list.splits)
  qed
qed

lemma ss_tcp_chunks_deliver:
  assumes "lawful_crypto (cd_crypto d)" "common = new_session_common_info compressed meth key"
  shows "ss_tcp_handle_chunks d random k os c = Some (None, c') \<Longrightarrow> ss_tcp_delivers d common chunks c \<Longrightarrow>
    (\<And>p. p \<in> set os \<Longrightarrow> length p \<le> lz4_max_decompressed_size) \<Longrightarrow> ss_tcp_delivers d common (chunks @ os) c'"
proof (induction os arbitrary: k c chunks)
  case (Cons p os)
  from Cons.prems(1) obtain c1 where one: "ss_tcp_handle_chunk d (random k) p c = Some (None, c1)"
    and rest: "ss_tcp_handle_chunks d random (k + 1) os c1 = Some (None, c')"
    by (auto split: option.splits)
  have "length p \<le> lz4_max_decompressed_size" using Cons.prems(3) by simp
  from Cons.IH [OF rest ss_tcp_chunk_delivers [OF one Cons.prems(2) assms this]] Cons.prems(3)
  show ?case by simp
qed simp

lemma ss_tcp_reply_delivers:
  assumes "ss_tcp_on_proxy_message d ans m c = Some (None, c')" "ss_tcp_delivers d common chunks c"
    and law: "lawful_crypto (cd_crypto d)" "common = new_session_common_info compressed meth key"
  shows "ss_tcp_delivers d common chunks c'"
proof -
  have same: "same_common common (cx_common c)"
    and small: "\<And>p. p \<in> set (st_pending c) \<Longrightarrow> length p \<le> lz4_max_decompressed_size"
    using assms(2) by (auto simp: ss_tcp_delivers_def)
  have quiet: "ss_tcp_delivers d common chunks c'"
    if "cx_common c' = cx_common c" "st_status c' = st_status c" "st_pending c' = st_pending c"
      "upstream (cd_crypto d) common (sent (cx_out c')) = upstream (cd_crypto d) common (sent (cx_out c))"
    using assms(2) that by (simp add: ss_tcp_delivers_def cong: list.case_cong)
  show ?thesis
  proof (cases "\<exists>t i e. m = O2IConnect t i True e \<and> st_status c = Ss_Connecting")
    case True
    let ?c = "c\<lparr>st_status := Ss_Running, st_pending := [], st_pending_bytes := 0\<rparr>"
    from True assms(1) have all: "cx_send_all d (an_random ans) 0
        (map (\<lambda>p. (send_data_message d, p)) (st_pending c)) ?c = Some (None, c')"
      by (auto simp: ss_tcp_on_proxy_message_def Let_def)
    from cx_send_all_upstream [OF law all] same small ss_tcp_send_all_same [OF all] assms(2) True
    show ?thesis by (auto simp: ss_tcp_delivers_def split: list.splits)
  next
    case False
    then have "c' = c \<or> cx_close ans c = (None, c') \<or>
        (\<exists>w i data packet. cx_write_ack d ans i data packet (c\<lparr>st_encoder := Some w\<rparr>) = (None, c'))"
      using assms(1)
      by (cases m) (auto simp: ss_tcp_on_proxy_message_def split: if_splits sum.splits option.splits prod.splits)
    then show ?thesis
      by (elim disjE exE; intro quiet)
         (auto simp: cx_close_def cx_write_ack_def cx_emit_def Let_def split: if_splits)
  qed
qed

lemma ss_tcp_run_delivers:
  assumes "ss_tcp_run env d common chunks c"
    and law: "lawful_crypto (cd_crypto d)" "common = new_session_common_info compressed meth key"
    and small: "\<And>p. p \<in> set chunks \<Longrightarrow> length p \<le> lz4_max_decompressed_size"
  shows "ss_tcp_delivers d common chunks c"
  using assms(1) small
proof (induction rule: ss_tcp_run.induct)
  case (tcp_start random c)
  then show ?case
    by (auto simp: ss_tcp_on_start_def new_ss_tcp_context_def ss_tcp_delivers_def split: option.splits sum.splits)
next
  case (tcp_peer chunks c r payload r' os ans c')
  then have "ss_tcp_handle_chunks d (an_random ans) 0 os (c\<lparr>st_reader := Some r'\<rparr>) = Some (None, c')"
    by (simp add: ss_tcp_on_peer_data_def)
  moreover have "ss_tcp_delivers d common chunks (c\<lparr>st_reader := Some r'\<rparr>)"
    using tcp_peer by (simp add: ss_tcp_delivers_def cong: list.case_cong)
  ultimately show ?case using ss_tcp_chunks_deliver [OF law] tcp_peer.prems by simp
next
  case (tcp_reply chunks c ans m c')
  then show ?case using ss_tcp_reply_delivers [OF _ _ law] by blast
qed

section \<open>The property\<close>

text \<open>C40. A Shadowsocks TCP session forwards what its client wrote: in every run without an error, once a
  chunk that is not empty has been read, the first such chunk names the target, and the bytes the outlet
  decodes from the data messages so far, followed by what is still pending, are exactly the rest of that
  chunk and the chunks after it, in order; once the connection is confirmed nothing is pending.  Nothing
  is sent before the target is known.\<close>

theorem ss_tcp_forwards_in_order:
  assumes "ss_tcp_run env d (new_session_common_info compressed meth key) chunks c"
    and "lawful_crypto (cd_crypto d)"
    and "\<forall>p \<in> set chunks. length p \<le> lz4_max_decompressed_size"
  shows "case filter (\<lambda>p. p \<noteq> []) chunks of
      [] \<Rightarrow> st_status c = Ss_Init \<and>
        upstream (cd_crypto d) (new_session_common_info compressed meth key) (sent (cx_out c)) = []
    | first # rest \<Rightarrow> (\<exists>target body. parse_shadowsocks_target first = Inr (target, body) \<and>
        upstream (cd_crypto d) (new_session_common_info compressed meth key) (sent (cx_out c)) @ concat (st_pending c)
          = body @ concat rest \<and>
        (st_status c = Ss_Running \<longrightarrow> st_pending c = []))"
  using ss_tcp_run_delivers [OF assms(1,2) refl] assms(3)
  by (auto simp: ss_tcp_delivers_def split: list.splits)

text \<open>A client that asks for 1.2.3.4:80 and writes two bytes, before the connection is confirmed.\<close>

definition plain_ss :: ss_env where
  "plain_ss = \<lparr>se_md5 = (\<lambda>x. replicate 16 0), se_hkdf = (\<lambda>m s i n. Some (replicate n 0)),
     se_aes_gcm = (\<lambda>k. Some \<lparr>ad_nonce_size = 1, ad_overhead = 0, ad_seal = (\<lambda>n p. p), ad_open = (\<lambda>n p. Some p)\<rparr>),
     se_chacha20 = (\<lambda>k. None)\<rparr>"

definition example_ctx_data :: context_data where
  "example_ctx_data = \<lparr>cd_tunnel_id = 3, cd_session_id = 5, cd_mode = mode_shadowsocks, cd_output_addr = '''',
     cd_username = '''', cd_password = ''pw'', cd_method = ''aes-128-gcm'', cd_peer = ''9.9.9.9:1'',
     cd_crypto = example_crypto\<rparr>"

definition example_answers :: answers where
  "example_answers = \<lparr>an_write = True, an_close = True, an_resolve = (\<lambda>_. None), an_random = (\<lambda>_. [])\<rparr>"

definition plain_common :: session_common_info where
  "plain_common = new_session_common_info False encryption_none []"

definition example_chunk :: "byte list" where
  "example_chunk = [1, 1, 2, 3, 4, 0, 80, 104, 105]"

definition example_stream :: "byte list" where
  "example_stream = replicate 16 0 @ [0, 9] @ example_chunk"

definition example_tcp_1 :: ss_tcp_context where
  "example_tcp_1 = snd (the (ss_tcp_on_start plain_ss example_ctx_data (replicate 16 0) (new_ss_tcp_context plain_common)))"

lemma ss_example_start:
  "map_option fst (ss_tcp_on_start plain_ss example_ctx_data (replicate 16 0) (new_ss_tcp_context plain_common)) = Some None"
  by code_simp

lemma example_feed: "snd (ss_feed plain_ss (the (st_reader example_tcp_1)) example_stream) = Inr [example_chunk]"
  by code_simp

lemma example_tcp_1_fields: "case st_reader example_tcp_1 of None \<Rightarrow> False | Some _ \<Rightarrow> True"
  "st_status example_tcp_1 = Ss_Init" "st_pending example_tcp_1 = []" "st_pending_bytes example_tcp_1 = 0"
  "cx_common example_tcp_1 = plain_common" "cx_out example_tcp_1 = []"
  by code_simp+

lemma example_peer:
  "\<exists>c r'. ss_feed plain_ss (the (st_reader example_tcp_1)) example_stream = (r', Inr [example_chunk]) \<and>
    ss_tcp_on_peer_data plain_ss example_ctx_data (example_answers, example_stream) example_tcp_1 = Some (None, c) \<and>
    st_status c = Ss_Connecting \<and> st_pending c = [[104, 105]] \<and> cx_common c = plain_common \<and>
    (\<exists>addr peer key. cx_out c = [Send_Proxy (I2OConnect 3 5 4 True False addr ''None'' key peer)])"
proof -
  obtain r where r: "st_reader example_tcp_1 = Some r"
    using example_tcp_1_fields(1) by (cases "st_reader example_tcp_1") simp_all
  obtain r' where f: "ss_feed plain_ss r example_stream = (r', Inr [example_chunk])"
    using example_feed r by (cases "ss_feed plain_ss r example_stream") simp
  obtain t where t: "parse_shadowsocks_target example_chunk = Inr (t, [104, 105])"
    by (simp add: parse_shadowsocks_target_def example_chunk_def read_target_addr_def addr_type_defs)
  have "example_chunk \<noteq> []" by (simp add: example_chunk_def)
  with r f t example_tcp_1_fields show ?thesis
    by (simp add: ss_tcp_on_peer_data_def ss_tcp_handle_chunk_def Let_def ss_tcp_buffer_pending_def cx_connect_def
        cx_emit_def ss_tcp_item_overhead_def ss_max_pending_items_def ss_max_pending_bytes_def plain_common_def
        new_session_common_info_def example_ctx_data_def encryption_none_def mode_shadowsocks_def)
qed

lemma ss_tcp_forwards_in_order_witness:
  "\<exists>c. ss_tcp_run plain_ss example_ctx_data plain_common [example_chunk] c \<and> st_status c = Ss_Running \<and>
    upstream example_crypto plain_common (sent (cx_out c)) = [104, 105]"
proof -
  from example_peer obtain c r' where f: "ss_feed plain_ss (the (st_reader example_tcp_1)) example_stream = (r', Inr [example_chunk])"
    and p: "ss_tcp_on_peer_data plain_ss example_ctx_data (example_answers, example_stream) example_tcp_1 = Some (None, c)"
    and c: "st_status c = Ss_Connecting" "st_pending c = [[104, 105]]" "cx_common c = plain_common" by blast
  obtain r where r: "st_reader example_tcp_1 = Some r"
    using example_tcp_1_fields(1) by (cases "st_reader example_tcp_1") simp_all
  have "ss_tcp_on_start plain_ss example_ctx_data (replicate 16 0) (new_ss_tcp_context plain_common) = Some (None, example_tcp_1)"
    using ss_example_start by (cases "ss_tcp_on_start plain_ss example_ctx_data (replicate 16 0) (new_ss_tcp_context plain_common)")
      (auto simp: example_tcp_1_def)
  then have "ss_tcp_run plain_ss example_ctx_data plain_common [] example_tcp_1" by (rule tcp_start)
  from tcp_peer [OF this r _ p] f r have run: "ss_tcp_run plain_ss example_ctx_data plain_common [example_chunk] c" by simp
  have "\<exists>common. encode_data_and_limit example_crypto plain_common [] [104, 105] = Some (Inr [104, 105], common)"
    by (simp add: encode_data_and_limit_def plain_common_def new_session_common_info_def encrypt_def method_defs
        flow_acquire_def new_flow_controller_def proxy_flow_window_bytes_def)
  with c obtain c' where reply: "ss_tcp_on_proxy_message example_ctx_data example_answers (O2IConnect 3 5 True '''') c = Some (None, c')"
    "st_status c' = Ss_Running"
    by (auto simp: ss_tcp_on_proxy_message_def Let_def cx_send_def cx_emit_def example_ctx_data_def example_answers_def)
  have small: "\<forall>p \<in> set [example_chunk]. length p \<le> lz4_max_decompressed_size"
    by (simp add: example_chunk_def lz4_max_decompressed_size_def)
  have law: "lawful_crypto (cd_crypto example_ctx_data)" by (simp add: example_ctx_data_def lawful_example_crypto)
  from tcp_reply [OF run reply(1)] have run': "ss_tcp_run plain_ss example_ctx_data plain_common [example_chunk] c'" .
  obtain t where t: "parse_shadowsocks_target example_chunk = Inr (t, [104, 105])"
    by (simp add: parse_shadowsocks_target_def example_chunk_def read_target_addr_def addr_type_defs)
  have "example_chunk \<noteq> []" by (simp add: example_chunk_def)
  with ss_tcp_forwards_in_order [OF run' [unfolded plain_common_def] law small] reply(2) t run' show ?thesis
    by (auto simp: example_ctx_data_def plain_common_def)
qed

end
