(* ===== verification/Context_Socks5.thy ===== *)
theory Context_Socks5
  imports Proxy_Context
begin

text \<open>
  The SOCKS5 context (\<open>internal/proxy/context_socks5.go\<close>, the state machine of \<open>Socks5\<close>) as a context of an
  inlet's session: \<open>OnStart\<close> and \<open>ReadyForRead\<close>, its inputs (bytes of the peer and packets of the UDP
  association), and the contract \<open>session_context\<close>.
\<close>

record socks5_answers = answers +
  so_udp_port :: "u16 option"

text \<open>\<open>tcp_ip\<close> gives the IP of a TCP peer from its address.\<close>

definition socks5_data_of ::
  "(string \<Rightarrow> byte list option) \<Rightarrow> context_data \<Rightarrow> socks5_answers \<Rightarrow> socks5_data" where
  "socks5_data_of tcp_ip d ans =
     \<lparr>sd_tunnel_id = cd_tunnel_id d, sd_session_id = cd_session_id d, sd_username = cd_username d,
      sd_password = cd_password d, sd_peer = cd_peer d, sd_peer_tcp_ip = tcp_ip (cd_peer d),
      sd_crypto = cd_crypto d, sd_random = an_random ans 0, sd_write_ok = an_write ans,
      sd_udp_port = so_udp_port ans, sd_resolve = an_resolve ans\<rparr>"

datatype socks5_input = Peer_Bytes "byte list" | Udp_Packet "udp_addr option" "byte list"

definition s5_on_start :: "socks5_context \<Rightarrow> socks5_error option \<times> socks5_context" where
  "s5_on_start c = (None, c)"

definition s5_ready_for_read :: "socks5_context \<Rightarrow> bool" where
  "s5_ready_for_read c = True"

text \<open>Packets are read only once the socket of the association is bound.\<close>

definition s5_on_input ::
  "(string \<Rightarrow> byte list option) \<Rightarrow> context_data \<Rightarrow> socks5_answers \<times> socks5_input \<Rightarrow> socks5_context
    \<Rightarrow> (socks5_error option \<times> socks5_context) option" where
  "s5_on_input tcp_ip d = (\<lambda>(ans, input) c.
     case input of
       Peer_Bytes payload \<Rightarrow> on_peer_data (socks5_data_of tcp_ip d ans) payload c
     | Udp_Packet addr packet \<Rightarrow>
         if s5_udp_bound c
         then map_option (Pair None) (read_udp_associate (socks5_data_of tcp_ip d ans) addr packet c)
         else None)"

definition s5_on_proxy_message ::
  "(string \<Rightarrow> byte list option) \<Rightarrow> context_data \<Rightarrow> socks5_answers \<Rightarrow> proxy_message \<Rightarrow> socks5_context
    \<Rightarrow> (socks5_error option \<times> socks5_context) option" where
  "s5_on_proxy_message tcp_ip d ans message c = on_proxy_message (socks5_data_of tcp_ip d ans) message c"

definition s5_on_stop ::
  "(string \<Rightarrow> byte list option) \<Rightarrow> context_data \<Rightarrow> socks5_answers \<Rightarrow> socks5_context \<Rightarrow> socks5_context" where
  "s5_on_stop tcp_ip d ans c = on_stop (socks5_data_of tcp_ip d ans) c"

section \<open>The contract\<close>

text \<open>A connection is asked for exactly when the target is known.\<close>

definition socks5_good :: "socks5_context \<Rightarrow> bool" where
  "socks5_good c \<longleftrightarrow>
     (asked (s5_out c) \<longleftrightarrow> s5_target c \<noteq> None) \<and>
     (s5_status c \<in> {S_Init, S_Verify, S_Connect} \<longrightarrow> s5_target c = None) \<and>
     (s5_status c \<in> {S_Connecting, S_Run_TCP, S_Run_UDP} \<or> s5_udp_bound c \<longrightarrow> s5_target c \<noteq> None)"

lemma data_of_ids [simp]:
  "sd_tunnel_id (socks5_data_of tcp_ip d ans) = cd_tunnel_id d"
  "sd_session_id (socks5_data_of tcp_ip d ans) = cd_session_id d"
  by (simp_all add: socks5_data_of_def)

lemma s5_out_emit [simp]: "s5_out (emit e c) = s5_out c @ [e]"
  by (simp add: emit_def)

lemma emit_fields [simp]:
  "s5_status (emit e c) = s5_status c" "s5_target (emit e c) = s5_target c" "s5_udp_bound (emit e c) = s5_udp_bound c"
  "s5_common (emit e c) = s5_common c"
  by (simp_all add: emit_def)

definition s5_step :: "context_data \<Rightarrow> socks5_context \<Rightarrow> socks5_context \<Rightarrow> bool" where
  "s5_step d c c' \<longleftrightarrow> (socks5_good c \<longrightarrow> socks5_good c' \<and> speaks (own_message d) (s5_out c) (s5_out c'))"

lemma s5_step_trans: "s5_step d c1 c2 \<Longrightarrow> s5_step d c2 c3 \<Longrightarrow> s5_step d c1 c3"
  by (auto simp: s5_step_def intro: speaks_trans)

lemma s5_step_quiet:
  "s5_out c' = s5_out c \<Longrightarrow> s5_status c' = s5_status c \<Longrightarrow> s5_target c' = s5_target c \<Longrightarrow>
   s5_udp_bound c' = s5_udp_bound c \<Longrightarrow> s5_step d c c'"
  by (simp add: s5_step_def socks5_good_def)

lemma s5_close_step: "s5_step d c (s5_close_later reply ms c)"
  by (auto simp: s5_step_def s5_close_later_def socks5_good_def emit_def speaks_def)

lemma reply_error_step: "s5_step d c (reply_command_error code c)"
  unfolding reply_command_error_def by (rule s5_close_step)

lemma on_init_step: "s5_status c = S_Init \<Longrightarrow> s5_step d c (on_init sd c)"
  by (auto simp: on_init_def Let_def s5_step_def socks5_good_def speaks_def intro: s5_close_step
      simp: s5_close_later_def)

lemma on_verify_step: "s5_status c = S_Verify \<Longrightarrow> s5_step d c (on_verify sd c)"
  by (auto simp: on_verify_def Let_def s5_step_def socks5_good_def speaks_def s5_close_later_def)

lemma on_connect_step:
  assumes "on_connect (socks5_data_of tcp_ip d ans) c = (e, c')" "s5_status c = S_Connect"
  shows "s5_step d c c'"
proof -
  let ?sd = "socks5_data_of tcp_ip d ans"
  consider "c' = c" | "c' = reply_command_error 7 c" | b where "c' = reply_command_error 7 (c\<lparr>s5_buffer := b\<rparr>)"
    | b target tcp where "c' = emit (Send_Proxy (connect_message ?sd (c\<lparr>s5_buffer := b, s5_target := Some target,
        s5_connect_is_tcp := tcp, s5_status := S_Connecting\<rparr>) tcp target))
          (c\<lparr>s5_buffer := b, s5_target := Some target, s5_connect_is_tcp := tcp, s5_status := S_Connecting\<rparr>)"
    using assms by (auto simp: on_connect_def Let_def split: if_splits sum.splits option.splits prod.splits)
  then show ?thesis
  proof cases
    case (3 b)
    have "s5_step d c (c\<lparr>s5_buffer := b\<rparr>)" by (rule s5_step_quiet) simp_all
    with 3 show ?thesis using reply_error_step s5_step_trans by blast
  next
    case (4 b target tcp)
    with assms(2) show ?thesis
      by (auto simp: s5_step_def socks5_good_def connect_message_def own_message_def intro!: speaks_more)
  qed (use reply_error_step in \<open>auto intro: s5_step_quiet\<close>)
qed

lemma handshake_round_step:
  "handshake_round (socks5_data_of tcp_ip d ans) c = Some (e, c') \<Longrightarrow> s5_step d c c'"
  by (auto simp: handshake_round_def split: socks5_status.splits
      intro: on_init_step on_verify_step on_connect_step)

lemma handshake_step:
  "process_buffered_handshake (socks5_data_of tcp_ip d ans) c = (e, c') \<Longrightarrow> s5_step d c c'"
proof (induction "socks5_data_of tcp_ip d ans" c arbitrary: e c' rule: process_buffered_handshake.induct)
  case (1 c)
  show ?case
  proof (cases "handshake_round (socks5_data_of tcp_ip d ans) c")
    case None
    with 1(2) show ?thesis by (subst (asm) process_buffered_handshake.simps) (auto intro: s5_step_quiet)
  next
    case (Some r)
    obtain e1 c1 where r: "r = (e1, c1)" by (cases r)
    have one: "s5_step d c c1" using Some r handshake_round_step by blast
    show ?thesis
    proof (cases "e1 = None \<and> \<not> (s5_status c1 = s5_status c \<and> length (s5_buffer c1) = length (s5_buffer c))")
      case True
      with 1(2) Some r have "process_buffered_handshake (socks5_data_of tcp_ip d ans) c1 = (e, c')"
        by (subst (asm) process_buffered_handshake.simps) (auto split: if_splits)
      with 1(1) [of r e1 c1] Some r True one show ?thesis by (auto intro: s5_step_trans)
    next
      case False
      with 1(2) Some r have "c' = c1"
        by (subst (asm) process_buffered_handshake.simps) (auto split: if_splits option.splits)
      with one show ?thesis by simp
    qed
  qed
qed

text \<open>Data is sent only after the request.\<close>

lemma send_tcp_step:
  "send_tcp_payload (socks5_data_of tcp_ip d ans) payload c = Some (e, c') \<Longrightarrow>
   s5_target c \<noteq> None \<Longrightarrow> s5_step d c c'"
  by (auto simp: send_tcp_payload_def s5_step_def socks5_good_def own_message_def
      split: if_splits option.splits prod.splits sum.splits intro!: speaks_more)

lemma udp_payload_step:
  "on_udp_associate_payload (socks5_data_of tcp_ip d ans) payload c = Some (e, c') \<Longrightarrow>
   s5_target c \<noteq> None \<Longrightarrow> s5_step d c c'"
  by (auto simp: on_udp_associate_payload_def s5_step_def socks5_good_def own_message_def
      split: if_splits option.splits prod.splits sum.splits intro!: speaks_more)

lemma peer_data_step:
  assumes "on_peer_data (socks5_data_of tcp_ip d ans) payload c = Some (e, c')"
  shows "s5_step d c c'"
proof (cases "s5_status c \<in> {S_Init, S_Verify, S_Connect}")
  case True
  show ?thesis
  proof (cases "length (s5_buffer c) + length payload > socks5_max_buffered")
    case False
    let ?c = "c\<lparr>s5_buffer := s5_buffer c @ payload\<rparr>"
    have "process_buffered_handshake (socks5_data_of tcp_ip d ans) ?c = (e, c')"
      using assms True False by (auto simp: on_peer_data_def)
    then have "s5_step d ?c c'" by (rule handshake_step)
    moreover have "s5_step d c ?c" by (rule s5_step_quiet) simp_all
    ultimately show ?thesis by (blast intro: s5_step_trans)
  qed (use assms True in \<open>auto simp: on_peer_data_def intro: s5_step_quiet\<close>)
next
  case False
  show ?thesis
  proof (cases "socks5_good c")
    case True
    with False have "s5_status c \<noteq> S_Closing \<Longrightarrow> s5_target c \<noteq> None"
      by (cases "s5_status c") (auto simp: socks5_good_def)
    with assms False show ?thesis
      by (cases "s5_status c") (auto simp: on_peer_data_def split: if_splits
          intro: s5_step_quiet send_tcp_step udp_payload_step)
  qed (simp add: s5_step_def)
qed

lemma accept_udp_quiet:
  "accept_udp_client_addr addr c = (ok, c') \<Longrightarrow> s5_step d c c' \<and> s5_target c' = s5_target c"
  by (auto simp: accept_udp_client_addr_def split: option.splits if_splits intro: s5_step_quiet)

lemma read_udp_step:
  assumes "read_udp_associate (socks5_data_of tcp_ip d ans) addr packet c = Some c'" "s5_target c \<noteq> None"
  shows "s5_step d c c'"
proof -
  obtain ok c1 where a: "accept_udp_client_addr addr c = (ok, c1)" by (cases "accept_udp_client_addr addr c")
  note q = accept_udp_quiet [OF a, of d]
  show ?thesis
  proof (cases ok)
    case True
    with assms a obtain e where "on_udp_associate_payload (socks5_data_of tcp_ip d ans) packet c1 = Some (e, c')"
      by (auto simp: read_udp_associate_def)
    with q assms(2) have "s5_step d c1 c'" by (auto intro: udp_payload_step)
    with q show ?thesis by (blast intro: s5_step_trans)
  next
    case False
    with assms a q show ?thesis by (auto simp: read_udp_associate_def)
  qed
qed

lemma bind_udp_step:
  assumes "bind_udp_associate (socks5_data_of tcp_ip d ans) c = (e, c')" "s5_target c \<noteq> None"
  shows "s5_step d c c'"
proof (cases "sd_udp_port (socks5_data_of tcp_ip d ans)")
  case None
  with assms show ?thesis by (auto simp: bind_udp_associate_def intro: reply_error_step)
next
  case (Some port)
  with assms show ?thesis
    by (auto simp: bind_udp_associate_def Let_def s5_step_def socks5_good_def speaks_def split: option.splits)
qed

lemma connect_reply_step:
  assumes "on_connect_reply (socks5_data_of tcp_ip d ans) success c = Some (e, c')"
  shows "s5_step d c c'"
proof (cases "success \<and> s5_target c \<noteq> None \<and> s5_status c = S_Connecting")
  case False
  with assms show ?thesis
    by (auto simp: on_connect_reply_def intro: s5_step_quiet reply_error_step split: if_splits)
next
  case True
  let ?sd = "socks5_data_of tcp_ip d ans"
  let ?c1 = "emit (Write_Peer [socks5_version, 0, 0, 1, 0, 0, 0, 0, 0, 0]) (c\<lparr>s5_status := S_Run_TCP\<rparr>)"
  have one: "s5_step d c ?c1" using True by (auto simp: s5_step_def socks5_good_def speaks_def)
  have two: "s5_step d ?c1 (?c1\<lparr>s5_buffer := []\<rparr>)" by (rule s5_step_quiet) simp_all
  consider "\<not> s5_connect_is_tcp c" "bind_udp_associate ?sd (c\<lparr>s5_buffer := []\<rparr>) = (e, c')"
    | "c' = ?c1"
    | payload where "send_tcp_payload ?sd payload (?c1\<lparr>s5_buffer := []\<rparr>) = Some (e, c')"
    using assms True by (auto simp: on_connect_reply_def Let_def split: if_splits)
  then show ?thesis
  proof cases
    case 1
    have "s5_step d c (c\<lparr>s5_buffer := []\<rparr>)" by (rule s5_step_quiet) simp_all
    moreover have "s5_step d (c\<lparr>s5_buffer := []\<rparr>) c'" using 1(2) by (rule bind_udp_step) (use True in simp)
    ultimately show ?thesis by (rule s5_step_trans)
  next
    case (3 payload)
    have "s5_step d (?c1\<lparr>s5_buffer := []\<rparr>) c'" using 3 by (rule send_tcp_step) (use True in simp)
    with one two show ?thesis by (blast intro: s5_step_trans)
  qed (use one in simp)
qed

lemma s5_say_step:
  "(\<And>m. e = Send_Proxy m \<Longrightarrow> own_message d m \<and> \<not> is_connect m \<and> \<not> is_send m) \<Longrightarrow> s5_step d c (emit e c)"
  by (cases e) (auto simp: s5_step_def socks5_good_def speaks_def)

lemma s5_write_ack_step:
  assumes "i = cd_session_id d"
  shows "s5_step d c (emit (Send_Proxy (I2ORecvDataResult (cd_tunnel_id d) i n)) (emit (Write_Peer p) c))"
    and "s5_step d c (emit (Send_Proxy (I2ORecvDataResult (cd_tunnel_id d) i n)) (emit (Write_Udp p u) c))"
    and "s5_step d c (emit (Write_Peer p) c)" "s5_step d c (emit (Write_Udp p u) c)"
proof -
  have ack: "s5_step d c (emit (Send_Proxy (I2ORecvDataResult (cd_tunnel_id d) i n)) c)" for c
    by (rule s5_say_step) (use assms in \<open>simp add: own_message_def\<close>)
  show peer: "s5_step d c (emit (Write_Peer p) c)" by (rule s5_say_step) simp
  show udp: "s5_step d c (emit (Write_Udp p u) c)" by (rule s5_say_step) simp
  show "s5_step d c (emit (Send_Proxy (I2ORecvDataResult (cd_tunnel_id d) i n)) (emit (Write_Peer p) c))"
    by (rule s5_step_trans [OF peer ack])
  show "s5_step d c (emit (Send_Proxy (I2ORecvDataResult (cd_tunnel_id d) i n)) (emit (Write_Udp p u) c))"
    by (rule s5_step_trans [OF udp ack])
qed

lemma s5_reply_step:
  assumes "on_proxy_message (socks5_data_of tcp_ip d ans) m c = Some (e, c')" "own_message d m"
  shows "s5_step d c c'"
proof -
  show ?thesis
  proof (cases m)
    case (O2IConnect t i success err)
    with assms(1) show ?thesis by (auto simp: on_proxy_message_def intro: connect_reply_step)
  next
    case (O2IRecvData t i data)
    then consider "c' = c" | p where "c' = emit (Write_Peer p) c"
      | p where "c' = emit (Send_Proxy (I2ORecvDataResult (cd_tunnel_id d) i (of_nat (length data)))) (emit (Write_Peer p) c)"
      using assms by (auto simp: on_proxy_message_def Let_def split: sum.splits if_splits)
    then show ?thesis using assms(2) O2IRecvData s5_write_ack_step [of i d]
      by cases (simp_all add: own_message_def s5_step_quiet)
  next
    case (O2IRecvDataFrom t i data a)
    show ?thesis
    proof (cases "c' = c")
      case False
      with assms O2IRecvDataFrom obtain p u where
        "c' = emit (Send_Proxy (I2ORecvDataResult (cd_tunnel_id d) i (of_nat (length data)))) (emit (Write_Udp p u) c)
         \<or> c' = emit (Write_Udp p u) c"
        by (auto simp: on_proxy_message_def Let_def split: sum.splits if_splits option.splits)
      with assms(2) O2IRecvDataFrom s5_write_ack_step [of i d] show ?thesis
        by (elim disjE) (simp_all add: own_message_def)
    qed (simp add: s5_step_quiet)
  next
    case (O2IDisconnect t i)
    with assms show ?thesis by (auto simp: on_proxy_message_def intro: s5_say_step)
  qed (use assms in \<open>auto simp: on_proxy_message_def intro: s5_step_quiet\<close>)
qed

lemma s5_stop_step: "s5_step d c (s5_on_stop tcp_ip d ans c)"
  by (auto simp: s5_on_stop_def on_stop_def Let_def s5_step_def socks5_good_def own_message_def speaks_def)

interpretation s5: session_context "own_message d" s5_out socks5_good "new_socks5_context common"
  "\<lambda>c. Some (s5_on_start c)" "s5_on_input tcp_ip d" "s5_on_proxy_message tcp_ip d" "s5_on_stop tcp_ip d ans"
  for d common tcp_ip ans
proof (unfold_locales, goal_cases)
  case (2 s)
  then show ?case by (auto simp: s5_on_start_def new_socks5_context_def socks5_good_def)
next
  case (3 s a e s')
  have "s5_step d s s'" using 3 peer_data_step read_udp_step [of tcp_ip d _ _ _ s s']
    by (auto simp: s5_on_input_def socks5_good_def split: prod.splits socks5_input.splits if_splits)
  with 3 show ?case by (simp add: s5_step_def)
next
  case (4 s m b e s')
  then have "s5_step d s s'" by (auto simp: s5_on_proxy_message_def intro: s5_reply_step)
  with 4 show ?case by (simp add: s5_step_def)
next
  case (5 s)
  then show ?case using s5_stop_step [of d s] by (simp add: s5_step_def)
qed (simp add: new_socks5_context_def)

end
