(* ===== verification/Inlet_Context.thy ===== *)
theory Inlet_Context
  imports Context_Socks5 Context_Http Context_Shadowsocks
begin

text \<open>
  The contexts an inlet's sessions have (\<open>ContextHandler\<close> of \<open>internal/proxy/context.go\<close>, chosen by
  \<open>contextFactory\<close> and \<open>newUDPContext\<close> of \<open>internal/proxy/inlet.go\<close>): one type of its five implementations and
  the calls of the interface on it.  It has the contract \<open>session_context\<close> because each of the five has it.
\<close>

datatype handler =
    Universal universal_context
  | Socks5_Handler socks5_context
  | Http_Handler http_context
  | Ss_Tcp_Handler ss_tcp_context
  | Ss_Udp_Handler ss_udp_context

datatype handler_error = Context_Error context_error | Socks5_Error socks5_error

record inlet_env =
  ie_http :: http_env
  ie_ss :: ss_env
  ie_tcp_ip :: "string \<Rightarrow> byte list option"

definition context_factory :: "tunnel_mode \<Rightarrow> session_common_info \<Rightarrow> handler" where
  "context_factory mode common =
     (if mode = mode_socks5 then Socks5_Handler (new_socks5_context common)
      else if mode = mode_http then Http_Handler (new_http_context common)
      else if mode = mode_shadowsocks then Ss_Tcp_Handler (new_ss_tcp_context common)
      else Universal (new_universal_context common))"

definition new_udp_context :: "tunnel_mode \<Rightarrow> session_common_info \<Rightarrow> handler" where
  "new_udp_context mode common =
     (if mode = mode_shadowsocks then Ss_Udp_Handler (new_ss_udp_context common)
      else Universal (new_universal_context common))"

definition new_handler :: "bool \<Rightarrow> tunnel_mode \<Rightarrow> session_common_info \<Rightarrow> handler" where
  "new_handler udp mode common = (if udp then new_udp_context mode common else context_factory mode common)"

fun handler_out :: "handler \<Rightarrow> context_effect list" where
  "handler_out (Universal c) = cx_out c"
| "handler_out (Socks5_Handler c) = s5_out c"
| "handler_out (Http_Handler c) = cx_out c"
| "handler_out (Ss_Tcp_Handler c) = cx_out c"
| "handler_out (Ss_Udp_Handler c) = cx_out c"

text \<open>The session's common part, which the inlet shares with the context.\<close>

fun handler_common :: "handler \<Rightarrow> session_common_info" where
  "handler_common (Universal c) = cx_common c"
| "handler_common (Socks5_Handler c) = s5_common c"
| "handler_common (Http_Handler c) = cx_common c"
| "handler_common (Ss_Tcp_Handler c) = cx_common c"
| "handler_common (Ss_Udp_Handler c) = cx_common c"

fun update_handler_common :: "(session_common_info \<Rightarrow> session_common_info) \<Rightarrow> handler \<Rightarrow> handler" where
  "update_handler_common f (Universal c) = Universal (c\<lparr>cx_common := f (cx_common c)\<rparr>)"
| "update_handler_common f (Socks5_Handler c) = Socks5_Handler (c\<lparr>s5_common := f (s5_common c)\<rparr>)"
| "update_handler_common f (Http_Handler c) = Http_Handler (c\<lparr>cx_common := f (cx_common c)\<rparr>)"
| "update_handler_common f (Ss_Tcp_Handler c) = Ss_Tcp_Handler (c\<lparr>cx_common := f (cx_common c)\<rparr>)"
| "update_handler_common f (Ss_Udp_Handler c) = Ss_Udp_Handler (c\<lparr>cx_common := f (cx_common c)\<rparr>)"

definition lift_result ::
  "('e \<Rightarrow> handler_error) \<Rightarrow> ('c \<Rightarrow> handler) \<Rightarrow> ('e option \<times> 'c) option \<Rightarrow> (handler_error option \<times> handler) option" where
  "lift_result err h r = map_option (\<lambda>(e, c). (map_option err e, h c)) r"

fun handler_start ::
  "inlet_env \<Rightarrow> context_data \<Rightarrow> socks5_answers \<Rightarrow> handler \<Rightarrow> (handler_error option \<times> handler) option" where
  "handler_start env d ans (Universal c) = lift_result Context_Error Universal (Some (uc_on_start d c))"
| "handler_start env d ans (Socks5_Handler c) = lift_result Socks5_Error Socks5_Handler (Some (s5_on_start c))"
| "handler_start env d ans (Http_Handler c) = lift_result Context_Error Http_Handler (Some (http_on_start c))"
| "handler_start env d ans (Ss_Tcp_Handler c) =
     lift_result Context_Error Ss_Tcp_Handler (ss_tcp_on_start (ie_ss env) d (an_random ans 0) c)"
| "handler_start env d ans (Ss_Udp_Handler c) =
     lift_result Context_Error Ss_Udp_Handler (Some (ss_udp_on_start d c))"

text \<open>\<open>OnPeerData\<close>; only the SOCKS5 context has packets of a socket of its own.\<close>

fun handler_input ::
  "inlet_env \<Rightarrow> context_data \<Rightarrow> socks5_answers \<times> socks5_input \<Rightarrow> handler \<Rightarrow> (handler_error option \<times> handler) option" where
  "handler_input env d (ans, input) (Socks5_Handler c) =
     lift_result Socks5_Error Socks5_Handler (s5_on_input (ie_tcp_ip env) d (ans, input) c)"
| "handler_input env d (ans, Peer_Bytes payload) (Universal c) =
     lift_result Context_Error Universal (uc_on_peer_data d (answers.truncate ans, payload) c)"
| "handler_input env d (ans, Peer_Bytes payload) (Http_Handler c) =
     lift_result Context_Error Http_Handler (http_on_peer_data (ie_http env) d (answers.truncate ans, payload) c)"
| "handler_input env d (ans, Peer_Bytes payload) (Ss_Tcp_Handler c) =
     lift_result Context_Error Ss_Tcp_Handler (ss_tcp_on_peer_data (ie_ss env) d (answers.truncate ans, payload) c)"
| "handler_input env d (ans, Peer_Bytes payload) (Ss_Udp_Handler c) =
     lift_result Context_Error Ss_Udp_Handler (ss_udp_on_peer_data (ie_ss env) d (answers.truncate ans, payload) c)"
| "handler_input env d (ans, Udp_Packet addr packet) h = None"

fun handler_reply ::
  "inlet_env \<Rightarrow> context_data \<Rightarrow> socks5_answers \<Rightarrow> proxy_message \<Rightarrow> handler \<Rightarrow> (handler_error option \<times> handler) option" where
  "handler_reply env d ans m (Universal c) =
     lift_result Context_Error Universal (uc_on_proxy_message d (answers.truncate ans) m c)"
| "handler_reply env d ans m (Socks5_Handler c) =
     lift_result Socks5_Error Socks5_Handler (s5_on_proxy_message (ie_tcp_ip env) d ans m c)"
| "handler_reply env d ans m (Http_Handler c) =
     lift_result Context_Error Http_Handler (http_on_proxy_message d (answers.truncate ans) m c)"
| "handler_reply env d ans m (Ss_Tcp_Handler c) =
     lift_result Context_Error Ss_Tcp_Handler (ss_tcp_on_proxy_message d (answers.truncate ans) m c)"
| "handler_reply env d ans m (Ss_Udp_Handler c) =
     lift_result Context_Error Ss_Udp_Handler (ss_udp_on_proxy_message (ie_ss env) d (answers.truncate ans) m c)"

fun handler_stop :: "inlet_env \<Rightarrow> context_data \<Rightarrow> socks5_answers \<Rightarrow> handler \<Rightarrow> handler" where
  "handler_stop env d ans (Universal c) = Universal (uc_on_stop d c)"
| "handler_stop env d ans (Socks5_Handler c) = Socks5_Handler (s5_on_stop (ie_tcp_ip env) d ans c)"
| "handler_stop env d ans (Http_Handler c) = Http_Handler (http_on_stop d c)"
| "handler_stop env d ans (Ss_Tcp_Handler c) = Ss_Tcp_Handler (ss_tcp_on_stop d c)"
| "handler_stop env d ans (Ss_Udp_Handler c) = Ss_Udp_Handler (ss_udp_on_stop d c)"

fun handler_ready :: "handler \<Rightarrow> bool" where
  "handler_ready (Universal c) = uc_ready_for_read c"
| "handler_ready (Socks5_Handler c) = s5_ready_for_read c"
| "handler_ready (Http_Handler c) = http_ready_for_read c"
| "handler_ready (Ss_Tcp_Handler c) = ss_tcp_ready_for_read c"
| "handler_ready (Ss_Udp_Handler c) = ss_udp_ready_for_read c"

section \<open>The contract\<close>

fun handler_good :: "handler \<Rightarrow> bool" where
  "handler_good (Universal c) = asked (cx_out c)"
| "handler_good (Socks5_Handler c) = socks5_good c"
| "handler_good (Http_Handler c) = http_good c"
| "handler_good (Ss_Tcp_Handler c) = ss_tcp_good c"
| "handler_good (Ss_Udp_Handler c) = asked (cx_out c)"

lemma lift_result_Some:
  "lift_result err h r = Some (e, h') \<longleftrightarrow> (\<exists>e0 c. r = Some (e0, c) \<and> e = map_option err e0 \<and> h' = h c)"
  by (auto simp: lift_result_def)

interpretation hd: session_context "own_message d" handler_out handler_good "new_handler udp mode common"
  "handler_start env d ans" "handler_input env d" "handler_reply env d" "handler_stop env d ans"
  for d udp mode common env ans
proof (unfold_locales, goal_cases)
  case 1
  then show ?case
    using uc.silent s5.silent http.silent ss_tcp.silent ss_udp.silent
    by (simp add: new_handler_def new_udp_context_def context_factory_def)
next
  case (2 s)
  then show ?case
    using uc.start_speaks s5.start_speaks http.start_speaks ss_tcp.start_speaks ss_udp.start_speaks
    by (auto simp: new_handler_def new_udp_context_def context_factory_def lift_result_Some split: if_splits)
next
  case (3 s a e s')
  obtain a1 i where a: "a = (a1, i)" by (cases a)
  show ?case
  proof (cases s)
    case (Universal c)
    with 3 a show ?thesis by (cases i) (auto simp: lift_result_Some dest: uc.input_speaks)
  next
    case (Socks5_Handler c)
    with 3 a show ?thesis by (auto simp: lift_result_Some dest: s5.input_speaks)
  next
    case (Http_Handler c)
    with 3 a show ?thesis by (cases i) (auto simp: lift_result_Some dest: http.input_speaks)
  next
    case (Ss_Tcp_Handler c)
    with 3 a show ?thesis by (cases i) (auto simp: lift_result_Some dest: ss_tcp.input_speaks)
  next
    case (Ss_Udp_Handler c)
    with 3 a show ?thesis by (cases i) (auto simp: lift_result_Some dest: ss_udp.input_speaks)
  qed
next
  case (4 s m b e s')
  show ?case
  proof (cases s)
    case (Universal c)
    with 4 show ?thesis
      by (auto simp: lift_result_Some intro: uc.reply_speaks [THEN conjunct1] uc.reply_speaks [THEN conjunct2])
  next
    case (Ss_Udp_Handler c)
    with 4 show ?thesis
      by (auto simp: lift_result_Some intro: ss_udp.reply_speaks [THEN conjunct1] ss_udp.reply_speaks [THEN conjunct2])
  qed (use 4 in \<open>auto simp: lift_result_Some dest: s5.reply_speaks http.reply_speaks ss_tcp.reply_speaks\<close>)
next
  case (5 s)
  then show ?case
    by (cases s) (auto intro: uc.stop_speaks s5.stop_speaks http.stop_speaks ss_tcp.stop_speaks ss_udp.stop_speaks)
qed

text \<open>Stopping says goodbye and changes nothing of the contract; a start that fails has said nothing.\<close>

lemma handler_stop_out:
  "\<exists>es. handler_out (handler_stop env d ans h) = handler_out h @ es \<and>
     sent es = [I2ODisconnect (cd_tunnel_id d) (cd_session_id d)]"
  by (cases h) (auto simp: uc_on_stop_def s5_on_stop_def on_stop_def Let_def http_on_stop_def ss_tcp_on_stop_def
      ss_udp_on_stop_def cx_stop_def)

lemma handler_stop_good: "handler_good h \<Longrightarrow> handler_good (handler_stop env d ans h)"
  by (cases h) (auto simp: uc_on_stop_def s5_on_stop_def on_stop_def Let_def http_on_stop_def ss_tcp_on_stop_def
      ss_udp_on_stop_def cx_stop_def cx_emit_def socks5_good_def http_good_def http_pending_ok_def ss_tcp_good_def
      ss_tcp_pending_ok_def)

lemma handler_start_fails:
  "handler_start env d ans h = Some (Some e, h') \<Longrightarrow> handler_out h' = handler_out h"
  by (cases h) (auto simp: lift_result_Some uc_on_start_def s5_on_start_def http_on_start_def ss_tcp_on_start_def
      ss_udp_on_start_def split: option.splits sum.splits if_splits)

lemma update_common_out [simp]: "handler_out (update_handler_common f h) = handler_out h"
  by (cases h) simp_all

lemma update_common_good [simp]: "handler_good (update_handler_common f h) = handler_good h"
  by (cases h) (simp_all add: socks5_good_def http_good_def http_pending_ok_def ss_tcp_good_def ss_tcp_pending_ok_def)

lemma update_common_new: "\<exists>c. update_handler_common f (new_handler udp mode common) = new_handler udp mode c"
  by (auto simp: new_handler_def new_udp_context_def context_factory_def new_universal_context_def new_socks5_context_def
      new_http_context_def new_ss_tcp_context_def new_ss_udp_context_def)

end
