(* ===== verification/Inlet.thy ===== *)
theory Inlet
  imports Inlet_Context Queues
begin

text \<open>
  \<open>internal/proxy/inlet.go\<close>: the inlet of a tunnel, which accepts local connections and packets, gives each its
  session with a context of \<open>Inlet_Context\<close>, and passes the outlet's messages to it.

  \<open>in_store\<close> holds every session that was ever installed, by its address, for the goroutines that keep a
  pointer to one; \<open>in_sessions\<close> is the map of the code.  \<open>si_stage\<close> is how far \<open>runSession\<close> has come with
  \<open>OnStart\<close>, \<open>si_phase\<close> how far \<open>shutdown\<close>: \<open>Closing\<close> once \<open>closed\<close> and the queues are closed, \<open>Closed\<close>
  once \<open>OnStop\<close> has run and the slot is released.  A step is what a goroutine does between two points
  where another can come in: one read, one message, one half of \<open>shutdown\<close>.  Times are in nanoseconds.
\<close>

section \<open>State\<close>

datatype session_phase = Open_Session | Closing_Session | Closed_Session
datatype session_stage = Installed | Started | Start_Failed

record inlet_session =
  si_id :: session_id
  si_data :: context_data
  si_handler :: handler
  si_input :: "proxy_message ring"
  si_peer :: "byte list ring option"
  si_peer_key :: string
  si_ready :: bool
  si_phase :: session_phase
  si_stage :: session_stage
  si_last_seen :: nat

datatype inlet_error = Inlet_Stopped | Session_Limit | Duplicate_Session | Unknown_Mode | Listen_Error

record inlet =
  in_tunnel_id :: tunnel_id
  in_mode :: tunnel_mode
  in_output_addr :: string
  in_username :: string
  in_password :: string
  in_method :: string
  in_common :: session_common_info
  in_crypto :: crypto_env
  in_sessions :: "session_id \<rightharpoonup> nat"
  in_udp_peers :: "string \<rightharpoonup> session_id"
  in_closers :: "nat list"
  in_closed :: "nat list"
  in_stopped :: bool
  in_slots :: nat
  in_accepted :: nat
  in_store :: "inlet_session list"

definition session_ready_timeout :: nat where "session_ready_timeout = 10 * 1000000000"
definition udp_session_idle_ttl :: nat where "udp_session_idle_ttl = 10 * 1000000000"
definition auth_failure_log_interval :: nat where "auth_failure_log_interval = 5 * 1000000000"
definition max_inlet_sessions :: nat where "max_inlet_sessions = 4096"
definition initial_accept_delay :: nat where "initial_accept_delay = 5 * 1000000"
definition max_accept_delay :: nat where "max_accept_delay = 1000000000"

definition new_inlet ::
  "tunnel_id \<Rightarrow> tunnel_mode \<Rightarrow> string \<Rightarrow> session_common_info \<Rightarrow> string \<Rightarrow> string \<Rightarrow> string \<Rightarrow> crypto_env \<Rightarrow> inlet" where
  "new_inlet t mode addr common username password meth crypto =
     \<lparr>in_tunnel_id = t, in_mode = mode, in_output_addr = addr, in_username = username, in_password = password,
      in_method = meth, in_common = common, in_crypto = crypto, in_sessions = Map.empty, in_udp_peers = Map.empty,
      in_closers = [], in_closed = [], in_stopped = False, in_slots = 0, in_accepted = 0, in_store = []\<rparr>"

definition upd_session :: "nat \<Rightarrow> (inlet_session \<Rightarrow> inlet_session) \<Rightarrow> inlet \<Rightarrow> inlet" where
  "upd_session a f l = (if a < length (in_store l) then l\<lparr>in_store := (in_store l)[a := f (in_store l ! a)]\<rparr> else l)"

section \<open>Slots\<close>

definition reserve_session_slot :: "inlet \<Rightarrow> inlet_error option \<times> inlet" where
  "reserve_session_slot l =
     (if in_stopped l then (Some Inlet_Stopped, l)
      else if in_slots l < max_inlet_sessions then (None, l\<lparr>in_slots := in_slots l + 1\<rparr>)
      else (Some Session_Limit, l))"

definition release_session_slot :: "inlet \<Rightarrow> inlet" where
  "release_session_slot l = (if 0 < in_slots l then l\<lparr>in_slots := in_slots l - 1\<rparr> else l)"

section \<open>Closing a session\<close>

text \<open>The two halves of \<open>shutdown\<close>.  \<open>closeOnce\<close> lets only the first caller in.\<close>

definition begin_shutdown :: "nat \<Rightarrow> inlet \<Rightarrow> inlet" where
  "begin_shutdown a = upd_session a (\<lambda>s.
     if si_phase s = Open_Session
     then s\<lparr>si_phase := Closing_Session, si_handler := update_handler_common sc_close (si_handler s),
            si_input := ring_close (si_input s), si_peer := map_option byte_queue_close (si_peer s)\<rparr>
     else s)"

definition finish_shutdown :: "inlet_env \<Rightarrow> socks5_answers \<Rightarrow> nat \<Rightarrow> inlet \<Rightarrow> inlet" where
  "finish_shutdown env ans a l =
     (if a < length (in_store l) \<and> si_phase (in_store l ! a) = Closing_Session
      then release_session_slot (upd_session a (\<lambda>s. s\<lparr>si_handler := handler_stop env (si_data s) ans (si_handler s),
             si_phase := Closed_Session\<rparr>) l)
      else l)"

definition remove_session :: "session_id \<Rightarrow> inlet \<Rightarrow> nat option \<times> inlet" where
  "remove_session i l =
     (case in_sessions l i of
        None \<Rightarrow> (None, l)
      | Some a \<Rightarrow>
          let l' = l\<lparr>in_sessions := (in_sessions l)(i := None)\<rparr>; peer = si_peer_key (in_store l ! a)
          in (Some a, if peer \<noteq> '''' \<and> in_udp_peers l peer = Some i
                      then l'\<lparr>in_udp_peers := (in_udp_peers l)(peer := None)\<rparr> else l'))"

definition inlet_close_session :: "session_id \<Rightarrow> inlet \<Rightarrow> inlet" where
  "inlet_close_session i l =
     (case remove_session i l of (None, l') \<Rightarrow> l' | (Some a, l') \<Rightarrow> begin_shutdown a l')"

section \<open>Starting a session\<close>

definition session_data :: "session_id \<Rightarrow> string \<Rightarrow> inlet \<Rightarrow> context_data" where
  "session_data i peer l =
     \<lparr>cd_tunnel_id = in_tunnel_id l, cd_session_id = i, cd_mode = in_mode l, cd_output_addr = in_output_addr l,
      cd_username = in_username l, cd_password = in_password l, cd_method = in_method l, cd_peer = peer,
      cd_crypto = in_crypto l\<rparr>"

definition new_inlet_session :: "session_id \<Rightarrow> string \<Rightarrow> string \<Rightarrow> nat \<Rightarrow> inlet \<Rightarrow> inlet_session" where
  "new_inlet_session i peer peer_key now l =
     \<lparr>si_id = i, si_data = session_data i peer l,
      si_handler = new_handler (peer_key \<noteq> '''') (in_mode l) (sc_clone (in_common l)),
      si_input = new_proxy_message_queue_with_capacity default_proxy_queue_capacity,
      si_peer = (if peer_key \<noteq> '''' then Some (new_byte_queue_with_capacity default_byte_queue_capacity) else None),
      si_peer_key = peer_key, si_ready = False, si_phase = Open_Session, si_stage = Installed, si_last_seen = now\<rparr>"

text \<open>\<open>runSession\<close> up to the end of its lock; \<open>reserved\<close> is \<open>slotReserved\<close>.\<close>

definition run_session :: "session_id \<Rightarrow> string \<Rightarrow> string \<Rightarrow> bool \<Rightarrow> nat \<Rightarrow> inlet \<Rightarrow> (inlet_error + nat) \<times> inlet" where
  "run_session i peer peer_key reserved now l =
     (case (if reserved then (None, l) else reserve_session_slot l) of
        (Some e, l) \<Rightarrow> (Inl e, l)
      | (None, l) \<Rightarrow>
          if in_stopped l then (Inl Inlet_Stopped, release_session_slot l)
          else if in_sessions l i \<noteq> None then (Inl Duplicate_Session, release_session_slot l)
          else let a = length (in_store l) in
            (Inr a, l\<lparr>in_store := in_store l @ [new_inlet_session i peer peer_key now l],
                in_sessions := (in_sessions l)(i \<mapsto> a),
                in_udp_peers := (if peer_key \<noteq> '''' then (in_udp_peers l)(peer_key \<mapsto> i) else in_udp_peers l)\<rparr>))"

definition mark_ready :: "inlet_session \<Rightarrow> inlet_session" where
  "mark_ready s = (if handler_ready (si_handler s) then s\<lparr>si_ready := True\<rparr> else s)"

text \<open>The rest of \<open>runSession\<close>: \<open>onStart\<close>, and \<open>closeSession\<close> when it fails.\<close>

definition start_session :: "inlet_env \<Rightarrow> socks5_answers \<Rightarrow> nat \<Rightarrow> inlet \<Rightarrow> inlet option" where
  "start_session env ans a l =
     (let s = in_store l ! a in
      if si_phase s \<noteq> Open_Session
      then Some (inlet_close_session (si_id s) (upd_session a (\<lambda>s. s\<lparr>si_stage := Start_Failed\<rparr>) l))
      else (case handler_start env (si_data s) ans (si_handler s) of
              None \<Rightarrow> None
            | Some (Some e, h) \<Rightarrow>
                Some (inlet_close_session (si_id s) (upd_session a (\<lambda>s. s\<lparr>si_handler := h, si_stage := Start_Failed\<rparr>) l))
            | Some (None, h) \<Rightarrow>
                Some (upd_session a (\<lambda>s. mark_ready (s\<lparr>si_handler := h, si_stage := Started\<rparr>)) l)))"

definition run_tcp_conn :: "session_id \<Rightarrow> string \<Rightarrow> nat \<Rightarrow> inlet \<Rightarrow> (inlet_error + nat) \<times> inlet" where
  "run_tcp_conn i peer now l = run_session i peer '''' True now (l\<lparr>in_accepted := in_accepted l - 1\<rparr>)"

section \<open>Data of the peer\<close>

definition handle_peer_data ::
  "inlet_env \<Rightarrow> socks5_answers \<Rightarrow> nat \<Rightarrow> byte list \<Rightarrow> inlet_session \<Rightarrow> (handler_error option \<times> inlet_session) option" where
  "handle_peer_data env ans now payload s =
     (let s = s\<lparr>si_last_seen := now\<rparr> in
      case handler_input env (si_data s) (ans, Peer_Bytes payload) (si_handler s) of
        None \<Rightarrow> None
      | Some (Some e, h) \<Rightarrow> Some (Some e, s\<lparr>si_handler := h\<rparr>)
      | Some (None, h) \<Rightarrow> Some (None, mark_ready (s\<lparr>si_handler := h\<rparr>)))"

text \<open>One round of the loops of \<open>runTCPConn\<close> and \<open>runUDPSession\<close>.\<close>

definition peer_data_step :: "inlet_env \<Rightarrow> socks5_answers \<Rightarrow> nat \<Rightarrow> byte list \<Rightarrow> nat \<Rightarrow> inlet \<Rightarrow> inlet option" where
  "peer_data_step env ans now payload a l =
     (case handle_peer_data env ans now payload (in_store l ! a) of
        None \<Rightarrow> None
      | Some (e, s) \<Rightarrow>
          let l = upd_session a (\<lambda>_. s) l in
          Some (if e \<noteq> None then inlet_close_session (si_id s) l else l))"

definition udp_session_step :: "inlet_env \<Rightarrow> socks5_answers \<Rightarrow> nat \<Rightarrow> nat \<Rightarrow> inlet \<Rightarrow> inlet option" where
  "udp_session_step env ans now a l =
     (case si_peer (in_store l ! a) of
        None \<Rightarrow> None
      | Some q \<Rightarrow>
          (case byte_queue_pop q of
             Some ((Some payload, True), q) \<Rightarrow>
               peer_data_step env ans now payload a (upd_session a (\<lambda>s. s\<lparr>si_peer := Some q\<rparr>) l)
           | _ \<Rightarrow> None))"

text \<open>A packet of the socket of a SOCKS5 association, read by a goroutine of the context.\<close>

definition socks5_packet_step ::
  "inlet_env \<Rightarrow> socks5_answers \<Rightarrow> udp_addr option \<Rightarrow> byte list \<Rightarrow> nat \<Rightarrow> inlet \<Rightarrow> inlet option" where
  "socks5_packet_step env ans addr packet a l =
     map_option (\<lambda>(e, h). upd_session a (\<lambda>s. s\<lparr>si_handler := h\<rparr>) l)
       (handler_input env (si_data (in_store l ! a)) (ans, Udp_Packet addr packet) (si_handler (in_store l ! a)))"

definition udp_session_for :: "string \<Rightarrow> inlet \<Rightarrow> nat option" where
  "udp_session_for peer_key l =
     (case in_udp_peers l peer_key of None \<Rightarrow> None | Some i \<Rightarrow> in_sessions l i)"

text \<open>\<open>ensureUDPSession\<close> when there is no session yet, and the loop's push of the packet.\<close>

definition ensure_udp_session :: "session_id \<Rightarrow> string \<Rightarrow> nat \<Rightarrow> inlet \<Rightarrow> (inlet_error + nat) \<times> inlet" where
  "ensure_udp_session i peer now l =
     (case udp_session_for peer l of
        Some a \<Rightarrow> (Inr a, l)
      | None \<Rightarrow> run_session i peer peer False now l)"

definition udp_push :: "nat \<Rightarrow> byte list \<Rightarrow> bool \<Rightarrow> nat \<Rightarrow> inlet \<Rightarrow> inlet" where
  "udp_push now payload created a l =
     (case si_peer (in_store l ! a) of
        None \<Rightarrow> l
      | Some q \<Rightarrow>
          (case byte_queue_push payload q of (ok, q) \<Rightarrow>
             let l' = upd_session a (\<lambda>s. s\<lparr>si_last_seen := now, si_peer := Some q\<rparr>) l in
             if \<not> ok \<and> created then inlet_close_session (si_id (in_store l ! a)) l' else l'))"

section \<open>Messages of the outlet\<close>

definition inlet_input :: "proxy_message \<Rightarrow> inlet \<Rightarrow> inlet" where
  "inlet_input m l =
     (case in_sessions l (pm_session_id m) of
        None \<Rightarrow> l
      | Some a \<Rightarrow>
          let push = (case ring_push m (si_input (in_store l ! a)) of (ok, q) \<Rightarrow>
                let l' = upd_session a (\<lambda>s. s\<lparr>si_input := q\<rparr>) l in
                if ok then l' else inlet_close_session (pm_session_id m) l') in
          (case m of
             O2ISendDataResult t i n \<Rightarrow>
               upd_session a (\<lambda>s. s\<lparr>si_handler := update_handler_common
                 (\<lambda>c. c\<lparr>sc_flow := flow_release (uint n) (sc_flow c)\<rparr>) (si_handler s)\<rparr>) l
           | O2IConnect _ _ _ _ \<Rightarrow> push
           | O2IRecvData _ _ _ \<Rightarrow> push
           | O2IRecvDataFrom _ _ _ _ \<Rightarrow> push
           | O2IDisconnect _ _ \<Rightarrow> push
           | _ \<Rightarrow> l))"

text \<open>Whether the session is to be closed after a message: the HTTP and SOCKS5 contexts close it later themselves
  when the connection failed.\<close>

definition should_close_after :: "context_data \<Rightarrow> proxy_message \<Rightarrow> bool" where
  "should_close_after d m =
     (case m of
        O2IConnect t i success e \<Rightarrow> \<not> success \<and> \<not> (cd_mode d = mode_http \<or> cd_mode d = mode_socks5)
      | O2IDisconnect t i \<Rightarrow> True
      | _ \<Rightarrow> False)"

definition handle_proxy_message ::
  "inlet_env \<Rightarrow> socks5_answers \<Rightarrow> nat \<Rightarrow> proxy_message \<Rightarrow> inlet_session
    \<Rightarrow> ((bool \<times> handler_error option) \<times> inlet_session) option" where
  "handle_proxy_message env ans now m s =
     (let s = s\<lparr>si_last_seen := now\<rparr> in
      case handler_reply env (si_data s) ans m (si_handler s) of
        None \<Rightarrow> None
      | Some (e, h) \<Rightarrow>
          let s = mark_ready (s\<lparr>si_handler := h\<rparr>) in
          Some (if e \<noteq> None then ((True, e), s) else ((should_close_after (si_data s) m, None), s)))"

definition proxy_loop_step :: "inlet_env \<Rightarrow> socks5_answers \<Rightarrow> nat \<Rightarrow> nat \<Rightarrow> inlet \<Rightarrow> inlet option" where
  "proxy_loop_step env ans now a l =
     (case ring_pop (si_input (in_store l ! a)) of
        Some ((Some m, True), q) \<Rightarrow>
          (case handle_proxy_message env ans now m ((in_store l ! a)\<lparr>si_input := q\<rparr>) of
             None \<Rightarrow> None
           | Some ((close, e), s) \<Rightarrow>
               let l = upd_session a (\<lambda>_. s) l in
               Some (if e \<noteq> None \<or> close then inlet_close_session (si_id s) l else l))
      | _ \<Rightarrow> None)"

section \<open>Timers\<close>

definition idle_for :: "nat \<Rightarrow> inlet_session \<Rightarrow> nat" where
  "idle_for now s = (if si_last_seen s = 0 then 0 else now - si_last_seen s)"

definition udp_idle_watcher :: "nat \<Rightarrow> nat \<Rightarrow> inlet \<Rightarrow> inlet" where
  "udp_idle_watcher now a l =
     (let s = in_store l ! a in
      if si_phase s = Open_Session \<and> idle_for now s > udp_session_idle_ttl
      then inlet_close_session (si_id s) l else l)"

definition wait_ready_timeout :: "nat \<Rightarrow> inlet \<Rightarrow> inlet" where
  "wait_ready_timeout a l =
     (let s = in_store l ! a in if si_ready s then l else inlet_close_session (si_id s) l)"

section \<open>The inlet\<close>

text \<open>\<open>as\<close> is the order in which the iteration over the sessions visits them.\<close>

definition stop_inlet :: "nat list \<Rightarrow> inlet \<Rightarrow> inlet" where
  "stop_inlet as l =
     fold begin_shutdown as
       (l\<lparr>in_stopped := True, in_closers := [], in_closed := in_closed l @ in_closers l,
          in_sessions := Map.empty, in_udp_peers := Map.empty\<rparr>)"

definition register_closer :: "nat \<Rightarrow> inlet \<Rightarrow> bool \<times> inlet" where
  "register_closer k l = (if in_stopped l then (False, l) else (True, l\<lparr>in_closers := in_closers l @ [k]\<rparr>))"

text \<open>\<open>startTCP\<close> and \<open>startUDP\<close>: the socket is the outcome of listening.\<close>

definition start_listener :: "nat option \<Rightarrow> inlet \<Rightarrow> inlet_error option \<times> inlet" where
  "start_listener socket l =
     (case socket of
        None \<Rightarrow> (Some Listen_Error, l)
      | Some k \<Rightarrow>
          (case register_closer k l of
             (True, l) \<Rightarrow> (None, l)
           | (False, l) \<Rightarrow> (Some Inlet_Stopped, l\<lparr>in_closed := in_closed l @ [k]\<rparr>)))"

definition start_inlet :: "nat option \<Rightarrow> nat option \<Rightarrow> nat list \<Rightarrow> inlet \<Rightarrow> inlet_error option \<times> inlet" where
  "start_inlet tcp udp as l =
     (if in_mode l \<in> {mode_tcp, mode_socks5, mode_http} then start_listener tcp l
      else if in_mode l = mode_udp then start_listener udp l
      else if in_mode l = mode_shadowsocks then
        (case start_listener tcp l of
           (Some e, l) \<Rightarrow> (Some e, l)
         | (None, l) \<Rightarrow>
             (case start_listener udp l of
                (Some e, l) \<Rightarrow> (Some e, stop_inlet as l)
              | (None, l) \<Rightarrow> (None, l)))
      else (Some Unknown_Mode, l))"

definition next_temporary_accept_delay :: "nat \<Rightarrow> nat" where
  "next_temporary_accept_delay current =
     (if current = 0 then initial_accept_delay
      else let n = current * 2 in if n > max_accept_delay then max_accept_delay else n)"

text \<open>One round of \<open>acceptTCP\<close>: whether the loop goes on, and the delay it has reached.\<close>

datatype accept_outcome = Accepted bool | Accept_Closed | Accept_Temporary | Accept_Failed

definition accept_tcp :: "accept_outcome \<Rightarrow> nat \<Rightarrow> inlet \<Rightarrow> (bool \<times> nat) \<times> inlet" where
  "accept_tcp outcome delay l =
     (case outcome of
        Accept_Closed \<Rightarrow> ((False, delay), l)
      | Accept_Failed \<Rightarrow> ((False, delay), l)
      | Accept_Temporary \<Rightarrow>
          if in_stopped l then ((False, delay), l) else ((True, next_temporary_accept_delay delay), l)
      | Accepted configured \<Rightarrow>
          if \<not> configured then ((True, 0), l)
          else (case reserve_session_slot l of
                  (Some Inlet_Stopped, l) \<Rightarrow> ((False, 0), l)
                | (Some e, l) \<Rightarrow> ((True, 0), l)
                | (None, l) \<Rightarrow>
                    if in_stopped l then ((False, 0), release_session_slot l)
                    else ((True, 0), l\<lparr>in_accepted := in_accepted l + 1\<rparr>)))"

section \<open>Logging of failed decryptions\<close>

definition should_log_auth_failure :: "nat \<Rightarrow> string \<Rightarrow> (string \<rightharpoonup> nat) \<Rightarrow> bool \<times> (string \<rightharpoonup> nat)" where
  "should_log_auth_failure now peer m =
     (let m = (\<lambda>k. case m k of None \<Rightarrow> None | Some t \<Rightarrow> if now - t > 60 * 1000000000 then None else Some t) in
      case m peer of
        Some t \<Rightarrow> if now - t < auth_failure_log_interval then (False, m) else (True, m(peer \<mapsto> now))
      | None \<Rightarrow> (True, m(peer \<mapsto> now)))"

section \<open>Runs\<close>

text \<open>
  Every order of the steps of the inlet's goroutines.  With \<open>polite\<close> the outlet's side answers only: a message
  for a session carries the tunnel's id and comes after the session has asked for its connection.
\<close>

definition polite_message :: "proxy_message \<Rightarrow> inlet \<Rightarrow> bool" where
  "polite_message m l \<longleftrightarrow> pm_tunnel_id m = in_tunnel_id l \<and>
     (\<forall>a. in_sessions l (pm_session_id m) = Some a \<longrightarrow> asked (handler_out (si_handler (in_store l ! a))))"

inductive inlet_run :: "inlet_env \<Rightarrow> bool \<Rightarrow> inlet \<Rightarrow> bool" for env polite where
  new: "inlet_run env polite (new_inlet t mode addr common username password meth crypto)"
| listen: "inlet_run env polite l \<Longrightarrow> set as = ran (in_sessions l) \<Longrightarrow> start_inlet tcp udp as l = (e, l') \<Longrightarrow>
    inlet_run env polite l'"
| accept: "inlet_run env polite l \<Longrightarrow> accept_tcp outcome delay l = (r, l') \<Longrightarrow> inlet_run env polite l'"
| tcp: "inlet_run env polite l \<Longrightarrow> 0 < in_accepted l \<Longrightarrow> run_tcp_conn i peer now l = (r, l') \<Longrightarrow>
    inlet_run env polite l'"
| udp: "inlet_run env polite l \<Longrightarrow> peer \<noteq> '''' \<Longrightarrow> ensure_udp_session i peer now l = (r, l') \<Longrightarrow>
    inlet_run env polite l'"
| start: "inlet_run env polite l \<Longrightarrow> a < length (in_store l) \<Longrightarrow> si_stage (in_store l ! a) = Installed \<Longrightarrow>
    start_session env ans a l = Some l' \<Longrightarrow> inlet_run env polite l'"
| packet: "inlet_run env polite l \<Longrightarrow> a < length (in_store l) \<Longrightarrow> si_stage (in_store l ! a) = Started \<Longrightarrow>
    inlet_run env polite (udp_push now payload created a l)"
| tcp_data: "inlet_run env polite l \<Longrightarrow> a < length (in_store l) \<Longrightarrow> si_stage (in_store l ! a) = Started \<Longrightarrow>
    si_ready (in_store l ! a) \<Longrightarrow> si_peer (in_store l ! a) = None \<Longrightarrow>
    peer_data_step env ans now payload a l = Some l' \<Longrightarrow> inlet_run env polite l'"
| udp_data: "inlet_run env polite l \<Longrightarrow> a < length (in_store l) \<Longrightarrow> si_stage (in_store l ! a) = Started \<Longrightarrow>
    si_ready (in_store l ! a) \<Longrightarrow> udp_session_step env ans now a l = Some l' \<Longrightarrow> inlet_run env polite l'"
| association: "inlet_run env polite l \<Longrightarrow> a < length (in_store l) \<Longrightarrow> si_stage (in_store l ! a) = Started \<Longrightarrow>
    socks5_packet_step env ans addr packet a l = Some l' \<Longrightarrow> inlet_run env polite l'"
| message: "inlet_run env polite l \<Longrightarrow> (polite \<longrightarrow> polite_message m l) \<Longrightarrow> inlet_run env polite (inlet_input m l)"
| reply: "inlet_run env polite l \<Longrightarrow> a < length (in_store l) \<Longrightarrow> proxy_loop_step env ans now a l = Some l' \<Longrightarrow>
    inlet_run env polite l'"
| idle: "inlet_run env polite l \<Longrightarrow> a < length (in_store l) \<Longrightarrow> inlet_run env polite (udp_idle_watcher now a l)"
| unready: "inlet_run env polite l \<Longrightarrow> a < length (in_store l) \<Longrightarrow> inlet_run env polite (wait_ready_timeout a l)"
| read_error: "inlet_run env polite l \<Longrightarrow> inlet_run env polite (inlet_close_session i l)"
| finish: "inlet_run env polite l \<Longrightarrow> inlet_run env polite (finish_shutdown env ans a l)"
| stop: "inlet_run env polite l \<Longrightarrow> set as = ran (in_sessions l) \<Longrightarrow> inlet_run env polite (stop_inlet as l)"

section \<open>Sessions, peers and slots\<close>

text \<open>What the invariant sees of an inlet: the two maps, the slots, the accepted connections, whether it is
  stopped, and of each session its id, its phase and its peer's key.\<close>

type_synonym session_face = "session_id \<times> session_phase \<times> string"

definition face :: "inlet_session \<Rightarrow> session_face" where
  "face s = (si_id s, si_phase s, si_peer_key s)"

record view =
  v_sessions :: "session_id \<rightharpoonup> nat"
  v_peers :: "string \<rightharpoonup> session_id"
  v_slots :: nat
  v_accepted :: nat
  v_stopped :: bool
  v_faces :: "session_face list"

definition view_of :: "inlet \<Rightarrow> view" where
  "view_of l = \<lparr>v_sessions = in_sessions l, v_peers = in_udp_peers l, v_slots = in_slots l,
     v_accepted = in_accepted l, v_stopped = in_stopped l, v_faces = map face (in_store l)\<rparr>"

definition live :: "session_face list \<Rightarrow> nat" where
  "live fs = length (filter (\<lambda>(i, p, k). p \<noteq> Closed_Session) fs)"

definition view_inv :: "view \<Rightarrow> bool" where
  "view_inv v \<longleftrightarrow>
     (\<forall>i a. v_sessions v i = Some a \<longrightarrow> a < length (v_faces v) \<and> (\<exists>k. v_faces v ! a = (i, Open_Session, k))) \<and>
     (\<forall>a i k. a < length (v_faces v) \<longrightarrow> v_faces v ! a = (i, Open_Session, k) \<longrightarrow>
        v_sessions v i = Some a \<and> (k \<noteq> '''' \<longrightarrow> v_peers v k = Some i)) \<and>
     (\<forall>k i. v_peers v k = Some i \<longrightarrow> k \<noteq> '''' \<and>
        (\<exists>a. v_sessions v i = Some a \<and> v_faces v ! a = (i, Open_Session, k))) \<and>
     v_slots v = v_accepted v + live (v_faces v) \<and> v_slots v \<le> max_inlet_sessions \<and>
     (v_stopped v \<longrightarrow> v_sessions v = Map.empty)"

lemma view_invI:
  assumes "\<And>i a. v_sessions v i = Some a \<Longrightarrow> a < length (v_faces v) \<and> (\<exists>k. v_faces v ! a = (i, Open_Session, k))"
    and "\<And>a i k. a < length (v_faces v) \<Longrightarrow> v_faces v ! a = (i, Open_Session, k) \<Longrightarrow>
        v_sessions v i = Some a \<and> (k \<noteq> '''' \<longrightarrow> v_peers v k = Some i)"
    and "\<And>k i. v_peers v k = Some i \<Longrightarrow> k \<noteq> '''' \<and> (\<exists>a. v_sessions v i = Some a \<and> v_faces v ! a = (i, Open_Session, k))"
    and "v_slots v = v_accepted v + live (v_faces v)" "v_slots v \<le> max_inlet_sessions"
    and "v_stopped v \<Longrightarrow> v_sessions v = Map.empty"
  shows "view_inv v"
  using assms unfolding view_inv_def by blast

lemma view_invD:
  assumes "view_inv v"
  shows "v_sessions v i = Some a \<Longrightarrow> a < length (v_faces v)"
    and "v_sessions v i = Some a \<Longrightarrow> \<exists>k. v_faces v ! a = (i, Open_Session, k)"
    and "a < length (v_faces v) \<Longrightarrow> v_faces v ! a = (i, Open_Session, k) \<Longrightarrow> v_sessions v i = Some a"
    and "a < length (v_faces v) \<Longrightarrow> v_faces v ! a = (i, Open_Session, k) \<Longrightarrow> k \<noteq> '''' \<Longrightarrow> v_peers v k = Some i"
    and "v_peers v k = Some i \<Longrightarrow> k \<noteq> ''''"
    and "v_peers v k = Some i \<Longrightarrow> \<exists>a. v_sessions v i = Some a \<and> v_faces v ! a = (i, Open_Session, k)"
    and "v_slots v = v_accepted v + live (v_faces v)" "v_slots v \<le> max_inlet_sessions"
    and "v_stopped v \<Longrightarrow> v_sessions v = Map.empty"
  using assms unfolding view_inv_def by blast+

text \<open>The steps on views.\<close>

definition v_begin :: "nat \<Rightarrow> session_face list \<Rightarrow> session_face list" where
  "v_begin a fs = (if a < length fs then fs[a := (case fs ! a of (i, p, k) \<Rightarrow>
     (i, if p = Open_Session then Closing_Session else p, k))] else fs)"

definition v_close :: "session_id \<Rightarrow> view \<Rightarrow> view" where
  "v_close i v =
     (case v_sessions v i of
        None \<Rightarrow> v
      | Some a \<Rightarrow>
          let k = snd (snd (v_faces v ! a)) in
          v\<lparr>v_sessions := (v_sessions v)(i := None),
            v_peers := (if k \<noteq> '''' \<and> v_peers v k = Some i then (v_peers v)(k := None) else v_peers v),
            v_faces := v_begin a (v_faces v)\<rparr>)"

definition v_install :: "session_id \<Rightarrow> string \<Rightarrow> view \<Rightarrow> view" where
  "v_install i k v =
     v\<lparr>v_sessions := (v_sessions v)(i \<mapsto> length (v_faces v)),
       v_peers := (if k \<noteq> '''' then (v_peers v)(k \<mapsto> i) else v_peers v),
       v_faces := v_faces v @ [(i, Open_Session, k)]\<rparr>"

definition v_finish :: "nat \<Rightarrow> view \<Rightarrow> view" where
  "v_finish a v =
     (if a < length (v_faces v) \<and> fst (snd (v_faces v ! a)) = Closing_Session
      then v\<lparr>v_faces := (v_faces v)[a := (fst (v_faces v ! a), Closed_Session, snd (snd (v_faces v ! a)))],
             v_slots := v_slots v - 1\<rparr>
      else v)"

definition v_stop :: "nat list \<Rightarrow> view \<Rightarrow> view" where
  "v_stop as v = v\<lparr>v_stopped := True, v_sessions := Map.empty, v_peers := Map.empty,
     v_faces := fold v_begin as (v_faces v)\<rparr>"

lemma length_v_begin [simp]: "length (v_begin a fs) = length fs"
  by (simp add: v_begin_def)

lemma live_update:
  "a < length fs \<Longrightarrow> fst (snd f) \<noteq> Closed_Session \<Longrightarrow> fst (snd (fs ! a)) \<noteq> Closed_Session \<Longrightarrow> live (fs[a := f]) = live fs"
  by (induction fs arbitrary: a) (auto simp: live_def nth_Cons split: nat.splits prod.splits)

lemma live_drop:
  "a < length fs \<Longrightarrow> fst (snd f) = Closed_Session \<Longrightarrow> fst (snd (fs ! a)) \<noteq> Closed_Session \<Longrightarrow>
   Suc (live (fs[a := f])) = live fs"
  by (induction fs arbitrary: a) (auto simp: live_def nth_Cons split: nat.splits prod.splits)

lemma live_begin [simp]: "live (v_begin a fs) = live fs"
proof (cases "a < length fs \<and> fst (snd (fs ! a)) = Open_Session")
  case True
  then show ?thesis by (auto simp: v_begin_def split: prod.split intro!: live_update)
next
  case False
  then have "v_begin a fs = fs" by (auto simp: v_begin_def list_update_same_conv split: prod.split)
  then show ?thesis by simp
qed

lemma nth_begin:
  "b < length fs \<Longrightarrow> v_begin a fs ! b = (if b = a \<and> fst (snd (fs ! b)) = Open_Session
     then (fst (fs ! b), Closing_Session, snd (snd (fs ! b))) else fs ! b)"
  by (auto simp: v_begin_def nth_list_update split: prod.split)

lemma v_close_inv: "view_inv v \<Longrightarrow> view_inv (v_close i v)"
proof (cases "v_sessions v i")
  case (Some a)
  assume inv: "view_inv v"
  note d = view_invD [OF inv]
  from d(1,2) [OF Some] obtain k where a: "a < length (v_faces v)" "v_faces v ! a = (i, Open_Session, k)" by blast
  have eq: "v_close i v = v\<lparr>v_sessions := (v_sessions v)(i := None),
      v_peers := (if k \<noteq> '''' then (v_peers v)(k := None) else v_peers v), v_faces := v_begin a (v_faces v)\<rparr>"
    using Some a d(4) [OF a] by (auto simp: v_close_def)
  have own: "b = a" if "b < length (v_faces v)" "v_faces v ! b = (i, Open_Session, k')" for b k'
    using d(3) [OF that] Some by simp
  show ?thesis unfolding eq
  proof (rule view_invI, goal_cases)
    case (1 j b)
    then have "j \<noteq> i" "v_sessions v j = Some b" by (auto split: if_splits)
    with d(1,2) [of j b] a show ?case by (auto simp: nth_begin)
  next
    case (2 b j k')
    then have b: "b < length (v_faces v)" "v_faces v ! b = (j, Open_Session, k')" "b \<noteq> a"
      using a by (auto simp: nth_begin split: if_splits)
    with own have "j \<noteq> i" by blast
    moreover have "k' \<noteq> k" if "k' \<noteq> ''''" using d(4) [OF b(1,2) that] d(4) [OF a] that \<open>j \<noteq> i\<close> by auto
    ultimately show ?case using d(3,4) [OF b(1,2)] by auto
  next
    case (3 k' j)
    then have p: "v_peers v k' = Some j" "k' \<noteq> k" using d(5) [of k' j] by (auto split: if_splits)
    from d(6) [OF p(1)] obtain b where b: "v_sessions v j = Some b" "v_faces v ! b = (j, Open_Session, k')" by blast
    with p(2) a have "b \<noteq> a" by auto
    moreover from this have "j \<noteq> i" using b(2) a b(1) Some by auto
    ultimately show ?case using d(5) [OF p(1)] d(1) [OF b(1)] b by (auto simp: nth_begin)
  next
    case 4 then show ?case using d(7) by simp
  next
    case 5 then show ?case using d(8) by simp
  next
    case 6 then show ?case using d(9) by auto
  qed
qed (simp add: v_close_def)

lemma v_install_inv:
  assumes inv: "view_inv (v\<lparr>v_slots := n\<rparr>)" "v_slots v = Suc n" "n < max_inlet_sessions"
    and new: "v_sessions v i = None" "k \<noteq> '''' \<Longrightarrow> v_peers v k = None" "\<not> v_stopped v"
  shows "view_inv (v_install i k v)"
proof -
  note d = view_invD [OF inv(1), simplified]
  have nth: "(v_faces v @ [f]) ! a = (if a < length (v_faces v) then v_faces v ! a else f)"
    if "a \<le> length (v_faces v)" for a f using that by (auto simp: nth_append)
  show ?thesis
  proof (rule view_invI, goal_cases)
    case (1 j a)
    then show ?case using d(1,2) [of j a] by (auto simp: v_install_def nth_append split: if_splits)
  next
    case (2 a j k')
    show ?case
    proof (cases "a < length (v_faces v)")
      case True
      with 2 have f: "v_faces v ! a = (j, Open_Session, k')" by (simp add: v_install_def nth_append)
      with d(3) [OF True f] d(4) [OF True f] new show ?thesis by (auto simp: v_install_def)
    next
      case False
      with 2 have "a = length (v_faces v)" by (simp add: v_install_def)
      with 2 show ?thesis by (auto simp: v_install_def)
    qed
  next
    case (3 k' j)
    show ?case
    proof (cases "k' = k \<and> k \<noteq> ''''")
      case True
      with 3 show ?thesis by (auto simp: v_install_def)
    next
      case False
      with 3 have p: "v_peers v k' = Some j" by (auto simp: v_install_def split: if_splits)
      from d(6) [OF p] obtain b where "v_sessions v j = Some b" "v_faces v ! b = (j, Open_Session, k')" by blast
      with d(1) [of j b] d(5) [OF p] new show ?thesis by (auto simp: v_install_def nth_append)
    qed
  next
    case 4 then show ?case using d(7) inv(2) by (simp add: v_install_def live_def)
  next
    case 5 then show ?case using inv(2,3) by (simp add: v_install_def)
  next
    case 6 then show ?case using new by (simp add: v_install_def)
  qed
qed

lemma v_finish_inv: "view_inv v \<Longrightarrow> view_inv (v_finish a v)"
proof (cases "a < length (v_faces v) \<and> fst (snd (v_faces v ! a)) = Closing_Session")
  case True
  assume inv: "view_inv v"
  note d = view_invD [OF inv]
  let ?f = "(fst (v_faces v ! a), Closed_Session, snd (snd (v_faces v ! a)))"
  have eq: "v_finish a v = v\<lparr>v_faces := (v_faces v)[a := ?f], v_slots := v_slots v - 1\<rparr>"
    using True by (simp add: v_finish_def)
  have same: "(v_faces v)[a := ?f] ! b = (i, Open_Session, k) \<longleftrightarrow> v_faces v ! b = (i, Open_Session, k)"
    if "b < length (v_faces v)" for b i k
    using that True by (auto simp: nth_list_update)
  have slots: "Suc (live ((v_faces v)[a := ?f])) = live (v_faces v)" using True by (intro live_drop) auto
  show ?thesis unfolding eq
  proof (rule view_invI, goal_cases)
    case (1 i b) then show ?case using d(1,2) [of i b] same by auto
  next
    case (2 b i k) then show ?case using d(3,4) [of b i k] same by auto
  next
    case (3 k i)
    then have p: "v_peers v k = Some i" by simp
    from d(6) [OF p] obtain b where "v_sessions v i = Some b" "v_faces v ! b = (i, Open_Session, k)" by blast
    with d(1) [of i b] d(5) [OF p] same show ?case by auto
  next
    case 4 then show ?case using d(7) slots by simp
  next
    case 5 then show ?case using d(8) by simp
  next
    case 6 then show ?case using d(9) by simp
  qed
next
  case False
  assume "view_inv v"
  moreover from False have "v_finish a v = v" by (auto simp: v_finish_def)
  ultimately show ?thesis by simp
qed

lemma fold_begin:
  "length (fold v_begin as fs) = length fs \<and> live (fold v_begin as fs) = live fs \<and>
   (b < length fs \<longrightarrow> fst (snd (fold v_begin as fs ! b)) = Open_Session \<longrightarrow>
     b \<notin> set as \<and> fst (snd (fs ! b)) = Open_Session)"
proof (induction as arbitrary: fs)
  case (Cons a as)
  from Cons [of "v_begin a fs"] show ?case by (auto simp: nth_begin split: if_splits)
qed simp

lemma v_stop_inv:
  assumes inv: "view_inv v" and all: "ran (v_sessions v) \<subseteq> set as"
  shows "view_inv (v_stop as v)"
proof -
  note d = view_invD [OF inv]
  have none: "fst (snd (fold v_begin as (v_faces v) ! b)) \<noteq> Open_Session" if b: "b < length (v_faces v)" for b
  proof
    assume "fst (snd (fold v_begin as (v_faces v) ! b)) = Open_Session"
    with fold_begin [of as "v_faces v" b] b have o: "b \<notin> set as" "fst (snd (v_faces v ! b)) = Open_Session" by auto
    then obtain i k where "v_faces v ! b = (i, Open_Session, k)" by (cases "v_faces v ! b") auto
    from d(3) [OF b this] all o(1) show False by (auto simp: ran_def)
  qed
  show ?thesis
    by (rule view_invI) (use none d(7,8) fold_begin [of as "v_faces v"] in \<open>fastforce simp: v_stop_def\<close>)+
qed

text \<open>The steps of the inlet are those of its view.\<close>

lemma upd_fields [simp]:
  "in_sessions (upd_session a f l) = in_sessions l" "in_udp_peers (upd_session a f l) = in_udp_peers l"
  "in_slots (upd_session a f l) = in_slots l" "in_accepted (upd_session a f l) = in_accepted l"
  "in_stopped (upd_session a f l) = in_stopped l" "in_tunnel_id (upd_session a f l) = in_tunnel_id l"
  "in_mode (upd_session a f l) = in_mode l" "length (in_store (upd_session a f l)) = length (in_store l)"
  by (simp_all add: upd_session_def)

lemma upd_nth:
  "b < length (in_store l) \<Longrightarrow>
   in_store (upd_session a f l) ! b = (if b = a then f (in_store l ! b) else in_store l ! b)"
  by (auto simp: upd_session_def)

lemma view_upd:
  "(\<And>s. face (f s) = face s) \<Longrightarrow> view_of (upd_session a f l) = view_of l"
  by (auto simp: view_of_def upd_session_def map_update list_update_same_conv)

lemma face_nth: "a < length (in_store l) \<Longrightarrow> v_faces (view_of l) ! a = face (in_store l ! a)"
  by (simp add: view_of_def)

lemma begin_faces: "map face (in_store (begin_shutdown a l)) = v_begin a (map face (in_store l))"
  by (auto simp: begin_shutdown_def upd_session_def v_begin_def map_update face_def)

lemma begin_same:
  "in_sessions (begin_shutdown a l) = in_sessions l" "in_udp_peers (begin_shutdown a l) = in_udp_peers l"
  "in_slots (begin_shutdown a l) = in_slots l" "in_accepted (begin_shutdown a l) = in_accepted l"
  "in_stopped (begin_shutdown a l) = in_stopped l" "length (in_store (begin_shutdown a l)) = length (in_store l)"
  by (simp_all add: begin_shutdown_def)

lemma view_close:
  assumes "view_inv (view_of l)"
  shows "view_of (inlet_close_session i l) = v_close i (view_of l)"
proof (cases "in_sessions l i")
  case (Some a)
  from view_invD(1) [OF assms, of i a] Some have a: "a < length (in_store l)" by (simp add: view_of_def)
  then show ?thesis using Some
    by (auto simp: inlet_close_session_def remove_session_def v_close_def view_of_def begin_same begin_faces Let_def face_def)
qed (simp add: inlet_close_session_def remove_session_def v_close_def view_of_def)

lemma view_finish: "view_of (finish_shutdown env ans a l) = v_finish a (view_of l)"
  by (auto simp: finish_shutdown_def v_finish_def view_of_def release_session_slot_def upd_session_def map_update face_def)

lemma view_stop: "view_of (stop_inlet as l) = v_stop as (view_of l)"
proof -
  have "view_of (fold begin_shutdown as l) = (view_of l)\<lparr>v_faces := fold v_begin as (map face (in_store l))\<rparr>" for l
    by (induction as arbitrary: l) (simp_all add: view_of_def begin_same begin_faces)
  then show ?thesis by (simp add: stop_inlet_def v_stop_def) (simp add: view_of_def)
qed

section \<open>Every step keeps the invariant\<close>

definition inlet_inv :: "inlet \<Rightarrow> bool" where
  "inlet_inv l \<longleftrightarrow> view_inv (view_of l)"

lemma inlet_inv_upd: "inlet_inv l \<Longrightarrow> face s = face (in_store l ! a) \<Longrightarrow> inlet_inv (upd_session a (\<lambda>_. s) l)"
proof -
  assume inv: "inlet_inv l" and f: "face s = face (in_store l ! a)"
  have "map face ((in_store l)[a := s]) = map face (in_store l)" if "a < length (in_store l)"
    using that f by (metis length_map list_update_id map_update nth_map)
  then have "view_of (upd_session a (\<lambda>_. s) l) = view_of l" by (simp add: view_of_def upd_session_def)
  with inv show ?thesis by (simp add: inlet_inv_def)
qed

lemma inlet_inv_upd_same: "inlet_inv l \<Longrightarrow> (\<And>s. face (f s) = face s) \<Longrightarrow> inlet_inv (upd_session a f l)"
  by (simp add: inlet_inv_def view_upd)

lemma inlet_inv_close: "inlet_inv l \<Longrightarrow> inlet_inv (inlet_close_session i l)"
  by (simp add: inlet_inv_def view_close v_close_inv)

lemma inlet_inv_finish: "inlet_inv l \<Longrightarrow> inlet_inv (finish_shutdown env ans a l)"
  by (simp add: inlet_inv_def view_finish v_finish_inv)

lemma inlet_inv_stop: "inlet_inv l \<Longrightarrow> ran (in_sessions l) \<subseteq> set as \<Longrightarrow> inlet_inv (stop_inlet as l)"
  using v_stop_inv [of "view_of l" as] by (simp add: inlet_inv_def view_stop) (simp add: view_of_def)

lemma face_mark_ready [simp]: "face (mark_ready s) = face s"
  by (simp add: mark_ready_def face_def)

lemma face_updates [simp]:
  "face (s\<lparr>si_handler := h\<rparr>) = face s" "face (s\<lparr>si_input := q\<rparr>) = face s" "face (s\<lparr>si_peer := p\<rparr>) = face s"
  "face (s\<lparr>si_stage := g\<rparr>) = face s" "face (s\<lparr>si_last_seen := t\<rparr>) = face s"
  by (simp_all add: face_def)

text \<open>Slots on their own.\<close>

lemma view_inv_slots:
  assumes "view_inv v" "n = m + live (v_faces v)" "n \<le> max_inlet_sessions"
  shows "view_inv (v\<lparr>v_slots := n, v_accepted := m\<rparr>)"
proof -
  note d = view_invD [OF assms(1)]
  show ?thesis
  proof (rule view_invI, goal_cases)
    case (1 i a) then show ?case using d(1,2) [of i a] by simp
  next
    case (2 a i k) then show ?case using d(3,4) [of a i k] by simp
  next
    case (3 k i) then show ?case using d(5,6) [of k i] by simp
  next
    case 6 then show ?case using d(9) by simp
  qed (use assms(2,3) in simp_all)
qed

lemma inlet_inv_slots:
  assumes "inlet_inv l" "n = m + (in_slots l - in_accepted l)" "n \<le> max_inlet_sessions"
  shows "inlet_inv (l\<lparr>in_slots := n, in_accepted := m\<rparr>)"
proof -
  have "in_slots l - in_accepted l = live (v_faces (view_of l))"
    using view_invD(7) [of "view_of l"] assms(1) by (simp add: inlet_inv_def) (simp add: view_of_def)
  then have "view_inv ((view_of l)\<lparr>v_slots := n, v_accepted := m\<rparr>)"
    using assms by (intro view_inv_slots) (simp_all add: inlet_inv_def)
  then show ?thesis by (simp add: inlet_inv_def view_of_def)
qed

lemma inlet_inv_bounds:
  assumes "inlet_inv l"
  shows "in_accepted l \<le> in_slots l" "in_slots l \<le> max_inlet_sessions" "in_stopped l \<Longrightarrow> in_sessions l = Map.empty"
  using view_invD(7,8,9) [of "view_of l"] assms by (simp_all add: inlet_inv_def) (simp_all add: view_of_def)

lemma inlet_inv_sockets: "inlet_inv (l\<lparr>in_closers := x\<rparr>) = inlet_inv l" "inlet_inv (l\<lparr>in_closed := y\<rparr>) = inlet_inv l"
  by (simp_all add: inlet_inv_def view_of_def)

text \<open>Installing a session with a slot in hand: \<open>l\<close> is the inlet before the slot was taken.\<close>

lemma inlet_inv_install:
  assumes inv: "inlet_inv l" and slots: "in_slots l' = Suc (in_slots l)" "in_slots l < max_inlet_sessions"
    and same: "in_sessions l' = in_sessions l" "in_udp_peers l' = in_udp_peers l" "in_accepted l' = in_accepted l"
      "in_stopped l' = in_stopped l" "in_store l' = in_store l"
    and new: "in_sessions l i = None" "k \<noteq> '''' \<Longrightarrow> in_udp_peers l k = None" "\<not> in_stopped l"
    and s: "face s = (i, Open_Session, k)"
  shows "inlet_inv (l'\<lparr>in_store := in_store l' @ [s], in_sessions := (in_sessions l')(i \<mapsto> length (in_store l')),
      in_udp_peers := (if k \<noteq> '''' then (in_udp_peers l')(k \<mapsto> i) else in_udp_peers l')\<rparr>)"
proof -
  have "view_inv (v_install i k (view_of l'))"
  proof (rule v_install_inv)
    have "(view_of l')\<lparr>v_slots := in_slots l\<rparr> = view_of l" by (simp add: view_of_def same)
    with inv show "view_inv ((view_of l')\<lparr>v_slots := in_slots l\<rparr>)" by (simp add: inlet_inv_def)
  qed (use slots new in \<open>simp_all add: view_of_def same\<close>)
  then show ?thesis by (simp add: inlet_inv_def view_of_def v_install_def s cong: if_cong)
qed

lemma run_session_reserved:
  assumes inv: "inlet_inv (l\<lparr>in_slots := n\<rparr>)" and n: "in_slots l = Suc n" "n < max_inlet_sessions"
    and k: "k \<noteq> '''' \<Longrightarrow> in_udp_peers l k = None"
  shows "inlet_inv (snd (run_session i peer k True now l))"
proof (cases "in_stopped l \<or> in_sessions l i \<noteq> None")
  case True
  then have "snd (run_session i peer k True now l) = l\<lparr>in_slots := n\<rparr>"
    using n by (auto simp: run_session_def release_session_slot_def)
  with inv show ?thesis by simp
next
  case False
  then have "snd (run_session i peer k True now l) =
    l\<lparr>in_store := in_store l @ [new_inlet_session i peer k now l], in_sessions := (in_sessions l)(i \<mapsto> length (in_store l)),
      in_udp_peers := (if k \<noteq> '''' then (in_udp_peers l)(k \<mapsto> i) else in_udp_peers l)\<rparr>"
    by (simp add: run_session_def Let_def)
  moreover have "inlet_inv \<dots>"
    by (rule inlet_inv_install [OF inv]) (use False n k in \<open>simp_all add: new_inlet_session_def face_def\<close>)
  ultimately show ?thesis by simp
qed

lemma reserve_cases:
  obtains e where "reserve_session_slot l = (Some e, l)"
  | "reserve_session_slot l = (None, l\<lparr>in_slots := Suc (in_slots l)\<rparr>)" "in_slots l < max_inlet_sessions" "\<not> in_stopped l"
proof (cases "in_slots l < max_inlet_sessions \<and> \<not> in_stopped l")
  case True
  then show ?thesis by (intro that(2)) (simp_all add: reserve_session_slot_def)
next
  case False
  have "\<exists>e. reserve_session_slot l = (Some e, l)"
    by (cases "in_stopped l") (use False in \<open>simp_all add: reserve_session_slot_def\<close>)
  then show ?thesis using that(1) by blast
qed

lemma run_session_inv:
  assumes inv: "inlet_inv l" and k: "k \<noteq> '''' \<Longrightarrow> in_udp_peers l k = None"
  shows "inlet_inv (snd (run_session i peer k False now l))"
proof (cases rule: reserve_cases [of l])
  case (1 e)
  with inv show ?thesis by (simp add: run_session_def)
next
  case 2
  let ?l = "l\<lparr>in_slots := Suc (in_slots l)\<rparr>"
  have "run_session i peer k False now l = run_session i peer k True now ?l" using 2 by (simp add: run_session_def)
  moreover have "inlet_inv (snd (run_session i peer k True now ?l))"
    by (rule run_session_reserved [where n = "in_slots l"]) (use inv 2 k in simp_all)
  ultimately show ?thesis by simp
qed

lemma run_tcp_conn_inv:
  assumes inv: "inlet_inv l" and n: "0 < in_accepted l"
  shows "inlet_inv (snd (run_tcp_conn i peer now l))"
proof -
  note b = inlet_inv_bounds [OF inv]
  from n b obtain m where m: "in_slots l = Suc m" by (cases "in_slots l") auto
  let ?l = "l\<lparr>in_accepted := in_accepted l - 1\<rparr>"
  have "inlet_inv (l\<lparr>in_slots := m, in_accepted := in_accepted l - 1\<rparr>)"
    by (rule inlet_inv_slots [OF inv]) (use n b m in auto)
  moreover have "l\<lparr>in_slots := m, in_accepted := in_accepted l - 1\<rparr> = ?l\<lparr>in_slots := m\<rparr>" by (cases l) simp
  ultimately have "inlet_inv (?l\<lparr>in_slots := m\<rparr>)" by (simp only:)
  then show ?thesis unfolding run_tcp_conn_def
    by (rule run_session_reserved) (use m b in auto)
qed

lemma accept_inv:
  assumes inv: "inlet_inv l"
  shows "inlet_inv (snd (accept_tcp outcome delay l))"
proof (cases "outcome = Accepted True")
  case True
  show ?thesis
  proof (cases rule: reserve_cases [of l])
    case (1 e)
    with True inv show ?thesis by (auto simp: accept_tcp_def split: inlet_error.split)
  next
    case 2
    have "inlet_inv (l\<lparr>in_slots := Suc (in_slots l), in_accepted := Suc (in_accepted l)\<rparr>)"
      by (rule inlet_inv_slots [OF inv]) (use 2 inlet_inv_bounds [OF inv] in auto)
    with 2 True show ?thesis by (simp add: accept_tcp_def)
  qed
next
  case False
  with inv show ?thesis by (auto simp: accept_tcp_def split: accept_outcome.split)
qed

lemma udp_peer_gone:
  assumes "inlet_inv l" "udp_session_for k l = None"
  shows "in_udp_peers l k = None"
  using assms view_invD(6) [of "view_of l" k]
  by (auto simp: inlet_inv_def udp_session_for_def view_of_def split: option.splits)

lemma ensure_udp_inv:
  "inlet_inv l \<Longrightarrow> inlet_inv (snd (ensure_udp_session i k now l))"
  by (auto simp: ensure_udp_session_def split: option.split intro: run_session_inv udp_peer_gone)

lemma start_session_inv: "inlet_inv l \<Longrightarrow> start_session env ans a l = Some l' \<Longrightarrow> inlet_inv l'"
  by (auto simp: start_session_def Let_def split: if_splits option.splits
      intro!: inlet_inv_close inlet_inv_upd_same)

lemma udp_push_inv: "inlet_inv l \<Longrightarrow> inlet_inv (udp_push now payload created a l)"
  by (auto simp: udp_push_def Let_def split: option.split prod.split intro!: inlet_inv_close inlet_inv_upd_same)

lemma handle_peer_face: "handle_peer_data env ans now payload s = Some (e, s') \<Longrightarrow> face s' = face s"
  by (auto simp: handle_peer_data_def Let_def split: option.splits)

lemma peer_data_inv: "inlet_inv l \<Longrightarrow> peer_data_step env ans now payload a l = Some l' \<Longrightarrow> inlet_inv l'"
  by (auto simp: peer_data_step_def Let_def split: option.splits if_splits
      intro!: inlet_inv_close inlet_inv_upd dest: handle_peer_face)

lemma udp_data_inv: "inlet_inv l \<Longrightarrow> udp_session_step env ans now a l = Some l' \<Longrightarrow> inlet_inv l'"
  by (auto simp: udp_session_step_def split: option.splits bool.splits
      elim!: peer_data_inv [rotated] intro!: inlet_inv_upd_same)

lemma packet_inv: "inlet_inv l \<Longrightarrow> socks5_packet_step env ans addr packet a l = Some l' \<Longrightarrow> inlet_inv l'"
  by (auto simp: socks5_packet_step_def intro!: inlet_inv_upd_same)

lemma input_inv: "inlet_inv l \<Longrightarrow> inlet_inv (inlet_input m l)"
  by (auto simp: inlet_input_def Let_def split: option.split prod.split proxy_message.split
      intro!: inlet_inv_close inlet_inv_upd_same)

lemma handle_proxy_face:
  "handle_proxy_message env ans now m (s\<lparr>si_input := q\<rparr>) = Some (r, s') \<Longrightarrow> face s' = face s"
  by (auto simp: handle_proxy_message_def Let_def face_def mark_ready_def split: option.splits if_splits)

lemma proxy_loop_inv: "inlet_inv l \<Longrightarrow> proxy_loop_step env ans now a l = Some l' \<Longrightarrow> inlet_inv l'"
proof -
  assume inv: "inlet_inv l" and step: "proxy_loop_step env ans now a l = Some l'"
  from step obtain m q c e s where
    h: "handle_proxy_message env ans now m ((in_store l ! a)\<lparr>si_input := q\<rparr>) = Some ((c, e), s)"
    and l': "l' = (if e \<noteq> None \<or> c then inlet_close_session (si_id s) (upd_session a (\<lambda>_. s) l) else upd_session a (\<lambda>_. s) l)"
    unfolding proxy_loop_step_def Let_def by (clarsimp split: option.splits bool.splits prod.splits)
  have "inlet_inv (upd_session a (\<lambda>_. s) l)" using inv handle_proxy_face [OF h] by (rule inlet_inv_upd)
  with l' show ?thesis by (auto intro: inlet_inv_close)
qed

lemma start_inlet_inv:
  assumes "inlet_inv l" "ran (in_sessions l) \<subseteq> set as" "start_inlet tcp udp as l = (e, l')"
  shows "inlet_inv l'"
proof -
  have listen: "inlet_inv l2 \<and> in_sessions l2 = in_sessions l1" if "start_listener k l1 = (e, l2)" "inlet_inv l1" for k l1 e l2
    using that by (auto simp: start_listener_def register_closer_def inlet_inv_sockets split: option.splits if_splits)
  show ?thesis using assms
    by (auto simp: start_inlet_def split: if_splits prod.splits option.splits dest!: listen intro!: inlet_inv_stop)
qed

lemma new_inlet_inv: "inlet_inv (new_inlet t mode addr common username password meth crypto)"
  by (auto simp: inlet_inv_def view_inv_def view_of_def new_inlet_def live_def)

theorem inlet_run_inv: "inlet_run env polite l \<Longrightarrow> inlet_inv l"
proof (induction rule: inlet_run.induct)
  case (listen l as tcp udp e l') then show ?case by (auto intro: start_inlet_inv)
next
  case (accept l outcome delay r l') then show ?case using accept_inv [of l outcome delay] by simp
next
  case (tcp l i peer now r l') then show ?case using run_tcp_conn_inv [of l i peer now] by simp
next
  case (udp l peer i now r l') then show ?case using ensure_udp_inv [of l i peer now] by simp
qed (auto intro: new_inlet_inv start_session_inv udp_push_inv peer_data_inv udp_data_inv packet_inv input_inv
    proxy_loop_inv inlet_inv_close inlet_inv_finish inlet_inv_stop
    simp: udp_idle_watcher_def wait_ready_timeout_def Let_def)

text \<open>
  C15. Whatever connections, packets, messages, errors, timeouts and stops come in whatever order, the sessions of
  an inlet are accounted for: it holds a slot for exactly every accepted connection that has no session yet and
  every session that is not fully closed, never more than 4096; its map holds exactly the open sessions,
  each under its id; a UDP peer is registered exactly for the one open session of its own; and once it is
  stopped no session is open.
\<close>

theorem inlet_sessions_accounted:
  assumes "inlet_run env polite l"
  shows "in_slots l = in_accepted l + length (filter (\<lambda>s. si_phase s \<noteq> Closed_Session) (in_store l)) \<and>
    in_slots l \<le> 4096 \<and>
    (\<forall>i a. in_sessions l i = Some a \<longleftrightarrow>
       a < length (in_store l) \<and> si_id (in_store l ! a) = i \<and> si_phase (in_store l ! a) = Open_Session) \<and>
    (\<forall>k i. in_udp_peers l k = Some i \<longleftrightarrow>
       k \<noteq> '''' \<and> (\<exists>a. in_sessions l i = Some a \<and> si_peer_key (in_store l ! a) = k)) \<and>
    (in_stopped l \<longrightarrow> (\<forall>s \<in> set (in_store l). si_phase s \<noteq> Open_Session))"
proof -
  have inv: "view_inv (view_of l)" using inlet_run_inv [OF assms] by (simp add: inlet_inv_def)
  note d = view_invD [OF inv]
  have sel: "v_sessions (view_of l) = in_sessions l" "v_peers (view_of l) = in_udp_peers l"
    "v_slots (view_of l) = in_slots l" "v_accepted (view_of l) = in_accepted l" "v_stopped (view_of l) = in_stopped l"
    "length (v_faces (view_of l)) = length (in_store l)"
    by (simp_all add: view_of_def)
  have live: "live (v_faces (view_of l)) = length (filter (\<lambda>s. si_phase s \<noteq> Closed_Session) (in_store l))"
    by (simp add: live_def view_of_def filter_map comp_def face_def)
  have nth: "v_faces (view_of l) ! a = (si_id (in_store l ! a), si_phase (in_store l ! a), si_peer_key (in_store l ! a))"
    if "a < length (in_store l)" for a using that by (simp add: view_of_def face_def)
  have reg: "in_sessions l i = Some a \<longleftrightarrow>
      a < length (in_store l) \<and> si_id (in_store l ! a) = i \<and> si_phase (in_store l ! a) = Open_Session" for i a
  proof
    assume "in_sessions l i = Some a"
    with d(1,2) [of i a] obtain k where "a < length (in_store l)" "v_faces (view_of l) ! a = (i, Open_Session, k)"
      unfolding sel by blast
    with nth [of a] show "a < length (in_store l) \<and> si_id (in_store l ! a) = i \<and> si_phase (in_store l ! a) = Open_Session"
      by simp
  next
    assume "a < length (in_store l) \<and> si_id (in_store l ! a) = i \<and> si_phase (in_store l ! a) = Open_Session"
    with nth [of a] d(3) [of a i] show "in_sessions l i = Some a" unfolding sel by simp
  qed
  have peers: "in_udp_peers l k = Some i \<longleftrightarrow>
      k \<noteq> '''' \<and> (\<exists>a. in_sessions l i = Some a \<and> si_peer_key (in_store l ! a) = k)" for k i
  proof
    assume p: "in_udp_peers l k = Some i"
    with d(6) [of k i] obtain a where "in_sessions l i = Some a" "v_faces (view_of l) ! a = (i, Open_Session, k)"
      unfolding sel by blast
    with reg [of i a] nth [of a] d(5) [of k i] p show "k \<noteq> '''' \<and> (\<exists>a. in_sessions l i = Some a \<and> si_peer_key (in_store l ! a) = k)"
      unfolding sel by auto
  next
    assume "k \<noteq> '''' \<and> (\<exists>a. in_sessions l i = Some a \<and> si_peer_key (in_store l ! a) = k)"
    then obtain a where a: "in_sessions l i = Some a" "si_peer_key (in_store l ! a) = k" "k \<noteq> ''''" by blast
    with reg [of i a] nth [of a] have "a < length (in_store l)" "v_faces (view_of l) ! a = (i, Open_Session, k)" by auto
    with d(4) [of a i k] a(3) show "in_udp_peers l k = Some i" unfolding sel by blast
  qed
  have "\<forall>s \<in> set (in_store l). si_phase s \<noteq> Open_Session" if "in_stopped l"
  proof
    fix s assume "s \<in> set (in_store l)"
    then obtain a where "a < length (in_store l)" "in_store l ! a = s" by (auto simp: in_set_conv_nth)
    with reg [of "si_id s" a] d(9) that show "si_phase s \<noteq> Open_Session" unfolding sel by force
  qed
  moreover have "in_slots l = in_accepted l + length (filter (\<lambda>s. si_phase s \<noteq> Closed_Session) (in_store l))"
    "in_slots l \<le> 4096"
    using d(7,8) live unfolding sel max_inlet_sessions_def by simp_all
  ultimately show ?thesis using reg peers by blast
qed

section \<open>What the sessions say\<close>

definition goodbye :: "inlet_session \<Rightarrow> proxy_message" where
  "goodbye s = I2ODisconnect (cd_tunnel_id (si_data s)) (cd_session_id (si_data s))"

text \<open>The state of a session's conversation: \<open>own\<close>, \<open>out\<close>, stage, phase, contents of the queue.\<close>

definition talks :: "inlet_session \<Rightarrow> bool" where
  "talks s \<longleftrightarrow>
     speaks (own_message (si_data s)) [] (handler_out (si_handler s)) \<and>
     (si_stage s = Started \<longrightarrow> handler_good (si_handler s)) \<and>
     (si_stage s = Installed \<longrightarrow> si_phase s \<noteq> Closed_Session \<longrightarrow> (\<exists>udp mode c. si_handler s = new_handler udp mode c)) \<and>
     (asked (handler_out (si_handler s)) \<longrightarrow> si_stage s = Started) \<and>
     ring_inv (si_input s) \<and>
     (\<forall>m. Some m \<in> set (ring_contents (si_input s)) \<longrightarrow>
        own_message (si_data s) m \<and> asked (handler_out (si_handler s))) \<and>
     (si_phase s = Closed_Session \<longrightarrow> goodbye s \<in> set (sent (handler_out (si_handler s))))"

lemma talksI:
  assumes "speaks (own_message (si_data s)) [] (handler_out (si_handler s))"
    and "si_stage s = Started \<Longrightarrow> handler_good (si_handler s)"
    and "si_stage s = Installed \<Longrightarrow> si_phase s \<noteq> Closed_Session \<Longrightarrow> \<exists>udp mode c. si_handler s = new_handler udp mode c"
    and "asked (handler_out (si_handler s)) \<Longrightarrow> si_stage s = Started"
    and "ring_inv (si_input s)"
    and "\<And>m. Some m \<in> set (ring_contents (si_input s)) \<Longrightarrow>
        own_message (si_data s) m \<and> asked (handler_out (si_handler s))"
    and "si_phase s = Closed_Session \<Longrightarrow> goodbye s \<in> set (sent (handler_out (si_handler s)))"
  shows "talks s"
  using assms unfolding talks_def by blast

lemma talksD:
  assumes "talks s"
  shows "speaks (own_message (si_data s)) [] (handler_out (si_handler s))"
    and "si_stage s = Started \<Longrightarrow> handler_good (si_handler s)"
    and "si_stage s = Installed \<Longrightarrow> si_phase s \<noteq> Closed_Session \<Longrightarrow> \<exists>udp mode c. si_handler s = new_handler udp mode c"
    and "asked (handler_out (si_handler s)) \<Longrightarrow> si_stage s = Started"
    and "ring_inv (si_input s)"
    and "Some m \<in> set (ring_contents (si_input s)) \<Longrightarrow>
        own_message (si_data s) m \<and> asked (handler_out (si_handler s))"
    and "si_phase s = Closed_Session \<Longrightarrow> goodbye s \<in> set (sent (handler_out (si_handler s)))"
  using assms unfolding talks_def by blast+

lemma queue_push:
  "ring_inv q \<Longrightarrow> ring_push x q = (ok, q') \<Longrightarrow> ring_inv q' \<and> set (ring_contents q') \<subseteq> insert (Some x) (set (ring_contents q))"
  using ring_contents_push [of q x] ring_inv_ops(1) [of q _ x]
  by (auto simp: ring_push_def Let_def split: if_splits)

lemma queue_pop:
  "ring_inv q \<Longrightarrow> ring_pop q = Some ((m, True), q') \<Longrightarrow>
   m \<in> set (ring_contents q) \<and> ring_inv q' \<and> set (ring_contents q') \<subseteq> set (ring_contents q)"
  using ring_contents_pop [of q] ring_inv_ops(2) [of q "rg_head q"]
  by (auto simp: ring_pop_def Let_def split: if_splits)

lemma speaks_sent: "speaks own xs ys \<Longrightarrow> m \<in> set (sent xs) \<Longrightarrow> m \<in> set (sent ys)"
  by (auto simp: speaks_def)

text \<open>A session whose context goes on speaking.\<close>

lemma talks_speak:
  assumes s: "talks s" "si_stage s = Started" and h: "handler_good h" "speaks (own_message (si_data s)) (handler_out (si_handler s)) (handler_out h)"
    and s': "si_handler s' = h" "si_data s' = si_data s" "si_stage s' = si_stage s" "si_phase s' = si_phase s"
      "ring_inv (si_input s')" "set (ring_contents (si_input s')) \<subseteq> set (ring_contents (si_input s))"
  shows "talks s'"
proof (rule talksI, goal_cases)
  case 1 then show ?case using talksD(1) [OF s(1)] h(2) unfolding s' by (rule speaks_trans)
next
  case (6 m)
  then have "Some m \<in> set (ring_contents (si_input s))" using s'(6) by blast
  from talksD(6) [OF s(1) this] speaks_asked [OF h(2)] show ?case unfolding s' by blast
next
  case 7
  then show ?case using talksD(7) [OF s(1)] speaks_sent [OF h(2)] by (simp add: s' goodbye_def)
qed (use s h s' in auto)

text \<open>Changes the conversation does not see.\<close>

lemma talks_same:
  assumes "talks s" "handler_out (si_handler s') = handler_out (si_handler s)"
    "handler_good (si_handler s') = handler_good (si_handler s)"
    "si_data s' = si_data s" "si_phase s' = si_phase s" "si_input s' = si_input s"
    and "si_stage s' = si_stage s \<and> (si_stage s = Installed \<longrightarrow> si_phase s \<noteq> Closed_Session \<longrightarrow>
        (\<exists>udp mode c. si_handler s' = new_handler udp mode c))
      \<or> si_stage s' = Start_Failed \<and> si_stage s \<noteq> Started"
  shows "talks s'"
  by (rule talksI) (use assms talksD [OF assms(1)] in \<open>auto simp: goodbye_def\<close>)

lemma talks_begin:
  assumes "talks s" "si_phase s = Open_Session"
  shows "talks (s\<lparr>si_phase := Closing_Session, si_handler := update_handler_common sc_close (si_handler s),
            si_input := ring_close (si_input s), si_peer := p\<rparr>)"
proof (rule talksI, goal_cases)
  case 3
  with talksD(3) [OF assms(1)] assms(2) obtain udp mode c where "si_handler s = new_handler udp mode c" by auto
  with update_common_new [of sc_close udp mode c] show ?case by auto
qed (use assms talksD [OF assms(1)] ring_inv_ops(3,4) [of "si_input s"] in auto)

lemma talks_stop:
  assumes s: "talks s" and p: "si_phase s = Closing_Session"
  shows "talks (s\<lparr>si_handler := handler_stop env (si_data s) ans (si_handler s), si_phase := Closed_Session\<rparr>)"
proof -
  obtain es where es: "handler_out (handler_stop env (si_data s) ans (si_handler s)) = handler_out (si_handler s) @ es"
    "sent es = [I2ODisconnect (cd_tunnel_id (si_data s)) (cd_session_id (si_data s))]"
    using handler_stop_out [of env "si_data s" ans "si_handler s"] by blast
  then have asked: "\<not> asked es" by (simp add: asked_def)
  have "speaks (own_message (si_data s)) (handler_out (si_handler s)) (handler_out (si_handler s) @ es)"
    by (rule speaks_more) (simp add: es own_message_def)
  with talksD(1) [OF s] have "speaks (own_message (si_data s)) [] (handler_out (si_handler s) @ es)" by (rule speaks_trans)
  then show ?thesis
    by (intro talksI) (use talksD [OF s] p asked in \<open>auto simp: es goodbye_def intro: handler_stop_good\<close>)
qed

lemma talks_new: "talks (new_inlet_session i peer k now l)"
proof -
  have "handler_out (new_handler u m c) = []" for u m c by (rule hd.silent)
  then show ?thesis
    by (intro talksI) (auto simp: new_inlet_session_def new_proxy_message_queue_with_capacity_def Let_def
        default_proxy_queue_capacity_def new_ring_ok)
qed

lemma talks_start:
  assumes s: "talks s" "si_stage s = Installed" "si_phase s = Open_Session"
    and start: "handler_start env (si_data s) ans (si_handler s) = Some (e, h)"
  shows "talks (case e of None \<Rightarrow> mark_ready (s\<lparr>si_handler := h, si_stage := Started\<rparr>)
      | Some _ \<Rightarrow> s\<lparr>si_handler := h, si_stage := Start_Failed\<rparr>)"
proof -
  from talksD(3) [OF s(1,2)] s(3) obtain udp mode c where h0: "si_handler s = new_handler udp mode c" by auto
  have out: "handler_out (si_handler s) = []" unfolding h0 by (rule hd.silent)
  have empty: "Some m \<notin> set (ring_contents (si_input s))" for m using talksD(6) [OF s(1)] out by auto
  show ?thesis
  proof (cases e)
    case None
    from start [unfolded h0 None] have "handler_good h \<and> speaks (own_message (si_data s)) (handler_out (new_handler udp mode c)) (handler_out h)"
      by (rule hd.start_speaks)
    then have "talks (s\<lparr>si_handler := h, si_stage := Started\<rparr>)"
      by (intro talksI) (use talksD [OF s(1)] s out empty h0 in auto)
    then show ?thesis unfolding None option.case by (rule talks_same) (auto simp: mark_ready_def)
  next
    case (Some e')
    from handler_start_fails [OF start [unfolded Some]] out have "handler_out h = []" by simp
    then show ?thesis unfolding Some option.case
      by (intro talksI) (use talksD [OF s(1)] s out empty in auto)
  qed
qed

text \<open>All sessions of an inlet talk in order, and each is the tunnel's and its own.\<close>

definition all_talk :: "inlet \<Rightarrow> bool" where
  "all_talk l \<longleftrightarrow> (\<forall>s \<in> set (in_store l). talks s \<and> cd_tunnel_id (si_data s) = in_tunnel_id l \<and>
     cd_session_id (si_data s) = si_id s)"

lemma all_talkD:
  "all_talk l \<Longrightarrow> a < length (in_store l) \<Longrightarrow>
   talks (in_store l ! a) \<and> cd_tunnel_id (si_data (in_store l ! a)) = in_tunnel_id l \<and>
   cd_session_id (si_data (in_store l ! a)) = si_id (in_store l ! a)"
  by (simp add: all_talk_def)

lemma all_talk_upd:
  assumes "all_talk l" "a < length (in_store l) \<Longrightarrow> talks (f (in_store l ! a)) \<and> si_data (f (in_store l ! a)) = si_data (in_store l ! a)
    \<and> si_id (f (in_store l ! a)) = si_id (in_store l ! a)"
  shows "all_talk (upd_session a f l)"
  using assms all_talkD [OF assms(1), of a]
  by (auto simp: all_talk_def upd_session_def dest!: subsetD [OF set_update_subset_insert])

lemma all_talk_maps:
  "all_talk (l\<lparr>in_sessions := x\<rparr>) = all_talk l" "all_talk (l\<lparr>in_udp_peers := y\<rparr>) = all_talk l"
  "all_talk (l\<lparr>in_slots := n\<rparr>) = all_talk l" "all_talk (l\<lparr>in_accepted := m\<rparr>) = all_talk l"
  "all_talk (l\<lparr>in_stopped := b\<rparr>) = all_talk l" "all_talk (l\<lparr>in_closers := c\<rparr>) = all_talk l"
  "all_talk (l\<lparr>in_closed := d\<rparr>) = all_talk l"
  by (simp_all add: all_talk_def)

lemma all_talk_begin: "all_talk l \<Longrightarrow> all_talk (begin_shutdown a l)"
  unfolding begin_shutdown_def by (rule all_talk_upd) (auto dest: all_talkD intro: talks_begin)

lemma all_talk_close: "all_talk l \<Longrightarrow> all_talk (inlet_close_session i l)"
  by (auto simp: inlet_close_session_def remove_session_def Let_def all_talk_maps split: option.split intro: all_talk_begin)

lemma all_talk_finish: "all_talk l \<Longrightarrow> all_talk (finish_shutdown env ans a l)"
  by (auto simp: finish_shutdown_def release_session_slot_def all_talk_maps dest: all_talkD
      intro!: all_talk_upd talks_stop)

lemma all_talk_stop: "all_talk l \<Longrightarrow> all_talk (stop_inlet as l)"
proof -
  have "all_talk l \<Longrightarrow> all_talk (fold begin_shutdown as l)" for l
    by (induction as arbitrary: l) (auto intro: all_talk_begin)
  then show "all_talk l \<Longrightarrow> all_talk (stop_inlet as l)" by (simp add: stop_inlet_def all_talk_maps)
qed

lemma all_talk_install:
  "all_talk l \<Longrightarrow> s = new_inlet_session i peer k now l \<Longrightarrow> all_talk (l\<lparr>in_store := in_store l @ [s]\<rparr>)"
  using talks_new [of i peer k now l] by (auto simp: all_talk_def new_inlet_session_def session_data_def)

lemma new_session_cong:
  "new_inlet_session i peer k now (l\<lparr>in_slots := n\<rparr>) = new_inlet_session i peer k now l"
  by (simp add: new_inlet_session_def session_data_def)

lemma all_talk_run_session: "all_talk l \<Longrightarrow> all_talk (snd (run_session i peer k reserved now l))"
proof (cases "\<exists>a. fst (run_session i peer k reserved now l) = Inr a")
  case True
  assume l: "all_talk l"
  from True obtain n where "all_talk (snd (run_session i peer k reserved now l)) =
      all_talk (l\<lparr>in_store := in_store l @ [new_inlet_session i peer k now l]\<rparr>)"
    by (auto simp: run_session_def reserve_session_slot_def all_talk_def Let_def new_session_cong split: if_splits)
  with all_talk_install [OF l refl] show ?thesis by simp
next
  case False
  assume "all_talk l"
  with False show ?thesis
    by (auto simp: run_session_def reserve_session_slot_def release_session_slot_def all_talk_maps Let_def split: if_splits)
qed

lemma all_talk_start:
  assumes l: "all_talk l" and a: "a < length (in_store l)" "si_stage (in_store l ! a) = Installed"
    and start: "start_session env ans a l = Some l'"
  shows "all_talk l'"
proof -
  note t = all_talkD [OF l a(1)]
  show ?thesis
  proof (cases "si_phase (in_store l ! a) = Open_Session")
    case False
    have "all_talk (upd_session a (\<lambda>s. s\<lparr>si_stage := Start_Failed\<rparr>) l)"
      by (rule all_talk_upd [OF l]) (use t a in \<open>auto intro!: talks_same [of "in_store l ! a"]\<close>)
    with False start show ?thesis by (auto simp: start_session_def Let_def intro: all_talk_close)
  next
    case True
    with start obtain e h where h: "handler_start env (si_data (in_store l ! a)) ans (si_handler (in_store l ! a)) = Some (e, h)"
      by (auto simp: start_session_def Let_def split: option.splits)
    note ok = talks_start [OF conjunct1 [OF t] a(2) True h]
    show ?thesis
    proof (cases e)
      case None
      have "all_talk (upd_session a (\<lambda>s. mark_ready (s\<lparr>si_handler := h, si_stage := Started\<rparr>)) l)"
        by (rule all_talk_upd [OF l]) (use ok None in \<open>auto simp: mark_ready_def\<close>)
      with True start h None show ?thesis by (simp add: start_session_def Let_def)
    next
      case (Some e')
      have "all_talk (upd_session a (\<lambda>s. s\<lparr>si_handler := h, si_stage := Start_Failed\<rparr>) l)"
        by (rule all_talk_upd [OF l]) (use ok Some in auto)
      with True start h Some show ?thesis by (auto simp: start_session_def Let_def intro: all_talk_close)
    qed
  qed
qed

lemma talks_input:
  assumes "talks s" "si_stage s = Started" "handler_input env (si_data s) x (si_handler s) = Some (e, h)"
    and "si_handler s' = h" "si_data s' = si_data s" "si_stage s' = si_stage s" "si_phase s' = si_phase s"
      "si_input s' = si_input s"
  shows "talks s'"
proof -
  from hd.input_speaks [OF talksD(2) [OF assms(1,2)] assms(3)]
  show ?thesis by (intro talks_speak [OF assms(1,2), of h]) (use assms talksD(5) [OF assms(1)] in auto)
qed

lemma all_talk_peer_data:
  assumes l: "all_talk l" and a: "a < length (in_store l)" "si_stage (in_store l ! a) = Started"
    and step: "peer_data_step env ans now payload a l = Some l'"
  shows "all_talk l'"
proof -
  note t = all_talkD [OF l a(1)]
  from step obtain e s where h: "handle_peer_data env ans now payload (in_store l ! a) = Some (e, s)"
    and l': "l' = (if e \<noteq> None then inlet_close_session (si_id s) (upd_session a (\<lambda>_. s) l) else upd_session a (\<lambda>_. s) l)"
    unfolding peer_data_step_def Let_def by (clarsimp split: option.splits prod.splits)
  from h obtain e1 h1 where "handler_input env (si_data (in_store l ! a)) (ans, Peer_Bytes payload) (si_handler (in_store l ! a)) = Some (e1, h1)"
    and s: "si_handler s = h1" "si_data s = si_data (in_store l ! a)" "si_stage s = si_stage (in_store l ! a)"
      "si_phase s = si_phase (in_store l ! a)" "si_input s = si_input (in_store l ! a)" "si_id s = si_id (in_store l ! a)"
    by (auto simp: handle_peer_data_def Let_def mark_ready_def split: option.splits if_splits)
  then have "talks s" using t a by (blast intro: talks_input)
  then have "all_talk (upd_session a (\<lambda>_. s) l)" by (intro all_talk_upd [OF l]) (use s in auto)
  with l' show ?thesis by (auto intro: all_talk_close)
qed

lemma all_talk_udp_data:
  assumes l: "all_talk l" and a: "a < length (in_store l)" "si_stage (in_store l ! a) = Started"
    and step: "udp_session_step env ans now a l = Some l'"
  shows "all_talk l'"
proof -
  from step obtain payload q where q: "peer_data_step env ans now payload a (upd_session a (\<lambda>s. s\<lparr>si_peer := Some q\<rparr>) l) = Some l'"
    by (auto simp: udp_session_step_def split: option.splits bool.splits)
  have "all_talk (upd_session a (\<lambda>s. s\<lparr>si_peer := Some q\<rparr>) l)"
    by (rule all_talk_upd [OF l]) (use all_talkD [OF l a(1)] a(2) in \<open>auto intro!: talks_same [of "in_store l ! a"]\<close>)
  from all_talk_peer_data [OF this _ _ q] a show ?thesis by (simp add: upd_nth)
qed

lemma all_talk_packet:
  assumes l: "all_talk l" and a: "a < length (in_store l)" "si_stage (in_store l ! a) = Started"
    and step: "socks5_packet_step env ans addr packet a l = Some l'"
  shows "all_talk l'"
proof -
  from step obtain e h where h: "handler_input env (si_data (in_store l ! a)) (ans, Udp_Packet addr packet) (si_handler (in_store l ! a)) = Some (e, h)"
    and l': "l' = upd_session a (\<lambda>s. s\<lparr>si_handler := h\<rparr>) l"
    by (auto simp: socks5_packet_step_def)
  have "talks ((in_store l ! a)\<lparr>si_handler := h\<rparr>)"
    by (rule talks_input [OF _ a(2) h]) (use all_talkD [OF l a(1)] in auto)
  then show ?thesis unfolding l' by (intro all_talk_upd [OF l]) auto
qed

lemma all_talk_udp_push: "all_talk l \<Longrightarrow> all_talk (udp_push now payload created a l)"
proof -
  assume l: "all_talk l"
  have "all_talk (upd_session a (\<lambda>s. s\<lparr>si_last_seen := now, si_peer := q\<rparr>) l)" for q
  proof (rule all_talk_upd [OF l])
    assume "a < length (in_store l)"
    from all_talkD [OF l this] talksD(3) [of "in_store l ! a"]
    show "talks ((in_store l ! a)\<lparr>si_last_seen := now, si_peer := q\<rparr>) \<and>
      si_data ((in_store l ! a)\<lparr>si_last_seen := now, si_peer := q\<rparr>) = si_data (in_store l ! a) \<and>
      si_id ((in_store l ! a)\<lparr>si_last_seen := now, si_peer := q\<rparr>) = si_id (in_store l ! a)"
      by (auto intro!: talks_same [of "in_store l ! a"])
  qed
  with l show ?thesis by (auto simp: udp_push_def Let_def split: option.split prod.split intro: all_talk_close)
qed

lemma all_talk_push:
  assumes l: "all_talk l" and a: "a < length (in_store l)" and m: "own_message (si_data (in_store l ! a)) m"
      "asked (handler_out (si_handler (in_store l ! a)))"
    and push: "ring_push m (si_input (in_store l ! a)) = (ok, q)"
  shows "all_talk (upd_session a (\<lambda>s. s\<lparr>si_input := q\<rparr>) l)"
proof (rule all_talk_upd [OF l])
  note t = all_talkD [OF l a]
  note q = queue_push [OF talksD(5) [OF conjunct1 [OF t]] push]
  have "talks ((in_store l ! a)\<lparr>si_input := q\<rparr>)"
    by (rule talksI) (use m q talksD [OF conjunct1 [OF t]] in \<open>auto simp: goodbye_def\<close>)
  then show "talks ((in_store l ! a)\<lparr>si_input := q\<rparr>) \<and> si_data ((in_store l ! a)\<lparr>si_input := q\<rparr>) = si_data (in_store l ! a)
      \<and> si_id ((in_store l ! a)\<lparr>si_input := q\<rparr>) = si_id (in_store l ! a)" by simp
qed

lemma all_talk_input:
  assumes l: "all_talk l" and inv: "inlet_inv l" and polite: "polite_message m l"
  shows "all_talk (inlet_input m l)"
proof (cases "in_sessions l (pm_session_id m)")
  case (Some a)
  from view_invD(1,2) [of "view_of l" "pm_session_id m" a] inv Some
  have a: "a < length (in_store l)" "si_id (in_store l ! a) = pm_session_id m"
    by (auto simp: inlet_inv_def view_of_def face_def)
  note t = all_talkD [OF l a(1)]
  obtain ok q where push: "ring_push m (si_input (in_store l ! a)) = (ok, q)"
    by (cases "ring_push m (si_input (in_store l ! a))")
  have pushed: "all_talk (upd_session a (\<lambda>s. s\<lparr>si_input := q\<rparr>) l)"
    by (rule all_talk_push [OF l a(1) _ _ push])
      (use polite Some t a(2) in \<open>auto simp: polite_message_def own_message_def\<close>)
  have flow: "all_talk (upd_session a (\<lambda>s. s\<lparr>si_handler := update_handler_common f (si_handler s)\<rparr>) l)" for f
  proof (rule all_talk_upd [OF l])
    have "\<exists>udp mode c. update_handler_common f (si_handler (in_store l ! a)) = new_handler udp mode c"
      if "si_stage (in_store l ! a) = Installed" "si_phase (in_store l ! a) \<noteq> Closed_Session"
      using talksD(3) [OF conjunct1 [OF t] that] update_common_new [of f] by metis
    with t show "talks ((in_store l ! a)\<lparr>si_handler := update_handler_common f (si_handler (in_store l ! a))\<rparr>) \<and>
        si_data ((in_store l ! a)\<lparr>si_handler := update_handler_common f (si_handler (in_store l ! a))\<rparr>) = si_data (in_store l ! a) \<and>
        si_id ((in_store l ! a)\<lparr>si_handler := update_handler_common f (si_handler (in_store l ! a))\<rparr>) = si_id (in_store l ! a)"
      by (auto intro!: talks_same [of "in_store l ! a"])
  qed
  from Some push pushed flow all_talk_close [OF pushed] l show ?thesis
    by (cases m) (simp_all add: inlet_input_def Let_def)
qed (use l in \<open>simp add: inlet_input_def\<close>)

lemma all_talk_proxy_loop:
  assumes l: "all_talk l" and a: "a < length (in_store l)" and step: "proxy_loop_step env ans now a l = Some l'"
  shows "all_talk l'"
proof -
  note t = all_talkD [OF l a]
  let ?s = "in_store l ! a"
  from step obtain m q c e s where pop: "ring_pop (si_input ?s) = Some ((Some m, True), q)"
    and h: "handle_proxy_message env ans now m (?s\<lparr>si_input := q\<rparr>) = Some ((c, e), s)"
    and l': "l' = (if e \<noteq> None \<or> c then inlet_close_session (si_id s) (upd_session a (\<lambda>_. s) l) else upd_session a (\<lambda>_. s) l)"
    unfolding proxy_loop_step_def Let_def by (clarsimp split: option.splits bool.splits prod.splits)
  from h obtain e1 h1 where r: "handler_reply env (si_data ?s) ans m (si_handler ?s) = Some (e1, h1)"
    and s: "si_handler s = h1" "si_data s = si_data ?s" "si_stage s = si_stage ?s" "si_phase s = si_phase ?s"
      "si_input s = q" "si_id s = si_id ?s"
    by (auto simp: handle_proxy_message_def Let_def mark_ready_def split: option.splits if_splits)
  note q = queue_pop [OF talksD(5) [OF conjunct1 [OF t]] pop]
  from q talksD(6) [OF conjunct1 [OF t], of m] have m: "own_message (si_data ?s) m" "asked (handler_out (si_handler ?s))"
    by auto
  from talksD(4) [OF conjunct1 [OF t] m(2)] have st: "si_stage ?s = Started" .
  from hd.reply_speaks [OF talksD(2) [OF conjunct1 [OF t] st] m(2,1) r]
  have "talks s" by (intro talks_speak [OF conjunct1 [OF t] st, of h1]) (use q s in auto)
  then have "all_talk (upd_session a (\<lambda>_. s) l)" by (intro all_talk_upd [OF l]) (use s in auto)
  with l' show ?thesis by (auto intro: all_talk_close)
qed

lemma all_talk_listen:
  assumes "all_talk l" "start_inlet tcp udp as l = (e, l')"
  shows "all_talk l'"
proof -
  have listen: "all_talk l2" if "start_listener k l1 = (e, l2)" "all_talk l1" for k l1 e l2
    using that by (auto simp: start_listener_def register_closer_def all_talk_maps split: option.splits if_splits)
  show ?thesis using assms
    by (auto simp: start_inlet_def split: if_splits prod.splits option.splits dest!: listen intro!: all_talk_stop)
qed

lemma all_talk_accept: "all_talk l \<Longrightarrow> all_talk (snd (accept_tcp outcome delay l))"
  by (cases rule: reserve_cases [of l])
     (auto simp: accept_tcp_def all_talk_maps release_session_slot_def split: accept_outcome.split inlet_error.split)

lemma inlet_run_talks: "inlet_run env polite l \<Longrightarrow> polite \<Longrightarrow> all_talk l"
proof (induction rule: inlet_run.induct)
  case (new t mode addr common username password meth crypto)
  then show ?case by (simp add: all_talk_def new_inlet_def)
next
  case (accept l outcome delay r l') then show ?case using all_talk_accept [of l outcome delay] by simp
next
  case (tcp l i peer now r l')
  then show ?case using all_talk_run_session [of "l\<lparr>in_accepted := in_accepted l - 1\<rparr>" i peer "''''" True now]
    by (simp add: run_tcp_conn_def all_talk_maps)
next
  case (udp l peer i now r l')
  then show ?case using all_talk_run_session [of l i peer peer False now]
    by (auto simp: ensure_udp_session_def split: option.splits)
next
  case (message l m) then show ?case using inlet_run_inv all_talk_input by blast
qed (auto intro: all_talk_listen all_talk_start all_talk_udp_push all_talk_peer_data all_talk_udp_data all_talk_packet
    all_talk_proxy_loop all_talk_close all_talk_finish all_talk_stop
    simp: udp_idle_watcher_def wait_ready_timeout_def Let_def)


section \<open>Examples\<close>

definition ex_inlet_env :: inlet_env where
  "ex_inlet_env =
     \<lparr>ie_http = \<lparr>he_read_request = (\<lambda>_. None), he_parse_url = (\<lambda>_. None)\<rparr>, ie_ss = plain_ss, ie_tcp_ip = (\<lambda>_. None)\<rparr>"

definition ex_socks5_answers :: socks5_answers where
  "ex_socks5_answers =
     \<lparr>an_write = True, an_close = True, an_resolve = (\<lambda>_. None), an_random = (\<lambda>_. []), so_udp_port = None\<rparr>"

definition ex_inlet :: "tunnel_mode \<Rightarrow> inlet" where
  "ex_inlet mode = new_inlet 3 mode ''h:80'' plain_common '''' '''' '''' example_crypto"

text \<open>A UDP session that is installed, started, closed and done.\<close>

definition ex_udp_1 :: inlet where "ex_udp_1 = snd (ensure_udp_session 7 ''p'' 1 (ex_inlet mode_udp))"
definition ex_udp_2 :: inlet where "ex_udp_2 = the (start_session ex_inlet_env ex_socks5_answers 0 ex_udp_1)"
definition ex_udp_3 :: inlet where "ex_udp_3 = inlet_close_session 7 ex_udp_2"
definition ex_udp_4 :: inlet where "ex_udp_4 = finish_shutdown ex_inlet_env ex_socks5_answers 0 ex_udp_3"

lemma ex_udp_run_1: "inlet_run ex_inlet_env polite ex_udp_1"
  by (rule inlet_run.udp [of _ _ "ex_inlet mode_udp" "''p''" 7 1 "fst (ensure_udp_session 7 ''p'' 1 (ex_inlet mode_udp))"])
     (simp_all add: ex_udp_1_def ex_inlet_def inlet_run.new)

lemma ex_udp_run: "inlet_run ex_inlet_env polite ex_udp_4"
proof -
  have "0 < length (in_store ex_udp_1) \<and> si_stage (in_store ex_udp_1 ! 0) = Installed" by code_simp
  moreover have "case start_session ex_inlet_env ex_socks5_answers 0 ex_udp_1 of None \<Rightarrow> False | Some _ \<Rightarrow> True" by code_simp
  then have "start_session ex_inlet_env ex_socks5_answers 0 ex_udp_1 = Some ex_udp_2"
    by (auto simp: ex_udp_2_def split: option.splits)
  ultimately have "inlet_run ex_inlet_env polite ex_udp_2" using ex_udp_run_1 by (blast intro: inlet_run.start)
  then show ?thesis unfolding ex_udp_4_def ex_udp_3_def by (intro inlet_run.finish inlet_run.read_error)
qed

theorem inlet_sessions_accounted_witness:
  "in_slots ex_udp_1 = 1 \<and> in_udp_peers ex_udp_1 ''p'' = Some 7"
proof -
  note acc = inlet_sessions_accounted [OF ex_udp_run_1]
  have "in_accepted ex_udp_1 = 0 \<and> length (filter (\<lambda>s. si_phase s \<noteq> Closed_Session) (in_store ex_udp_1)) = 1" by code_simp
  with acc have "in_slots ex_udp_1 = 1" by simp
  moreover have "in_sessions ex_udp_1 7 = Some 0" "si_peer_key (in_store ex_udp_1 ! 0) = ''p''" by code_simp+
  with acc have "in_udp_peers ex_udp_1 ''p'' = Some 7" by blast
  ultimately show ?thesis by simp
qed


section \<open>Data after the end\<close>

text \<open>\<open>handlePeerData\<close> does not look at \<open>closed\<close>: bytes that were read before the session was closed are handled after
  \<open>OnStop\<close>.  A SOCKS5, HTTP or Shadowsocks session may then ask for its connection after it has told the outlet
  that it is gone, and nobody disconnects what the outlet opens for it.\<close>

definition ex_late_1 :: inlet where "ex_late_1 = snd (accept_tcp (Accepted True) 0 (ex_inlet mode_socks5))"
definition ex_late_2 :: inlet where "ex_late_2 = snd (run_tcp_conn 7 ''q'' 1 ex_late_1)"
definition ex_late_3 :: inlet where "ex_late_3 = the (start_session ex_inlet_env ex_socks5_answers 0 ex_late_2)"
definition ex_late_4 :: inlet where
  "ex_late_4 = finish_shutdown ex_inlet_env ex_socks5_answers 0 (inlet_close_session 7 ex_late_3)"
definition ex_late_bytes :: "byte list" where
  "ex_late_bytes = [5, 1, 0, 5, 1, 0, 3, 1, 97, 0, 80]"
definition ex_late_5 :: inlet where
  "ex_late_5 = the (peer_data_step ex_inlet_env ex_socks5_answers 2 ex_late_bytes 0 ex_late_4)"

lemma late_request:
  assumes d: "\<not> wants_auth d" and c: "s5_status c = S_Init" "s5_buffer c = []"
  shows "\<exists>c' m. on_peer_data d ex_late_bytes c = Some (None, c') \<and>
    s5_out c' = s5_out c @ [Write_Peer [5, 0], Send_Proxy m] \<and> is_connect m"
proof -
  let ?t = "\<lparr>ta_host = ''a'', ta_port = 80, ta_ip = []\<rparr>"
  let ?c0 = "c\<lparr>s5_buffer := greeting [0] @ [5, 1, 0] @ 3 # [1, 97, 0, 80] @ []\<rparr>"
  let ?c1 = "(emit (Write_Peer [5, 0]) ?c0)\<lparr>s5_buffer := [5, 1, 0] @ 3 # [1, 97, 0, 80] @ [], s5_status := S_Connect\<rparr>"
  let ?c2 = "emit (Send_Proxy (connect_message d ?c1 True ?t))
     (?c1\<lparr>s5_buffer := [], s5_target := Some ?t, s5_connect_is_tcp := True, s5_status := S_Connecting\<rparr>)"
  have rd: "read_target_addr ([1, 97, 0, 80] @ []) 3 = Inr (Some (?t, length [1, 97, 0, 80 :: byte]))"
    by code_simp
  have "on_init d ?c0 = ?c1"
    using on_init_greeting [of ?c0 "[0]" "[5, 1, 0] @ 3 # [1, 97, 0, 80] @ []" d] c d by (simp add: socks5_auth_none_def)
  moreover have "on_connect d ?c1 = (None, ?c2)"
    by (rule on_connect_request [OF _ _ rd]) (simp_all add: emit_def)
  ultimately have "process_buffered_handshake d ?c0 = (None, ?c2)"
    using c by (simp add: process_buffered_handshake.simps handshake_round_def emit_def)
  moreover have "on_peer_data d ex_late_bytes c = Some (process_buffered_handshake d ?c0)"
    using c by (simp add: on_peer_data_def ex_late_bytes_def socks5_max_buffered_def greeting_def socks5_version_def)
  ultimately show ?thesis by (auto simp: connect_message_def)
qed

lemma ex_late_step:
  "\<exists>l. peer_data_step ex_inlet_env ex_socks5_answers 2 ex_late_bytes 0 ex_late_4 = Some l \<and>
     0 < length (in_store l) \<and> si_phase (in_store l ! 0) = Closed_Session \<and>
     map is_connect (sent (handler_out (si_handler (in_store l ! 0)))) = [False, True]"
proof -
  let ?s = "in_store ex_late_4 ! 0"
  have "case si_handler ?s of Socks5_Handler c \<Rightarrow> s5_status c = S_Init \<and> s5_buffer c = [] \<and>
      map is_connect (sent (s5_out c)) = [False] | _ \<Rightarrow> False" by code_simp
  then obtain c where c: "si_handler ?s = Socks5_Handler c" "s5_status c = S_Init" "s5_buffer c = []"
    "map is_connect (sent (s5_out c)) = [False]" by (auto split: handler.splits)
  have st: "0 < length (in_store ex_late_4)" "si_phase ?s = Closed_Session" by code_simp+
  let ?d = "socks5_data_of (ie_tcp_ip ex_inlet_env) (si_data ?s) ex_socks5_answers"
  have "\<not> wants_auth ?d" by code_simp
  from late_request [OF this c(2,3)] obtain c' m where
    "on_peer_data ?d ex_late_bytes c = Some (None, c')"
    "s5_out c' = s5_out c @ [Write_Peer [5, 0], Send_Proxy m]" "is_connect m" by blast
  then show ?thesis using c st
    by (auto simp: peer_data_step_def handle_peer_data_def lift_result_def s5_on_input_def mark_ready_def
        s5_ready_for_read_def upd_session_def)
qed

lemma ex_late_run: "inlet_run ex_inlet_env polite ex_late_5"
proof -
  have 1: "inlet_run ex_inlet_env polite ex_late_1"
    by (rule inlet_run.accept [of _ _ "ex_inlet mode_socks5" "Accepted True" 0 "fst (accept_tcp (Accepted True) 0 (ex_inlet mode_socks5))"])
       (simp_all add: ex_late_1_def ex_inlet_def inlet_run.new)
  have "0 < in_accepted ex_late_1" by code_simp
  then have 2: "inlet_run ex_inlet_env polite ex_late_2"
    by (intro inlet_run.tcp [OF 1, of 7 "''q''" 1 "fst (run_tcp_conn 7 ''q'' 1 ex_late_1)"]) (simp_all add: ex_late_2_def)
  have "0 < length (in_store ex_late_2) \<and> si_stage (in_store ex_late_2 ! 0) = Installed" by code_simp
  moreover have "case start_session ex_inlet_env ex_socks5_answers 0 ex_late_2 of None \<Rightarrow> False | Some _ \<Rightarrow> True" by code_simp
  then have "start_session ex_inlet_env ex_socks5_answers 0 ex_late_2 = Some ex_late_3"
    by (auto simp: ex_late_3_def split: option.splits)
  ultimately have "inlet_run ex_inlet_env polite ex_late_3" using 2 by (blast intro: inlet_run.start)
  then have 4: "inlet_run ex_inlet_env polite ex_late_4"
    unfolding ex_late_4_def by (intro inlet_run.finish inlet_run.read_error)
  have st: "0 < length (in_store ex_late_4)" "si_stage (in_store ex_late_4 ! 0) = Started" "si_ready (in_store ex_late_4 ! 0)"
    "Option.is_none (si_peer (in_store ex_late_4 ! 0))" by code_simp+
  from ex_late_step have "peer_data_step ex_inlet_env ex_socks5_answers 2 ex_late_bytes 0 ex_late_4 = Some ex_late_5"
    by (auto simp: ex_late_5_def)
  with st show ?thesis by (intro inlet_run.tcp_data [OF 4]) (auto simp: Option.is_none_def)
qed

lemma connect_after_goodbye:
  "\<exists>env l s. inlet_run env True l \<and> s \<in> set (in_store l) \<and> si_phase s = Closed_Session \<and>
     map is_connect (sent (handler_out (si_handler s))) = [False, True]"
proof -
  from ex_late_step obtain l where l: "peer_data_step ex_inlet_env ex_socks5_answers 2 ex_late_bytes 0 ex_late_4 = Some l"
    "0 < length (in_store l)" "si_phase (in_store l ! 0) = Closed_Session"
    "map is_connect (sent (handler_out (si_handler (in_store l ! 0)))) = [False, True]" by (elim exE conjE)
  have "ex_late_5 = l" unfolding ex_late_5_def l(1) option.sel ..
  then have "inlet_run ex_inlet_env True l" using ex_late_run [of True] by (rule subst)
  then have "inlet_run ex_inlet_env True l \<and> in_store l ! 0 \<in> set (in_store l) \<and> si_phase (in_store l ! 0) = Closed_Session \<and>
      map is_connect (sent (handler_out (si_handler (in_store l ! 0)))) = [False, True]"
    using nth_mem [OF l(2)] l(3,4) by (intro conjI)
  then show ?thesis by (intro exI)
qed

section \<open>The limiter and the delays\<close>

text \<open>Two log lines of one peer are five seconds apart; the delay of a failing accept stays between 5 ms and 1 s.\<close>

lemma auth_failure_logs_apart:
  assumes "m peer = Some t" "t \<le> now" "fst (should_log_auth_failure now peer m)"
  shows "t + auth_failure_log_interval \<le> now"
  using assms by (auto simp: should_log_auth_failure_def Let_def auth_failure_log_interval_def split: if_splits)

lemma accept_delay_bounds:
  "current = 0 \<or> initial_accept_delay \<le> current \<Longrightarrow>
   initial_accept_delay \<le> next_temporary_accept_delay current \<and> next_temporary_accept_delay current \<le> max_accept_delay"
  by (auto simp: next_temporary_accept_delay_def initial_accept_delay_def max_accept_delay_def Let_def)

end
