(* ===== verification/Outlet.thy ===== *)
theory Outlet
  imports Session_Common Queues Proxy_Context
begin

text \<open>
  \<open>internal/proxy/outlet.go\<close>: the outlet of a tunnel, which dials the targets and carries their data.

  The state is what the goroutines share: the maps of sessions and of connection attempts, and, behind
  them, the running attempts with the place they have reached, the connections with the common part of
  their session (an attempt, a session and a reader hold the same object, so it is kept under the
  connection's number), and the readers.  Messages given to \<open>output\<close> and writes to targets are appended
  to lists.

  A step is what a goroutine does between two points where another can see the difference: a critical
  section with the calls that follow it.  How a dial, a read or a write turns out is an argument of the
  step.  \<open>outlet_run\<close> interleaves the steps in any order.
\<close>

section \<open>State\<close>

datatype attempt_phase =
    Starting
  | Dialed nat
  | Failing string
  | Answering proxy_message "nat option"
  | Finishing

record connect_attempt =
  ca_message :: proxy_message
  ca_phase :: attempt_phase
  ca_cancelled :: bool

record out_conn =
  cn_session :: session_id
  cn_open :: bool
  cn_tcp :: bool
  cn_common :: session_common_info

record out_session =
  os_conn :: nat
  os_queue :: "proxy_message ring"

record out_reader =
  or_tunnel :: tunnel_id
  or_session :: session_id
  or_remote_addr :: bool

record outlet =
  ol_sessions :: "session_id \<rightharpoonup> out_session"
  ol_connecting :: "session_id \<rightharpoonup> nat"
  ol_stopped :: bool
  ol_attempts :: "nat \<rightharpoonup> connect_attempt"
  ol_conns :: "nat \<rightharpoonup> out_conn"
  ol_readers :: "nat \<rightharpoonup> out_reader"
  ol_output :: "proxy_message list"
  ol_written :: "(nat \<times> byte list \<times> udp_addr option) list"

definition new_outlet :: outlet where
  "new_outlet = \<lparr>ol_sessions = Map.empty, ol_connecting = Map.empty, ol_stopped = False, ol_attempts = Map.empty,
     ol_conns = Map.empty, ol_readers = Map.empty, ol_output = [], ol_written = []\<rparr>"

definition ol_send :: "proxy_message \<Rightarrow> outlet \<Rightarrow> outlet" where
  "ol_send m ol = ol\<lparr>ol_output := ol_output ol @ [m]\<rparr>"

text \<open>Changes of one object.\<close>

definition set_phase :: "nat \<Rightarrow> attempt_phase \<Rightarrow> outlet \<Rightarrow> outlet" where
  "set_phase a p ol =
     ol\<lparr>ol_attempts := (ol_attempts ol)(a := map_option (\<lambda>x. x\<lparr>ca_phase := p\<rparr>) (ol_attempts ol a))\<rparr>"

definition cancel_attempt :: "nat \<Rightarrow> outlet \<Rightarrow> outlet" where
  "cancel_attempt a ol =
     ol\<lparr>ol_attempts := (ol_attempts ol)(a := map_option (\<lambda>x. x\<lparr>ca_cancelled := True\<rparr>) (ol_attempts ol a))\<rparr>"

definition close_conn :: "nat \<Rightarrow> outlet \<Rightarrow> outlet" where
  "close_conn k ol =
     ol\<lparr>ol_conns := (ol_conns ol)(k := map_option (\<lambda>x. x\<lparr>cn_open := False\<rparr>) (ol_conns ol k))\<rparr>"

definition update_common :: "nat \<Rightarrow> (session_common_info \<Rightarrow> session_common_info) \<Rightarrow> outlet \<Rightarrow> outlet" where
  "update_common k f ol =
     ol\<lparr>ol_conns := (ol_conns ol)(k := map_option (\<lambda>x. x\<lparr>cn_common := f (cn_common x)\<rparr>) (ol_conns ol k))\<rparr>"

section \<open>Sessions\<close>

definition detach_out_session :: "session_id \<Rightarrow> outlet \<Rightarrow> nat option \<times> outlet" where
  "detach_out_session i ol =
     (case ol_sessions ol i of
        None \<Rightarrow> (None, ol)
      | Some s \<Rightarrow>
          (Some (os_conn s), update_common (os_conn s) sc_close (ol\<lparr>ol_sessions := (ol_sessions ol)(i := None)\<rparr>)))"

definition terminate_session :: "tunnel_id \<Rightarrow> session_id \<Rightarrow> outlet \<Rightarrow> outlet" where
  "terminate_session t i ol =
     (case detach_out_session i ol of
        (None, ol) \<Rightarrow> ol
      | (Some k, ol) \<Rightarrow> ol_send (O2IDisconnect t i) (close_conn k ol))"

definition push_session :: "tunnel_id \<Rightarrow> session_id \<Rightarrow> proxy_message \<Rightarrow> outlet \<Rightarrow> outlet" where
  "push_session t i m ol =
     (case ol_sessions ol i of
        None \<Rightarrow> ol
      | Some s \<Rightarrow>
          (case ring_push m (os_queue s) of
             (True, q) \<Rightarrow> ol\<lparr>ol_sessions := (ol_sessions ol)(i \<mapsto> s\<lparr>os_queue := q\<rparr>)\<rparr>
           | (False, q) \<Rightarrow> terminate_session t i ol))"

section \<open>Connecting\<close>

text \<open>\<open>a\<close> is the new attempt's number.\<close>

definition start_connect :: "nat \<Rightarrow> tunnel_id \<Rightarrow> session_id \<Rightarrow> proxy_message \<Rightarrow> outlet \<Rightarrow> outlet" where
  "start_connect a t i m ol =
     (if ol_stopped ol then ol
      else if ol_sessions ol i \<noteq> None then ol_send (O2IConnect t i False ''repeated connection'') ol
      else if ol_connecting ol i \<noteq> None then ol_send (O2IConnect t i False ''repeated connection'') ol
      else ol\<lparr>ol_connecting := (ol_connecting ol)(i \<mapsto> a),
              ol_attempts := (ol_attempts ol)(a \<mapsto> \<lparr>ca_message = m, ca_phase = Starting, ca_cancelled = False\<rparr>)\<rparr>)"

definition on_disconnect_input :: "tunnel_id \<Rightarrow> session_id \<Rightarrow> outlet \<Rightarrow> outlet" where
  "on_disconnect_input t i ol =
     (let ol' = (case ol_connecting ol i of
                   None \<Rightarrow> ol
                 | Some a \<Rightarrow> cancel_attempt a (ol\<lparr>ol_connecting := (ol_connecting ol)(i := None)\<rparr>))
      in push_session t i (I2ODisconnect t i) ol')"

definition on_recv_result :: "session_id \<Rightarrow> u32 \<Rightarrow> outlet \<Rightarrow> outlet" where
  "on_recv_result i n ol =
     (case ol_sessions ol i of
        None \<Rightarrow> ol
      | Some s \<Rightarrow> update_common (os_conn s) (\<lambda>c. c\<lparr>sc_flow := flow_release (uint n) (sc_flow c)\<rparr>) ol)"

definition outlet_input :: "nat \<Rightarrow> proxy_message \<Rightarrow> outlet \<Rightarrow> outlet" where
  "outlet_input a m ol =
     (case m of
        I2OConnect t i _ _ _ _ _ _ _ \<Rightarrow> start_connect a t i m ol
      | I2OSendData t i _ \<Rightarrow> push_session t i m ol
      | I2OSendToData t i _ _ \<Rightarrow> push_session t i m ol
      | I2ODisconnect t i \<Rightarrow> on_disconnect_input t i ol
      | I2ORecvDataResult t i n \<Rightarrow> on_recv_result i n ol
      | _ \<Rightarrow> ol)"

text \<open>What \<open>onConnect\<close> dials: whether over TCP, and the address (empty: an unconnected socket).\<close>

definition dial_target :: "u8 \<Rightarrow> bool \<Rightarrow> string \<Rightarrow> bool \<times> string" where
  "dial_target typ tcp addr =
     (let mode = (ucast typ :: tunnel_mode);
          remote = uses_remote_udp_addr mode \<and> \<not> tcp
      in (mode \<noteq> mode_udp \<and> \<not> remote, if remote then '''' else addr))"

text \<open>How dialling turns out: an error, a connection that cannot be configured or used (it is closed), or
  a connection, whose number is \<open>k\<close>.  \<open>key_error\<close> is the text of a decoding error.\<close>

datatype dial_outcome =
    Dial_Error string
  | Dial_Unusable string
  | Dial_Open

definition attempt_dial :: "nat \<Rightarrow> nat \<Rightarrow> string \<Rightarrow> dial_outcome \<Rightarrow> outlet \<Rightarrow> outlet" where
  "attempt_dial a k key_error outcome ol =
     (case ol_attempts ol a of
        Some att \<Rightarrow>
          (case (ca_message att, ca_phase att) of
             (I2OConnect t i typ tcp compressed addr meth key client, Starting) \<Rightarrow>
               (case decode_key_from_base64 key of
                  None \<Rightarrow> set_phase a (Failing key_error) ol
                | Some raw \<Rightarrow>
                    let common = new_session_common_info compressed (parse_encryption_method meth) raw;
                        (connect_tcp, target) = dial_target typ tcp addr
                    in (case outcome of
                          Dial_Error reason \<Rightarrow>
                            set_phase a (Failing (if connect_tcp then ''target=tcp://'' @ target @ '', reason='' @ reason
                                                  else reason)) ol
                        | Dial_Unusable reason \<Rightarrow> set_phase a (Failing reason) ol
                        | Dial_Open \<Rightarrow>
                            set_phase a (Dialed k) (ol\<lparr>ol_conns := (ol_conns ol)
                              (k \<mapsto> \<lparr>cn_session = i, cn_open = True, cn_tcp = connect_tcp, cn_common = common\<rparr>)\<rparr>)))
           | _ \<Rightarrow> ol)
      | None \<Rightarrow> ol)"

definition fail_connect :: "nat \<Rightarrow> outlet \<Rightarrow> outlet" where
  "fail_connect a ol =
     (case ol_attempts ol a of
        Some att \<Rightarrow>
          (case ca_phase att of
             Failing reason \<Rightarrow>
               let t = pm_tunnel_id (ca_message att); i = pm_session_id (ca_message att) in
               if ol_connecting ol i = Some a \<and> \<not> ol_stopped ol
               then set_phase a (Answering (O2IConnect t i False reason) None) ol
               else set_phase a Finishing ol
           | _ \<Rightarrow> ol)
      | None \<Rightarrow> ol)"

definition install_connected_session :: "nat \<Rightarrow> outlet \<Rightarrow> outlet" where
  "install_connected_session a ol =
     (case ol_attempts ol a of
        Some att \<Rightarrow>
          (case ca_phase att of
             Dialed k \<Rightarrow>
               let t = pm_tunnel_id (ca_message att); i = pm_session_id (ca_message att) in
               if ol_stopped ol \<or> ol_connecting ol i \<noteq> Some a \<or> ol_sessions ol i \<noteq> None
               then set_phase a Finishing (close_conn k (update_common k sc_close ol))
               else set_phase a (Answering (O2IConnect t i True '''') (Some k))
                 (cancel_attempt a (ol\<lparr>ol_connecting := (ol_connecting ol)(i := None),
                    ol_sessions := (ol_sessions ol)(i \<mapsto>
                      \<lparr>os_conn = k, os_queue = new_proxy_message_queue_with_capacity default_proxy_queue_capacity\<rparr>)\<rparr>))
           | _ \<Rightarrow> ol)
      | None \<Rightarrow> ol)"

text \<open>The answer is output; after a success the reader is started.\<close>

definition reader_for :: "proxy_message \<Rightarrow> out_reader" where
  "reader_for m =
     (case m of
        I2OConnect t i typ tcp compressed addr meth key client \<Rightarrow>
          \<lparr>or_tunnel = t, or_session = i,
           or_remote_addr = (uses_remote_udp_addr (ucast typ) \<and> \<not> fst (dial_target typ tcp addr))\<rparr>
      | _ \<Rightarrow> \<lparr>or_tunnel = 0, or_session = 0, or_remote_addr = False\<rparr>)"

definition answer_connect :: "nat \<Rightarrow> outlet \<Rightarrow> outlet" where
  "answer_connect a ol =
     (case ol_attempts ol a of
        Some att \<Rightarrow>
          (case ca_phase att of
             Answering m reader \<Rightarrow>
               let ol' = set_phase a Finishing (ol_send m ol) in
               (case reader of
                  None \<Rightarrow> ol'
                | Some k \<Rightarrow> ol'\<lparr>ol_readers := (ol_readers ol')(k \<mapsto> reader_for (ca_message att))\<rparr>)
           | _ \<Rightarrow> ol)
      | None \<Rightarrow> ol)"

definition finish_connect_attempt :: "nat \<Rightarrow> outlet \<Rightarrow> outlet" where
  "finish_connect_attempt a ol =
     (case ol_attempts ol a of
        Some att \<Rightarrow>
          if ca_phase att = Finishing then
            let i = pm_session_id (ca_message att) in
            ol\<lparr>ol_connecting := (if ol_connecting ol i = Some a then (ol_connecting ol)(i := None) else ol_connecting ol),
               ol_attempts := (ol_attempts ol)(a := None)\<rparr>
          else ol
      | None \<Rightarrow> ol)"

section \<open>Data\<close>

text \<open>The loop of a session takes one message.  \<open>ok\<close> is whether the write to the target succeeds, \<open>resolve\<close>
  is \<open>net.ResolveUDPAddr\<close>.\<close>

definition on_send_data :: "bool \<Rightarrow> crypto_env \<Rightarrow> tunnel_id \<Rightarrow> session_id \<Rightarrow> byte list \<Rightarrow> outlet \<Rightarrow> bool \<times> outlet" where
  "on_send_data ok ce t i data ol =
     (case ol_sessions ol i of
        None \<Rightarrow> (True, ol)
      | Some s \<Rightarrow>
          (case ol_conns ol (os_conn s) of
             None \<Rightarrow> (True, ol)
           | Some cn \<Rightarrow>
               (case decode_data ce (cn_common cn) data of
                  Inl e \<Rightarrow> (False, ol)
                | Inr decoded \<Rightarrow>
                    if ok
                    then (True, ol_send (O2ISendDataResult t i (of_nat (length data)))
                            (ol\<lparr>ol_written := ol_written ol @ [(os_conn s, decoded, None)]\<rparr>))
                    else (False, ol))))"

definition on_send_to_data ::
  "bool \<Rightarrow> (string \<Rightarrow> udp_addr option) \<Rightarrow> crypto_env \<Rightarrow> tunnel_id \<Rightarrow> session_id \<Rightarrow> byte list \<Rightarrow> string \<Rightarrow> outlet
    \<Rightarrow> bool \<times> outlet" where
  "on_send_to_data ok resolve ce t i data addr ol =
     (case ol_sessions ol i of
        None \<Rightarrow> (True, ol)
      | Some s \<Rightarrow>
          (case ol_conns ol (os_conn s) of
             None \<Rightarrow> (True, ol)
           | Some cn \<Rightarrow>
               (case decode_data ce (cn_common cn) data of
                  Inl e \<Rightarrow> (False, ol)
                | Inr decoded \<Rightarrow>
                    (case resolve addr of
                       None \<Rightarrow> (False, ol)
                     | Some target \<Rightarrow>
                         if ok
                         then (True, ol_send (O2ISendDataResult t i (of_nat (length data)))
                                 (ol\<lparr>ol_written := ol_written ol @ [(os_conn s, decoded, Some target)]\<rparr>))
                         else (False, ol)))))"

definition on_disconnect :: "session_id \<Rightarrow> outlet \<Rightarrow> outlet" where
  "on_disconnect i ol =
     (case detach_out_session i ol of
        (None, ol) \<Rightarrow> ol
      | (Some k, ol) \<Rightarrow> close_conn k ol)"

definition session_input_step ::
  "bool \<Rightarrow> (string \<Rightarrow> udp_addr option) \<Rightarrow> crypto_env \<Rightarrow> session_id \<Rightarrow> outlet \<Rightarrow> outlet option" where
  "session_input_step ok resolve ce i ol =
     (case ol_sessions ol i of
        None \<Rightarrow> None
      | Some s \<Rightarrow>
          (case ring_pop (os_queue s) of
             Some ((Some m, True), q) \<Rightarrow>
               let ol = ol\<lparr>ol_sessions := (ol_sessions ol)(i \<mapsto> s\<lparr>os_queue := q\<rparr>)\<rparr> in
               (case m of
                  I2OSendData t j data \<Rightarrow>
                    (case on_send_data ok ce t j data ol of
                       (True, ol) \<Rightarrow> Some ol
                     | (False, ol) \<Rightarrow> Some (terminate_session t j ol))
                | I2OSendToData t j data addr \<Rightarrow>
                    (case on_send_to_data ok resolve ce t j data addr ol of
                       (True, ol) \<Rightarrow> Some ol
                     | (False, ol) \<Rightarrow> Some (terminate_session t j ol))
                | I2ODisconnect t j \<Rightarrow> Some (on_disconnect j ol)
                | _ \<Rightarrow> Some ol)
           | _ \<Rightarrow> None))"

text \<open>The end of a reader, whatever the reason.\<close>

definition reader_ends :: "nat \<Rightarrow> outlet \<Rightarrow> outlet" where
  "reader_ends k ol =
     (case ol_readers ol k of
        None \<Rightarrow> ol
      | Some r \<Rightarrow>
          close_conn k (ol_send (O2IDisconnect (or_tunnel r) (or_session r))
            ((snd (detach_out_session (or_session r) ol))\<lparr>ol_readers := (ol_readers ol)(k := None)\<rparr>)))"

text \<open>A read of \<open>data\<close> from \<open>from\<close>: \<open>None\<close> when the reader waits in the flow controller.\<close>

definition reader_step :: "crypto_env \<Rightarrow> byte list \<Rightarrow> byte list \<Rightarrow> string \<Rightarrow> nat \<Rightarrow> outlet \<Rightarrow> outlet option" where
  "reader_step ce random data from k ol =
     (case (ol_readers ol k, ol_conns ol k) of
        (Some r, Some cn) \<Rightarrow>
          (case encode_data_and_limit ce (cn_common cn) random data of
             None \<Rightarrow> None
           | Some (Inl e, common) \<Rightarrow> Some (reader_ends k (update_common k (\<lambda>_. common) ol))
           | Some (Inr encoded, common) \<Rightarrow>
               Some (ol_send (if or_remote_addr r then O2IRecvDataFrom (or_tunnel r) (or_session r) encoded from
                              else O2IRecvData (or_tunnel r) (or_session r) encoded)
                 (update_common k (\<lambda>_. common) ol)))
      | _ \<Rightarrow> None)"

section \<open>Stopping\<close>

text \<open>The sessions are closed one after the other, in the order of the list \<open>is\<close> the iteration of the
  map yields.\<close>

definition stop_session :: "session_id \<Rightarrow> (session_id \<rightharpoonup> out_session) \<Rightarrow> outlet \<Rightarrow> outlet" where
  "stop_session i sessions ol =
     (case sessions i of
        None \<Rightarrow> ol
      | Some s \<Rightarrow> close_conn (os_conn s) (update_common (os_conn s) sc_close ol))"

definition cancel_session :: "session_id \<Rightarrow> (session_id \<rightharpoonup> nat) \<Rightarrow> outlet \<Rightarrow> outlet" where
  "cancel_session i connecting ol = (case connecting i of None \<Rightarrow> ol | Some a \<Rightarrow> cancel_attempt a ol)"

definition stop_outlet :: "session_id list \<Rightarrow> outlet \<Rightarrow> outlet" where
  "stop_outlet is ol =
     (if ol_stopped ol then ol
      else let sessions = ol_sessions ol; connecting = ol_connecting ol;
               ol = ol\<lparr>ol_stopped := True, ol_connecting := Map.empty, ol_sessions := Map.empty\<rparr>
        in fold (\<lambda>i. stop_session i sessions) is (fold (\<lambda>i. cancel_session i connecting) is ol))"

text \<open>\<open>Stop\<close> returns once the attempts have ended.\<close>

definition stop_returns :: "outlet \<Rightarrow> bool" where
  "stop_returns ol \<longleftrightarrow> ol_stopped ol \<and> (\<forall>a. ol_attempts ol a = None)"

section \<open>Runs\<close>

text \<open>\<open>used\<close>: the ids of the sessions asked for so far.  With \<open>fresh\<close> a new session has a new id, as
  \<open>NextSessionID\<close> gives within one process; a repeated request for a session that is still there is
  possible in any case.  The numbers of attempts and connections name objects and are new.\<close>

inductive outlet_run :: "bool \<Rightarrow> session_id set \<Rightarrow> outlet \<Rightarrow> bool" for fresh where
  start: "outlet_run fresh {} new_outlet"
| message: "outlet_run fresh used ol \<Longrightarrow> \<not> is_connect m \<Longrightarrow> outlet_run fresh used (outlet_input a m ol)"
| connect: "outlet_run fresh used ol \<Longrightarrow> is_connect m \<Longrightarrow> ol_attempts ol a = None \<Longrightarrow>
    (fresh \<longrightarrow> pm_session_id m \<notin> used \<or> ol_sessions ol (pm_session_id m) \<noteq> None
      \<or> ol_connecting ol (pm_session_id m) \<noteq> None) \<Longrightarrow>
    outlet_run fresh (insert (pm_session_id m) used) (outlet_input a m ol)"
| dial: "outlet_run fresh used ol \<Longrightarrow> ol_conns ol k = None \<Longrightarrow> outlet_run fresh used (attempt_dial a k e outcome ol)"
| fails: "outlet_run fresh used ol \<Longrightarrow> outlet_run fresh used (fail_connect a ol)"
| install: "outlet_run fresh used ol \<Longrightarrow> outlet_run fresh used (install_connected_session a ol)"
| answer: "outlet_run fresh used ol \<Longrightarrow> outlet_run fresh used (answer_connect a ol)"
| finish: "outlet_run fresh used ol \<Longrightarrow> outlet_run fresh used (finish_connect_attempt a ol)"
| session: "outlet_run fresh used ol \<Longrightarrow> session_input_step ok resolve ce i ol = Some ol' \<Longrightarrow> outlet_run fresh used ol'"
| read: "outlet_run fresh used ol \<Longrightarrow> reader_step ce random data from k ol = Some ol' \<Longrightarrow> outlet_run fresh used ol'"
| read_ends: "outlet_run fresh used ol \<Longrightarrow> outlet_run fresh used (reader_ends k ol)"
| stop: "outlet_run fresh used ol \<Longrightarrow> dom (ol_sessions ol) \<union> dom (ol_connecting ol) \<subseteq> set is \<Longrightarrow>
    outlet_run fresh used (stop_outlet is ol)"

section \<open>What owns a connection\<close>

text \<open>The state without the data: the connection of a session, the session and the place of an attempt,
  the session of a connection and whether it is open, the session of a reader.\<close>

definition sess :: "outlet \<Rightarrow> session_id \<Rightarrow> nat option" where
  "sess ol = (\<lambda>i. map_option os_conn (ol_sessions ol i))"

definition atts :: "outlet \<Rightarrow> nat \<Rightarrow> (session_id \<times> attempt_phase) option" where
  "atts ol = (\<lambda>a. map_option (\<lambda>x. (pm_session_id (ca_message x), ca_phase x)) (ol_attempts ol a))"

definition conn :: "outlet \<Rightarrow> nat \<Rightarrow> (session_id \<times> bool) option" where
  "conn ol = (\<lambda>k. map_option (\<lambda>x. (cn_session x, cn_open x)) (ol_conns ol k))"

definition rdrs :: "outlet \<Rightarrow> nat \<Rightarrow> session_id option" where
  "rdrs ol = (\<lambda>k. map_option or_session (ol_readers ol k))"

definition shut :: "nat \<Rightarrow> (nat \<Rightarrow> (session_id \<times> bool) option) \<Rightarrow> nat \<Rightarrow> (session_id \<times> bool) option" where
  "shut k con = con(k := map_option (\<lambda>(i, _). (i, False)) (con k))"

lemmas shape_defs = sess_def atts_def conn_def rdrs_def

lemma shape_send [simp]:
  "sess (ol_send m ol) = sess ol" "atts (ol_send m ol) = atts ol" "conn (ol_send m ol) = conn ol"
  "rdrs (ol_send m ol) = rdrs ol" "ol_connecting (ol_send m ol) = ol_connecting ol"
  "ol_stopped (ol_send m ol) = ol_stopped ol"
  by (simp_all add: shape_defs ol_send_def)

lemma shape_common [simp]:
  "sess (update_common k f ol) = sess ol" "atts (update_common k f ol) = atts ol"
  "conn (update_common k f ol) = conn ol" "rdrs (update_common k f ol) = rdrs ol"
  "ol_connecting (update_common k f ol) = ol_connecting ol" "ol_stopped (update_common k f ol) = ol_stopped ol"
  by (auto simp: shape_defs update_common_def map_option.compositionality comp_def)

lemma shape_close [simp]:
  "sess (close_conn k ol) = sess ol" "atts (close_conn k ol) = atts ol"
  "conn (close_conn k ol) = shut k (conn ol)" "rdrs (close_conn k ol) = rdrs ol"
  "ol_connecting (close_conn k ol) = ol_connecting ol" "ol_stopped (close_conn k ol) = ol_stopped ol"
  by (auto simp: shape_defs close_conn_def shut_def map_option.compositionality comp_def)

lemma shape_cancel [simp]:
  "sess (cancel_attempt a ol) = sess ol" "atts (cancel_attempt a ol) = atts ol" "conn (cancel_attempt a ol) = conn ol"
  "rdrs (cancel_attempt a ol) = rdrs ol" "ol_connecting (cancel_attempt a ol) = ol_connecting ol"
  "ol_stopped (cancel_attempt a ol) = ol_stopped ol"
  by (auto simp: shape_defs cancel_attempt_def map_option.compositionality comp_def)

lemma shape_phase [simp]:
  "sess (set_phase a p ol) = sess ol" "conn (set_phase a p ol) = conn ol" "rdrs (set_phase a p ol) = rdrs ol"
  "atts (set_phase a p ol) = (atts ol)(a := map_option (\<lambda>(i, _). (i, p)) (atts ol a))"
  "ol_connecting (set_phase a p ol) = ol_connecting ol" "ol_stopped (set_phase a p ol) = ol_stopped ol"
  by (auto simp: shape_defs set_phase_def map_option.compositionality comp_def)

lemma shape_connecting [simp]:
  "sess (ol\<lparr>ol_connecting := c\<rparr>) = sess ol" "atts (ol\<lparr>ol_connecting := c\<rparr>) = atts ol"
  "conn (ol\<lparr>ol_connecting := c\<rparr>) = conn ol" "rdrs (ol\<lparr>ol_connecting := c\<rparr>) = rdrs ol"
  by (simp_all add: shape_defs)

lemma shape_detach:
  "detach_out_session i ol = (r, ol') \<Longrightarrow>
   r = sess ol i \<and> sess ol' = (sess ol)(i := None) \<and> atts ol' = atts ol \<and> conn ol' = conn ol \<and> rdrs ol' = rdrs ol \<and>
   ol_connecting ol' = ol_connecting ol \<and> ol_stopped ol' = ol_stopped ol"
  by (auto simp: detach_out_session_def shape_defs update_common_def map_option.compositionality comp_def
      split: option.splits)

section \<open>The invariant\<close>

type_synonym shape =
  "(session_id \<Rightarrow> nat option) \<times> (session_id \<Rightarrow> nat option) \<times> (nat \<Rightarrow> (session_id \<times> attempt_phase) option)
    \<times> (nat \<Rightarrow> (session_id \<times> bool) option) \<times> (nat \<Rightarrow> session_id option)"

definition shape_of :: "outlet \<Rightarrow> shape" where
  "shape_of ol = (sess ol, ol_connecting ol, atts ol, conn ol, rdrs ol)"

text \<open>Attempts and connections of different objects have different ids, all of them used.\<close>

definition inv_ids :: "session_id set \<Rightarrow> shape \<Rightarrow> bool" where
  "inv_ids used = (\<lambda>(ses, cing, att, con, rdr).
     (\<forall>a i p. att a = Some (i, p) \<longrightarrow> i \<in> used) \<and> (\<forall>k i b. con k = Some (i, b) \<longrightarrow> i \<in> used) \<and>
     (\<forall>a b i p q. att a = Some (i, p) \<longrightarrow> att b = Some (i, q) \<longrightarrow> a = b) \<and>
     (\<forall>k l i b c. con k = Some (i, b) \<longrightarrow> con l = Some (i, c) \<longrightarrow> k = l))"

definition inv_connecting :: "shape \<Rightarrow> bool" where
  "inv_connecting = (\<lambda>(ses, cing, att, con, rdr).
     \<forall>i a. cing i = Some a \<longrightarrow> (\<exists>p. att a = Some (i, p)) \<and> ses i = None)"

definition inv_attempts :: "shape \<Rightarrow> bool" where
  "inv_attempts = (\<lambda>(ses, cing, att, con, rdr).
     (\<forall>a i. att a = Some (i, Starting) \<longrightarrow> (\<forall>k b. con k \<noteq> Some (i, b))) \<and>
     (\<forall>a i k. att a = Some (i, Dialed k) \<longrightarrow> con k = Some (i, True) \<and> ses i = None \<and> rdr k = None) \<and>
     (\<forall>a i m k. att a = Some (i, Answering m (Some k)) \<longrightarrow> (\<exists>b. con k = Some (i, b))))"

definition inv_sessions :: "shape \<Rightarrow> bool" where
  "inv_sessions = (\<lambda>(ses, cing, att, con, rdr).
     (\<forall>i k. ses i = Some k \<longrightarrow> con k = Some (i, True)) \<and> (\<forall>k i. rdr k = Some i \<longrightarrow> (\<exists>b. con k = Some (i, b))))"

definition inv_owned :: "shape \<Rightarrow> bool" where
  "inv_owned = (\<lambda>(ses, cing, att, con, rdr).
     \<forall>k i. con k = Some (i, True) \<longrightarrow> (\<exists>a. att a = Some (i, Dialed k)) \<or> ses i = Some k)"

definition shape_inv :: "session_id set \<Rightarrow> shape \<Rightarrow> bool" where
  "shape_inv used x \<longleftrightarrow> inv_ids used x \<and> inv_connecting x \<and> inv_attempts x \<and> inv_sessions x \<and> inv_owned x"

lemmas shape_inv_defs = shape_inv_def inv_ids_def inv_connecting_def inv_attempts_def inv_sessions_def inv_owned_def

text \<open>What the steps do to a shape.\<close>

lemma shut_Some [simp]:
  "shut k con l = Some (i, b) \<longleftrightarrow> (if l = k then \<not> b \<and> (\<exists>c. con k = Some (i, c)) else con l = Some (i, b))"
  by (auto simp: shut_def)

lemma shut_None [simp]: "shut k con l = None \<longleftrightarrow> con l = None"
  by (auto simp: shut_def)

lemma inv_ids_sub:
  assumes "inv_ids used (ses, cing, att, con, rdr)"
    and "\<And>a i p. att' a = Some (i, p) \<Longrightarrow> \<exists>q. att a = Some (i, q)"
    and "\<And>k i b. con' k = Some (i, b) \<Longrightarrow> \<exists>c. con k = Some (i, c)"
  shows "inv_ids used (ses', cing', att', con', rdr')"
  using assms unfolding inv_ids_def prod.case by (intro conjI allI impI; meson)

lemma shape_invD:
  assumes "shape_inv used (ses, cing, att, con, rdr)"
  shows "inv_ids used (ses, cing, att, con, rdr)"
    and "\<And>a i p. att a = Some (i, p) \<Longrightarrow> i \<in> used" "\<And>k i b. con k = Some (i, b) \<Longrightarrow> i \<in> used"
    and "\<And>a b i p q. att a = Some (i, p) \<Longrightarrow> att b = Some (i, q) \<Longrightarrow> a = b"
    and "\<And>k l i b c. con k = Some (i, b) \<Longrightarrow> con l = Some (i, c) \<Longrightarrow> k = l"
    and "\<And>i a. cing i = Some a \<Longrightarrow> \<exists>p. att a = Some (i, p)" "\<And>i a. cing i = Some a \<Longrightarrow> ses i = None"
    and "\<And>a i k b. att a = Some (i, Starting) \<Longrightarrow> con k \<noteq> Some (i, b)"
    and "\<And>a i k. att a = Some (i, Dialed k) \<Longrightarrow> con k = Some (i, True) \<and> ses i = None \<and> rdr k = None"
    and "\<And>a i m k. att a = Some (i, Answering m (Some k)) \<Longrightarrow> \<exists>b. con k = Some (i, b)"
    and "\<And>i k. ses i = Some k \<Longrightarrow> con k = Some (i, True)" "\<And>k i. rdr k = Some i \<Longrightarrow> \<exists>b. con k = Some (i, b)"
    and "\<And>k i. con k = Some (i, True) \<Longrightarrow> (\<exists>a. att a = Some (i, Dialed k)) \<or> ses i = Some k"
proof -
  from assms show "inv_ids used (ses, cing, att, con, rdr)" by (simp add: shape_inv_def)
  then show "\<And>a i p. att a = Some (i, p) \<Longrightarrow> i \<in> used" "\<And>k i b. con k = Some (i, b) \<Longrightarrow> i \<in> used"
    "\<And>a b i p q. att a = Some (i, p) \<Longrightarrow> att b = Some (i, q) \<Longrightarrow> a = b"
    "\<And>k l i b c. con k = Some (i, b) \<Longrightarrow> con l = Some (i, c) \<Longrightarrow> k = l"
    unfolding inv_ids_def prod.case by blast+
  from assms have "inv_connecting (ses, cing, att, con, rdr)" by (simp add: shape_inv_def)
  then show "\<And>i a. cing i = Some a \<Longrightarrow> \<exists>p. att a = Some (i, p)" "\<And>i a. cing i = Some a \<Longrightarrow> ses i = None"
    unfolding inv_connecting_def prod.case by blast+
  from assms have "inv_attempts (ses, cing, att, con, rdr)" by (simp add: shape_inv_def)
  then show "\<And>a i k b. att a = Some (i, Starting) \<Longrightarrow> con k \<noteq> Some (i, b)"
    "\<And>a i k. att a = Some (i, Dialed k) \<Longrightarrow> con k = Some (i, True) \<and> ses i = None \<and> rdr k = None"
    "\<And>a i m k. att a = Some (i, Answering m (Some k)) \<Longrightarrow> \<exists>b. con k = Some (i, b)"
    unfolding inv_attempts_def prod.case by blast+
  from assms have "inv_sessions (ses, cing, att, con, rdr)" by (simp add: shape_inv_def)
  then show "\<And>i k. ses i = Some k \<Longrightarrow> con k = Some (i, True)" "\<And>k i. rdr k = Some i \<Longrightarrow> \<exists>b. con k = Some (i, b)"
    unfolding inv_sessions_def prod.case by blast+
  from assms have "inv_owned (ses, cing, att, con, rdr)" by (simp add: shape_inv_def)
  then show "\<And>k i. con k = Some (i, True) \<Longrightarrow> (\<exists>a. att a = Some (i, Dialed k)) \<or> ses i = Some k"
    unfolding inv_owned_def prod.case by blast
qed

lemma shape_invI:
  assumes "inv_ids used (ses, cing, att, con, rdr)"
    and "\<And>i a. cing i = Some a \<Longrightarrow> (\<exists>p. att a = Some (i, p)) \<and> ses i = None"
    and "\<And>a i k b. att a = Some (i, Starting) \<Longrightarrow> con k \<noteq> Some (i, b)"
    and "\<And>a i k. att a = Some (i, Dialed k) \<Longrightarrow> con k = Some (i, True) \<and> ses i = None \<and> rdr k = None"
    and "\<And>a i m k. att a = Some (i, Answering m (Some k)) \<Longrightarrow> \<exists>b. con k = Some (i, b)"
    and "\<And>i k. ses i = Some k \<Longrightarrow> con k = Some (i, True)"
    and "\<And>k i. rdr k = Some i \<Longrightarrow> \<exists>b. con k = Some (i, b)"
    and "\<And>k i. con k = Some (i, True) \<Longrightarrow> (\<exists>a. att a = Some (i, Dialed k)) \<or> ses i = Some k"
  shows "shape_inv used (ses, cing, att, con, rdr)"
proof -
  have "inv_connecting (ses, cing, att, con, rdr)" using assms(2) unfolding inv_connecting_def prod.case by blast
  moreover have "inv_attempts (ses, cing, att, con, rdr)"
    using assms(3-5) unfolding inv_attempts_def prod.case by blast
  moreover have "inv_sessions (ses, cing, att, con, rdr)" using assms(6,7) unfolding inv_sessions_def prod.case by blast
  moreover have "inv_owned (ses, cing, att, con, rdr)" using assms(8) unfolding inv_owned_def prod.case by blast
  ultimately show ?thesis using assms(1) by (simp add: shape_inv_def)
qed

lemma shape_detach_inv:
  assumes inv: "shape_inv used (ses, cing, att, con, rdr)" and s: "ses i = Some k"
  shows "shape_inv used (ses(i := None), cing, att, shut k con, rdr)"
proof -
  note d = shape_invD [OF inv]
  have ki: "con k = Some (i, True)" using d(11) s by simp
  show ?thesis
  proof (rule shape_invI, goal_cases)
    case 1 show ?case by (rule inv_ids_sub [OF d(1)]) (auto split: if_splits)
  next
    case (2 j a) then show ?case using d(6,7) by auto
  next
    case (3 a j l b) then show ?case using d(8) [of a j] by auto
  next
    case (4 a j l) then show ?case using d(9) [of a j l] s ki by auto
  next
    case (5 a j m l) then show ?case using d(10) [of a j m l] by auto
  next
    case (6 j l) then show ?case using d(11) [of j l] ki by (auto split: if_splits)
  next
    case (7 l j) then show ?case using d(12) [of l j] by auto
  next
    case (8 l j) then show ?case using d(13) [of l j] s ki by (auto split: if_splits)
  qed
qed

lemma shape_reader_inv:
  assumes inv: "shape_inv used (ses, cing, att, con, rdr)" and r: "rdr k = Some i"
  shows "shape_inv used (ses(i := None), cing, att, shut k con, rdr(k := None))"
proof -
  note d = shape_invD [OF inv]
  obtain b where ki: "con k = Some (i, b)" using d(12) r by blast
  have ik: "ses i = Some l \<Longrightarrow> l = k" for l using d(5) d(11) [of i l] ki by blast
  show ?thesis
  proof (rule shape_invI, goal_cases)
    case 1 show ?case by (rule inv_ids_sub [OF d(1)]) (auto split: if_splits)
  next
    case (2 j a) then show ?case using d(6,7) by auto
  next
    case (3 a j l b) then show ?case using d(8) [of a j] by auto
  next
    case (4 a j l) then show ?case using d(9) [of a j l] r by auto
  next
    case (5 a j m l) then show ?case using d(10) [of a j m l] by auto
  next
    case (6 j l) then show ?case using d(11) [of j l] ki by (auto split: if_splits)
  next
    case (7 l j) then show ?case using d(12) [of l j] by (auto split: if_splits)
  next
    case (8 l j) then show ?case using d(13) [of l j] ik by (auto split: if_splits)
  qed
qed

lemma shape_start_inv:
  assumes inv: "shape_inv used (ses, cing, att, con, rdr)" and new: "att a = None" "i \<notin> used" "ses i = None"
  shows "shape_inv (insert i used) (ses, cing(i := Some a), att(a := Some (i, Starting)), con, rdr)"
proof -
  note d = shape_invD [OF inv]
  have fresh: "con k \<noteq> Some (i, b)" "att c \<noteq> Some (i, p)" for k b c p using d(2,3) new(2) by blast+
  show ?thesis
  proof (rule shape_invI, goal_cases)
    case 1
    have att': "j \<in> insert i used \<and> (b = a \<longrightarrow> j = i)" "b \<noteq> a \<Longrightarrow> j \<noteq> i \<and> att b = Some (j, p)"
      if "(att(a := Some (i, Starting))) b = Some (j, p)" for b j p
      using that d(2) [of b j p] fresh(2) [of b p] by (auto split: if_splits)
    show ?case unfolding inv_ids_def prod.case
    proof (intro conjI allI impI, goal_cases)
      case (3 b c j p q)
      show ?case
      proof (cases "b = a \<or> c = a")
        case True
        with att'(1) [OF 3(1)] att'(1) [OF 3(2)] att'(2) [OF 3(1)] att'(2) [OF 3(2)] show ?thesis by blast
      next
        case False
        with att'(2) [OF 3(1)] att'(2) [OF 3(2)] d(4) show ?thesis by blast
      qed
    qed (use att'(1) d(3,5) in blast)+
  next
    case (2 j b) then show ?case using d(6) [of j b] d(7) [of j b] new by (auto split: if_splits)
  next
    case (3 b j l c) then show ?case using d(8) [of b j] fresh by (auto split: if_splits)
  next
    case (4 b j l) then show ?case using d(9) [of b j l] by (auto split: if_splits)
  next
    case (5 b j m l) then show ?case using d(10) [of b j m l] by (auto split: if_splits)
  next
    case (6 j l) then show ?case using d(11) by simp
  next
    case (7 l j) then show ?case using d(12) by simp
  next
    case (8 l j)
    then consider b where "att b = Some (j, Dialed l)" "b \<noteq> a" | "ses j = Some l" using d(13) new(1) by fastforce
    then show ?case by cases (metis fun_upd_other, blast)
  qed
qed

text \<open>An attempt moves on: what it was stays true of the rest.\<close>

lemma shape_phase_inv:
  assumes inv: "shape_inv used (ses, cing, att, con, rdr)" and a: "att a = Some (i, p)"
    and p: "\<And>k. p \<noteq> Dialed k" and q: "q \<noteq> Starting" "\<And>k. q \<noteq> Dialed k" "\<And>m k. q \<noteq> Answering m (Some k)"
  shows "shape_inv used (ses, cing, att(a := Some (i, q)), con, rdr)"
proof -
  note d = shape_invD [OF inv]
  show ?thesis
  proof (rule shape_invI, goal_cases)
    case 1 show ?case by (rule inv_ids_sub [OF d(1)]) (use a in \<open>auto split: if_splits\<close>)
  next
    case (2 j b) then show ?case using d(6) [of j b] d(7) [of j b] a by auto
  next
    case (3 b j l c) then show ?case using d(8) [of b j] q by (auto split: if_splits)
  next
    case (4 b j l) then show ?case using d(9) [of b j l] q by (auto split: if_splits)
  next
    case (5 b j m l) then show ?case using d(10) [of b j m l] q by (auto split: if_splits)
  next
    case (8 l j)
    then consider b where "att b = Some (j, Dialed l)" | "ses j = Some l" using d(13) by blast
    then show ?case by cases (use a p in \<open>metis fun_upd_other option.inject prod.inject\<close>)+
  qed (use d in auto)
qed

lemma shape_dial_inv:
  assumes inv: "shape_inv used (ses, cing, att, con, rdr)" and a: "att a = Some (i, Starting)" and k: "con k = None"
  shows "shape_inv used (ses, cing, att(a := Some (i, Dialed k)), con(k := Some (i, True)), rdr)"
proof -
  note d = shape_invD [OF inv]
  have none: "con l \<noteq> Some (i, b)" for l b using d(8) a by blast
  have ses: "ses i = None" using d(11) none by (cases "ses i") auto
  have rdr: "rdr k = None" using d(12) [of k] k by (cases "rdr k") auto
  show ?thesis
  proof (rule shape_invI, goal_cases)
    case 1
    have con': "j \<in> used \<and> (l = k \<longrightarrow> j = i)" "l \<noteq> k \<Longrightarrow> j \<noteq> i \<and> con l = Some (j, b)"
      if "(con(k := Some (i, True))) l = Some (j, b)" for l j b
      using that d(3) [of l j b] none [of l b] d(2) [OF a] by (auto split: if_splits)
    have att': "\<exists>q. att b = Some (j, q)" if "(att(a := Some (i, Dialed k))) b = Some (j, p)" for b j p
      using that a by (auto split: if_splits)
    show ?case unfolding inv_ids_def prod.case
    proof (intro conjI allI impI, goal_cases)
      case (4 l l' j b c)
      show ?case
      proof (cases "l = k \<or> l' = k")
        case True
        with con'(1) [OF 4(1)] con'(1) [OF 4(2)] con'(2) [OF 4(1)] con'(2) [OF 4(2)] show ?thesis by blast
      next
        case False
        with con'(2) [OF 4(1)] con'(2) [OF 4(2)] d(5) show ?thesis by blast
      qed
    next
      case (3 b c j p q)
      from att' [OF 3(1)] att' [OF 3(2)] d(4) show ?case by blast
    qed (use att' con'(1) d(2) in blast)+
  next
    case (2 j b) then show ?case using d(6) [of j b] d(7) [of j b] a by auto
  next
    case (3 b j l c) then show ?case using d(4) [OF a] d(8) [of b j] by (auto split: if_splits)
  next
    case (4 b j l) then show ?case using d(9) [of b j l] ses rdr k by (auto split: if_splits)
  next
    case (5 b j m l) then show ?case using d(10) [of b j m l] k by (auto split: if_splits)
  next
    case (6 j l) then show ?case using d(11) [of j l] k by auto
  next
    case (7 l j) then show ?case using d(12) [of l j] rdr by auto
  next
    case (8 l j)
    then consider c where "att c = Some (j, Dialed l)" "c \<noteq> a" | "l = k" "j = i" | "ses j = Some l"
      using d(13) [of l j] a by (fastforce split: if_splits)
    then show ?case by cases (metis fun_upd_other, auto)
  qed
qed

lemma shape_refuse_inv:
  assumes inv: "shape_inv used (ses, cing, att, con, rdr)" and a: "att a = Some (i, Dialed k)"
  shows "shape_inv used (ses, cing, att(a := Some (i, Finishing)), shut k con, rdr)"
proof -
  note d = shape_invD [OF inv]
  have k: "con k = Some (i, True)" "ses i = None" "rdr k = None" using d(9) [OF a] by auto
  show ?thesis
  proof (rule shape_invI, goal_cases)
    case 1 show ?case by (rule inv_ids_sub [OF d(1)]) (use a in \<open>auto split: if_splits\<close>)
  next
    case (2 j b) then show ?case using d(6) [of j b] d(7) [of j b] a by auto
  next
    case (3 b j l c) then show ?case using d(8) [of b j] by (auto split: if_splits)
  next
    case (4 b j l) then show ?case using d(4) [OF a] d(9) [of b j l] k by (auto split: if_splits)
  next
    case (5 b j m l) then show ?case using d(10) [of b j m l] by (auto split: if_splits)
  next
    case (6 j l) then show ?case using d(11) [of j l] k by auto
  next
    case (7 l j) then show ?case using d(12) [of l j] by auto
  next
    case (8 l j)
    then have "l \<noteq> k" "con l = Some (j, True)" by (auto split: if_splits)
    then consider b where "att b = Some (j, Dialed l)" "b \<noteq> a" | "ses j = Some l" using d(13) a by fastforce
    then show ?case by cases (metis fun_upd_other, blast)
  qed
qed

lemma shape_install_inv:
  assumes inv: "shape_inv used (ses, cing, att, con, rdr)" and a: "att a = Some (i, Dialed k)"
  shows "shape_inv used (ses(i := Some k), cing(i := None), att(a := Some (i, Answering m (Some k))), con, rdr)"
proof -
  note d = shape_invD [OF inv]
  have k: "con k = Some (i, True)" "ses i = None" "rdr k = None" using d(9) [OF a] by auto
  show ?thesis
  proof (rule shape_invI, goal_cases)
    case 1 show ?case by (rule inv_ids_sub [OF d(1)]) (use a in \<open>auto split: if_splits\<close>)
  next
    case (2 j b) then show ?case using d(6) [of j b] d(7) [of j b] a by (auto split: if_splits)
  next
    case (3 b j l c) then show ?case using d(8) [of b j] by (auto split: if_splits)
  next
    case (4 b j l) then show ?case using d(4) [OF a] d(9) [of b j l] k by (auto split: if_splits)
  next
    case (5 b j m l) then show ?case using d(10) [of b j m l] k by (auto split: if_splits)
  next
    case (6 j l) then show ?case using d(11) [of j l] k by (auto split: if_splits)
  next
    case (7 l j) then show ?case using d(12) [of l j] by auto
  next
    case (8 l j)
    then consider b where "att b = Some (j, Dialed l)" "b \<noteq> a" | "l = k" "j = i" | "j \<noteq> i" "ses j = Some l"
      using d(13) [of l j] a k by (metis attempt_phase.inject(1) option.distinct(1) option.inject prod.inject)
    then show ?case by cases (metis fun_upd_other, auto)
  qed
qed

lemma shape_answer_inv:
  assumes inv: "shape_inv used (ses, cing, att, con, rdr)" and a: "att a = Some (i, Answering m r)"
  shows "shape_inv used (ses, cing, att(a := Some (i, Finishing)), con,
    case r of None \<Rightarrow> rdr | Some k \<Rightarrow> rdr(k := Some i))"
proof -
  have moved: "shape_inv used (ses, cing, att(a := Some (i, Finishing)), con, rdr)"
    by (rule shape_phase_inv [OF inv a]) simp_all
  show ?thesis
  proof (cases r)
    case None
    with moved show ?thesis by simp
  next
    case (Some k)
    note d = shape_invD [OF inv] and e = shape_invD [OF moved]
    obtain b where k: "con k = Some (i, b)" using d(10) a Some by blast
    have "con k \<noteq> Some (j, True) \<or> (att(a := Some (i, Finishing))) c \<noteq> Some (j, Dialed k)" for c j
      using d(4) [OF a] k by (auto split: if_splits)
    then have free: "(att(a := Some (i, Finishing))) c \<noteq> Some (j, Dialed k)" for c j using e(9) by blast
    show ?thesis unfolding Some option.case
    proof (rule shape_invI, goal_cases)
      case 1 show ?case by (rule inv_ids_sub [OF e(1)]) auto
    next
      case (2 j c) then show ?case using e(6,7) by blast
    next
      case (3 c j l b) then show ?case using e(8) by blast
    next
      case (4 c j l) then show ?case using e(9) [of c j l] free [of c j] by (auto simp del: fun_upd_apply simp: fun_upd_other)
    next
      case (5 c j m' l) then show ?case using e(10) by blast
    next
      case (6 j l) then show ?case using e(11) by blast
    next
      case (7 l j) then show ?case using e(12) [of l j] k by (auto split: if_splits)
    next
      case (8 l j) then show ?case using e(13) by blast
    qed
  qed
qed

lemma shape_cancel_inv:
  "shape_inv used (ses, cing, att, con, rdr) \<Longrightarrow> shape_inv used (ses, cing(i := None), att, con, rdr)"
  unfolding shape_inv_def inv_ids_def inv_connecting_def inv_attempts_def inv_sessions_def inv_owned_def prod.case by simp

lemma shape_finish_inv:
  assumes inv: "shape_inv used (ses, cing, att, con, rdr)" and a: "att a = Some (i, Finishing)"
  shows "shape_inv used (ses, if cing i = Some a then cing(i := None) else cing, att(a := None), con, rdr)"
proof -
  note d = shape_invD [OF inv]
  show ?thesis
  proof (rule shape_invI, goal_cases)
    case 1 show ?case by (rule inv_ids_sub [OF d(1)]) (auto split: if_splits)
  next
    case (2 j b) then show ?case using d(6) [of j b] d(7) [of j b] a by (auto split: if_splits)
  next
    case (3 b j l c) then show ?case using d(8) [of b j] by (auto split: if_splits)
  next
    case (4 b j l) then show ?case using d(9) [of b j l] by (auto split: if_splits)
  next
    case (5 b j m l) then show ?case using d(10) [of b j m l] by (auto split: if_splits)
  next
    case (6 j l) then show ?case using d(11) by blast
  next
    case (7 l j) then show ?case using d(12) by blast
  next
    case (8 l j)
    then consider b where "att b = Some (j, Dialed l)" "b \<noteq> a" | "ses j = Some l" using d(13) a by fastforce
    then show ?case by cases (metis fun_upd_other, blast)
  qed
qed

section \<open>The steps keep the invariant\<close>

definition outlet_inv :: "session_id set \<Rightarrow> outlet \<Rightarrow> bool" where
  "outlet_inv used ol \<longleftrightarrow> shape_inv used (shape_of ol) \<and>
     (ol_stopped ol \<longrightarrow> (\<forall>i. ol_sessions ol i = None \<and> ol_connecting ol i = None)) \<and>
     (\<forall>a att. ol_attempts ol a = Some att \<longrightarrow> is_connect (ca_message att))"

lemma sess_none [simp]: "sess ol i = None \<longleftrightarrow> ol_sessions ol i = None"
  by (simp add: sess_def)

text \<open>A step that keeps the shape, or one that stops or empties nothing.\<close>

lemma outlet_inv_shape:
  assumes "outlet_inv used ol" "shape_inv used' (shape_of ol')" "ol_stopped ol' = ol_stopped ol"
    "\<And>i. sess ol i = None \<Longrightarrow> ol_stopped ol \<Longrightarrow> sess ol' i = None"
    "\<And>i. ol_connecting ol i = None \<Longrightarrow> ol_stopped ol \<Longrightarrow> ol_connecting ol' i = None"
    "\<And>a att. ol_attempts ol' a = Some att \<Longrightarrow> \<exists>att'. ol_attempts ol a = Some att' \<and> ca_message att = ca_message att'"
  shows "outlet_inv used' ol'"
  using assms by (fastforce simp: outlet_inv_def)

lemma messages_same [simp]:
  "ol_attempts (ol_send m ol) = ol_attempts ol" "ol_attempts (update_common k f ol) = ol_attempts ol"
  "ol_attempts (close_conn k ol) = ol_attempts ol"
  by (simp_all add: ol_send_def update_common_def close_conn_def)

lemma attempts_phase: "ol_attempts (set_phase a p ol) b = Some att \<Longrightarrow> \<exists>att'. ol_attempts ol b = Some att' \<and> ca_message att = ca_message att'"
  by (auto simp: set_phase_def split: if_splits)

lemma attempts_cancel: "ol_attempts (cancel_attempt a ol) b = Some att \<Longrightarrow> \<exists>att'. ol_attempts ol b = Some att' \<and> ca_message att = ca_message att'"
  by (auto simp: cancel_attempt_def split: if_splits)

lemma terminate_inv:
  assumes "outlet_inv used ol"
  shows "outlet_inv used (terminate_session t i ol)"
proof -
  obtain r ol1 where d: "detach_out_session i ol = (r, ol1)" by (cases "detach_out_session i ol")
  note sh = shape_detach [OF d]
  have att: "ol_attempts ol1 = ol_attempts ol"
    using d by (auto simp: detach_out_session_def split: option.splits)
  show ?thesis
  proof (cases r)
    case None
    with d have "terminate_session t i ol = ol" by (auto simp: terminate_session_def detach_out_session_def split: option.splits)
    with assms show ?thesis by simp
  next
    case (Some k)
    then have k: "sess ol i = Some k" using sh by simp
    have eq: "terminate_session t i ol = ol_send (O2IDisconnect t i) (close_conn k ol1)"
      using d Some by (simp add: terminate_session_def)
    have "shape_inv used (shape_of (terminate_session t i ol))"
      using shape_detach_inv [of used "sess ol" "ol_connecting ol" "atts ol" "conn ol" "rdrs ol" i k] assms sh k
      by (simp add: eq shape_of_def outlet_inv_def)
    then show ?thesis
      by (rule outlet_inv_shape [OF assms]) (use sh att in \<open>auto simp: eq\<close>)
  qed
qed

text \<open>Steps that touch only queues, commons and lists.\<close>

lemma quiet_inv:
  assumes "outlet_inv used ol" "sess ol' = sess ol" "conn ol' = conn ol" "ol_attempts ol' = ol_attempts ol"
    "rdrs ol' = rdrs ol" "ol_connecting ol' = ol_connecting ol" "ol_stopped ol' = ol_stopped ol"
  shows "outlet_inv used ol'"
proof -
  have "shape_of ol' = shape_of ol" using assms by (simp add: shape_of_def atts_def)
  with assms(1) have "shape_inv used (shape_of ol')" by (simp add: outlet_inv_def)
  then show ?thesis by (rule outlet_inv_shape [OF assms(1)]) (use assms in auto)
qed

lemma queue_quiet:
  "ol_sessions ol i = Some s \<Longrightarrow> sess (ol\<lparr>ol_sessions := (ol_sessions ol)(i \<mapsto> s\<lparr>os_queue := q\<rparr>)\<rparr>) = sess ol"
  by (auto simp: sess_def)

lemma push_inv: "outlet_inv used ol \<Longrightarrow> outlet_inv used (push_session t i m ol)"
  by (auto simp: push_session_def queue_quiet shape_defs(2-4) terminate_inv
      split: option.split bool.split prod.split intro: quiet_inv)

lemma cancel_input_inv:
  assumes "outlet_inv used ol"
  shows "outlet_inv used (cancel_attempt a (ol\<lparr>ol_connecting := (ol_connecting ol)(i := None)\<rparr>))"
proof (rule outlet_inv_shape [OF assms])
  show "shape_inv used (shape_of (cancel_attempt a (ol\<lparr>ol_connecting := (ol_connecting ol)(i := None)\<rparr>)))"
    using assms shape_cancel_inv [of used "sess ol" "ol_connecting ol" "atts ol" "conn ol" "rdrs ol" i]
    by (simp add: outlet_inv_def shape_of_def)
qed (auto dest: attempts_cancel)

lemma disconnect_input_inv: "outlet_inv used ol \<Longrightarrow> outlet_inv used (on_disconnect_input t i ol)"
  by (auto simp: on_disconnect_input_def Let_def intro!: push_inv cancel_input_inv split: option.split)

lemma recv_result_inv: "outlet_inv used ol \<Longrightarrow> outlet_inv used (on_recv_result i n ol)"
  by (auto simp: on_recv_result_def intro: quiet_inv split: option.split)

lemma message_inv: "outlet_inv used ol \<Longrightarrow> \<not> is_connect m \<Longrightarrow> outlet_inv used (outlet_input a m ol)"
  by (cases m) (auto simp: outlet_input_def intro: push_inv disconnect_input_inv recv_result_inv)

lemma connect_inv:
  assumes inv: "outlet_inv used ol" and m: "is_connect m" and a: "ol_attempts ol a = None"
    and id: "pm_session_id m \<notin> used \<or> ol_sessions ol (pm_session_id m) \<noteq> None \<or> ol_connecting ol (pm_session_id m) \<noteq> None"
  shows "outlet_inv (insert (pm_session_id m) used) (outlet_input a m ol)"
proof -
  let ?i = "pm_session_id m"
  have more: "outlet_inv (insert ?i used) ol" if "outlet_inv used ol" for ol
    using that by (auto simp: outlet_inv_def shape_of_def shape_inv_def inv_ids_def)
  have eq: "outlet_input a m ol = start_connect a (pm_tunnel_id m) ?i m ol"
    using m by (cases m) (simp_all add: outlet_input_def)
  show ?thesis
  proof (cases "ol_stopped ol \<or> ol_sessions ol ?i \<noteq> None \<or> ol_connecting ol ?i \<noteq> None")
    case True
    then have "outlet_input a m ol \<in> {ol, ol_send (O2IConnect (pm_tunnel_id m) ?i False ''repeated connection'') ol}"
      by (auto simp: eq start_connect_def)
    then show ?thesis using inv by (auto intro!: more intro: quiet_inv)
  next
    case False
    then have 2: "\<not> ol_stopped ol" "ol_sessions ol ?i = None" "ol_connecting ol ?i = None" by auto
    let ?ol = "ol\<lparr>ol_connecting := (ol_connecting ol)(?i \<mapsto> a),
      ol_attempts := (ol_attempts ol)(a \<mapsto> \<lparr>ca_message = m, ca_phase = Starting, ca_cancelled = False\<rparr>)\<rparr>"
    have sh: "shape_of ?ol = (sess ol, (ol_connecting ol)(?i := Some a), (atts ol)(a := Some (?i, Starting)), conn ol, rdrs ol)"
      by (auto simp: shape_of_def shape_defs)
    have "shape_inv (insert ?i used) (shape_of ?ol)"
      unfolding sh using inv a id 2
      by (intro shape_start_inv) (auto simp: outlet_inv_def shape_of_def atts_def)
    then show ?thesis using inv m 2 by (auto simp: outlet_inv_def eq start_connect_def split: if_splits)
  qed
qed

lemma inv_shape: "outlet_inv used ol \<Longrightarrow> shape_inv used (sess ol, ol_connecting ol, atts ol, conn ol, rdrs ol)"
  by (simp add: outlet_inv_def shape_of_def)

lemma atts_Some: "ol_attempts ol a = Some att \<Longrightarrow> atts ol a = Some (pm_session_id (ca_message att), ca_phase att)"
  by (simp add: atts_def)

lemma phase_inv:
  assumes inv: "outlet_inv used ol" and a: "ol_attempts ol a = Some att"
    and p: "\<And>k. ca_phase att \<noteq> Dialed k" and q: "q \<noteq> Starting" "\<And>k. q \<noteq> Dialed k" "\<And>m k. q \<noteq> Answering m (Some k)"
  shows "outlet_inv used (set_phase a q ol)"
proof -
  have "shape_inv used (shape_of (set_phase a q ol))"
    using shape_phase_inv [OF inv_shape [OF inv] atts_Some [OF a] p q] atts_Some [OF a] by (simp add: shape_of_def)
  then show ?thesis by (rule outlet_inv_shape [OF inv]) (auto dest: attempts_phase)
qed

lemma dial_inv:
  assumes inv: "outlet_inv used ol" and k: "ol_conns ol k = None"
  shows "outlet_inv used (attempt_dial a k e outcome ol)"
proof (cases "ol_attempts ol a")
  case None
  with inv show ?thesis by (simp add: attempt_dial_def)
next
  case (Some att)
  then have con: "is_connect (ca_message att)" using inv by (auto simp: outlet_inv_def)
  have failing: "outlet_inv used (set_phase a (Failing r) ol)" if "ca_phase att = Starting" for r
    by (rule phase_inv [OF inv Some]) (use that in simp_all)
  let ?i = "pm_session_id (ca_message att)"
  have opens: "outlet_inv used (set_phase a (Dialed k) (ol\<lparr>ol_conns := (ol_conns ol)
      (k \<mapsto> \<lparr>cn_session = ?i, cn_open = True, cn_tcp = tcp, cn_common = c\<rparr>)\<rparr>))" (is "outlet_inv used (set_phase _ _ ?ol)")
    if "ca_phase att = Starting" for tcp c
  proof -
    have sh: "sess ?ol = sess ol" "atts ?ol = atts ol" "conn ?ol = (conn ol)(k := Some (?i, True))" "rdrs ?ol = rdrs ol"
      by (auto simp: shape_defs)
    have kc: "conn ol k = None" using k by (simp add: conn_def)
    have "shape_inv used (shape_of (set_phase a (Dialed k) ?ol))"
      using shape_dial_inv [OF inv_shape [OF inv], of a ?i k] atts_Some [OF Some] that kc sh
      by (simp add: shape_of_def)
    then show ?thesis by (rule outlet_inv_shape [OF inv]) (use sh in \<open>auto dest: attempts_phase\<close>)
  qed
  show ?thesis
  proof (cases "ca_phase att = Starting")
    case True
    with con Some failing opens show ?thesis
      by (cases "ca_message att")
         (auto simp: attempt_dial_def Let_def split: option.split prod.split dial_outcome.split)
  next
    case False
    with con Some inv show ?thesis
      by (cases "ca_message att"; cases "ca_phase att") (simp_all add: attempt_dial_def)
  qed
qed

lemma fail_inv:
  assumes inv: "outlet_inv used ol"
  shows "outlet_inv used (fail_connect a ol)"
proof (cases "\<exists>att r. ol_attempts ol a = Some att \<and> ca_phase att = Failing r")
  case True
  then obtain att r where att: "ol_attempts ol a = Some att" "ca_phase att = Failing r" by blast
  then show ?thesis by (auto simp: fail_connect_def Let_def intro!: phase_inv [OF inv att(1)])
next
  case False
  with inv show ?thesis by (auto simp: fail_connect_def split: option.split attempt_phase.split)
qed

lemma install_inv:
  assumes inv: "outlet_inv used ol"
  shows "outlet_inv used (install_connected_session a ol)"
proof (cases "\<exists>att k. ol_attempts ol a = Some att \<and> ca_phase att = Dialed k")
  case True
  then obtain att k where att: "ol_attempts ol a = Some att" "ca_phase att = Dialed k" by blast
  let ?i = "pm_session_id (ca_message att)"
  have a: "atts ol a = Some (?i, Dialed k)" using atts_Some [OF att(1)] att(2) by simp
  show ?thesis
  proof (cases "ol_stopped ol \<or> ol_connecting ol ?i \<noteq> Some a \<or> ol_sessions ol ?i \<noteq> None")
    case refuse: True
    with att have eq: "install_connected_session a ol = set_phase a Finishing (close_conn k (update_common k sc_close ol))"
      by (auto simp: install_connected_session_def Let_def)
    have "shape_inv used (shape_of (install_connected_session a ol))"
      using shape_refuse_inv [OF inv_shape [OF inv] a] a by (simp add: eq shape_of_def)
    then show ?thesis by (rule outlet_inv_shape [OF inv]) (auto simp: eq dest: attempts_phase)
  next
    case False
    let ?ol = "ol\<lparr>ol_connecting := (ol_connecting ol)(?i := None), ol_sessions := (ol_sessions ol)(?i \<mapsto>
        \<lparr>os_conn = k, os_queue = new_proxy_message_queue_with_capacity default_proxy_queue_capacity\<rparr>)\<rparr>"
    let ?m = "O2IConnect (pm_tunnel_id (ca_message att)) ?i True ''''"
    from False att have eq: "install_connected_session a ol = set_phase a (Answering ?m (Some k)) (cancel_attempt a ?ol)"
      by (auto simp: install_connected_session_def Let_def)
    have sh: "sess ?ol = (sess ol)(?i := Some k)" "atts ?ol = atts ol" "conn ?ol = conn ol" "rdrs ?ol = rdrs ol"
      by (auto simp: shape_defs)
    have "shape_inv used (shape_of (install_connected_session a ol))"
      using shape_install_inv [OF inv_shape [OF inv] a] a sh by (simp add: eq shape_of_def)
    then show ?thesis
      by (rule outlet_inv_shape [OF inv]) (use False sh in \<open>auto simp: eq dest!: attempts_phase attempts_cancel\<close>)
  qed
next
  case False
  with inv show ?thesis by (auto simp: install_connected_session_def split: option.split attempt_phase.split)
qed

lemma answer_inv:
  assumes inv: "outlet_inv used ol"
  shows "outlet_inv used (answer_connect a ol)"
proof (cases "\<exists>att m r. ol_attempts ol a = Some att \<and> ca_phase att = Answering m r")
  case True
  then obtain att m r where att: "ol_attempts ol a = Some att" "ca_phase att = Answering m r" by blast
  let ?i = "pm_session_id (ca_message att)"
  let ?ol = "set_phase a Finishing (ol_send m ol)"
  from inv att(1) have "is_connect (ca_message att)" by (simp add: outlet_inv_def)
  then have reader: "or_session (reader_for (ca_message att)) = ?i"
    by (cases "ca_message att") (simp_all add: reader_for_def)
  have a: "atts ol a = Some (?i, Answering m r)" using atts_Some [OF att(1)] att(2) by simp
  have eq: "answer_connect a ol = (case r of None \<Rightarrow> ?ol
      | Some k \<Rightarrow> ?ol\<lparr>ol_readers := (ol_readers ?ol)(k \<mapsto> reader_for (ca_message att))\<rparr>)"
    using att by (simp add: answer_connect_def Let_def)
  have sh: "sess (answer_connect a ol) = sess ol" "atts (answer_connect a ol) = (atts ol)(a := Some (?i, Finishing))"
    "conn (answer_connect a ol) = conn ol" "ol_connecting (answer_connect a ol) = ol_connecting ol"
    "rdrs (answer_connect a ol) = (case r of None \<Rightarrow> rdrs ol | Some k \<Rightarrow> (rdrs ol)(k := Some ?i))"
    "ol_stopped (answer_connect a ol) = ol_stopped ol" "ol_attempts (answer_connect a ol) = ol_attempts ?ol"
    using a reader by (auto simp: eq shape_defs set_phase_def ol_send_def split: option.split)
  have "shape_inv used (shape_of (answer_connect a ol))"
    using shape_answer_inv [OF inv_shape [OF inv] a] by (simp add: shape_of_def sh)
  then show ?thesis by (rule outlet_inv_shape [OF inv]) (auto simp: sh dest: attempts_phase)
next
  case False
  with inv show ?thesis by (auto simp: answer_connect_def split: option.split attempt_phase.split)
qed

lemma finish_inv:
  assumes inv: "outlet_inv used ol"
  shows "outlet_inv used (finish_connect_attempt a ol)"
proof (cases "\<exists>att. ol_attempts ol a = Some att \<and> ca_phase att = Finishing")
  case True
  then obtain att where att: "ol_attempts ol a = Some att" "ca_phase att = Finishing" by blast
  let ?i = "pm_session_id (ca_message att)"
  let ?c = "if ol_connecting ol ?i = Some a then (ol_connecting ol)(?i := None) else ol_connecting ol"
  have a: "atts ol a = Some (?i, Finishing)" using atts_Some [OF att(1)] att(2) by simp
  have eq: "finish_connect_attempt a ol = ol\<lparr>ol_connecting := ?c, ol_attempts := (ol_attempts ol)(a := None)\<rparr>"
    using att by (simp add: finish_connect_attempt_def Let_def)
  have sh: "sess (finish_connect_attempt a ol) = sess ol" "atts (finish_connect_attempt a ol) = (atts ol)(a := None)"
    "conn (finish_connect_attempt a ol) = conn ol" "rdrs (finish_connect_attempt a ol) = rdrs ol"
    "ol_connecting (finish_connect_attempt a ol) = ?c"
    unfolding eq by (auto simp: shape_defs)
  have "shape_inv used (shape_of (finish_connect_attempt a ol))"
    using shape_finish_inv [OF inv_shape [OF inv] a] by (simp add: shape_of_def sh)
  then show ?thesis by (rule outlet_inv_shape [OF inv]) (auto simp: eq sess_def split: if_splits)
next
  case False
  with inv show ?thesis by (auto simp: finish_connect_attempt_def split: option.split)
qed

lemma disconnect_inv:
  assumes "outlet_inv used ol"
  shows "outlet_inv used (on_disconnect i ol)"
proof -
  have "outlet_inv used (terminate_session 0 i ol)" using assms by (rule terminate_inv)
  then show ?thesis
    by (rule quiet_inv)
       (auto simp: on_disconnect_def terminate_session_def split: option.split prod.split)
qed

lemma on_send_quiet:
  "on_send_data ok ce t i data ol = (r, ol') \<Longrightarrow>
   sess ol' = sess ol \<and> conn ol' = conn ol \<and> ol_attempts ol' = ol_attempts ol \<and> rdrs ol' = rdrs ol \<and>
   ol_connecting ol' = ol_connecting ol \<and> ol_stopped ol' = ol_stopped ol"
  "on_send_to_data ok resolve ce t i data addr ol = (r, ol') \<Longrightarrow>
   sess ol' = sess ol \<and> conn ol' = conn ol \<and> ol_attempts ol' = ol_attempts ol \<and> rdrs ol' = rdrs ol \<and>
   ol_connecting ol' = ol_connecting ol \<and> ol_stopped ol' = ol_stopped ol"
  by (auto simp: on_send_data_def on_send_to_data_def shape_defs ol_send_def
      split: option.splits sum.splits if_splits)

lemma session_step_inv:
  assumes inv: "outlet_inv used ol" and step: "session_input_step ok resolve ce i ol = Some ol'"
  shows "outlet_inv used ol'"
proof -
  from step obtain s m q where s: "ol_sessions ol i = Some s" and pop: "ring_pop (os_queue s) = Some ((Some m, True), q)"
    by (auto simp: session_input_step_def split: option.splits prod.splits bool.splits)
  let ?ol = "ol\<lparr>ol_sessions := (ol_sessions ol)(i \<mapsto> s\<lparr>os_queue := q\<rparr>)\<rparr>"
  have popped: "outlet_inv used ?ol"
    by (rule quiet_inv [OF inv]) (auto simp: queue_quiet [OF s] shape_defs(2-4))
  show ?thesis
  proof (cases m)
    case (I2OSendData t j data)
    obtain r ol1 where send: "on_send_data ok ce t j data ?ol = (r, ol1)" by (cases "on_send_data ok ce t j data ?ol")
    from on_send_quiet(1) [OF send] have "outlet_inv used ol1" by (intro quiet_inv [OF popped]) auto
    then show ?thesis using step s pop I2OSendData send
      by (cases r) (auto simp: session_input_step_def Let_def intro: terminate_inv)
  next
    case (I2OSendToData t j data addr)
    obtain r ol1 where send: "on_send_to_data ok resolve ce t j data addr ?ol = (r, ol1)"
      by (cases "on_send_to_data ok resolve ce t j data addr ?ol")
    from on_send_quiet(2) [OF send] have "outlet_inv used ol1" by (intro quiet_inv [OF popped]) auto
    then show ?thesis using step s pop I2OSendToData send
      by (cases r) (auto simp: session_input_step_def Let_def intro: terminate_inv)
  next
    case (I2ODisconnect t j)
    then show ?thesis using step s pop disconnect_inv [OF popped] by (auto simp: session_input_step_def Let_def)
  qed (use step s pop popped in \<open>auto simp: session_input_step_def Let_def\<close>)
qed

lemma reader_ends_inv:
  assumes inv: "outlet_inv used ol"
  shows "outlet_inv used (reader_ends k ol)"
proof (cases "ol_readers ol k")
  case None
  with inv show ?thesis by (simp add: reader_ends_def)
next
  case (Some r)
  obtain x ol1 where d: "detach_out_session (or_session r) ol = (x, ol1)" by (cases "detach_out_session (or_session r) ol")
  note sh = shape_detach [OF d]
  have att: "ol_attempts ol1 = ol_attempts ol" using d by (auto simp: detach_out_session_def split: option.splits)
  let ?ol = "ol1\<lparr>ol_readers := (ol_readers ol)(k := None)\<rparr>"
  have eq: "reader_ends k ol = close_conn k (ol_send (O2IDisconnect (or_tunnel r) (or_session r)) ?ol)"
    using Some d by (simp add: reader_ends_def)
  have sh': "sess ?ol = (sess ol)(or_session r := None)" "atts ?ol = atts ol" "conn ?ol = conn ol"
    "rdrs ?ol = (rdrs ol)(k := None)" "ol_connecting ?ol = ol_connecting ol" "ol_stopped ?ol = ol_stopped ol"
    using sh by (auto simp: shape_defs)
  have k: "rdrs ol k = Some (or_session r)" using Some by (simp add: rdrs_def)
  have "shape_inv used (shape_of (reader_ends k ol))"
    using shape_reader_inv [OF inv_shape [OF inv] k] by (simp add: eq shape_of_def sh')
  then show ?thesis by (rule outlet_inv_shape [OF inv]) (use sh' att in \<open>auto simp: eq\<close>)
qed

lemma reader_step_inv:
  assumes inv: "outlet_inv used ol" and step: "reader_step ce random data src k ol = Some ol'"
  shows "outlet_inv used ol'"
proof -
  have common: "outlet_inv used (update_common k f ol)" for f by (rule quiet_inv [OF inv]) simp_all
  have sent: "outlet_inv used (ol_send m (update_common k f ol))" for m f by (rule quiet_inv [OF inv]) simp_all
  show ?thesis using step sent
    by (auto simp: reader_step_def intro: reader_ends_inv [OF common] split: option.splits prod.splits sum.splits)
qed

definition shut_all :: "nat set \<Rightarrow> (nat \<Rightarrow> (session_id \<times> bool) option) \<Rightarrow> nat \<Rightarrow> (session_id \<times> bool) option" where
  "shut_all ks con = (\<lambda>k. if k \<in> ks then map_option (\<lambda>(i, _). (i, False)) (con k) else con k)"

lemma shut_shut_all: "shut k (shut_all ks con) = shut_all (insert k ks) con"
proof
  fix l
  show "shut k (shut_all ks con) l = shut_all (insert k ks) con l"
    by (cases "con l") (auto simp: shut_def shut_all_def)
qed

lemma stop_sessions_shape:
  "sess (fold (\<lambda>i. stop_session i ss) is ol) = sess ol \<and> atts (fold (\<lambda>i. stop_session i ss) is ol) = atts ol \<and>
   rdrs (fold (\<lambda>i. stop_session i ss) is ol) = rdrs ol \<and>
   ol_connecting (fold (\<lambda>i. stop_session i ss) is ol) = ol_connecting ol \<and>
   ol_stopped (fold (\<lambda>i. stop_session i ss) is ol) = ol_stopped ol \<and>
   ol_attempts (fold (\<lambda>i. stop_session i ss) is ol) = ol_attempts ol \<and>
   (\<forall>ks con. conn ol = shut_all ks con \<longrightarrow>
      conn (fold (\<lambda>i. stop_session i ss) is ol) = shut_all (ks \<union> {k. \<exists>i \<in> set is. map_option os_conn (ss i) = Some k}) con)"
proof (induction "is" arbitrary: ol)
  case (Cons i "is")
  show ?case
  proof (cases "ss i")
    case None
    with Cons show ?thesis by (simp add: stop_session_def)
  next
    case (Some s)
    have "shut_all (insert (os_conn s) (ks \<union> {k. \<exists>i\<in>set is. map_option os_conn (ss i) = Some k})) con =
        shut_all (ks \<union> {k. \<exists>j\<in>set (i # is). map_option os_conn (ss j) = Some k}) con" for ks con
      using Some by (auto intro!: arg_cong [where f = "\<lambda>x. shut_all x con"])
    with Cons [of "stop_session i ss ol"] Some show ?thesis
      by (simp add: stop_session_def shut_shut_all)
  qed
qed simp

lemma cancel_sessions_shape:
  "sess (fold (\<lambda>i. cancel_session i cs) is ol) = sess ol \<and> atts (fold (\<lambda>i. cancel_session i cs) is ol) = atts ol \<and>
   rdrs (fold (\<lambda>i. cancel_session i cs) is ol) = rdrs ol \<and> conn (fold (\<lambda>i. cancel_session i cs) is ol) = conn ol \<and>
   ol_connecting (fold (\<lambda>i. cancel_session i cs) is ol) = ol_connecting ol \<and>
   ol_stopped (fold (\<lambda>i. cancel_session i cs) is ol) = ol_stopped ol \<and>
   (\<forall>a att. ol_attempts (fold (\<lambda>i. cancel_session i cs) is ol) a = Some att \<longrightarrow>
      (\<exists>att'. ol_attempts ol a = Some att' \<and> ca_message att = ca_message att'))"
proof (induction "is" arbitrary: ol)
  case (Cons i "is")
  show ?case
  proof (cases "cs i")
    case None
    with Cons show ?thesis by (simp add: cancel_session_def)
  next
    case (Some a)
    with Cons [of "cancel_attempt a ol"] show ?thesis
      by (simp add: cancel_session_def) (metis attempts_cancel)
  qed
qed auto

lemma stop_inv:
  assumes inv: "outlet_inv used ol" and all: "dom (ol_sessions ol) \<union> dom (ol_connecting ol) \<subseteq> set is"
  shows "outlet_inv used (stop_outlet is ol)"
proof (cases "ol_stopped ol")
  case True
  with inv show ?thesis by (simp add: stop_outlet_def)
next
  case False
  let ?ol = "ol\<lparr>ol_stopped := True, ol_connecting := Map.empty, ol_sessions := Map.empty\<rparr>"
  let ?ol1 = "fold (\<lambda>i. cancel_session i (ol_connecting ol)) is ?ol"
  let ?ol2 = "stop_outlet is ol"
  have eq: "?ol2 = fold (\<lambda>i. stop_session i (ol_sessions ol)) is ?ol1" using False by (simp add: stop_outlet_def Let_def)
  have base: "sess ?ol = (\<lambda>_. None)" "atts ?ol = atts ol" "rdrs ?ol = rdrs ol" "conn ?ol = conn ol"
    by (auto simp: shape_defs)
  note c = cancel_sessions_shape [of "ol_connecting ol" "is" ?ol]
  note t = stop_sessions_shape [of "ol_sessions ol" "is" ?ol1]
  let ?ks = "{k. \<exists>i \<in> set is. map_option os_conn (ol_sessions ol i) = Some k}"
  have ks: "k \<in> ?ks \<longleftrightarrow> (\<exists>i. sess ol i = Some k)" for k
    using all by (auto simp: sess_def dom_def)
  have "conn ?ol1 = shut_all {} (conn ol)" using c base by (simp add: shut_all_def)
  with t have con: "conn ?ol2 = shut_all ?ks (conn ol)" unfolding eq by simp
  have shape: "sess ?ol2 = (\<lambda>_. None)" "atts ?ol2 = atts ol" "rdrs ?ol2 = rdrs ol" "ol_connecting ?ol2 = Map.empty"
    "ol_stopped ?ol2" using t c base unfolding eq by simp_all
  note d = shape_invD [OF inv_shape [OF inv]]
  have "shape_inv used (shape_of ?ol2)"
    unfolding shape_of_def shape con
  proof (rule shape_invI, goal_cases)
    case 1 show ?case by (rule inv_ids_sub [OF d(1)]) (auto simp: shut_all_def split: if_splits)
  next
    case (3 a i k b) then show ?case using d(8) [of a i] by (auto simp: shut_all_def split: if_splits)
  next
    case (4 a i k)
    have "sess ol j \<noteq> Some k" for j using d(9) [OF 4] d(11) [of j k] by (auto simp: sess_def)
    then have "k \<notin> ?ks" using ks [of k] by auto
    with d(9) [OF 4] show ?case by (simp add: shut_all_def)
  next
    case (5 a i m k) then show ?case using d(10) [of a i m k] by (auto simp: shut_all_def)
  next
    case (7 k i) then show ?case using d(12) [of k i] by (auto simp: shut_all_def)
  next
    case (8 k i)
    then have "k \<notin> ?ks" "conn ol k = Some (i, True)" by (auto simp: shut_all_def split: if_splits)
    with d(13) [of k i] ks [of k] show ?case by blast
  qed simp_all
  moreover have "ol_attempts ?ol2 a = Some att \<Longrightarrow> is_connect (ca_message att)" for a att
  proof -
    have "ol_attempts ?ol2 = ol_attempts ?ol1" using t unfolding eq by simp
    moreover from c have "ol_attempts ?ol1 a = Some att \<Longrightarrow>
        \<exists>att'. ol_attempts ol a = Some att' \<and> ca_message att = ca_message att'" by simp
    ultimately show "ol_attempts ?ol2 a = Some att \<Longrightarrow> is_connect (ca_message att)"
      using inv by (auto simp: outlet_inv_def)
  qed
  moreover have "ol_sessions ?ol2 i = None" for i using shape(1) sess_none [of ?ol2 i] by simp
  ultimately show ?thesis using shape by (simp add: outlet_inv_def)
qed

lemma new_outlet_inv: "outlet_inv {} new_outlet"
  by (auto simp: outlet_inv_def new_outlet_def shape_of_def shape_defs intro!: shape_invI simp: inv_ids_def)

lemma outlet_run_inv: "outlet_run True used ol \<Longrightarrow> outlet_inv used ol"
  by (induction rule: outlet_run.induct)
     (auto intro: new_outlet_inv message_inv connect_inv dial_inv fail_inv install_inv answer_inv finish_inv
        session_step_inv reader_step_inv reader_ends_inv stop_inv [OF _ Un_least])

section \<open>The property\<close>


text \<open>A session asked for, dialled and installed.\<close>

definition ex_request :: proxy_message where
  "ex_request = I2OConnect 3 1 0 True False ''10.0.0.1:80'' ''None'' '''' ''10.0.0.2:9''"

definition ex_installed :: "nat \<Rightarrow> nat \<Rightarrow> outlet \<Rightarrow> outlet" where
  "ex_installed a k ol = install_connected_session a (attempt_dial a k '''' Dial_Open (outlet_input a ex_request ol))"

lemma ex_installed_run:
  assumes "outlet_run fresh used ol" "ol_attempts ol a = None" "ol_conns (outlet_input a ex_request ol) k = None"
    "fresh \<longrightarrow> 1 \<notin> used"
  shows "outlet_run fresh (insert 1 used) (ex_installed a k ol)"
proof -
  have "outlet_run fresh (insert (pm_session_id ex_request) used) (outlet_input a ex_request ol)"
    using assms by (intro outlet_run.connect) (simp_all add: ex_request_def)
  then have "outlet_run fresh (insert 1 used) (outlet_input a ex_request ol)" by (simp add: ex_request_def)
  then show ?thesis unfolding ex_installed_def by (intro outlet_run.install outlet_run.dial assms(3))
qed


section \<open>Sessions with an id of an earlier one\<close>

text \<open>\<open>NextSessionID\<close> counts from 1 in every process.  After the inlet's process has restarted, a session of
  the old process that the outlet still has makes it refuse the new session of the same id.\<close>

lemma reused_id_refused:
  assumes "\<not> ol_stopped ol" "ol_sessions ol i \<noteq> None"
  shows "outlet_input a (I2OConnect t i ty tcp compressed addr meth key client) ol =
    ol_send (O2IConnect t i False ''repeated connection'') ol"
  using assms by (simp add: outlet_input_def start_connect_def)

text \<open>And the reader of an old connection, when it ends, removes whatever session has its id: the new
  connection stays open in no session.\<close>

definition ex_reused :: outlet where
  "ex_reused =
     (let a = finish_connect_attempt 0 (answer_connect 0 (ex_installed 0 0 new_outlet));
          b = the (session_input_step True (\<lambda>_. None) example_crypto 1 (outlet_input 0 (I2ODisconnect 3 1) a));
          c = finish_connect_attempt 0 (answer_connect 0 (ex_installed 0 1 b))
      in reader_ends 0 c)"

lemma old_reader_drops_new_session:
  "\<exists>used ol cn. outlet_run False used ol \<and> ol_conns ol 1 = Some cn \<and> cn_open cn \<and>
    ol_sessions ol (cn_session cn) = None \<and> ol_attempts ol 0 = None"
proof -
  let ?a = "finish_connect_attempt 0 (answer_connect 0 (ex_installed 0 0 new_outlet))"
  let ?d = "outlet_input 0 (I2ODisconnect 3 1) ?a"
  have "outlet_run False (insert 1 {}) (ex_installed 0 0 new_outlet)"
    by (rule ex_installed_run [OF outlet_run.start])
       (simp_all add: new_outlet_def outlet_input_def ex_request_def start_connect_def)
  then have d: "outlet_run False (insert 1 {}) ?d"
    by (intro outlet_run.message outlet_run.finish outlet_run.answer) simp_all
  have "case session_input_step True (\<lambda>_. None) example_crypto 1 ?d of None \<Rightarrow> False | Some _ \<Rightarrow> True" by code_simp
  then obtain b where b: "session_input_step True (\<lambda>_. None) example_crypto 1 ?d = Some b"
    by (auto split: option.splits)
  have free: "case ol_attempts (the (session_input_step True (\<lambda>_. None) example_crypto 1 ?d)) 0 of None \<Rightarrow> True | Some _ \<Rightarrow> False"
    "case ol_conns (outlet_input 0 ex_request (the (session_input_step True (\<lambda>_. None) example_crypto 1 ?d))) 1 of
       None \<Rightarrow> True | Some _ \<Rightarrow> False" by code_simp+
  have "outlet_run False (insert 1 (insert 1 {})) (ex_installed 0 1 b)"
    by (rule ex_installed_run [OF outlet_run.session [OF d b]]) (use free b in \<open>auto split: option.splits\<close>)
  then have "outlet_run False (insert 1 (insert 1 {})) ex_reused"
    unfolding ex_reused_def Let_def b option.sel by (intro outlet_run.read_ends outlet_run.finish outlet_run.answer)
  moreover have "map_option (\<lambda>cn. (cn_session cn, cn_open cn)) (ol_conns ex_reused 1) = Some (1, True)" by code_simp
  then obtain cn where "ol_conns ex_reused 1 = Some cn" "cn_session cn = 1" "cn_open cn" by auto
  moreover have "case ol_sessions ex_reused 1 of None \<Rightarrow> True | Some _ \<Rightarrow> False" by code_simp
  moreover have "case ol_attempts ex_reused 0 of None \<Rightarrow> True | Some _ \<Rightarrow> False" by code_simp
  ultimately show ?thesis
    by (intro exI [of _ "insert 1 (insert 1 {})"] exI [of _ ex_reused] exI [of _ cn]) (auto split: option.splits)
qed

end
