(* ===== verification/Proxy_Manager.thy ===== *)
theory Proxy_Manager
  imports Session_Common Model_Tunnel
begin

text \<open>
  \<open>internal/proxy/manager.go\<close>: the manager that keeps the inlets and outlets of a player (or of the server,
  whose number is 0) in step with the tunnels, and routes the proxy messages between them.

  An inlet or outlet is what the manager knows of it: the tunnel its output function was made with and
  the description it was started with.  What the manager does to the outside (inputs, stops, reports,
  messages sent) is a list of effects in the order of the calls.  How the outside answers is an argument:
  \<open>mgr_env\<close> for the start of an inlet, a boolean for \<open>sendRemote\<close>.  The manager's methods are called one
  after the other; the lists \<open>os\<close> and \<open>is\<close> are the orders in which the iterations over the maps visit them.
\<close>

section \<open>State\<close>

record component =
  co_tunnel :: pb_tunnel
  co_description :: string

datatype runtime_component = Component_Inlet | Component_Outlet

datatype manager_effect =
    Outlet_Input tunnel_id proxy_message
  | Inlet_Input tunnel_id proxy_message
  | Stop_Component runtime_component tunnel_id
  | Report tunnel_id runtime_component bool string
  | Send_Remote player_id message

record proxy_manager =
  px_self :: player_id
  px_tunnels :: "tunnel_id \<rightharpoonup> pb_tunnel"
  px_inlets :: "tunnel_id \<rightharpoonup> component"
  px_outlets :: "tunnel_id \<rightharpoonup> component"
  px_report :: bool
  px_out :: "manager_effect list"

record mgr_env =
  me_random :: "byte list"
  me_error_text :: "crypto_error \<Rightarrow> string"
  me_start :: "pb_tunnel \<Rightarrow> string option"

definition new_proxy_manager :: "player_id \<Rightarrow> proxy_manager" where
  "new_proxy_manager self =
     \<lparr>px_self = self, px_tunnels = Map.empty, px_inlets = Map.empty, px_outlets = Map.empty,
      px_report = False, px_out = []\<rparr>"

definition set_runtime_reporter :: "bool \<Rightarrow> proxy_manager \<Rightarrow> proxy_manager" where
  "set_runtime_reporter report m = m\<lparr>px_report := report\<rparr>"

definition px_emit :: "manager_effect \<Rightarrow> proxy_manager \<Rightarrow> proxy_manager" where
  "px_emit e m = m\<lparr>px_out := px_out m @ [e]\<rparr>"

section \<open>Tunnels\<close>

definition point_addr :: "tunnel_point option \<Rightarrow> string" where
  "point_addr p = (case p of None \<Rightarrow> '''' | Some x \<Rightarrow> tp_addr x)"

definition pb_tunnel_to_model :: "pb_tunnel \<Rightarrow> tunnel" where
  "pb_tunnel_to_model t =
     \<lparr>t_id = pt_id t, t_source = point_addr (pt_source t), t_endpoint = point_addr (pt_endpoint t),
      t_enabled = pt_enabled t, t_sender = pt_sender t, t_receiver = pt_receiver t, t_description = '''',
      t_tunnel_type = wire_value (normalize_tunnel_type (pt_tunnel_type t)), t_password = pt_password t,
      t_username = pt_username t, t_is_compressed = pt_is_compressed t, t_custom_mapping = pt_custom_mapping t,
      t_encryption_method = pt_encryption_method t\<rparr>"

definition inlet_desc :: "pb_tunnel \<Rightarrow> string" where
  "inlet_desc t = inlet_description (pb_tunnel_to_model t)"

definition outlet_desc :: "pb_tunnel \<Rightarrow> string" where
  "outlet_desc t = outlet_description (pb_tunnel_to_model t)"

definition tunnel_mode_from_wire_value :: "i32 \<Rightarrow> tunnel_mode" where
  "tunnel_mode_from_wire_value v =
     (case normalize_tunnel_type v of
        TunnelTypeTCP \<Rightarrow> mode_tcp
      | TunnelTypeUDP \<Rightarrow> mode_udp
      | TunnelTypeSOCKS5 \<Rightarrow> mode_socks5
      | TunnelTypeHTTP \<Rightarrow> mode_http
      | TunnelTypeShadowsocks \<Rightarrow> mode_shadowsocks
      | TunnelTypeUnknown \<Rightarrow> mode_unknown)"

definition should_run_outlet :: "proxy_manager \<Rightarrow> pb_tunnel option \<Rightarrow> bool" where
  "should_run_outlet m t \<longleftrightarrow> (case t of None \<Rightarrow> False | Some t \<Rightarrow> pt_enabled t \<and> pt_sender t = px_self m)"

definition should_run_inlet :: "proxy_manager \<Rightarrow> pb_tunnel option \<Rightarrow> bool" where
  "should_run_inlet m t \<longleftrightarrow> (case t of None \<Rightarrow> False | Some t \<Rightarrow> pt_enabled t \<and> pt_receiver t = px_self m)"

definition should_stop_outlet :: "proxy_manager \<Rightarrow> component option \<Rightarrow> pb_tunnel option \<Rightarrow> bool" where
  "should_stop_outlet m c t \<longleftrightarrow>
     (case c of None \<Rightarrow> False
      | Some c \<Rightarrow> \<not> should_run_outlet m t \<or> co_description c \<noteq> outlet_desc (the t))"

definition should_stop_inlet :: "proxy_manager \<Rightarrow> component option \<Rightarrow> pb_tunnel option \<Rightarrow> bool" where
  "should_stop_inlet m c t \<longleftrightarrow>
     (case c of None \<Rightarrow> False
      | Some c \<Rightarrow> \<not> should_run_inlet m t \<or> co_description c \<noteq> inlet_desc (the t))"

section \<open>Starting and stopping\<close>

definition report_runtime :: "tunnel_id \<Rightarrow> runtime_component \<Rightarrow> bool \<Rightarrow> string \<Rightarrow> proxy_manager \<Rightarrow> proxy_manager" where
  "report_runtime i c running err m =
     (if i = 0 then m else if \<not> px_report m then m else px_emit (Report i c running err) m)"

definition start_outlet_if_needed :: "pb_tunnel \<Rightarrow> proxy_manager \<Rightarrow> proxy_manager" where
  "start_outlet_if_needed t m =
     (if \<not> should_run_outlet m (Some t) then m
      else let i = pt_id t; current = px_tunnels m i in
        if px_outlets m i \<noteq> None \<or> current = None \<or> \<not> should_run_outlet m current
           \<or> outlet_desc (the current) \<noteq> outlet_desc t then m
        else let installed = (px_outlets m i = None \<and> current \<noteq> None \<and> should_run_outlet m current
                   \<and> outlet_desc (the current) = outlet_desc t)
          in if installed
             then report_runtime i Component_Outlet True ''''
               (m\<lparr>px_outlets := (px_outlets m)(i \<mapsto> \<lparr>co_tunnel = t, co_description = outlet_desc t\<rparr>)\<rparr>)
             else m)"

text \<open>The method of the common part, and \<open>Inlet.Start\<close> as it turns out.\<close>

definition common_method :: "pb_tunnel \<Rightarrow> string" where
  "common_method t =
     (if tunnel_mode_from_wire_value (pt_tunnel_type t) = mode_shadowsocks then encryption_none
      else pt_encryption_method t)"

definition inlet_start_error :: "mgr_env \<Rightarrow> pb_tunnel \<Rightarrow> string option" where
  "inlet_start_error env t =
     (case new_session_common_info_from_name (pt_is_compressed t) (common_method t) (me_random env) of
        Inl e \<Rightarrow> Some (me_error_text env e)
      | Inr common \<Rightarrow> me_start env t)"

definition start_inlet_if_needed :: "mgr_env \<Rightarrow> pb_tunnel \<Rightarrow> proxy_manager \<Rightarrow> proxy_manager" where
  "start_inlet_if_needed env t m =
     (if \<not> should_run_inlet m (Some t) then m
      else let i = pt_id t; current = px_tunnels m i in
        if px_inlets m i \<noteq> None \<or> current = None \<or> \<not> should_run_inlet m current
           \<or> inlet_desc (the current) \<noteq> inlet_desc t then m
        else (case inlet_start_error env t of
                Some err \<Rightarrow> report_runtime i Component_Inlet False err m
              | None \<Rightarrow>
                  let installed = (px_inlets m i = None \<and> current \<noteq> None \<and> should_run_inlet m current
                         \<and> inlet_desc (the current) = inlet_desc t)
                  in if installed
                     then report_runtime i Component_Inlet True ''''
                       (m\<lparr>px_inlets := (px_inlets m)(i \<mapsto> \<lparr>co_tunnel = t, co_description = inlet_desc t\<rparr>)\<rparr>)
                     else report_runtime i Component_Inlet False '''' (px_emit (Stop_Component Component_Inlet i) m)))"

definition stop_outlet_component :: "tunnel_id \<Rightarrow> proxy_manager \<Rightarrow> proxy_manager" where
  "stop_outlet_component i m =
     report_runtime i Component_Outlet False '''' (px_emit (Stop_Component Component_Outlet i) m)"

definition stop_inlet_component :: "tunnel_id \<Rightarrow> proxy_manager \<Rightarrow> proxy_manager" where
  "stop_inlet_component i m =
     report_runtime i Component_Inlet False '''' (px_emit (Stop_Component Component_Inlet i) m)"

section \<open>Following the tunnels\<close>

fun want_of :: "pb_tunnel option list \<Rightarrow> tunnel_id \<rightharpoonup> pb_tunnel" where
  "want_of [] = Map.empty"
| "want_of (None # ts) = want_of ts"
| "want_of (Some t # ts) = (\<lambda>i. case want_of ts i of None \<Rightarrow> if i = pt_id t then Some t else None | Some u \<Rightarrow> Some u)"

fun start_tunnels :: "mgr_env \<Rightarrow> pb_tunnel option list \<Rightarrow> proxy_manager \<Rightarrow> proxy_manager" where
  "start_tunnels env [] m = m"
| "start_tunnels env (None # ts) m = start_tunnels env ts m"
| "start_tunnels env (Some t # ts) m =
     start_tunnels env ts (start_inlet_if_needed env t (start_outlet_if_needed t m))"

definition sync_tunnels ::
  "mgr_env \<Rightarrow> tunnel_id list \<Rightarrow> tunnel_id list \<Rightarrow> pb_tunnel option list \<Rightarrow> proxy_manager \<Rightarrow> proxy_manager" where
  "sync_tunnels env os is tunnels m =
     (let want = want_of tunnels;
          m = m\<lparr>px_tunnels := want\<rparr>;
          stop_os = filter (\<lambda>i. should_stop_outlet m (px_outlets m i) (want i)) os;
          stop_is = filter (\<lambda>i. should_stop_inlet m (px_inlets m i) (want i)) is;
          m = m\<lparr>px_outlets := (\<lambda>i. if i \<in> set stop_os then None else px_outlets m i),
                px_inlets := (\<lambda>i. if i \<in> set stop_is then None else px_inlets m i)\<rparr>;
          m = fold stop_outlet_component stop_os m;
          m = fold stop_inlet_component stop_is m
      in start_tunnels env tunnels m)"

definition px_close :: "mgr_env \<Rightarrow> tunnel_id list \<Rightarrow> tunnel_id list \<Rightarrow> proxy_manager \<Rightarrow> proxy_manager" where
  "px_close env os is m = sync_tunnels env os is [] m"

definition reaffirm_runtime :: "tunnel_id \<Rightarrow> proxy_manager \<Rightarrow> proxy_manager" where
  "reaffirm_runtime i m =
     (if i = 0 then m
      else let has_outlet = px_outlets m i \<noteq> None; has_inlet = px_inlets m i \<noteq> None;
               m = (if has_outlet then report_runtime i Component_Outlet True '''' m else m)
        in if has_inlet then report_runtime i Component_Inlet True '''' m else m)"

definition update_tunnel :: "mgr_env \<Rightarrow> modify_tunnel_ntf option \<Rightarrow> proxy_manager \<Rightarrow> proxy_manager" where
  "update_tunnel env msg m =
     (case msg of
        None \<Rightarrow> m
      | Some ntf \<Rightarrow>
          (case mt_tunnel ntf of
             None \<Rightarrow> m
           | Some t \<Rightarrow>
               let i = pt_id t;
                   m = m\<lparr>px_tunnels := (px_tunnels m)(i := (if mt_is_delete ntf then None else Some t))\<rparr>;
                   current = px_tunnels m i;
                   stop_o = should_stop_outlet m (px_outlets m i) current;
                   stop_i = should_stop_inlet m (px_inlets m i) current;
                   m = (if stop_o then m\<lparr>px_outlets := (px_outlets m)(i := None)\<rparr> else m);
                   m = (if stop_i then m\<lparr>px_inlets := (px_inlets m)(i := None)\<rparr> else m);
                   m = (if stop_o then stop_outlet_component i m else m);
                   m = (if stop_i then stop_inlet_component i m else m)
               in if mt_is_delete ntf then m
                  else reaffirm_runtime i (start_inlet_if_needed env t (start_outlet_if_needed t m))))"

section \<open>Routing\<close>

definition local_input :: "tunnel_id \<Rightarrow> proxy_message \<Rightarrow> proxy_manager \<Rightarrow> proxy_manager" where
  "local_input i msg m =
     (if is_i2o_message msg then (if px_outlets m i \<noteq> None then px_emit (Outlet_Input i msg) m else m)
      else (if px_inlets m i \<noteq> None then px_emit (Inlet_Input i msg) m else m))"

definition handle_pb :: "message \<Rightarrow> proxy_manager \<Rightarrow> proxy_manager" where
  "handle_pb message m =
     (case bridge_from_pb message of
        None \<Rightarrow> m
      | Some (msg, i) \<Rightarrow>
          (case px_tunnels m i of
             None \<Rightarrow> m
           | Some t \<Rightarrow>
               let player = (if is_i2o_message msg then pt_sender t else pt_receiver t) in
               if player = px_self m then local_input i msg m else m))"

definition offline_reply_for_remote_message :: "tunnel_id \<Rightarrow> player_id \<Rightarrow> proxy_message \<Rightarrow> proxy_message option" where
  "offline_reply_for_remote_message i target msg =
     (case msg of
        I2OConnect _ s _ _ _ _ _ _ _ \<Rightarrow>
          Some (O2IConnect i s False (''no player '' @ u32_str target @ '' or the player is offline''))
      | I2OSendData _ s _ \<Rightarrow> Some (O2IDisconnect i s)
      | I2ORecvDataResult _ s _ \<Rightarrow> Some (O2IDisconnect i s)
      | O2IConnect _ s _ _ \<Rightarrow> Some (I2ODisconnect i s)
      | O2IRecvData _ s _ \<Rightarrow> Some (I2ODisconnect i s)
      | O2ISendDataResult _ s _ \<Rightarrow> Some (I2ODisconnect i s)
      | _ \<Rightarrow> None)"

definition handle_remote_send_failure ::
  "tunnel_id \<Rightarrow> player_id \<Rightarrow> proxy_message \<Rightarrow> proxy_manager \<Rightarrow> bool \<times> proxy_manager" where
  "handle_remote_send_failure i target msg m =
     (if px_self m \<noteq> 0 then (False, m)
      else (case offline_reply_for_remote_message i target msg of
              None \<Rightarrow> (False, m)
            | Some reply \<Rightarrow> (True, local_input i reply m)))"

text \<open>\<open>t\<close> is the tunnel the inlet's or outlet's output function was made with; \<open>ok\<close> is whether \<open>sendRemote\<close>
  succeeds.\<close>

definition route_proxy_message :: "bool \<Rightarrow> pb_tunnel \<Rightarrow> proxy_message \<Rightarrow> proxy_manager \<Rightarrow> proxy_manager" where
  "route_proxy_message ok t msg m =
     (if pt_sender t = pt_receiver t then local_input (pt_id t) msg m
      else let target = (if is_i2o_message msg then pt_sender t else pt_receiver t);
               m = px_emit (Send_Remote target (bridge_to_pb msg)) m
        in if ok then m else snd (handle_remote_send_failure (pt_id t) target msg m))"

section \<open>What is reported\<close>

fun first_report :: "tunnel_id \<Rightarrow> runtime_component \<Rightarrow> manager_effect list \<Rightarrow> bool option" where
  "first_report i c [] = None"
| "first_report i c (Report j d running err # es) = (if j = i \<and> d = c then Some running else first_report i c es)"
| "first_report i c (_ # es) = first_report i c es"

definition last_report :: "proxy_manager \<Rightarrow> tunnel_id \<Rightarrow> runtime_component \<Rightarrow> bool option" where
  "last_report m i c = first_report i c (rev (px_out m))"

lemma px_emit_fields [simp]:
  "px_self (px_emit e m) = px_self m" "px_tunnels (px_emit e m) = px_tunnels m" "px_inlets (px_emit e m) = px_inlets m"
  "px_outlets (px_emit e m) = px_outlets m" "px_report (px_emit e m) = px_report m"
  by (simp_all add: px_emit_def)

lemma last_report_emit [simp]:
  "last_report (px_emit (Report j d running err) m) i c = (if j = i \<and> d = c then Some running else last_report m i c)"
  "last_report (px_emit (Stop_Component d j) m) i c = last_report m i c"
  "last_report (px_emit (Outlet_Input j x) m) i c = last_report m i c"
  "last_report (px_emit (Inlet_Input j x) m) i c = last_report m i c"
  "last_report (px_emit (Send_Remote p y) m) i c = last_report m i c"
  by (simp_all add: last_report_def px_emit_def)

lemma last_report_fields [simp]:
  "last_report (m\<lparr>px_outlets := f\<rparr>) i c = last_report m i c" "last_report (m\<lparr>px_inlets := f\<rparr>) i c = last_report m i c"
  "last_report (m\<lparr>px_tunnels := g\<rparr>) i c = last_report m i c"
  by (simp_all add: last_report_def)

lemma report_fields [simp]:
  "px_self (report_runtime j d r err m) = px_self m" "px_tunnels (report_runtime j d r err m) = px_tunnels m"
  "px_inlets (report_runtime j d r err m) = px_inlets m" "px_outlets (report_runtime j d r err m) = px_outlets m"
  "px_report (report_runtime j d r err m) = px_report m"
  by (simp_all add: report_runtime_def)

lemma last_report_report [simp]:
  "last_report (report_runtime j d r err m) i c =
     (if j \<noteq> 0 \<and> px_report m \<and> j = i \<and> d = c then Some r else last_report m i c)"
  by (simp add: report_runtime_def)

lemma should_run_self:
  "px_self m' = px_self m \<Longrightarrow> should_run_outlet m' t = should_run_outlet m t"
  "px_self m' = px_self m \<Longrightarrow> should_run_inlet m' t = should_run_inlet m t"
  by (cases t; simp add: should_run_outlet_def should_run_inlet_def)+

section \<open>The invariant\<close>

text \<open>Tunnels are kept under their ids; what runs is wanted and up to date; what is reported is what runs;
  every outlet that is wanted runs.\<close>

definition keyed :: "proxy_manager \<Rightarrow> bool" where
  "keyed m \<longleftrightarrow> (\<forall>i t. px_tunnels m i = Some t \<longrightarrow> pt_id t = i)"

definition outlets_fit :: "proxy_manager \<Rightarrow> bool" where
  "outlets_fit m \<longleftrightarrow> (\<forall>i x. px_outlets m i = Some x \<longrightarrow>
     should_run_outlet m (px_tunnels m i) \<and> co_description x = outlet_desc (the (px_tunnels m i)))"

definition inlets_fit :: "proxy_manager \<Rightarrow> bool" where
  "inlets_fit m \<longleftrightarrow> (\<forall>i x. px_inlets m i = Some x \<longrightarrow>
     should_run_inlet m (px_tunnels m i) \<and> co_description x = inlet_desc (the (px_tunnels m i)))"

definition px_reported :: "proxy_manager \<Rightarrow> bool" where
  "px_reported m \<longleftrightarrow> px_report m \<and>
     (\<forall>i. i \<noteq> 0 \<longrightarrow> (last_report m i Component_Outlet = Some True) = (px_outlets m i \<noteq> None)) \<and>
     (\<forall>i. i \<noteq> 0 \<longrightarrow> (last_report m i Component_Inlet = Some True) = (px_inlets m i \<noteq> None))"

definition complete :: "proxy_manager \<Rightarrow> bool" where
  "complete m \<longleftrightarrow> (\<forall>i. should_run_outlet m (px_tunnels m i) \<longrightarrow> px_outlets m i \<noteq> None)"

definition manager_ok :: "proxy_manager \<Rightarrow> bool" where
  "manager_ok m \<longleftrightarrow> keyed m \<and> outlets_fit m \<and> inlets_fit m \<and> px_reported m"

lemma manager_okD:
  assumes "manager_ok m"
  shows "px_tunnels m i = Some t \<Longrightarrow> pt_id t = i"
    and "px_outlets m i = Some x \<Longrightarrow> should_run_outlet m (px_tunnels m i) \<and> co_description x = outlet_desc (the (px_tunnels m i))"
    and "px_inlets m i = Some x \<Longrightarrow> should_run_inlet m (px_tunnels m i) \<and> co_description x = inlet_desc (the (px_tunnels m i))"
    and "px_report m"
    and "i \<noteq> 0 \<Longrightarrow> (last_report m i Component_Outlet = Some True) = (px_outlets m i \<noteq> None)"
    and "i \<noteq> 0 \<Longrightarrow> (last_report m i Component_Inlet = Some True) = (px_inlets m i \<noteq> None)"
  using assms unfolding manager_ok_def keyed_def outlets_fit_def inlets_fit_def px_reported_def by blast+

lemma manager_okI:
  assumes "\<And>i t. px_tunnels m i = Some t \<Longrightarrow> pt_id t = i"
    and "\<And>i x. px_outlets m i = Some x \<Longrightarrow> should_run_outlet m (px_tunnels m i) \<and> co_description x = outlet_desc (the (px_tunnels m i))"
    and "\<And>i x. px_inlets m i = Some x \<Longrightarrow> should_run_inlet m (px_tunnels m i) \<and> co_description x = inlet_desc (the (px_tunnels m i))"
    and "px_report m"
    and "\<And>i. i \<noteq> 0 \<Longrightarrow> (last_report m i Component_Outlet = Some True) = (px_outlets m i \<noteq> None)"
    and "\<And>i. i \<noteq> 0 \<Longrightarrow> (last_report m i Component_Inlet = Some True) = (px_inlets m i \<noteq> None)"
  shows "manager_ok m"
  using assms unfolding manager_ok_def keyed_def outlets_fit_def inlets_fit_def px_reported_def by blast

text \<open>A change of the effects alone.\<close>

lemma manager_ok_same:
  assumes "manager_ok m" "px_self m' = px_self m" "px_tunnels m' = px_tunnels m" "px_inlets m' = px_inlets m"
    "px_outlets m' = px_outlets m" "px_report m' = px_report m" "last_report m' = last_report m"
  shows "manager_ok m'"
  using manager_okD [OF assms(1)] by (intro manager_okI) (auto simp: assms(2-) should_run_self [OF assms(2)])

lemma start_outlet_ok:
  assumes ok: "manager_ok m"
  shows "manager_ok (start_outlet_if_needed t m)"
proof (cases "should_run_outlet m (Some t) \<and> px_outlets m (pt_id t) = None \<and>
    (\<exists>u. px_tunnels m (pt_id t) = Some u \<and> should_run_outlet m (Some u) \<and> outlet_desc u = outlet_desc t)")
  case True
  then obtain u where u: "px_tunnels m (pt_id t) = Some u" "should_run_outlet m (Some u)" "outlet_desc u = outlet_desc t"
    by blast
  let ?m = "report_runtime (pt_id t) Component_Outlet True ''''
      (m\<lparr>px_outlets := (px_outlets m)(pt_id t \<mapsto> \<lparr>co_tunnel = t, co_description = outlet_desc t\<rparr>)\<rparr>)"
  have eq: "start_outlet_if_needed t m = ?m" using True u by (simp add: start_outlet_if_needed_def Let_def)
  note d = manager_okD [OF ok]
  have self: "px_self ?m = px_self m" by simp
  show ?thesis unfolding eq
  proof (rule manager_okI, goal_cases)
    case (2 i x) then show ?case using d(2) [of i] u by (auto simp: should_run_self [OF self] split: if_splits)
  next
    case (3 i x) then show ?case using d(3) [of i] by (auto simp: should_run_self [OF self])
  next
    case (5 i) then show ?case using d(4) d(5) [of i] by auto
  next
    case (6 i) then show ?case using d(4) d(6) [of i] by auto
  qed (use d in auto)
next
  case False
  then have "start_outlet_if_needed t m = m" by (auto simp: start_outlet_if_needed_def Let_def)
  with ok show ?thesis by simp
qed

lemma start_inlet_ok:
  assumes ok: "manager_ok m"
  shows "manager_ok (start_inlet_if_needed env t m)"
proof (cases "should_run_inlet m (Some t) \<and> px_inlets m (pt_id t) = None \<and>
    (\<exists>u. px_tunnels m (pt_id t) = Some u \<and> should_run_inlet m (Some u) \<and> inlet_desc u = inlet_desc t)")
  case True
  then obtain u where u: "px_tunnels m (pt_id t) = Some u" "should_run_inlet m (Some u)" "inlet_desc u = inlet_desc t"
    by blast
  note d = manager_okD [OF ok]
  show ?thesis
  proof (cases "inlet_start_error env t")
    case None
    let ?m = "report_runtime (pt_id t) Component_Inlet True ''''
        (m\<lparr>px_inlets := (px_inlets m)(pt_id t \<mapsto> \<lparr>co_tunnel = t, co_description = inlet_desc t\<rparr>)\<rparr>)"
    have eq: "start_inlet_if_needed env t m = ?m" using True u None by (simp add: start_inlet_if_needed_def Let_def)
    have self: "px_self ?m = px_self m" by simp
    show ?thesis unfolding eq
    proof (rule manager_okI, goal_cases)
      case (2 i x) then show ?case using d(2) [of i] by (auto simp: should_run_self [OF self])
    next
      case (3 i x) then show ?case using d(3) [of i] u by (auto simp: should_run_self [OF self] split: if_splits)
    next
      case (5 i) then show ?case using d(4) d(5) [of i] by auto
    next
      case (6 i) then show ?case using d(4) d(6) [of i] by auto
    qed (use d in auto)
  next
    case (Some err)
    let ?m = "report_runtime (pt_id t) Component_Inlet False err m"
    have eq: "start_inlet_if_needed env t m = ?m" using True u Some by (simp add: start_inlet_if_needed_def Let_def)
    have self: "px_self ?m = px_self m" by simp
    show ?thesis unfolding eq
    proof (rule manager_okI, goal_cases)
      case (2 i x) then show ?case using d(2) [of i] by (auto simp: should_run_self [OF self])
    next
      case (3 i x) then show ?case using d(3) [of i] by (auto simp: should_run_self [OF self])
    next
      case (5 i) then show ?case using d(5) [of i] by auto
    next
      case (6 i) then show ?case using True d(6) [of i] by auto
    qed (use d in auto)
  qed
next
  case False
  then have "start_inlet_if_needed env t m = m" by (auto simp: start_inlet_if_needed_def Let_def)
  with ok show ?thesis by simp
qed

text \<open>Starting changes neither the tunnels nor the self, and outlets only come.\<close>

lemma start_same [simp]:
  "px_tunnels (start_outlet_if_needed t m) = px_tunnels m" "px_self (start_outlet_if_needed t m) = px_self m"
  "px_tunnels (start_inlet_if_needed env t m) = px_tunnels m" "px_self (start_inlet_if_needed env t m) = px_self m"
  "px_outlets (start_inlet_if_needed env t m) = px_outlets m"
  "px_inlets (start_outlet_if_needed t m) = px_inlets m"
  "px_report (start_outlet_if_needed t m) = px_report m" "px_report (start_inlet_if_needed env t m) = px_report m"
  by (auto simp: start_outlet_if_needed_def start_inlet_if_needed_def Let_def split: option.split)

lemma start_outlet_keeps: "px_outlets m i \<noteq> None \<Longrightarrow> px_outlets (start_outlet_if_needed t m) i \<noteq> None"
  by (auto simp: start_outlet_if_needed_def Let_def)

lemma start_outlet_runs:
  "should_run_outlet m (Some t) \<Longrightarrow> px_tunnels m (pt_id t) = Some t \<Longrightarrow>
   px_outlets (start_outlet_if_needed t m) (pt_id t) \<noteq> None"
  by (auto simp: start_outlet_if_needed_def Let_def)

lemma start_tunnels_ok: "manager_ok m \<Longrightarrow> manager_ok (start_tunnels env ts m)"
  by (induction env ts m rule: start_tunnels.induct) (auto intro: start_inlet_ok start_outlet_ok)

lemma start_tunnels_keeps:
  "px_tunnels (start_tunnels env ts m) = px_tunnels m \<and> px_self (start_tunnels env ts m) = px_self m \<and>
   (px_outlets m i \<noteq> None \<longrightarrow> px_outlets (start_tunnels env ts m) i \<noteq> None)"
proof (induction env ts m rule: start_tunnels.induct)
  case (3 env t ts m)
  then show ?case using start_outlet_keeps [of m i t] by auto
qed auto

lemma start_tunnels_runs:
  "Some t \<in> set ts \<Longrightarrow> should_run_outlet m (Some t) \<Longrightarrow> px_tunnels m (pt_id t) = Some t \<Longrightarrow>
   px_outlets (start_tunnels env ts m) (pt_id t) \<noteq> None"
proof (induction env ts m rule: start_tunnels.induct)
  case (3 env u ts m)
  let ?m = "start_inlet_if_needed env u (start_outlet_if_needed u m)"
  show ?case
  proof (cases "u = t")
    case True
    then have "px_outlets ?m (pt_id t) \<noteq> None" using start_outlet_runs [OF 3(3,4)] by simp
    then show ?thesis using start_tunnels_keeps [of env ts ?m "pt_id t"] by simp
  next
    case False
    have "should_run_outlet ?m (Some t)" using 3(3) by (subst should_run_self(1) [of ?m m]) simp_all
    with 3 False show ?thesis by simp
  qed
qed auto

lemma want_of_mem: "want_of ts i = Some t \<Longrightarrow> Some t \<in> set ts \<and> pt_id t = i"
  by (induction ts rule: want_of.induct) (auto split: option.splits if_splits)

lemma stop_fold:
  "px_tunnels (fold stop_outlet_component js m) = px_tunnels m \<and> px_self (fold stop_outlet_component js m) = px_self m \<and>
   px_inlets (fold stop_outlet_component js m) = px_inlets m \<and> px_outlets (fold stop_outlet_component js m) = px_outlets m \<and>
   px_report (fold stop_outlet_component js m) = px_report m \<and>
   (px_report m \<longrightarrow> i \<noteq> 0 \<longrightarrow> last_report (fold stop_outlet_component js m) i c =
      (if i \<in> set js \<and> c = Component_Outlet then Some False else last_report m i c))"
  "px_tunnels (fold stop_inlet_component js m) = px_tunnels m \<and> px_self (fold stop_inlet_component js m) = px_self m \<and>
   px_inlets (fold stop_inlet_component js m) = px_inlets m \<and> px_outlets (fold stop_inlet_component js m) = px_outlets m \<and>
   px_report (fold stop_inlet_component js m) = px_report m \<and>
   (px_report m \<longrightarrow> i \<noteq> 0 \<longrightarrow> last_report (fold stop_inlet_component js m) i c =
      (if i \<in> set js \<and> c = Component_Inlet then Some False else last_report m i c))"
  by (induction js arbitrary: m) (auto simp: stop_outlet_component_def stop_inlet_component_def)

lemma sync_ok:
  assumes ok: "manager_ok m" and enum: "dom (px_outlets m) \<subseteq> set os" "dom (px_inlets m) \<subseteq> set is"
  shows "manager_ok (sync_tunnels env os is ts m) \<and> complete (sync_tunnels env os is ts m)"
proof -
  let ?want = "want_of ts"
  let ?m1 = "m\<lparr>px_tunnels := ?want\<rparr>"
  let ?so = "filter (\<lambda>i. should_stop_outlet ?m1 (px_outlets m i) (?want i)) os"
  let ?si = "filter (\<lambda>i. should_stop_inlet ?m1 (px_inlets m i) (?want i)) is"
  let ?m2 = "?m1\<lparr>px_outlets := (\<lambda>i. if i \<in> set ?so then None else px_outlets m i),
                px_inlets := (\<lambda>i. if i \<in> set ?si then None else px_inlets m i)\<rparr>"
  let ?m3 = "fold stop_inlet_component ?si (fold stop_outlet_component ?so ?m2)"
  have eq: "sync_tunnels env os is ts m = start_tunnels env ts ?m3" by (simp add: sync_tunnels_def Let_def cong: if_cong)
  note d = manager_okD [OF ok]
  have same: "px_tunnels ?m3 = ?want" "px_self ?m3 = px_self m" "px_report ?m3"
    "px_outlets ?m3 = (\<lambda>i. if i \<in> set ?so then None else px_outlets m i)"
    "px_inlets ?m3 = (\<lambda>i. if i \<in> set ?si then None else px_inlets m i)"
    using d(4) stop_fold by auto
  have rep: "last_report ?m3 i c = (if i \<in> set ?si \<and> c = Component_Inlet then Some False
      else if i \<in> set ?so \<and> c = Component_Outlet then Some False else last_report m i c)" if "i \<noteq> 0" for i c
    using that d(4) stop_fold [of _ ?m2 i c] stop_fold [of _ "fold stop_outlet_component ?so ?m2" i c] by auto
  have ok3: "manager_ok ?m3"
  proof (rule manager_okI, goal_cases)
    case (1 i t) then show ?case using want_of_mem same(1) by auto
  next
    case (2 i x)
    then have x: "px_outlets m i = Some x" "i \<notin> set ?so" unfolding same by (auto split: if_splits)
    then have "\<not> should_stop_outlet ?m1 (px_outlets m i) (?want i)" using enum(1) by auto
    then show ?case using x unfolding same should_run_self(1) [OF same(2)]
      by (auto simp: should_stop_outlet_def should_run_self(1) [of ?m1 m])
  next
    case (3 i x)
    then have x: "px_inlets m i = Some x" "i \<notin> set ?si" unfolding same by (auto split: if_splits)
    then have "\<not> should_stop_inlet ?m1 (px_inlets m i) (?want i)" using enum(2) by auto
    then show ?case using x unfolding same should_run_self(2) [OF same(2)]
      by (auto simp: should_stop_inlet_def should_run_self(2) [of ?m1 m])
  next
    case (5 i) then show ?case unfolding rep [OF 5] same using d(5) [of i] by auto
  next
    case (6 i) then show ?case unfolding rep [OF 6] same using d(6) [of i] by auto
  qed (fact same)
  have "px_outlets (start_tunnels env ts ?m3) i \<noteq> None"
    if "should_run_outlet (start_tunnels env ts ?m3) (px_tunnels (start_tunnels env ts ?m3) i)" for i
  proof -
    note k = start_tunnels_keeps [of env ts ?m3 i]
    from that k same obtain t where t: "?want i = Some t" by (cases "?want i") (auto simp: should_run_outlet_def)
    with want_of_mem have mem: "Some t \<in> set ts" "pt_id t = i" by auto
    have "should_run_outlet ?m3 (Some t)" using that k t same should_run_self(1) [of "start_tunnels env ts ?m3" ?m3] by simp
    from start_tunnels_runs [OF mem(1) this, of env] mem(2) t same show ?thesis by simp
  qed
  with start_tunnels_ok [OF ok3] show ?thesis by (simp add: eq complete_def)
qed

lemma reaffirm_ok:
  assumes ok: "manager_ok m"
  shows "manager_ok (reaffirm_runtime i m)"
proof -
  have say: "manager_ok (report_runtime i c True '''' m)"
    if "manager_ok m" "case c of Component_Outlet \<Rightarrow> px_outlets m i \<noteq> None | Component_Inlet \<Rightarrow> px_inlets m i \<noteq> None" for m c
  proof (rule manager_okI, goal_cases)
    case (5 j) then show ?case using that(2) manager_okD(5) [OF that(1), of j] by (auto split: runtime_component.splits)
  next
    case (6 j) then show ?case using that(2) manager_okD(6) [OF that(1), of j] by (auto split: runtime_component.splits)
  qed (use manager_okD [OF that(1)] in \<open>auto simp: should_run_self [of "report_runtime i c True '''' m" m]\<close>)
  show ?thesis using ok by (auto simp: reaffirm_runtime_def Let_def intro!: say)
qed

lemma reaffirm_same [simp]:
  "px_tunnels (reaffirm_runtime i m) = px_tunnels m" "px_self (reaffirm_runtime i m) = px_self m"
  "px_outlets (reaffirm_runtime i m) = px_outlets m"
  by (simp_all add: reaffirm_runtime_def Let_def)

lemma stop_component_same [simp]:
  "px_tunnels (stop_outlet_component i m) = px_tunnels m" "px_self (stop_outlet_component i m) = px_self m"
  "px_inlets (stop_outlet_component i m) = px_inlets m" "px_outlets (stop_outlet_component i m) = px_outlets m"
  "px_report (stop_outlet_component i m) = px_report m"
  "px_tunnels (stop_inlet_component i m) = px_tunnels m" "px_self (stop_inlet_component i m) = px_self m"
  "px_inlets (stop_inlet_component i m) = px_inlets m" "px_outlets (stop_inlet_component i m) = px_outlets m"
  "px_report (stop_inlet_component i m) = px_report m"
  by (simp_all add: stop_outlet_component_def stop_inlet_component_def)

lemma stop_component_report:
  "i \<noteq> 0 \<Longrightarrow> px_report m \<Longrightarrow> last_report (stop_outlet_component j m) i c =
    (if j = i \<and> c = Component_Outlet then Some False else last_report m i c)"
  "i \<noteq> 0 \<Longrightarrow> px_report m \<Longrightarrow> last_report (stop_inlet_component j m) i c =
    (if j = i \<and> c = Component_Inlet then Some False else last_report m i c)"
  by (auto simp: stop_outlet_component_def stop_inlet_component_def)

text \<open>The first half of \<open>UpdateTunnel\<close>: the new tunnel, and what no longer fits it stopped.\<close>

lemma update_stops_ok:
  assumes ok: "manager_ok m" and t: "\<forall>t. u = Some t \<longrightarrow> pt_id t = i"
    and m1: "m1 = m\<lparr>px_tunnels := (px_tunnels m)(i := u)\<rparr>"
    and so: "so = should_stop_outlet m1 (px_outlets m1 i) u" and si: "si = should_stop_inlet m1 (px_inlets m1 i) u"
    and m2: "m2 = (if so then m1\<lparr>px_outlets := (px_outlets m1)(i := None)\<rparr> else m1)"
    and m3: "m3 = (if si then m2\<lparr>px_inlets := (px_inlets m2)(i := None)\<rparr> else m2)"
    and m4: "m4 = (if so then stop_outlet_component i m3 else m3)"
    and m5: "m5 = (if si then stop_inlet_component i m4 else m4)"
  shows "manager_ok m5"
    and "px_tunnels m5 = (px_tunnels m)(i := u)" "px_self m5 = px_self m"
    and "px_outlets m5 j \<noteq> None \<longleftrightarrow> px_outlets m j \<noteq> None \<and> \<not> (j = i \<and> so)"
proof -
  note d = manager_okD [OF ok]
  have same: "px_tunnels m5 = (px_tunnels m)(i := u)" "px_self m5 = px_self m" "px_report m5"
    "px_outlets m5 = (if so then (px_outlets m)(i := None) else px_outlets m)"
    "px_inlets m5 = (if si then (px_inlets m)(i := None) else px_inlets m)"
    using d(4) by (simp_all add: m1 m2 m3 m4 m5)
  have rep: "last_report m5 j c = (if j = i \<and> so \<and> c = Component_Outlet then Some False
      else if j = i \<and> si \<and> c = Component_Inlet then Some False else last_report m j c)" if "j \<noteq> 0" for j c
    using that d(4) by (auto simp: m1 m2 m3 m4 m5 stop_component_report)
  have run: "should_run_outlet m1 x = should_run_outlet m x" "should_run_inlet m1 x = should_run_inlet m x" for x
    using should_run_self [of m1 m x] by (simp_all add: m1)
  show "manager_ok m5"
  proof (rule manager_okI, goal_cases)
    case (1 j t') then show ?case using t d(1) by (auto simp: same split: if_splits)
  next
    case (2 j x)
    then have x: "px_outlets m j = Some x" "j = i \<Longrightarrow> \<not> so" by (auto simp: same split: if_splits)
    then show ?case unfolding same should_run_self(1) [OF same(2)] using d(2) [of j x] so
      by (auto simp: should_stop_outlet_def m1 should_run_self [of "m\<lparr>px_tunnels := (px_tunnels m)(i := u)\<rparr>" m])
  next
    case (3 j x)
    then have x: "px_inlets m j = Some x" "j = i \<Longrightarrow> \<not> si" by (auto simp: same split: if_splits)
    then show ?case unfolding same should_run_self(2) [OF same(2)] using d(3) [of j x] si
      by (auto simp: should_stop_inlet_def m1 should_run_self [of "m\<lparr>px_tunnels := (px_tunnels m)(i := u)\<rparr>" m])
  next
    case (5 j) then show ?case unfolding rep [OF 5] same using d(5) [of j] by auto
  next
    case (6 j) then show ?case unfolding rep [OF 6] same using d(6) [of j] by auto
  qed (fact same)
  show "px_tunnels m5 = (px_tunnels m)(i := u)" "px_self m5 = px_self m"
    "px_outlets m5 j \<noteq> None \<longleftrightarrow> px_outlets m j \<noteq> None \<and> \<not> (j = i \<and> so)"
    by (auto simp: same)
qed

lemma other_outlets:
  assumes "complete m" "px_tunnels m' = (px_tunnels m)(i := u)" "px_self m' = px_self m"
    "px_outlets m' j \<noteq> None \<longleftrightarrow> px_outlets m j \<noteq> None \<and> \<not> (j = i \<and> so)"
    "j \<noteq> i" "should_run_outlet m' (px_tunnels m' j)"
  shows "px_outlets m' j \<noteq> None"
proof -
  have "should_run_outlet m (px_tunnels m j)" using assms(5,6) unfolding should_run_self(1) [OF assms(3)] assms(2) by simp
  with assms(1,4,5) show ?thesis unfolding complete_def by blast
qed

lemma update_ok:
  assumes ok: "manager_ok m" and comp: "complete m"
  shows "manager_ok (update_tunnel env msg m) \<and> complete (update_tunnel env msg m)"
proof (cases "\<exists>ntf t. msg = Some ntf \<and> mt_tunnel ntf = Some t")
  case False
  with assms show ?thesis by (auto simp: update_tunnel_def split: option.split)
next
  case True
  then obtain ntf t where msg: "msg = Some ntf" "mt_tunnel ntf = Some t" by blast
  let ?i = "pt_id t" and ?u = "if mt_is_delete ntf then None else Some t"
  let ?m1 = "m\<lparr>px_tunnels := (px_tunnels m)(?i := ?u)\<rparr>"
  let ?so = "should_stop_outlet ?m1 (px_outlets ?m1 ?i) ?u" and ?si = "should_stop_inlet ?m1 (px_inlets ?m1 ?i) ?u"
  let ?m2 = "if ?so then ?m1\<lparr>px_outlets := (px_outlets ?m1)(?i := None)\<rparr> else ?m1"
  let ?m3 = "if ?si then ?m2\<lparr>px_inlets := (px_inlets ?m2)(?i := None)\<rparr> else ?m2"
  let ?m4 = "if ?so then stop_outlet_component ?i ?m3 else ?m3"
  let ?m5 = "if ?si then stop_inlet_component ?i ?m4 else ?m4"
  have u: "\<forall>t'. ?u = Some t' \<longrightarrow> pt_id t' = ?i" by simp
  note st = update_stops_ok [OF ok u refl refl refl refl refl refl refl]
  have eq: "update_tunnel env msg m = (if mt_is_delete ntf then ?m5
      else reaffirm_runtime ?i (start_inlet_if_needed env t (start_outlet_if_needed t ?m5)))"
    by (simp only: update_tunnel_def msg option.case Let_def) simp
  have run: "should_run_outlet ?m5 x = should_run_outlet m x" for x by (rule should_run_self(1) [OF st(3)])
  have others: "px_outlets ?m5 j \<noteq> None" if "j \<noteq> ?i" "should_run_outlet ?m5 (px_tunnels ?m5 j)" for j
    by (rule other_outlets [OF comp st(2,3,4) that])
  show ?thesis
  proof (cases "mt_is_delete ntf")
    case True
    have "complete ?m5" unfolding complete_def
    proof (intro allI impI)
      fix j assume j: "should_run_outlet ?m5 (px_tunnels ?m5 j)"
      with True have "j \<noteq> ?i" unfolding st(2) by (auto simp: should_run_outlet_def)
      then show "px_outlets ?m5 j \<noteq> None" using others j by blast
    qed
    with st(1) True eq show ?thesis by simp
  next
    case False
    let ?m6 = "start_outlet_if_needed t ?m5"
    let ?m7 = "start_inlet_if_needed env t ?m6"
    have "manager_ok ?m7" by (intro start_inlet_ok start_outlet_ok st(1))
    moreover have "complete ?m7" unfolding complete_def
    proof (intro allI impI)
      fix j assume "should_run_outlet ?m7 (px_tunnels ?m7 j)"
      then have j: "should_run_outlet ?m5 (px_tunnels ?m5 j)" using should_run_self(1) [of ?m7 ?m5] by simp
      have "px_outlets ?m6 j \<noteq> None"
      proof (cases "j = ?i")
        case True
        have tu: "px_tunnels ?m5 ?i = Some t" using False unfolding st(2) by simp
        from start_outlet_runs [of ?m5 t] j tu True show ?thesis by simp
      next
        case neq: False
        from start_outlet_keeps [OF others [OF neq j]] show ?thesis .
      qed
      then show "px_outlets ?m7 j \<noteq> None" by simp
    qed
    ultimately show ?thesis using False eq reaffirm_ok should_run_self(1) [of "reaffirm_runtime ?i ?m7" ?m7]
      by (simp add: complete_def)
  qed
qed

text \<open>The routing methods change the effects alone.\<close>

lemma emit_ok:
  assumes "manager_ok m" "complete m" "\<And>i c. last_report (px_emit e m) i c = last_report m i c"
  shows "manager_ok (px_emit e m) \<and> complete (px_emit e m)"
  using assms(2,3) manager_ok_same [OF assms(1), of "px_emit e m"] should_run_self(1) [of "px_emit e m" m]
  by (auto simp: complete_def fun_eq_iff)

lemma local_input_ok: "manager_ok m \<Longrightarrow> complete m \<Longrightarrow> manager_ok (local_input i msg m) \<and> complete (local_input i msg m)"
  using emit_ok [of m "Outlet_Input i msg"] emit_ok [of m "Inlet_Input i msg"] by (simp add: local_input_def)

lemma handle_pb_ok: "manager_ok m \<Longrightarrow> complete m \<Longrightarrow> manager_ok (handle_pb msg m) \<and> complete (handle_pb msg m)"
  using local_input_ok by (auto simp: handle_pb_def Let_def split: option.split)

lemma route_ok:
  assumes "manager_ok m" "complete m"
  shows "manager_ok (route_proxy_message ok t msg m) \<and> complete (route_proxy_message ok t msg m)"
proof -
  have sent: "manager_ok (px_emit (Send_Remote p x) m) \<and> complete (px_emit (Send_Remote p x) m)" for p x
    by (rule emit_ok [OF assms]) simp
  show ?thesis using assms sent local_input_ok
    by (auto simp: route_proxy_message_def handle_remote_send_failure_def Let_def split: option.split)
qed

section \<open>Histories\<close>

text \<open>A manager whose reporter is set before its first tunnels, and any sequence of calls of its methods: the
  iterations of \<open>SyncTunnels\<close> visit every inlet and outlet; a tunnel's output function is called at any time.\<close>

inductive px_run :: "player_id \<Rightarrow> proxy_manager \<Rightarrow> bool" for self where
  start: "px_run self (set_runtime_reporter True (new_proxy_manager self))"
| sync: "px_run self m \<Longrightarrow> dom (px_outlets m) \<subseteq> set os \<Longrightarrow> dom (px_inlets m) \<subseteq> set is \<Longrightarrow>
    px_run self (sync_tunnels env os is ts m)"
| update: "px_run self m \<Longrightarrow> px_run self (update_tunnel env msg m)"
| handle: "px_run self m \<Longrightarrow> px_run self (handle_pb x m)"
| route: "px_run self m \<Longrightarrow> px_run self (route_proxy_message ok t msg m)"

lemma px_close_run:
  "px_run self m \<Longrightarrow> dom (px_outlets m) \<subseteq> set os \<Longrightarrow> dom (px_inlets m) \<subseteq> set is \<Longrightarrow> px_run self (px_close env os is m)"
  unfolding px_close_def by (rule px_run.sync)

lemma px_run_ok: "px_run self m \<Longrightarrow> manager_ok m \<and> complete m"
proof (induction rule: px_run.induct)
  case start
  then show ?case
    by (auto simp: new_proxy_manager_def set_runtime_reporter_def manager_ok_def keyed_def outlets_fit_def inlets_fit_def
        px_reported_def complete_def should_run_outlet_def last_report_def)
next
  case (sync m os "is" env ts) then show ?case using sync_ok by blast
next
  case (update m env msg) then show ?case using update_ok by blast
next
  case (handle m x) then show ?case using handle_pb_ok by blast
next
  case (route m ok t msg) then show ?case using route_ok by blast
qed

text \<open>
  What the manager promises, on the tunnels alone: the outlets that run are those of the enabled tunnels
  this player sends, the inlets that run are of enabled tunnels it receives, each with the description of the
  present tunnel, and the last thing reported of a tunnel's end is whether it runs.
\<close>

definition wanted_outlets :: "proxy_manager \<Rightarrow> tunnel_id \<rightharpoonup> string" where
  "wanted_outlets m = (\<lambda>i. case px_tunnels m i of None \<Rightarrow> None
     | Some t \<Rightarrow> if should_run_outlet m (Some t) then Some (outlet_desc t) else None)"

definition wanted_inlets :: "proxy_manager \<Rightarrow> tunnel_id \<rightharpoonup> string" where
  "wanted_inlets m = (\<lambda>i. case px_tunnels m i of None \<Rightarrow> None
     | Some t \<Rightarrow> if should_run_inlet m (Some t) then Some (inlet_desc t) else None)"

definition running :: "(tunnel_id \<rightharpoonup> component) \<Rightarrow> tunnel_id \<rightharpoonup> string" where
  "running f = (\<lambda>i. map_option co_description (f i))"

lemma manager_runs:
  assumes "px_run self m"
  shows "running (px_outlets m) = wanted_outlets m \<and> running (px_inlets m) \<subseteq>\<^sub>m wanted_inlets m \<and>
    (\<forall>i. i = 0 \<or>
       (last_report m i Component_Outlet = Some True) = (px_outlets m i \<noteq> None) \<and>
       (last_report m i Component_Inlet = Some True) = (px_inlets m i \<noteq> None))"
proof -
  from px_run_ok [OF assms] have ok: "manager_ok m" and c: "complete m" by auto
  note d = manager_okD [OF ok]
  have "running (px_outlets m) i = wanted_outlets m i" for i
  proof (cases "px_outlets m i")
    case None
    with c have "\<not> should_run_outlet m (px_tunnels m i)" unfolding complete_def by blast
    with None show ?thesis by (auto simp: running_def wanted_outlets_def split: option.split)
  next
    case (Some x)
    from d(2) [OF this] Some show ?thesis
      by (auto simp: running_def wanted_outlets_def should_run_outlet_def split: option.splits)
  qed
  moreover have "running (px_inlets m) \<subseteq>\<^sub>m wanted_inlets m"
    using d(3) by (fastforce simp: map_le_def running_def wanted_inlets_def should_run_inlet_def split: option.splits)
  ultimately show ?thesis using d(5,6) by blast
qed


definition ex_px_tunnel :: pb_tunnel where
  "ex_px_tunnel =
     \<lparr>pt_source = Some \<lparr>tp_addr = ''127.0.0.1:80''\<rparr>, pt_endpoint = Some \<lparr>tp_addr = ''10.0.0.1:80''\<rparr>, pt_id = 3,
      pt_enabled = True, pt_sender = 0, pt_receiver = 7, pt_tunnel_type = 0, pt_password = '''', pt_username = '''',
      pt_is_compressed = False, pt_encryption_method = '''', pt_custom_mapping = []\<rparr>"

definition ex_mgr_env :: mgr_env where
  "ex_mgr_env = \<lparr>me_random = [], me_error_text = (\<lambda>_. ''error''), me_start = (\<lambda>_. None)\<rparr>"

definition ex_update :: "pb_tunnel \<Rightarrow> proxy_manager \<Rightarrow> proxy_manager" where
  "ex_update t m = update_tunnel ex_mgr_env (Some \<lparr>mt_is_delete = False, mt_tunnel = Some t\<rparr>) m"


section \<open>An update that changes the receiver alone\<close>

text \<open>The description of an outlet does not name the receiver, so an outlet survives a change of it; its output
  function is still the one made with the old tunnel, and its answers go to the old receiver.\<close>

definition ex_moved :: pb_tunnel where
  "ex_moved = ex_px_tunnel\<lparr>pt_receiver := 8\<rparr>"

lemma same_outlet_desc: "outlet_desc ex_moved = outlet_desc ex_px_tunnel"
  by (simp add: ex_moved_def outlet_desc_def pb_tunnel_to_model_def outlet_description_def)

lemma stale_receiver:
  "\<exists>m x. px_run 0 m \<and> px_tunnels m 3 = Some ex_moved \<and> px_outlets m 3 = Some x \<and> pt_receiver (co_tunnel x) = 7 \<and>
    (\<forall>i s d. px_out (route_proxy_message True (co_tunnel x) (O2IRecvData i s d) m) =
       px_out m @ [Send_Remote 7 (bridge_to_pb (O2IRecvData i s d))])"
proof -
  let ?m0 = "set_runtime_reporter True (new_proxy_manager 0)"
  let ?m1 = "?m0\<lparr>px_tunnels := [3 \<mapsto> ex_px_tunnel],
      px_outlets := [3 \<mapsto> \<lparr>co_tunnel = ex_px_tunnel, co_description = outlet_desc ex_px_tunnel\<rparr>],
      px_out := [Report 3 Component_Outlet True '''', Report 3 Component_Outlet True '''']\<rparr>"
  let ?m2 = "?m1\<lparr>px_tunnels := [3 \<mapsto> ex_moved], px_out := px_out ?m1 @ [Report 3 Component_Outlet True '''']\<rparr>"
  have f: "pt_id ex_px_tunnel = 3" "pt_enabled ex_px_tunnel" "pt_sender ex_px_tunnel = 0" "pt_receiver ex_px_tunnel = 7"
    "pt_id ex_moved = 3" "pt_enabled ex_moved" "pt_sender ex_moved = 0" "pt_receiver ex_moved = 8"
    by (simp_all add: ex_px_tunnel_def ex_moved_def)
  note defs = ex_update_def update_tunnel_def Let_def new_proxy_manager_def set_runtime_reporter_def should_stop_outlet_def
    should_stop_inlet_def start_outlet_if_needed_def start_inlet_if_needed_def should_run_outlet_def should_run_inlet_def
    reaffirm_runtime_def report_runtime_def px_emit_def
  have m1: "ex_update ex_px_tunnel ?m0 = ?m1" by (simp add: defs f)
  have m2: "ex_update ex_moved ?m1 = ?m2" by (simp add: defs f same_outlet_desc)
  have "px_run 0 (ex_update ex_moved (ex_update ex_px_tunnel ?m0))"
    unfolding ex_update_def by (intro px_run.update px_run.start)
  then have "px_run 0 ?m2" by (simp only: m1 m2)
  then show ?thesis
    by (intro exI [of _ ?m2]) (simp add: f route_proxy_message_def is_i2o_message_def px_emit_def)
qed

end
