(* ===== verification/Tunnel_Link.thy ===== *)
theory Tunnel_Link
  imports Inlet Outlet "HOL-Library.Multiset"
begin

text \<open>
  A tunnel end to end: an inlet (\<open>Inlet\<close>) and an outlet (\<open>Outlet\<close>) joined by the two streams of messages between
  them, for one connected TCP session with the context of plain tunnels.

  The state is that of the two components, with the number of messages of each stream that have arrived and the bytes
  the two ends have given to the tunnel.  A step is a step of a component's goroutine or the arrival of the next
  message; what goes up is what the session's context has sent, what goes down is the outlet's output.  The session
  stays open: no step of a run closes it on either side.
\<close>

section \<open>The two sides of a session\<close>

text \<open>The inlet's session at address \<open>a\<close> with id \<open>i\<close>, its context \<open>c\<close> and the messages \<open>iq\<close> in its queue.\<close>

definition in_side :: "nat \<Rightarrow> session_id \<Rightarrow> context_data \<Rightarrow> inlet \<Rightarrow> universal_context \<Rightarrow> proxy_message list \<Rightarrow> bool" where
  "in_side a i d l c iq \<longleftrightarrow> a < length (in_store l) \<and> in_sessions l i = Some a \<and>
     si_id (in_store l ! a) = i \<and> si_data (in_store l ! a) = d \<and> si_phase (in_store l ! a) = Open_Session \<and>
     si_handler (in_store l ! a) = Universal c \<and> uc_started c \<and>
     ring_inv (si_input (in_store l ! a)) \<and> \<not> rg_closed (si_input (in_store l ! a)) \<and>
     rg_max (si_input (in_store l ! a)) = nat default_proxy_queue_capacity \<and>
     ring_contents (si_input (in_store l ! a)) = map Some iq"

text \<open>The outlet's session with the connection \<open>k\<close>, its data \<open>cn\<close> and the messages \<open>oq\<close> in its queue.\<close>

definition out_side :: "tunnel_id \<Rightarrow> session_id \<Rightarrow> nat \<Rightarrow> outlet \<Rightarrow> out_conn \<Rightarrow> proxy_message list \<Rightarrow> bool" where
  "out_side t i k ol cn oq \<longleftrightarrow>
     (\<exists>q. ol_sessions ol i = Some \<lparr>os_conn = k, os_queue = q\<rparr> \<and> ring_inv q \<and> \<not> rg_closed q \<and>
        rg_max q = nat default_proxy_queue_capacity \<and> ring_contents q = map Some oq) \<and>
     ol_conns ol k = Some cn \<and>
     ol_readers ol k = Some \<lparr>or_tunnel = t, or_session = i, or_remote_addr = False\<rparr>"

text \<open>What the peer and the target have been given.\<close>

fun peer_writes :: "context_effect list \<Rightarrow> byte list" where
  "peer_writes [] = []"
| "peer_writes (Write_Peer b # es) = b @ peer_writes es"
| "peer_writes (_ # es) = peer_writes es"

definition target_writes :: "nat \<Rightarrow> outlet \<Rightarrow> byte list" where
  "target_writes k ol = concat (map (\<lambda>(k', b, _). if k' = k then b else []) (ol_written ol))"

lemma peer_writes_append [simp]: "peer_writes (xs @ ys) = peer_writes xs @ peer_writes ys"
  by (induction xs rule: peer_writes.induct) auto

section \<open>Queues\<close>

lemma push_open:
  assumes "ring_inv q" "\<not> rg_closed q" "ring_contents q = map Some ms" "ring_push m q = (True, q')"
  shows "ring_inv q' \<and> \<not> rg_closed q' \<and> rg_max q' = rg_max q \<and> ring_contents q' = map Some (ms @ [m])"
  using pq.push_law [OF assms(1,4)] assms(2,3) by simp

lemma push_fits:
  assumes "ring_inv q" "\<not> rg_closed q" "ring_contents q = map Some ms" "length ms < rg_max q"
  shows "\<exists>q'. ring_push m q = (True, q')"
proof -
  obtain ok q' where p: "ring_push m q = (ok, q')" by fastforce
  have "ok" using pq.push_law [OF assms(1) p] assms(2-4) by simp
  with p show ?thesis by auto
qed

lemma pop_open:
  assumes "ring_inv q" "\<not> rg_closed q" "ring_contents q = map Some (m # ms)"
  shows "\<exists>q'. ring_pop q = Some ((Some m, True), q') \<and> ring_inv q' \<and> \<not> rg_closed q' \<and> rg_max q' = rg_max q \<and>
    ring_contents q' = map Some ms"
proof -
  obtain r ok q' where p: "ring_pop q = Some ((r, ok), q')"
    using pq.pop_waits [OF assms(1)] assms(3) by (cases "ring_pop q") auto
  with pq.pop_law [OF assms(1) p] assms(2,3) show ?thesis by auto
qed

lemma pop_empty: "ring_inv q \<Longrightarrow> \<not> rg_closed q \<Longrightarrow> ring_contents q = map Some [] \<Longrightarrow> ring_pop q = None"
  using pq.pop_waits [of q] by simp

section \<open>Steps of the inlet\<close>

lemma upd_session_at: "a < length (in_store l) \<Longrightarrow> in_store (upd_session a f l) ! a = f (in_store l ! a)"
  by (simp add: upd_session_def)

lemma upd_session_rest [simp]:
  "in_sessions (upd_session a f l) = in_sessions l" "length (in_store (upd_session a f l)) = length (in_store l)"
  by (simp_all add: upd_session_def)

lemma close_removes: "in_sessions (inlet_close_session i l) i = None"
  by (auto simp: inlet_close_session_def remove_session_def begin_shutdown_def Let_def upd_session_def split: option.split)

lemma mark_ready_fields [simp]:
  "si_id (mark_ready s) = si_id s" "si_data (mark_ready s) = si_data s" "si_phase (mark_ready s) = si_phase s"
  "si_handler (mark_ready s) = si_handler s" "si_input (mark_ready s) = si_input s"
  by (simp_all add: mark_ready_def)

lemma peer_step_effect:
  assumes "in_side a i d l c iq" "peer_data_step env ans now payload a l = Some l'" "in_sessions l' i = Some a"
  obtains encoded common c' where
    "encode_data_and_limit (cd_crypto d) (cx_common c) (an_random ans 0) payload = Some (Inr encoded, common)"
    "c' = cx_emit (Send_Proxy (send_data_message d encoded)) (c\<lparr>cx_common := common\<rparr>)" "in_side a i d l' c' iq"
proof -
  let ?s = "in_store l ! a"
  from assms(1) have s: "a < length (in_store l)" "in_sessions l i = Some a" "si_id ?s = i" "si_data ?s = d"
    "si_handler ?s = Universal c" by (simp_all add: in_side_def)
  from assms(2) obtain e s1 where h: "handle_peer_data env ans now payload ?s = Some (e, s1)"
    "l' = (if e \<noteq> None then inlet_close_session (si_id s1) (upd_session a (\<lambda>_. s1) l) else upd_session a (\<lambda>_. s1) l)"
    by (auto simp: peer_data_step_def Let_def split: option.splits)
  have id1: "si_id s1 = i" using h(1) s by (auto simp: handle_peer_data_def Let_def split: option.splits prod.splits)
  have e: "e = None" using h(2) id1 close_removes [of i] assms(3) by (auto split: if_splits)
  from h(1) e s obtain c' where c': "cx_send d (an_random ans 0) (send_data_message d) payload c = Some (None, c')"
    "s1 = mark_ready (?s\<lparr>si_last_seen := now, si_handler := Universal c'\<rparr>)"
    by (auto simp: handle_peer_data_def Let_def lift_result_def uc_on_peer_data_def answers.truncate_def
        split: option.splits prod.splits)
  from c'(1) obtain encoded common where
    enc: "encode_data_and_limit (cd_crypto d) (cx_common c) (an_random ans 0) payload = Some (Inr encoded, common)"
      "c' = cx_emit (Send_Proxy (send_data_message d encoded)) (c\<lparr>cx_common := common\<rparr>)"
    by (auto simp: cx_send_def split: option.splits prod.splits sum.splits)
  have "in_side a i d l' c' iq"
    using assms(1) h(2) e c'(2) by (simp add: in_side_def upd_session_at enc(2) cx_emit_def)
  with enc that show thesis by blast
qed

lemma inlet_data_effect:
  assumes "in_side a i d l c iq" "m = O2IRecvData t i data"
  shows "in_sessions (inlet_input m l) i = Some a \<Longrightarrow> in_side a i d (inlet_input m l) c (iq @ [m])"
    and "length iq < nat default_proxy_queue_capacity \<Longrightarrow> in_sessions (inlet_input m l) i = Some a"
proof -
  let ?s = "in_store l ! a"
  from assms(1) have s: "a < length (in_store l)" "in_sessions l i = Some a" "si_id ?s = i"
    and q: "ring_inv (si_input ?s)" "\<not> rg_closed (si_input ?s)" "ring_contents (si_input ?s) = map Some iq"
      "rg_max (si_input ?s) = nat default_proxy_queue_capacity"
    by (simp_all add: in_side_def)
  obtain ok q' where p: "ring_push m (si_input ?s) = (ok, q')" by fastforce
  have l': "inlet_input m l = (if ok then upd_session a (\<lambda>s. s\<lparr>si_input := q'\<rparr>) l
      else inlet_close_session i (upd_session a (\<lambda>s. s\<lparr>si_input := q'\<rparr>) l))"
    using s(2) p by (simp add: inlet_input_def assms(2) Let_def)
  show "in_side a i d (inlet_input m l) c (iq @ [m])" if "in_sessions (inlet_input m l) i = Some a"
  proof -
    have ok: ok using that close_removes [of i] unfolding l' by (auto split: if_splits)
    with push_open [OF q(1-3), of m q'] p assms(1) show ?thesis
      unfolding l' by (simp add: in_side_def upd_session_at)
  qed
  show "in_sessions (inlet_input m l) i = Some a" if "length iq < nat default_proxy_queue_capacity"
  proof -
    have "\<exists>q'. ring_push m (si_input ?s) = (True, q')" by (rule push_fits [OF q(1-3)]) (simp add: q(4) that)
    with p have ok by simp
    with s show ?thesis unfolding l' by simp
  qed
qed

lemma inlet_ack_effect:
  assumes "in_side a i d l c iq" "m = O2ISendDataResult t i n"
  shows "in_side a i d (inlet_input m l)
    (c\<lparr>cx_common := (cx_common c)\<lparr>sc_flow := flow_release (uint n) (sc_flow (cx_common c))\<rparr>\<rparr>) iq"
  using assms by (simp add: in_side_def inlet_input_def upd_session_at Let_def)

lemma reply_step_effect:
  assumes "in_side a i d l c (m # iq)" "m = O2IRecvData t i data" "decode_data (cd_crypto d) (cx_common c) data = Inr x"
    and "an_write ans"
  defines "c' \<equiv> cx_emit (Send_Proxy (I2ORecvDataResult (cd_tunnel_id d) i (of_nat (length data)))) (cx_emit (Write_Peer x) c)"
  shows "\<exists>l'. proxy_loop_step env ans now a l = Some l' \<and> in_side a i d l' c' iq"
proof -
  let ?s = "in_store l ! a"
  from assms(1) have s: "a < length (in_store l)" "in_sessions l i = Some a" "si_id ?s = i" "si_data ?s = d"
    "si_handler ?s = Universal c" "uc_started c"
    and q: "ring_inv (si_input ?s)" "\<not> rg_closed (si_input ?s)" "ring_contents (si_input ?s) = map Some (m # iq)"
    by (simp_all add: in_side_def)
  obtain q' where q': "ring_pop (si_input ?s) = Some ((Some m, True), q')" "ring_inv q'" "\<not> rg_closed q'"
    "rg_max q' = rg_max (si_input ?s)" "ring_contents q' = map Some iq" using pop_open [OF q] by blast
  let ?s1 = "mark_ready (?s\<lparr>si_input := q', si_last_seen := now, si_handler := Universal c'\<rparr>)"
  have "handler_reply env d ans m (Universal c) = Some (None, Universal c')"
    using assms(3,4) s(6) by (simp add: assms(2) lift_result_def uc_on_proxy_message_def answers.truncate_def
        cx_write_ack_def Let_def c'_def)
  then have "handle_proxy_message env ans now m (?s\<lparr>si_input := q'\<rparr>) = Some ((False, None), ?s1)"
    using s by (simp add: handle_proxy_message_def Let_def should_close_after_def assms(2))
  then have "proxy_loop_step env ans now a l = Some (upd_session a (\<lambda>_. ?s1) l)"
    using q'(1) by (simp add: proxy_loop_step_def)
  moreover have "in_side a i d (upd_session a (\<lambda>_. ?s1) l) c' iq"
    using assms(1) q' by (simp add: in_side_def upd_session_at c'_def cx_emit_def)
  ultimately show ?thesis by blast
qed

lemma reply_step_waits: "in_side a i d l c [] \<Longrightarrow> proxy_loop_step env ans now a l = None"
  by (simp add: in_side_def proxy_loop_step_def pop_empty)

section \<open>Steps of the outlet\<close>

lemma terminate_removes: "ol_sessions (terminate_session t i ol) i = None"
  by (auto simp: terminate_session_def detach_out_session_def update_common_def ol_send_def close_conn_def split: option.split)

lemma outlet_data_effect:
  assumes "out_side t i k ol cn oq" "m = I2OSendData t i data"
  shows "ol_sessions (outlet_input x m ol) i \<noteq> None \<Longrightarrow> out_side t i k (outlet_input x m ol) cn (oq @ [m]) \<and>
      ol_output (outlet_input x m ol) = ol_output ol \<and> ol_written (outlet_input x m ol) = ol_written ol"
    and "length oq < nat default_proxy_queue_capacity \<Longrightarrow> ol_sessions (outlet_input x m ol) i \<noteq> None"
proof -
  from assms(1) obtain q where q: "ol_sessions ol i = Some \<lparr>os_conn = k, os_queue = q\<rparr>" "ring_inv q" "\<not> rg_closed q"
    "ring_contents q = map Some oq" "rg_max q = nat default_proxy_queue_capacity" by (auto simp: out_side_def)
  obtain ok q' where p: "ring_push m q = (ok, q')" by fastforce
  have o': "outlet_input x m ol = (if ok then ol\<lparr>ol_sessions := (ol_sessions ol)(i \<mapsto> \<lparr>os_conn = k, os_queue = q'\<rparr>)\<rparr>
      else terminate_session t i ol)"
    using q(1) p by (cases ok) (simp_all add: outlet_input_def assms(2) push_session_def)
  show "out_side t i k (outlet_input x m ol) cn (oq @ [m]) \<and> ol_output (outlet_input x m ol) = ol_output ol \<and>
      ol_written (outlet_input x m ol) = ol_written ol" if "ol_sessions (outlet_input x m ol) i \<noteq> None"
  proof -
    have ok: ok using that terminate_removes [of t i ol] unfolding o' by (auto split: if_splits)
    with push_open [OF q(2-4), of m q'] p assms(1) q(5) show ?thesis unfolding o' by (simp add: out_side_def)
  qed
  show "ol_sessions (outlet_input x m ol) i \<noteq> None" if "length oq < nat default_proxy_queue_capacity"
  proof -
    have "\<exists>q'. ring_push m q = (True, q')" by (rule push_fits [OF q(2-4)]) (simp add: q(5) that)
    with p have ok by simp
    then show ?thesis unfolding o' by simp
  qed
qed

lemma outlet_ack_effect:
  assumes "out_side t i k ol cn oq" "m = I2ORecvDataResult t i n"
  shows "out_side t i k (outlet_input x m ol)
      (cn\<lparr>cn_common := (cn_common cn)\<lparr>sc_flow := flow_release (uint n) (sc_flow (cn_common cn))\<rparr>\<rparr>) oq \<and>
    ol_output (outlet_input x m ol) = ol_output ol \<and> ol_written (outlet_input x m ol) = ol_written ol"
  using assms by (auto simp: out_side_def outlet_input_def on_recv_result_def update_common_def)

lemma write_step_effect:
  assumes "out_side t i k ol cn (m # oq)" "m = I2OSendData t i data" "decode_data ce (cn_common cn) data = Inr x"
  shows "\<exists>ol'. session_input_step True resolve ce i ol = Some ol' \<and> out_side t i k ol' cn oq \<and>
    ol_output ol' = ol_output ol @ [O2ISendDataResult t i (of_nat (length data))] \<and>
    ol_written ol' = ol_written ol @ [(k, x, None)]"
proof -
  from assms(1) obtain q where q: "ol_sessions ol i = Some \<lparr>os_conn = k, os_queue = q\<rparr>" "ring_inv q" "\<not> rg_closed q"
    "ring_contents q = map Some (m # oq)" "rg_max q = nat default_proxy_queue_capacity" "ol_conns ol k = Some cn"
    by (auto simp: out_side_def)
  obtain q' where q': "ring_pop q = Some ((Some m, True), q')" "ring_inv q'" "\<not> rg_closed q'"
    "rg_max q' = rg_max q" "ring_contents q' = map Some oq" using pop_open [OF q(2-4)] by blast
  let ?o = "ol\<lparr>ol_sessions := (ol_sessions ol)(i \<mapsto> \<lparr>os_conn = k, os_queue = q'\<rparr>)\<rparr>"
  have "on_send_data True ce t i data ?o = (True, ol_send (O2ISendDataResult t i (of_nat (length data)))
      (?o\<lparr>ol_written := ol_written ?o @ [(k, x, None)]\<rparr>))"
    using q(6) assms(3) by (simp add: on_send_data_def)
  then have "session_input_step True resolve ce i ol = Some (ol_send (O2ISendDataResult t i (of_nat (length data)))
      (?o\<lparr>ol_written := ol_written ?o @ [(k, x, None)]\<rparr>))"
    using q(1) q'(1) by (simp add: session_input_step_def assms(2))
  with assms(1) q' q(5) show ?thesis by (auto simp: out_side_def ol_send_def)
qed

lemma write_step_waits: "out_side t i k ol cn [] \<Longrightarrow> session_input_step ok resolve ce i ol = None"
  by (auto simp: out_side_def session_input_step_def pop_empty)

lemma read_step_effect:
  assumes "out_side t i k ol cn oq" "reader_step ce random data from k ol = Some ol'" "ol_sessions ol' i \<noteq> None"
  obtains encoded common where
    "encode_data_and_limit ce (cn_common cn) random data = Some (Inr encoded, common)"
    "out_side t i k ol' (cn\<lparr>cn_common := common\<rparr>) oq"
    "ol_output ol' = ol_output ol @ [O2IRecvData t i encoded]" "ol_written ol' = ol_written ol"
proof -
  from assms(1) have c: "ol_conns ol k = Some cn" "ol_readers ol k = Some \<lparr>or_tunnel = t, or_session = i, or_remote_addr = False\<rparr>"
    by (simp_all add: out_side_def)
  have gone: "ol_sessions (reader_ends k o') i = None" if "ol_readers o' k = ol_readers ol k" for o'
    using that c(2) by (auto simp: reader_ends_def detach_out_session_def update_common_def ol_send_def close_conn_def split: option.split)
  obtain r common where e: "encode_data_and_limit ce (cn_common cn) random data = Some (r, common)"
    using assms(2) c by (auto simp: reader_step_def split: option.splits)
  show thesis
  proof (cases r)
    case (Inl x)
    with assms(2) c e have "ol' = reader_ends k (update_common k (\<lambda>_. common) ol)" by (simp add: reader_step_def)
    with gone [of "update_common k (\<lambda>_. common) ol"] assms(3) show thesis by (simp add: update_common_def)
  next
    case (Inr encoded)
    with assms(2) c e have o': "ol' = ol_send (O2IRecvData t i encoded) (update_common k (\<lambda>_. common) ol)"
      by (simp add: reader_step_def)
    have "out_side t i k ol' (cn\<lparr>cn_common := common\<rparr>) oq"
      using assms(1) by (auto simp: o' out_side_def ol_send_def update_common_def)
    with that e Inr show thesis by (simp add: o' ol_send_def update_common_def)
  qed
qed

section \<open>Windows\<close>

text \<open>What a message counts in the window of the data going up, and of the data coming down: a data message what it
  was charged with, its acknowledgement what it gives back.\<close>

definition charged :: "int \<Rightarrow> int multiset" where
  "charged sz = (if 0 < sz then {#sz#} else {#})"

fun up_window :: "proxy_message \<Rightarrow> int multiset" where
  "up_window (I2OSendData t i data) = charged (int (length data))"
| "up_window (O2ISendDataResult t i n) = charged (uint n)"
| "up_window _ = {#}"

fun down_window :: "proxy_message \<Rightarrow> int multiset" where
  "down_window (O2IRecvData t i data) = charged (int (length data))"
| "down_window (I2ORecvDataResult t i n) = charged (uint n)"
| "down_window _ = {#}"

definition flow_ok :: "flow_controller \<Rightarrow> int multiset \<Rightarrow> bool" where
  "flow_ok f m \<longleftrightarrow> (\<exists>sizes. mset sizes = m \<and> flow_inv proxy_flow_window_bytes f sizes)"

lemma flow_inv_perm: "mset xs = mset ys \<Longrightarrow> flow_inv n f xs = flow_inv n f ys"
proof -
  assume p: "mset xs = mset ys"
  then have "sum_list (map (charge n) xs) = sum_list (map (charge n) ys)"
    by (metis mset_map sum_mset_sum_list)
  moreover have "set xs = set ys" using p by (rule mset_eq_setD)
  ultimately show ?thesis by (simp add: flow_inv_def)
qed

lemma flow_ok_acquire:
  assumes "flow_ok f m" "flow_acquire sz f = Some (None, f')"
  shows "flow_ok f' (m + charged sz)"
proof (cases "0 < sz")
  case True
  from assms(1) obtain sizes where s: "mset sizes = m" "flow_inv proxy_flow_window_bytes f sizes" by (auto simp: flow_ok_def)
  from flow_inv_acquire [OF s(2) True assms(2)] have "flow_inv proxy_flow_window_bytes f' (sz # sizes)" .
  with s True show ?thesis by (auto simp: flow_ok_def charged_def intro!: exI [of _ "sz # sizes"])
qed (use assms in \<open>simp add: flow_acquire_def charged_def\<close>)

lemma flow_ok_release:
  assumes "flow_ok f (m + charged sz)"
  shows "flow_ok (flow_release sz f) m"
proof (cases "0 < sz")
  case True
  from assms True obtain sizes where s: "mset sizes = add_mset sz m" "flow_inv proxy_flow_window_bytes f sizes"
    by (auto simp: flow_ok_def charged_def)
  then have "sz \<in> set sizes" by (metis set_mset_mset union_single_eq_member)
  moreover have "0 < proxy_flow_window_bytes" by (simp add: proxy_flow_window_bytes_def)
  ultimately have "flow_inv proxy_flow_window_bytes (flow_release sz f) (remove1 sz sizes)"
    using flow_inv_release s(2) by blast
  moreover have "mset (remove1 sz sizes) = m" using s(1) by simp
  ultimately show ?thesis unfolding flow_ok_def by (intro exI [of _ "remove1 sz sizes"]) simp
qed (use assms in \<open>simp add: flow_release_def charged_def\<close>)

lemma flow_ok_empty: "flow_ok f {#} \<Longrightarrow> fc_inflight f = 0"
  by (auto simp: flow_ok_def flow_inv_def split: if_splits)

lemma flow_ok_new: "flow_ok (new_flow_controller proxy_flow_window_bytes) {#}"
  by (auto simp: flow_ok_def flow_inv_def new_flow_controller_def proxy_flow_window_bytes_def)

section \<open>Encoding\<close>

lemma decode_same_common: "same_common common c \<Longrightarrow> decode_data ce c data = decode_data ce common data"
  unfolding same_common_def by (elim exE) (simp add: decode_data_def split: option.split sum.split)

lemma length_encrypt: "lawful_crypto ce \<Longrightarrow> encrypt ce meth key random x = Inr out \<Longrightarrow> length out \<le> length x + 40"
  by (auto simp: encrypt_def encrypt_aes128_siv_with_cipher_def xor_data_def lawful_crypto_def Let_def split: if_splits)

text \<open>What encoding at one end gives, in one place: the message can be decoded, is short, charges the window.\<close>

lemma encode_effect:
  assumes "lawful_crypto ce" "common = new_session_common_info compressed meth key" "same_common common c"
    "encode_data_and_limit ce c random data = Some (Inr encoded, c')" "length data \<le> 65535"
  shows "decode_data ce common encoded = Inr data" "length encoded < 2 ^ 32" "same_common common c'"
    "flow_acquire (int (length encoded)) (sc_flow c) = Some (None, sc_flow c')"
proof -
  from assms(2,3) obtain f where c: "c = (new_session_common_info compressed meth key)\<lparr>sc_flow := f\<rparr>"
    by (auto simp: same_common_def)
  have small: "length data \<le> lz4_max_decompressed_size" using assms(5) by (simp add: lz4_max_decompressed_size_def)
  from session_data_decodes [OF assms(1) small assms(4) [unfolded c]] assms(2) c
  show "decode_data ce common encoded = Inr data" "flow_acquire (int (length encoded)) (sc_flow c) = Some (None, sc_flow c')"
    by simp_all
  show "same_common common c'" by (rule encode_same_common [OF assms(4,3)])
  let ?in = "if compressed then compress_data ce data else data"
  have "encrypt ce meth key random ?in = Inr encoded"
    using assms(4) unfolding c by (subst (asm) encode_uses_encrypt;
        auto simp: new_session_common_info_def split: sum.splits option.splits prod.splits)
  from length_encrypt [OF assms(1) this] length_compress [of ce data] assms(5)
  show "length encoded < 2 ^ 32" by (auto split: if_splits)
qed

section \<open>The specification of a tunnel\<close>

text \<open>
  Two windows, two streams, two queues, and the bytes given and got at the two ends.  A message that goes up or down
  is data in one direction or the acknowledgement of data of the other one.
\<close>

record wire =
  w_in_window :: flow_controller
  w_out_window :: flow_controller
  w_up :: "proxy_message list"
  w_down :: "proxy_message list"
  w_in_queue :: "proxy_message list"
  w_out_queue :: "proxy_message list"
  w_in_given :: "byte list"
  w_out_got :: "byte list"
  w_out_given :: "byte list"
  w_in_got :: "byte list"

fun downstream :: "crypto_env \<Rightarrow> session_common_info \<Rightarrow> proxy_message list \<Rightarrow> byte list" where
  "downstream ce common [] = []"
| "downstream ce common (O2IRecvData t i data # ms) =
     (case decode_data ce common data of Inr x \<Rightarrow> x | Inl _ \<Rightarrow> []) @ downstream ce common ms"
| "downstream ce common (_ # ms) = downstream ce common ms"

lemma downstream_append [simp]:
  "downstream ce common (ms @ ns) = downstream ce common ms @ downstream ce common ns"
  by (induction ms rule: downstream.induct) auto

inductive wire_step ::
  "crypto_env \<Rightarrow> session_common_info \<Rightarrow> tunnel_id \<Rightarrow> session_id \<Rightarrow> bool \<Rightarrow> wire \<Rightarrow> wire \<Rightarrow> bool"
  for ce common t i where
  give_in: "decode_data ce common data = Inr x \<Longrightarrow> length data < 2 ^ 32 \<Longrightarrow>
    flow_acquire (int (length data)) (w_in_window w) = Some (None, f) \<Longrightarrow>
    wire_step ce common t i True w (w\<lparr>w_in_window := f, w_up := w_up w @ [I2OSendData t i data],
      w_in_given := w_in_given w @ x\<rparr>)"
| give_out: "decode_data ce common data = Inr x \<Longrightarrow> length data < 2 ^ 32 \<Longrightarrow>
    flow_acquire (int (length data)) (w_out_window w) = Some (None, f) \<Longrightarrow>
    wire_step ce common t i True w (w\<lparr>w_out_window := f, w_down := w_down w @ [O2IRecvData t i data],
      w_out_given := w_out_given w @ x\<rparr>)"
| data_up: "w_up w = I2OSendData t i data # ms \<Longrightarrow>
    wire_step ce common t i False w (w\<lparr>w_up := ms, w_out_queue := w_out_queue w @ [I2OSendData t i data]\<rparr>)"
| data_down: "w_down w = O2IRecvData t i data # ms \<Longrightarrow>
    wire_step ce common t i False w (w\<lparr>w_down := ms, w_in_queue := w_in_queue w @ [O2IRecvData t i data]\<rparr>)"
| ack_up: "w_up w = I2ORecvDataResult t i n # ms \<Longrightarrow>
    wire_step ce common t i False w (w\<lparr>w_up := ms, w_out_window := flow_release (uint n) (w_out_window w)\<rparr>)"
| ack_down: "w_down w = O2ISendDataResult t i n # ms \<Longrightarrow>
    wire_step ce common t i False w (w\<lparr>w_down := ms, w_in_window := flow_release (uint n) (w_in_window w)\<rparr>)"
| get_out: "w_out_queue w = I2OSendData t i data # ms \<Longrightarrow> decode_data ce common data = Inr x \<Longrightarrow>
    wire_step ce common t i False w (w\<lparr>w_out_queue := ms, w_out_got := w_out_got w @ x,
      w_down := w_down w @ [O2ISendDataResult t i (of_nat (length data))]\<rparr>)"
| get_in: "w_in_queue w = O2IRecvData t i data # ms \<Longrightarrow> decode_data ce common data = Inr x \<Longrightarrow>
    wire_step ce common t i False w (w\<lparr>w_in_queue := ms, w_in_got := w_in_got w @ x,
      w_up := w_up w @ [I2ORecvDataResult t i (of_nat (length data))]\<rparr>)"

text \<open>The messages there can be on the way.\<close>

fun data_up_ok :: "crypto_env \<Rightarrow> session_common_info \<Rightarrow> tunnel_id \<Rightarrow> session_id \<Rightarrow> proxy_message \<Rightarrow> bool" where
  "data_up_ok ce common t i (I2OSendData t' i' data) \<longleftrightarrow>
     t' = t \<and> i' = i \<and> length data < 2 ^ 32 \<and> (\<exists>x. decode_data ce common data = Inr x)"
| "data_up_ok ce common t i _ \<longleftrightarrow> False"

fun data_down_ok :: "crypto_env \<Rightarrow> session_common_info \<Rightarrow> tunnel_id \<Rightarrow> session_id \<Rightarrow> proxy_message \<Rightarrow> bool" where
  "data_down_ok ce common t i (O2IRecvData t' i' data) \<longleftrightarrow>
     t' = t \<and> i' = i \<and> length data < 2 ^ 32 \<and> (\<exists>x. decode_data ce common data = Inr x)"
| "data_down_ok ce common t i _ \<longleftrightarrow> False"

definition up_ok :: "crypto_env \<Rightarrow> session_common_info \<Rightarrow> tunnel_id \<Rightarrow> session_id \<Rightarrow> proxy_message \<Rightarrow> bool" where
  "up_ok ce common t i m \<longleftrightarrow> data_up_ok ce common t i m \<or> (\<exists>n. m = I2ORecvDataResult t i n)"

definition down_ok :: "crypto_env \<Rightarrow> session_common_info \<Rightarrow> tunnel_id \<Rightarrow> session_id \<Rightarrow> proxy_message \<Rightarrow> bool" where
  "down_ok ce common t i m \<longleftrightarrow> data_down_ok ce common t i m \<or> (\<exists>n. m = O2ISendDataResult t i n)"

definition on_way :: "(proxy_message \<Rightarrow> int multiset) \<Rightarrow> wire \<Rightarrow> int multiset" where
  "on_way f w = sum_list (map f (w_up w @ w_out_queue w @ w_down w @ w_in_queue w))"

definition wire_inv :: "crypto_env \<Rightarrow> session_common_info \<Rightarrow> tunnel_id \<Rightarrow> session_id \<Rightarrow> wire \<Rightarrow> bool" where
  "wire_inv ce common t i w \<longleftrightarrow>
     (\<forall>m \<in> set (w_up w). up_ok ce common t i m) \<and>
     (\<forall>m \<in> set (w_down w). down_ok ce common t i m) \<and>
     (\<forall>m \<in> set (w_out_queue w). data_up_ok ce common t i m) \<and>
     (\<forall>m \<in> set (w_in_queue w). data_down_ok ce common t i m) \<and>
     w_in_given w = w_out_got w @ upstream ce common (w_out_queue w @ w_up w) \<and>
     w_out_given w = w_in_got w @ downstream ce common (w_in_queue w @ w_down w) \<and>
     flow_ok (w_in_window w) (on_way up_window w) \<and> flow_ok (w_out_window w) (on_way down_window w)"

lemma uint_length [simp]: "n < 2 ^ 32 \<Longrightarrow> uint (of_nat n :: u32) = int n"
  by (simp add: unsigned_of_nat take_bit_nat_eq_self)

lemma wire_step_inv:
  assumes "wire_step ce common t i busy w w'" "wire_inv ce common t i w"
  shows "wire_inv ce common t i w'"
proof -
  from assms(2) have win: "flow_ok (w_in_window w) (on_way up_window w)" "flow_ok (w_out_window w) (on_way down_window w)"
    by (simp_all add: wire_inv_def)
  from assms(1) show ?thesis
  proof cases
    case (give_in data x f)
    from flow_ok_acquire [OF win(1)] give_in have "flow_ok f (on_way up_window w + charged (int (length data)))" by blast
    with assms(2) give_in show ?thesis by (simp add: wire_inv_def on_way_def up_ok_def ac_simps)
  next
    case (give_out data x f)
    from flow_ok_acquire [OF win(2)] give_out have "flow_ok f (on_way down_window w + charged (int (length data)))" by blast
    with assms(2) give_out show ?thesis by (simp add: wire_inv_def on_way_def down_ok_def ac_simps)
  next
    case (ack_up n ms)
    from assms(2) ack_up have "flow_ok (w_out_window w) (on_way down_window (w\<lparr>w_up := ms\<rparr>) + charged (uint n))"
      by (simp add: wire_inv_def on_way_def ac_simps)
    with assms(2) ack_up show ?thesis by (simp add: wire_inv_def on_way_def flow_ok_release)
  next
    case (ack_down n ms)
    from assms(2) ack_down have "flow_ok (w_in_window w) (on_way up_window (w\<lparr>w_down := ms\<rparr>) + charged (uint n))"
      by (simp add: wire_inv_def on_way_def ac_simps)
    with assms(2) ack_down show ?thesis by (simp add: wire_inv_def on_way_def flow_ok_release)
  qed (use assms(2) in \<open>auto simp: wire_inv_def on_way_def up_ok_def down_ok_def ac_simps\<close>)
qed

text \<open>What is still to be done with a message: data in a stream is queued, got and acknowledged.\<close>

fun stream_work :: "proxy_message \<Rightarrow> nat" where
  "stream_work (I2OSendData t i data) = 3"
| "stream_work (O2IRecvData t i data) = 3"
| "stream_work _ = 1"

definition wire_work :: "wire \<Rightarrow> nat" where
  "wire_work w = sum_list (map stream_work (w_up w @ w_down w)) + 2 * (length (w_out_queue w) + length (w_in_queue w))"

lemma wire_step_work: "wire_step ce common t i False w w' \<Longrightarrow> wire_work w' < wire_work w"
  by (erule wire_step.cases) (auto simp: wire_work_def)

section \<open>The two components joined\<close>

record link =
  lk_inlet :: inlet
  lk_outlet :: outlet
  lk_up :: nat
  lk_down :: nat
  lk_in :: "byte list"
  lk_out :: "byte list"

definition up_stream :: "nat \<Rightarrow> inlet \<Rightarrow> proxy_message list" where
  "up_stream a l = sent (handler_out (si_handler (in_store l ! a)))"

text \<open>A busy step takes new bytes from the peer or the target; both read into buffers of at most 65535 bytes.  The
  other steps carry on with what is on its way.\<close>

inductive link_step :: "crypto_env \<Rightarrow> nat \<Rightarrow> session_id \<Rightarrow> nat \<Rightarrow> bool \<Rightarrow> link \<Rightarrow> link \<Rightarrow> bool" for ce a i k where
  peer: "peer_data_step env ans now payload a (lk_inlet s) = Some l' \<Longrightarrow> length payload \<le> 65535 \<Longrightarrow>
    in_sessions l' i = Some a \<Longrightarrow> link_step ce a i k True s (s\<lparr>lk_inlet := l', lk_in := lk_in s @ payload\<rparr>)"
| up: "lk_up s < length (up_stream a (lk_inlet s)) \<Longrightarrow>
    outlet_input x (up_stream a (lk_inlet s) ! lk_up s) (lk_outlet s) = ol' \<Longrightarrow> ol_sessions ol' i \<noteq> None \<Longrightarrow>
    link_step ce a i k False s (s\<lparr>lk_outlet := ol', lk_up := Suc (lk_up s)\<rparr>)"
| put: "session_input_step True resolve ce i (lk_outlet s) = Some ol' \<Longrightarrow>
    link_step ce a i k False s (s\<lparr>lk_outlet := ol'\<rparr>)"
| get: "reader_step ce random data from k (lk_outlet s) = Some ol' \<Longrightarrow> length data \<le> 65535 \<Longrightarrow>
    ol_sessions ol' i \<noteq> None \<Longrightarrow> link_step ce a i k True s (s\<lparr>lk_outlet := ol', lk_out := lk_out s @ data\<rparr>)"
| down: "lk_down s < length (ol_output (lk_outlet s)) \<Longrightarrow>
    inlet_input (ol_output (lk_outlet s) ! lk_down s) (lk_inlet s) = l' \<Longrightarrow> in_sessions l' i = Some a \<Longrightarrow>
    link_step ce a i k False s (s\<lparr>lk_inlet := l', lk_down := Suc (lk_down s)\<rparr>)"
| reply: "proxy_loop_step env ans now a (lk_inlet s) = Some l' \<Longrightarrow> an_write ans \<Longrightarrow>
    link_step ce a i k False s (s\<lparr>lk_inlet := l'\<rparr>)"

text \<open>The parameters the two ends share.\<close>

definition shared :: "crypto_env \<Rightarrow> session_common_info \<Rightarrow> tunnel_id \<Rightarrow> session_id \<Rightarrow> context_data \<Rightarrow> bool" where
  "shared ce common t i d \<longleftrightarrow> lawful_crypto ce \<and> cd_crypto d = ce \<and> cd_tunnel_id d = t \<and> cd_session_id d = i \<and>
     (\<exists>compressed meth key. common = new_session_common_info compressed meth key)"

definition link_rel ::
  "session_common_info \<Rightarrow> tunnel_id \<Rightarrow> session_id \<Rightarrow> nat \<Rightarrow> nat \<Rightarrow> context_data \<Rightarrow> universal_context \<Rightarrow> out_conn \<Rightarrow> link \<Rightarrow> wire \<Rightarrow> bool" where
  "link_rel common t i a k d c cn s w \<longleftrightarrow>
     in_side a i d (lk_inlet s) c (w_in_queue w) \<and> out_side t i k (lk_outlet s) cn (w_out_queue w) \<and>
     same_common common (cx_common c) \<and> same_common common (cn_common cn) \<and>
     w_in_window w = sc_flow (cx_common c) \<and> w_out_window w = sc_flow (cn_common cn) \<and>
     lk_up s \<le> length (sent (cx_out c)) \<and> w_up w = drop (lk_up s) (sent (cx_out c)) \<and>
     lk_down s \<le> length (ol_output (lk_outlet s)) \<and> w_down w = drop (lk_down s) (ol_output (lk_outlet s)) \<and>
     w_in_given w = lk_in s \<and> w_out_got w = target_writes k (lk_outlet s) \<and>
     w_out_given w = lk_out s \<and> w_in_got w = peer_writes (cx_out c)"

lemma up_stream_side: "in_side a i d l c iq \<Longrightarrow> up_stream a l = sent (cx_out c)"
  by (simp add: up_stream_def in_side_def)

lemma next_message: "n < length xs \<Longrightarrow> drop n xs = xs ! n # drop (Suc n) xs"
  by (rule Cons_nth_drop_Suc [symmetric])

lemma drop_ConsD: "drop n xs = m # ms \<Longrightarrow> n < length xs \<and> xs ! n = m \<and> drop (Suc n) xs = ms"
  using next_message [of n xs] by (cases "n < length xs") auto

lemma cx_emit_fields [simp]: "cx_common (cx_emit e c) = cx_common c" "cx_out (cx_emit e c) = cx_out c @ [e]"
  by (simp_all add: cx_emit_def)

lemma target_writes_cong: "ol_written ol' = ol_written ol \<Longrightarrow> target_writes k ol' = target_writes k ol"
  by (simp add: target_writes_def)

lemma refine_peer:
  assumes "shared ce common t i d" "link_rel common t i a k d c cn s w"
    "peer_data_step env ans now payload a (lk_inlet s) = Some l'" "length payload \<le> 65535" "in_sessions l' i = Some a"
  shows "\<exists>c' w'. wire_step ce common t i True w w' \<and>
    link_rel common t i a k d c' cn (s\<lparr>lk_inlet := l', lk_in := lk_in s @ payload\<rparr>) w'"
proof -
  from assms(2) have r: "in_side a i d (lk_inlet s) c (w_in_queue w)" "same_common common (cx_common c)"
    by (simp_all add: link_rel_def)
  obtain encoded x c' where e: "encode_data_and_limit (cd_crypto d) (cx_common c) (an_random ans 0) payload = Some (Inr encoded, x)"
    "c' = cx_emit (Send_Proxy (send_data_message d encoded)) (c\<lparr>cx_common := x\<rparr>)" "in_side a i d l' c' (w_in_queue w)"
    using peer_step_effect [OF r(1) assms(3,5)] by blast
  from assms(1) obtain compressed meth key where common: "lawful_crypto (cd_crypto d)"
    "common = new_session_common_info compressed meth key" by (auto simp: shared_def)
  note enc = encode_effect [OF common r(2) e(1) assms(4)]
  let ?w = "w\<lparr>w_in_window := sc_flow x, w_up := w_up w @ [I2OSendData t i encoded], w_in_given := w_in_given w @ payload\<rparr>"
  have "wire_step ce common t i True w ?w"
    using assms(1,2) enc by (intro wire_step.give_in) (simp_all add: shared_def link_rel_def)
  moreover have "link_rel common t i a k d c' cn (s\<lparr>lk_inlet := l', lk_in := lk_in s @ payload\<rparr>) ?w"
    using assms(1,2) enc(3) e(2,3) by (simp add: shared_def link_rel_def send_data_message_def sent_append)
  ultimately show ?thesis by blast
qed

lemma refine_read:
  assumes "shared ce common t i d" "link_rel common t i a k d c cn s w"
    "reader_step ce random data from k (lk_outlet s) = Some ol'" "length data \<le> 65535" "ol_sessions ol' i \<noteq> None"
  shows "\<exists>cn' w'. wire_step ce common t i True w w' \<and>
    link_rel common t i a k d c cn' (s\<lparr>lk_outlet := ol', lk_out := lk_out s @ data\<rparr>) w'"
proof -
  from assms(2) have r: "out_side t i k (lk_outlet s) cn (w_out_queue w)" "same_common common (cn_common cn)"
    by (simp_all add: link_rel_def)
  obtain encoded x where e: "encode_data_and_limit ce (cn_common cn) random data = Some (Inr encoded, x)"
    "out_side t i k ol' (cn\<lparr>cn_common := x\<rparr>) (w_out_queue w)"
    "ol_output ol' = ol_output (lk_outlet s) @ [O2IRecvData t i encoded]" "ol_written ol' = ol_written (lk_outlet s)"
    using read_step_effect [OF r(1) assms(3,5)] by blast
  from assms(1) obtain compressed meth key where common: "lawful_crypto ce"
    "common = new_session_common_info compressed meth key" by (auto simp: shared_def)
  note enc = encode_effect [OF common r(2) e(1) assms(4)]
  let ?w = "w\<lparr>w_out_window := sc_flow x, w_down := w_down w @ [O2IRecvData t i encoded], w_out_given := w_out_given w @ data\<rparr>"
  have "wire_step ce common t i True w ?w"
    using assms(2) enc by (intro wire_step.give_out) (simp_all add: link_rel_def)
  moreover have "link_rel common t i a k d c (cn\<lparr>cn_common := x\<rparr>) (s\<lparr>lk_outlet := ol', lk_out := lk_out s @ data\<rparr>) ?w"
    using assms(2) enc(3) e(2-4) by (simp add: link_rel_def target_writes_cong [OF e(4)])
  ultimately show ?thesis by blast
qed

lemma same_common_flow [simp]: "same_common common c \<Longrightarrow> same_common common (c\<lparr>sc_flow := f\<rparr>)"
  by (auto simp: same_common_def)

text \<open>The message that arrives next.\<close>

lemma refine_up:
  assumes "link_rel common t i a k d c cn s w" "wire_inv ce common t i w" "w_up w = m # ms"
    "ol_sessions (outlet_input x m (lk_outlet s)) i \<noteq> None"
  shows "\<exists>cn' w'. wire_step ce common t i False w w' \<and>
    link_rel common t i a k d c cn' (s\<lparr>lk_outlet := outlet_input x m (lk_outlet s), lk_up := Suc (lk_up s)\<rparr>) w'"
proof -
  let ?o = "outlet_input x m (lk_outlet s)"
  from assms(1) have side: "out_side t i k (lk_outlet s) cn (w_out_queue w)" by (simp add: link_rel_def)
  from assms(1,3) have "drop (lk_up s) (sent (cx_out c)) = m # ms" by (simp add: link_rel_def)
  from drop_ConsD [OF this] have at: "drop (Suc (lk_up s)) (sent (cx_out c)) = ms" "Suc (lk_up s) \<le> length (sent (cx_out c))"
    by auto
  from assms(2,3) have "up_ok ce common t i m" by (simp add: wire_inv_def)
  then consider data where "m = I2OSendData t i data" | n where "m = I2ORecvDataResult t i n"
    unfolding up_ok_def by (cases m) auto
  then show ?thesis
  proof cases
    case (1 data)
    let ?w = "w\<lparr>w_up := ms, w_out_queue := w_out_queue w @ [m]\<rparr>"
    from outlet_data_effect(1) [OF side 1 assms(4)] have o: "out_side t i k ?o cn (w_out_queue w @ [m])"
      "ol_output ?o = ol_output (lk_outlet s)" "ol_written ?o = ol_written (lk_outlet s)" by simp_all
    have "wire_step ce common t i False w ?w" using assms(3) unfolding 1 by (rule wire_step.data_up)
    moreover have "link_rel common t i a k d c cn (s\<lparr>lk_outlet := ?o, lk_up := Suc (lk_up s)\<rparr>) ?w"
      using assms(1) o(1,2) at by (simp add: link_rel_def target_writes_cong [OF o(3)])
    ultimately show ?thesis by blast
  next
    case (2 n)
    let ?w = "w\<lparr>w_up := ms, w_out_window := flow_release (uint n) (w_out_window w)\<rparr>"
    let ?cn = "cn\<lparr>cn_common := (cn_common cn)\<lparr>sc_flow := flow_release (uint n) (sc_flow (cn_common cn))\<rparr>\<rparr>"
    from outlet_ack_effect [OF side 2] have o: "out_side t i k ?o ?cn (w_out_queue w)"
      "ol_output ?o = ol_output (lk_outlet s)" "ol_written ?o = ol_written (lk_outlet s)" by simp_all
    have "wire_step ce common t i False w ?w" using assms(3) unfolding 2 by (rule wire_step.ack_up)
    moreover have "link_rel common t i a k d c ?cn (s\<lparr>lk_outlet := ?o, lk_up := Suc (lk_up s)\<rparr>) ?w"
      using assms(1) o(1,2) at by (simp add: link_rel_def target_writes_cong [OF o(3)])
    ultimately show ?thesis by blast
  qed
qed

lemma refine_down:
  assumes "link_rel common t i a k d c cn s w" "wire_inv ce common t i w" "w_down w = m # ms"
    "in_sessions (inlet_input m (lk_inlet s)) i = Some a"
  shows "\<exists>c' w'. wire_step ce common t i False w w' \<and>
    link_rel common t i a k d c' cn (s\<lparr>lk_inlet := inlet_input m (lk_inlet s), lk_down := Suc (lk_down s)\<rparr>) w'"
proof -
  let ?l = "inlet_input m (lk_inlet s)"
  from assms(1) have side: "in_side a i d (lk_inlet s) c (w_in_queue w)" by (simp add: link_rel_def)
  from assms(1,3) have "drop (lk_down s) (ol_output (lk_outlet s)) = m # ms" by (simp add: link_rel_def)
  from drop_ConsD [OF this] have at: "drop (Suc (lk_down s)) (ol_output (lk_outlet s)) = ms"
    "Suc (lk_down s) \<le> length (ol_output (lk_outlet s))" by auto
  from assms(2,3) have "down_ok ce common t i m" by (simp add: wire_inv_def)
  then consider data where "m = O2IRecvData t i data" | n where "m = O2ISendDataResult t i n"
    unfolding down_ok_def by (cases m) auto
  then show ?thesis
  proof cases
    case (1 data)
    let ?w = "w\<lparr>w_down := ms, w_in_queue := w_in_queue w @ [m]\<rparr>"
    have "wire_step ce common t i False w ?w" using assms(3) unfolding 1 by (rule wire_step.data_down)
    moreover have "link_rel common t i a k d c cn (s\<lparr>lk_inlet := ?l, lk_down := Suc (lk_down s)\<rparr>) ?w"
      using assms(1) inlet_data_effect(1) [OF side 1 assms(4)] at by (simp add: link_rel_def)
    ultimately show ?thesis by blast
  next
    case (2 n)
    let ?w = "w\<lparr>w_down := ms, w_in_window := flow_release (uint n) (w_in_window w)\<rparr>"
    let ?c = "c\<lparr>cx_common := (cx_common c)\<lparr>sc_flow := flow_release (uint n) (sc_flow (cx_common c))\<rparr>\<rparr>"
    have "wire_step ce common t i False w ?w" using assms(3) unfolding 2 by (rule wire_step.ack_down)
    moreover have "link_rel common t i a k d ?c cn (s\<lparr>lk_inlet := ?l, lk_down := Suc (lk_down s)\<rparr>) ?w"
      using assms(1) inlet_ack_effect [OF side 2] at by (simp add: link_rel_def)
    ultimately show ?thesis by blast
  qed
qed

lemma refine_put:
  assumes "link_rel common t i a k d c cn s w" "wire_inv ce common t i w"
    "session_input_step True resolve ce i (lk_outlet s) = Some ol'"
  shows "\<exists>w'. wire_step ce common t i False w w' \<and> link_rel common t i a k d c cn (s\<lparr>lk_outlet := ol'\<rparr>) w'"
proof -
  from assms(1) have side: "out_side t i k (lk_outlet s) cn (w_out_queue w)" "same_common common (cn_common cn)"
    by (simp_all add: link_rel_def)
  obtain m ms where q: "w_out_queue w = m # ms" using write_step_waits side(1) assms(3) by (cases "w_out_queue w") auto
  with assms(2) have "data_up_ok ce common t i m" by (simp add: wire_inv_def)
  then obtain data x where m: "m = I2OSendData t i data" "decode_data ce common data = Inr x" by (cases m) auto
  have dec: "decode_data ce (cn_common cn) data = Inr x" using decode_same_common [OF side(2)] m(2) by simp
  from write_step_effect [OF side(1) [unfolded q] m(1) dec, of resolve] assms(3)
  have o: "out_side t i k ol' cn ms" "ol_output ol' = ol_output (lk_outlet s) @ [O2ISendDataResult t i (of_nat (length data))]"
    "ol_written ol' = ol_written (lk_outlet s) @ [(k, x, None)]" by auto
  let ?w = "w\<lparr>w_out_queue := ms, w_out_got := w_out_got w @ x, w_down := w_down w @ [O2ISendDataResult t i (of_nat (length data))]\<rparr>"
  have "wire_step ce common t i False w ?w" using q m by (intro wire_step.get_out) simp_all
  moreover have "link_rel common t i a k d c cn (s\<lparr>lk_outlet := ol'\<rparr>) ?w"
    using assms(1) o by (simp add: link_rel_def target_writes_def)
  ultimately show ?thesis by blast
qed

lemma refine_reply:
  assumes "shared ce common t i d" "link_rel common t i a k d c cn s w" "wire_inv ce common t i w"
    "proxy_loop_step env ans now a (lk_inlet s) = Some l'" "an_write ans"
  shows "\<exists>c' w'. wire_step ce common t i False w w' \<and> link_rel common t i a k d c' cn (s\<lparr>lk_inlet := l'\<rparr>) w'"
proof -
  from assms(2) have side: "in_side a i d (lk_inlet s) c (w_in_queue w)" "same_common common (cx_common c)"
    by (simp_all add: link_rel_def)
  obtain m ms where q: "w_in_queue w = m # ms" using reply_step_waits side(1) assms(4) by (cases "w_in_queue w") auto
  with assms(3) have "data_down_ok ce common t i m" by (simp add: wire_inv_def)
  then obtain data x where m: "m = O2IRecvData t i data" "decode_data ce common data = Inr x" by (cases m) auto
  have dec: "decode_data (cd_crypto d) (cx_common c) data = Inr x"
    using decode_same_common [OF side(2)] m(2) assms(1) by (simp add: shared_def)
  let ?c = "cx_emit (Send_Proxy (I2ORecvDataResult (cd_tunnel_id d) i (of_nat (length data)))) (cx_emit (Write_Peer x) c)"
  from reply_step_effect [OF side(1) [unfolded q] m(1) dec assms(5), of env now] assms(4)
  have l: "in_side a i d l' ?c ms" by auto
  let ?w = "w\<lparr>w_in_queue := ms, w_in_got := w_in_got w @ x, w_up := w_up w @ [I2ORecvDataResult t i (of_nat (length data))]\<rparr>"
  have "wire_step ce common t i False w ?w" using q m by (intro wire_step.get_in) simp_all
  moreover have "link_rel common t i a k d ?c cn (s\<lparr>lk_inlet := l'\<rparr>) ?w"
    using assms(1,2) l by (simp add: link_rel_def shared_def)
  ultimately show ?thesis by blast
qed

text \<open>The two components joined refine the specification.\<close>

definition link_inv ::
  "crypto_env \<Rightarrow> session_common_info \<Rightarrow> tunnel_id \<Rightarrow> session_id \<Rightarrow> nat \<Rightarrow> nat \<Rightarrow> context_data \<Rightarrow> link \<Rightarrow> wire \<Rightarrow> bool" where
  "link_inv ce common t i a k d s w \<longleftrightarrow>
     wire_inv ce common t i w \<and> (\<exists>c cn. link_rel common t i a k d c cn s w)"

lemma link_step_refines:
  assumes "shared ce common t i d" "link_inv ce common t i a k d s w" "link_step ce a i k busy s s'"
  shows "\<exists>w'. wire_step ce common t i busy w w' \<and> link_inv ce common t i a k d s' w'"
proof -
  from assms(2) obtain c cn where r: "link_rel common t i a k d c cn s w" and inv: "wire_inv ce common t i w"
    by (auto simp: link_inv_def)
  from r have side: "in_side a i d (lk_inlet s) c (w_in_queue w)" and
    streams: "w_up w = drop (lk_up s) (sent (cx_out c))" "w_down w = drop (lk_down s) (ol_output (lk_outlet s))"
    by (simp_all add: link_rel_def)
  note sends = up_stream_side [OF side]
  from assms(3) have "\<exists>c' cn' w'. wire_step ce common t i busy w w' \<and> link_rel common t i a k d c' cn' s' w'"
  proof cases
    case (peer env ans now payload l')
    with refine_peer [OF assms(1) r] show ?thesis by blast
  next
    case (up x ol')
    then have "w_up w = up_stream a (lk_inlet s) ! lk_up s # drop (Suc (lk_up s)) (sent (cx_out c))"
      using next_message streams(1) sends by simp
    with refine_up [OF r inv this] up show ?thesis by blast
  next
    case (put resolve ol')
    with refine_put [OF r inv] show ?thesis by blast
  next
    case (get random data "from" ol')
    with refine_read [OF assms(1) r] show ?thesis by blast
  next
    case (down l')
    then have "w_down w = ol_output (lk_outlet s) ! lk_down s # drop (Suc (lk_down s)) (ol_output (lk_outlet s))"
      using next_message streams(2) by simp
    with refine_down [OF r inv this] down show ?thesis by blast
  next
    case (reply env ans now l')
    with refine_reply [OF assms(1) r inv] show ?thesis by blast
  qed
  then show ?thesis using wire_step_inv [OF _ inv] unfolding link_inv_def by blast
qed

section \<open>Delivery\<close>

text \<open>What is queued can be written, and what is in a stream can arrive at an empty queue.\<close>

lemma quiet_put:
  assumes "link_inv ce common t i a k d s w" "w_out_queue w \<noteq> []"
  shows "\<exists>s'. link_step ce a i k False s s'"
proof -
  from assms(1) obtain c cn where r: "out_side t i k (lk_outlet s) cn (w_out_queue w)" "same_common common (cn_common cn)"
    and inv: "wire_inv ce common t i w" by (auto simp: link_inv_def link_rel_def)
  obtain m ms where q: "w_out_queue w = m # ms" using assms(2) by (cases "w_out_queue w") auto
  with inv have "data_up_ok ce common t i m" by (simp add: wire_inv_def)
  then obtain data x where m: "m = I2OSendData t i data" "decode_data ce common data = Inr x" by (cases m) auto
  have "decode_data ce (cn_common cn) data = Inr x" using decode_same_common [OF r(2)] m(2) by simp
  from write_step_effect [OF r(1) [unfolded q] m(1) this] show ?thesis by (blast intro: link_step.put)
qed

lemma quiet_reply:
  assumes "shared ce common t i d" "link_inv ce common t i a k d s w" "w_in_queue w \<noteq> []"
  shows "\<exists>s'. link_step ce a i k False s s'"
proof -
  from assms(2) obtain c cn where r: "in_side a i d (lk_inlet s) c (w_in_queue w)" "same_common common (cx_common c)"
    and inv: "wire_inv ce common t i w" by (auto simp: link_inv_def link_rel_def)
  obtain m ms where q: "w_in_queue w = m # ms" using assms(3) by (cases "w_in_queue w") auto
  with inv have "data_down_ok ce common t i m" by (simp add: wire_inv_def)
  then obtain data x where m: "m = O2IRecvData t i data" "decode_data ce common data = Inr x" by (cases m) auto
  have "decode_data (cd_crypto d) (cx_common c) data = Inr x"
    using decode_same_common [OF r(2)] m(2) assms(1) by (simp add: shared_def)
  moreover have "an_write ex_socks5_answers" by (simp add: ex_socks5_answers_def)
  ultimately show ?thesis using reply_step_effect [OF r(1) [unfolded q] m(1)] by (blast intro: link_step.reply)
qed

lemma quiet_up:
  assumes "link_inv ce common t i a k d s w" "w_out_queue w = []" "w_up w \<noteq> []"
  shows "\<exists>s'. link_step ce a i k False s s'"
proof -
  from assms(1) obtain c cn where r: "link_rel common t i a k d c cn s w" and inv: "wire_inv ce common t i w"
    by (auto simp: link_inv_def)
  from r have sides: "in_side a i d (lk_inlet s) c (w_in_queue w)" "out_side t i k (lk_outlet s) cn (w_out_queue w)"
    by (simp_all add: link_rel_def)
  obtain m ms where q: "w_up w = m # ms" using assms(3) by (cases "w_up w") auto
  with r have "drop (lk_up s) (up_stream a (lk_inlet s)) = m # ms" by (simp add: link_rel_def up_stream_side [OF sides(1)])
  from drop_ConsD [OF this] have at: "lk_up s < length (up_stream a (lk_inlet s))" "up_stream a (lk_inlet s) ! lk_up s = m" by auto
  from inv q have "up_ok ce common t i m" by (simp add: wire_inv_def)
  then consider data where "m = I2OSendData t i data" | n where "m = I2ORecvDataResult t i n"
    unfolding up_ok_def by (cases m) auto
  then have "ol_sessions (outlet_input 0 m (lk_outlet s)) i \<noteq> None"
  proof cases
    case (1 data)
    from outlet_data_effect(2) [OF sides(2) 1] assms(2) show ?thesis by (simp add: default_proxy_queue_capacity_def)
  next
    case (2 n)
    from outlet_ack_effect [OF sides(2) 2] show ?thesis by (auto simp: out_side_def)
  qed
  with at show ?thesis by (blast intro: link_step.up)
qed

lemma quiet_down:
  assumes "link_inv ce common t i a k d s w" "w_in_queue w = []" "w_down w \<noteq> []"
  shows "\<exists>s'. link_step ce a i k False s s'"
proof -
  from assms(1) obtain c cn where r: "link_rel common t i a k d c cn s w" and inv: "wire_inv ce common t i w"
    by (auto simp: link_inv_def)
  from r have side: "in_side a i d (lk_inlet s) c (w_in_queue w)" by (simp add: link_rel_def)
  obtain m ms where q: "w_down w = m # ms" using assms(3) by (cases "w_down w") auto
  with r have "drop (lk_down s) (ol_output (lk_outlet s)) = m # ms" by (simp add: link_rel_def)
  from drop_ConsD [OF this] have at: "lk_down s < length (ol_output (lk_outlet s))" "ol_output (lk_outlet s) ! lk_down s = m" by auto
  from inv q have "down_ok ce common t i m" by (simp add: wire_inv_def)
  then consider data where "m = O2IRecvData t i data" | n where "m = O2ISendDataResult t i n"
    unfolding down_ok_def by (cases m) auto
  then have "in_sessions (inlet_input m (lk_inlet s)) i = Some a"
  proof cases
    case (1 data)
    from inlet_data_effect(2) [OF side 1] assms(2) show ?thesis by (simp add: default_proxy_queue_capacity_def)
  next
    case (2 n)
    from inlet_ack_effect [OF side 2] show ?thesis by (simp add: in_side_def)
  qed
  with at show ?thesis by (blast intro: link_step.down)
qed

text \<open>A session right after its connection: everything sent has arrived, no data has been sent.\<close>

definition link_start :: "session_common_info \<Rightarrow> tunnel_id \<Rightarrow> session_id \<Rightarrow> nat \<Rightarrow> nat \<Rightarrow> context_data \<Rightarrow> link \<Rightarrow> bool" where
  "link_start common t i a k d s \<longleftrightarrow>
     (\<exists>c cn. in_side a i d (lk_inlet s) c [] \<and> out_side t i k (lk_outlet s) cn [] \<and>
        cx_common c = common \<and> cn_common cn = common \<and> peer_writes (cx_out c) = []) \<and>
     lk_up s = length (up_stream a (lk_inlet s)) \<and> lk_down s = length (ol_output (lk_outlet s)) \<and>
     target_writes k (lk_outlet s) = [] \<and> lk_in s = [] \<and> lk_out s = []"

lemma link_start_inv:
  assumes "shared ce common t i d" "link_start common t i a k d s"
  shows "\<exists>w. link_inv ce common t i a k d s w"
proof -
  from assms(2) obtain c cn where c: "in_side a i d (lk_inlet s) c []" "out_side t i k (lk_outlet s) cn []"
    "cx_common c = common" "cn_common cn = common" "peer_writes (cx_out c) = []"
    and l: "lk_up s = length (up_stream a (lk_inlet s))" "lk_down s = length (ol_output (lk_outlet s))"
      "target_writes k (lk_outlet s) = []" "lk_in s = []" "lk_out s = []" by (auto simp: link_start_def)
  let ?w = "\<lparr>w_in_window = sc_flow common, w_out_window = sc_flow common, w_up = [], w_down = [], w_in_queue = [],
    w_out_queue = [], w_in_given = [], w_out_got = [], w_out_given = [], w_in_got = []\<rparr>"
  have "flow_ok (sc_flow common) {#}"
    using assms(1) flow_ok_new by (auto simp: shared_def new_session_common_info_def)
  then have "wire_inv ce common t i ?w" by (simp add: wire_inv_def on_way_def)
  moreover have "link_rel common t i a k d c cn s ?w"
    using c l by (simp add: link_rel_def up_stream_side [OF c(1)])
  ultimately show ?thesis unfolding link_inv_def by blast
qed

lemma link_run_inv:
  assumes "shared ce common t i d" "link_start common t i a k d s0" "(\<lambda>x y. \<exists>busy. link_step ce a i k busy x y)\<^sup>*\<^sup>* s0 s"
  shows "\<exists>w. link_inv ce common t i a k d s w"
  using assms(3)
proof (induction rule: rtranclp_induct)
  case base
  from link_start_inv [OF assms(1,2)] show ?case .
next
  case (step s s')
  with link_step_refines [OF assms(1)] show ?case by blast
qed

lemma quiet_steps_bounded:
  assumes "shared ce common t i d" "link_inv ce common t i a k d s w" "(link_step ce a i k False ^^ n) s s'"
  shows "n \<le> wire_work w"
  using assms(2,3)
proof (induction n arbitrary: s w)
  case (Suc n)
  from Suc.prems(2) obtain s1 where s1: "link_step ce a i k False s s1" "(link_step ce a i k False ^^ n) s1 s'"
    by (blast elim: relpowp_Suc_E2)
  from link_step_refines [OF assms(1) Suc.prems(1) s1(1)] obtain w1 where
    "wire_step ce common t i False w w1" "link_inv ce common t i a k d s1 w1" by blast
  with Suc.IH s1(2) wire_step_work show ?case by (metis Suc_leI le_less_trans)
qed simp


section \<open>Examples\<close>

text \<open>A TCP session accepted, started, asked for, dialled, installed, answered and connected.\<close>

definition ex_link_in_1 :: inlet where
  "ex_link_in_1 = snd (run_tcp_conn 1 ''q'' 1 (snd (accept_tcp (Accepted True) 0 (ex_inlet mode_tcp))))"
definition ex_link_in_2 :: inlet where "ex_link_in_2 = the (start_session ex_inlet_env ex_socks5_answers 0 ex_link_in_1)"
definition ex_link_out :: outlet where
  "ex_link_out = finish_connect_attempt 0 (answer_connect 0 (install_connected_session 0 (attempt_dial 0 0 '''' Dial_Open
     (outlet_input 0 (up_stream 0 ex_link_in_2 ! 0) new_outlet))))"
definition ex_link_in :: inlet where
  "ex_link_in = the (proxy_loop_step ex_inlet_env ex_socks5_answers 2 0 (inlet_input (ol_output ex_link_out ! 0) ex_link_in_2))"
definition ex_link :: link where
  "ex_link = \<lparr>lk_inlet = ex_link_in, lk_outlet = ex_link_out, lk_up = 1, lk_down = 1, lk_in = [], lk_out = []\<rparr>"


text \<open>Two bytes given by the peer, which arrive and are written.\<close>

definition ex_link_1 :: link where
  "ex_link_1 = ex_link\<lparr>lk_inlet := the (peer_data_step ex_inlet_env ex_socks5_answers 3 [104, 105] 0 (lk_inlet ex_link)),
     lk_in := lk_in ex_link @ [104, 105]\<rparr>"
lemma data_upd [simp]:
  "si_data (f (in_store l ! a)) = si_data (in_store l ! a) \<Longrightarrow> si_data (in_store (upd_session a f l) ! b) = si_data (in_store l ! b)"
  by (cases "a = b") (auto simp: upd_session_def)

lemma data_close [simp]: "si_data (in_store (inlet_close_session j l) ! b) = si_data (in_store l ! b)"
  by (auto simp: inlet_close_session_def remove_session_def begin_shutdown_def Let_def split: option.split)

lemma data_loop: "proxy_loop_step env ans now a l = Some l' \<Longrightarrow> si_data (in_store l' ! b) = si_data (in_store l ! b)"
  by (auto simp: proxy_loop_step_def handle_proxy_message_def Let_def split: option.splits prod.splits bool.splits if_splits)

lemma data_input: "si_data (in_store (inlet_input m l) ! b) = si_data (in_store l ! b)"
  by (auto simp: inlet_input_def Let_def split: option.splits prod.splits proxy_message.splits)

lemma data_start: "start_session env ans a l = Some l' \<Longrightarrow> si_data (in_store l' ! b) = si_data (in_store l ! b)"
  by (auto simp: start_session_def Let_def split: option.splits prod.splits if_splits)

definition ex_link_data :: context_data where "ex_link_data = session_data 1 ''q'' (ex_inlet mode_tcp)"

lemma ex_data: "si_data (in_store ex_link_in ! 0) = ex_link_data"
proof -
  have "case start_session ex_inlet_env ex_socks5_answers 0 ex_link_in_1 of None \<Rightarrow> False | Some _ \<Rightarrow> True" by code_simp
  then have start: "start_session ex_inlet_env ex_socks5_answers 0 ex_link_in_1 = Some ex_link_in_2"
    by (auto simp: ex_link_in_2_def split: option.splits)
  have "case proxy_loop_step ex_inlet_env ex_socks5_answers 2 0 (inlet_input (ol_output ex_link_out ! 0) ex_link_in_2) of
    None \<Rightarrow> False | Some _ \<Rightarrow> True" by code_simp
  then have "proxy_loop_step ex_inlet_env ex_socks5_answers 2 0 (inlet_input (ol_output ex_link_out ! 0) ex_link_in_2) = Some ex_link_in"
    by (auto simp: ex_link_in_def split: option.splits)
  then have "si_data (in_store ex_link_in ! 0) = si_data (in_store ex_link_in_1 ! 0)"
    by (simp add: data_loop data_input data_start [OF start])
  also have "\<dots> = ex_link_data"
    by (simp add: ex_link_in_1_def ex_link_data_def run_tcp_conn_def run_session_def accept_tcp_def reserve_session_slot_def
        ex_inlet_def new_inlet_def new_inlet_session_def session_data_def Let_def max_inlet_sessions_def)
  finally show ?thesis .
qed

lemma ex_shared: "shared example_crypto plain_common 3 1 ex_link_data"
  using lawful_example_crypto
  by (auto simp: shared_def plain_common_def ex_link_data_def session_data_def ex_inlet_def new_inlet_def)

lemma ex_link_starts: "link_start plain_common 3 1 0 0 ex_link_data ex_link"
proof -
  let ?s = "in_store ex_link_in ! 0"
  have "case si_handler ?s of Universal c \<Rightarrow> uc_started c \<and> cx_common c = plain_common \<and> peer_writes (cx_out c) = [] | _ \<Rightarrow> False"
    by code_simp
  then obtain c where c: "si_handler ?s = Universal c" "uc_started c" "cx_common c = plain_common" "peer_writes (cx_out c) = []"
    by (cases "si_handler ?s") auto
  have "0 < length (in_store ex_link_in) \<and> in_sessions ex_link_in 1 = Some 0 \<and> si_id ?s = 1 \<and> si_phase ?s = Open_Session \<and>
    ring_inv (si_input ?s) \<and> \<not> rg_closed (si_input ?s) \<and> rg_max (si_input ?s) = nat default_proxy_queue_capacity \<and>
    rg_size (si_input ?s) = 0" by code_simp
  then have i: "in_side 0 1 ex_link_data ex_link_in c []" by (simp add: in_side_def ex_data c ring_contents_def)
  have "case ol_sessions ex_link_out 1 of None \<Rightarrow> False | Some s \<Rightarrow> os_conn s = 0 \<and> ring_inv (os_queue s) \<and>
    \<not> rg_closed (os_queue s) \<and> rg_max (os_queue s) = nat default_proxy_queue_capacity \<and> rg_size (os_queue s) = 0" by code_simp
  then obtain s where s: "ol_sessions ex_link_out 1 = Some s" "os_conn s = 0" "ring_inv (os_queue s)"
    "\<not> rg_closed (os_queue s)" "rg_max (os_queue s) = nat default_proxy_queue_capacity" "rg_size (os_queue s) = 0"
    by (auto split: option.splits)
  have "case ol_conns ex_link_out 0 of None \<Rightarrow> False | Some cn \<Rightarrow> cn_common cn = plain_common" by code_simp
  then obtain cn where cn: "ol_conns ex_link_out 0 = Some cn" "cn_common cn = plain_common" by (auto split: option.splits)
  have "case ol_readers ex_link_out 0 of None \<Rightarrow> False | Some r \<Rightarrow> or_tunnel r = 3 \<and> or_session r = 1 \<and> \<not> or_remote_addr r" by code_simp
  then have r: "ol_readers ex_link_out 0 = Some \<lparr>or_tunnel = 3, or_session = 1, or_remote_addr = False\<rparr>" by (auto split: option.splits)
  have "s = \<lparr>os_conn = 0, os_queue = os_queue s\<rparr>" using s(2) by (cases s) simp
  with s(1) have "ol_sessions ex_link_out 1 = Some \<lparr>os_conn = 0, os_queue = os_queue s\<rparr>" by simp
  then have o: "out_side 3 1 0 ex_link_out cn []"
    unfolding out_side_def using s(3-6) cn(1) r by (intro conjI exI [of _ "os_queue s"]) (simp_all add: ring_contents_def)
  have "length (up_stream 0 ex_link_in) = 1 \<and> length (ol_output ex_link_out) = 1 \<and> target_writes 0 ex_link_out = []" by code_simp
  with i o c cn show ?thesis unfolding link_start_def by (auto simp: ex_link_def)
qed

lemma ex_link_first: "link_step example_crypto 0 1 0 True ex_link ex_link_1"
proof -
  have "case peer_data_step ex_inlet_env ex_socks5_answers 3 [104, 105] 0 (lk_inlet ex_link) of
    None \<Rightarrow> False | Some l \<Rightarrow> in_sessions l 1 = Some 0" by code_simp
  then show ?thesis by (auto simp: ex_link_1_def intro: link_step.peer split: option.splits)
qed

lemma bounded_steps_end:
  assumes "\<forall>m s'. (r ^^ m) s s' \<longrightarrow> m \<le> n"
  shows "\<exists>s'. r\<^sup>*\<^sup>* s s' \<and> (\<forall>s''. \<not> r s' s'')"
proof (rule ccontr)
  assume "\<nexists>s'. r\<^sup>*\<^sup>* s s' \<and> (\<forall>s''. \<not> r s' s'')"
  then have on: "\<exists>s''. r s' s''" if "r\<^sup>*\<^sup>* s s'" for s' using that by blast
  have "\<exists>s'. (r ^^ m) s s'" for m
  proof (induction m)
    case (Suc m)
    then obtain s' where "(r ^^ m) s s'" by blast
    with on [of s'] show ?case by (meson relpowp_Suc_I relpowp_imp_rtranclp)
  qed simp
  then obtain s' where "(r ^^ Suc n) s s'" by blast
  with assms show False by (metis Suc_n_not_le_n)
qed

lemma quiet_gives_nothing: "(link_step ce a i k False)\<^sup>*\<^sup>* s s' \<Longrightarrow> lk_in s' = lk_in s \<and> lk_out s' = lk_out s"
  by (induction rule: rtranclp_induct) (auto elim: link_step.cases)


end
