(* ===== verification/Go_Base64_Url.thy ===== *)
theory Go_Base64_Url
  imports Go_Base64 Go_Strings
begin

text \<open>
  Go's \<open>base64.RawURLEncoding\<close>: the URL alphabet without padding.  \<open>None\<close> stands for the error of
  \<open>DecodeString\<close>, which skips line breaks and does not look at the unused bits of the last character.
\<close>

definition url_of_std :: "char \<Rightarrow> char" where
  "url_of_std c = (if c = CHR ''+'' then CHR ''-'' else if c = CHR ''/'' then CHR ''_'' else c)"

definition std_of_url :: "char \<Rightarrow> char" where
  "std_of_url c = (if c = CHR ''-'' then CHR ''+'' else if c = CHR ''_'' then CHR ''/'' else c)"

definition raw_url_encode :: "byte list \<Rightarrow> string" where
  "raw_url_encode bs = map url_of_std (filter (\<lambda>c. c \<noteq> CHR ''='') (b64_encode bs))"

definition raw_url_decode :: "string \<Rightarrow> byte list option" where
  "raw_url_decode s0 =
     (let s = filter (\<lambda>c. of_char c \<noteq> (10 :: nat) \<and> of_char c \<noteq> (13 :: nat)) s0 in
      if \<not> list_all (\<lambda>c. c \<notin> {CHR ''+'', CHR ''/'', CHR ''=''}) s \<or> length s mod 4 = 1 then None
      else b64_decode_quads (map std_of_url s @ replicate ((4 - length s mod 4) mod 4) CHR ''=''))"

definition is_raw_url_char :: "char \<Rightarrow> bool" where
  "is_raw_url_char c \<longleftrightarrow> byte_in 48 57 c \<or> byte_in 65 90 c \<or> byte_in 97 122 c \<or> c = CHR ''-'' \<or> c = CHR ''_''"

lemma char_by_code: "c = d \<longleftrightarrow> (of_char c :: nat) = of_char d"
  by simp

lemma url_char:
  assumes "n < 64"
  shows "is_raw_url_char (url_of_std (b64_char n))" "std_of_url (url_of_std (b64_char n)) = b64_char n"
proof -
  have "n = 62 \<or> n = 63 \<or> n < 26 \<or> 26 \<le> n \<and> n < 52 \<or> 52 \<le> n \<and> n < 62" using assms by linarith
  then consider "n = 62" | "n = 63" | "b64_char n = char_of (65 + n)" "n < 26" | "b64_char n = char_of (71 + n)" "26 \<le> n" "n < 52"
    | "b64_char n = char_of (n - 4)" "52 \<le> n" "n < 62"
    by (auto simp: b64_char_def)
  then have "is_raw_url_char (url_of_std (b64_char n)) \<and> std_of_url (url_of_std (b64_char n)) = b64_char n"
  proof cases
    case 1
    then show ?thesis by (simp add: b64_char_def url_of_std_def std_of_url_def is_raw_url_char_def)
  next
    case 2
    then show ?thesis by (simp add: b64_char_def url_of_std_def std_of_url_def is_raw_url_char_def)
  next
    case 3
    then have "url_of_std (b64_char n) = b64_char n" "std_of_url (b64_char n) = b64_char n"
      by (simp_all add: url_of_std_def std_of_url_def char_by_code del: of_char_eq_iff)
    with 3 show ?thesis by (simp add: is_raw_url_char_def byte_in_def)
  next
    case 4
    then have "url_of_std (b64_char n) = b64_char n" "std_of_url (b64_char n) = b64_char n"
      by (simp_all add: url_of_std_def std_of_url_def char_by_code del: of_char_eq_iff)
    with 4 show ?thesis by (simp add: is_raw_url_char_def byte_in_def)
  next
    case 5
    then have "url_of_std (b64_char n) = b64_char n" "std_of_url (b64_char n) = b64_char n"
      by (auto simp: url_of_std_def std_of_url_def char_by_code simp del: of_char_eq_iff)
    with 5 show ?thesis by (auto simp: is_raw_url_char_def byte_in_def)
  qed
  then show "is_raw_url_char (url_of_std (b64_char n))" "std_of_url (url_of_std (b64_char n)) = b64_char n" by simp_all
qed

text \<open>A standard encoding is its characters and up to two signs of padding.\<close>

lemma b64_encode_shape:
  "\<exists>ns k. b64_encode bs = map b64_char ns @ replicate k CHR ''='' \<and> (\<forall>n \<in> set ns. n < 64) \<and>
     length ns mod 4 \<noteq> 1 \<and> k = (4 - length ns mod 4) mod 4"
proof (induction bs rule: b64_encode.induct)
  case 1
  show ?case by (intro exI [of _ "[]"] exI [of _ 0]) simp
next
  case (2 a)
  let ?n = "unat a * 65536"
  show ?case using b64_quad_less [OF byte_less [of a], of 0 0]
    by (intro exI [of _ "[?n div 262144, ?n div 4096 mod 64]"] exI [of _ 2])
      (simp add: b64_quad_def Let_def numeral_2_eq_2)
next
  case (3 a b)
  let ?n = "unat a * 65536 + unat b * 256"
  show ?case using b64_quad_less [OF byte_less [of a] byte_less [of b], of 0]
    by (intro exI [of _ "[?n div 262144, ?n div 4096 mod 64, ?n div 64 mod 64]"] exI [of _ 1])
      (simp add: b64_quad_def Let_def)
next
  case (4 a b c bs)
  then obtain ns k where ns: "b64_encode bs = map b64_char ns @ replicate k CHR ''=''" "\<forall>n \<in> set ns. n < 64"
    "length ns mod 4 \<noteq> 1" "k = (4 - length ns mod 4) mod 4" by blast
  let ?n = "unat a * 65536 + unat b * 256 + unat c"
  show ?case
  proof (intro exI conjI)
    show "b64_encode (a # b # c # bs) =
        map b64_char ([?n div 262144, ?n div 4096 mod 64, ?n div 64 mod 64, ?n mod 64] @ ns) @ replicate k CHR ''=''"
      by (simp add: b64_quad_def Let_def ns(1))
    show "\<forall>n \<in> set ([?n div 262144, ?n div 4096 mod 64, ?n div 64 mod 64, ?n mod 64] @ ns). n < 64"
      using ns(2) b64_quad_less [OF byte_less [of a] byte_less [of b] byte_less [of c]] by auto
  qed (use ns(3,4) in simp_all)
qed

lemma raw_url_shape:
  obtains ns k where "b64_encode bs = map b64_char ns @ replicate k CHR ''=''" "\<forall>n \<in> set ns. n < 64"
    "length ns mod 4 \<noteq> 1" "k = (4 - length ns mod 4) mod 4" "raw_url_encode bs = map (\<lambda>n. url_of_std (b64_char n)) ns"
proof -
  obtain ns k where ns: "b64_encode bs = map b64_char ns @ replicate k CHR ''=''" "\<forall>n \<in> set ns. n < 64"
    "length ns mod 4 \<noteq> 1" "k = (4 - length ns mod 4) mod 4" using b64_encode_shape by blast
  have "filter (\<lambda>c. c \<noteq> CHR ''='') (map b64_char ns) = map b64_char ns"
    using ns(2) by (intro filter_True) auto
  then have "raw_url_encode bs = map (\<lambda>n. url_of_std (b64_char n)) ns"
    by (simp add: raw_url_encode_def ns(1) comp_def)
  with ns that show thesis by blast
qed

lemma raw_url_encode_chars: "c \<in> set (raw_url_encode bs) \<Longrightarrow> is_raw_url_char c"
  by (rule raw_url_shape [of bs]) (auto simp: url_char)

lemma raw_url_char_plain:
  assumes "is_raw_url_char c"
  shows "of_char c \<noteq> (10 :: nat)" "of_char c \<noteq> (13 :: nat)" "c \<notin> {CHR ''+'', CHR ''/'', CHR ''='', CHR ''.''}"
  using assms by (auto simp: is_raw_url_char_def byte_in_def)

lemma raw_url_decode_encode [simp]: "raw_url_decode (raw_url_encode bs) = Some bs"
proof -
  obtain ns k where ns: "b64_encode bs = map b64_char ns @ replicate k CHR ''=''" "\<forall>n \<in> set ns. n < 64"
    "length ns mod 4 \<noteq> 1" "k = (4 - length ns mod 4) mod 4"
    and e: "raw_url_encode bs = map (\<lambda>n. url_of_std (b64_char n)) ns" by (rule raw_url_shape)
  have f: "filter (\<lambda>c. of_char c \<noteq> (10 :: nat) \<and> of_char c \<noteq> (13 :: nat)) (raw_url_encode bs) = raw_url_encode bs"
    by (intro filter_True) (auto dest: raw_url_encode_chars raw_url_char_plain)
  have l: "list_all (\<lambda>c. c \<notin> {CHR ''+'', CHR ''/'', CHR ''=''}) (raw_url_encode bs)"
    using raw_url_encode_chars [of _ bs] raw_url_char_plain(3) by (fastforce simp: list_all_iff)
  have m: "map std_of_url (raw_url_encode bs) = map b64_char ns"
    using ns(2) by (auto simp: e url_char)
  have n: "length (raw_url_encode bs) = length ns" by (simp add: e)
  have "raw_url_decode (raw_url_encode bs) = b64_decode_quads (map b64_char ns @ replicate k CHR ''='')"
    unfolding raw_url_decode_def Let_def f m n using l ns(3) ns(4) by simp
  then show ?thesis by (simp only: ns(1) [symmetric] b64_decode_quads_encode)
qed

end
