(* ===== verification/Client_Build.thy ===== *)
theory Client_Build
  imports Go_Base64_Url Upgrade_Offer User_Store
begin

text \<open>
  The clients the server builds for its players: the settings and their tables
  (\<open>internal/model/client_build_settings.go\<close>, \<open>internal/store/client_build_settings_store.go\<close>), the platforms,
  the checks and the patching of templates (\<open>internal/clientbuild/builder.go\<close>), and the configuration inside a
  client (\<open>internal/clientbin/config.go\<close>, \<open>cmd/client/embedded.go\<close>).

  Parameters: \<open>url.Parse\<close> (scheme and host), the JSON coding of the embedded configuration, SHA-256, the
  template directory, the manifest beside a template and the compiler, each by what it answers.  The
  artifact cache is a map from keys to contents.
\<close>

section \<open>Settings\<close>

record build_settings =
  bs_server :: string
  bs_enable_tls :: bool
  bs_tls_server_name :: string
  bs_use_shadowsocks :: bool
  bs_ss_server :: string
  bs_ss_method :: string
  bs_ss_password :: string

definition settings_ss_method :: string where "settings_ss_method = ''chacha20-ietf-poly1305''"

definition default_client_build_settings :: build_settings where
  "default_client_build_settings =
     \<lparr>bs_server = '''', bs_enable_tls = False, bs_tls_server_name = '''', bs_use_shadowsocks = False,
      bs_ss_server = '''', bs_ss_method = settings_ss_method, bs_ss_password = ''''\<rparr>"

text \<open>The store and the builder have each their own copy of this function.\<close>

definition normalize_client_build_settings :: "build_settings \<Rightarrow> build_settings" where
  "normalize_client_build_settings s0 =
     (let s = s0\<lparr>bs_server := trim_space (bs_server s0), bs_tls_server_name := trim_space (bs_tls_server_name s0),
               bs_ss_server := trim_space (bs_ss_server s0), bs_ss_method := trim_space (bs_ss_method s0),
               bs_ss_password := trim_space (bs_ss_password s0)\<rparr>;
          s = (if bs_ss_method s = '''' then s\<lparr>bs_ss_method := settings_ss_method\<rparr> else s)
      in if \<not> bs_use_shadowsocks s
         then s\<lparr>bs_ss_server := '''', bs_ss_method := settings_ss_method, bs_ss_password := ''''\<rparr>
         else s)"

definition normalize_settings :: "build_settings \<Rightarrow> build_settings" where
  "normalize_settings s = normalize_client_build_settings s"

text \<open>A row of the tables, with the integers SQL has for the flags; one table has the row with id 1 only.\<close>

record settings_row =
  sr_server :: string
  sr_enable_tls :: int
  sr_tls_server_name :: string
  sr_use_shadowsocks :: int
  sr_ss_server :: string
  sr_ss_method :: string
  sr_ss_password :: string

record settings_store =
  cs_global :: "settings_row option"
  cs_player :: "u32 \<rightharpoonup> settings_row"

definition bool_to_int :: "bool \<Rightarrow> int" where
  "bool_to_int v = (if v then 1 else 0)"

definition settings_to_row :: "build_settings \<Rightarrow> settings_row" where
  "settings_to_row s =
     \<lparr>sr_server = bs_server s, sr_enable_tls = bool_to_int (bs_enable_tls s),
      sr_tls_server_name = bs_tls_server_name s, sr_use_shadowsocks = bool_to_int (bs_use_shadowsocks s),
      sr_ss_server = bs_ss_server s, sr_ss_method = bs_ss_method s, sr_ss_password = bs_ss_password s\<rparr>"

definition scan_client_build_settings :: "settings_row \<Rightarrow> build_settings" where
  "scan_client_build_settings r =
     \<lparr>bs_server = sr_server r, bs_enable_tls = (sr_enable_tls r = 1), bs_tls_server_name = sr_tls_server_name r,
      bs_use_shadowsocks = (sr_use_shadowsocks r = 1), bs_ss_server = sr_ss_server r,
      bs_ss_method = sr_ss_method r, bs_ss_password = sr_ss_password r\<rparr>"

definition settings_get :: "string option \<Rightarrow> settings_store \<Rightarrow> string + build_settings" where
  "settings_get db s =
     (case db of
        Some e \<Rightarrow> Inl e
      | None \<Rightarrow>
          Inr (case cs_global s of
                 None \<Rightarrow> default_client_build_settings
               | Some r \<Rightarrow> normalize_client_build_settings (scan_client_build_settings r)))"

definition settings_get_for_player ::
  "string option \<Rightarrow> string option \<Rightarrow> u32 \<Rightarrow> settings_store \<Rightarrow> string + (build_settings \<times> bool)" where
  "settings_get_for_player db db_global p s =
     (case db of
        Some e \<Rightarrow> Inl e
      | None \<Rightarrow>
          (case cs_player s p of
             None \<Rightarrow> map_sum id (\<lambda>r. (r, False)) (settings_get db_global s)
           | Some r \<Rightarrow> Inr (normalize_client_build_settings (scan_client_build_settings r), True)))"

definition settings_save :: "string option \<Rightarrow> build_settings \<Rightarrow> settings_store \<Rightarrow> string option \<times> settings_store" where
  "settings_save db v s =
     (case db of
        Some e \<Rightarrow> (Some e, s)
      | None \<Rightarrow> (None, s\<lparr>cs_global := Some (settings_to_row (normalize_client_build_settings v))\<rparr>))"

text \<open>The foreign key refuses a row for a player who is not in the table of players.\<close>

definition settings_save_for_player ::
  "string option \<Rightarrow> user_table \<Rightarrow> u32 \<Rightarrow> build_settings \<Rightarrow> settings_store \<Rightarrow> string option \<times> settings_store" where
  "settings_save_for_player db users p v s =
     (case db of
        Some e \<Rightarrow> (Some e, s)
      | None \<Rightarrow>
          if p \<notin> u_id ` set users then (Some ''FOREIGN KEY constraint failed'', s)
          else (None, s\<lparr>cs_player := (cs_player s)(p \<mapsto> settings_to_row (normalize_client_build_settings v))\<rparr>))"

text \<open>\<open>ON DELETE CASCADE\<close>: what deleting rows of the table of players leaves of the settings.\<close>

definition settings_cascade :: "user_table \<Rightarrow> settings_store \<Rightarrow> settings_store" where
  "settings_cascade users s = s\<lparr>cs_player := (\<lambda>p. if p \<in> u_id ` set users then cs_player s p else None)\<rparr>"

lemma trim_space_Nil [simp]: "trim_space '''' = ''''"
  by (simp add: trim_space_def trim_left_def trim_right_def trim_prefixes_id has_prefix_def)

lemma normalize_settings_idem [simp]:
  "normalize_client_build_settings (normalize_client_build_settings s) = normalize_client_build_settings s"
proof -
  have "trim_space settings_ss_method = settings_ss_method" "settings_ss_method \<noteq> ''''" by code_simp+
  then show ?thesis by (cases s) (simp add: normalize_client_build_settings_def Let_def)
qed

lemma scan_to_row [simp]: "scan_client_build_settings (settings_to_row s) = s"
  by (cases s) (simp add: scan_client_build_settings_def settings_to_row_def bool_to_int_def)

text \<open>What was saved is what is read: a player's own settings, and the common ones for everyone else.\<close>

lemma settings_saved:
  assumes "settings_save_for_player None users p v s = (None, s')"
  shows "settings_get_for_player None None q s' =
    (if q = p then Inr (normalize_client_build_settings v, True) else settings_get_for_player None None q s)"
  using assms
  by (auto simp: settings_save_for_player_def settings_get_for_player_def settings_get_def split: if_splits option.splits)

lemma settings_saved_global:
  assumes "settings_save None v s = (None, s')"
  shows "settings_get None s' = Inr (normalize_client_build_settings v)"
    and "cs_player s p = None \<Longrightarrow> settings_get_for_player None None p s' = Inr (normalize_client_build_settings v, False)"
  using assms by (auto simp: settings_save_def settings_get_for_player_def settings_get_def)

section \<open>Platforms\<close>

record client_target =
  tg_id :: string
  tg_goos :: string
  tg_goarch :: string
  tg_goarm :: string
  tg_filename :: string
  tg_template :: string

definition supported_targets :: "client_target list" where
  "supported_targets =
     [\<lparr>tg_id = ''windows-amd64'', tg_goos = ''windows'', tg_goarch = ''amd64'', tg_goarm = '''',
       tg_filename = ''gpipe-client.exe'', tg_template = ''gpipe-client-template-windows-amd64.exe''\<rparr>,
      \<lparr>tg_id = ''windows-arm64'', tg_goos = ''windows'', tg_goarch = ''arm64'', tg_goarm = '''',
       tg_filename = ''gpipe-client.exe'', tg_template = ''gpipe-client-template-windows-arm64.exe''\<rparr>,
      \<lparr>tg_id = ''linux-amd64'', tg_goos = ''linux'', tg_goarch = ''amd64'', tg_goarm = '''',
       tg_filename = ''gpipe-client'', tg_template = ''gpipe-client-template-linux-amd64''\<rparr>,
      \<lparr>tg_id = ''linux-arm64'', tg_goos = ''linux'', tg_goarch = ''arm64'', tg_goarm = '''',
       tg_filename = ''gpipe-client'', tg_template = ''gpipe-client-template-linux-arm64''\<rparr>,
      \<lparr>tg_id = ''linux-armv7'', tg_goos = ''linux'', tg_goarch = ''arm'', tg_goarm = ''7'',
       tg_filename = ''gpipe-client'', tg_template = ''gpipe-client-template-linux-armv7''\<rparr>]"

definition lookup_target :: "string \<Rightarrow> client_target option" where
  "lookup_target i = find (\<lambda>t. tg_id t = trim_space i) supported_targets"

definition download_filename :: "u32 \<Rightarrow> client_target \<Rightarrow> string" where
  "download_filename p t =
     ''gpipe-client-'' @ format_uint (unat p) @ ''-'' @ tg_id t @ (if tg_goos t = ''windows'' then ''.exe'' else '''')"

section \<open>Checking the settings\<close>

datatype settings_error =
    Server_Required
  | No_Server_Address
  | Invalid_Uri string string
  | Unsupported_Scheme string
  | Missing_Host string
  | Quic_Needs_TLS
  | Shadowsocks_Required
  | Method_Required
  | Custom_Dial_Scheme string

text \<open>\<open>splitServerURIs\<close>, and \<open>splitURIs\<close> of the client.\<close>

definition split_server_uris :: "string \<Rightarrow> string list" where
  "split_server_uris v = filter (\<lambda>p. p \<noteq> '''') (map trim_space (split_on CHR '','' v))"

type_synonym uri_parser = "string \<Rightarrow> string + (string \<times> string)"

definition validate_stream_dial_scheme :: "digests \<Rightarrow> string \<Rightarrow> settings_error option" where
  "validate_stream_dial_scheme dg scheme =
     (if to_lower dg (trim_space scheme) \<in> {''tcp'', ''ws''} then None else Some (Custom_Dial_Scheme scheme))"

fun dial_list_loop :: "digests \<Rightarrow> uri_parser \<Rightarrow> string list \<Rightarrow> settings_error option" where
  "dial_list_loop dg up [] = None"
| "dial_list_loop dg up (raw # raws) =
     (case up raw of
        Inl e \<Rightarrow> Some (Invalid_Uri raw e)
      | Inr (scheme, host) \<Rightarrow>
          (case validate_stream_dial_scheme dg scheme of Some e \<Rightarrow> Some e | None \<Rightarrow> dial_list_loop dg up raws))"

definition validate_stream_dial_server_list :: "digests \<Rightarrow> uri_parser \<Rightarrow> string \<Rightarrow> settings_error option" where
  "validate_stream_dial_server_list dg up server = dial_list_loop dg up (split_server_uris server)"

fun check_uris :: "digests \<Rightarrow> uri_parser \<Rightarrow> bool \<Rightarrow> string list \<Rightarrow> settings_error option" where
  "check_uris dg up tls [] = None"
| "check_uris dg up tls (raw # raws) =
     (case up raw of
        Inl e \<Rightarrow> Some (Invalid_Uri raw e)
      | Inr (scheme, host) \<Rightarrow>
          if to_lower dg (trim_space scheme) \<notin> {''tcp'', ''ws'', ''quic'', ''kcp''} then Some (Unsupported_Scheme scheme)
          else if trim_space host = '''' then Some (Missing_Host raw)
          else if scheme = ''quic'' \<and> \<not> tls then Some Quic_Needs_TLS
          else check_uris dg up tls raws)"

definition validate_settings :: "digests \<Rightarrow> uri_parser \<Rightarrow> build_settings \<Rightarrow> settings_error option" where
  "validate_settings dg up s0 =
     (let s = normalize_settings s0; raws = split_server_uris (bs_server s) in
      if bs_server s = '''' then Some Server_Required
      else if raws = [] then Some No_Server_Address
      else case check_uris dg up (bs_enable_tls s) raws of
          Some e \<Rightarrow> Some e
        | None \<Rightarrow>
            if \<not> bs_use_shadowsocks s then None
            else if bs_ss_server s = '''' \<or> bs_ss_password s = '''' then Some Shadowsocks_Required
            else if bs_ss_method s = '''' then Some Method_Required
            else validate_stream_dial_server_list dg up (bs_server s))"

lemma check_uris_ok:
  "check_uris dg up tls raws = None \<Longrightarrow> raw \<in> set raws \<Longrightarrow>
   \<exists>scheme host. up raw = Inr (scheme, host) \<and> to_lower dg (trim_space scheme) \<in> {''tcp'', ''ws'', ''quic'', ''kcp''} \<and>
     trim_space host \<noteq> '''' \<and> (scheme = ''quic'' \<longrightarrow> tls)"
  by (induction raws) (auto split: sum.splits prod.splits if_splits)

lemma dial_list_ok:
  "dial_list_loop dg up raws = None \<Longrightarrow> raw \<in> set raws \<Longrightarrow>
   \<exists>scheme host. up raw = Inr (scheme, host) \<and> to_lower dg (trim_space scheme) \<in> {''tcp'', ''ws''}"
  by (induction raws) (auto simp: validate_stream_dial_scheme_def split: sum.splits prod.splits option.splits if_splits)

section \<open>The configuration inside a client\<close>

record embedded_config =
  ec_server :: string
  ec_key :: string
  ec_enable_tls :: bool
  ec_tls_server_name :: string
  ec_use_shadowsocks :: bool
  ec_ss_server :: string
  ec_ss_method :: string
  ec_ss_password :: string

definition blank_config :: embedded_config where
  "blank_config = \<lparr>ec_server = '''', ec_key = '''', ec_enable_tls = False, ec_tls_server_name = '''',
     ec_use_shadowsocks = False, ec_ss_server = '''', ec_ss_method = '''', ec_ss_password = ''''\<rparr>"

definition placeholder_prefix :: string where "placeholder_prefix = ''__GPIPE_EMBEDDED_CLIENT_CONFIG_BEGIN__''"
definition placeholder_suffix :: string where "placeholder_suffix = ''__GPIPE_EMBEDDED_CLIENT_CONFIG_END__''"
definition placeholder_length :: nat where "placeholder_length = 4096"

definition placeholder_value :: string where
  "placeholder_value =
     (let padding = placeholder_length - length placeholder_prefix - length placeholder_suffix
      in placeholder_prefix @ replicate padding CHR ''_'' @ placeholder_suffix)"

definition is_placeholder_value :: "string \<Rightarrow> bool" where
  "is_placeholder_value v \<longleftrightarrow> v = '''' \<or> has_prefix v placeholder_prefix"

definition normalize_config :: "embedded_config \<Rightarrow> embedded_config" where
  "normalize_config c0 =
     (let c = c0\<lparr>ec_server := trim_space (ec_server c0), ec_key := trim_space (ec_key c0),
               ec_tls_server_name := trim_space (ec_tls_server_name c0),
               ec_ss_server := trim_space (ec_ss_server c0), ec_ss_method := trim_space (ec_ss_method c0),
               ec_ss_password := trim_space (ec_ss_password c0)\<rparr>;
          c = (if ec_ss_method c = '''' then c\<lparr>ec_ss_method := settings_ss_method\<rparr> else c)
      in if \<not> ec_use_shadowsocks c
         then c\<lparr>ec_ss_server := '''', ec_ss_method := settings_ss_method, ec_ss_password := ''''\<rparr>
         else c)"

definition has_required_runtime_values :: "embedded_config \<Rightarrow> bool" where
  "has_required_runtime_values c \<longleftrightarrow> trim_space (ec_server c) \<noteq> '''' \<and> trim_space (ec_key c) \<noteq> ''''"

record config_json =
  js_marshal :: "embedded_config \<Rightarrow> string + byte list"
  js_unmarshal :: "byte list \<Rightarrow> string + embedded_config"

definition client_encode :: "config_json \<Rightarrow> embedded_config \<Rightarrow> string + string" where
  "client_encode js c = map_sum id raw_url_encode (js_marshal js (normalize_config c))"

definition client_decode :: "config_json \<Rightarrow> string \<Rightarrow> string + embedded_config" where
  "client_decode js s =
     (if is_placeholder_value (trim_space s) then Inr blank_config
      else case raw_url_decode (trim_space s) of
          None \<Rightarrow> Inl ''illegal base64 data''
        | Some data \<Rightarrow> map_sum id normalize_config (js_unmarshal js data))"

record common_args =
  ca_server :: string
  ca_key :: string
  ca_enable_tls :: bool
  ca_tls_server_name :: string
  ca_log_level :: string
  ca_base_log_level :: string
  ca_ss_server :: string
  ca_ss_method :: string
  ca_ss_password :: string

text \<open>The arguments a client takes from itself; \<open>None\<close> when it has to read its command line.\<close>

definition embedded_common_args :: "config_json \<Rightarrow> string \<Rightarrow> string + common_args option" where
  "embedded_common_args js embedded =
     (if is_placeholder_value embedded then Inr None
      else case client_decode js embedded of
          Inl e \<Rightarrow> Inl e
        | Inr c \<Rightarrow>
            if \<not> has_required_runtime_values c then Inr None
            else Inr (Some
              \<lparr>ca_server = ec_server c, ca_key = ec_key c, ca_enable_tls = ec_enable_tls c,
               ca_tls_server_name = ec_tls_server_name c, ca_log_level = ''info'', ca_base_log_level = ''error'',
               ca_ss_server = (if ec_use_shadowsocks c then ec_ss_server c else ''''),
               ca_ss_method = (if ec_use_shadowsocks c then ec_ss_method c else ''''),
               ca_ss_password = (if ec_use_shadowsocks c then ec_ss_password c else '''')\<rparr>))"

section \<open>Patching a template\<close>

fun bytes_index :: "byte list \<Rightarrow> byte list \<Rightarrow> nat option" where
  "bytes_index sep [] = (if sep = [] then Some 0 else None)"
| "bytes_index sep (x # xs) =
     (if take (length sep) (x # xs) = sep then Some 0 else map_option Suc (bytes_index sep xs))"

definition placeholder_bytes :: "byte list" where
  "placeholder_bytes = bytes_of placeholder_value"

lemma length_placeholder [simp]: "length placeholder_value = 4096" "length placeholder_bytes = 4096"
proof -
  have "length placeholder_prefix = 38" "length placeholder_suffix = 36" by code_simp+
  then show "length placeholder_value = 4096"
    by (simp add: placeholder_value_def Let_def placeholder_length_def)
  then show "length placeholder_bytes = 4096" by (simp add: placeholder_bytes_def)
qed

text \<open>The loop over the copy of the template, from \<open>searchFrom\<close> on.\<close>

function patch_from :: "byte list \<Rightarrow> byte list \<Rightarrow> byte list" where
  "patch_from repl s =
     (case bytes_index placeholder_bytes s of
        None \<Rightarrow> s
      | Some i \<Rightarrow> take i s @ repl @ patch_from repl (drop (i + length placeholder_bytes) s))"
  by pat_completeness auto

lemma bytes_index_bound: "bytes_index sep s = Some i \<Longrightarrow> i + length sep \<le> length s \<and> take (length sep) (drop i s) = sep"
proof (induction sep s arbitrary: i rule: bytes_index.induct)
  case (2 sep x xs)
  show ?case
  proof (cases "take (length sep) (x # xs) = sep")
    case True
    then have "length sep \<le> length (x # xs)" by (metis length_take min.absorb_iff2 min.commute)
    with True 2(2) show ?thesis by simp
  next
    case False
    with 2(2) obtain j where "bytes_index sep xs = Some j" "i = Suc j" by auto
    with 2(1) [OF False] show ?thesis by simp
  qed
qed (auto split: if_splits)

termination patch_from
  by (relation "measure (\<lambda>(r, s). length s)") (auto dest: bytes_index_bound)

declare patch_from.simps [simp del]

definition patch_template_binary :: "byte list \<Rightarrow> string \<Rightarrow> string + byte list" where
  "patch_template_binary template encoded =
     (if length encoded > length placeholder_bytes
      then Inl (''embedded config payload is too large: '' @ format_uint (length encoded) @ '' > '' @
             format_uint (length placeholder_bytes))
      else if bytes_index placeholder_bytes template = None then
        (if bytes_index (bytes_of placeholder_prefix) template \<noteq> None
         then Inl ''embedded config placeholder not found in client template; rebuild templates so the linker injects the full placeholder payload''
         else Inl ''embedded config placeholder not found in client template'')
      else Inr (patch_from (bytes_of (encoded @ replicate (length placeholder_bytes - length encoded) CHR '' '')) template))"

section \<open>Building\<close>

record template_manifest =
  mf_version :: string
  mf_artifacts :: "(string \<times> string \<times> string) list"

record build_env =
  be_dg :: digests
  be_uri :: uri_parser
  be_json :: config_json
  be_version :: string
  be_cache_dir :: string
  be_template :: "client_target \<Rightarrow> (string + byte list) option"
  be_manifest :: "string + template_manifest option"
  be_cache_fault :: "string option"
  be_cache_write :: bool
  be_compile :: "client_target \<Rightarrow> string \<Rightarrow> string + byte list"
  be_sources :: bool

type_synonym artifact_cache = "string \<rightharpoonup> byte list"

record client_artifact =
  af_filename :: string
  af_data :: "byte list"
  af_version :: string
  af_upgrade_safe :: bool

datatype build_error =
    Unsupported_Target string
  | Bad_Settings settings_error
  | Build_Failed string

definition client_version :: "build_env \<Rightarrow> string" where
  "client_version env = (let v = trim_space (be_version env) in if v \<noteq> '''' then v else ''1.0.0'')"

fun manifest_loop ::
  "build_env \<Rightarrow> client_target \<Rightarrow> byte list \<Rightarrow> string \<Rightarrow> (string \<times> string \<times> string) list \<Rightarrow> string + (string \<times> bool)" where
  "manifest_loop env t data version [] = Inl (''client template manifest has no artifact for '' @ tg_id t)"
| "manifest_loop env t data version ((target, file, sha) # arts) =
     (if target \<noteq> tg_id t then manifest_loop env t data version arts
      else if file \<noteq> tg_template t then Inl ''client template manifest filename mismatch''
      else if to_lower (be_dg env) sha \<noteq> sha256_hex (be_dg env) data
      then Inl ''client template checksum does not match manifest''
      else Inr (version, version = client_version env))"

definition validate_template_manifest :: "build_env \<Rightarrow> client_target \<Rightarrow> byte list \<Rightarrow> string + (string \<times> bool)" where
  "validate_template_manifest env t data =
     (case be_manifest env of
        Inl e \<Rightarrow> Inl e
      | Inr None \<Rightarrow> Inr (client_version env, False)
      | Inr (Some m) \<Rightarrow> manifest_loop env t data (mf_version m) (mf_artifacts m))"

definition artifact_cache_input :: "string \<Rightarrow> byte list \<Rightarrow> string \<Rightarrow> byte list" where
  "artifact_cache_input target template encoded = bytes_of target @ [0] @ template @ [0] @ bytes_of encoded"

definition artifact_cache_key :: "digests \<Rightarrow> string \<Rightarrow> byte list \<Rightarrow> string \<Rightarrow> string" where
  "artifact_cache_key dg target template encoded = sha256_hex dg (artifact_cache_input target template encoded)"

text \<open>\<open>filepath.Ext\<close> of a name without separators.\<close>

definition file_ext :: "string \<Rightarrow> string" where
  "file_ext s = (if CHR ''.'' \<in> set s then CHR ''.'' # rev (takeWhile (\<lambda>c. c \<noteq> CHR ''.'') (rev s)) else '''')"

definition artifact_cache_filename :: "client_target \<Rightarrow> string \<Rightarrow> string" where
  "artifact_cache_filename t key = key @ file_ext (tg_template t)"

definition load_cached_artifact ::
  "build_env \<Rightarrow> client_target \<Rightarrow> string \<Rightarrow> artifact_cache \<Rightarrow> string + byte list option" where
  "load_cached_artifact env t key cache =
     (if trim_space (be_cache_dir env) = '''' then Inr None
      else case be_cache_fault env of
          Some e \<Rightarrow> Inl e
        | None \<Rightarrow> Inr (cache (artifact_cache_filename t key)))"

definition store_cached_artifact ::
  "build_env \<Rightarrow> client_target \<Rightarrow> string \<Rightarrow> byte list \<Rightarrow> artifact_cache \<Rightarrow> artifact_cache" where
  "store_cached_artifact env t key data cache =
     (if trim_space (be_cache_dir env) = '''' \<or> \<not> be_cache_write env then cache
      else cache(artifact_cache_filename t key \<mapsto> data))"

definition player_config :: "user \<Rightarrow> build_settings \<Rightarrow> embedded_config" where
  "player_config u s =
     \<lparr>ec_server = bs_server s, ec_key = u_key u, ec_enable_tls = bs_enable_tls s,
      ec_tls_server_name = bs_tls_server_name s, ec_use_shadowsocks = bs_use_shadowsocks s,
      ec_ss_server = bs_ss_server s, ec_ss_method = bs_ss_method s, ec_ss_password = bs_ss_password s\<rparr>"

definition compile_with_go_build :: "build_env \<Rightarrow> user \<Rightarrow> client_target \<Rightarrow> string \<Rightarrow> build_error + client_artifact" where
  "compile_with_go_build env u t encoded =
     (if \<not> be_sources env
      then Inl (Build_Failed ''cannot locate project source root for fallback client build; configure client_template_dir or ship prebuilt client templates'')
      else case be_compile env t encoded of
          Inl e \<Rightarrow> Inl (Build_Failed e)
        | Inr data \<Rightarrow>
            Inr \<lparr>af_filename = download_filename (u_id u) t, af_data = data, af_version = client_version env,
                 af_upgrade_safe = True\<rparr>)"

definition build_client ::
  "build_env \<Rightarrow> user \<Rightarrow> build_settings \<Rightarrow> string \<Rightarrow> artifact_cache \<Rightarrow> (build_error + client_artifact) \<times> artifact_cache" where
  "build_client env u s target_id cache =
     (case lookup_target target_id of
        None \<Rightarrow> (Inl (Unsupported_Target target_id), cache)
      | Some t \<Rightarrow>
          (case validate_settings (be_dg env) (be_uri env) s of
             Some e \<Rightarrow> (Inl (Bad_Settings e), cache)
           | None \<Rightarrow>
               (case client_encode (be_json env) (player_config u s) of
                  Inl e \<Rightarrow> (Inl (Build_Failed e), cache)
                | Inr encoded \<Rightarrow>
                    (case be_template env t of
                       None \<Rightarrow> (compile_with_go_build env u t encoded, cache)
                     | Some (Inl e) \<Rightarrow> (Inl (Build_Failed e), cache)
                     | Some (Inr template) \<Rightarrow>
                         (case validate_template_manifest env t template of
                            Inl e \<Rightarrow> (Inl (Build_Failed e), cache)
                          | Inr (version, safe) \<Rightarrow>
                              let key = artifact_cache_key (be_dg env) (tg_id t) template encoded;
                                  made = (\<lambda>data. \<lparr>af_filename = download_filename (u_id u) t, af_data = data,
                                    af_version = version, af_upgrade_safe = safe\<rparr>)
                              in (case load_cached_artifact env t key cache of
                                    Inr (Some data) \<Rightarrow> (Inr (made data), cache)
                                  | _ \<Rightarrow>
                                      (case patch_template_binary template encoded of
                                         Inl e \<Rightarrow> (Inl (Build_Failed e), cache)
                                       | Inr patched \<Rightarrow>
                                           (Inr (made patched), store_cached_artifact env t key patched cache))))))))"

definition can_upgrade :: "build_env \<Rightarrow> string \<Rightarrow> bool" where
  "can_upgrade env target_id =
     (case lookup_target target_id of
        None \<Rightarrow> False
      | Some t \<Rightarrow>
          (case be_template env t of
             None \<Rightarrow> be_sources env
           | Some (Inl e) \<Rightarrow> False
           | Some (Inr data) \<Rightarrow> (case validate_template_manifest env t data of Inl e \<Rightarrow> False | Inr (v, safe) \<Rightarrow> safe)))"

section \<open>What a patched client reads\<close>

lemma length_patch_from: "length repl = length placeholder_bytes \<Longrightarrow> length (patch_from repl s) = length s"
proof (induction repl s rule: patch_from.induct)
  case (1 repl s)
  show ?case
  proof (cases "bytes_index placeholder_bytes s")
    case (Some i)
    have "length (patch_from repl (drop (i + length placeholder_bytes) s)) = length (drop (i + length placeholder_bytes) s)"
      by (rule 1(1) [OF Some 1(2)])
    then show ?thesis
      using bytes_index_bound [OF Some] 1(2) by (subst patch_from.simps) (simp add: Some)
  qed (subst patch_from.simps, simp)
qed

lemma patch_from_first:
  assumes "bytes_index placeholder_bytes s = Some i" "length repl = length placeholder_bytes"
  shows "take i (patch_from repl s) = take i s" "take 4096 (drop i (patch_from repl s)) = repl"
  using bytes_index_bound [OF assms(1)] assms by (subst patch_from.simps, simp add: min_def)+

lemma patched_template:
  assumes "patch_template_binary template encoded = Inr data"
  obtains i where "bytes_index placeholder_bytes template = Some i" "length encoded \<le> 4096"
    "length data = length template" "take i data = take i template"
    "take 4096 (drop i data) = bytes_of (encoded @ replicate (4096 - length encoded) CHR '' '')"
proof -
  let ?r = "bytes_of (encoded @ replicate (4096 - length encoded) CHR '' '')"
  from assms obtain i where i: "bytes_index placeholder_bytes template = Some i" "length encoded \<le> 4096"
    "data = patch_from ?r template"
    by (auto simp: patch_template_binary_def split: if_splits)
  have "length ?r = length placeholder_bytes" using i(2) by simp
  from length_patch_from [OF this] patch_from_first [OF i(1) this] i that show thesis by blast
qed

text \<open>White space around the encoded text is trimmed away again.\<close>

lemma trim_prefixes_spaces:
  assumes "[CHR '' ''] \<in> set rs" "\<And>r x. r \<in> set rs \<Longrightarrow> has_prefix (CHR '' '' # x) r \<Longrightarrow> r = [] \<or> r = [CHR '' '']"
  shows "trim_prefixes rs (replicate n CHR '' '' @ s) = trim_prefixes rs s"
proof (induction n)
  case (Suc n)
  let ?t = "CHR '' '' # (replicate n CHR '' '' @ s)"
  have "\<exists>r. find (\<lambda>r. r \<noteq> [] \<and> has_prefix ?t r) rs = Some r"
  proof (rule ccontr)
    assume "\<not> ?thesis"
    then have "find (\<lambda>r. r \<noteq> [] \<and> has_prefix ?t r) rs = None" by (meson not_Some_eq)
    then have "\<not> (\<exists>r. r \<in> set rs \<and> r \<noteq> [] \<and> has_prefix ?t r)" by (simp add: find_None_iff)
    then have "[CHR '' ''] \<noteq> [] \<longrightarrow> \<not> has_prefix ?t [CHR '' '']" using assms(1) by blast
    then show False by (simp add: has_prefix_def)
  qed
  then obtain r where r: "find (\<lambda>r. r \<noteq> [] \<and> has_prefix ?t r) rs = Some r" by blast
  then have "r \<in> set rs" "r \<noteq> []" "has_prefix ?t r" by (auto simp: find_Some_iff)
  then have "r = [CHR '' '']" using assms(2) by blast
  with r have "trim_prefixes rs ?t = trim_prefixes rs (drop 1 ?t)" by (simp add: trim_prefixes_Some)
  with Suc show ?case by simp
qed simp

lemma space_runes_start:
  "r \<in> set space_runes \<Longrightarrow> has_prefix (CHR '' '' # x) r \<Longrightarrow> r = [] \<or> r = [CHR '' '']"
  by (auto simp: space_runes_def has_prefix_def)

lemma rev_space_runes_start:
  "r \<in> set (map rev space_runes) \<Longrightarrow> has_prefix (CHR '' '' # x) r \<Longrightarrow> r = [] \<or> r = [CHR '' '']"
  by (auto simp: space_runes_def has_prefix_def)

lemma url_char_no_space:
  assumes "is_raw_url_char c" "r \<in> set space_runes \<union> set (map rev space_runes)"
  shows "\<not> has_prefix (c # x) r"
proof -
  have n: "c \<noteq> CHR 0x09" "c \<noteq> CHR 0x0A" "c \<noteq> CHR 0x0B" "c \<noteq> CHR 0x0C" "c \<noteq> CHR 0x0D" "c \<noteq> CHR 0x20"
    "c \<noteq> CHR 0xC2" "c \<noteq> CHR 0xE1" "c \<noteq> CHR 0xE2" "c \<noteq> CHR 0xE3" "c \<noteq> CHR 0x85" "c \<noteq> CHR 0xA0" "c \<noteq> CHR 0x80"
    "c \<noteq> CHR 0x81" "c \<noteq> CHR 0x82" "c \<noteq> CHR 0x83" "c \<noteq> CHR 0x84" "c \<noteq> CHR 0x85" "c \<noteq> CHR 0x86" "c \<noteq> CHR 0x87"
    "c \<noteq> CHR 0x88" "c \<noteq> CHR 0x89" "c \<noteq> CHR 0x8A" "c \<noteq> CHR 0xA8" "c \<noteq> CHR 0xA9" "c \<noteq> CHR 0xAF" "c \<noteq> CHR 0x9F"
    using assms(1) by (auto simp: is_raw_url_char_def byte_in_def)
  show ?thesis using assms(2) n by (auto simp: space_runes_def has_prefix_def)
qed

lemma trim_padded:
  assumes "\<And>c. c \<in> set s \<Longrightarrow> is_raw_url_char c" "s \<noteq> ''''"
  shows "trim_space (s @ replicate n CHR '' '') = s"
proof -
  obtain c x where c: "s = c # x" using assms(2) by (cases s) auto
  obtain d y where d: "rev s = d # y" using assms(2) by (cases "rev s") auto
  have "d \<in> set (rev s)" by (simp add: d)
  then have cs: "is_raw_url_char c" "is_raw_url_char d" using assms(1) c by simp_all
  have "trim_left (s @ replicate n CHR '' '') = s @ replicate n CHR '' ''"
    unfolding trim_left_def c using url_char_no_space [OF cs(1)] by (intro trim_prefixes_id) simp
  moreover have "trim_prefixes (map rev space_runes) (rev s) = rev s"
    unfolding d using url_char_no_space [OF cs(2)] by (intro trim_prefixes_id) simp
  moreover have "[CHR '' ''] \<in> set (map rev space_runes)" by (simp add: space_runes_def)
  then have "trim_prefixes (map rev space_runes) (replicate n CHR '' '' @ rev s) = trim_prefixes (map rev space_runes) (rev s)"
    by (rule trim_prefixes_spaces) (rule rev_space_runes_start)
  ultimately show ?thesis by (simp add: trim_space_def trim_right_def)
qed

text \<open>What the code relies on of \<open>encoding/json\<close>, for one configuration: its coding starts with a brace and is read
  back.\<close>

definition json_codes :: "config_json \<Rightarrow> embedded_config \<Rightarrow> bool" where
  "json_codes js c \<longleftrightarrow> (\<exists>r. js_marshal js c = Inr (123 # r) \<and> js_unmarshal js (123 # r) = Inr c)"

lemma raw_url_encode_brace: "\<exists>x. raw_url_encode (123 # r) = CHR ''e'' # x"
proof -
  have d: "(123 * 65536 + b * 256 + c) div 262144 = (30 :: nat)" if "b < 256" "c < 256" for b c
  proof -
    have "123 * 65536 + b * 256 + c = 30 * 262144 + (196608 + b * 256 + c)" by simp
    moreover have "196608 + b * 256 + c < 262144" using that by simp
    ultimately show ?thesis by simp
  qed
  have e: "b64_char 30 = CHR ''e''" by (simp add: b64_char_def char_by_code del: of_char_eq_iff)
  have "\<exists>x. b64_encode (123 # r) = CHR ''e'' # x"
  proof (cases r)
    case Nil
    then show ?thesis using d [of 0 0] e by (simp add: b64_quad_def Let_def)
  next
    case (Cons b r')
    then show ?thesis
      using d [OF byte_less [of b], of 0] d [OF byte_less [of b] byte_less] e
      by (cases r') (simp_all add: b64_quad_def Let_def)
  qed
  then obtain x where "b64_encode (123 # r) = CHR ''e'' # x" by blast
  then show ?thesis by (simp add: raw_url_encode_def url_of_std_def)
qed

lemma normalize_config_idem [simp]: "normalize_config (normalize_config c) = normalize_config c"
proof -
  have "trim_space settings_ss_method = settings_ss_method" "settings_ss_method \<noteq> ''''" by code_simp+
  then show ?thesis by (cases c) (simp add: normalize_config_def Let_def)
qed

definition config_args :: "embedded_config \<Rightarrow> common_args" where
  "config_args c =
     \<lparr>ca_server = ec_server c, ca_key = ec_key c, ca_enable_tls = ec_enable_tls c,
      ca_tls_server_name = ec_tls_server_name c, ca_log_level = ''info'', ca_base_log_level = ''error'',
      ca_ss_server = (if ec_use_shadowsocks c then ec_ss_server c else ''''),
      ca_ss_method = (if ec_use_shadowsocks c then ec_ss_method c else ''''),
      ca_ss_password = (if ec_use_shadowsocks c then ec_ss_password c else '''')\<rparr>"

lemma embedded_read_back:
  assumes "client_encode js c = Inr encoded" "json_codes js (normalize_config c)"
    "has_required_runtime_values (normalize_config c)"
  shows "embedded_common_args js (encoded @ replicate n CHR '' '') = Inr (Some (config_args (normalize_config c)))"
    and "\<And>x. x \<in> set encoded \<Longrightarrow> is_raw_url_char x"
proof -
  from assms(1,2) obtain r where r: "encoded = raw_url_encode (123 # r)"
    "js_unmarshal js (123 # r) = Inr (normalize_config c)"
    by (auto simp: client_encode_def json_codes_def)
  show chars: "\<And>x. x \<in> set encoded \<Longrightarrow> is_raw_url_char x" using raw_url_encode_chars r(1) by simp
  obtain x where x: "encoded = CHR ''e'' # x" using raw_url_encode_brace r(1) by metis
  have t: "trim_space (encoded @ replicate n CHR '' '') = encoded" by (rule trim_padded) (use chars x in simp_all)
  have "\<not> is_placeholder_value (CHR ''e'' # y)" for y
    by (simp add: is_placeholder_value_def has_prefix_def placeholder_prefix_def)
  then have p: "\<not> is_placeholder_value encoded" "\<not> is_placeholder_value (encoded @ replicate n CHR '' '')" by (simp_all add: x)
  show "embedded_common_args js (encoded @ replicate n CHR '' '') = Inr (Some (config_args (normalize_config c)))"
    using assms(3) r(2) p unfolding embedded_common_args_def client_decode_def t
    by (simp add: r(1) config_args_def)
qed

section \<open>The cache\<close>

text \<open>Every file of the cache is the patch of one of the requests \<open>S\<close> (platform, template, configuration),
  under the key of that request.\<close>

definition cache_ok :: "digests \<Rightarrow> (client_target \<times> byte list \<times> string) set \<Rightarrow> artifact_cache \<Rightarrow> bool" where
  "cache_ok dg S cache \<longleftrightarrow>
     (\<forall>name data. cache name = Some data \<longrightarrow>
       (\<exists>t template encoded. (t, template, encoded) \<in> S \<and> t \<in> set supported_targets \<and> list_all is_raw_url_char encoded \<and>
          name = artifact_cache_filename t (artifact_cache_key dg (tg_id t) template encoded) \<and>
          patch_template_binary template encoded = Inr data))"

definition request_input :: "client_target \<times> byte list \<times> string \<Rightarrow> byte list" where
  "request_input r = (case r of (t, template, encoded) \<Rightarrow> artifact_cache_input (tg_id t) template encoded)"

lemma split_at_zero:
  assumes "xs @ (0 :: byte) # ys = us @ 0 # vs" "0 \<notin> set xs" "0 \<notin> set us"
  shows "xs = us \<and> ys = vs"
proof -
  have "takeWhile (\<lambda>b. b \<noteq> 0) (xs @ 0 # ys) = xs" "takeWhile (\<lambda>b. b \<noteq> 0) (us @ 0 # vs) = us"
    using assms(2,3) by (auto simp: takeWhile_append takeWhile_eq_all_conv)
  with assms(1) show ?thesis by auto
qed

lemma bytes_of_no_zero: "list_all is_raw_url_char s \<Longrightarrow> 0 \<notin> set (bytes_of s)"
proof
  assume s: "list_all is_raw_url_char s" "0 \<in> set (bytes_of s)"
  then obtain c where c: "c \<in> set s" "(of_char c :: byte) = 0" by (auto simp: bytes_of_def)
  then have "unat (of_char c :: byte) = 0" by simp
  then have "(of_char c :: nat) = 0" by simp
  moreover have "is_raw_url_char c" using s(1) c(1) by (simp add: list_all_iff)
  ultimately show False by (auto simp: is_raw_url_char_def byte_in_def)
qed

lemma supported_ids: "t \<in> set supported_targets \<Longrightarrow> list_all is_raw_url_char (tg_id t)"
  by (auto simp: supported_targets_def is_raw_url_char_def byte_in_def)

lemma supported_by_id: "t \<in> set supported_targets \<Longrightarrow> u \<in> set supported_targets \<Longrightarrow> tg_id t = tg_id u \<Longrightarrow> t = u"
proof -
  have "distinct (map tg_id supported_targets)" by (simp add: supported_targets_def)
  then show "t \<in> set supported_targets \<Longrightarrow> u \<in> set supported_targets \<Longrightarrow> tg_id t = tg_id u \<Longrightarrow> t = u"
    by (auto simp: distinct_map dest: inj_onD)
qed

lemma supported_ext: "v \<in> set supported_targets \<Longrightarrow> file_ext (tg_template v) \<in> {'''', ''.exe''}"
proof -
  have "list_all (\<lambda>v. file_ext (tg_template v) \<in> {'''', ''.exe''}) supported_targets"
    by (simp add: supported_targets_def file_ext_def)
  then show "v \<in> set supported_targets \<Longrightarrow> file_ext (tg_template v) \<in> {'''', ''.exe''}"
    by (simp add: list_all_iff)
qed

lemma cache_input_inject:
  assumes "artifact_cache_input (tg_id t) a x = artifact_cache_input (tg_id u) b y"
    "t \<in> set supported_targets" "u \<in> set supported_targets" "list_all is_raw_url_char x" "list_all is_raw_url_char y"
  shows "t = u \<and> a = b \<and> x = y"
proof -
  have "0 \<notin> set (bytes_of (tg_id t))" "0 \<notin> set (bytes_of (tg_id u))"
    using supported_ids assms(2,3) bytes_of_no_zero by blast+
  with assms(1) have 1: "bytes_of (tg_id t) = bytes_of (tg_id u)" "a @ 0 # bytes_of x = b @ 0 # bytes_of y"
    using split_at_zero [of "bytes_of (tg_id t)" "a @ 0 # bytes_of x" "bytes_of (tg_id u)" "b @ 0 # bytes_of y"]
    by (simp_all add: artifact_cache_input_def)
  from 1(2) have "rev (bytes_of x) @ 0 # rev a = rev (bytes_of y) @ 0 # rev b"
    by (metis append.assoc append_Cons append_Nil rev.simps(2) rev_append)
  then have "rev (bytes_of x) = rev (bytes_of y) \<and> rev a = rev b"
    using bytes_of_no_zero [OF assms(4)] bytes_of_no_zero [OF assms(5)] by (intro split_at_zero) auto
  with 1(1) supported_by_id [OF assms(2,3)] show ?thesis by simp
qed

lemma cache_name_inject:
  assumes "artifact_cache_filename t (hex_encode a) = artifact_cache_filename u (hex_encode b)"
    "t \<in> set supported_targets" "u \<in> set supported_targets"
  shows "a = b"
proof -
  have "\<not> is_lower_hex CHR ''.''" by (simp add: is_lower_hex_def byte_in_def)
  then have dot: "c \<noteq> CHR ''.''" if "c \<in> set (hex_encode k)" for c k
    using hex_encode_chars [of k] that by (auto simp: list_all_iff)
  have tw: "takeWhile (\<lambda>c. c \<noteq> CHR ''.'') (hex_encode k @ e) = hex_encode k" if "e = '''' \<or> e = ''.exe''" for k e
  proof -
    have "takeWhile (\<lambda>c. c \<noteq> CHR ''.'') (hex_encode k @ e) = hex_encode k @ takeWhile (\<lambda>c. c \<noteq> CHR ''.'') e"
      by (rule takeWhile_append2) (rule dot)
    then show ?thesis using that by auto
  qed
  have ext: "file_ext (tg_template v) = '''' \<or> file_ext (tg_template v) = ''.exe''" if "v \<in> set supported_targets" for v
    using supported_ext [OF that] by simp
  have "takeWhile (\<lambda>c. c \<noteq> CHR ''.'') (hex_encode a @ file_ext (tg_template t)) =
      takeWhile (\<lambda>c. c \<noteq> CHR ''.'') (hex_encode b @ file_ext (tg_template u))"
    using assms(1) by (simp only: artifact_cache_filename_def)
  then have "hex_encode a = hex_encode b" unfolding tw [OF ext [OF assms(2)]] tw [OF ext [OF assms(3)]] .
  then show ?thesis by simp
qed

lemma cache_hit:
  assumes "cache_ok dg S cache" "inj_on (dg_sha256 dg) (request_input ` S)" "(t, template, encoded) \<in> S"
    "t \<in> set supported_targets" "list_all is_raw_url_char encoded"
    "cache (artifact_cache_filename t (artifact_cache_key dg (tg_id t) template encoded)) = Some data"
  shows "patch_template_binary template encoded = Inr data"
proof -
  from assms(1,6) obtain u a x where u: "(u, a, x) \<in> S" "u \<in> set supported_targets" "list_all is_raw_url_char x"
    "artifact_cache_filename t (artifact_cache_key dg (tg_id t) template encoded) =
       artifact_cache_filename u (artifact_cache_key dg (tg_id u) a x)"
    "patch_template_binary a x = Inr data"
    unfolding cache_ok_def by blast
  have "dg_sha256 dg (request_input (t, template, encoded)) = dg_sha256 dg (request_input (u, a, x))"
    using cache_name_inject [OF u(4) [unfolded artifact_cache_key_def sha256_hex_def] assms(4) u(2)]
    by (simp add: request_input_def)
  then have "request_input (t, template, encoded) = request_input (u, a, x)"
    using assms(2,3) u(1) by (auto dest: inj_onD)
  then have "t = u \<and> template = a \<and> encoded = x"
    using cache_input_inject assms(4,5) u(2,3) by (simp add: request_input_def)
  with u(5) show ?thesis by simp
qed

lemma lookup_target_supported: "lookup_target i = Some t \<Longrightarrow> t \<in> set supported_targets"
  by (auto simp: lookup_target_def find_Some_iff)

lemma normalized_config_fields:
  "ec_server (normalize_config (player_config u s)) = trim_space (bs_server s)"
  "ec_key (normalize_config (player_config u s)) = trim_space (u_key u)"
  by (simp_all add: normalize_config_def player_config_def Let_def)

lemma validated_server: "validate_settings dg up s = None \<Longrightarrow> trim_space (bs_server s) \<noteq> ''''"
  by (auto simp: validate_settings_def normalize_settings_def normalize_client_build_settings_def Let_def split: if_splits)

text \<open>Where a template is there, what is built is the patch of that template, whether it came from the cache or not.\<close>

lemma build_client_patches:
  assumes b: "build_client env u s tid cache = (Inr a, cache')"
    and t: "lookup_target tid = Some t" "be_template env t = Some (Inr template)"
    and e: "client_encode (be_json env) (player_config u s) = Inr encoded" "list_all is_raw_url_char encoded"
    and c: "cache_ok (be_dg env) S cache" "(t, template, encoded) \<in> S" "inj_on (dg_sha256 (be_dg env)) (request_input ` S)"
  shows "validate_settings (be_dg env) (be_uri env) s = None \<and> patch_template_binary template encoded = Inr (af_data a) \<and>
    cache_ok (be_dg env) S cache'"
proof -
  let ?key = "artifact_cache_key (be_dg env) (tg_id t) template encoded"
  have v: "validate_settings (be_dg env) (be_uri env) s = None"
    using b t e by (auto simp: build_client_def split: option.splits)
  obtain version safe where m: "validate_template_manifest env t template = Inr (version, safe)"
    using b t e v by (auto simp: build_client_def split: sum.splits)
  have sup: "t \<in> set supported_targets" by (rule lookup_target_supported) (rule t(1))
  show ?thesis
  proof (cases "load_cached_artifact env t ?key cache")
    case (Inr r)
    show ?thesis
    proof (cases r)
      case (Some data)
      with Inr have "cache (artifact_cache_filename t ?key) = Some data"
        by (auto simp: load_cached_artifact_def split: if_splits option.splits)
      from cache_hit [OF c(1,3,2) sup e(2) this] have "patch_template_binary template encoded = Inr data" .
      with b t e v m Inr Some c(1) show ?thesis by (auto simp: build_client_def Let_def)
    next
      case None
      with b t e v m Inr obtain data where d: "patch_template_binary template encoded = Inr data" "af_data a = data"
        "cache' = store_cached_artifact env t ?key data cache"
        by (auto simp: build_client_def Let_def split: sum.splits)
      have "cache_ok (be_dg env) S cache'"
        using c(1,2) sup e(2) d(1) unfolding d(3) store_cached_artifact_def cache_ok_def by auto
      with d v show ?thesis by simp
    qed
  next
    case (Inl x)
    with b t e v m obtain data where d: "patch_template_binary template encoded = Inr data" "af_data a = data"
      "cache' = store_cached_artifact env t ?key data cache"
      by (auto simp: build_client_def Let_def split: sum.splits)
    have "cache_ok (be_dg env) S cache'"
      using c(1,2) sup e(2) d(1) unfolding d(3) store_cached_artifact_def cache_ok_def by auto
    with d v show ?thesis by simp
  qed
qed


definition example_settings :: build_settings where
  "example_settings = default_client_build_settings\<lparr>bs_server := ''tcp://h:1''\<rparr>"

definition example_user :: user where
  "example_user = \<lparr>u_id = 7, u_remark = ''r'', u_key = ''k1'', u_create_time = '''', u_last_online_time = '''',
     u_client_version = '''', u_client_platform = '''', u_updater_version = 0\<rparr>"

definition example_env :: build_env where
  "example_env = \<lparr>be_dg = \<lparr>dg_sha256 = (\<lambda>x. x), dg_hmac = (\<lambda>k x. x), dg_lower = (\<lambda>s. s)\<rparr>,
     be_uri = (\<lambda>_. Inr (''tcp'', ''h:1'')),
     be_json = \<lparr>js_marshal = (\<lambda>_. Inr [123]), js_unmarshal = (\<lambda>_. Inr (normalize_config (player_config example_user example_settings)))\<rparr>,
     be_version = '''', be_cache_dir = ''c'', be_template = (\<lambda>_. Some (Inr (placeholder_bytes @ [0]))), be_manifest = Inr None,
     be_cache_fault = None, be_cache_write = True, be_compile = (\<lambda>_ _. Inl ''''), be_sources = False\<rparr>"

definition example_target :: client_target where
  "example_target = \<lparr>tg_id = ''linux-amd64'', tg_goos = ''linux'', tg_goarch = ''amd64'', tg_goarm = '''',
     tg_filename = ''gpipe-client'', tg_template = ''gpipe-client-template-linux-amd64''\<rparr>"


end
