(* ===== verification/Web_Auth.thy ===== *)
theory Web_Auth
  imports Go_Base64_Url Upgrade_Offer
begin

text \<open>
  The login of the administration pages (\<open>internal/web/server.go\<close>): the cookie that holds an expiry and its
  signature, its check and its renewal.

  Times are nanoseconds since 1970 as integers; the expiry in a cookie is the \<open>int64\<close> of seconds the code
  parses, and \<open>time.Unix\<close> adds its offset to it with the wrap-around of \<open>int64\<close>.  HMAC is a parameter.
\<close>

section \<open>Times\<close>

definition unix_to_internal :: int where "unix_to_internal = 62135596800"

text \<open>The seconds of \<open>time.Unix(e, 0)\<close> since the year 1, and those of the clock.\<close>

definition expiry_seconds :: "i64 \<Rightarrow> int" where
  "expiry_seconds e = sint (e + of_int unix_to_internal)"

definition clock_seconds :: "int \<Rightarrow> int" where
  "clock_seconds now = now div 10 ^ 9 + unix_to_internal"

definition now_after :: "int \<Rightarrow> i64 \<Rightarrow> bool" where
  "now_after now e \<longleftrightarrow>
     clock_seconds now > expiry_seconds e \<or> clock_seconds now = expiry_seconds e \<and> now mod 10 ^ 9 > 0"

definition time_until :: "int \<Rightarrow> i64 \<Rightarrow> int" where
  "time_until now e = (expiry_seconds e - clock_seconds now) * 10 ^ 9 - now mod 10 ^ 9"

text \<open>\<open>strconv.ParseInt(s, 10, 64)\<close>.\<close>

definition parse_int64 :: "string \<Rightarrow> i64 option" where
  "parse_int64 s =
     (let neg = has_prefix s ''-'';
          digits = (if neg \<or> has_prefix s ''+'' then drop 1 s else s)
      in case parse_uint 64 digits of
           None \<Rightarrow> None
         | Some n \<Rightarrow>
             if neg then (if n \<le> 2 ^ 63 then Some (- of_nat n) else None)
             else if n < 2 ^ 63 then Some (of_nat n) else None)"

section \<open>Cookies\<close>

record web_config =
  wc_username :: string
  wc_password :: string
  wc_latest_version :: string
  wc_secret :: "byte list"

record set_cookie =
  sc_name :: string
  sc_value :: string
  sc_path :: string
  sc_http_only :: bool
  sc_same_site_lax :: bool
  sc_expires :: int
  sc_max_age :: int

definition auth_cookie_name :: string where "auth_cookie_name = ''auth-id''"
definition auth_cookie_ttl :: int where "auth_cookie_ttl = 7 * 24 * 3600 * 10 ^ 9"
definition auth_cookie_refresh_threshold :: int where "auth_cookie_refresh_threshold = 24 * 3600 * 10 ^ 9"

definition cookie_signature :: "digests \<Rightarrow> web_config \<Rightarrow> string \<Rightarrow> byte list" where
  "cookie_signature dg cfg expires =
     dg_hmac dg (wc_secret cfg) (bytes_of (wc_username cfg) @ [10] @ bytes_of expires)"

text \<open>The secret of a process: random bytes, or a digest of what the process knows if there are none.\<close>

definition new_cookie_secret :: "digests \<Rightarrow> string + byte list \<Rightarrow> string \<Rightarrow> string \<Rightarrow> int \<Rightarrow> byte list" where
  "new_cookie_secret dg random username password now =
     (case random of
        Inr secret \<Rightarrow> secret
      | Inl _ \<Rightarrow> dg_sha256 dg (bytes_of (username @ [CHR 0x00] @ password @ [CHR 0x00] @ format_int (of_int now))))"

definition signed_cookie_value :: "digests \<Rightarrow> web_config \<Rightarrow> int \<Rightarrow> string" where
  "signed_cookie_value dg cfg expires_at =
     (let expires = format_int (of_int (expires_at div 10 ^ 9))
      in expires @ ''.'' @ raw_url_encode (cookie_signature dg cfg expires))"

definition issue_auth_cookie :: "digests \<Rightarrow> web_config \<Rightarrow> int \<Rightarrow> set_cookie" where
  "issue_auth_cookie dg cfg now =
     (let expires_at = now + auth_cookie_ttl
      in \<lparr>sc_name = auth_cookie_name, sc_value = signed_cookie_value dg cfg expires_at, sc_path = ''/'',
          sc_http_only = True, sc_same_site_lax = True, sc_expires = expires_at,
          sc_max_age = auth_cookie_ttl div 10 ^ 9\<rparr>)"

definition clear_auth_cookie :: set_cookie where
  "clear_auth_cookie = \<lparr>sc_name = auth_cookie_name, sc_value = '''', sc_path = ''/'', sc_http_only = True,
     sc_same_site_lax = True, sc_expires = 0, sc_max_age = -1\<rparr>"

text \<open>The argument is the value of the request's cookie, if it has one.\<close>

definition authenticated :: "digests \<Rightarrow> web_config \<Rightarrow> int \<Rightarrow> string option \<Rightarrow> (string \<times> i64) option" where
  "authenticated dg cfg now cookie =
     (case cookie of
        None \<Rightarrow> None
      | Some v \<Rightarrow>
          (case split_on CHR ''.'' v of
             [expires, sig] \<Rightarrow>
               if expires = '''' \<or> sig = '''' then None
               else (case parse_int64 expires of
                   None \<Rightarrow> None
                 | Some e \<Rightarrow>
                     if now_after now e then None
                     else (case raw_url_decode sig of
                         None \<Rightarrow> None
                       | Some signature \<Rightarrow>
                           if signature \<noteq> cookie_signature dg cfg expires then None
                           else Some (wc_username cfg, e)))
           | _ \<Rightarrow> None))"

definition authenticate_and_refresh ::
  "digests \<Rightarrow> web_config \<Rightarrow> int \<Rightarrow> string option \<Rightarrow> set_cookie list \<times> string option" where
  "authenticate_and_refresh dg cfg now cookie =
     (case authenticated dg cfg now cookie of
        None \<Rightarrow> ([], None)
      | Some (i, e) \<Rightarrow>
          (if time_until now e \<le> auth_cookie_refresh_threshold then [issue_auth_cookie dg cfg now] else [], Some i))"

section \<open>What is accepted\<close>

lemma split_on_one:
  assumes "c \<notin> set a" "c \<notin> set b"
  shows "split_on c (a @ c # b) = [a, b]"
proof -
  have "split_on c b = [b]" using assms(2) by (induction b) auto
  then show ?thesis using assms(1) by (induction a) auto
qed

lemma digit_not_sign: "is_digit c \<Longrightarrow> c \<noteq> CHR ''-'' \<and> c \<noteq> CHR ''+'' \<and> c \<noteq> CHR ''.''"
  by (auto simp: is_digit_def)

lemma parse_format_int [simp]: "parse_int64 (format_int v) = Some v"
proof -
  have sign: "\<not> has_prefix (format_uint n) ''-''" "\<not> has_prefix (format_uint n) ''+''" for n
    using format_uint_digits [of _ n] digit_not_sign format_uint_not_Nil [of n]
    by (cases "format_uint n"; fastforce simp: has_prefix_def)+
  have r: "- (2 ^ 63) \<le> sint v" "sint v < 2 ^ 63" using sint_range_size [of v] by (auto simp: word_size)
  show ?thesis
  proof (cases "sint v < 0")
    case True
    then have "nat (- sint v) \<le> 2 ^ 63" "nat (- sint v) < 2 ^ 64" using r by auto
    moreover have "(- of_nat (nat (- sint v)) :: i64) = v" using True by simp
    ultimately show ?thesis using True by (simp add: parse_int64_def format_int_def Let_def has_prefix_def)
  next
    case False
    then have "nat (sint v) < 2 ^ 63" "nat (sint v) < 2 ^ 64" using r by auto
    moreover have "(of_nat (nat (sint v)) :: i64) = v" using False by simp
    ultimately show ?thesis using False sign by (simp add: parse_int64_def format_int_def Let_def)
  qed
qed

lemma format_int_chars: "c \<in> set (format_int v) \<Longrightarrow> c \<noteq> CHR ''.''" "format_int v \<noteq> ''''"
  using format_uint_digits digit_not_sign by (auto simp: format_int_def split: if_splits)

lemma raw_url_no_dot: "CHR ''.'' \<notin> set (raw_url_encode bs)"
  using raw_url_encode_chars raw_url_char_plain(3) by blast

lemma raw_url_encode_empty: "raw_url_encode bs = '''' \<longleftrightarrow> bs = []"
proof
  assume e: "raw_url_encode bs = ''''"
  have "raw_url_decode (raw_url_encode bs) = raw_url_decode (raw_url_encode [])" unfolding e by (simp add: raw_url_encode_def)
  then show "bs = []" by (simp only: raw_url_decode_encode option.inject)
qed (simp add: raw_url_encode_def)

text \<open>The cookie of a login is accepted until its second is over, and no longer.\<close>

lemma signed_cookie_accepted:
  assumes "cookie_signature dg cfg (format_int (of_int (t div 10 ^ 9))) \<noteq> []"
  shows "authenticated dg cfg now (Some (signed_cookie_value dg cfg t)) =
    (if now_after now (of_int (t div 10 ^ 9)) then None else Some (wc_username cfg, of_int (t div 10 ^ 9)))"
proof -
  let ?x = "format_int (of_int (t div 10 ^ 9))"
  have "CHR ''.'' \<notin> set ?x" using format_int_chars(1) by blast
  then have "split_on CHR ''.'' (signed_cookie_value dg cfg t) = [?x, raw_url_encode (cookie_signature dg cfg ?x)]"
    using split_on_one [OF _ raw_url_no_dot] by (simp add: signed_cookie_value_def Let_def)
  then show ?thesis using assms by (simp add: authenticated_def raw_url_encode_empty format_int_chars(2))
qed

lemma now_after_clock:
  assumes "- (2 ^ 62) \<le> s" "s < 2 ^ 62"
  shows "now_after now (of_int s) \<longleftrightarrow> s * 10 ^ 9 < now"
proof -
  have "expiry_seconds (of_int s) = s + unix_to_internal"
  proof -
    have "sint (of_int k :: i64) = k" if "- (2 ^ 63) \<le> k" "k < 2 ^ 63" for k
      using that by (simp add: signed_of_int signed_take_bit_int_eq_self)
    moreover have "- (2 ^ 63) \<le> s + unix_to_internal" "s + unix_to_internal < 2 ^ 63"
      using assms by (simp_all add: unix_to_internal_def)
    ultimately show ?thesis by (simp only: expiry_seconds_def of_int_add [symmetric])
  qed
  moreover have "q > s \<or> q = s \<and> r > 0 \<longleftrightarrow> s * 10 ^ 9 < q * 10 ^ 9 + r" if "0 \<le> r" "r < 10 ^ 9" for q r :: int
    using that by auto
  then have "now div 10 ^ 9 > s \<or> now div 10 ^ 9 = s \<and> now mod 10 ^ 9 > 0 \<longleftrightarrow>
      s * 10 ^ 9 < now div 10 ^ 9 * 10 ^ 9 + now mod 10 ^ 9" by simp
  ultimately show ?thesis unfolding now_after_def clock_seconds_def by (simp only: div_mult_mod_eq) auto
qed

text \<open>Whatever is accepted carries the server's MAC of the user and of an expiry that is not over.\<close>

definition carries_mac :: "digests \<Rightarrow> web_config \<Rightarrow> string option \<Rightarrow> i64 \<Rightarrow> bool" where
  "carries_mac dg cfg cookie e \<longleftrightarrow>
     (\<exists>expires sig. cookie \<noteq> None \<and> split_on CHR ''.'' (the cookie) = [expires, sig] \<and> parse_int64 expires = Some e \<and>
        raw_url_decode sig =
          Some (dg_hmac dg (wc_secret cfg) (bytes_of (wc_username cfg) @ [10] @ bytes_of expires)))"

lemma authenticated_carries_mac:
  "authenticated dg cfg now cookie = Some (i, e) \<Longrightarrow> carries_mac dg cfg cookie e \<and> \<not> now_after now e \<and> i = wc_username cfg"
  by (auto simp: authenticated_def carries_mac_def cookie_signature_def split: option.splits list.splits if_splits)

lemma issued_cookie_carries_mac:
  "carries_mac dg cfg (Some (sc_value (issue_auth_cookie dg cfg now))) (of_int ((now + auth_cookie_ttl) div 10 ^ 9))"
proof -
  let ?x = "format_int (of_int ((now + auth_cookie_ttl) div 10 ^ 9))"
  have "CHR ''.'' \<notin> set ?x" using format_int_chars(1) by blast
  then have "split_on CHR ''.'' (sc_value (issue_auth_cookie dg cfg now)) = [?x, raw_url_encode (cookie_signature dg cfg ?x)]"
    using split_on_one [OF _ raw_url_no_dot] by (simp add: issue_auth_cookie_def signed_cookie_value_def Let_def)
  then show ?thesis by (simp add: carries_mac_def cookie_signature_def)
qed

end
