(* ===== verification/Web_Service.thy ===== *)
theory Web_Service
  imports Web_Auth Client_Build Server_Run Version
begin

text \<open>
  The administration interface (\<open>internal/web/server.go\<close>, \<open>internal/web/types.go\<close>): its handlers over the hub,
  the settings and the artifact cache.

  A handler is one step.  What the world answers to one request is the record \<open>web_io\<close>: the clock, the outcomes
  of the statements to the database, random bytes, the texts of errors, and what the client builder finds.  A
  body that is not the JSON of the handler's request is its error text.  A handler is \<open>None\<close> only if the fuel of
  the hub's closing runs out, which \<open>web_keeps_server_runs\<close> excludes.
\<close>

section \<open>Requests and responses\<close>

record tunnel_req =
  tq_id :: u32
  tq_source :: string
  tq_endpoint :: string
  tq_enabled :: u8
  tq_sender :: u32
  tq_receiver :: u32
  tq_description :: string
  tq_tunnel_type :: u32
  tq_password :: string
  tq_username :: string
  tq_is_compressed :: u8
  tq_encryption_method :: string
  tq_custom_mapping :: str_map

record player_item =
  pi_id :: u32
  pi_remark :: string
  pi_key :: string
  pi_create_time :: string
  pi_last_online_time :: string
  pi_online :: bool
  pi_client_version :: string
  pi_client_platform :: string
  pi_latest_version :: string
  pi_is_latest :: bool
  pi_can_upgrade :: bool
  pi_unavailable_reason :: string
  pi_upgrade_status :: string
  pi_upgrade_progress :: int
  pi_upgrade_error :: string

record tunnel_item =
  ti_tunnel :: tunnel
  ti_status :: string
  ti_running :: bool
  ti_message :: string

datatype web_request =
    Web_Login "string + (string \<times> string)"
  | Web_Logout
  | Web_Test_Auth
  | Web_Settings
  | Web_Update_Settings "string + build_settings"
  | Web_Player_Settings "string + u32"
  | Web_Player_List "string + (int \<times> int)"
  | Web_Remove_Player "string + u32"
  | Web_Add_Player "string + (string \<times> string)"
  | Web_Update_Player "string + player_update"
  | Web_Generate_Client "string + (u32 \<times> string \<times> build_settings option)"
  | Web_Upgrade_Client "string + u32"
  | Web_Tunnel_List "string + (int \<times> int \<times> string)"
  | Web_Remove_Tunnel "string + u32"
  | Web_Add_Tunnel "string + tunnel_req"
  | Web_Update_Tunnel "string + tunnel_req"

datatype web_body =
    General i32 string
  | Settings_Body build_settings
  | Player_Settings_Body build_settings bool
  | Players_Body "player_item list" int nat
  | Tunnels_Body "tunnel_item list" int nat
  | File_Body string "byte list"
  | No_Body

record web_response =
  rs_cookies :: "set_cookie list"
  rs_status :: nat
  rs_body :: web_body

section \<open>State\<close>

record web =
  wb_hub :: hub
  wb_settings :: settings_store
  wb_cache :: artifact_cache

record web_io =
  wi_now :: int
  wi_server :: server_io
  wi_env :: build_env
  wi_insert_tunnel :: "string + u32"
  wi_update_tunnel :: "string option"
  wi_delete_tunnel :: "u32 \<Rightarrow> string option"
  wi_settings_db :: "string \<Rightarrow> string option"
  wi_random :: "string + byte list"
  wi_staged :: "string option"
  wi_settings_error :: "settings_error \<Rightarrow> string"
  wi_build_error :: "build_error \<Rightarrow> string"
  wi_store_error :: "store_error \<Rightarrow> string"

type_synonym web_result = "(web_response \<times> web) option"

definition write_json :: "set_cookie list \<Rightarrow> nat \<Rightarrow> web_body \<Rightarrow> web \<Rightarrow> web_result" where
  "write_json cookies status body w = Some (\<lparr>rs_cookies = cookies, rs_status = status, rs_body = body\<rparr>, w)"

definition require_auth ::
  "digests \<Rightarrow> web_config \<Rightarrow> int \<Rightarrow> string option \<Rightarrow> web \<Rightarrow> (set_cookie list \<Rightarrow> web_result) \<Rightarrow> web_result" where
  "require_auth dg cfg now cookie w handler =
     (case authenticate_and_refresh dg cfg now cookie of
        (cookies, Some _) \<Rightarrow> handler cookies
      | (cookies, None) \<Rightarrow> write_json cookies 200 (General 10086 ''Session expired, please log in again.'') w)"

definition decode_json ::
  "set_cookie list \<Rightarrow> string + 'a \<Rightarrow> web \<Rightarrow> ('a \<Rightarrow> web_result) \<Rightarrow> web_result" where
  "decode_json cookies body w handler =
     (case body of
        Inl e \<Rightarrow> write_json cookies 400 (General (- 1) e) w
      | Inr v \<Rightarrow> handler v)"

section \<open>Logging in\<close>

definition web_login :: "digests \<Rightarrow> web_config \<Rightarrow> int \<Rightarrow> string + (string \<times> string) \<Rightarrow> web \<Rightarrow> web_result" where
  "web_login dg cfg now body w =
     decode_json [] body w (\<lambda>(username, password).
       if wc_username cfg = username \<and> wc_password cfg = password \<and> username \<noteq> ''''
       then write_json [issue_auth_cookie dg cfg now] 200 (General 0 ''Success'') w
       else write_json [] 200 (General (- 2) ''Incorrect username or password'') w)"

definition web_logout :: "web \<Rightarrow> web_result" where
  "web_logout w = write_json [clear_auth_cookie] 200 (General 10086 ''Session expired, please log in again.'') w"

definition web_test_auth :: "digests \<Rightarrow> web_config \<Rightarrow> int \<Rightarrow> string option \<Rightarrow> web \<Rightarrow> web_result" where
  "web_test_auth dg cfg now cookie w =
     (case authenticate_and_refresh dg cfg now cookie of
        (cookies, None) \<Rightarrow> write_json cookies 200 (General 10086 ''Session expired, please log in again.'') w
      | (cookies, Some i) \<Rightarrow> write_json cookies 200 (General 0 (''hello '' @ i)) w)"

section \<open>Settings\<close>

definition client_build_settings_payload :: "build_settings \<Rightarrow> build_settings" where
  "client_build_settings_payload s =
     \<lparr>bs_server = bs_server s, bs_enable_tls = bs_enable_tls s, bs_tls_server_name = bs_tls_server_name s,
      bs_use_shadowsocks = bs_use_shadowsocks s, bs_ss_server = bs_ss_server s, bs_ss_method = bs_ss_method s,
      bs_ss_password = bs_ss_password s\<rparr>"

definition client_build_settings_model :: "build_settings \<Rightarrow> build_settings" where
  "client_build_settings_model s =
     \<lparr>bs_server = bs_server s, bs_enable_tls = bs_enable_tls s, bs_tls_server_name = bs_tls_server_name s,
      bs_use_shadowsocks = bs_use_shadowsocks s, bs_ss_server = bs_ss_server s, bs_ss_method = bs_ss_method s,
      bs_ss_password = bs_ss_password s\<rparr>"

definition web_settings :: "web_io \<Rightarrow> set_cookie list \<Rightarrow> web \<Rightarrow> web_result" where
  "web_settings io cookies w =
     (case settings_get (wi_settings_db io ''get'') (wb_settings w) of
        Inl e \<Rightarrow> write_json cookies 500 (General (- 1) e) w
      | Inr s \<Rightarrow> write_json cookies 200 (Settings_Body (client_build_settings_payload s)) w)"

definition web_update_settings :: "web_io \<Rightarrow> set_cookie list \<Rightarrow> build_settings \<Rightarrow> web \<Rightarrow> web_result" where
  "web_update_settings io cookies req w =
     (let s = client_build_settings_model req in
      case validate_settings (be_dg (wi_env io)) (be_uri (wi_env io)) s of
        Some e \<Rightarrow> write_json cookies 200 (General (- 2) (wi_settings_error io e)) w
      | None \<Rightarrow>
          (case settings_save (wi_settings_db io ''save'') s (wb_settings w) of
             (Some e, st) \<Rightarrow> write_json cookies 500 (General (- 1) e) (w\<lparr>wb_settings := st\<rparr>)
           | (None, st) \<Rightarrow> write_json cookies 200 (General 0 ''Success'') (w\<lparr>wb_settings := st\<rparr>)))"

text \<open>\<open>rt.Users.FindByID\<close>.\<close>

definition find_player :: "web_io \<Rightarrow> u32 \<Rightarrow> web \<Rightarrow> store_error + user option" where
  "find_player io p w = us_find_by_id (si_db (wi_server io) ''find_by_id'') p (pg_table (hb_players (wb_hub w)))"

definition get_for_player :: "web_io \<Rightarrow> u32 \<Rightarrow> settings_store \<Rightarrow> string + (build_settings \<times> bool)" where
  "get_for_player io p st =
     settings_get_for_player (wi_settings_db io ''get_for_player'') (wi_settings_db io ''get'') p st"

definition web_player_settings :: "web_io \<Rightarrow> set_cookie list \<Rightarrow> u32 \<Rightarrow> web \<Rightarrow> web_result" where
  "web_player_settings io cookies p w =
     (case find_player io p w of
        Inl e \<Rightarrow> write_json cookies 500 (General (- 1) (wi_store_error io e)) w
      | Inr None \<Rightarrow> write_json cookies 200 (General (- 2) ''player not found'') w
      | Inr (Some _) \<Rightarrow>
          (case get_for_player io p (wb_settings w) of
             Inl e \<Rightarrow> write_json cookies 500 (General (- 1) e) w
           | Inr (s, customized) \<Rightarrow>
               write_json cookies 200 (Player_Settings_Body (client_build_settings_payload s) customized) w))"

section \<open>The list of players\<close>

definition is_upgrade_active :: "string \<Rightarrow> bool" where
  "is_upgrade_active state \<longleftrightarrow> state \<in> {''offered'', ''accepted'', ''downloading'', ''verifying'', ''applying''}"

definition upgrade_protocol_version :: u32 where "upgrade_protocol_version = 1"

definition client_upgrade_precondition_reason ::
  "bool \<Rightarrow> u32 \<Rightarrow> bool \<Rightarrow> int option \<Rightarrow> bool \<Rightarrow> string" where
  "client_upgrade_precondition_reason online updater supported comparison active =
     (if \<not> online then ''offline''
      else if updater < upgrade_protocol_version then ''updater_unsupported''
      else if \<not> supported then ''platform_unknown''
      else case comparison of
          None \<Rightarrow> ''version_invalid''
        | Some c \<Rightarrow>
            if c = 0 then ''already_latest''
            else if c > 0 then ''client_newer''
            else if active then ''in_progress''
            else '''')"

text \<open>The loop over the users; \<open>checked\<close> is the map of platforms already looked up.\<close>

fun player_items ::
  "web_io \<Rightarrow> web_config \<Rightarrow> hub \<Rightarrow> (string \<rightharpoonup> bool) \<Rightarrow> user list \<Rightarrow> upgrade_manager \<Rightarrow> player_item list \<times> upgrade_manager" where
  "player_items io cfg h checked [] ups = ([], ups)"
| "player_items io cfg h checked (u # us) ups =
     (let info = pg_client_info (hb_players h) (u_id u);
          comparison = compare_versions (cl_version info) (wc_latest_version cfg);
          (snapshot, ups) = um_snapshot (wi_now io) (u_id u) ups;
          supported = (lookup_target (cl_platform info) \<noteq> None);
          online = pg_is_online (hb_players h) (u_id u);
          reason = client_upgrade_precondition_reason online (cl_updater info) supported comparison
            (is_upgrade_active (sn_state snapshot));
          (reason, checked) =
            (if reason = '''' then
               (let available = (case checked (cl_platform info) of
                      None \<Rightarrow> can_upgrade (wi_env io) (cl_platform info) | Some b \<Rightarrow> b)
                in (if available then reason else ''artifact_unavailable'', checked(cl_platform info \<mapsto> available)))
             else (reason, checked));
          item = \<lparr>pi_id = u_id u, pi_remark = u_remark u, pi_key = u_key u, pi_create_time = u_create_time u,
            pi_last_online_time = u_last_online_time u, pi_online = online, pi_client_version = cl_version info,
            pi_client_platform = cl_platform info, pi_latest_version = wc_latest_version cfg,
            pi_is_latest = (comparison = Some 0), pi_can_upgrade = (reason = ''''),
            pi_unavailable_reason = reason, pi_upgrade_status = sn_state snapshot,
            pi_upgrade_progress = sn_progress snapshot, pi_upgrade_error = sn_error snapshot\<rparr>;
          (items, ups) = player_items io cfg h checked us ups
      in (item # items, ups))"

definition web_player_list :: "web_io \<Rightarrow> web_config \<Rightarrow> set_cookie list \<Rightarrow> int \<times> int \<Rightarrow> web \<Rightarrow> web_result" where
  "web_player_list io cfg cookies req w =
     (let page = (if fst req < 0 then 0 else fst req);
          db = si_db (wi_server io);
          players = hb_players (wb_hub w);
          found = (if snd req = 0
                   then map_sum id (\<lambda>us. (us, length us)) (us_find_all (db ''find_all'') (pg_table players))
                   else pg_list db page (if snd req > 100 then 100 else snd req) players)
      in case found of
           Inl e \<Rightarrow> write_json cookies 500 (General (- 1) (wi_store_error io e)) w
         | Inr (users, count) \<Rightarrow>
             (let (items, ups) = player_items io cfg (wb_hub w) Map.empty users (hb_upgrades (wb_hub w))
              in write_json cookies 200 (Players_Body items page count)
                   (w\<lparr>wb_hub := (wb_hub w)\<lparr>hb_upgrades := ups\<rparr>\<rparr>)))"

section \<open>Upgrading a client\<close>

text \<open>The handler up to the availability check: the player, or the answer that refuses; looking at the state
  of a running upgrade prunes old ones.\<close>

definition upgrade_client_check ::
  "web_io \<Rightarrow> web_config \<Rightarrow> u32 \<Rightarrow> web \<Rightarrow> ((nat \<times> i32 \<times> string) + user) \<times> web" where
  "upgrade_client_check io cfg p w =
     (case find_player io p w of
        Inl e \<Rightarrow> (Inl (500, - 1, wi_store_error io e), w)
      | Inr None \<Rightarrow> (Inl (200, - 2, ''player not found''), w)
      | Inr (Some u) \<Rightarrow>
          let players = hb_players (wb_hub w); info = pg_client_info players p in
          if \<not> pg_is_online players p then (Inl (200, - 3, ''player is offline''), w)
          else if cl_updater info < upgrade_protocol_version
          then (Inl (200, - 4, ''client does not support safe remote upgrade''), w)
          else if lookup_target (cl_platform info) = None
          then (Inl (200, - 5, ''unsupported or unknown client platform''), w)
          else (case compare_versions (cl_version info) (wc_latest_version cfg) of
              None \<Rightarrow> (Inl (200, - 6, ''client or target version is invalid''), w)
            | Some c \<Rightarrow>
                if c = 0 then (Inl (200, - 6, ''client is already at the latest version''), w)
                else if c > 0
                then (Inl (200, - 6, ''client version is newer than the configured target; remote downgrade is forbidden''), w)
                else
                  let (snapshot, ups) = um_snapshot (wi_now io) p (hb_upgrades (wb_hub w));
                      w = w\<lparr>wb_hub := (wb_hub w)\<lparr>hb_upgrades := ups\<rparr>\<rparr>
                  in if is_upgrade_active (sn_state snapshot)
                     then (Inl (200, - 8, ''an upgrade is already in progress''), w)
                     else if \<not> can_upgrade (wi_env io) (cl_platform info)
                     then (Inl (200, - 10, ''no verified upgrade artifact matching the configured target version is available for this platform''), w)
                     else (Inr u, w)))"

definition fail_upgrade :: "web_io \<Rightarrow> u32 \<Rightarrow> string \<Rightarrow> string \<Rightarrow> hub \<Rightarrow> hub" where
  "fail_upgrade io p task err h = h\<lparr>hb_upgrades := um_fail (wi_now io) p task (Some err) (hb_upgrades h)\<rparr>"

definition upgrade_client_start ::
  "protowire \<Rightarrow> web_io \<Rightarrow> set_cookie list \<Rightarrow> u32 \<Rightarrow> user \<Rightarrow> web \<Rightarrow> web_result" where
  "upgrade_client_start pw io cookies p u w =
     (case get_for_player io p (wb_settings w) of
        Inl e \<Rightarrow> write_json cookies 500 (General (- 1) e) w
      | Inr (s, _) \<Rightarrow>
          let platform = cl_platform (pg_client_info (hb_players (wb_hub w)) p) in
          (case build_client (wi_env io) u s platform (wb_cache w) of
             (Inl e, cache) \<Rightarrow> write_json cookies 200 (General (- 7) (wi_build_error io e)) (w\<lparr>wb_cache := cache\<rparr>)
           | (Inr a, cache) \<Rightarrow>
               let w = w\<lparr>wb_cache := cache\<rparr> in
               if \<not> af_upgrade_safe a
               then write_json cookies 200 (General (- 10) ''client template has no verified manifest; rebuild release templates before remote upgrade'') w
               else (case um_start (si_dg (wi_server io)) (wi_now io) (wi_random io) (wi_staged io) p (af_version a)
                       platform (u_key u) (af_data a) (hb_upgrades (wb_hub w)) of
                   (Inl e, ups) \<Rightarrow>
                     write_json cookies 200 (General (- 8) e) (w\<lparr>wb_hub := (wb_hub w)\<lparr>hb_upgrades := ups\<rparr>\<rparr>)
                 | (Inr offer, ups) \<Rightarrow>
                     let h = (wb_hub w)\<lparr>hb_upgrades := ups\<rparr> in
                     (case pg_session (hb_players h) p of
                        None \<Rightarrow>
                          write_json cookies 200 (General (- 3) ''player is offline'')
                            (w\<lparr>wb_hub := fail_upgrade io p (uo_task_id offer) ''player disconnected'' h\<rparr>)
                      | Some i \<Rightarrow>
                          (case send_push pw i (UpgradeOffer offer) h of
                             (Some e, h) \<Rightarrow>
                               let msg = si_session_error (wi_server io) e in
                               write_json cookies 200 (General (- 9) msg)
                                 (w\<lparr>wb_hub := fail_upgrade io p (uo_task_id offer) msg h\<rparr>)
                           | (None, h) \<Rightarrow> write_json cookies 200 (General 0 ''upgrade started'') (w\<lparr>wb_hub := h\<rparr>))))))"

definition web_upgrade_client ::
  "protowire \<Rightarrow> web_io \<Rightarrow> web_config \<Rightarrow> set_cookie list \<Rightarrow> u32 \<Rightarrow> web \<Rightarrow> web_result" where
  "web_upgrade_client pw io cfg cookies p w =
     (case upgrade_client_check io cfg p w of
        (Inl (status, code, msg), w) \<Rightarrow> write_json cookies status (General code msg) w
      | (Inr u, w) \<Rightarrow> upgrade_client_start pw io cookies p u w)"

section \<open>Players\<close>

fun remove_tunnels :: "protowire \<Rightarrow> (u32 \<Rightarrow> string option) \<Rightarrow> u32 list \<Rightarrow> hub \<Rightarrow> (tunnel_error option \<times> hub) option" where
  "remove_tunnels pw db [] h = Some (None, h)"
| "remove_tunnels pw db (i # is) h =
     (case hub_delete_tunnel pw (db i) i h of
        None \<Rightarrow> None
      | Some (Some e, h) \<Rightarrow> Some (Some e, h)
      | Some (None, h) \<Rightarrow> remove_tunnels pw db is h)"

definition tunnel_error_text :: "tunnel_error \<Rightarrow> string" where
  "tunnel_error_text e =
     (case e of
        Unsupported_Type \<Rightarrow> ''unsupported tunnel type''
      | Source_Format \<Rightarrow> ''source address format error''
      | Endpoint_Format \<Rightarrow> ''endpoint address format error''
      | No_Sender \<Rightarrow> ''sender player does not exist''
      | No_Receiver \<Rightarrow> ''receiver player does not exist''
      | Unsupported_Method \<Rightarrow> ''unsupported shadowsocks method''
      | Port_In_Use \<Rightarrow> ''port already in use''
      | No_Such_Tunnel \<Rightarrow> ''tunnel id does not exist''
      | Store_Error msg \<Rightarrow> msg)"

text \<open>Deleting the row of the player takes the player's settings with it.\<close>

definition web_remove_player :: "protowire \<Rightarrow> web_io \<Rightarrow> set_cookie list \<Rightarrow> u32 \<Rightarrow> web \<Rightarrow> web_result" where
  "web_remove_player pw io cookies p w =
     (case remove_tunnels pw (wi_delete_tunnel io) (map t_id (tm_by_player (hb_tunnels (wb_hub w)) p)) (wb_hub w) of
        None \<Rightarrow> None
      | Some (Some e, h) \<Rightarrow> write_json cookies 200 (General (- 1) (tunnel_error_text e)) (w\<lparr>wb_hub := h\<rparr>)
      | Some (None, h) \<Rightarrow>
          (case hub_delete_player pw (si_db (wi_server io)) p h of
             None \<Rightarrow> None
           | Some (e, h) \<Rightarrow>
               let w = w\<lparr>wb_hub := h, wb_settings := settings_cascade (pg_table (hb_players h)) (wb_settings w)\<rparr> in
               (case e of
                  Some e \<Rightarrow> write_json cookies 200 (General (- 1) (si_player_error (wi_server io) e)) w
                | None \<Rightarrow>
                    write_json cookies 200 (General 0 ''Success'')
                      (w\<lparr>wb_hub := h\<lparr>hb_upgrades := um_remove p (hb_upgrades h)\<rparr>\<rparr>))))"

definition web_add_player :: "web_io \<Rightarrow> set_cookie list \<Rightarrow> string \<times> string \<Rightarrow> web \<Rightarrow> web_result" where
  "web_add_player io cookies req w =
     (let sv = wi_server io in
      case pg_add (si_db sv) (si_keys sv) (si_ids sv) (si_time_text sv) (fst req) (snd req) (hb_players (wb_hub w)) of
        (r, m) \<Rightarrow>
          let w = w\<lparr>wb_hub := (wb_hub w)\<lparr>hb_players := m\<rparr>\<rparr> in
          (case r of
             Add_Failed e \<Rightarrow> write_json cookies 500 (General (- 1) (si_player_error sv e)) w
           | Refused code msg \<Rightarrow> write_json cookies 200 (General code msg) w
           | Added _ \<Rightarrow> write_json cookies 200 (General 0 '''') w))"

definition web_update_player :: "web_io \<Rightarrow> set_cookie list \<Rightarrow> player_update \<Rightarrow> web \<Rightarrow> web_result" where
  "web_update_player io cookies req w =
     (case pg_update (si_db (wi_server io)) req (hb_players (wb_hub w)) of
        (e, m) \<Rightarrow>
          let w = w\<lparr>wb_hub := (wb_hub w)\<lparr>hb_players := m\<rparr>\<rparr> in
          (case e of
             Some e \<Rightarrow> write_json cookies 200 (General (- 2) (si_player_error (wi_server io) e)) w
           | None \<Rightarrow> write_json cookies 200 (General 0 ''Success'') w))"

section \<open>Downloading a client\<close>

text \<open>The settings to build with; an error says whether the request is to blame.\<close>

definition settings_for_generate_client ::
  "web_io \<Rightarrow> u32 \<Rightarrow> build_settings option \<Rightarrow> web \<Rightarrow> ((bool \<times> string) + build_settings) \<times> web" where
  "settings_for_generate_client io p req w =
     (case req of
        None \<Rightarrow> (map_sum (Pair False) fst (get_for_player io p (wb_settings w)), w)
      | Some payload \<Rightarrow>
          let s = client_build_settings_model payload in
          (case validate_settings (be_dg (wi_env io)) (be_uri (wi_env io)) s of
             Some e \<Rightarrow> (Inl (True, wi_settings_error io e), w)
           | None \<Rightarrow>
               (case settings_save_for_player (wi_settings_db io ''save_for_player'') (pg_table (hb_players (wb_hub w)))
                       p s (wb_settings w) of
                  (Some e, st) \<Rightarrow> (Inl (False, e), w\<lparr>wb_settings := st\<rparr>)
                | (None, st) \<Rightarrow>
                    (map_sum (Pair False) fst (get_for_player io p st), w\<lparr>wb_settings := st\<rparr>))))"

definition web_generate_client ::
  "web_io \<Rightarrow> set_cookie list \<Rightarrow> u32 \<times> string \<times> build_settings option \<Rightarrow> web \<Rightarrow> web_result" where
  "web_generate_client io cookies req w =
     (case req of (p, target, payload) \<Rightarrow>
        (case find_player io p w of
           Inl e \<Rightarrow> write_json cookies 500 (General (- 1) (wi_store_error io e)) w
         | Inr None \<Rightarrow> write_json cookies 200 (General (- 2) ''player not found'') w
         | Inr (Some u) \<Rightarrow>
             (case settings_for_generate_client io p payload w of
                (Inl (True, e), w) \<Rightarrow> write_json cookies 200 (General (- 3) e) w
              | (Inl (False, e), w) \<Rightarrow> write_json cookies 500 (General (- 1) e) w
              | (Inr s, w) \<Rightarrow>
                  (case build_client (wi_env io) u s target (wb_cache w) of
                     (Inl e, cache) \<Rightarrow> write_json cookies 200 (General (- 3) (wi_build_error io e)) (w\<lparr>wb_cache := cache\<rparr>)
                   | (Inr a, cache) \<Rightarrow>
                       write_json cookies 200 (File_Body (af_filename a) (af_data a)) (w\<lparr>wb_cache := cache\<rparr>)))))"

section \<open>Tunnels\<close>

text \<open>The state, whether it runs, and a message.\<close>

definition tunnel_runtime_status :: "hub \<Rightarrow> tunnel \<Rightarrow> string \<times> bool \<times> string" where
  "tunnel_runtime_status h t =
     (let record = (case tm_runtime (hb_tunnels h) of None \<Rightarrow> None | Some s \<Rightarrow> runtime_get s (t_id t)) in
      if \<not> t_enabled t then (''disabled'', False, ''tunnel is disabled'')
      else if \<not> player_available h (t_sender t) then (''waiting'', False, ''sender player is offline'')
      else if \<not> player_available h (t_receiver t) then (''waiting'', False, ''receiver player is offline'')
      else if t_receiver t = 0
      then (case record of
              None \<Rightarrow> (''starting'', False, ''server inlet is starting or waiting for runtime sync'')
            | Some r \<Rightarrow>
                if rr_inlet_error r \<noteq> '''' then (''failed'', False, rr_inlet_error r)
                else if rr_inlet_running r then (''running'', True, ''server inlet is listening'')
                else (''starting'', False, ''server inlet is starting or waiting for runtime sync''))
      else (case record of
              None \<Rightarrow> (''unverified'', False, ''waiting for client-side inlet runtime report'')
            | Some r \<Rightarrow>
                if rr_inlet_error r \<noteq> '''' then (''failed'', False, rr_inlet_error r)
                else if rr_inlet_running r then (''running'', True, ''client inlet reported listening'')
                else (''unverified'', False, ''waiting for client-side inlet runtime report'')))"

definition tunnel_list_item :: "hub \<Rightarrow> tunnel \<Rightarrow> tunnel_item" where
  "tunnel_list_item h t =
     (case tunnel_runtime_status h t of (status, running, msg) \<Rightarrow>
        \<lparr>ti_tunnel = t, ti_status = status, ti_running = running, ti_message = msg\<rparr>)"

definition web_tunnel_list :: "set_cookie list \<Rightarrow> int \<times> int \<times> string \<Rightarrow> web \<Rightarrow> web_result" where
  "web_tunnel_list cookies req w =
     (case req of (page0, page_size, player0) \<Rightarrow>
        let page = (if page0 < 0 then 0 else page0);
            player = trim_space player0;
            m = hb_tunnels (wb_hub w);
            found = (if player \<noteq> '''' then
                       (case parse_uint 32 player of
                          None \<Rightarrow> ([], 0)
                        | Some i \<Rightarrow> (let ts = tm_by_player m (of_nat i) in (ts, length ts)))
                     else if page_size = 0 then (tm_all m, length (tm_all m))
                     else (tm_query m page page_size, tm_count m))
        in write_json cookies 200 (Tunnels_Body (map (tunnel_list_item (wb_hub w)) (fst found)) page (snd found)) w)"

definition web_remove_tunnel :: "protowire \<Rightarrow> web_io \<Rightarrow> set_cookie list \<Rightarrow> u32 \<Rightarrow> web \<Rightarrow> web_result" where
  "web_remove_tunnel pw io cookies i w =
     (case hub_delete_tunnel pw (wi_delete_tunnel io i) i (wb_hub w) of
        None \<Rightarrow> None
      | Some (Some e, h) \<Rightarrow> write_json cookies 200 (General (- 1) (tunnel_error_text e)) (w\<lparr>wb_hub := h\<rparr>)
      | Some (None, h) \<Rightarrow> write_json cookies 200 (General 0 ''Success'') (w\<lparr>wb_hub := h\<rparr>))"

definition request_tunnel :: "u32 \<Rightarrow> tunnel_req \<Rightarrow> tunnel" where
  "request_tunnel i req =
     \<lparr>t_id = i, t_source = tq_source req, t_endpoint = tq_endpoint req, t_enabled = (tq_enabled req = 1),
      t_sender = tq_sender req, t_receiver = tq_receiver req, t_description = tq_description req,
      t_tunnel_type = tq_tunnel_type req, t_password = tq_password req, t_username = tq_username req,
      t_is_compressed = (tq_is_compressed req = 1), t_custom_mapping = tq_custom_mapping req,
      t_encryption_method = tq_encryption_method req\<rparr>"

definition web_add_tunnel :: "protowire \<Rightarrow> web_io \<Rightarrow> set_cookie list \<Rightarrow> tunnel_req \<Rightarrow> web \<Rightarrow> web_result" where
  "web_add_tunnel pw io cookies req w =
     (case hub_add_tunnel pw (wi_insert_tunnel io) (request_tunnel 0 req) (wb_hub w) of
        None \<Rightarrow> None
      | Some (Inl e, h) \<Rightarrow> write_json cookies 200 (General (- 1) (tunnel_error_text e)) (w\<lparr>wb_hub := h\<rparr>)
      | Some (Inr _, h) \<Rightarrow> write_json cookies 200 (General 0 ''Success'') (w\<lparr>wb_hub := h\<rparr>))"

definition web_update_tunnel :: "protowire \<Rightarrow> web_io \<Rightarrow> set_cookie list \<Rightarrow> tunnel_req \<Rightarrow> web \<Rightarrow> web_result" where
  "web_update_tunnel pw io cookies req w =
     (case hub_update_tunnel pw (wi_update_tunnel io) (request_tunnel (tq_id req) req) (wb_hub w) of
        None \<Rightarrow> None
      | Some (Some e, h) \<Rightarrow> write_json cookies 200 (General (- 1) (tunnel_error_text e)) (w\<lparr>wb_hub := h\<rparr>)
      | Some (None, h) \<Rightarrow> write_json cookies 200 (General 0 ''Success'') (w\<lparr>wb_hub := h\<rparr>))"

section \<open>The pages\<close>

text \<open>What a request outside the interface gets: the index page, \<open>404\<close>, or the file server.  \<open>there\<close> says which
  files the page directory has.\<close>

datatype page_answer = Index_Page | Page_Not_Found | File_Server

text \<open>\<open>path.Ext\<close>.\<close>

definition path_ext :: "string \<Rightarrow> string" where
  "path_ext s =
     (let t = takeWhile (\<lambda>c. c \<noteq> CHR ''/'') (rev s)
      in if CHR ''.'' \<in> set t then CHR ''.'' # rev (takeWhile (\<lambda>c. c \<noteq> CHR ''.'') t) else '''')"

definition web_ui_answer :: "(string \<Rightarrow> bool) \<Rightarrow> string \<Rightarrow> string \<Rightarrow> page_answer" where
  "web_ui_answer there http_method path =
     (if http_method = ''GET'' \<or> http_method = ''HEAD'' then
        (if path = ''/'' \<or> path = ''/index.html'' then Index_Page
         else if \<not> has_prefix path ''/api'' then
           (let clean = (if has_prefix path ''/'' then drop 1 path else path) in
            if \<not> there clean then (if path_ext clean \<noteq> '''' then Page_Not_Found else Index_Page)
            else File_Server)
         else File_Server)
      else File_Server)"

text \<open>The index page itself: the file, or the rendered template.\<close>

definition serve_index_html :: "byte list option \<Rightarrow> string + byte list \<Rightarrow> nat \<times> (string + byte list)" where
  "serve_index_html file rendered =
     (case file of
        Some data \<Rightarrow> (200, Inr data)
      | None \<Rightarrow> (case rendered of Inl e \<Rightarrow> (500, Inl e) | Inr data \<Rightarrow> (200, Inr data)))"

definition render_web_index_template ::
  "bool \<Rightarrow> (string + 'tmpl) \<Rightarrow> (string + 'tmpl) \<Rightarrow> ('tmpl \<Rightarrow> string + byte list) \<Rightarrow> string + byte list" where
  "render_web_index_template reload parsed cached execute =
     (case (if reload then parsed else cached) of
        Inl e \<Rightarrow> Inl (''render web ui template: '' @ e)
      | Inr t \<Rightarrow>
          map_sum (\<lambda>e. ''render web ui template '' @ [CHR 0x22] @ ''layout/page'' @ [CHR 0x22] @ '': '' @ e) id (execute t))"

text \<open>A missing page of the application gets the index, a missing asset does not.\<close>

lemma missing_pages:
  assumes "\<not> there path" "\<not> has_prefix (CHR ''/'' # path) ''/api''" "path \<noteq> ''''" "path \<noteq> ''index.html''"
  shows "web_ui_answer there ''GET'' (CHR ''/'' # path) = (if path_ext path = '''' then Index_Page else Page_Not_Found)"
  using assms by (simp add: web_ui_answer_def has_prefix_def)

section \<open>The multiplexer\<close>

definition web_handle ::
  "protowire \<Rightarrow> digests \<Rightarrow> web_config \<Rightarrow> web_io \<Rightarrow> string option \<Rightarrow> web_request \<Rightarrow> web \<Rightarrow> web_result" where
  "web_handle pw dg cfg io cookie req w =
     (let auth = require_auth dg cfg (wi_now io) cookie w in
      case req of
        Web_Login b \<Rightarrow> web_login dg cfg (wi_now io) b w
      | Web_Logout \<Rightarrow> web_logout w
      | Web_Test_Auth \<Rightarrow> web_test_auth dg cfg (wi_now io) cookie w
      | Web_Settings \<Rightarrow> auth (\<lambda>cs. web_settings io cs w)
      | Web_Update_Settings b \<Rightarrow> auth (\<lambda>cs. decode_json cs b w (\<lambda>r. web_update_settings io cs r w))
      | Web_Player_Settings b \<Rightarrow> auth (\<lambda>cs. decode_json cs b w (\<lambda>r. web_player_settings io cs r w))
      | Web_Player_List b \<Rightarrow> auth (\<lambda>cs. decode_json cs b w (\<lambda>r. web_player_list io cfg cs r w))
      | Web_Remove_Player b \<Rightarrow> auth (\<lambda>cs. decode_json cs b w (\<lambda>r. web_remove_player pw io cs r w))
      | Web_Add_Player b \<Rightarrow> auth (\<lambda>cs. decode_json cs b w (\<lambda>r. web_add_player io cs r w))
      | Web_Update_Player b \<Rightarrow> auth (\<lambda>cs. decode_json cs b w (\<lambda>r. web_update_player io cs r w))
      | Web_Generate_Client b \<Rightarrow> auth (\<lambda>cs. decode_json cs b w (\<lambda>r. web_generate_client io cs r w))
      | Web_Upgrade_Client b \<Rightarrow> auth (\<lambda>cs. decode_json cs b w (\<lambda>r. web_upgrade_client pw io cfg cs r w))
      | Web_Tunnel_List b \<Rightarrow> auth (\<lambda>cs. decode_json cs b w (\<lambda>r. web_tunnel_list cs r w))
      | Web_Remove_Tunnel b \<Rightarrow> auth (\<lambda>cs. decode_json cs b w (\<lambda>r. web_remove_tunnel pw io cs r w))
      | Web_Add_Tunnel b \<Rightarrow> auth (\<lambda>cs. decode_json cs b w (\<lambda>r. web_add_tunnel pw io cs r w))
      | Web_Update_Tunnel b \<Rightarrow> auth (\<lambda>cs. decode_json cs b w (\<lambda>r. web_update_tunnel pw io cs r w)))"

text \<open>\<open>withCORS\<close>: a preflight request never reaches a handler.\<close>

definition web_serve ::
  "protowire \<Rightarrow> digests \<Rightarrow> web_config \<Rightarrow> web_io \<Rightarrow> bool \<Rightarrow> string option \<Rightarrow> web_request \<Rightarrow> web \<Rightarrow> web_result" where
  "web_serve pw dg cfg io options cookie req w =
     (if options then write_json [] 204 No_Body w else web_handle pw dg cfg io cookie req w)"

end
