(* ===== verification/Web_Run.thy ===== *)
theory Web_Run
  imports Web_Service
begin

text \<open>
  What the administration interface guarantees: nothing changes without a login, every request is answered and
  leaves the server in a state of one of its runs, the list of players offers an upgrade exactly where the
  upgrade handler would start one, and a removed player leaves nothing behind.
\<close>

section \<open>Every request is answered, and is a step of the server\<close>

definition answered :: "protowire \<Rightarrow> web_result \<Rightarrow> bool" where
  "answered pw res \<longleftrightarrow> (\<exists>r w'. res = Some (r, w') \<and> hub_run pw (wb_hub w'))"

lemma answered_write [simp]: "answered pw (write_json cs status body w) \<longleftrightarrow> hub_run pw (wb_hub w)"
  by (simp add: answered_def write_json_def)

lemma answered_auth:
  "(\<And>cs. answered pw (f cs)) \<Longrightarrow> hub_run pw (wb_hub w) \<Longrightarrow> answered pw (require_auth dg cfg now cookie w f)"
  by (auto simp: require_auth_def split: prod.split option.split)

lemma answered_decode:
  "(\<And>v. answered pw (f v)) \<Longrightarrow> hub_run pw (wb_hub w) \<Longrightarrow> answered pw (decode_json cs b w f)"
  by (auto simp: decode_json_def split: sum.split)

lemma run_upgrades: "hub_run pw h \<Longrightarrow> hub_run pw (h\<lparr>hb_upgrades := ups\<rparr>)"
  by (rule hub_run.upgrades)

lemma answered_settings: "hub_run pw (wb_hub w) \<Longrightarrow> answered pw (web_settings io cs w)"
  by (simp add: web_settings_def split: sum.split)

lemma answered_update_settings: "hub_run pw (wb_hub w) \<Longrightarrow> answered pw (web_update_settings io cs r w)"
  by (simp add: web_update_settings_def Let_def split: option.split prod.split)

lemma answered_player_settings: "hub_run pw (wb_hub w) \<Longrightarrow> answered pw (web_player_settings io cs p w)"
  by (simp add: web_player_settings_def split: sum.split option.split prod.split)

lemma answered_player_list: "hub_run pw (wb_hub w) \<Longrightarrow> answered pw (web_player_list io cfg cs r w)"
  by (simp add: web_player_list_def Let_def run_upgrades split: sum.split prod.split)

lemma hub_delete_tunnel_run:
  assumes "protowire_laws pw" "hub_run pw h"
  shows "\<exists>e h'. hub_delete_tunnel pw db i h = Some (e, h') \<and> hub_run pw h'"
proof -
  obtain e m where m: "tm_delete db i (hb_tunnels h) = (e, m)" by fastforce
  obtain h' where "hub_apply_notices pw m h = Some h'" using apply_notices_good [OF hub_run_inv [OF assms]] by blast
  with m have d: "hub_delete_tunnel pw db i h = Some (e, h')" by (simp add: hub_delete_tunnel_def)
  from hub_run.delete_tunnel [OF assms(2) d] d show ?thesis by blast
qed

lemma hub_add_tunnel_run:
  assumes "protowire_laws pw" "hub_run pw h"
  shows "\<exists>e h'. hub_add_tunnel pw inserted t h = Some (e, h') \<and> hub_run pw h'"
proof -
  obtain e m where m: "tm_add (pg_exists (hb_players h)) inserted t (hb_tunnels h) = (e, m)" by fastforce
  obtain h' where "hub_apply_notices pw m h = Some h'" using apply_notices_good [OF hub_run_inv [OF assms]] by blast
  with m have d: "hub_add_tunnel pw inserted t h = Some (e, h')" by (simp add: hub_add_tunnel_def)
  from hub_run.add_tunnel [OF assms(2) d] d show ?thesis by blast
qed

lemma hub_update_tunnel_run:
  assumes "protowire_laws pw" "hub_run pw h"
  shows "\<exists>e h'. hub_update_tunnel pw stored t h = Some (e, h') \<and> hub_run pw h'"
proof -
  obtain e m where m: "tm_update (pg_exists (hb_players h)) stored t (hb_tunnels h) = (e, m)" by fastforce
  obtain h' where "hub_apply_notices pw m h = Some h'" using apply_notices_good [OF hub_run_inv [OF assms]] by blast
  with m have d: "hub_update_tunnel pw stored t h = Some (e, h')" by (simp add: hub_update_tunnel_def)
  from hub_run.update_tunnel [OF assms(2) d] d show ?thesis by blast
qed

lemma remove_tunnels_run:
  assumes "protowire_laws pw"
  shows "hub_run pw h \<Longrightarrow> \<exists>e h'. remove_tunnels pw db is h = Some (e, h') \<and> hub_run pw h'"
proof (induction "is" arbitrary: h)
  case (Cons i "is")
  obtain e h' where "hub_delete_tunnel pw (db i) i h = Some (e, h')" "hub_run pw h'"
    using hub_delete_tunnel_run [OF assms Cons.prems] by blast
  with Cons.IH [of h'] show ?case by (cases e) auto
qed simp

lemma hub_delete_player_run:
  assumes "protowire_laws pw" "hub_run pw h"
  shows "\<exists>e h'. hub_delete_player pw db p h = Some (e, h') \<and> hub_run pw h'"
proof -
  from hub_run_inv [OF assms] have pg: "pg_inv (hb_players h)" by (simp add: hub_inv_except_def players_ok_def)
  obtain e s m where d: "pg_delete db p (hb_players h) = ((e, s), m)" by (metis surj_pair)
  have "s = None"
    using d offline_no_session [OF pg, of p]
    by (auto simp: pg_delete_def pg_session_def split: if_splits prod.splits option.splits)
  with d have x: "hub_delete_player pw db p h = Some (e, h\<lparr>hb_players := m\<rparr>)" by (simp add: hub_delete_player_def)
  from hub_run.delete_player [OF assms(2) x] x show ?thesis by blast
qed

lemma answered_remove_player:
  assumes "protowire_laws pw" "hub_run pw (wb_hub w)"
  shows "answered pw (web_remove_player pw io cs p w)"
proof -
  obtain e h where r: "remove_tunnels pw (wi_delete_tunnel io) (map t_id (tm_by_player (hb_tunnels (wb_hub w)) p))
      (wb_hub w) = Some (e, h)" "hub_run pw h"
    using remove_tunnels_run [OF assms] by blast
  obtain e' h' where d: "hub_delete_player pw (si_db (wi_server io)) p h = Some (e', h')" "hub_run pw h'"
    using hub_delete_player_run [OF assms(1) r(2)] by blast
  show ?thesis
    by (cases e; cases e') (simp_all add: web_remove_player_def r d Let_def run_upgrades)
qed

lemma answered_add_player:
  assumes "hub_run pw (wb_hub w)"
  shows "answered pw (web_add_player io cs req w)"
proof -
  let ?r = "\<lparr>rr_username = fst req, rr_password = snd req\<rparr>"
  obtain r m where a: "pg_add (si_db (wi_server io)) (si_keys (wi_server io)) (si_ids (wi_server io))
      (si_time_text (wi_server io)) (fst req) (snd req) (hb_players (wb_hub w)) = (r, m)" by fastforce
  have "snd (on_register (wi_server io) ?r (wb_hub w)) = (wb_hub w)\<lparr>hb_players := m\<rparr>"
    by (cases r) (simp_all add: on_register_def a)
  with hub_run.add_player [OF assms, of "wi_server io" ?r] have "hub_run pw ((wb_hub w)\<lparr>hb_players := m\<rparr>)" by simp
  then show ?thesis by (cases r) (simp_all add: web_add_player_def Let_def a)
qed

lemma answered_update_player:
  assumes "hub_run pw (wb_hub w)"
  shows "answered pw (web_update_player io cs req w)"
proof -
  obtain e m where u: "pg_update (si_db (wi_server io)) req (hb_players (wb_hub w)) = (e, m)" by fastforce
  from hub_run.update_player [OF assms u] show ?thesis by (cases e) (simp_all add: web_update_player_def Let_def u)
qed

lemma generate_settings_hub: "settings_for_generate_client io p req w = (r, w') \<Longrightarrow> wb_hub w' = wb_hub w"
  by (auto simp: settings_for_generate_client_def Let_def split: option.splits prod.splits)

lemma answered_generate_client:
  assumes "hub_run pw (wb_hub w)"
  shows "answered pw (web_generate_client io cs req w)"
proof -
  obtain p target payload where req: "req = (p, target, payload)" by (cases req)
  obtain r w' where s: "settings_for_generate_client io p payload w = (r, w')" by fastforce
  from assms generate_settings_hub [OF s] have "hub_run pw (wb_hub w')" by simp
  with assms show ?thesis
    by (auto simp: web_generate_client_def req s split: sum.split option.split prod.split bool.split)
qed

lemma check_run:
  "hub_run pw (wb_hub w) \<Longrightarrow> upgrade_client_check io cfg p w = (r, w') \<Longrightarrow>
   hub_run pw (wb_hub w') \<and> hb_players (wb_hub w') = hb_players (wb_hub w)"
  by (auto simp: upgrade_client_check_def Let_def run_upgrades split: sum.splits option.splits if_splits prod.splits)

lemma start_run:
  assumes "hub_run pw (wb_hub w)"
  shows "answered pw (upgrade_client_start pw io cs p u w)"
proof (cases "get_for_player io p (wb_settings w)")
  case (Inl e)
  with assms show ?thesis by (simp add: upgrade_client_start_def)
next
  case (Inr sc)
  obtain s c where sc: "sc = (s, c)" by (cases sc)
  let ?platform = "cl_platform (pg_client_info (hb_players (wb_hub w)) p)"
  obtain b cache where b: "build_client (wi_env io) u s ?platform (wb_cache w) = (b, cache)" by fastforce
  show ?thesis
  proof (cases b)
    case (Inr a)
    obtain o' ups where st: "um_start (si_dg (wi_server io)) (wi_now io) (wi_random io) (wi_staged io) p (af_version a)
        ?platform (u_key u) (af_data a) (hb_upgrades (wb_hub w)) = (o', ups)" by fastforce
    let ?h = "(wb_hub w)\<lparr>hb_upgrades := ups\<rparr>"
    have h: "hub_run pw ?h" by (rule run_upgrades [OF assms])
    have "hub_run pw h'" if "pg_session (hb_players ?h) p = Some i" "send_push pw i (UpgradeOffer offer) ?h = (e, h')"
      for i offer e h'
      by (rule hub_run.push_offer [OF h that])
    with assms h \<open>get_for_player io p (wb_settings w) = Inr sc\<close> sc b Inr st show ?thesis
      by (auto simp: upgrade_client_start_def Let_def fail_upgrade_def run_upgrades
          split: sum.split option.split prod.split)
  qed (use assms Inr sc b in \<open>simp add: upgrade_client_start_def Let_def\<close>)
qed

lemma answered_upgrade_client:
  assumes "hub_run pw (wb_hub w)"
  shows "answered pw (web_upgrade_client pw io cfg cs p w)"
proof -
  obtain r w' where c: "upgrade_client_check io cfg p w = (r, w')" by fastforce
  with check_run [OF assms c] start_run [of pw w'] show ?thesis
    by (auto simp: web_upgrade_client_def c split: sum.split)
qed

lemma answered_tunnels:
  assumes "protowire_laws pw" "hub_run pw (wb_hub w)"
  shows "answered pw (web_remove_tunnel pw io cs i w)" "answered pw (web_add_tunnel pw io cs req w)"
    "answered pw (web_update_tunnel pw io cs req w)" "answered pw (web_tunnel_list cs lreq w)"
proof -
  from hub_delete_tunnel_run [OF assms, of "wi_delete_tunnel io i" i] show "answered pw (web_remove_tunnel pw io cs i w)"
    by (auto simp: web_remove_tunnel_def split: option.split)
  from hub_add_tunnel_run [OF assms, of "wi_insert_tunnel io" "request_tunnel 0 req"]
  show "answered pw (web_add_tunnel pw io cs req w)"
    by (auto simp: web_add_tunnel_def split: sum.split)
  from hub_update_tunnel_run [OF assms, of "wi_update_tunnel io" "request_tunnel (tq_id req) req"]
  show "answered pw (web_update_tunnel pw io cs req w)"
    by (auto simp: web_update_tunnel_def split: option.split)
  show "answered pw (web_tunnel_list cs lreq w)"
    using assms(2) by (simp add: web_tunnel_list_def Let_def split: prod.split)
qed


definition sample_web :: web where
  "sample_web = \<lparr>wb_hub = sample_logged_in, wb_settings = \<lparr>cs_global = None, cs_player = Map.empty\<rparr>, wb_cache = Map.empty\<rparr>"

definition sample_cfg :: web_config where
  "sample_cfg = \<lparr>wc_username = ''admin'', wc_password = ''secret'', wc_latest_version = ''1.0.0'', wc_secret = [1, 2, 3]\<rparr>"

definition sample_web_io :: web_io where
  "sample_web_io = \<lparr>wi_now = 0, wi_server = sample_io, wi_env = example_env, wi_insert_tunnel = Inr 2,
     wi_update_tunnel = None, wi_delete_tunnel = (\<lambda>_. None), wi_settings_db = (\<lambda>_. None), wi_random = Inr [1],
     wi_staged = None, wi_settings_error = (\<lambda>_. ''''), wi_build_error = (\<lambda>_. ''''), wi_store_error = (\<lambda>_. '''')\<rparr>"


section \<open>Nothing without a login\<close>

type_synonym web_call = "web_io \<times> bool \<times> string option \<times> web_request"

fun serve_all ::
  "protowire \<Rightarrow> digests \<Rightarrow> web_config \<Rightarrow> web_call list \<Rightarrow> web \<Rightarrow> (web_response list \<times> web) option" where
  "serve_all pw dg cfg [] w = Some ([], w)"
| "serve_all pw dg cfg ((io, options, cookie, req) # calls) w =
     (case web_serve pw dg cfg io options cookie req w of
        None \<Rightarrow> None
      | Some (r, w) \<Rightarrow> map_option (\<lambda>(rs, w). (r # rs, w)) (serve_all pw dg cfg calls w))"

text \<open>What is assumed of those who send requests: a cookie with the server's MAC is one the server has sent to
  somebody before.\<close>

fun unforged ::
  "protowire \<Rightarrow> digests \<Rightarrow> web_config \<Rightarrow> string set \<Rightarrow> web_call list \<Rightarrow> web \<Rightarrow> bool" where
  "unforged pw dg cfg issued [] w = True"
| "unforged pw dg cfg issued ((io, options, cookie, req) # calls) w =
     (((\<exists>e. carries_mac dg cfg cookie e) \<longrightarrow> the cookie \<in> issued) \<and>
      (case web_serve pw dg cfg io options cookie req w of
         None \<Rightarrow> True
       | Some (r, w) \<Rightarrow> unforged pw dg cfg (issued \<union> sc_value ` set (rs_cookies r)) calls w))"

definition good_login :: "web_config \<Rightarrow> web_request \<Rightarrow> bool" where
  "good_login cfg req \<longleftrightarrow> req = Web_Login (Inr (wc_username cfg, wc_password cfg)) \<and> wc_username cfg \<noteq> ''''"

lemma no_mac_no_auth:
  assumes "\<not> (\<exists>e. carries_mac dg cfg cookie e)"
  shows "authenticate_and_refresh dg cfg now cookie = ([], None)"
proof (cases "authenticated dg cfg now cookie")
  case (Some ie)
  then show ?thesis using authenticated_carries_mac [of dg cfg now cookie "fst ie" "snd ie"] assms by simp
qed (simp add: authenticate_and_refresh_def)

lemma serve_without_mac:
  assumes "\<not> (\<exists>e. carries_mac dg cfg cookie e)" "\<not> good_login cfg req" "web_serve pw dg cfg io options cookie req w = Some (r, w')"
  shows "w' = w \<and> sc_value ` set (rs_cookies r) \<subseteq> {''''}"
proof -
  have "require_auth dg cfg now cookie w f = write_json [] 200 (General 10086 ''Session expired, please log in again.'') w" for now f
    by (simp add: require_auth_def no_mac_no_auth [OF assms(1)])
  with assms(2,3) show ?thesis
    by (cases req) (auto simp: web_serve_def web_handle_def Let_def write_json_def web_login_def web_logout_def
        web_test_auth_def decode_json_def good_login_def no_mac_no_auth [OF assms(1)] clear_auth_cookie_def
        split: if_splits sum.splits)
qed

lemma empty_carries_no_mac: "\<not> carries_mac dg cfg (Some '''') e"
  by (simp add: carries_mac_def)

lemma serve_without_login:
  assumes "serve_all pw dg cfg calls w = Some (rs, w')" "unforged pw dg cfg issued calls w" "issued \<subseteq> {''''}"
    "\<forall>(io, options, cookie, req) \<in> set calls. \<not> good_login cfg req"
  shows "w' = w \<and> (\<forall>r \<in> set rs. sc_value ` set (rs_cookies r) \<subseteq> {''''})"
  using assms
proof (induction calls arbitrary: w rs issued)
  case (Cons c calls)
  obtain io options cookie req where c: "c = (io, options, cookie, req)" by (cases c)
  with Cons.prems(1) obtain r w1 rs1 where s: "web_serve pw dg cfg io options cookie req w = Some (r, w1)"
    "serve_all pw dg cfg calls w1 = Some (rs1, w')" "rs = r # rs1"
    by (auto split: option.splits)
  have n: "\<not> (\<exists>e. carries_mac dg cfg cookie e)"
  proof
    assume "\<exists>e. carries_mac dg cfg cookie e"
    then obtain e where e: "carries_mac dg cfg cookie e" by blast
    with Cons.prems(2,3) c have "the cookie = ''''" by auto
    moreover from e obtain v where "cookie = Some v" by (auto simp: carries_mac_def)
    ultimately have "cookie = Some ''''" by simp
    with e empty_carries_no_mac show False by simp
  qed
  have g: "\<not> good_login cfg req" using Cons.prems(4) c by auto
  from serve_without_mac [OF n g s(1)] have w: "w1 = w" and cs: "sc_value ` set (rs_cookies r) \<subseteq> {''''}" by simp_all
  have "unforged pw dg cfg (issued \<union> sc_value ` set (rs_cookies r)) calls w" using Cons.prems(2) c s(1) w by simp
  from Cons.IH [OF s(2) [unfolded w] this] Cons.prems(3,4) cs have
    "w' = w \<and> (\<forall>r \<in> set rs1. sc_value ` set (rs_cookies r) \<subseteq> {''''})" by auto
  with cs s(3) show ?case by simp
qed simp


definition sample_calls :: "web_call list" where
  "sample_calls = [(sample_web_io, False, None, Web_Login (Inr (''admin'', ''guess''))),
     (sample_web_io, False, Some ''1.AAAA'', Web_Remove_Player (Inr 7))]"


section \<open>The list offers what the upgrade handler starts\<close>

lemma prune_expired_idem [simp]: "prune_expired now (prune_expired now m) = prune_expired now m"
proof
  fix p
  show "prune_expired now (prune_expired now m) p = prune_expired now m p"
    by (cases "m p") (auto simp: prune_expired_def prune_task_def Let_def remove_artifact_def upgrade_task_ttl_def
        upgrade_apply_ttl_def split: if_splits)
qed

lemma snapshot_pruned:
  "prune_expired now a = prune_expired now b \<Longrightarrow> um_snapshot now p a = um_snapshot now p b"
  "snd (um_snapshot now p a) = prune_expired now a"
  by (simp_all add: um_snapshot_def Let_def)

text \<open>One user's row, without the map of platforms and the order of the loop.\<close>

definition player_item_of :: "web_io \<Rightarrow> web_config \<Rightarrow> hub \<Rightarrow> user \<Rightarrow> player_item" where
  "player_item_of io cfg h u =
     (let info = pg_client_info (hb_players h) (u_id u);
          comparison = compare_versions (cl_version info) (wc_latest_version cfg);
          snapshot = fst (um_snapshot (wi_now io) (u_id u) (hb_upgrades h));
          online = pg_is_online (hb_players h) (u_id u);
          reason = client_upgrade_precondition_reason online (cl_updater info)
            (lookup_target (cl_platform info) \<noteq> None) comparison (is_upgrade_active (sn_state snapshot));
          reason = (if reason = '''' \<and> \<not> can_upgrade (wi_env io) (cl_platform info) then ''artifact_unavailable'' else reason)
      in \<lparr>pi_id = u_id u, pi_remark = u_remark u, pi_key = u_key u, pi_create_time = u_create_time u,
          pi_last_online_time = u_last_online_time u, pi_online = online, pi_client_version = cl_version info,
          pi_client_platform = cl_platform info, pi_latest_version = wc_latest_version cfg,
          pi_is_latest = (comparison = Some 0), pi_can_upgrade = (reason = ''''), pi_unavailable_reason = reason,
          pi_upgrade_status = sn_state snapshot, pi_upgrade_progress = sn_progress snapshot,
          pi_upgrade_error = sn_error snapshot\<rparr>)"

lemma player_items_each:
  assumes "\<And>platform b. checked platform = Some b \<Longrightarrow> b = can_upgrade (wi_env io) platform"
    "prune_expired (wi_now io) ups = prune_expired (wi_now io) (hb_upgrades h)"
  shows "fst (player_items io cfg h checked us ups) = map (player_item_of io cfg h) us"
  using assms
proof (induction us arbitrary: checked ups)
  case (Cons u us)
  let ?platform = "cl_platform (pg_client_info (hb_players h) (u_id u))"
  obtain sn ups1 where sn: "um_snapshot (wi_now io) (u_id u) ups = (sn, ups1)" by fastforce
  have "um_snapshot (wi_now io) (u_id u) (hb_upgrades h) = (sn, ups1)" using snapshot_pruned(1) [OF Cons.prems(2)] sn by simp
  moreover have "ups1 = prune_expired (wi_now io) ups" using snapshot_pruned(2) [of "wi_now io" "u_id u" ups] sn by simp
  then have "prune_expired (wi_now io) ups1 = prune_expired (wi_now io) (hb_upgrades h)" using Cons.prems(2) by simp
  note ih = Cons.IH [OF _ this]
  have av: "(case checked ?platform of None \<Rightarrow> can_upgrade (wi_env io) ?platform | Some b \<Rightarrow> b) = can_upgrade (wi_env io) ?platform"
    using Cons.prems(1) by (auto split: option.split)
  have "fst (player_items io cfg h checked us ups1) = map (player_item_of io cfg h) us"
    by (rule ih) (rule Cons.prems(1))
  moreover have "fst (player_items io cfg h (checked(?platform \<mapsto> can_upgrade (wi_env io) ?platform)) us ups1) =
      map (player_item_of io cfg h) us"
    by (rule ih) (use Cons.prems(1) in \<open>auto split: if_splits\<close>)
  ultimately show ?case
    using \<open>um_snapshot (wi_now io) (u_id u) (hb_upgrades h) = (sn, ups1)\<close>
    by (cases "can_upgrade (wi_env io) ?platform") (auto simp: sn av Let_def player_item_of_def split: prod.split)
qed simp

definition found_players :: "web_io \<Rightarrow> int \<times> int \<Rightarrow> player_manager \<Rightarrow> store_error + (user list \<times> nat)" where
  "found_players io req players =
     (if snd req = 0 then map_sum id (\<lambda>us. (us, length us)) (us_find_all (si_db (wi_server io) ''find_all'') (pg_table players))
      else pg_list (si_db (wi_server io)) (if fst req < 0 then 0 else fst req) (if snd req > 100 then 100 else snd req) players)"

lemma found_in_table:
  assumes "found_players io req players = Inr (us, n)"
  shows "set us \<subseteq> set (pg_table players)"
proof -
  have "set us \<subseteq> set (newest_first (pg_table players))"
  proof (cases "snd req = 0")
    case True
    with assms show ?thesis by (auto simp: found_players_def us_find_all_def split: option.splits)
  next
    case False
    with assms obtain a b where "us = take a (drop b (newest_first (pg_table players)))"
      by (auto simp: found_players_def pg_list_def us_list_def Let_def split: option.splits)
    then show ?thesis by (auto dest: in_set_takeD in_set_dropD)
  qed
  then show ?thesis by (simp add: newest_first_def)
qed

lemma player_list_answer:
  assumes "web_player_list io cfg cs req w = Some (r, w')" "rs_body r = Players_Body items page count"
  shows "\<exists>us n. found_players io req (hb_players (wb_hub w)) = Inr (us, n) \<and>
    items = fst (player_items io cfg (wb_hub w) Map.empty us (hb_upgrades (wb_hub w)))"
proof -
  have list: "web_player_list io cfg cs req w = (case found_players io req (hb_players (wb_hub w)) of
      Inl e \<Rightarrow> write_json cs 500 (General (- 1) (wi_store_error io e)) w
    | Inr (users, count) \<Rightarrow>
        (let (items, ups) = player_items io cfg (wb_hub w) Map.empty users (hb_upgrades (wb_hub w))
         in write_json cs 200 (Players_Body items (if fst req < 0 then 0 else fst req) count)
              (w\<lparr>wb_hub := (wb_hub w)\<lparr>hb_upgrades := ups\<rparr>\<rparr>)))"
    by (simp add: web_player_list_def found_players_def Let_def)
  show ?thesis
  proof (cases "found_players io req (hb_players (wb_hub w))")
    case (Inl e)
    with assms show ?thesis unfolding list by (auto simp: write_json_def)
  next
    case (Inr x)
    obtain us n where x: "x = (us, n)" by (cases x)
    obtain its ups where p: "player_items io cfg (wb_hub w) Map.empty us (hb_upgrades (wb_hub w)) = (its, ups)" by fastforce
    from assms have "its = items" unfolding list Inr x by (auto simp: p write_json_def)
    with Inr x p show ?thesis by simp
  qed
qed

lemma listed_users:
  assumes "web_player_list io cfg cs req w = Some (r, w')" "rs_body r = Players_Body items page count" "item \<in> set items"
  obtains u where "u \<in> set (pg_table (hb_players (wb_hub w)))" "item = player_item_of io cfg (wb_hub w) u"
proof -
  obtain us n where us: "found_players io req (hb_players (wb_hub w)) = Inr (us, n)"
    "items = fst (player_items io cfg (wb_hub w) Map.empty us (hb_upgrades (wb_hub w)))"
    using player_list_answer [OF assms(1,2)] by blast
  have "fst (player_items io cfg (wb_hub w) Map.empty us (hb_upgrades (wb_hub w))) = map (player_item_of io cfg (wb_hub w)) us"
    by (rule player_items_each) simp_all
  with us assms(3) found_in_table [OF us(1)] that show thesis by auto
qed

text \<open>
  C28. The list of players says of a player that the client can be upgraded exactly when the upgrade handler, asked for
  this player in the same state, would pass all its checks and start to build; the reason shown otherwise is never empty.
\<close>

theorem list_offers_upgrades:
  assumes "protowire_laws pw" "hub_run pw (wb_hub w)" "si_db (wi_server io) ''find_by_id'' = None"
    and "web_player_list io cfg cs req w = Some (r, w')" "rs_body r = Players_Body items page count" "item \<in> set items"
  shows "(pi_can_upgrade item \<longleftrightarrow> (\<exists>u w''. upgrade_client_check io cfg (pi_id item) w = (Inr u, w''))) \<and>
    (pi_can_upgrade item \<longleftrightarrow> pi_unavailable_reason item = '''')"
proof -
  obtain u where u: "u \<in> set (pg_table (hb_players (wb_hub w)))" "item = player_item_of io cfg (wb_hub w) u"
    by (rule listed_users [OF assms(4-6)])
  have "distinct (map u_id (pg_table (hb_players (wb_hub w))))"
    using hub_run_inv [OF assms(1,2)] by (simp add: hub_inv_except_def players_ok_def pg_inv_def table_ok_def)
  with u(1) have f: "find_player io (u_id u) w = Inr (Some u)"
    by (simp add: find_player_def us_find_by_id_def assms(3) find_unique)
  obtain sn ups where sn: "um_snapshot (wi_now io) (u_id u) (hb_upgrades (wb_hub w)) = (sn, ups)" by fastforce
  show ?thesis
    unfolding u(2) by (auto simp: player_item_of_def upgrade_client_check_def f sn Let_def
        client_upgrade_precondition_reason_def split: option.splits)
qed

lemma player_list_of_found:
  assumes "found_players io req (hb_players (wb_hub w)) = Inr (us, n)"
  shows "\<exists>r w' page. web_player_list io cfg cs req w = Some (r, w') \<and>
    rs_body r = Players_Body (map (player_item_of io cfg (wb_hub w)) us) page n"
proof -
  obtain its ups where p: "player_items io cfg (wb_hub w) Map.empty us (hb_upgrades (wb_hub w)) = (its, ups)" by fastforce
  have "fst (player_items io cfg (wb_hub w) Map.empty us (hb_upgrades (wb_hub w))) = map (player_item_of io cfg (wb_hub w)) us"
    by (rule player_items_each) simp_all
  with p have its: "its = map (player_item_of io cfg (wb_hub w)) us" by simp
  show ?thesis
    using assms by (simp add: web_player_list_def found_players_def [symmetric] Let_def p its write_json_def)
qed

theorem list_offers_upgrades_witness:
  "\<exists>item :: player_item. pi_id item = 7 \<and> pi_online item \<and> pi_unavailable_reason item = ''updater_unsupported'' \<and>
     \<not> (\<exists>u w''. upgrade_client_check sample_web_io sample_cfg 7 sample_web = (Inr u, w''))"
proof -
  let ?u = "sample_user 7 ''home'' ''k7''"
  have h: "wb_hub sample_web = sample_logged_in" by (simp add: sample_web_def)
  have "found_players sample_web_io (0, 0) (hb_players (wb_hub sample_web)) = Inr (newest_first sample_table, 2)"
    by (simp add: found_players_def sample_web_io_def sample_web_def sample_logged_in_def sample_defs us_find_all_def newest_first_def)
  from player_list_of_found [OF this, of sample_cfg "[]"] obtain r w' page where
    l: "web_player_list sample_web_io sample_cfg [] (0, 0) sample_web = Some (r, w')"
      "rs_body r = Players_Body (map (player_item_of sample_web_io sample_cfg sample_logged_in) (newest_first sample_table)) page 2"
    unfolding h by blast
  let ?i = "player_item_of sample_web_io sample_cfg sample_logged_in ?u"
  have "?u \<in> set (newest_first sample_table)" by (simp add: newest_first_def sample_table_def)
  then have m: "?i \<in> set (map (player_item_of sample_web_io sample_cfg sample_logged_in) (newest_first sample_table))" by simp
  have f: "pi_id ?i = 7" "pi_online ?i" "pi_unavailable_reason ?i = ''updater_unsupported''"
    by (simp_all add: player_item_of_def Let_def sample_logged_in_def sample_defs pg_client_info_def pg_is_online_def
        client_upgrade_precondition_reason_def upgrade_protocol_version_def)
  have "hub_run std_wire (wb_hub sample_web)" "si_db (wi_server sample_web_io) ''find_by_id'' = None"
    by (simp_all add: h sample_run sample_web_io_def sample_io_def)
  note agree = list_offers_upgrades [OF std_wire_laws this l m, unfolded f]
  from agree [THEN conjunct2] have "\<not> pi_can_upgrade ?i" by simp
  then have "\<not> (\<exists>u w''. upgrade_client_check sample_web_io sample_cfg 7 sample_web = (Inr u, w''))"
    unfolding agree [THEN conjunct1] .
  with f show ?thesis by blast
qed

section \<open>Removing a player\<close>

lemma hub_delete_tunnel_effect:
  assumes "hub_inv pw h" "tm_inv (hb_tunnels h)" "hub_delete_tunnel pw db i h = Some (None, h')"
  shows "hub_inv pw h' \<and> tm_inv (hb_tunnels h') \<and>
    tm_tunnels (hb_tunnels h') = filter (\<lambda>t. t_id t \<noteq> i) (tm_tunnels (hb_tunnels h))"
proof -
  obtain e m where m: "tm_delete db i (hb_tunnels h) = (e, m)" by fastforce
  with assms(3) have d: "db = None" "e = None" "hub_apply_notices pw m h = Some h'"
    by (auto simp: hub_delete_tunnel_def tm_delete_def Let_def split: option.splits)
  let ?h = "h\<lparr>hb_tunnels := m\<lparr>tm_notices := []\<rparr>\<rparr>"
  have "hub_inv pw ?h" using assms(1) by simp
  from fold_option_good [OF _ this lessI, of "hub_broadcast_tunnel pw" "tm_notices m"] broadcast_notice_good d(3)
  have g: "good_change pw ?h h'" by (auto simp: hub_apply_notices_def)
  then have t: "tm_tunnels (hb_tunnels h') = tm_tunnels m" "tm_lookup (hb_tunnels h') = tm_lookup m" "hub_inv pw h'"
    by (simp_all add: good_change_def same_data_def)
  have "tm_inv m" using tm_delete_inv [OF assms(2) m] .
  with t have "tm_inv (hb_tunnels h')" by (simp add: tm_inv_def)
  moreover have "tm_tunnels m = filter (\<lambda>t. t_id t \<noteq> i) (tm_tunnels (hb_tunnels h))"
    using tm_delete_shape [OF assms(2), of i] m d by simp
  ultimately show ?thesis using t by simp
qed

lemma remove_tunnels_effect:
  assumes "hub_inv pw h" "tm_inv (hb_tunnels h)" "remove_tunnels pw db is h = Some (None, h')"
  shows "hub_inv pw h' \<and> tm_inv (hb_tunnels h') \<and>
    tm_tunnels (hb_tunnels h') = filter (\<lambda>t. t_id t \<notin> set is) (tm_tunnels (hb_tunnels h))"
  using assms
proof (induction "is" arbitrary: h)
  case (Cons i "is")
  from Cons.prems(3) obtain h1 where h1: "hub_delete_tunnel pw (db i) i h = Some (None, h1)"
    "remove_tunnels pw db is h1 = Some (None, h')" by (auto split: option.splits)
  from hub_delete_tunnel_effect [OF Cons.prems(1,2) h1(1)] Cons.IH [OF _ _ h1(2)]
  show ?case by (auto intro!: filter_cong)
qed simp

lemma delete_player_effect:
  assumes "hub_inv pw h" "hub_delete_player pw db p h = Some (e, h')"
  shows "hb_tunnels h' = hb_tunnels h \<and>
    (e = None \<longrightarrow> pg_players (hb_players h') p = None \<and> p \<notin> u_id ` set (pg_table (hb_players h')) \<and>
       session_for h' p = None)"
proof -
  from assms(1) have pg: "pg_inv (hb_players h)" and ag: "players_agree h"
    by (simp_all add: hub_inv_except_def players_ok_def)
  obtain x s m where d: "pg_delete db p (hb_players h) = ((x, s), m)" by (metis surj_pair)
  have s: "s = None" using d offline_no_session [OF pg, of p]
    by (auto simp: pg_delete_def pg_session_def split: if_splits prod.splits option.splits)
  with assms(2) d have h': "h' = h\<lparr>hb_players := m\<rparr>" "e = x" by (simp_all add: hub_delete_player_def)
  have "pg_players m p = None \<and> p \<notin> u_id ` set (pg_table m) \<and> \<not> pg_is_online (hb_players h) p" if "x = None"
    using d that by (auto simp: pg_delete_def us_delete_def Let_def split: if_splits prod.splits option.splits)
  moreover have "session_for h p = None" if "\<not> pg_is_online (hb_players h) p"
    using offline_no_session [OF pg that] ag by (simp add: players_agree_def session_for_def)
  ultimately show ?thesis by (auto simp: h' session_for_def)
qed

text \<open>
  C29. A request to remove a player that succeeds leaves nothing of the player: no entry and no row, no tunnel with the
  player at either end, no session, no settings of the player's own, no upgrade.  And when the last step fails - the
  player is online, say - the tunnels are gone all the same.
\<close>

theorem removed_player_leaves_nothing:
  assumes "protowire_laws pw" "hub_run pw (wb_hub w)" "tm_inv (hb_tunnels (wb_hub w))"
    and "web_remove_player pw io cs p w = Some (r, w')" "\<forall>i. wi_delete_tunnel io i = None"
  shows "tm_by_player (hb_tunnels (wb_hub w')) p = [] \<and>
    (rs_body r = General 0 ''Success'' \<longrightarrow>
       \<not> pg_exists (hb_players (wb_hub w')) p \<and> p \<notin> u_id ` set (pg_table (hb_players (wb_hub w'))) \<and>
       session_for (wb_hub w') p = None \<and> cs_player (wb_settings w') p = None \<and> hb_upgrades (wb_hub w') p = None)"
proof -
  let ?is = "map t_id (tm_by_player (hb_tunnels (wb_hub w)) p)"
  note inv = hub_run_inv [OF assms(1,2)]
  have none: "remove_tunnels pw (wi_delete_tunnel io) is h = Some (x, h') \<Longrightarrow> x = None" for "is" x h h'
    using assms(5) by (induction "is" arbitrary: h) (auto simp: hub_delete_tunnel_def tm_delete_def Let_def split: option.splits prod.splits)
  obtain e h where h: "remove_tunnels pw (wi_delete_tunnel io) ?is (wb_hub w) = Some (e, h)"
    using remove_tunnels_run [OF assms(1,2)] by blast
  with none have e: "e = None" by blast
  from remove_tunnels_effect [OF inv assms(3) h [unfolded e]]
  have t: "hub_inv pw h" "tm_tunnels (hb_tunnels h) = filter (\<lambda>t. t_id t \<notin> set ?is) (tm_tunnels (hb_tunnels (wb_hub w)))" by simp_all
  from assms(4) h e obtain x h2 where d: "hub_delete_player pw (si_db (wi_server io)) p h = Some (x, h2)"
    by (auto simp: web_remove_player_def split: option.splits)
  note f = delete_player_effect [OF t(1) d]
  have "tm_by_player (hb_tunnels h) p = []"
    using t(2) by (auto simp: tm_by_player_def filter_empty_conv)
  with f have nt: "tm_by_player (hb_tunnels h2) p = []" by simp
  show ?thesis
  proof (cases x)
    case None
    with assms(4) h e d have "w' = w\<lparr>wb_settings := settings_cascade (pg_table (hb_players h2)) (wb_settings w),
        wb_hub := h2\<lparr>hb_upgrades := um_remove p (hb_upgrades h2)\<rparr>\<rparr>"
      by (cases w) (simp add: web_remove_player_def write_json_def Let_def)
    with nt f None show ?thesis
      by (simp add: pg_exists_def settings_cascade_def um_remove_def session_for_def)
  next
    case (Some y)
    with assms(4) h e d nt show ?thesis
      by (auto simp: web_remove_player_def write_json_def Let_def)
  qed
qed

theorem removed_player_leaves_nothing_witness:
  "tm_by_player (hb_tunnels (wb_hub sample_web)) 7 \<noteq> [] \<and>
   (\<exists>r w'. web_remove_player std_wire sample_web_io [] 7 sample_web = Some (r, w') \<and>
      tm_by_player (hb_tunnels (wb_hub w')) 7 = [])"
proof -
  have h: "hub_run std_wire (wb_hub sample_web)" by (simp add: sample_web_def sample_run)
  have t: "tm_inv (hb_tunnels (wb_hub sample_web))"
    by (simp add: sample_web_def sample_logged_in_def sample_hub_def sample_tunnels_def sample_link_def tm_inv_def no_conflicts_def)
  from answered_remove_player [OF std_wire_laws h] obtain r w' where
    r: "web_remove_player std_wire sample_web_io [] 7 sample_web = Some (r, w')"
    unfolding answered_def by blast
  have "\<forall>i. wi_delete_tunnel sample_web_io i = None" by (simp add: sample_web_io_def)
  from removed_player_leaves_nothing [OF std_wire_laws h t r this] r
  show ?thesis
    by (auto simp: sample_web_def sample_logged_in_def sample_hub_def sample_tunnels_def sample_link_def tm_by_player_def)
qed

end
