(* ===== verification/Upgrade_Apply.thy ===== *)
theory Upgrade_Apply
  imports Upgrade_Transfer
begin

text \<open>
  \<open>internal/upgrade/apply.go\<close> with its Unix half \<open>platform_unix.go\<close>: the helper that replaces the client's
  executable.  It runs from the candidate, after the client that wrote \<open>pending.json\<close> has been asked to end.

  The disk is that of the receiver (\<open>Upgrade_Receiver\<close>): the map of the binaries and the JSON files.  The state also
  keeps what has been started, and every contents the disk has had: a loss of power leaves one of them.  How each call
  into the operating system and the service manager turns out is an argument; a rename is atomic, as \<open>rename(2)\<close> is.
\<close>

section \<open>Errors\<close>

datatype service_error =
    Call_Failed string
  | Entered_Failed
  | Not_Reached bool string

datatype launch_error = Service_Error service_error | Exec_Error string

datatype retry_error =
    Not_Prepared nat service_error
  | Not_Replaced nat string "service_error option"

datatype rollback_error = Updated_Not_Stopped service_error | Backup_Not_Restored retry_error | Old_Not_Started launch_error

datatype apply_error =
    State_Unreadable
  | State_Invalid
  | Not_Isolated string
  | Candidate_Unreadable string
  | Checksum_Changed
  | Parent_Running string
  | Old_Not_Stopped service_error
  | Backup_Failed string
  | Backup_Not_Persisted string
  | Stage_Failed string
  | Activate_Failed retry_error
  | New_Not_Persisted string
  | New_Not_Started launch_error
  | Not_Healthy
  | And_Parent_Running apply_error string
  | And_Old_Not_Started apply_error launch_error
  | And_Rollback_Failed apply_error rollback_error

section \<open>The disk and the processes\<close>

record helper =
  hp_disk :: receiver
  hp_started :: "byte list list"
  hp_seen :: "(string \<rightharpoonup> byte list) list"

abbreviation files :: "helper \<Rightarrow> string \<rightharpoonup> byte list" where "files h \<equiv> rc_files (hp_disk h)"

definition put_files :: "(string \<rightharpoonup> byte list) \<Rightarrow> helper \<Rightarrow> helper" where
  "put_files fs h = h\<lparr>hp_disk := (hp_disk h)\<lparr>rc_files := fs\<rparr>, hp_seen := hp_seen h @ [fs]\<rparr>"

definition remove_path :: "bool \<Rightarrow> string \<Rightarrow> helper \<Rightarrow> helper" where
  "remove_path ok path h = (if ok then put_files ((files h)(path := None)) h else h)"

text \<open>\<open>copyFileSync\<close>: opening may fail; later a write, the flush or the close after \<open>n\<close> bytes have arrived, and then the
  copy is removed, if that works.\<close>

datatype copy_io = Open_Fails string | Copy_Fails string nat bool | Copied nat

definition copy_file_sync :: "copy_io \<Rightarrow> string \<Rightarrow> string \<Rightarrow> helper \<Rightarrow> string option \<times> helper" where
  "copy_file_sync io src dst h =
     (case files h src of
        None \<Rightarrow> (Some ''no such file'', h)
      | Some data \<Rightarrow>
          if files h dst \<noteq> None then (Some ''file exists'', h)
          else (case io of
              Open_Fails e \<Rightarrow> (Some e, h)
            | Copy_Fails e n removed \<Rightarrow>
                let h = put_files ((files h)(dst \<mapsto> [])) h;
                    h = put_files ((files h)(dst \<mapsto> take n data)) h
                in (Some e, remove_path removed dst h)
            | Copied n \<Rightarrow>
                let h = put_files ((files h)(dst \<mapsto> [])) h;
                    h = put_files ((files h)(dst \<mapsto> take n data)) h
                in (None, put_files ((files h)(dst \<mapsto> data)) h)))"

text \<open>\<open>atomicReplace\<close>.\<close>

definition atomic_replace :: "string option \<Rightarrow> string \<Rightarrow> string \<Rightarrow> helper \<Rightarrow> string option \<times> helper" where
  "atomic_replace io src dst h =
     (case (files h src, io) of
        (None, _) \<Rightarrow> (Some ''no such file'', h)
      | (Some data, Some e) \<Rightarrow> (Some e, h)
      | (Some data, None) \<Rightarrow> (None, put_files ((files h)(src := None, dst \<mapsto> data)) h))"

section \<open>The service manager\<close>

text \<open>The outcome of \<open>systemctl\<close>, what \<open>is-active\<close> says after it failed, and what the polls say until the deadline.\<close>

record service_io =
  sv_call :: "string option"
  sv_asked :: string
  sv_polls :: "string list"

fun wait_for_systemd_service_state :: "bool \<Rightarrow> string list \<Rightarrow> string \<Rightarrow> service_error option" where
  "wait_for_systemd_service_state running [] latest = Some (Not_Reached running latest)"
| "wait_for_systemd_service_state running (state # polls) latest =
     (let latest = (if state \<noteq> '''' then state else latest) in
      if running \<and> state = ''active'' then None
      else if \<not> running \<and> (state = ''inactive'' \<or> state = ''failed'') then None
      else if running \<and> state = ''failed'' then Some Entered_Failed
      else wait_for_systemd_service_state running polls latest)"

definition start_service :: "service_io \<Rightarrow> service_error option" where
  "start_service sv =
     (case sv_call sv of
        Some e \<Rightarrow> Some (Call_Failed e)
      | None \<Rightarrow> wait_for_systemd_service_state True (sv_polls sv) ''unknown'')"

definition stop_service :: "service_io \<Rightarrow> service_error option" where
  "stop_service sv =
     (case sv_call sv of
        Some e \<Rightarrow> if sv_asked sv = ''inactive'' \<or> sv_asked sv = ''failed'' then None else Some (Call_Failed e)
      | None \<Rightarrow> wait_for_systemd_service_state False (sv_polls sv) ''unknown'')"

text \<open>Starting what is at the target: through the service manager, or as a process of its own.  A service that has
  been started runs it, also when it does not become active.\<close>

record launch_io =
  li_service :: service_io
  li_exec :: "string option"

definition is_service :: "apply_state \<Rightarrow> bool" where "is_service st \<longleftrightarrow> as_mode st = ''service''"

definition launch :: "launch_io \<Rightarrow> apply_state \<Rightarrow> helper \<Rightarrow> launch_error option \<times> helper" where
  "launch io st h =
     (let run = (case files h (as_target st) of None \<Rightarrow> h | Some c \<Rightarrow> h\<lparr>hp_started := hp_started h @ [c]\<rparr>) in
      if is_service st
      then (map_option Service_Error (start_service (li_service io)), if sv_call (li_service io) = None then run else h)
      else if files h (as_target st) = None then (Some (Exec_Error ''no such file''), h)
      else (case li_exec io of Some e \<Rightarrow> (Some (Exec_Error e), h) | None \<Rightarrow> (None, run)))"

section \<open>Replacing the target\<close>

text \<open>\<open>retryRenameForState\<close>: one entry of the list for each attempt before the deadline, with the outcome of stopping
  the service and of the rename.\<close>

definition retry_failed :: "nat \<Rightarrow> string option \<Rightarrow> service_error option \<Rightarrow> retry_error" where
  "retry_failed n latest hook =
     (case (latest, hook) of
        (None, Some e) \<Rightarrow> Not_Prepared n e
      | (None, None) \<Rightarrow> Not_Replaced n ''replacement timed out before the first replacement attempt'' None
      | (Some e, hook) \<Rightarrow> Not_Replaced n e hook)"

fun retry_rename ::
  "bool \<Rightarrow> string \<Rightarrow> string \<Rightarrow> (service_io \<times> string option) list \<Rightarrow> nat \<Rightarrow> string option \<Rightarrow> service_error option \<Rightarrow> helper
    \<Rightarrow> retry_error option \<times> helper" where
  "retry_rename service src dst [] n latest hook h = (Some (retry_failed n latest hook), h)"
| "retry_rename service src dst ((sv, io) # attempts) n latest hook h =
     (let hook = (if service then stop_service sv else None) in
      if hook \<noteq> None then retry_rename service src dst attempts (n + 1) latest hook h
      else (case atomic_replace io src dst h of
              (None, h) \<Rightarrow> (None, h)
            | (Some e, h) \<Rightarrow> retry_rename service src dst attempts (n + 1) (Some e) None h))"

definition retry_rename_for_state ::
  "apply_state \<Rightarrow> string \<Rightarrow> string \<Rightarrow> (service_io \<times> string option) list \<Rightarrow> helper \<Rightarrow> retry_error option \<times> helper" where
  "retry_rename_for_state st src dst attempts h = retry_rename (is_service st) src dst attempts 0 None None h"

definition installing_path :: "apply_state \<Rightarrow> string" where
  "installing_path st = as_target st @ ''.installing-'' @ as_task_id st"

definition failed_path :: "apply_state \<Rightarrow> string" where
  "failed_path st = as_target st @ ''.failed-'' @ as_task_id st"

record replace_io =
  ri_backup :: copy_io
  ri_sync_backup :: "string option"
  ri_drop_backup :: bool
  ri_stage :: copy_io
  ri_activate :: "(service_io \<times> string option) list"
  ri_drop_staged :: bool
  ri_sync_new :: "string option"
  ri_keep_failed :: copy_io
  ri_undo :: "(service_io \<times> string option) list"

definition replace_target :: "replace_io \<Rightarrow> apply_state \<Rightarrow> helper \<Rightarrow> apply_error option \<times> helper" where
  "replace_target io st h =
     (case copy_file_sync (ri_backup io) (as_target st) (as_backup st) h of
        (Some e, h) \<Rightarrow> (Some (Backup_Failed e), h)
      | (None, h) \<Rightarrow>
      (case ri_sync_backup io of
        Some e \<Rightarrow> (Some (Backup_Not_Persisted e), remove_path (ri_drop_backup io) (as_backup st) h)
      | None \<Rightarrow>
      (case copy_file_sync (ri_stage io) (as_candidate st) (installing_path st) h of
        (Some e, h) \<Rightarrow> (Some (Stage_Failed e), h)
      | (None, h) \<Rightarrow>
      (case retry_rename_for_state st (installing_path st) (as_target st) (ri_activate io) h of
        (Some e, h) \<Rightarrow> (Some (Activate_Failed e), remove_path (ri_drop_staged io) (installing_path st) h)
      | (None, h) \<Rightarrow>
      (case ri_sync_new io of
        None \<Rightarrow> (None, h)
      | Some e \<Rightarrow>
          let h = snd (copy_file_sync (ri_keep_failed io) (as_target st) (failed_path st) h);
              h = snd (retry_rename_for_state st (as_backup st) (as_target st) (ri_undo io) h)
          in (Some (New_Not_Persisted e), h))))))"

record rollback_io =
  bi_stop :: service_io
  bi_keep_failed :: copy_io
  bi_restore :: "(service_io \<times> string option) list"
  bi_launch :: launch_io

definition rollback_target :: "rollback_io \<Rightarrow> apply_state \<Rightarrow> helper \<Rightarrow> rollback_error option \<times> helper" where
  "rollback_target io st h =
     (case (if is_service st then stop_service (bi_stop io) else None) of
        Some e \<Rightarrow> (Some (Updated_Not_Stopped e), h)
      | None \<Rightarrow>
          let h = snd (copy_file_sync (bi_keep_failed io) (as_target st) (failed_path st) h) in
          (case retry_rename_for_state st (as_backup st) (as_target st) (bi_restore io) h of
             (Some e, h) \<Rightarrow> (Some (Backup_Not_Restored e), h)
           | (None, h) \<Rightarrow> (case launch (bi_launch io) st h of (e, h) \<Rightarrow> (map_option Old_Not_Started e, h))))"

section \<open>The helper\<close>

record helper_io =
  hi_linux :: bool
  hi_transient :: bool
  hi_executable :: "string option"
  hi_systemd_run :: "string option"
  hi_digest :: "string option"
  hi_exit :: "string option"
  hi_exit_again :: "string option"
  hi_stop :: service_io
  hi_replace :: replace_io
  hi_relaunch :: launch_io
  hi_launch :: launch_io
  hi_health :: "bool list"
  hi_rollback :: rollback_io
  hi_record :: bool
  hi_record_again :: bool
  hi_drop_backup :: bool
  hi_drop_state :: bool
  hi_drop_download :: bool
  hi_text :: "apply_error \<Rightarrow> string"

text \<open>\<open>ensureApplyHelperIsolation\<close>: whether a transient unit has taken over.\<close>

definition ensure_apply_helper_isolation :: "helper_io \<Rightarrow> apply_state \<Rightarrow> string + bool" where
  "ensure_apply_helper_isolation io st =
     (if \<not> hi_linux io \<or> \<not> is_service st \<or> hi_transient io then Inr False
      else (case hi_executable io of
          Some e \<Rightarrow> Inl e
        | None \<Rightarrow> (case hi_systemd_run io of Some e \<Rightarrow> Inl e | None \<Rightarrow> Inr True)))"

definition record_apply_failure :: "helper_io \<Rightarrow> bool \<Rightarrow> apply_state \<Rightarrow> apply_error \<Rightarrow> helper \<Rightarrow> helper" where
  "record_apply_failure io ok st e h =
     (if ok
      then h\<lparr>hp_disk := (hp_disk h)\<lparr>rc_result :=
             Some \<lparr>ar_task_id = as_task_id st, ar_state = ''rolled_back'', ar_error = hi_text io e\<rparr>\<rparr>\<rparr>
      else h)"

definition clear_pending_state :: "helper_io \<Rightarrow> helper \<Rightarrow> helper" where
  "clear_pending_state io h =
     (let h = (if hi_drop_state io then h\<lparr>hp_disk := (hp_disk h)\<lparr>rc_pending := None\<rparr>\<rparr> else h) in
      if hi_drop_download io then h\<lparr>hp_disk := (hp_disk h)\<lparr>rc_download := None\<rparr>\<rparr> else h)"

definition recover_before_switch :: "helper_io \<Rightarrow> apply_state \<Rightarrow> apply_error \<Rightarrow> helper \<Rightarrow> apply_error \<times> helper" where
  "recover_before_switch io st cause h =
     (let h = record_apply_failure io (hi_record io) st cause h in
      case hi_exit_again io of
        Some e \<Rightarrow> (And_Parent_Running cause e, h)
      | None \<Rightarrow>
          (case launch (hi_relaunch io) st h of
             (Some e, h) \<Rightarrow> (And_Old_Not_Started cause e, h)
           | (None, h) \<Rightarrow> (cause, clear_pending_state io h)))"

text \<open>The target has been replaced: start it, wait for its health file, go back otherwise.\<close>

definition roll_back :: "helper_io \<Rightarrow> apply_state \<Rightarrow> apply_error \<Rightarrow> helper \<Rightarrow> apply_error \<times> helper" where
  "roll_back io st e h =
     (let h = record_apply_failure io (hi_record io) st e h in
      case rollback_target (hi_rollback io) st h of
        (None, h) \<Rightarrow> (e, clear_pending_state io h)
      | (Some rb, h) \<Rightarrow>
          let e = And_Rollback_Failed e rb
          in (e, clear_pending_state io (record_apply_failure io (hi_record_again io) st e h)))"

definition activate :: "helper_io \<Rightarrow> apply_state \<Rightarrow> helper \<Rightarrow> apply_error option \<times> helper" where
  "activate io st h =
     (case launch (hi_launch io) st h of
        (Some e, h) \<Rightarrow> (case roll_back io st (New_Not_Started e) h of (e, h) \<Rightarrow> (Some e, h))
      | (None, h) \<Rightarrow>
          if True \<in> set (hi_health io)
          then (None, clear_pending_state io (remove_path (hi_drop_backup io) (as_backup st) h))
          else (case roll_back io st Not_Healthy h of (e, h) \<Rightarrow> (Some e, h)))"

definition switch :: "helper_io \<Rightarrow> apply_state \<Rightarrow> helper \<Rightarrow> apply_error option \<times> helper" where
  "switch io st h =
     (case replace_target (hi_replace io) st h of
        (Some e, h) \<Rightarrow>
          (Some e, clear_pending_state io (snd (launch (hi_relaunch io) st (record_apply_failure io (hi_record io) st e h))))
      | (None, h) \<Rightarrow> activate io st h)"

definition run_apply_helper :: "digests \<Rightarrow> helper_io \<Rightarrow> helper \<Rightarrow> apply_error option \<times> helper" where
  "run_apply_helper dg io h =
     (case rc_pending (hp_disk h) of
        None \<Rightarrow> (Some State_Unreadable, h)
      | Some st \<Rightarrow>
          if as_target st = '''' \<or> as_candidate st = '''' \<or> as_backup st = '''' \<or> as_parent_pid st \<le> 0
          then (Some State_Invalid, h)
          else
            let recover = (\<lambda>e. case recover_before_switch io st e h of (e, h) \<Rightarrow> (Some e, h)) in
            (case ensure_apply_helper_isolation io st of
               Inl e \<Rightarrow> recover (Not_Isolated e)
             | Inr True \<Rightarrow> (None, h)
             | Inr False \<Rightarrow>
                 (case file_sha256 dg (hi_digest io) (as_candidate st) (hp_disk h) of
                    Inl e \<Rightarrow> recover (Candidate_Unreadable e)
                  | Inr digest \<Rightarrow>
                      if \<not> equal_fold (as_expected_sha256 st) digest then recover Checksum_Changed
                      else (case hi_exit io of
                          Some e \<Rightarrow> (Some (Parent_Running e), record_apply_failure io (hi_record io) st (Parent_Running e) h)
                        | None \<Rightarrow>
                            (case (if is_service st then stop_service (hi_stop io) else None) of
                               Some e \<Rightarrow> recover (Old_Not_Stopped e)
                             | None \<Rightarrow> switch io st h)))))"

section \<open>What the target holds\<close>

text \<open>The target holds one of the binaries of \<open>X\<close>, now and whenever the power failed, and only they were started.\<close>

definition safe :: "string \<Rightarrow> byte list set \<Rightarrow> helper \<Rightarrow> bool" where
  "safe t X h \<longleftrightarrow> (\<exists>c \<in> X. files h t = Some c) \<and> (\<forall>fs \<in> set (hp_seen h). \<exists>c \<in> X. fs t = Some c) \<and> set (hp_started h) \<subseteq> X"

lemma files_put [simp]: "files (put_files fs h) = fs"
  by (simp add: put_files_def)

lemma safe_put: "safe t X h \<Longrightarrow> fs t = files h t \<or> (\<exists>c \<in> X. fs t = Some c) \<Longrightarrow> safe t X (put_files fs h)"
  by (auto simp: safe_def put_files_def)

lemma safe_remove: "safe t X h \<Longrightarrow> p \<noteq> t \<Longrightarrow> safe t X (remove_path ok p h)"
  by (simp add: remove_path_def safe_put)

lemma files_remove: "p \<noteq> q \<Longrightarrow> files (remove_path ok p h) q = files h q"
  by (simp add: remove_path_def)

lemma safe_launch: "safe (as_target st) X h \<Longrightarrow> launch io st h = (e, h') \<Longrightarrow> safe (as_target st) X h' \<and> files h' = files h"
  by (auto simp: launch_def Let_def safe_def split: if_splits option.splits)

lemma safe_records [simp]:
  "safe t X (record_apply_failure io ok st e h) = safe t X h" "files (record_apply_failure io ok st e h) = files h"
  "safe t X (clear_pending_state io h) = safe t X h" "files (clear_pending_state io h) = files h"
  by (simp_all add: record_apply_failure_def clear_pending_state_def safe_def)

lemma copy_effect:
  assumes "copy_file_sync io src dst h = (e, h')" "safe t X h" "dst \<noteq> t"
  shows "safe t X h'" "p \<noteq> dst \<Longrightarrow> files h' p = files h p" "e = None \<Longrightarrow> files h' dst = files h src \<and> files h src \<noteq> None"
proof -
  show "safe t X h'"
    using assms by (auto simp: copy_file_sync_def Let_def intro!: safe_put safe_remove split: option.splits if_splits copy_io.splits)
  show "p \<noteq> dst \<Longrightarrow> files h' p = files h p"
    using assms(1) by (auto simp: copy_file_sync_def Let_def files_remove split: option.splits if_splits copy_io.splits)
  show "e = None \<Longrightarrow> files h' dst = files h src \<and> files h src \<noteq> None"
    using assms(1) by (auto simp: copy_file_sync_def Let_def split: option.splits if_splits copy_io.splits)
qed

lemma retry_effect:
  assumes "safe t X h" "files h src = Some c" "c \<in> X" "src \<noteq> t"
    "retry_rename service src t attempts n latest hook h = (e, h')"
  shows "safe t X h' \<and> (if e = None then files h' = (files h)(src := None, t \<mapsto> c) else files h' = files h)"
  using assms
proof (induction attempts arbitrary: n latest hook)
  case (Cons x attempts)
  obtain sv io where x: "x = (sv, io)" by fastforce
  show ?case
  proof (cases "service \<and> stop_service sv \<noteq> None \<or> io \<noteq> None")
    case True
    with Cons.prems obtain n' latest' hook' where "retry_rename service src t attempts n' latest' hook' h = (e, h')"
      by (auto simp: x Let_def atomic_replace_def split: if_splits option.splits)
    with Cons.IH [OF Cons.prems(1-4)] show ?thesis by blast
  next
    case False
    with Cons.prems have "e = None" "h' = put_files ((files h)(src := None, t \<mapsto> c)) h"
      by (auto simp: x Let_def atomic_replace_def split: if_splits)
    with Cons.prems(1-3) show ?thesis by (auto intro!: safe_put)
  qed
qed auto

text \<open>The names an upgrade uses.\<close>

definition apply_paths :: "apply_state \<Rightarrow> bool" where
  "apply_paths st \<longleftrightarrow> as_backup st = as_target st @ ''.backup-'' @ as_task_id st \<and>
     as_candidate st \<noteq> as_target st \<and> as_candidate st \<noteq> as_backup st \<and> as_candidate st \<noteq> installing_path st"

lemma apply_pathsD:
  assumes "apply_paths st"
  shows "as_backup st \<noteq> as_target st" "installing_path st \<noteq> as_target st" "failed_path st \<noteq> as_target st"
    "installing_path st \<noteq> as_backup st" "failed_path st \<noteq> as_backup st"
  using assms by (auto simp: apply_paths_def installing_path_def failed_path_def)

text \<open>Either the old binary is in place, or the new one with the old one beside it.\<close>

definition recoverable :: "apply_state \<Rightarrow> byte list \<Rightarrow> byte list \<Rightarrow> helper \<Rightarrow> bool" where
  "recoverable st old new h \<longleftrightarrow> files h (as_target st) = Some old \<or>
     files h (as_target st) = Some new \<and> files h (as_backup st) = Some old"

lemma restore_effect:
  assumes "apply_paths st" "safe (as_target st) {old, new} h" "files h (as_target st) = Some new" "files h (as_backup st) = Some old"
    "copy_file_sync keep (as_target st) (failed_path st) h = (x, h1)"
    "retry_rename_for_state st (as_backup st) (as_target st) attempts h1 = (e, h')"
  shows "safe (as_target st) {old, new} h'" "recoverable st old new h'" "e = None \<Longrightarrow> files h' (as_target st) = Some old"
proof -
  note p = apply_pathsD [OF assms(1)]
  have 1: "safe (as_target st) {old, new} h1" "files h1 (as_target st) = Some new" "files h1 (as_backup st) = Some old"
    using copy_effect [OF assms(5,2) p(3)] p assms(3,4) by auto
  from retry_effect [OF 1(1,3) _ p(1) assms(6) [unfolded retry_rename_for_state_def]]
  show "safe (as_target st) {old, new} h'" "recoverable st old new h'" "e = None \<Longrightarrow> files h' (as_target st) = Some old"
    using 1 p(1) by (auto simp: recoverable_def split: if_splits)
qed

text \<open>The three places where \<open>replaceTarget\<close> can end after its two copies.\<close>

lemma switched_effect:
  assumes "apply_paths st" "safe (as_target st) {old, new} h2" "files h2 (as_target st) = Some old"
    "files h2 (as_backup st) = Some old" "files h2 (installing_path st) = Some new"
    "retry_rename_for_state st (installing_path st) (as_target st) (ri_activate io) h2 = (e3, h3)"
  shows "e3 \<noteq> None \<Longrightarrow> safe (as_target st) {old, new} (remove_path ok (installing_path st) h3) \<and>
      files (remove_path ok (installing_path st) h3) (as_target st) = Some old"
    and "e3 = None \<Longrightarrow> safe (as_target st) {old, new} h3 \<and> files h3 (as_target st) = Some new \<and> files h3 (as_backup st) = Some old"
  using retry_effect [OF assms(2,5) _ _ assms(6) [unfolded retry_rename_for_state_def]] apply_pathsD [OF assms(1)] assms(3,4)
  by (auto simp: safe_remove files_remove)

lemma replace_target_effect:
  assumes "apply_paths st" "safe (as_target st) {old, new} h" "files h (as_target st) = Some old"
    "files h (as_candidate st) = Some new" "replace_target io st h = (e, h')"
  shows "safe (as_target st) {old, new} h' \<and> recoverable st old new h' \<and>
    (e = None \<longrightarrow> files h' (as_target st) = Some new \<and> files h' (as_backup st) = Some old)"
proof -
  note p = apply_pathsD [OF assms(1)]
  obtain e1 h1 where 1: "copy_file_sync (ri_backup io) (as_target st) (as_backup st) h = (e1, h1)" by fastforce
  obtain e2 h2 where 2: "copy_file_sync (ri_stage io) (as_candidate st) (installing_path st) h1 = (e2, h2)" by fastforce
  obtain e3 h3 where 3: "retry_rename_for_state st (installing_path st) (as_target st) (ri_activate io) h2 = (e3, h3)" by fastforce
  obtain e4 h4 where 4: "copy_file_sync (ri_keep_failed io) (as_target st) (failed_path st) h3 = (e4, h4)" by fastforce
  obtain e5 h5 where 5: "retry_rename_for_state st (as_backup st) (as_target st) (ri_undo io) h4 = (e5, h5)" by fastforce
  note step = assms(5) [unfolded replace_target_def]
  note c1 = copy_effect [OF 1 assms(2) p(1)]
  note c2 = copy_effect [OF 2 c1(1) p(2)]
  have old: "files h1 (as_target st) = Some old" "files h1 (as_candidate st) = Some new"
    using c1(2) p assms(1,3,4) by (auto simp: apply_paths_def)
  consider "e1 \<noteq> None \<or> ri_sync_backup io \<noteq> None" | "e1 = None" "ri_sync_backup io = None" "e2 \<noteq> None"
    | "e1 = None" "ri_sync_backup io = None" "e2 = None" by blast
  then show ?thesis
  proof cases
    case 1
    with step \<open>copy_file_sync (ri_backup io) _ _ h = _\<close> old(1) c1(1) p(1) show ?thesis
      by (auto simp: recoverable_def safe_remove files_remove split: option.splits)
  next
    case 2
    with step 1 \<open>copy_file_sync (ri_stage io) _ _ h1 = _\<close> have "h' = h2" "e \<noteq> None" by auto
    with c2(1,2) old(1) p(2) show ?thesis by (auto simp: recoverable_def)
  next
    case 3
    have kept: "files h2 (as_target st) = Some old" "files h2 (as_backup st) = Some old" "files h2 (installing_path st) = Some new"
      using c2(2,3) p(2,4) old c1(3) 3 assms(3) by auto
    note sw = switched_effect [OF assms(1) c2(1) kept \<open>retry_rename_for_state st _ _ (ri_activate io) h2 = _\<close>]
    show ?thesis
    proof (cases "e3 = None \<and> ri_sync_new io \<noteq> None")
      case True
      with step 1 2 3 4 5 \<open>retry_rename_for_state st _ _ (ri_activate io) h2 = _\<close> have "h' = h5" "e \<noteq> None" by auto
      with restore_effect [OF assms(1) _ _ _ 4 5] sw(2) True show ?thesis by auto
    next
      case False
      with step 1 2 3 \<open>retry_rename_for_state st _ _ (ri_activate io) h2 = _\<close> sw show ?thesis
        by (cases e3; cases "ri_sync_new io") (auto simp: recoverable_def)
    qed
  qed
qed

lemma rollback_effect:
  assumes "apply_paths st" "safe (as_target st) {old, new} h" "files h (as_target st) = Some new"
    "files h (as_backup st) = Some old" "rollback_target io st h = (e, h')"
  shows "safe (as_target st) {old, new} h' \<and> recoverable st old new h'"
proof (cases "is_service st \<and> stop_service (bi_stop io) \<noteq> None")
  case True
  with assms(5) have "h' = h" by (auto simp: rollback_target_def)
  with assms(2-4) show ?thesis by (simp add: recoverable_def)
next
  case False
  obtain x h1 where 1: "copy_file_sync (bi_keep_failed io) (as_target st) (failed_path st) h = (x, h1)" by fastforce
  obtain e2 h2 where 2: "retry_rename_for_state st (as_backup st) (as_target st) (bi_restore io) h1 = (e2, h2)" by fastforce
  note r = restore_effect [OF assms(1-4) 1 2]
  show ?thesis
  proof (cases e2)
    case None
    obtain y h3 where 3: "launch (bi_launch io) st h2 = (y, h3)" by fastforce
    from assms(5) False 1 2 3 None have "h' = h3" by (auto simp: rollback_target_def split: if_splits)
    with safe_launch [OF r(1) 3] r(2) show ?thesis by (simp add: recoverable_def)
  next
    case (Some y)
    with assms(5) False 1 2 have "h' = h2" by (auto simp: rollback_target_def split: if_splits)
    with r show ?thesis by simp
  qed
qed

lemma roll_back_effect:
  assumes "apply_paths st" "safe (as_target st) {old, new} h" "files h (as_target st) = Some new"
    "files h (as_backup st) = Some old" "roll_back io st e h = (e', h')"
  shows "safe (as_target st) {old, new} h' \<and> recoverable st old new h'"
proof -
  let ?h = "record_apply_failure io (hi_record io) st e h"
  obtain rb h1 where 1: "rollback_target (hi_rollback io) st ?h = (rb, h1)" by fastforce
  have "safe (as_target st) {old, new} h1 \<and> recoverable st old new h1"
    by (rule rollback_effect [OF assms(1) _ _ _ 1]) (use assms(2-4) in simp_all)
  with assms(5) 1 show ?thesis by (auto simp: roll_back_def Let_def recoverable_def split: option.splits)
qed

lemma activate_effect:
  assumes "apply_paths st" "safe (as_target st) {old, new} h" "files h (as_target st) = Some new"
    "files h (as_backup st) = Some old" "activate io st h = (e, h')"
  shows "safe (as_target st) {old, new} h' \<and> (e \<noteq> None \<longrightarrow> recoverable st old new h') \<and>
    (e = None \<longrightarrow> files h' (as_target st) = Some new \<and> True \<in> set (hi_health io))"
proof -
  obtain l h1 where 1: "launch (hi_launch io) st h = (l, h1)" by fastforce
  from safe_launch [OF assms(2) 1] have h1: "safe (as_target st) {old, new} h1" "files h1 (as_target st) = Some new"
    "files h1 (as_backup st) = Some old" using assms(3,4) by simp_all
  note undo = roll_back_effect [OF assms(1) h1]
  note p = apply_pathsD(1) [OF assms(1)]
  consider x where "l = Some x" | "l = None" "True \<in> set (hi_health io)" | "l = None" "True \<notin> set (hi_health io)" by (cases l) auto
  then show ?thesis
  proof cases
    case 1
    obtain e1 h2 where "roll_back io st (New_Not_Started x) h1 = (e1, h2)" by fastforce
    with assms(5) 1 \<open>launch _ _ _ = _\<close> undo show ?thesis by (auto simp: activate_def)
  next
    case 2
    with assms(5) \<open>launch _ _ _ = _\<close> h1 p show ?thesis by (auto simp: activate_def safe_remove files_remove)
  next
    case 3
    obtain e1 h2 where "roll_back io st Not_Healthy h1 = (e1, h2)" by fastforce
    with assms(5) 3 \<open>launch _ _ _ = _\<close> undo show ?thesis by (auto simp: activate_def)
  qed
qed

lemma switch_effect:
  assumes "apply_paths st" "safe (as_target st) {old, new} h" "files h (as_target st) = Some old"
    "files h (as_candidate st) = Some new" "switch io st h = (e, h')"
  shows "safe (as_target st) {old, new} h' \<and> (e \<noteq> None \<longrightarrow> recoverable st old new h') \<and>
    (e = None \<longrightarrow> files h' (as_target st) = Some new \<and> True \<in> set (hi_health io))"
proof -
  obtain r h1 where 1: "replace_target (hi_replace io) st h = (r, h1)" by fastforce
  note rep = replace_target_effect [OF assms(1-4) 1]
  show ?thesis
  proof (cases r)
    case None
    with assms(5) 1 have "activate io st h1 = (e, h')" by (simp add: switch_def)
    from activate_effect [OF assms(1) _ _ _ this, of old new] rep None show ?thesis by blast
  next
    case (Some x)
    obtain l h2 where 2: "launch (hi_relaunch io) st (record_apply_failure io (hi_record io) st x h1) = (l, h2)" by fastforce
    from rep have "safe (as_target st) {old, new} (record_apply_failure io (hi_record io) st x h1)" by simp
    from safe_launch [OF this 2] have h2: "safe (as_target st) {old, new} h2" "files h2 = files h1" by simp_all
    from assms(5) 1 2 Some have "e = Some x" "h' = clear_pending_state io h2" by (simp_all add: switch_def)
    with h2 rep show ?thesis by (simp add: recoverable_def)
  qed
qed

lemma recover_effect:
  assumes "safe (as_target st) X h" "recover_before_switch io st c h = (e, h')"
  shows "safe (as_target st) X h' \<and> files h' = files h"
proof -
  let ?h = "record_apply_failure io (hi_record io) st c h"
  obtain l h1 where 1: "launch (hi_relaunch io) st ?h = (l, h1)" by fastforce
  from assms(1) have "safe (as_target st) X ?h" by simp
  from safe_launch [OF this 1] assms 1 show ?thesis by (auto simp: recover_before_switch_def Let_def split: option.splits)
qed

text \<open>The checks before the switch leave the disk alone.\<close>

lemma run_cases:
  assumes "rc_pending (hp_disk h) = Some st" "safe (as_target st) {old} h" "files h (as_target st) = Some old"
    "files h (as_candidate st) = Some new" "run_apply_helper dg io h = (e, h')"
  shows "safe (as_target st) {old} h' \<and> files h' = files h \<and> (e = None \<longrightarrow> ensure_apply_helper_isolation io st = Inr True) \<or>
    equal_fold (as_expected_sha256 st) (sha256_hex dg new) \<and> switch io st h = (e, h')"
proof -
  have rec: "safe (as_target st) {old} h1 \<and> files h1 = files h" if "recover_before_switch io st c h = (e1, h1)" for c e1 h1
    using recover_effect [OF assms(2) that] .
  obtain iso where iso: "ensure_apply_helper_isolation io st = iso" by blast
  obtain dig where dig: "file_sha256 dg (hi_digest io) (as_candidate st) (hp_disk h) = dig" by blast
  have digest: "d = sha256_hex dg new" if "dig = Inr d" for d
    using dig that assms(4) by (auto simp: file_sha256_def split: option.splits)
  show ?thesis
    using assms(1-3,5) rec digest
    by (cases iso; cases dig)
      (auto simp: run_apply_helper_def iso dig Let_def split: if_splits option.splits prod.splits bool.splits)
qed

section \<open>From the receiver to the helper\<close>

lemma hex_no_slash: "task_id_valid s \<Longrightarrow> CHR ''/'' \<notin> set s"
  by (auto simp: task_id_valid_def list_all_iff is_lower_hex_def byte_in_def)

lemma nested_path_new:
  assumes "CHR ''/'' \<notin> set base" "CHR ''/'' \<notin> set suffix"
  shows "path_join (path_join dir ''.gpipe-update'') name \<noteq> path_join dir base @ suffix"
proof
  assume "path_join (path_join dir ''.gpipe-update'') name = path_join dir base @ suffix"
  then have "''.gpipe-update'' @ ''/'' @ name = base @ suffix" by (simp add: path_join_def)
  then have "CHR ''/'' \<in> set (base @ suffix)" by (metis in_set_conv_decomp append_Cons)
  with assms show False by simp
qed

text \<open>What \<open>StartApply\<close> writes for the helper.\<close>

lemma started_apply:
  assumes "rc_inv dg r" "start_upgrade_apply io tid off r = (rep, Apply_Started, r')" "CHR ''/'' \<notin> set (rc_base r')"
  obtains f st where "rc_offer r' = Some f" "rc_pending r' = Some st" "as_target st = rc_executable r'"
    "as_candidate st = rc_candidate r'" "as_expected_sha256 st = uo_sha256 f" "apply_paths st"
proof -
  let ?a = "rc_start_apply (pi_save io) (pi_helper io) (pi_pid io) (pi_now io) r"
  from assms(2) have a: "fst ?a = Apply_Started" "r' = snd ?a"
    by (auto simp: start_upgrade_apply_def split: prod.splits apply_start.splits)
  then obtain f where f: "rc_offer r = Some f" by (auto simp: rc_start_apply_def split: option.splits)
  with assms(1) have offer: "check_offer dg (rc_opts r) (Some f) = None" by (simp add: rc_inv_def)
  let ?st = "\<lparr>as_task_id = uo_task_id f, as_target = rc_executable r, as_candidate = rc_candidate r,
    as_backup = rc_executable r @ ''.backup-'' @ uo_task_id f, as_mode = ro_mode (rc_opts r),
    as_restart_args = ro_restart_args (rc_opts r), as_service_name = ro_service_name (rc_opts r),
    as_expected_sha256 = uo_sha256 f, as_expected_version = uo_version f, as_parent_pid = pi_pid io,
    as_health_path = path_join (rc_update_dir r) (''health-'' @ uo_task_id f),
    as_result_path = path_join (rc_update_dir r) ''last-result.json'', as_created_at = pi_now io\<rparr>"
  from a f have r': "rc_pending r' = Some ?st" "rc_offer r' = Some f" "rc_candidate r' = rc_candidate r"
    "rc_executable r' = rc_executable r" "rc_base r' = rc_base r"
    by (auto simp: rc_start_apply_def Let_def remove_file_def rc_executable_def split: if_splits save_outcome.splits option.splits)
  obtain name where cand: "rc_candidate r = path_join (rc_update_dir r) (''candidate-'' @ name)"
    using assms(1) f by (auto simp: rc_inv_def)
  have slash: "CHR ''/'' \<notin> set (uo_task_id f)" using check_offer_None [OF offer] hex_no_slash by auto
  have new: "rc_candidate r \<noteq> rc_executable r @ suffix" if "CHR ''/'' \<notin> set suffix" for suffix
    unfolding cand rc_update_dir_def rc_executable_def by (rule nested_path_new [OF assms(3) [unfolded r'(5)] that])
  have "apply_paths ?st"
    using new [of "[]"] new [of "''.backup-'' @ uo_task_id f"] new [of "''.installing-'' @ uo_task_id f"] slash
    by (simp add: apply_paths_def installing_path_def)
  with that [OF r'(2,1)] r'(3,4) show thesis by simp
qed

lemma applied_from:
  assumes "rc_run dg r"
    and "client_on_upgrade_offer dg io pio offer r = (reports, Some Apply_Started, r') \<or>
      client_on_upgrade_chunk dg cio pio chunk r = (reports, Some Apply_Started, r')"
  obtains r1 tid off rep where "rc_inv dg r1" "ready_candidate dg r1" "start_upgrade_apply pio tid off r1 = (rep, Apply_Started, r')"
proof -
  note inv = rc_run_inv [OF assms(1)]
  from assms(2) show thesis
  proof
    assume "client_on_upgrade_offer dg io pio offer r = (reports, Some Apply_Started, r')"
    then obtain rep r1 last where acc: "rc_accept dg io (Some offer) r = (rep, r1)" "us_state rep = ''verifying''"
      and start: "start_upgrade_apply pio (uo_task_id offer) (us_offset rep) r1 = (last, Apply_Started, r')"
      by (auto simp: client_on_upgrade_offer_def split: prod.splits if_splits)
    from rc_accept_inv [OF inv, of io "Some offer"] acc have "rc_inv dg r1" by simp
    from that [OF this accept_verifying [OF inv acc] start] show thesis .
  next
    assume "client_on_upgrade_chunk dg cio pio chunk r = (reports, Some Apply_Started, r')"
    then obtain rep r1 last where hc: "rc_handle_chunk dg cio (Some chunk) r = ((rep, True), r1)"
      and start: "start_upgrade_apply pio (uc_task_id chunk) (us_offset rep) r1 = (last, Apply_Started, r')"
      by (auto simp: client_on_upgrade_chunk_def split: prod.splits if_splits)
    from rc_handle_chunk_inv [OF inv, of cio "Some chunk"] hc have "rc_inv dg r1" by simp
    from that [OF this chunk_ready [OF inv hc] start] show thesis .
  qed
qed


section \<open>A result unprotects the backup\<close>

text \<open>\<open>recordApplyFailure\<close> writes the result before \<open>rollbackTarget\<close> has put the backup back, and a result ends the
  protection of the pending upgrade in the cleanup of a client's start.  A service manager that restarts the failing new
  client in between lets it delete the only copy of the old one.\<close>

lemma result_unprotects_backup:
  assumes "as_backup st = rc_executable (hp_disk h) @ ''.backup-'' @ as_task_id st"
    "CHR ''/'' \<notin> set (rc_base (hp_disk h))" "CHR ''/'' \<notin> set (as_task_id st)"
  shows "rc_files (rc_cleanup True True (hp_disk (record_apply_failure io True st e h))) (as_backup st) = None"
proof -
  have "entry_name (rc_dir (hp_disk h)) (as_backup st) = Some (rc_base (hp_disk h) @ ''.backup-'' @ as_task_id st)"
    using assms by (simp add: entry_name_def rc_executable_def path_join_def has_prefix_def)
  then show ?thesis
    by (simp add: rc_cleanup_def record_apply_failure_def has_prefix_def Let_def)
qed

lemma retry_without_source: "files h src = None \<Longrightarrow> \<exists>e. retry_rename service src dst attempts n latest hook h = (Some e, h)"
  by (induction service src dst attempts n latest hook h rule: retry_rename.induct) (auto simp: Let_def atomic_replace_def)

lemma no_rollback_without_backup:
  assumes "files h (as_backup st) = None" "as_backup st \<noteq> failed_path st" "as_target st \<noteq> failed_path st"
    "rollback_target io st h = (e, h')"
  shows "e \<noteq> None \<and> files h' (as_target st) = files h (as_target st)"
proof -
  obtain x h1 where 1: "copy_file_sync (bi_keep_failed io) (as_target st) (failed_path st) h = (x, h1)" by fastforce
  then have f1: "files h1 p = files h p" if "p \<noteq> failed_path st" for p
    using that by (auto simp: copy_file_sync_def Let_def files_remove split: option.splits if_splits copy_io.splits)
  with assms(1,2) have "files h1 (as_backup st) = None" by simp
  from retry_without_source [OF this] obtain y where
    2: "retry_rename_for_state st (as_backup st) (as_target st) (bi_restore io) h1 = (Some y, h1)"
    unfolding retry_rename_for_state_def by blast
  with assms(4) 1 f1 assms(3) show ?thesis
    by (auto simp: rollback_target_def split: option.splits if_splits)
qed

section \<open>Examples\<close>

text \<open>The helper of a client that runs as a process, when everything works.\<close>

definition ex_service_io :: service_io where
  "ex_service_io = \<lparr>sv_call = None, sv_asked = '''', sv_polls = [''active'']\<rparr>"

definition ex_launch_io :: launch_io where "ex_launch_io = \<lparr>li_service = ex_service_io, li_exec = None\<rparr>"

definition ex_helper_io :: helper_io where
  "ex_helper_io =
     \<lparr>hi_linux = True, hi_transient = False, hi_executable = None, hi_systemd_run = None, hi_digest = None, hi_exit = None,
      hi_exit_again = None, hi_stop = ex_service_io,
      hi_replace = \<lparr>ri_backup = Copied 0, ri_sync_backup = None, ri_drop_backup = True, ri_stage = Copied 0,
        ri_activate = [(ex_service_io, Some ''text file busy''), (ex_service_io, None)], ri_drop_staged = True, ri_sync_new = None,
        ri_keep_failed = Copied 0, ri_undo = []\<rparr>,
      hi_relaunch = ex_launch_io, hi_launch = ex_launch_io, hi_health = [False, True],
      hi_rollback = \<lparr>bi_stop = ex_service_io, bi_keep_failed = Copied 0, bi_restore = [], bi_launch = ex_launch_io\<rparr>,
      hi_record = True, hi_record_again = True, hi_drop_backup = True, hi_drop_state = True, hi_drop_download = True,
      hi_text = (\<lambda>_. ''failed'')\<rparr>"

lemma equal_fold_refl [simp]: "equal_fold s s"
  by (induction s) simp_all

lemma chunk_other_files:
  assumes "rc_handle_chunk dg io c r = (x, r')"
  shows "rc_executable r' = rc_executable r \<and> rc_base r' = rc_base r \<and> rc_opts r' = rc_opts r \<and>
    (\<forall>p. p \<noteq> rc_candidate r \<longrightarrow> rc_files r' p = rc_files r p)"
  using assms
  by (auto simp: rc_handle_chunk_def write_candidate_def save_download_state_def chunk_failed_def finish_chunk_def Let_def
      rc_executable_def split: option.splits write_outcome.splits save_outcome.splits prod.splits if_splits sum.splits)

lemma smooth_run:
  assumes "rc_pending (hp_disk h) = Some st" "apply_paths st" "as_target st \<noteq> ''''" "as_candidate st \<noteq> ''''" "0 < as_parent_pid st"
    "\<not> is_service st" "files h (as_target st) = Some old" "files h (as_candidate st) = Some new"
    "files h (as_backup st) = None" "files h (installing_path st) = None"
    "sha256_hex dg new = as_expected_sha256 st"
  shows "fst (run_apply_helper dg ex_helper_io h) = None"
  using assms apply_pathsD [OF assms(2)]
  by (simp add: run_apply_helper_def ensure_apply_helper_isolation_def ex_helper_io_def file_sha256_def switch_def replace_target_def
      copy_file_sync_def Let_def retry_rename_for_state_def atomic_replace_def activate_def launch_def ex_launch_io_def
      apply_paths_def)

lemma ex_ready_files:
  "rc_executable example_ready = ''/opt/gpipe''" "rc_base example_ready = ''gpipe''" "rc_opts example_ready = rc_opts example_receiver"
  "p \<noteq> rc_candidate example_ready \<Longrightarrow> rc_files example_ready p = [''/opt/gpipe'' \<mapsto> [1]] p"
proof -
  have "uo_size example_offer = 3" by (simp add: example_offer_def Let_def)
  then show "rc_executable example_ready = ''/opt/gpipe''" "rc_base example_ready = ''gpipe''" "rc_opts example_ready = rc_opts example_receiver"
    "p \<noteq> rc_candidate example_ready \<Longrightarrow> rc_files example_ready p = [''/opt/gpipe'' \<mapsto> [1]] p"
    using example_checked
    by (simp_all add: example_ready_def rc_accept_def no_accept_faults_def resume_offset_def prepare_candidate_def
        truncate_file_def accept_record_def save_download_state_def Let_def example_receiver_def rc_executable_def path_join_def)
qed


end
