(* ===== verification/Client_Session.thy ===== *)
theory Client_Session
  imports Client_Build Upgrade_Transfer Proxy_Manager Frame Std_Wire
begin

text \<open>
  \<open>internal/client/client.go\<close>: the client's side of its connection to the server.  A session logs in, keeps the tunnels
  it is told of, runs a proxy manager (\<open>Proxy_Manager\<close>) for them and hands the upgrade messages to the receiver
  (\<open>Upgrade_Receiver\<close>).

  A step is the handling of one frame, a tick of the ping loop, a call of a tunnel's output function, or the end of the
  session.  Whether a write to the connection succeeds is an argument of each step, one answer for each message it
  sends; what the file system does is that of the receiver.
\<close>

section \<open>Writing\<close>

datatype client_error =
    Bad_Frame codec_error
  | Login_Failed
  | Login_Refused string i32
  | Login_Unknown
  | Not_Encoded codec_error
  | Conn_Closed
  | Write_Error string
  | Short_Write
  | Upgrade_Started
  | Upgrade_Error string
  | Ping_Timeout

text \<open>\<open>writeAll\<close>, and \<open>writeAllStream\<close> of \<open>internal/proxy/writer.go\<close>: each call of \<open>Write\<close> takes a number of bytes and may
  fail; what has been written so far comes back with the outcome.\<close>

fun write_all :: "(nat \<times> string option) list \<Rightarrow> byte list \<Rightarrow> (client_error option \<times> byte list) option" where
  "write_all calls [] = Some (None, [])"
| "write_all [] (b # data) = None"
| "write_all ((n, e) # calls) (b # data) =
     (let taken = take n (b # data) in
      case e of
        Some x \<Rightarrow> Some (Some (Write_Error x), taken)
      | None \<Rightarrow>
          if n = 0 then Some (Some Short_Write, taken)
          else map_option (\<lambda>(r, rest). (r, taken @ rest)) (write_all calls (drop n (b # data))))"

section \<open>Sessions\<close>

record client_session =
  cc_player :: player_id
  cc_tunnels :: "tunnel_id \<rightharpoonup> pb_tunnel"
  cc_proxy :: "proxy_manager option"
  cc_upgrader :: "receiver option"
  cc_open :: bool
  cc_last_active :: int
  cc_sent :: "(i32 \<times> message) list"
  cc_stopped :: "proxy_manager list"
  cc_ended :: "client_error option"

definition new_client_session :: "int \<Rightarrow> receiver option \<Rightarrow> client_session" where
  "new_client_session now upgrader =
     \<lparr>cc_player = 0, cc_tunnels = Map.empty, cc_proxy = None, cc_upgrader = upgrader, cc_open = True,
      cc_last_active = now, cc_sent = [], cc_stopped = [], cc_ended = None\<rparr>"

text \<open>The managers that have been closed are kept in \<open>cc_stopped\<close>.  The iterations of the close visit the outlets \<open>os\<close> and
  the inlets \<open>is\<close>.\<close>

definition stop_manager :: "mgr_env \<Rightarrow> tunnel_id list \<Rightarrow> tunnel_id list \<Rightarrow> bool \<Rightarrow> client_session \<Rightarrow> client_session" where
  "stop_manager env os is silent s =
     (case cc_proxy s of
        None \<Rightarrow> s
      | Some m \<Rightarrow>
          let m = (if silent then set_runtime_reporter False m else m)
          in s\<lparr>cc_stopped := cc_stopped s @ [px_close env os is m], cc_proxy := None\<rparr>)"

definition client_close :: "mgr_env \<Rightarrow> tunnel_id list \<Rightarrow> tunnel_id list \<Rightarrow> client_session \<Rightarrow> client_session" where
  "client_close env os is s = (stop_manager env os is True s)\<lparr>cc_open := False\<rparr>"

definition client_touch :: "int \<Rightarrow> client_session \<Rightarrow> client_session" where
  "client_touch now s = s\<lparr>cc_last_active := now\<rparr>"

definition client_send :: "protowire \<Rightarrow> string option \<Rightarrow> i32 \<Rightarrow> message \<Rightarrow> client_session \<Rightarrow> client_error option \<times> client_session" where
  "client_send pw write serial message s =
     (case encode_frame pw serial message of
        Inl e \<Rightarrow> (Some (Not_Encoded e), s)
      | Inr packet \<Rightarrow>
          if \<not> cc_open s then (Some Conn_Closed, s)
          else (case write of
              Some e \<Rightarrow> (Some (Write_Error e), s)
            | None \<Rightarrow> (None, s\<lparr>cc_sent := cc_sent s @ [(serial, message)]\<rparr>)))"

section \<open>Logging in\<close>

record client_options =
  co_version :: string
  co_key :: string
  co_platform :: string

definition updater_protocol_version :: "receiver option \<Rightarrow> u32" where
  "updater_protocol_version upgrader = (case upgrader of None \<Rightarrow> 0 | Some _ \<Rightarrow> 1)"

text \<open>The request of \<open>runOne\<close>, with the result of the last upgrade if there is one.\<close>

definition login_request :: "client_options \<Rightarrow> receiver option \<Rightarrow> login_req" where
  "login_request opts upgrader =
     (let result = (case upgrader of None \<Rightarrow> None | Some r \<Rightarrow> rc_pending_result r)
      in \<lparr>lr_version = co_version opts, lr_username = '''', lr_password = co_key opts, lr_platform = co_platform opts,
          lr_updater_version = updater_protocol_version upgrader,
          lr_upgrade_task_id = (case result of None \<Rightarrow> '''' | Some x \<Rightarrow> us_task_id x),
          lr_upgrade_state = (case result of None \<Rightarrow> '''' | Some x \<Rightarrow> us_state x),
          lr_upgrade_error = (case result of None \<Rightarrow> '''' | Some x \<Rightarrow> us_error x)\<rparr>)"

record client_io =
  cl_dg :: digests
  cl_accept :: accept_io
  cl_chunk :: chunk_io
  cl_apply :: apply_io
  cl_health_save :: save_outcome
  cl_health_contents :: "byte list"
  cl_manager :: mgr_env
  cl_outlets :: "tunnel_id list"
  cl_inlets :: "tunnel_id list"
  cl_write :: "string option"
  cl_write_again :: "string option"

definition tunnel_map :: "pb_tunnel list \<Rightarrow> tunnel_id \<rightharpoonup> pb_tunnel" where
  "tunnel_map ts = fold (\<lambda>t m. m(pt_id t \<mapsto> t)) ts Map.empty"

definition on_login_ack :: "client_io \<Rightarrow> login_ack \<Rightarrow> client_session \<Rightarrow> client_session" where
  "on_login_ack io ack s =
     (let s = s\<lparr>cc_player := la_player_id ack, cc_tunnels := tunnel_map (la_tunnel_list ack)\<rparr>;
          s = stop_manager (cl_manager io) (cl_outlets io) (cl_inlets io) False s;
          m = new_proxy_manager (la_player_id ack);
          m = (if la_supports_runtime_report ack then set_runtime_reporter True m else m);
          m = sync_tunnels (cl_manager io) [] [] (map Some (la_tunnel_list ack)) m;
          s = s\<lparr>cc_proxy := Some m\<rparr>
      in case cc_upgrader s of
           None \<Rightarrow> s
         | Some r \<Rightarrow>
             let r = rc_mark_healthy (cl_health_save io) (cl_health_contents io) r;
                 r = (case rc_pending_result r of None \<Rightarrow> r | Some report \<Rightarrow> rc_acknowledge_result (us_task_id report) r)
             in s\<lparr>cc_upgrader := Some r\<rparr>)"

section \<open>Pushes\<close>

definition client_start_apply ::
  "protowire \<Rightarrow> client_io \<Rightarrow> string \<Rightarrow> i64 \<Rightarrow> receiver \<Rightarrow> client_session \<Rightarrow> client_error option \<times> client_session" where
  "client_start_apply pw io task_id off r s =
     (case start_upgrade_apply (cl_apply io) task_id off r of
        (answer, outcome, r) \<Rightarrow>
          (case client_send pw (cl_write_again io) 0 (UpgradeStatusReport answer) (s\<lparr>cc_upgrader := Some r\<rparr>) of
             (_, s) \<Rightarrow>
               (Some (case outcome of Apply_Started \<Rightarrow> Upgrade_Started | Not_Ready e \<Rightarrow> Upgrade_Error e
                  | Start_Failed e \<Rightarrow> Upgrade_Error e), s)))"

definition on_upgrade_offer :: "protowire \<Rightarrow> client_io \<Rightarrow> upgrade_offer \<Rightarrow> client_session \<Rightarrow> client_error option \<times> client_session" where
  "on_upgrade_offer pw io offer s =
     (case cc_upgrader s of
        None \<Rightarrow> (None, s)
      | Some r \<Rightarrow>
          (case rc_accept (cl_dg io) (cl_accept io) (Some offer) r of
             (report, r) \<Rightarrow>
               (case client_send pw (cl_write io) 0 (UpgradeStatusReport report) (s\<lparr>cc_upgrader := Some r\<rparr>) of
                  (Some e, s) \<Rightarrow> (Some e, s)
                | (None, s) \<Rightarrow>
                    if us_state report = ''verifying''
                    then client_start_apply pw io (uo_task_id offer) (us_offset report) r s
                    else (None, s))))"

definition on_upgrade_chunk :: "protowire \<Rightarrow> client_io \<Rightarrow> upgrade_chunk \<Rightarrow> client_session \<Rightarrow> client_error option \<times> client_session" where
  "on_upgrade_chunk pw io chunk s =
     (case cc_upgrader s of
        None \<Rightarrow> (None, s)
      | Some r \<Rightarrow>
          (case rc_handle_chunk (cl_dg io) (cl_chunk io) (Some chunk) r of
             ((report, ready), r) \<Rightarrow>
               (case client_send pw (cl_write io) 0 (UpgradeStatusReport report) (s\<lparr>cc_upgrader := Some r\<rparr>) of
                  (Some e, s) \<Rightarrow> (Some e, s)
                | (None, s) \<Rightarrow>
                    if \<not> ready then (None, s)
                    else client_start_apply pw io (uc_task_id chunk) (us_offset report) r s)))"

definition on_modify_tunnel :: "client_io \<Rightarrow> modify_tunnel_ntf \<Rightarrow> client_session \<Rightarrow> client_session" where
  "on_modify_tunnel io ntf s =
     (case mt_tunnel ntf of
        None \<Rightarrow> s
      | Some t \<Rightarrow>
          s\<lparr>cc_tunnels := (cc_tunnels s)(pt_id t := (if mt_is_delete ntf then None else Some t)),
            cc_proxy := map_option (update_tunnel (cl_manager io) (Some ntf)) (cc_proxy s)\<rparr>)"

definition on_login_reply :: "client_io \<Rightarrow> i32 \<Rightarrow> message \<Rightarrow> client_session \<Rightarrow> client_error option \<times> client_session" where
  "on_login_reply io serial message s =
     (if sint serial \<le> 0 then (Some Login_Failed, s)
      else (case message of
          LoginAck ack \<Rightarrow> (None, on_login_ack io ack s)
        | Error e \<Rightarrow> (Some (Login_Refused (pe_message e) (pe_number e)), s)
        | _ \<Rightarrow> (Some Login_Unknown, s)))"

definition on_push :: "protowire \<Rightarrow> client_io \<Rightarrow> message \<Rightarrow> client_session \<Rightarrow> client_error option \<times> client_session" where
  "on_push pw io message s =
     (case message of
        UpgradeOffer offer \<Rightarrow> on_upgrade_offer pw io offer s
      | UpgradeChunk chunk \<Rightarrow> on_upgrade_chunk pw io chunk s
      | ModifyTunnelNtf ntf \<Rightarrow> (None, on_modify_tunnel io ntf s)
      | _ \<Rightarrow> (None, s\<lparr>cc_proxy := map_option (handle_pb message) (cc_proxy s)\<rparr>))"

text \<open>\<open>handleFrame\<close>: \<open>None\<close> when the decoder does not return, which it does on a protowire that obeys its laws.\<close>

definition client_handle_frame ::
  "protowire \<Rightarrow> client_io \<Rightarrow> byte list \<Rightarrow> client_session \<Rightarrow> (client_error option \<times> client_session) option" where
  "client_handle_frame pw io frame s =
     (case decode_frame pw frame of
        None \<Rightarrow> None
      | Some (Inl e) \<Rightarrow> Some (Some (Bad_Frame e), s)
      | Some (Inr (serial, message)) \<Rightarrow>
          Some (if cc_player s = 0 then on_login_reply io serial message s
                else if serial = 0 then on_push pw io message s
                else (None, s)))"

section \<open>Pings\<close>

text \<open>One tick of \<open>pingLoop\<close>; \<open>later\<close> is the clock at the second look at it.\<close>

definition ping_tick ::
  "protowire \<Rightarrow> string option \<Rightarrow> int \<Rightarrow> int \<Rightarrow> client_session \<Rightarrow> client_error option \<times> client_session" where
  "ping_tick pw write now later s =
     (if now - cc_last_active s < 5 * 10 ^ 9 then (None, s)
      else if later - cc_last_active s > 15 * 10 ^ 9 then (Some Ping_Timeout, s)
      else client_send pw write (- 2) (Ping \<lparr>pp_ticks = of_int (later div 10 ^ 6)\<rparr>) s)"

section \<open>Runs\<close>

text \<open>
  Every order of the steps of the session's goroutines.  The read loop handles frames until one fails; it looks at the
  end of the session only between two reads, so frames of the read cache can still be handled after \<open>close\<close>.  The
  iterations over the manager's outlets and inlets visit them all.
\<close>

definition visits :: "tunnel_id list \<Rightarrow> tunnel_id list \<Rightarrow> client_session \<Rightarrow> bool" where
  "visits os is s \<longleftrightarrow> (\<forall>m. cc_proxy s = Some m \<longrightarrow> dom (px_outlets m) \<subseteq> set os \<and> dom (px_inlets m) \<subseteq> set is)"

inductive client_run :: "protowire \<Rightarrow> client_session \<Rightarrow> bool" for pw where
  new: "client_send pw write (- 1) (LoginReq (login_request opts upgrader)) (new_client_session now upgrader) = (None, s) \<Longrightarrow>
    client_run pw s"
| frame: "client_run pw s \<Longrightarrow> cc_ended s = None \<Longrightarrow> visits (cl_outlets io) (cl_inlets io) s \<Longrightarrow>
    client_handle_frame pw io frame (client_touch now s) = Some (e, s') \<Longrightarrow> client_run pw (s'\<lparr>cc_ended := e\<rparr>)"
| ping: "client_run pw s \<Longrightarrow> ping_tick pw write now later s = (e, s') \<Longrightarrow> client_run pw s'"
| route: "client_run pw s \<Longrightarrow> cc_proxy s = Some m \<Longrightarrow>
    client_run pw (s\<lparr>cc_proxy := Some (route_proxy_message ok t msg m)\<rparr>)"
| close: "client_run pw s \<Longrightarrow> visits os is s \<Longrightarrow> client_run pw (client_close env os is s)"

section \<open>The manager follows the session\<close>

lemma tunnel_map_want: "tunnel_map ts = want_of (map Some ts)"
proof -
  have "fold (\<lambda>t m. m(pt_id t \<mapsto> t)) ts m0 = m0 ++ want_of (map Some ts)" for m0
    by (induction ts arbitrary: m0) (auto simp: fun_eq_iff map_add_def split: option.splits)
  then show ?thesis by (simp add: tunnel_map_def)
qed

lemma start_tunnels_fields:
  "px_tunnels (start_tunnels env ts m) = px_tunnels m \<and> px_self (start_tunnels env ts m) = px_self m \<and>
   px_report (start_tunnels env ts m) = px_report m"
  by (induction env ts m rule: start_tunnels.induct) simp_all

lemma sync_fields:
  "px_tunnels (sync_tunnels env os is ts m) = want_of ts" "px_self (sync_tunnels env os is ts m) = px_self m"
  "px_report (sync_tunnels env os is ts m) = px_report m"
  using stop_fold by (simp_all add: sync_tunnels_def Let_def start_tunnels_fields)

lemma fold_stop_fields:
  "px_outlets (fold stop_outlet_component js m) = px_outlets m" "px_inlets (fold stop_outlet_component js m) = px_inlets m"
  "px_outlets (fold stop_inlet_component js m) = px_outlets m" "px_inlets (fold stop_inlet_component js m) = px_inlets m"
  using stop_fold by simp_all

lemma close_empties:
  assumes "dom (px_outlets m) \<subseteq> set os" "dom (px_inlets m) \<subseteq> set is"
  shows "px_outlets (px_close env os is m) = Map.empty \<and> px_inlets (px_close env os is m) = Map.empty"
  using assms
  by (auto simp: px_close_def sync_tunnels_def Let_def fold_stop_fields should_stop_outlet_def should_stop_inlet_def
      should_run_outlet_def should_run_inlet_def fun_eq_iff dom_def
      split: option.splits)

lemma update_fields:
  "px_tunnels (update_tunnel env (Some ntf) m) = (case mt_tunnel ntf of None \<Rightarrow> px_tunnels m
     | Some t \<Rightarrow> (px_tunnels m)(pt_id t := (if mt_is_delete ntf then None else Some t)))"
  "px_self (update_tunnel env (Some ntf) m) = px_self m" "px_report (update_tunnel env (Some ntf) m) = px_report m"
  by (simp_all add: update_tunnel_def Let_def reaffirm_runtime_def split: option.split)

lemma routed_fields:
  "px_tunnels (handle_pb x m) = px_tunnels m" "px_self (handle_pb x m) = px_self m" "px_report (handle_pb x m) = px_report m"
  "px_tunnels (route_proxy_message ok t msg m) = px_tunnels m" "px_self (route_proxy_message ok t msg m) = px_self m"
  "px_report (route_proxy_message ok t msg m) = px_report m"
  by (auto simp: handle_pb_def route_proxy_message_def handle_remote_send_failure_def local_input_def Let_def split: option.split)

definition manages :: "client_session \<Rightarrow> bool" where
  "manages s \<longleftrightarrow>
     (\<forall>m. cc_proxy s = Some m \<longrightarrow> px_tunnels m = cc_tunnels s \<and> px_self m = cc_player s \<and>
        (px_report m \<longrightarrow> px_run (cc_player s) m)) \<and>
     (\<forall>m \<in> set (cc_stopped s). px_outlets m = Map.empty \<and> px_inlets m = Map.empty)"

lemma send_same:
  "client_send pw w n x s = (e, s') \<Longrightarrow> \<exists>sent. s' = s\<lparr>cc_sent := sent\<rparr>"
  by (auto simp: client_send_def split: sum.splits option.splits if_splits intro: exI [of _ "cc_sent s"])

lemma manages_same [simp]:
  "manages (s\<lparr>cc_sent := x\<rparr>) = manages s" "manages (s\<lparr>cc_ended := e\<rparr>) = manages s" "manages (s\<lparr>cc_upgrader := u\<rparr>) = manages s"
  "manages (s\<lparr>cc_last_active := t\<rparr>) = manages s" "manages (s\<lparr>cc_open := b\<rparr>) = manages s"
  by (simp_all add: manages_def)

lemma manages_send: "client_send pw w n x s = (e, s') \<Longrightarrow> manages s' = manages s"
  by (drule send_same) auto

lemma stopped_empty:
  assumes "\<forall>m \<in> set (cc_stopped s). px_outlets m = Map.empty \<and> px_inlets m = Map.empty" "visits os is s"
  shows "\<forall>m \<in> set (cc_stopped (stop_manager env os is silent s)). px_outlets m = Map.empty \<and> px_inlets m = Map.empty"
proof (cases "cc_proxy s")
  case (Some m)
  let ?m = "if silent then set_runtime_reporter False m else m"
  have "dom (px_outlets ?m) \<subseteq> set os" "dom (px_inlets ?m) \<subseteq> set is"
    using assms(2) Some by (auto simp: visits_def set_runtime_reporter_def)
  from close_empties [OF this] assms(1) Some show ?thesis by (simp add: stop_manager_def Let_def)
qed (use assms(1) in \<open>simp add: stop_manager_def\<close>)

lemma manages_stop:
  assumes "manages s" "visits os is s"
  shows "manages (stop_manager env os is silent s)"
proof -
  have "cc_proxy (stop_manager env os is silent s) = None" by (simp add: stop_manager_def Let_def split: option.split)
  then show ?thesis using stopped_empty [OF _ assms(2)] assms(1) unfolding manages_def by auto
qed

lemma stop_fields [simp]:
  "cc_player (stop_manager env os is silent s) = cc_player s" "cc_tunnels (stop_manager env os is silent s) = cc_tunnels s"
  by (simp_all add: stop_manager_def Let_def split: option.split)

lemma manages_login:
  assumes "manages s" "visits (cl_outlets io) (cl_inlets io) s"
  shows "manages (on_login_ack io ack s)"
proof -
  let ?s = "s\<lparr>cc_player := la_player_id ack, cc_tunnels := tunnel_map (la_tunnel_list ack)\<rparr>"
  let ?stopped = "stop_manager (cl_manager io) (cl_outlets io) (cl_inlets io) False ?s"
  let ?fresh = "new_proxy_manager (la_player_id ack)"
  let ?set = "if la_supports_runtime_report ack then set_runtime_reporter True ?fresh else ?fresh"
  let ?m = "sync_tunnels (cl_manager io) [] [] (map Some (la_tunnel_list ack)) ?set"
  have stopped: "\<forall>m \<in> set (cc_stopped ?stopped). px_outlets m = Map.empty \<and> px_inlets m = Map.empty"
    by (rule stopped_empty) (use assms in \<open>simp_all add: manages_def visits_def\<close>)
  have "px_run (la_player_id ack) ?m" if "px_report ?m"
  proof -
    from that have "la_supports_runtime_report ack"
      by (auto simp: sync_fields new_proxy_manager_def split: if_splits)
    then have m1: "?set = set_runtime_reporter True ?fresh" by simp
    have "px_run (la_player_id ack)
        (sync_tunnels (cl_manager io) [] [] (map Some (la_tunnel_list ack)) (set_runtime_reporter True ?fresh))"
      by (rule px_run.sync [OF px_run.start]) (simp_all add: set_runtime_reporter_def new_proxy_manager_def)
    with m1 show ?thesis by simp
  qed
  moreover have "px_tunnels ?m = tunnel_map (la_tunnel_list ack)" "px_self ?m = la_player_id ack"
    by (simp_all add: sync_fields tunnel_map_want set_runtime_reporter_def new_proxy_manager_def)
  ultimately have "manages (?stopped\<lparr>cc_proxy := Some ?m\<rparr>)"
    using stopped by (simp add: manages_def)
  then show ?thesis by (simp add: on_login_ack_def Let_def split: option.split split del: if_split)
qed

lemma manages_modify: "manages s \<Longrightarrow> manages (on_modify_tunnel io ntf s)"
  by (auto simp: manages_def on_modify_tunnel_def update_fields intro: px_run.update split: option.splits)

lemma manages_pb: "manages s \<Longrightarrow> manages (s\<lparr>cc_proxy := map_option (handle_pb x) (cc_proxy s)\<rparr>)"
  by (auto simp: manages_def routed_fields intro: px_run.handle)

lemma manages_apply: "client_start_apply pw io tid off r s = (e, s') \<Longrightarrow> manages s \<Longrightarrow> manages s'"
  by (auto simp: client_start_apply_def dest!: manages_send split: prod.splits)

lemma manages_offer: "on_upgrade_offer pw io f s = (e, s') \<Longrightarrow> manages s \<Longrightarrow> manages s'"
  by (auto simp: on_upgrade_offer_def dest!: manages_send elim: manages_apply split: option.splits prod.splits if_splits)

lemma manages_chunk: "on_upgrade_chunk pw io c s = (e, s') \<Longrightarrow> manages s \<Longrightarrow> manages s'"
  by (auto simp: on_upgrade_chunk_def dest!: manages_send elim: manages_apply split: option.splits prod.splits if_splits)

lemma manages_push: "on_push pw io m s = (e, s') \<Longrightarrow> manages s \<Longrightarrow> manages s'"
  by (cases m) (auto simp: on_push_def intro: manages_offer manages_chunk manages_modify manages_pb)

lemma manages_frame:
  assumes "client_handle_frame pw io frame s = Some (e, s')" "manages s" "visits (cl_outlets io) (cl_inlets io) s"
  shows "manages s'"
  using assms
  by (auto simp: client_handle_frame_def on_login_reply_def intro: manages_push manages_login
      split: option.splits sum.splits if_splits message.splits)

lemma client_run_manages: "client_run pw s \<Longrightarrow> manages s"
proof (induction rule: client_run.induct)
  case (new w opts upgrader now s)
  have "manages (new_client_session now upgrader)" by (simp add: manages_def new_client_session_def)
  with manages_send [OF new] show ?case by simp
next
  case (frame s io frame now e s')
  have "manages (client_touch now s)" "visits (cl_outlets io) (cl_inlets io) (client_touch now s)"
    using frame by (simp_all add: client_touch_def visits_def)
  with manages_frame [OF frame(4)] show ?case by simp
next
  case (ping s w now later e s')
  then show ?case by (auto simp: ping_tick_def dest!: manages_send split: if_splits)
next
  case (route s m ok t msg)
  then show ?case by (auto simp: manages_def routed_fields intro: px_run.route)
next
  case (close s os "is" env)
  then show ?case by (simp add: client_close_def manages_stop)
qed


text \<open>
  The end of a session does not reach the frames of the read cache.  A login answer among them that is handled after
  \<open>close\<close> starts a manager that nothing closes.
\<close>

lemma late_login_runs:
  assumes "client_run pw s" "cc_ended s = None" "cc_player s = 0" "visits os is s"
    and "decode_frame pw frame = Some (Inr (serial, LoginAck ack))" "0 < sint serial"
  shows "client_run pw (on_login_ack io ack (client_touch now (client_close env os is s)))"
    "\<not> cc_open (on_login_ack io ack (client_touch now (client_close env os is s)))"
    "cc_proxy (on_login_ack io ack (client_touch now (client_close env os is s))) \<noteq> None"
proof -
  let ?c = "client_close env os is s"
  let ?l = "on_login_ack io ack (client_touch now ?c)"
  have c: "cc_proxy ?c = None" "cc_ended ?c = None" "cc_player ?c = 0" "\<not> cc_open ?c"
    using assms(2,3) by (simp_all add: client_close_def stop_manager_def Let_def split: option.split)
  have l: "cc_ended ?l = None" "\<not> cc_open ?l" "cc_proxy ?l \<noteq> None"
    using c by (simp_all add: on_login_ack_def stop_manager_def client_touch_def Let_def split: option.split)
  have "client_handle_frame pw io frame (client_touch now ?c) = Some (None, ?l)"
    using c assms(5,6) by (simp add: client_handle_frame_def on_login_reply_def client_touch_def)
  with client_run.frame [OF client_run.close [OF assms(1,4)]] c have "client_run pw (?l\<lparr>cc_ended := None\<rparr>)"
    by (simp add: visits_def)
  moreover have "?l\<lparr>cc_ended := None\<rparr> = ?l" using l(1) by simp
  ultimately show "client_run pw ?l" by simp
  from l show "\<not> cc_open ?l" "cc_proxy ?l \<noteq> None" by simp_all
qed

section \<open>Examples\<close>

definition ex_client_tunnel :: pb_tunnel where
  "ex_client_tunnel = ex_px_tunnel\<lparr>pt_sender := 7, pt_receiver := 0\<rparr>"

definition ex_ack :: login_ack where
  "ex_ack = \<lparr>la_player_id = 7, la_tunnel_list = [ex_client_tunnel], la_supports_runtime_report = True\<rparr>"

definition ex_options :: client_options where
  "ex_options = \<lparr>co_version = ''1.0.0'', co_key = ''key'', co_platform = ''linux''\<rparr>"

definition ex_client_io :: client_io where
  "ex_client_io = \<lparr>cl_dg = example_digests, cl_accept = no_accept_faults, cl_chunk = no_chunk_faults, cl_apply = example_apply_io,
     cl_health_save = Save_Ok, cl_health_contents = [], cl_manager = ex_mgr_env, cl_outlets = [], cl_inlets = [],
     cl_write = None, cl_write_again = None\<rparr>"

definition ex_logged_in :: client_session where
  "ex_logged_in = snd (client_send std_wire None (- 1) (LoginReq (login_request ex_options None)) (new_client_session 0 None))"

lemma ex_login_sent:
  "client_send std_wire None (- 1) (LoginReq (login_request ex_options None)) (new_client_session 0 None) = (None, ex_logged_in)"
  by (simp add: ex_logged_in_def client_send_def encode_frame_def message_id_def encode_def msg_id_defs new_client_session_def Let_def)

lemma ex_ack_frame: "\<exists>f. decode_frame std_wire f = Some (Inr (1, LoginAck ex_ack))"
proof -
  have maps: "message_maps (LoginAck ex_ack)"
    by (simp add: message_maps_def ex_ack_def ex_client_tunnel_def ex_px_tunnel_def go_map_def)
  then obtain b where "encode std_wire (LoginAck ex_ack) = Inr b" using std.decode_encode by blast
  then obtain p where "encode_frame std_wire 1 (LoginAck ex_ack) = Inr p"
    by (auto simp: encode_frame_def message_id_def Let_def)
  from decode_frame_body [OF this std_wire_laws maps]
  have "decode_frame std_wire (frame_body p) = Some (Inr (1, wire_message (LoginAck ex_ack)))" .
  moreover have "wire_message (LoginAck ex_ack) = LoginAck ex_ack"
    by (simp add: wire_message_def ex_ack_def ex_client_tunnel_def ex_px_tunnel_def wire_tunnel_list_def wire_tunnel_def strip_point_def zero_tunnel_def)
  ultimately show ?thesis by auto
qed


end
