(* ===== verification/Transport.thy ===== *)
theory Transport
  imports Client_Session
begin

text \<open>
  \<open>internal/transport/wsconn.go\<close>: a WebSocket as the stream of bytes that the sessions of both sides read and write.

  The WebSocket itself is a parameter.  A read of the connection takes the events it has in store for
  \<open>NextReader\<close> and for the \<open>Read\<close> of the message's reader; a write is told how its calls turn out.
\<close>

section \<open>Reading\<close>

text \<open>
  \<open>Next_Message d\<close>: \<open>NextReader\<close> yields a message, of binary or text data if \<open>d\<close>.  The reader yields a part of the
  message, or the last part with the end of the message (\<open>io.EOF\<close>).  \<open>Conn_Fails\<close> is an error of either, with what the
  call has read.
\<close>

datatype ws_event =
    Next_Message bool
  | Message_Part "byte list"
  | Message_End "byte list"
  | Conn_Fails "byte list" string

text \<open>\<open>WSConn.Read\<close>: the flag says whether the connection has a reader.  \<open>None\<close>: the call waits, for want of events.\<close>

fun ws_read :: "bool \<Rightarrow> ws_event list \<Rightarrow> ((byte list \<times> string option) \<times> bool \<times> ws_event list) option" where
  "ws_read False (Next_Message d # evs) = ws_read d evs"
| "ws_read False (Conn_Fails data e # evs) = Some (([], Some e), False, evs)"
| "ws_read True (Message_Part data # evs) = Some ((data, None), True, evs)"
| "ws_read True (Message_End data # evs) = (if data = [] then ws_read False evs else Some ((data, None), False, evs))"
| "ws_read True (Conn_Fails data e # evs) = Some ((data, Some e), True, evs)"
| "ws_read reader evs = None"

lemma ws_read_shrinks: "ws_read reader evs = Some (r, reader', evs') \<Longrightarrow> length evs' < length evs"
  by (induction reader evs rule: ws_read.induct) (auto split: if_splits)

text \<open>The chunks the read loop of a session gets; it stops at the first error.\<close>

function ws_chunks :: "bool \<Rightarrow> ws_event list \<Rightarrow> byte list list" where
  "ws_chunks reader evs =
     (case ws_read reader evs of
        Some ((data, None), reader, evs) \<Rightarrow> data # ws_chunks reader evs
      | _ \<Rightarrow> [])"
  by pat_completeness auto
termination
  by (relation "measure (\<lambda>(reader, evs). length evs)") (auto dest: ws_read_shrinks)

declare ws_chunks.simps [simp del]

section \<open>Writing\<close>

text \<open>\<open>WSConn.Write\<close>: the count, the error, and the bytes its message has taken.\<close>

definition ws_write ::
  "string option \<Rightarrow> (nat \<times> string option) list \<Rightarrow> string option \<Rightarrow> byte list \<Rightarrow> (nat \<times> client_error option \<times> byte list) option" where
  "ws_write next_writer calls close data =
     (case next_writer of
        Some e \<Rightarrow> Some (0, Some (Write_Error e), [])
      | None \<Rightarrow>
          (case write_all calls data of
             None \<Rightarrow> None
           | Some (Some e, taken) \<Rightarrow> Some (length taken, Some e, taken)
           | Some (None, taken) \<Rightarrow> Some (length taken, map_option Write_Error close, taken)))"

lemma write_all_complete: "write_all calls data = Some (None, taken) \<Longrightarrow> taken = data"
proof (induction calls data arbitrary: taken rule: write_all.induct)
  case (3 n e calls b data)
  from 3(2) obtain rest where "e = None" "n \<noteq> 0" "write_all calls (drop n (b # data)) = Some (None, rest)"
    "taken = take n (b # data) @ rest"
    by (auto simp: Let_def split: option.splits if_splits)
  with 3(1) show ?case by (metis append_take_drop_id)
qed simp_all

lemma ws_write_complete: "ws_write x calls y data = Some (n, None, taken) \<Longrightarrow> n = length data \<and> taken = data"
  by (auto simp: ws_write_def dest: write_all_complete split: option.splits)

section \<open>The stream\<close>

text \<open>
  The events of a message: of one that is no data, which the library drops; of one with data, which the reader hands
  over in parts of any size, also empty ones.
\<close>

fun message_events :: "(byte list list \<times> byte list) option \<Rightarrow> ws_event list" where
  "message_events None = [Next_Message False]"
| "message_events (Some (parts, rest)) = Next_Message True # map Message_Part parts @ [Message_End rest]"

fun message_data :: "(byte list list \<times> byte list) option \<Rightarrow> byte list option" where
  "message_data None = None"
| "message_data (Some (parts, rest)) = Some (concat parts @ rest)"

lemma ws_chunks_skip: "ws_chunks False (Next_Message d # evs) = ws_chunks d evs"
  by (simp add: ws_chunks.simps [of False] ws_chunks.simps [of d])

lemma ws_chunks_parts: "concat (ws_chunks True (map Message_Part parts @ Message_End rest # evs)) =
    concat parts @ rest @ concat (ws_chunks False evs)"
proof (induction parts)
  case Nil
  then show ?case by (simp add: ws_chunks.simps [of True] ws_chunks.simps [of False evs])
next
  case (Cons p parts)
  then show ?case by (simp add: ws_chunks.simps [of True "Message_Part p # x" for x])
qed

lemma ws_chunks_messages:
  "concat (ws_chunks False (concat (map message_events ms))) = concat (List.map_filter message_data ms)"
proof (induction ms)
  case Nil
  then show ?case by (simp add: ws_chunks.simps List.map_filter_def)
next
  case (Cons m ms)
  then show ?case
    by (cases m) (auto simp: ws_chunks_skip ws_chunks_parts List.map_filter_def)
qed

text \<open>
  C27. Nothing is lost over a WebSocket.  If the messages of data that arrive are those that one side has written its
  packets into, each by a write that returned no error, then the read loop of the other side hands over exactly the
  messages of the protocol that were sent, in order and with their serials, however the library cuts a message into
  reads, whatever other messages come between, and however many calls each write took.
\<close>

theorem websocket_delivers_messages:
  assumes "protowire_laws pw" and "n \<le> 2 ^ 32"
    and "list_all2 (\<lambda>(serial, m) p. encode_frame pw serial m = Inr p \<and> message_maps m \<and> length p < 5 + n) sent packets"
    and "list_all2 (\<lambda>p written. \<exists>calls k. ws_write None calls None p = Some (k, None, written)) packets
      (List.map_filter message_data ms)"
  shows "read_loop n (collect_frame pw) (ws_chunks False (concat (map message_events ms))) [] [] =
    (Inr [], map (\<lambda>(serial, m). Some (Inr (serial, wire_message m))) sent)"
proof -
  have "List.map_filter message_data ms = packets"
    using assms(4) by (induction rule: list_all2_induct) (auto dest: ws_write_complete)
  then have "concat (ws_chunks False (concat (map message_events ms))) = concat packets"
    by (simp add: ws_chunks_messages)
  then show ?thesis by (rule stream_delivers_messages [OF assms(1-3)])
qed

theorem websocket_delivers_messages_witness:
  "read_loop server_max_frame (collect_frame std_wire)
     (ws_chunks False (concat (map message_events [None, Some ([take 7 example_packet, []], drop 7 example_packet)]))) [] [] =
   (Inr [], [Some (Inr (- 2, Ping \<lparr>pp_ticks = 5\<rparr>))])"
proof -
  have "ws_write None [(4, None), (11, None)] None example_packet = Some (15, None, example_packet)"
    by (simp add: ws_write_def example_packet_def)
  then show ?thesis
    using websocket_delivers_messages [OF std_wire_laws, of server_max_frame "[(- 2, Ping \<lparr>pp_ticks = 5\<rparr>)]" "[example_packet]"
      "[None, Some ([take 7 example_packet, []], drop 7 example_packet)]"]
    by (auto simp: example_packet_encoded server_max_frame_def message_maps_def wire_message_def List.map_filter_def
        example_packet_def simp del: read_loop.simps)
qed

end
