(* ===== verification/Client_Program.thy ===== *)
theory Client_Program
  imports Client_Build Target_Addr
begin

text \<open>
  The client as a program (\<open>cmd/client\<close>): its flags, its installation as a system service, and how it opens the
  transports of the servers it is given (\<open>internal/client/client.go\<close>, \<open>dial.go\<close>, \<open>ssdial.go\<close>).

  Go's \<open>flag\<close> package is modelled as far as the program uses it.  Parameters: \<open>url.Parse\<close>, the JSON coding of the
  embedded configuration, and \<open>core.PickCipher\<close> of \<open>go-shadowsocks2\<close>, which answers an error or takes the method.
\<close>

section \<open>Flags\<close>

record program_args = common_args +
  pa_backtrace :: bool
  pa_insecure :: bool
  pa_quiet :: bool
  pa_ca_cert :: string
  pa_log_dir :: string

definition no_args :: common_args where
  "no_args = \<lparr>ca_server = '''', ca_key = '''', ca_enable_tls = False, ca_tls_server_name = '''', ca_log_level = '''',
     ca_base_log_level = '''', ca_ss_server = '''', ca_ss_method = '''', ca_ss_password = ''''\<rparr>"

definition program_args_of :: "common_args \<Rightarrow> program_args" where
  "program_args_of c = common_args.extend c
     \<lparr>pa_backtrace = False, pa_insecure = False, pa_quiet = False, pa_ca_cert = '''', pa_log_dir = ''''\<rparr>"

text \<open>\<open>strconv.ParseBool\<close> and the verb \<open>%t\<close>.\<close>

definition parse_bool :: "string \<Rightarrow> bool option" where
  "parse_bool v =
     (if v \<in> {''1'', ''t'', ''T'', ''true'', ''TRUE'', ''True''} then Some True
      else if v \<in> {''0'', ''f'', ''F'', ''false'', ''FALSE'', ''False''} then Some False
      else None)"

definition bool_verb :: "bool \<Rightarrow> string" where "bool_verb b = (if b then ''true'' else ''false'')"

text \<open>The flags that \<open>parseCommonArgs\<close> declares.\<close>

definition bool_flag :: "string \<Rightarrow> (bool \<Rightarrow> program_args \<Rightarrow> program_args) option" where
  "bool_flag name =
     (if name = ''backtrace'' then Some (\<lambda>b c. c\<lparr>pa_backtrace := b\<rparr>)
      else if name = ''enable-tls'' then Some (\<lambda>b c. c\<lparr>ca_enable_tls := b\<rparr>)
      else if name = ''insecure'' then Some (\<lambda>b c. c\<lparr>pa_insecure := b\<rparr>)
      else if name = ''quiet'' then Some (\<lambda>b c. c\<lparr>pa_quiet := b\<rparr>)
      else None)"

definition string_flag :: "string \<Rightarrow> (string \<Rightarrow> program_args \<Rightarrow> program_args) option" where
  "string_flag name =
     (if name = ''server'' then Some (\<lambda>v c. c\<lparr>ca_server := v\<rparr>)
      else if name = ''key'' then Some (\<lambda>v c. c\<lparr>ca_key := v\<rparr>)
      else if name = ''password'' then Some (\<lambda>v c. c\<lparr>ca_key := v\<rparr>)
      else if name = ''username'' then Some (\<lambda>v c. c)
      else if name = ''tls-server-name'' then Some (\<lambda>v c. c\<lparr>ca_tls_server_name := v\<rparr>)
      else if name = ''ca-cert'' then Some (\<lambda>v c. c\<lparr>pa_ca_cert := v\<rparr>)
      else if name = ''log-level'' then Some (\<lambda>v c. c\<lparr>ca_log_level := v\<rparr>)
      else if name = ''base-log-level'' then Some (\<lambda>v c. c\<lparr>ca_base_log_level := v\<rparr>)
      else if name = ''log-dir'' then Some (\<lambda>v c. c\<lparr>pa_log_dir := v\<rparr>)
      else if name = ''ss-server'' then Some (\<lambda>v c. c\<lparr>ca_ss_server := v\<rparr>)
      else if name = ''ss-method'' then Some (\<lambda>v c. c\<lparr>ca_ss_method := v\<rparr>)
      else if name = ''ss-password'' then Some (\<lambda>v c. c\<lparr>ca_ss_password := v\<rparr>)
      else None)"

datatype program_error =
    Bad_Embedded string
  | Bad_Syntax string
  | Flag_Unknown string
  | Help_Asked
  | Bad_Boolean string string
  | Needs_Argument string
  | Missing_Command
  | Not_Configured
  | Server_And_Key_Required
  | Shadowsocks_Incomplete
  | Not_Dialable settings_error
  | Bad_Cipher string

text \<open>The text behind the dashes at its first \<open>=\<close>, which cannot be its first character.\<close>

definition split_flag :: "string \<Rightarrow> string \<times> string option" where
  "split_flag s = (let name = takeWhile (\<lambda>x. x \<noteq> CHR ''='') s; rest = dropWhile (\<lambda>x. x \<noteq> CHR ''='') s
     in (name, if rest = [] then None else Some (tl rest)))"

fun parse_flags :: "string list \<Rightarrow> program_args \<Rightarrow> program_error + program_args" where
  "parse_flags [] c = Inr c"
| "parse_flags (s # args) c =
     (if length s < 2 \<or> hd s \<noteq> CHR ''-'' \<or> s = ''--'' then Inr c
      else let body = (if s ! 1 = CHR ''-'' then drop 2 s else drop 1 s) in
        if body = '''' \<or> hd body = CHR ''-'' \<or> hd body = CHR ''='' then Inl (Bad_Syntax s)
        else (case split_flag body of (name, value) \<Rightarrow>
          (case (bool_flag name, string_flag name) of
             (Some f, _) \<Rightarrow>
               (case value of
                  None \<Rightarrow> parse_flags args (f True c)
                | Some v \<Rightarrow> (case parse_bool v of None \<Rightarrow> Inl (Bad_Boolean v name) | Some b \<Rightarrow> parse_flags args (f b c)))
           | (None, Some f) \<Rightarrow>
               (case (value, args) of
                  (Some v, args) \<Rightarrow> parse_flags args (f v c)
                | (None, []) \<Rightarrow> Inl (Needs_Argument name)
                | (None, v # args) \<Rightarrow> parse_flags args (f v c))
           | (None, None) \<Rightarrow> Inl (if name = ''help'' \<or> name = ''h'' then Help_Asked else Flag_Unknown name))))"

definition parse_common_args :: "config_json \<Rightarrow> string \<Rightarrow> string list \<Rightarrow> program_error + program_args" where
  "parse_common_args js embedded args =
     (case embedded_common_args js embedded of
        Inl e \<Rightarrow> Inl (Bad_Embedded e)
      | Inr None \<Rightarrow> parse_flags args (program_args_of no_args)
      | Inr (Some c) \<Rightarrow> parse_flags args (program_args_of c))"

definition parse_command :: "digests \<Rightarrow> config_json \<Rightarrow> string \<Rightarrow> string list \<Rightarrow> program_error + string \<times> string list" where
  "parse_command dg js embedded args =
     (case args of
        [] \<Rightarrow> (case embedded_common_args js embedded of
            Inl e \<Rightarrow> Inl (Bad_Embedded e)
          | Inr (Some _) \<Rightarrow> Inr (''run'', [])
          | Inr None \<Rightarrow> Inl Missing_Command)
      | cmd # rest \<Rightarrow> Inr (to_lower dg (trim_space cmd), rest))"

section \<open>Opening a transport\<close>

text \<open>A Shadowsocks server to dial through: its address, the method and the password.\<close>

type_synonym ss_dialer = "string \<times> string \<times> string"

definition resolve_dial ::
  "digests \<Rightarrow> uri_parser \<Rightarrow> (string \<Rightarrow> string \<Rightarrow> string option) \<Rightarrow> 'a common_args_scheme \<Rightarrow> program_error + ss_dialer option" where
  "resolve_dial dg up pick_cipher c =
     (if ca_ss_server c = '''' \<and> ca_ss_method c = '''' \<and> ca_ss_password c = '''' then Inr None
      else if ca_ss_server c = '''' \<or> ca_ss_method c = '''' \<or> ca_ss_password c = '''' then Inl Shadowsocks_Incomplete
      else case validate_stream_dial_server_list dg up (ca_server c) of
          Some e \<Rightarrow> Inl (Not_Dialable e)
        | None \<Rightarrow>
            (case pick_cipher (ca_ss_method c) (ca_ss_password c) of
               Some e \<Rightarrow> Inl (Bad_Cipher e)
             | None \<Rightarrow> Inr (Some (ca_ss_server c, ca_ss_method c, ca_ss_password c))))"

definition validate_common_args ::
  "digests \<Rightarrow> uri_parser \<Rightarrow> (string \<Rightarrow> string \<Rightarrow> string option) \<Rightarrow> 'a common_args_scheme \<Rightarrow> program_error option" where
  "validate_common_args dg up pick_cipher c =
     (if ca_server c = '''' \<or> ca_key c = '''' then Some Server_And_Key_Required
      else case resolve_dial dg up pick_cipher c of Inl e \<Rightarrow> Some e | Inr _ \<Rightarrow> None)"

text \<open>The transport \<open>connect\<close> chooses for a parsed address, whether it is encrypted, and where it goes.\<close>

datatype transport = Tcp | Ws | Quic | Kcp

datatype connect_error = Scheme_Refused settings_error | Quic_Without_TLS | Scheme_Unknown string

definition connect :: "digests \<Rightarrow> bool \<Rightarrow> bool \<Rightarrow> string \<times> string \<Rightarrow> connect_error + transport \<times> bool \<times> string" where
  "connect dg custom_dial tls u =
     (case u of (scheme, host) \<Rightarrow>
        (case (if custom_dial then validate_stream_dial_scheme dg scheme else None) of
           Some e \<Rightarrow> Inl (Scheme_Refused e)
         | None \<Rightarrow>
             if scheme = ''tcp'' then Inr (Tcp, tls, host)
             else if scheme = ''ws'' then Inr (Ws, tls, host)
             else if scheme = ''quic'' then (if tls then Inr (Quic, tls, host) else Inl Quic_Without_TLS)
             else if scheme = ''kcp'' then Inr (Kcp, tls, host)
             else Inl (Scheme_Unknown scheme)))"

text \<open>\<open>marshalSSAddr\<close>: the header with the address a Shadowsocks server is to connect to.\<close>

datatype ss_addr_error = No_Host_Port | Bad_Port | Host_Too_Long

definition marshal_ss_addr :: "string \<Rightarrow> ss_addr_error + byte list" where
  "marshal_ss_addr addr =
     (case split_host_port addr of
        None \<Rightarrow> Inl No_Host_Port
      | Some (host, port_str) \<Rightarrow>
          (case parse_uint 16 port_str of
             None \<Rightarrow> Inl Bad_Port
           | Some n \<Rightarrow>
               let port = port_bytes (of_nat n) in
               (case parse_ip host of
                  Some ip \<Rightarrow>
                    (case ip_to4 ip of
                       Some ip4 \<Rightarrow> Inr ([1] @ ip4 @ port)
                     | None \<Rightarrow> Inr ([4] @ (case ip_to16 ip of Some ip16 \<Rightarrow> ip16 | None \<Rightarrow> []) @ port))
                | None \<Rightarrow>
                    if length host > 255 then Inl Host_Too_Long
                    else Inr ([3, of_nat (length host)] @ bytes_of host @ port))))"

section \<open>Installing the client as a service\<close>

definition flag_arg :: "string \<Rightarrow> string \<Rightarrow> string" where "flag_arg name v = ''--'' @ name @ ''='' @ v"

definition build_service_arg_slice :: "program_args \<Rightarrow> string list" where
  "build_service_arg_slice c =
     [''run-service'', flag_arg ''backtrace'' (bool_verb (pa_backtrace c)), flag_arg ''server'' (ca_server c),
      flag_arg ''key'' (ca_key c), flag_arg ''log-level'' (ca_log_level c),
      flag_arg ''base-log-level'' (ca_base_log_level c), flag_arg ''tls-server-name'' (ca_tls_server_name c)] @
     (if pa_log_dir c \<noteq> '''' then [flag_arg ''log-dir'' (pa_log_dir c)] else []) @
     (if ca_enable_tls c then [''--enable-tls''] else []) @
     (if pa_insecure c then [''--insecure''] else []) @
     (if pa_quiet c then [''--quiet''] else []) @
     (if ca_ss_server c \<noteq> '''' then [flag_arg ''ss-server'' (ca_ss_server c)] else []) @
     (if ca_ss_method c \<noteq> '''' then [flag_arg ''ss-method'' (ca_ss_method c)] else []) @
     (if ca_ss_password c \<noteq> '''' then [flag_arg ''ss-password'' (ca_ss_password c)] else [])"

text \<open>What \<open>installService\<close> registers: the arguments of the service; and the configuration it has checked.\<close>

definition install_service ::
  "digests \<Rightarrow> config_json \<Rightarrow> uri_parser \<Rightarrow> (string \<Rightarrow> string \<Rightarrow> string option) \<Rightarrow> string \<Rightarrow> string list
    \<Rightarrow> program_error + string list \<times> program_args" where
  "install_service dg js up pick_cipher embedded args =
     (if args \<noteq> [] then
        (case parse_common_args js embedded args of
           Inl e \<Rightarrow> Inl e
         | Inr c \<Rightarrow>
             (case validate_common_args dg up pick_cipher c of
                Some e \<Rightarrow> Inl e
              | None \<Rightarrow> Inr (build_service_arg_slice c, c)))
      else
        (case embedded_common_args js embedded of
           Inl e \<Rightarrow> Inl (Bad_Embedded e)
         | Inr None \<Rightarrow> Inl Not_Configured
         | Inr (Some c) \<Rightarrow>
             (case validate_common_args dg up pick_cipher (program_args_of c) of
                Some e \<Rightarrow> Inl e
              | None \<Rightarrow> Inr ([''run-service''], program_args_of c))))"

text \<open>Reading one argument back.\<close>

lemma split_flag_value: "CHR ''='' \<notin> set name \<Longrightarrow> split_flag (name @ ''='' @ v) = (name, Some v)"
  by (simp add: split_flag_def takeWhile_append2 dropWhile_append)

lemma split_flag_bare: "CHR ''='' \<notin> set name \<Longrightarrow> split_flag name = (name, None)"
  by (auto simp: split_flag_def takeWhile_eq_all_conv)

definition flag_name :: "string \<Rightarrow> bool" where
  "flag_name n \<longleftrightarrow> n \<noteq> '''' \<and> CHR ''='' \<notin> set n \<and> hd n \<noteq> CHR ''-''"

lemma parse_string_arg:
  assumes "flag_name n" "bool_flag n = None" "string_flag n = Some f"
  shows "parse_flags (flag_arg n v # args) c = parse_flags args (f v c)"
proof -
  from assms(1) obtain x xs where n: "n = x # xs" "x \<noteq> CHR ''-''" "x \<noteq> CHR ''=''" by (cases n) (auto simp: flag_name_def)
  have "split_flag (n @ ''='' @ v) = (n, Some v)" using assms(1) split_flag_value by (simp add: flag_name_def)
  with n assms(2,3) show ?thesis by (simp add: flag_arg_def)
qed

lemma parse_bool_arg:
  assumes "flag_name n" "bool_flag n = Some f"
  shows "parse_flags (flag_arg n (bool_verb b) # args) c = parse_flags args (f b c)"
    "parse_flags ((''--'' @ n) # args) c = parse_flags args (f True c)"
proof -
  from assms(1) obtain x xs where n: "n = x # xs" "x \<noteq> CHR ''-''" "x \<noteq> CHR ''=''" by (cases n) (auto simp: flag_name_def)
  have v: "split_flag (n @ ''='' @ v) = (n, Some v)" for v using assms(1) split_flag_value by (simp add: flag_name_def)
  have "parse_bool (bool_verb b) = Some b" by (simp add: parse_bool_def bool_verb_def)
  with n v [of "bool_verb b"] assms(2) show "parse_flags (flag_arg n (bool_verb b) # args) c = parse_flags args (f b c)"
    by (simp add: flag_arg_def)
  have "split_flag n = (n, None)" using assms(1) split_flag_bare by (simp add: flag_name_def)
  with n assms(2) show "parse_flags ((''--'' @ n) # args) c = parse_flags args (f True c)" by simp
qed

lemma parse_strings:
  assumes "flag_name n" "bool_flag n = None" "string_flag n \<noteq> None"
  shows "parse_flags (flag_arg n v # args) c = parse_flags args (the (string_flag n) v c)"
    "parse_flags ((if b then [flag_arg n v] else []) @ args) c = parse_flags args (if b then the (string_flag n) v c else c)"
    "parse_flags (if b then [flag_arg n v] else []) c = Inr (if b then the (string_flag n) v c else c)"
  using assms parse_string_arg [of n] by (auto simp del: parse_flags.simps(2))

lemma parse_bools:
  assumes "flag_name n" "bool_flag n \<noteq> None"
  shows "parse_flags (flag_arg n (bool_verb b) # args) c = parse_flags args (the (bool_flag n) b c)"
    "parse_flags ((if b then [''--'' @ n] else []) @ args) c = parse_flags args (if b then the (bool_flag n) True c else c)"
  using assms parse_bool_arg [of n] by (auto simp del: parse_flags.simps(2))

lemma flags_read:
  "parse_flags (flag_arg ''backtrace'' (bool_verb b) # args) c = parse_flags args (c\<lparr>pa_backtrace := b\<rparr>)"
  "parse_flags (flag_arg ''server'' v # args) c = parse_flags args (c\<lparr>ca_server := v\<rparr>)"
  "parse_flags (flag_arg ''key'' v # args) c = parse_flags args (c\<lparr>ca_key := v\<rparr>)"
  "parse_flags (flag_arg ''log-level'' v # args) c = parse_flags args (c\<lparr>ca_log_level := v\<rparr>)"
  "parse_flags (flag_arg ''base-log-level'' v # args) c = parse_flags args (c\<lparr>ca_base_log_level := v\<rparr>)"
  "parse_flags (flag_arg ''tls-server-name'' v # args) c = parse_flags args (c\<lparr>ca_tls_server_name := v\<rparr>)"
  "parse_flags ((if b then [''--'' @ ''enable-tls''] else []) @ args) c =
    parse_flags args (if b then c\<lparr>ca_enable_tls := True\<rparr> else c)"
  "parse_flags ((if b then [''--'' @ ''insecure''] else []) @ args) c =
    parse_flags args (if b then c\<lparr>pa_insecure := True\<rparr> else c)"
  "parse_flags ((if b then [''--'' @ ''quiet''] else []) @ args) c =
    parse_flags args (if b then c\<lparr>pa_quiet := True\<rparr> else c)"
  "parse_flags ((if b then [flag_arg ''log-dir'' v] else []) @ args) c =
    parse_flags args (if b then c\<lparr>pa_log_dir := v\<rparr> else c)"
  "parse_flags ((if b then [flag_arg ''ss-server'' v] else []) @ args) c =
    parse_flags args (if b then c\<lparr>ca_ss_server := v\<rparr> else c)"
  "parse_flags ((if b then [flag_arg ''ss-method'' v] else []) @ args) c =
    parse_flags args (if b then c\<lparr>ca_ss_method := v\<rparr> else c)"
  "parse_flags (if b then [flag_arg ''ss-password'' v] else []) c = Inr (if b then c\<lparr>ca_ss_password := v\<rparr> else c)"
  by (simp_all add: parse_strings parse_bools flag_name_def bool_flag_def string_flag_def del: parse_flags.simps(2))

text \<open>What a service makes of the arguments registered for \<open>c\<close> over the defaults \<open>d\<close> of its own binary.\<close>

definition service_args :: "program_args \<Rightarrow> program_args \<Rightarrow> program_args" where
  "service_args c d = d
     \<lparr>pa_backtrace := pa_backtrace c, ca_server := ca_server c, ca_key := ca_key c, ca_log_level := ca_log_level c,
      ca_base_log_level := ca_base_log_level c, ca_tls_server_name := ca_tls_server_name c,
      pa_log_dir := (if pa_log_dir c \<noteq> '''' then pa_log_dir c else pa_log_dir d),
      ca_enable_tls := ca_enable_tls c \<or> ca_enable_tls d, pa_insecure := pa_insecure c \<or> pa_insecure d,
      pa_quiet := pa_quiet c \<or> pa_quiet d,
      ca_ss_server := (if ca_ss_server c \<noteq> '''' then ca_ss_server c else ca_ss_server d),
      ca_ss_method := (if ca_ss_method c \<noteq> '''' then ca_ss_method c else ca_ss_method d),
      ca_ss_password := (if ca_ss_password c \<noteq> '''' then ca_ss_password c else ca_ss_password d)\<rparr>"

lemma service_args_parsed:
  "parse_flags (tl (build_service_arg_slice c)) d = Inr (service_args c d)"
proof -
  have rest: "tl (build_service_arg_slice c) = flag_arg ''backtrace'' (bool_verb (pa_backtrace c)) # flag_arg ''server'' (ca_server c) #
      flag_arg ''key'' (ca_key c) # flag_arg ''log-level'' (ca_log_level c) #
      flag_arg ''base-log-level'' (ca_base_log_level c) # flag_arg ''tls-server-name'' (ca_tls_server_name c) #
      (if pa_log_dir c \<noteq> '''' then [flag_arg ''log-dir'' (pa_log_dir c)] else []) @
      (if ca_enable_tls c then [''--'' @ ''enable-tls''] else []) @ (if pa_insecure c then [''--'' @ ''insecure''] else []) @
      (if pa_quiet c then [''--'' @ ''quiet''] else []) @
      (if ca_ss_server c \<noteq> '''' then [flag_arg ''ss-server'' (ca_ss_server c)] else []) @
      (if ca_ss_method c \<noteq> '''' then [flag_arg ''ss-method'' (ca_ss_method c)] else []) @
      (if ca_ss_password c \<noteq> '''' then [flag_arg ''ss-password'' (ca_ss_password c)] else [])"
    by (simp add: build_service_arg_slice_def)
  show ?thesis
    unfolding rest flags_read by (simp add: service_args_def)
qed

lemma service_command:
  "parse_command dg js embedded (build_service_arg_slice c) = Inr (''run-service'', tl (build_service_arg_slice c))"
  "parse_command dg js embedded [''run-service''] = Inr (''run-service'', [])"
proof -
  have "to_lower dg (trim_space ''run-service'') = ''run-service''"
  proof -
    have "trim_space ''run-service'' = ''run-service''" by code_simp
    then show ?thesis by (simp add: to_lower_def lower_char_def)
  qed
  then show "parse_command dg js embedded (build_service_arg_slice c) = Inr (''run-service'', tl (build_service_arg_slice c))"
    "parse_command dg js embedded [''run-service''] = Inr (''run-service'', [])"
    by (simp_all add: parse_command_def build_service_arg_slice_def)
qed

text \<open>Parsing flags leaves what no flag sets as it was.\<close>

definition embedded_defaults :: "common_args option \<Rightarrow> program_args" where
  "embedded_defaults d = program_args_of (case d of None \<Rightarrow> no_args | Some c \<Rightarrow> c)"

lemma parse_common_args_eq:
  "embedded_common_args js embedded = Inr d \<Longrightarrow> parse_common_args js embedded args = parse_flags args (embedded_defaults d)"
  by (simp add: parse_common_args_def embedded_defaults_def split: option.split)

lemma service_args_same:
  assumes "ca_enable_tls (embedded_defaults d) \<longrightarrow> ca_enable_tls c"
    "ca_ss_server (embedded_defaults d) = '''' \<or> ca_ss_server c \<noteq> ''''"
    "ca_ss_method (embedded_defaults d) = '''' \<or> ca_ss_method c \<noteq> ''''"
    "ca_ss_password (embedded_defaults d) = '''' \<or> ca_ss_password c \<noteq> ''''"
  shows "service_args c (embedded_defaults d) = c\<lparr>pa_ca_cert := ''''\<rparr>"
  using assms by (cases c) (auto simp: service_args_def embedded_defaults_def program_args_of_def common_args.defs no_args_def
      split: option.splits)


text \<open>
  Without that condition it fails: a flag that is off is not registered, so a client built with TLS whose command line
  says \<open>--enable-tls=false\<close> is installed without and runs with TLS.
\<close>

lemma service_keeps_embedded_tls:
  assumes "embedded_common_args js embedded = Inr d" "ca_enable_tls (embedded_defaults d)"
    and "parse_common_args js embedded args = Inr c" "\<not> ca_enable_tls c"
  shows "\<exists>c'. parse_common_args js embedded (tl (build_service_arg_slice c)) = Inr c' \<and> ca_enable_tls c'"
  using assms(2) by (simp add: parse_common_args_eq [OF assms(1)] service_args_parsed service_args_def)


section \<open>A client that can be built can connect\<close>

text \<open>Schemes come out of \<open>url.Parse\<close> in lower case and without blanks.\<close>

definition plain_schemes :: "digests \<Rightarrow> uri_parser \<Rightarrow> bool" where
  "plain_schemes dg up \<longleftrightarrow> (\<forall>raw scheme host. up raw = Inr (scheme, host) \<longrightarrow> to_lower dg (trim_space scheme) = scheme)"

definition dials :: "'a common_args_scheme \<Rightarrow> bool" where "dials c \<longleftrightarrow> ca_ss_server c \<noteq> ''''"

lemma built_args:
  assumes "validate_settings dg up s = None"
  shows "ca_server (config_args (normalize_config (player_config u s))) = trim_space (bs_server s)"
    "ca_enable_tls (config_args (normalize_config (player_config u s))) = bs_enable_tls s"
    "check_uris dg up (bs_enable_tls s) (split_server_uris (trim_space (bs_server s))) = None"
    "bs_use_shadowsocks s \<Longrightarrow> ca_ss_server (config_args (normalize_config (player_config u s))) \<noteq> '''' \<and>
       ca_ss_method (config_args (normalize_config (player_config u s))) \<noteq> '''' \<and>
       ca_ss_password (config_args (normalize_config (player_config u s))) \<noteq> '''' \<and>
       validate_stream_dial_server_list dg up (trim_space (bs_server s)) = None"
    "\<not> bs_use_shadowsocks s \<Longrightarrow> ca_ss_server (config_args (normalize_config (player_config u s))) = '''' \<and>
       ca_ss_method (config_args (normalize_config (player_config u s))) = '''' \<and>
       ca_ss_password (config_args (normalize_config (player_config u s))) = ''''"
  using assms
  by (auto simp: config_args_def normalize_config_def player_config_def validate_settings_def normalize_settings_def
      normalize_client_build_settings_def settings_ss_method_def Let_def split: if_splits option.splits)



section \<open>The header for a Shadowsocks server\<close>

lemma ipv6_loop_length:
  "ipv6_loop k ip ell s = Some (ip', e, r) \<Longrightarrow> even (length ip) \<Longrightarrow> length ip \<le> 16 \<Longrightarrow> length ip' \<le> 16"
proof (induction k ip ell s rule: ipv6_loop.induct)
  case (2 k ip ell s)
  show ?case
  proof (cases "length ip \<ge> 16")
    case True
    with 2 show ?thesis by simp
  next
    case False
    with 2(4) have l: "length ip + 2 \<le> 16" by presburger
    from False 2(3) obtain n acc rest where g: "hex_group 0 0 s = Some (n, acc, rest)" "n \<noteq> 0"
      by (auto split: option.splits if_splits)
    show ?thesis
    proof (cases rest)
      case Nil
      with 2(3) False g l show ?thesis by auto
    next
      case (Cons c r')
      with 2 False g l show ?thesis
        by (auto simp: Let_def split: if_splits option.splits list.splits dest: length_parse_ipv4)
    qed
  qed
qed simp

lemma parse_ip_length: "parse_ip s = Some ip \<Longrightarrow> length ip = 16"
proof -
  assume s: "parse_ip s = Some ip"
  have "length ip = 16" if six: "parse_ipv6 s = Some ip"
  proof -
    obtain ell s' where h: "(if has_prefix s ''::'' then (Some (0 :: nat), drop 2 s) else (None, s)) = (ell, s')" by fastforce
    show ?thesis
    proof (cases "ell = Some 0 \<and> s' = []")
      case True
      with six show ?thesis unfolding parse_ipv6_def h by auto
    next
      case False
      with six obtain ip' e r where l: "ipv6_loop 8 [] ell s' = Some (ip', e, r)"
        unfolding parse_ipv6_def h by (auto split: option.splits)
      from ipv6_loop_length [OF this] have "length ip' \<le> 16" by simp
      with six l False show ?thesis unfolding parse_ipv6_def h by (auto split: if_splits option.splits)
    qed
  qed
  with s show ?thesis by (auto simp: parse_ip_def dest!: length_parse_ipv4 split: if_splits option.splits)
qed

text \<open>What \<open>marshalSSAddr\<close> writes is read by the tunnels' own reader as that host and port, whatever data follows.\<close>

lemma marshalled_ss_addr_read:
  assumes "marshal_ss_addr addr = Inr header" "split_host_port addr = Some (host, port)" "parse_uint 16 port = Some n"
  shows "\<exists>atyp rest. header = atyp # rest \<and> (\<forall>data. read_target_addr (rest @ data) atyp =
    Inr (Some (\<lparr>ta_host = (if parse_ip host = None then host else ''''), ta_port = of_nat n,
                ta_ip = (case parse_ip host of None \<Rightarrow> [] | Some ip \<Rightarrow> ip)\<rparr>, length rest)))"
proof (cases "parse_ip host")
  case None
  with assms have h: "length host \<le> 255" "header = 3 # of_nat (length host) # bytes_of host @ port_bytes (of_nat n)"
    by (auto simp: marshal_ss_addr_def Let_def split: if_splits)
  from read_encoded(3) [OF h(1) None, of "of_nat n"] h(2) None show ?thesis
    by (simp add: addr_type_defs port_bytes_def)
next
  case (Some ip)
  then have ip: "length ip = 16" by (rule parse_ip_length)
  show ?thesis
  proof (cases "ip_to4 ip")
    case None
    with assms Some ip have "header = 4 # ip @ port_bytes (of_nat n)" by (simp add: marshal_ss_addr_def ip_to16_def Let_def)
    with read_encoded(2) [OF ip, of "of_nat n"] Some ip show ?thesis by (simp add: addr_type_defs port_bytes_def)
  next
    case (Some v4)
    with assms \<open>parse_ip host = Some ip\<close> have "header = 1 # v4 @ port_bytes (of_nat n)" by (simp add: marshal_ss_addr_def Let_def)
    with read_encoded(1) [OF ip_to4_length [OF Some], of "of_nat n"] ip_to4_16 [OF ip Some] ip_to4_length [OF Some]
      \<open>parse_ip host = Some ip\<close> show ?thesis
      by (simp add: addr_type_defs port_bytes_def)
  qed
qed

section \<open>Keeping connected\<close>

text \<open>
  One pass of \<open>RunContext\<close> over the servers of the list: for each, whether the program has been told to stop before,
  how its session ended (\<open>runOne\<close>), and whether it is told to stop during the pause that follows.  The pass yields how it
  ended, the servers tried and the seconds of its pauses.
\<close>

datatype session_end = Session_Closed | Session_Error string | Session_Applies

datatype pass_end = Pass_Over | Pass_Stopped | Pass_Applies

fun run_pass ::
  "uri_parser \<Rightarrow> (string \<times> bool \<times> session_end \<times> bool) list \<Rightarrow> pass_end \<times> string list \<times> nat" where
  "run_pass up [] = (Pass_Over, [], 0)"
| "run_pass up ((raw, stop, outcome, stop_waiting) # servers) =
     (if stop then (Pass_Stopped, [], 0)
      else case up raw of
          Inl e \<Rightarrow> run_pass up servers
        | Inr u \<Rightarrow>
            if outcome = Session_Applies then (Pass_Applies, [raw], 0)
            else if stop_waiting then (Pass_Stopped, [raw], 0)
            else (case run_pass up servers of (r, tried, pause) \<Rightarrow>
                (r, raw # tried, (if outcome = Session_Closed then 1 else 15) + pause)))"

lemma pass_tries_each:
  "run_pass up servers = (Pass_Over, tried, pause) \<Longrightarrow>
   tried = filter (\<lambda>raw. \<exists>u. up raw = Inr u) (map fst servers) \<and> length tried \<le> pause"
  by (induction up servers arbitrary: tried pause rule: run_pass.induct) (force split: if_splits sum.splits prod.splits)+

text \<open>A list in which no address parses is gone through again and again without a pause.\<close>

lemma pass_without_pause:
  "\<forall>(raw, stop, outcome, w) \<in> set servers. \<not> stop \<and> (\<exists>e. up raw = Inl e) \<Longrightarrow> run_pass up servers = (Pass_Over, [], 0)"
  by (induction up servers rule: run_pass.induct) auto

end
