(* ===== verification/Server_Program.thy ===== *)
theory Server_Program
  imports Client_Program Version
begin

text \<open>
  The server as a program: its configuration file (\<open>internal/config/config.go\<close>) and the listeners it starts
  (\<open>cmd/server/main.go\<close>, \<open>internal/server/app.go\<close>).  What a file holds after \<open>json.Unmarshal\<close> is an argument.
\<close>

record server_config =
  sg_database_url :: string
  sg_listen_addr :: string
  sg_illegal_forward :: string
  sg_enable_tls :: bool
  sg_tls_cert :: string
  sg_tls_key :: string
  sg_web_base_dir :: string
  sg_web_addr :: string
  sg_web_username :: string
  sg_web_password :: string
  sg_template_dir :: string
  sg_cache_dir :: string
  sg_latest_version :: string
  sg_quiet :: bool
  sg_log_dir :: string

datatype file_error = Missing | Unreadable string | Unparsable string

datatype config_error =
    Config_File file_error
  | Manifest_File file_error
  | Manifest_Version_Empty
  | Version_Refused string

definition config_normalize :: "server_config \<Rightarrow> server_config" where
  "config_normalize c = (if sg_log_dir c = '''' then c\<lparr>sg_log_dir := ''logs''\<rparr> else c)"

text \<open>The version in \<open>manifest.json\<close> of a directory, as \<open>manifest\<close> finds it there.\<close>

definition read_client_template_manifest_version :: "(string \<Rightarrow> file_error + string) \<Rightarrow> string \<Rightarrow> config_error + string" where
  "read_client_template_manifest_version manifest dir =
     (if trim_space dir = '''' then Inr ''''
      else case manifest dir of
          Inl Missing \<Rightarrow> Inr ''''
        | Inl e \<Rightarrow> Inl (Manifest_File e)
        | Inr v \<Rightarrow> if trim_space v = '''' then Inl Manifest_Version_Empty else Inr (trim_space v))"

definition load_server_config ::
  "(string \<Rightarrow> file_error + server_config) \<Rightarrow> (string \<Rightarrow> file_error + string) \<Rightarrow> string \<Rightarrow> config_error + server_config" where
  "load_server_config config manifest path =
     (case config path of
        Inl e \<Rightarrow> Inl (Config_File e)
      | Inr c0 \<Rightarrow>
          let c = config_normalize c0 in
          (case (if trim_space (sg_latest_version c) = ''''
                 then map_sum id (\<lambda>v. c\<lparr>sg_latest_version := (if v = '''' then ''1.0.0'' else v)\<rparr>)
                        (read_client_template_manifest_version manifest (sg_template_dir c))
                 else Inr c) of
             Inl e \<Rightarrow> Inl e
           | Inr c \<Rightarrow>
               if \<not> is_valid_version (sg_latest_version c) then Inl (Version_Refused (sg_latest_version c)) else Inr c))"

text \<open>\<open>main\<close> falls back to the old name of the file when the new one is not there.\<close>

definition load_default_config ::
  "(string \<Rightarrow> file_error + server_config) \<Rightarrow> (string \<Rightarrow> file_error + string) \<Rightarrow> string \<Rightarrow> config_error + server_config" where
  "load_default_config config manifest path =
     (case load_server_config config manifest path of
        Inl (Config_File Missing) \<Rightarrow>
          if path = ''gpipe.json'' then load_server_config config manifest ''config.json'' else Inl (Config_File Missing)
      | r \<Rightarrow> r)"

text \<open>The listeners of an address list; addresses that do not parse or have another scheme are skipped.\<close>

definition parse_listen_addrs :: "string \<Rightarrow> string list" where
  "parse_listen_addrs v = filter (\<lambda>p. p \<noteq> '''') (map trim_space (split_on CHR '','' v))"

definition listen_on :: "uri_parser \<Rightarrow> string \<Rightarrow> (transport \<times> string) option" where
  "listen_on up entry =
     (case up entry of
        Inl e \<Rightarrow> None
      | Inr (scheme, host) \<Rightarrow>
          if scheme = ''tcp'' then Some (Tcp, host)
          else if scheme = ''ws'' then Some (Ws, host)
          else if scheme = ''quic'' then Some (Quic, host)
          else if scheme = ''kcp'' then Some (Kcp, host)
          else None)"

definition listeners :: "uri_parser \<Rightarrow> server_config \<Rightarrow> (transport \<times> string) list" where
  "listeners up c = List.map_filter (listen_on up) (parse_listen_addrs (sg_listen_addr c))"

text \<open>What refuses to start without TLS.\<close>

definition listener_refused :: "server_config \<Rightarrow> transport \<Rightarrow> bool" where
  "listener_refused c t \<longleftrightarrow> t = Quic \<and> \<not> sg_enable_tls c"

definition runs_web :: "server_config \<Rightarrow> bool" where
  "runs_web c \<longleftrightarrow> sg_web_addr c \<noteq> '''' \<and> sg_web_username c \<noteq> '''' \<and> sg_web_password c \<noteq> ''''"

section \<open>What a loaded configuration can be used for\<close>

lemma loaded_config_valid:
  assumes "load_default_config config manifest path = Inr c"
  shows "is_valid_version (sg_latest_version c) \<and> sg_log_dir c \<noteq> ''''"
proof -
  have sum: "map_sum id g x = Inr y \<longleftrightarrow> (\<exists>z. x = Inr z \<and> y = g z)" for g :: "string \<Rightarrow> server_config" and x :: "config_error + string" and y
    by (cases x) auto
  have one: "load_server_config config manifest p = Inr c \<Longrightarrow> is_valid_version (sg_latest_version c) \<and> sg_log_dir c \<noteq> ''''" for p
    by (auto simp: load_server_config_def config_normalize_def Let_def sum split: sum.splits if_splits)
  show ?thesis
    by (rule one [of "if load_server_config config manifest path = Inr c then path else ''config.json''"])
      (use assms in \<open>auto simp: load_default_config_def split: sum.splits config_error.splits file_error.splits if_splits\<close>)
qed

text \<open>A client with the TLS setting of the server opens, for an address the server listens on, the same transport.\<close>

lemma listeners_can_be_dialled:
  assumes "(t, host) \<in> set (listeners up c)"
  shows "\<exists>entry u. up entry = Inr u \<and>
    connect dg False (sg_enable_tls c) u = (if listener_refused c t then Inl Quic_Without_TLS else Inr (t, sg_enable_tls c, host))"
proof -
  from assms obtain entry where "listen_on up entry = Some (t, host)"
    by (auto simp: listeners_def List.map_filter_def)
  then obtain scheme where u: "up entry = Inr (scheme, host)" and t: "scheme = ''tcp'' \<and> t = Tcp \<or> scheme = ''ws'' \<and> t = Ws \<or>
      scheme = ''quic'' \<and> t = Quic \<or> scheme = ''kcp'' \<and> t = Kcp"
    by (auto simp: listen_on_def split: sum.splits prod.splits if_splits)
  have "connect dg False (sg_enable_tls c) (scheme, host) =
      (if listener_refused c t then Inl Quic_Without_TLS else Inr (t, sg_enable_tls c, host))"
    using t by (elim disjE) (simp_all add: connect_def listener_refused_def)
  with u show ?thesis by blast
qed

end
