(* ===== verification/Spec2Isabelle.thy ===== *)
theory Spec2Isabelle
  imports Std_Wire Proto_Ids Frame Queues Flow Crypto Go_Base64 Session_Common Target_Addr Socks5
    Tunnel_Runtime Tunnel_Manager Version Upgrade_Offer Upgrade_Manager Upgrade_Receiver Upgrade_Transfer
    User_Store Player_Manager Server_Hub Server_Session Server_Run
    Shadowsocks Proxy_Context Context_Http Context_Shadowsocks Context_Socks5 Inlet_Context
    Inlet Outlet Proxy_Manager Tunnel_Link
    Client_Build Web_Auth Web_Service Web_Run
    Upgrade_Apply Client_Session Transport Client_Program Server_Program
begin

text \<open>
  \<^bold>\<open>gpipe: a tunnel server, its clients and their administration\<close>

  A gpipe server is reached by clients, the \<^emph>\<open>players\<close>.  A \<^emph>\<open>tunnel\<close> has a receiver, where an \<^emph>\<open>inlet\<close> accepts local
  connections or packets, and a sender, where an \<^emph>\<open>outlet\<close> dials the targets; each is a player or the server itself.
  The server keeps tunnels and players in tables, tells every player its tunnels, forwards the messages between the
  two ends of a tunnel, serves pages for the administration, builds clients for its players, and upgrades the clients
  that run.  The development models the Go code of these parts, one theory for each file or pair of files, and proves
  the properties that make each of them correct and those of their composition.

  \<^bold>\<open>The theories\<close>

  \<^item> \<^emph>\<open>Foundations.\<close>  \<open>Prelude\<close>: the word types, the collections \<open>wire_simps\<close>, \<open>step_simps\<close>, \<open>inv_intros\<close>, lemmas on lists
    and maps.  \<open>Go_Strings\<close>, \<open>Go_Net\<close>, \<open>Go_Base64\<close>, \<open>Go_Base64_Url\<close>: what the code uses of Go's \<open>strings\<close>, \<open>strconv\<close>,
    \<open>net\<close> and \<open>encoding/base64\<close>, defined on lists of characters and bytes.
  \<^item> \<^emph>\<open>The protocol.\<close>  \<open>Pb_Types\<close> (\<open>internal/pb/types.go\<close>): the messages as records and one datatype.  \<open>Wire\<close>
    (\<open>internal/proto/helpers.go\<close>): fields over a \<open>protowire\<close>, whose documented laws are the locale \<open>protowire_laws\<close>, and
    the loop over the fields of a message; \<open>Std_Wire\<close> gives a concrete one and interprets the locale.
    \<open>Messages_Tunnel\<close>, \<open>Messages_Auth\<close>, \<open>Messages_Generic\<close>, \<open>Messages_Upgrade\<close>, \<open>Proto_Ids\<close> (the rest of
    \<open>internal/proto\<close>): marshalling, unmarshalling and message ids.  \<open>Frame\<close> (\<open>internal/codec/frame.go\<close> and the read loops of
    both sides): frames in a stream of bytes.  \<open>Transport\<close> (\<open>internal/transport/wsconn.go\<close>): a WebSocket as such a
    stream.
  \<^item> \<^emph>\<open>Queues, flow and encryption.\<close>  \<open>Queues\<close> (\<open>internal/proxy/queue.go\<close>, \<open>writeQueue\<close> of \<open>internal/server/session.go\<close>)
    over the locale \<open>bounded_fifo\<close>; \<open>Flow\<close> and \<open>Session_Common\<close> (\<open>internal/proxy/common.go\<close>, \<open>types.go\<close>,
    \<open>session_id.go\<close>): the window of a session, its data pipeline, the messages of the proxies; \<open>Crypto\<close>
    (\<open>crypto.go\<close>); \<open>Shadowsocks\<close> (\<open>shadowsocks.go\<close>) over the locale \<open>incremental\<close> of readers that are fed piece by piece.
  \<^item> \<^emph>\<open>The ends of a tunnel\<close> (all of \<open>internal/proxy\<close>).  \<open>Target_Addr\<close>, \<open>Socks5\<close>; \<open>Proxy_Context\<close>, \<open>Context_Http\<close>,
    \<open>Context_Shadowsocks\<close>, \<open>Context_Socks5\<close>, \<open>Inlet_Context\<close>: the contexts of an inlet's sessions, each an interpretation of
    the locale \<open>session_context\<close> (what an outlet relies on); \<open>Inlet\<close>, \<open>Outlet\<close>; \<open>Proxy_Manager\<close> (\<open>manager.go\<close>): which of
    them run.  \<open>Tunnel_Link\<close>: one connection of a tunnel, end to end.
  \<^item> \<^emph>\<open>The server.\<close>  \<open>Model_Tunnel\<close>, \<open>Validate\<close> (\<open>internal/model/tunnel.go\<close>, \<open>internal/util/validate.go\<close>);
    \<open>Tunnel_Runtime\<close>, \<open>Tunnel_Manager\<close>, \<open>User_Store\<close>, \<open>Player_Manager\<close> (\<open>internal/manager\<close>, \<open>internal/store\<close>);
    \<open>Server_Hub\<close>, \<open>Server_Session\<close> (\<open>internal/server/session.go\<close>); \<open>Server_Run\<close>: every order of their events.
    \<open>Web_Auth\<close>, \<open>Web_Service\<close>, \<open>Web_Run\<close> (\<open>internal/web\<close>): the login cookie, the handlers, and what they guarantee.
    \<open>Client_Build\<close> (\<open>internal/clientbuild\<close>, \<open>internal/clientbin\<close>, the settings and their tables): the clients for download.
    \<open>Server_Program\<close> (\<open>internal/config\<close>, \<open>cmd/server\<close>): the configuration and the listeners.
  \<^item> \<^emph>\<open>The client.\<close>  \<open>Client_Session\<close> (\<open>internal/client/client.go\<close>): the session with the server.  \<open>Client_Program\<close>
    (\<open>cmd/client\<close>, the dialling parts of \<open>internal/client\<close>): flags, installation as a service, choice of a transport.
  \<^item> \<^emph>\<open>Upgrades.\<close>  \<open>Version\<close>, \<open>Upgrade_Offer\<close> (\<open>internal/upgrade/security.go\<close>); \<open>Upgrade_Manager\<close>
    (\<open>internal/manager/upgrade_manager.go\<close>), the server's side; \<open>Upgrade_Receiver\<close> (\<open>receiver.go\<close>), the client's;
    \<open>Upgrade_Transfer\<close>, the two together; \<open>Upgrade_Apply\<close> (\<open>apply.go\<close>, \<open>platform_unix.go\<close>), the helper that replaces the
    executable.

  \<^bold>\<open>State and operations\<close>

  A struct is a record with the fields of the source that matter to its operations, an operation a function from the
  old state to its result and the new state, with one branch for each return of the code.  Integers have the width of
  the source (\<open>u32\<close>, \<open>i64\<close> and so on are words); Go's \<open>int\<close> is \<open>int\<close> or \<open>nat\<close> where it counts.  Strings are lists of
  characters that stand for bytes.  A Go map is a map of HOL, or a list where its order matters; where the code ranges
  over a map, the order is an argument.  Pointers that several goroutines hold become places in a store (\<open>hb_objects\<close> of
  the hub, \<open>in_store\<close> of an inlet, the numbered connections of an outlet).  Errors are values of a datatype or, where
  only their text is used, strings.

  The goroutines are steps of a relation: \<open>inlet_run\<close>, \<open>outlet_run\<close>, \<open>px_run\<close>, \<open>hub_run\<close>, \<open>client_run\<close>, \<open>flow_run\<close>,
  \<open>tm_run\<close>, \<open>um_run\<close>, \<open>rc_run\<close>, \<open>pg_reachable\<close>, \<open>socks5_run\<close>, \<open>ss_tcp_run\<close>, \<open>link_step\<close>.  A step is what one goroutine does
  between two points where another can see the difference, that is a critical section with the calls that depend on it;
  runs interleave the steps in any order.  A method that holds its component's lock throughout is one step.  What the
  outside answers is an argument of the step or a record of answers: whether a read, write or dial succeeds and what it
  brings, what a statement to the database returns, the clock, random bytes.  A call that waits is a step that is not
  possible yet (a full window, an empty queue).

  \<^bold>\<open>Parameters\<close>

  Code that is not in the repository is an argument with its documented behaviour as a hypothesis, and every theorem
  with such a hypothesis has a witness on a concrete instance: \<open>protowire\<close> (\<open>protowire_laws\<close>); LZ4 and AES-SIV
  (\<open>crypto_env\<close>); MD5, HKDF and the AEAD ciphers (\<open>lawful_ss\<close>); \<open>http.ReadRequest\<close> and \<open>url.Parse\<close> (\<open>http_env\<close>,
  \<open>uri_parser\<close>); SHA-256, HMAC and the Unicode part of \<open>ToLower\<close> (\<open>digests\<close>); the JSON coding of the embedded
  configuration (\<open>config_json\<close>); the template directory and the compiler (\<open>build_env\<close>); the service manager, the processes
  and the failures of the file system (\<open>helper_io\<close> and the records in it); the WebSocket library (\<open>ws_event\<close>).

  \<^bold>\<open>What the theorems show\<close>

  \<^item> \<^emph>\<open>Nothing is lost or changed on the way.\<close>  Messages, frames, addresses, session data, Shadowsocks streams, WebSocket
    messages, the configuration inside a built client and the command line of a service are read back as they were written,
    however the bytes are cut; a tunnel delivers to each end what the other sent, in order, and all of it, and its
    finitely many steps come to an end (by a simulation of the two components by a specification of a wire).
  \<^item> \<^emph>\<open>Nobody gets what is not his.\<close>  Frames reach only the two ends of an enabled tunnel; SOCKS5 tunnels with a user ask for
    the credentials first; keys and ids are unique; without a login the administration changes nothing; only a candidate
    with the signed digest is handed over.
  \<^item> \<^emph>\<open>The state stays consistent.\<close>  The invariants of the tunnel manager, the players, the hub and its sessions, the inlets,
    the outlets and the proxy managers, under every interleaving; closing ends; nothing is left open.
  \<^item> \<^emph>\<open>Parts agree with each other.\<close>  Inlets and outlets follow the tunnels, a client follows its server, the pages offer an
    upgrade where the handler would start one, a client that can be built can connect, an upgrade arrives whole and never
    leaves a machine without its client.
  \<^item> Lemmas that are not properties record behaviour that looks unintended, each with the step that leads to it:
    \<open>closed_session_login\<close>, \<open>moved_tunnel_not_stopped\<close>, \<open>stale_receiver\<close>, \<open>old_reader_drops_new_session\<close>,
    \<open>reused_id_refused\<close>, \<open>connect_after_goodbye\<close>, \<open>compare_versions_not_antisymmetric\<close>, \<open>result_unprotects_backup\<close>,
    \<open>late_login_runs\<close>, \<open>service_keeps_embedded_tls\<close>, \<open>pass_without_pause\<close>.

  \<^bold>\<open>Bounds and fuel\<close>

  Loops are recursive functions with a measure, except where the code's loop depends on a parameter.  \<open>field_loop\<close> gets one
  round more than there are bytes, and a lawful \<open>protowire\<close> consumes a byte in each.  \<open>close_session\<close> gets one more than
  there are sessions: each nested closing closes another (\<open>closing_terminates\<close>).  \<open>next_session_id\<close> needs two rounds
  (\<open>session_ids_positive\<close>), \<open>master_key_loop\<close> as many as the key has bytes (\<open>master_key_loop_total\<close>), an IPv6 address
  eight groups.  Retries of the operating system's calls take a list with one answer for each attempt before the deadline.

  \<^bold>\<open>Not modelled\<close>

  \<^item> Opening and accepting connections (TLS, KCP, QUIC, WebSocket handshakes), deadlines, keep-alive and the forwarding of
    foreign traffic to another server: calls into the standard library and third-party packages without a decision of the
    program's own beyond those in \<open>Client_Program\<close> and \<open>Server_Program\<close>.
  \<^item> SQL, JSON, HTTP and HTML: statements are modelled by their meaning on the tables, requests and responses by their
    decoded content.  The front end in the browser is not Go.
  \<^item> \<open>platform_windows.go\<close>, the registration with the service manager, signals, the log and its wording: no result of the
    program depends on them.
  \<^item> Data races: a critical section is atomic.  Where the code reads a field outside its lock (\<open>conn\<close> and \<open>proxyMgr\<close> of
    the client's session) the model takes one of the two values, as the order of the steps has it.
  \<^item> Panics of goroutines, memory and the capacity of slices, which no result depends on.
\<close>

end
